(* ===== verification/Prelude.thy ===== *)
theory Prelude
  imports Main "HOL-Library.Word" "HOL-Library.Sublist"
begin

text \<open>
  Shared vocabulary of the development.
  \<^item> The part of the C++ standard library the sources use on bytes: the character classes of
    \<^verbatim>\<open><cctype>\<close> in the "C" locale (the repository never calls \<^verbatim>\<open>setlocale\<close>),
    \<^verbatim>\<open>std::string::find\<close> and \<^verbatim>\<open>std::to_string\<close>.
  \<^item> The representation of a scanning position. Every scanner of the sources walks a string
    \<^verbatim>\<open>sql\<close> with an index \<^verbatim>\<open>i\<close>; the model carries the suffix \<^verbatim>\<open>sql[i..]\<close> and, where the
    code looks at \<^verbatim>\<open>sql[i - 1]\<close>, the previous byte as an option (\<^term>\<open>None\<close> is \<^verbatim>\<open>i == 0\<close>).
  \<^item> The locale \<open>scan_loop\<close>, the contract every scanning loop satisfies, with its
    invariant rule.
  \<^item> The collections of rewrite rules the component proofs use.
\<close>

named_theorems cctype_simps \<open>definitions of the character classes\<close>
named_theorems consumes \<open>a scanner never returns more input than it was given\<close>

section \<open>Bytes and character classes\<close>

abbreviation byte :: "char \<Rightarrow> nat" where
  "byte c \<equiv> of_char c"

definition isspace :: "char \<Rightarrow> bool" where
  [cctype_simps]: "isspace c \<longleftrightarrow> byte c = 32 \<or> (9 \<le> byte c \<and> byte c \<le> 13)"

definition isdigit :: "char \<Rightarrow> bool" where
  [cctype_simps]: "isdigit c \<longleftrightarrow> 48 \<le> byte c \<and> byte c \<le> 57"

definition isupper :: "char \<Rightarrow> bool" where
  [cctype_simps]: "isupper c \<longleftrightarrow> 65 \<le> byte c \<and> byte c \<le> 90"

definition islower :: "char \<Rightarrow> bool" where
  [cctype_simps]: "islower c \<longleftrightarrow> 97 \<le> byte c \<and> byte c \<le> 122"

definition isalpha :: "char \<Rightarrow> bool" where
  [cctype_simps]: "isalpha c \<longleftrightarrow> isupper c \<or> islower c"

definition isalnum :: "char \<Rightarrow> bool" where
  [cctype_simps]: "isalnum c \<longleftrightarrow> isalpha c \<or> isdigit c"

definition isxdigit :: "char \<Rightarrow> bool" where
  [cctype_simps]: "isxdigit c \<longleftrightarrow> isdigit c \<or> (65 \<le> byte c \<and> byte c \<le> 70) \<or> (97 \<le> byte c \<and> byte c \<le> 102)"

definition toupper :: "char \<Rightarrow> char" where
  "toupper c = (if islower c then char_of (byte c - 32) else c)"

definition tolower :: "char \<Rightarrow> char" where
  "tolower c = (if isupper c then char_of (byte c + 32) else c)"

text \<open>The identifier characters most scanners agree on: \<^verbatim>\<open>std::isalnum(c) || c == '_'\<close>.\<close>

definition isIdent :: "char \<Rightarrow> bool" where
  [cctype_simps]: "isIdent c \<longleftrightarrow> isalnum c \<or> c = CHR ''_''"

text \<open>
  The bytes written as escapes in the sources: \<^verbatim>\<open>'\''\<close>, \<^verbatim>\<open>'"'\<close>, \<^verbatim>\<open>'`'\<close>, \<^verbatim>\<open>'\\'\<close>,
  \<^verbatim>\<open>'\n'\<close> and \<^verbatim>\<open>'\0'\<close>.
\<close>

abbreviation SQ :: char where "SQ \<equiv> CHR 0x27"
abbreviation DQ :: char where "DQ \<equiv> CHR 0x22"
abbreviation BQ :: char where "BQ \<equiv> CHR 0x60"
abbreviation BSL :: char where "BSL \<equiv> CHR 0x5C"
abbreviation NL :: char where "NL \<equiv> CHR 0x0A"
abbreviation NUL :: char where "NUL \<equiv> CHR 0x00"
abbreviation SP :: char where "SP \<equiv> CHR 0x20"

section \<open>Strings\<close>

text \<open>\<^verbatim>\<open>s.find(pat)\<close>: the offset of the first occurrence, \<^term>\<open>None\<close> for \<^verbatim>\<open>npos\<close>.\<close>

fun str_find :: "string \<Rightarrow> string \<Rightarrow> nat option" where
  "str_find pat [] = (if pat = [] then Some 0 else None)"
| "str_find pat (c # cs) =
     (if prefix pat (c # cs) then Some 0 else map_option Suc (str_find pat cs))"

text \<open>\<^verbatim>\<open>std::to_string\<close> of an unsigned value.\<close>

fun dec_digits :: "nat \<Rightarrow> string" where
  "dec_digits n = (if n < 10 then [char_of (48 + n)]
     else dec_digits (n div 10) @ [char_of (48 + n mod 10)])"

declare dec_digits.simps [simp del]

definition to_string :: "nat \<Rightarrow> string" where
  "to_string n = dec_digits n"

text \<open>\<^verbatim>\<open>std::to_string\<close> of a signed value.\<close>

definition to_string_int :: "int \<Rightarrow> string" where
  "to_string_int k = (if k < 0 then CHR ''-'' # to_string (nat (- k)) else to_string (nat k))"

text \<open>\<^verbatim>\<open>sql[i - 1]\<close> after a scanner has moved from the suffix \<open>s\<close> to the shorter suffix \<open>r\<close>.\<close>

definition prev_after :: "string \<Rightarrow> string \<Rightarrow> char" where
  "prev_after s r = s ! (length s - length r - 1)"

text \<open>The bytes a scanner has moved over.\<close>

definition consumed :: "string \<Rightarrow> string \<Rightarrow> string" where
  "consumed s r = take (length s - length r) s"

section \<open>Lemmas on strings\<close>

lemma str_find_bound: "str_find pat s = Some k \<Longrightarrow> k + length pat \<le> length s"
proof (induction s arbitrary: k)
  case Nil
  then show ?case by (auto split: if_splits)
next
  case (Cons c cs)
  then show ?case
    by (fastforce split: if_splits dest: prefix_length_le)
qed

lemma str_find_prefix: "str_find pat s = Some k \<Longrightarrow> prefix pat (drop k s)"
proof (induction s arbitrary: k)
  case Nil
  then show ?case by (auto split: if_splits)
next
  case (Cons c cs)
  then show ?case by (fastforce split: if_splits)
qed

lemma str_find_first: "str_find pat s = Some k \<Longrightarrow> j < k \<Longrightarrow> \<not> prefix pat (drop j s)"
proof (induction s arbitrary: j k)
  case Nil
  then show ?case by (auto split: if_splits)
next
  case (Cons c cs)
  then show ?case by (cases j) (fastforce split: if_splits)+
qed

lemma str_find_None: "str_find pat s = None \<Longrightarrow> j \<le> length s \<Longrightarrow> \<not> prefix pat (drop j s)"
proof (induction s arbitrary: j)
  case Nil
  then show ?case by (auto split: if_splits)
next
  case (Cons c cs)
  then show ?case by (cases j) (auto split: if_splits)
qed

lemma str_find_split:
  assumes "str_find pat s = Some k"
  shows "s = take k s @ pat @ drop (k + length pat) s"
  using str_find_prefix [OF assms]
  by (metis add.commute append_eq_conv_conj append_take_drop_id drop_drop prefix_def)

lemma length_dropWhile_le [simp]: "length (dropWhile P s) \<le> length s"
  by (induction s) auto

lemma length_dropWhile_trans: "length s \<le> n \<Longrightarrow> length (dropWhile P s) \<le> n"
  by (rule le_trans [OF length_dropWhile_le])

lemma length_tl_less: "s \<noteq> [] \<Longrightarrow> length (tl s) < length s"
  by (cases s) auto

lemma consumed_append: "length r \<le> length s \<Longrightarrow> consumed (s @ x) (r @ x) = consumed s r"
  by (simp add: consumed_def)

lemma length_consumed: "length r \<le> length s \<Longrightarrow> length (consumed s r) = length s - length r"
  by (simp add: consumed_def)

lemma prev_after_append:
  "length r < length s \<Longrightarrow> prev_after (s @ x) (r @ x) = prev_after s r"
proof -
  assume "length r < length s"
  then have "length s - length r - 1 < length s" by linarith
  then show ?thesis by (simp add: prev_after_def nth_append)
qed

lemma dropWhile_append_stop:
  "x = [] \<or> \<not> P (hd x) \<Longrightarrow> dropWhile P (s @ x) = dropWhile P s @ x"
  by (cases x; induction s) auto

lemma takeWhile_append_stop:
  "x = [] \<or> \<not> P (hd x) \<Longrightarrow> takeWhile P (s @ x) = takeWhile P s"
  by (cases x; induction s) auto

lemma suffix_split: "suffix r s \<Longrightarrow> s = consumed s r @ r"
  by (auto simp: suffix_def consumed_def)

lemma ex_append_Cons:
  "(\<exists>pre rest. c # cs = pre @ rest \<and> Q pre rest) \<longleftrightarrow>
   Q [] (c # cs) \<or> (\<exists>pre rest. cs = pre @ rest \<and> Q (c # pre) rest)"
  by (auto simp: Cons_eq_append_conv)

lemma byte_toupper: "byte (toupper c) = (if islower c then byte c - 32 else byte c)"
  by (auto simp: toupper_def islower_def)

lemma toupper_other:
  assumes "\<not> isupper x" "\<not> islower x"
  shows "toupper c = x \<longleftrightarrow> c = x"
proof
  assume x: "toupper c = x"
  show "c = x"
  proof (cases "islower c")
    case True
    then have "isupper (toupper c)"
      unfolding isupper_def byte_toupper by (auto simp: islower_def)
    with x assms show ?thesis by simp
  next
    case False
    with x show ?thesis by (simp add: toupper_def)
  qed
next
  assume "c = x"
  with assms show "toupper c = x" by (simp add: toupper_def)
qed

lemma toupper_paren:
  "toupper c = CHR ''('' \<longleftrightarrow> c = CHR ''(''" "toupper c = CHR '')'' \<longleftrightarrow> c = CHR '')''"
  by (rule toupper_other; simp add: cctype_simps)+

lemma ex_append_take_drop:
  "(\<exists>pre rest. s = pre @ rest \<and> Q pre rest) \<longleftrightarrow> (\<exists>i\<le>length s. Q (take i s) (drop i s))"
proof
  assume "\<exists>pre rest. s = pre @ rest \<and> Q pre rest"
  then obtain pre rest where "s = pre @ rest" "Q pre rest" by blast
  then show "\<exists>i\<le>length s. Q (take i s) (drop i s)"
    by (intro exI [of _ "length pre"]) simp
next
  assume "\<exists>i\<le>length s. Q (take i s) (drop i s)"
  then show "\<exists>pre rest. s = pre @ rest \<and> Q pre rest"
    by (metis append_take_drop_id)
qed

lemma ex_earlier:
  "(\<exists>j < n. A j \<and> B j \<and> C j \<and> (\<exists>i < j. D i \<and> E i)) \<longleftrightarrow>
   (\<exists>i j. i < j \<and> j < n \<and> D i \<and> E i \<and> A j \<and> B j \<and> C j)" for n :: nat
  by blast

text \<open>
  Case analysis on the shape of a loop body, one rule per construct, so that a proof about every
  branch visits each branch once.
\<close>

lemma if_branches: "(b \<Longrightarrow> P x) \<Longrightarrow> (\<not> b \<Longrightarrow> P y) \<Longrightarrow> P (if b then x else y)"
  by simp

lemma option_branches:
  "(z = None \<Longrightarrow> P x) \<Longrightarrow> (\<And>v. z = Some v \<Longrightarrow> P (f v)) \<Longrightarrow> P (case z of None \<Rightarrow> x | Some v \<Rightarrow> f v)"
  by (cases z) simp_all

section \<open>Scanning loops\<close>

text \<open>
  The contract of a scanning loop \<open>while (i < n) body\<close>: \<open>body st c cs\<close> is one iteration at the
  byte \<open>c\<close> followed by \<open>cs\<close>; it returns the new loop variables and the remaining suffix, and it
  always moves forward.
\<close>

locale scan_loop =
  fixes body :: "'st \<Rightarrow> char \<Rightarrow> string \<Rightarrow> 'st \<times> string"
    and run :: "'st \<Rightarrow> string \<Rightarrow> 'st"
  assumes run_Nil: "run st [] = st"
    and run_Cons: "run st (c # cs) = (case body st c cs of (st', r) \<Rightarrow> run st' r)"
    and body_forward: "body st c cs = (st', r) \<Longrightarrow> length r \<le> length cs"
begin

text \<open>
  The invariant rule: a relation between the loop variables and the input still to be read
  that every iteration keeps holds when the input is exhausted.
\<close>

lemma run_invariant:
  assumes start: "I st s"
    and keep: "\<And>st c cs st' r. I st (c # cs) \<Longrightarrow> body st c cs = (st', r) \<Longrightarrow> I st' r"
  shows "I (run st s) []"
  using start
proof (induction s arbitrary: st rule: length_induct)
  case (1 s)
  show ?case
  proof (cases s)
    case Nil
    with "1.prems" show ?thesis by (simp add: run_Nil)
  next
    case (Cons c cs)
    obtain st' r where b: "body st c cs = (st', r)" by fastforce
    have "I st' r" using keep "1.prems" Cons b by blast
    moreover have "length r < length s" using body_forward [OF b] Cons by simp
    ultimately show ?thesis using "1.IH" b Cons by (simp add: run_Cons)
  qed
qed

text \<open>
  Reading a stretch \<open>p\<close> of the input first: if every iteration inside \<open>p\<close> stays inside
  \<open>p\<close> whatever follows, the loop over \<open>p @ x\<close> arrives at \<open>x\<close> with loop variables that
  do not depend on \<open>x\<close>.
\<close>

lemma run_stretch:
  assumes ok: "P p"
    and loc: "\<And>st c cs. P (c # cs) \<Longrightarrow> \<exists>st' r. P r \<and> length r \<le> length cs \<and>
                (\<forall>x. F x \<longrightarrow> body st c (cs @ x) = (st', r @ x))"
  shows "\<exists>st'. \<forall>x. F x \<longrightarrow> run st (p @ x) = run st' x"
  using ok
proof (induction p arbitrary: st rule: length_induct)
  case (1 p)
  show ?case
  proof (cases p)
    case Nil
    then show ?thesis by auto
  next
    case (Cons c cs)
    with loc "1.prems" obtain st' r where r: "P r" "length r \<le> length cs"
        "\<forall>x. F x \<longrightarrow> body st c (cs @ x) = (st', r @ x)"
      by blast
    then have "length r < length p" using Cons by simp
    then obtain st'' where "\<forall>x. F x \<longrightarrow> run st' (r @ x) = run st'' x"
      using "1.IH" r(1) by blast
    then show ?thesis using r(3) Cons by (auto simp: run_Cons)
  qed
qed

end

lemma dec_digits_range: "x \<in> set (dec_digits n) \<Longrightarrow> isdigit x"
proof (induction n rule: dec_digits.induct)
  case (1 n)
  have d: "isdigit (char_of (48 + k))" if "k < 10" for k :: nat
    using that by (simp add: isdigit_def)
  show ?case
    using 1 d by (subst (asm) dec_digits.simps) (auto split: if_splits)
qed

text \<open>The value of a string of decimal digits, and that printing and reading a number agree.\<close>

definition dec_value :: "string \<Rightarrow> nat" where
  "dec_value s = foldl (\<lambda>n c. 10 * n + (byte c - 48)) 0 s"

lemma dec_value_digits: "dec_value (dec_digits n) = n"
proof (induction n rule: dec_digits.induct)
  case (1 n)
  show ?case
  proof (cases "n < 10")
    case True
    then show ?thesis by (subst dec_digits.simps) (simp add: dec_value_def)
  next
    case False
    then have "dec_value (dec_digits n) = 10 * (n div 10) + n mod 10"
      using 1 by (subst dec_digits.simps) (simp add: dec_value_def)
    then show ?thesis by simp
  qed
qed

lemma to_string_digit_front: "\<exists>c cs. to_string n = c # cs \<and> isdigit c"
proof -
  have "dec_digits n \<noteq> []" by (subst dec_digits.simps) simp
  then obtain c cs where "dec_digits n = c # cs" by (cases "dec_digits n") auto
  then show ?thesis using dec_digits_range [of c n] by (simp add: to_string_def)
qed

lemma dec_value_append_digit: "dec_value (s @ [c]) = 10 * dec_value s + (byte c - 48)"
  by (simp add: dec_value_def)

lemma to_string_value [simp]: "dec_value (to_string n) = n"
  by (simp add: to_string_def dec_value_digits)

lemma to_string_digits: "\<forall>c \<in> set (to_string n). isdigit c"
  using dec_digits_range by (auto simp: to_string_def)

end
