(* ===== verification/Types.thy ===== *)
theory Types
  imports Prelude "HOL-Library.List_Lexorder" "HOL-Library.Char_ord"
begin

text \<open>
  The data every component passes around: \<^verbatim>\<open>include/sqlconduit/common/types.h\<close> and the error
  classification of \<^verbatim>\<open>src/common/types.cpp\<close>.

  Integers of a \<open>Value\<close> keep their 64-bit width. A \<^verbatim>\<open>double\<close> is its 64-bit pattern (no component
  modelled here computes with one), a \<^verbatim>\<open>Timestamp\<close> its tick count. A \<open>Row\<close> is a
  \<^verbatim>\<open>std::map<std::string, Value>\<close>: an association list kept sorted by the byte order of its keys,
  which is the iteration order the code relies on. Enumerators that would clash with those of
  another enumeration carry a prefix: \<open>V\<close> for the alternatives of \<open>Value\<close>, \<open>T\<close> for
  \<open>ValueType\<close>, \<open>Op\<close> for \<open>OperationType\<close>.
\<close>

section \<open>Values\<close>

datatype Value =
    VNull | VBool bool | VInt64 "64 word" | VUInt64 "64 word" | VDouble "64 word"
  | VDecimal string | VString string | VDate string | VTime string | VTimestamp int
  | VUuid string | VJson string | VBlob "8 word list"
  | VIntervalYearMonth string | VIntervalDaySecond string
  | VArray "Value list" | VComposite "(string \<times> Value) list"
  | VTypedArray string "Value list" | VTypedComposite string "(string \<times> Value) list"

type_synonym Params = "Value list"

text \<open>\<^verbatim>\<open>Composite::find\<close> and \<^verbatim>\<open>TypedComposite::find\<close>: the first field of that name.\<close>

fun composite_find :: "(string \<times> Value) list \<Rightarrow> string \<Rightarrow> Value option" where
  "composite_find [] name = None"
| "composite_find ((n, v) # fs) name = (if n = name then Some v else composite_find fs name)"

section \<open>Ordered maps\<close>

text \<open>
  \<^verbatim>\<open>std::map\<close>: what a lookup returns after an insertion, that the keys stay strictly sorted, and
  that insertion adds no other key.
\<close>

type_synonym ('k, 'v) omap = "('k \<times> 'v) list"

fun omap_set :: "'k::linorder \<Rightarrow> 'v \<Rightarrow> ('k, 'v) omap \<Rightarrow> ('k, 'v) omap" where
  "omap_set k v [] = [(k, v)]"
| "omap_set k v ((k', v') # m) =
     (if k < k' then (k, v) # (k', v') # m
      else if k = k' then (k, v) # m
      else (k', v') # omap_set k v m)"

definition omap_ok :: "('k::linorder, 'v) omap \<Rightarrow> bool" where
  "omap_ok m \<longleftrightarrow> sorted_wrt (<) (map fst m)"

locale ordered_map =
  fixes invar :: "'m \<Rightarrow> bool"
    and lookup :: "'m \<Rightarrow> 'k::linorder \<Rightarrow> 'v option"
    and update :: "'k \<Rightarrow> 'v \<Rightarrow> 'm \<Rightarrow> 'm"
    and keys :: "'m \<Rightarrow> 'k list"
    and emptymap :: "'m"
  assumes invar_empty: "invar emptymap"
    and lookup_empty: "lookup emptymap k = None"
    and invar_update: "invar m \<Longrightarrow> invar (update k v m)"
    and lookup_update: "invar m \<Longrightarrow> lookup (update k v m) k' = (if k = k' then Some v else lookup m k')"
    and keys_lookup: "invar m \<Longrightarrow> set (keys m) = {k. lookup m k \<noteq> None}"
    and keys_sorted: "invar m \<Longrightarrow> sorted_wrt (<) (keys m)"
begin

text \<open>Filling a map from a list of entries: the last entry of a key wins, the keys are its keys.\<close>

lemma fill_invar: "invar m \<Longrightarrow> invar (fold (\<lambda>(k, v). update k v) es m)"
  by (induction es arbitrary: m) (auto simp: invar_update)

lemma fill_lookup:
  "invar m \<Longrightarrow> lookup (fold (\<lambda>(k, v). update k v) es m) k =
     (case map_of (rev es) k of Some v \<Rightarrow> Some v | None \<Rightarrow> lookup m k)"
proof (induction es arbitrary: m)
  case (Cons e es)
  obtain a b where e: "e = (a, b)" by fastforce
  then show ?case
    using Cons by (auto simp: invar_update lookup_update map_add_def split: option.splits)
qed simp

lemma keys_distinct: "invar m \<Longrightarrow> distinct (keys m)"
  by (drule keys_sorted) (simp add: strict_sorted_iff)

lemma fill_keys:
  "set (keys (fold (\<lambda>(k, v). update k v) es emptymap)) = fst ` set es"
proof -
  have "lookup (fold (\<lambda>(k, v). update k v) es emptymap) k = map_of (rev es) k" for k
    by (simp add: fill_lookup invar_empty lookup_empty split: option.split)
  moreover have "{k. map_of (rev es) k \<noteq> None} = fst ` set es"
    using dom_map_of_conv_image_fst [of "rev es"] by (simp add: dom_def)
  ultimately show ?thesis by (simp add: keys_lookup fill_invar invar_empty)
qed

end

lemma omap_set_keys: "fst ` set (omap_set k v m) = insert k (fst ` set m)"
  by (induction k v m rule: omap_set.induct) auto

lemma omap_ok_set: "omap_ok m \<Longrightarrow> omap_ok (omap_set k v m)"
proof (induction k v m rule: omap_set.induct)
  case (2 k v k' v' m)
  have "\<forall>x \<in> fst ` set (omap_set k v m). k' < x" if "k' < k"
    using that 2 by (auto simp: omap_set_keys omap_ok_def)
  with 2 show ?case by (auto simp: omap_ok_def)
qed (simp add: omap_ok_def)

lemma omap_lookup_set:
  "omap_ok m \<Longrightarrow> map_of (omap_set k v m) k' = (if k = k' then Some v else map_of m k')"
  by (induction k v m rule: omap_set.induct) (auto simp: omap_ok_def)

interpretation std_map: ordered_map omap_ok map_of omap_set "map fst" "[]"
proof unfold_locales
  fix m :: "('a, 'b) omap" and k k' v
  show "omap_ok m \<Longrightarrow> omap_ok (omap_set k v m)" by (rule omap_ok_set)
  show "omap_ok m \<Longrightarrow> map_of (omap_set k v m) k' = (if k = k' then Some v else map_of m k')"
    by (rule omap_lookup_set)
  show "omap_ok m \<Longrightarrow> set (map fst m) = {k. map_of m k \<noteq> None}"
    by (simp add: dom_map_of_conv_image_fst [symmetric] dom_def)
qed (simp_all add: omap_ok_def)

section \<open>Rows and result sets\<close>

type_synonym Row = "(string, Value) omap"

definition row_has :: "Row \<Rightarrow> string \<Rightarrow> bool" where
  "row_has r col \<longleftrightarrow> map_of r col \<noteq> None"

definition row_at :: "Row \<Rightarrow> string \<Rightarrow> Value" where
  "row_at r col = (case map_of r col of None \<Rightarrow> VNull | Some v \<Rightarrow> v)"

record ResultSet =
  rs_fields :: "string list"
  rs_rows :: "Row list"
  transformed :: bool

definition empty_rs :: ResultSet where
  "empty_rs = \<lparr>rs_fields = [], rs_rows = [], transformed = False\<rparr>"

datatype ExecutionMode = Native | CompatibilityFallback

datatype ParamDirection = In | Out | InOut

datatype ValueType =
    TAuto | TBool | TInt64 | TUInt64 | TDouble | TDecimal | TString | TDate | TTime | TTimestamp
  | TUuid | TJson | TBlob | TIntervalYearMonth | TIntervalDaySecond | TTypedArray | TTypedComposite
  | TRefCursor

record CallParam =
  cp_value :: Value
  direction :: ParamDirection
  cp_type :: ValueType
  typeName :: string
  maxBytes :: nat

datatype OperationType =
    OpQuery | OpExecute | OpBegin | OpCommit | OpRollback | OpCancel | OpStream | OpBatch
  | OpSavepoint | OpSelect | OpRoutine

section \<open>Status\<close>

datatype ErrorCode =
    Ok | ConfigError | ConnectionFailed | QueryError | QueryTimeout | Cancelled
  | ConstraintViolation | Deadlock | PingFailed | TxError | PoolExhausted | PoolClosed
  | CircuitOpen | NotConnected | DriverDisabled | UnknownDriver | NotSupported | RateLimited
  | SqlBlocked | Buffered | CursorClosed | CursorLimit | CursorError | UnknownError | Overloaded
  | MappingError | IoError | NotInitialized | AlreadyInitialized | ClientClosed

record Status =
  code :: ErrorCode
  message :: string
  sqlState :: string
  nativeCode :: int
  retryable :: bool
  connectionBroken :: bool
  outcomeUnknown :: bool

definition status_ok :: "Status \<Rightarrow> bool" where
  "status_ok s \<longleftrightarrow> code s = Ok"

definition OK :: Status where
  "OK = \<lparr>code = Ok, message = [], sqlState = [], nativeCode = 0, retryable = False,
         connectionBroken = False, outcomeUnknown = False\<rparr>"

definition error :: "ErrorCode \<Rightarrow> string \<Rightarrow> Status" where
  "error c msg = OK\<lparr>code := c, message := msg\<rparr>"

text \<open>The classification of a vendor error by its SQLSTATE.\<close>

definition databaseError :: "ErrorCode \<Rightarrow> string \<Rightarrow> string \<Rightarrow> int \<Rightarrow> Status" where
  "databaseError fallback msg state vendorCode =
     (let st = (error fallback msg)\<lparr>sqlState := state, nativeCode := vendorCode\<rparr>;
          sqlClass = (if length state \<ge> 2 then take 2 state else [])
      in if state = ''HYT00'' \<or> state = ''HYT01'' then st\<lparr>code := QueryTimeout, retryable := True\<rparr>
         else if state = ''57014'' then
           (if str_find ''timeout'' msg \<noteq> None then st\<lparr>code := QueryTimeout, retryable := True\<rparr>
            else st\<lparr>code := Cancelled\<rparr>)
         else if state = ''HY008'' then st\<lparr>code := Cancelled\<rparr>
         else if state = ''40001'' \<or> state = ''40P01'' \<or> sqlClass = ''40'' then
           st\<lparr>code := Deadlock, retryable := True\<rparr>
         else if sqlClass = ''23'' then st\<lparr>code := ConstraintViolation\<rparr>
         else if sqlClass = ''08'' then
           (let st' = st\<lparr>connectionBroken := True, retryable := True\<rparr> in
            if fallback = QueryError \<or> fallback = TxError then st'\<lparr>code := ConnectionFailed\<rparr> else st')
         else st)"

lemma status_ok_OK [simp]: "status_ok OK"
  by (simp add: status_ok_def OK_def)

lemma status_ok_error [simp]: "status_ok (error c msg) \<longleftrightarrow> c = Ok"
  by (simp add: status_ok_def error_def)

lemma code_error [simp]: "code (error c msg) = c"
  by (simp add: error_def)

end
