(* ===== verification/SqlAnalyze.thy ===== *)
theory SqlAnalyze
  imports Prelude
begin

text \<open>
  The dialect-agnostic SQL scanner of \<^verbatim>\<open>src/common/sql_analyze.cpp\<close>: the structural template and
  its FNV-1a fingerprint, the masking of comments and literals, and the questions the auditor, the
  cache and the router ask of a statement (its kind, whether it is a write, whether it has a
  WHERE or a row limit, whether it holds several statements).

  Each \<^verbatim>\<open>while\<close> loop is a body (\<open>..._step\<close>, one iteration) and a run (\<open>..._loop\<close>). A position
  \<^verbatim>\<open>i\<close> is the suffix \<^verbatim>\<open>sql[i..]\<close>, with the byte \<^verbatim>\<open>sql[i - 1]\<close> beside it where the code
  looks back. Nesting depths are \<^verbatim>\<open>int\<close> in the code and never decremented below zero except in
  \<open>maskCompoundBody\<close>; they are \<open>nat\<close> and \<open>int\<close> here, so a statement is taken to hold fewer than
  $2^{31}$ opening parentheses.
\<close>

section \<open>Statement kinds\<close>

datatype StatementKind = Unknown | Select | Insert | Update | Delete | Ddl | Other

section \<open>Pieces shared by the scanners\<close>

text \<open>
  The loop over a quoted region, entered after the opening quote: the suffix after the closing
  quote. A backslash escapes the next byte, a doubled quote is content, and an unterminated
  region runs to the end.
\<close>

fun skip_quoted :: "char \<Rightarrow> string \<Rightarrow> string" where
  "skip_quoted q [] = []"
| "skip_quoted q (c # cs) =
     (if c = BSL \<and> cs \<noteq> [] then skip_quoted q (tl cs)
      else if c = q then
        (if cs \<noteq> [] \<and> hd cs = q then skip_quoted q (tl cs) else cs)
      else skip_quoted q cs)"

text \<open>The two comment openings, at the byte \<open>c\<close> followed by \<open>cs\<close>.\<close>

definition line_comment_at :: "char \<Rightarrow> string \<Rightarrow> bool" where
  "line_comment_at c cs \<longleftrightarrow> c = CHR ''-'' \<and> cs \<noteq> [] \<and> hd cs = CHR ''-''"

definition block_comment_at :: "char \<Rightarrow> string \<Rightarrow> bool" where
  "block_comment_at c cs \<longleftrightarrow> c = CHR ''/'' \<and> cs \<noteq> [] \<and> hd cs = CHR ''*''"

text \<open>
  The end of a block comment, searched from behind its \<^verbatim>\<open>/*\<close>; without a closing \<^verbatim>\<open>*/\<close>
  the comment runs to the end of the text.
\<close>

definition after_block_comment :: "string \<Rightarrow> string" where
  "after_block_comment cs = (case str_find ''*/'' cs of None \<Rightarrow> [] | Some k \<Rightarrow> drop (k + 2) cs)"

text \<open>
  A dollar quote, at the text behind its first \<^verbatim>\<open>$\<close>: the delimiter, the body and the suffix
  behind the closing delimiter; \<^term>\<open>None\<close> when the tag is not valid or not closed.
\<close>

definition validTag :: "string \<Rightarrow> bool" where
  "validTag cs \<longleftrightarrow> dropWhile isIdent cs \<noteq> [] \<and> hd (dropWhile isIdent cs) = CHR ''$'' \<and>
     (takeWhile isIdent cs = [] \<or> \<not> isdigit (hd cs))"

definition dollar_delimiter :: "string \<Rightarrow> string" where
  "dollar_delimiter cs = CHR ''$'' # takeWhile isIdent cs @ ''$''"

definition dollar_quote :: "string \<Rightarrow> (string \<times> string \<times> string) option" where
  "dollar_quote cs =
     (if \<not> validTag cs then None
      else let delimiter = dollar_delimiter cs; rest = tl (dropWhile isIdent cs) in
        case str_find delimiter rest of
          None \<Rightarrow> None
        | Some k \<Rightarrow> Some (delimiter, take k rest, drop (k + length delimiter) rest))"

section \<open>Structural template and fingerprint\<close>

text \<open>FNV-1a over 64-bit words, as both hashing loops of the file write it.\<close>

definition fnv_step :: "64 word \<Rightarrow> char \<Rightarrow> 64 word" where
  "fnv_step hash c = xor hash (word_of_nat (byte c)) * 1099511628211"

definition fnv1a :: "string \<Rightarrow> 64 word" where
  "fnv1a s = foldl fnv_step 1469598103934665603 s"

text \<open>The \<open>flushSpace\<close> lambda; the pending flag is cleared by every caller.\<close>

definition flushSpace :: "string \<Rightarrow> bool \<Rightarrow> string" where
  "flushSpace out pendingSpace =
     (if pendingSpace \<and> out \<noteq> [] \<and> last out \<noteq> SP then out @ [SP] else out)"

definition digit_or_us :: "char \<Rightarrow> bool" where
  [cctype_simps]: "digit_or_us c \<longleftrightarrow> isdigit c \<or> c = CHR ''_''"

text \<open>The fraction and exponent of a decimal number.\<close>

definition skip_fraction :: "string \<Rightarrow> string" where
  "skip_fraction s =
     (if s \<noteq> [] \<and> hd s = CHR ''.'' then dropWhile digit_or_us (tl s) else s)"

definition skip_exponent :: "string \<Rightarrow> string" where
  "skip_exponent s =
     (if s \<noteq> [] \<and> hd s \<in> {CHR ''e'', CHR ''E''} then
        (let e1 = tl s;
             e2 = (if e1 \<noteq> [] \<and> hd e1 \<in> {CHR ''+'', CHR ''-''} then tl e1 else e1)
         in if e2 \<noteq> [] \<and> digit_or_us (hd e2) then dropWhile digit_or_us e2 else s)
      else s)"

text \<open>The literal behind an optional sign: hexadecimal, binary or decimal.\<close>

definition skip_number :: "string \<Rightarrow> string" where
  "skip_number s =
     (if length s > 1 \<and> hd s = CHR ''0'' \<and> s ! 1 \<in> {CHR ''x'', CHR ''X''} then
        dropWhile (\<lambda>c. isxdigit c \<or> c = CHR ''_'') (drop 2 s)
      else if length s > 1 \<and> hd s = CHR ''0'' \<and> s ! 1 \<in> {CHR ''b'', CHR ''B''} then
        dropWhile (\<lambda>c. c = CHR ''0'' \<or> c = CHR ''1'' \<or> c = CHR ''_'') (drop 2 s)
      else skip_exponent (skip_fraction (dropWhile digit_or_us s)))"

definition plainNumber :: "char \<Rightarrow> string \<Rightarrow> bool" where
  "plainNumber c cs \<longleftrightarrow> isdigit c \<or> (c = CHR ''.'' \<and> cs \<noteq> [] \<and> isdigit (hd cs))"

definition signedNumber :: "char \<Rightarrow> string \<Rightarrow> bool" where
  "signedNumber c cs \<longleftrightarrow> (c = CHR ''+'' \<or> c = CHR ''-'') \<and> cs \<noteq> [] \<and>
     (isdigit (hd cs) \<or> (hd cs = CHR ''.'' \<and> length cs > 1 \<and> isdigit (cs ! 1)))"

definition at_boundary :: "char option \<Rightarrow> bool" where
  "at_boundary prev \<longleftrightarrow> (case prev of None \<Rightarrow> True | Some p \<Rightarrow> \<not> isIdent p)"

text \<open>
  One iteration of \<open>buildStructural\<close>. The loop variables are the previous byte, the output and
  the pending-space flag.
\<close>

type_synonym structural_state = "char option \<times> string \<times> bool"

definition structural_emit :: "char \<Rightarrow> string \<Rightarrow> string \<Rightarrow> bool \<Rightarrow> string \<Rightarrow>
    structural_state \<times> string" where
  "structural_emit c cs out pend r = ((Some (prev_after (c # cs) r), out, pend), r)"

definition structural_step :: "structural_state \<Rightarrow> char \<Rightarrow> string \<Rightarrow> structural_state \<times> string" where
  "structural_step st c cs = (case st of (prev, out, pendingSpace) \<Rightarrow>
     let emit = structural_emit c cs; flushed = flushSpace out pendingSpace in
     if isspace c then emit out (out \<noteq> []) cs
     else if line_comment_at c cs then
       emit out (out \<noteq> []) (dropWhile (\<lambda>x. x \<noteq> NL) cs)
     else if block_comment_at c cs then
       (let r = after_block_comment (tl cs);
            semantic = (length cs > 1 \<and> (cs ! 1 = CHR ''!'' \<or> cs ! 1 = CHR ''+''))
        in if semantic then emit (flushed @ consumed (c # cs) r) False r
           else emit out (out \<noteq> []) r)
     else case (if c = CHR ''$'' then dollar_quote cs else None) of
       Some (delimiter, bodytext, r) \<Rightarrow>
         emit (flushed @ delimiter @ ''<body_hash:'' @ to_string (unat (fnv1a bodytext)) @ ''>''
               @ delimiter) False r
     | None \<Rightarrow>
         if c = SQ then emit (flushed @ ''?'') False (skip_quoted SQ cs)
         else if c = DQ \<or> c = BQ then
           (let r = skip_quoted c cs in emit (flushed @ consumed (c # cs) r) False r)
         else if at_boundary prev \<and> (plainNumber c cs \<or> signedNumber c cs) then
           emit (flushed @ ''?'') False
             (skip_number (if signedNumber c cs then cs else c # cs))
         else emit (flushed @ [c]) False cs)"

lemma length_skip_quoted [consumes]: "length (skip_quoted q cs) \<le> length cs"
  by (induction q cs rule: skip_quoted.induct) auto

lemma length_after_block_comment [consumes]: "length (after_block_comment cs) \<le> length cs"
  by (auto simp: after_block_comment_def split: option.splits)

lemma dollar_quote_Some:
  assumes "dollar_quote cs = Some (delimiter, b, r)"
  shows "cs = takeWhile isIdent cs @ CHR ''$'' # b @ delimiter @ r"
proof -
  let ?d = "dollar_delimiter cs" and ?rest = "tl (dropWhile isIdent cs)"
  have valid: "validTag cs"
    using assms by (auto simp: dollar_quote_def split: if_splits)
  with assms obtain k where k: "str_find ?d ?rest = Some k"
    and eqs: "delimiter = ?d" "b = take k ?rest" "r = drop (k + length ?d) ?rest"
    by (auto simp: dollar_quote_def Let_def split: option.splits)
  have "?rest = b @ delimiter @ r" using str_find_split [OF k] eqs by simp
  moreover have "cs = takeWhile isIdent cs @ CHR ''$'' # ?rest"
    using valid unfolding validTag_def by (metis list.collapse takeWhile_dropWhile_id)
  ultimately show ?thesis by simp
qed

lemma length_dollar_quote [consumes]:
  "dollar_quote cs = Some (d, b, r) \<Longrightarrow> length r \<le> length cs"
proof -
  assume "dollar_quote cs = Some (d, b, r)"
  then have "length cs = length (takeWhile isIdent cs @ CHR ''$'' # b @ d @ r)"
    using dollar_quote_Some by metis
  then show ?thesis by simp
qed

lemma length_skip_fraction [consumes]: "length (skip_fraction s) \<le> length s"
  by (simp add: skip_fraction_def length_dropWhile_trans)

lemma length_skip_exponent [consumes]: "length (skip_exponent s) \<le> length s"
  by (simp add: skip_exponent_def Let_def length_dropWhile_trans)

lemma length_skip_number [consumes]: "length (skip_number s) \<le> length s"
proof -
  have "length (skip_exponent (skip_fraction (dropWhile digit_or_us s))) \<le> length s"
    by (meson le_trans length_skip_exponent length_skip_fraction length_dropWhile_le)
  then show ?thesis by (simp add: skip_number_def length_dropWhile_trans)
qed

lemma skip_number_plain:
  assumes "plainNumber c cs"
  shows "length (skip_number (c # cs)) \<le> length cs"
proof -
  have "length (skip_exponent (skip_fraction (dropWhile digit_or_us (c # cs)))) \<le> length cs"
  proof (cases "isdigit c")
    case True
    then have "dropWhile digit_or_us (c # cs) = dropWhile digit_or_us cs"
      by (simp add: digit_or_us_def)
    then show ?thesis
      by (metis le_trans length_skip_exponent length_skip_fraction length_dropWhile_le)
  next
    case False
    with assms have "c = CHR ''.''" by (simp add: plainNumber_def)
    then have "skip_fraction (dropWhile digit_or_us (c # cs)) = dropWhile digit_or_us cs"
      by (simp add: skip_fraction_def cctype_simps)
    then show ?thesis by (metis le_trans length_skip_exponent length_dropWhile_le)
  qed
  then show ?thesis
    by (simp add: skip_number_def length_dropWhile_trans)
qed

lemma length_after_block_comment_tl [consumes]:
  "length (after_block_comment (tl cs)) \<le> length cs"
  by (rule le_trans [OF length_after_block_comment]) simp

lemma number_forward [consumes]:
  "plainNumber c cs \<or> signedNumber c cs \<Longrightarrow>
   length (skip_number (if signedNumber c cs then cs else c # cs)) \<le> length cs"
  using skip_number_plain [of c cs] length_skip_number [of cs] by auto

lemmas scanner_lengths =
  length_skip_quoted length_after_block_comment_tl number_forward length_dropWhile_trans

lemma structural_step_forward: "length (snd (structural_step st c cs)) \<le> length cs"
proof (cases st)
  case (fields prev out pend)
  show ?thesis
    unfolding fields structural_step_def structural_emit_def Let_def prod.case
    by (intro if_branches [where P = "\<lambda>p. length (snd p) \<le> length cs"]
        option_branches [where P = "\<lambda>p. length (snd p) \<le> length cs"])
      (auto simp del: if_split simp: scanner_lengths length_dollar_quote split: if_split_asm)
qed

text \<open>The loop, and the two functions over it.\<close>

function structural_loop :: "structural_state \<Rightarrow> string \<Rightarrow> structural_state" where
  "structural_loop st [] = st"
| "structural_loop st (c # cs) =
     (case structural_step st c cs of (st', r) \<Rightarrow> structural_loop st' r)"
  by pat_completeness auto
termination
  by (relation "measure (length \<circ> snd)")
    (simp_all add: less_Suc_eq_le, metis structural_step_forward snd_conv)

definition buildStructural :: "string \<Rightarrow> string" where
  "buildStructural sql = fst (snd (structural_loop (None, [], False) sql))"

definition structuralTemplate :: "string \<Rightarrow> string" where
  "structuralTemplate sql = buildStructural sql"

definition fingerprintTemplate :: "string \<Rightarrow> 64 word" where
  "fingerprintTemplate sql = fnv1a (buildStructural sql)"

section \<open>Masking comments and literals\<close>

text \<open>
  One iteration of \<open>maskLiteralRegions\<close>; the loop variable is the text already rewritten. Each
  region becomes as many blanks as it has bytes.
\<close>

definition blanks :: "string \<Rightarrow> string \<Rightarrow> string" where
  "blanks s r = replicate (length s - length r) SP"

definition mask_step :: "string \<Rightarrow> char \<Rightarrow> string \<Rightarrow> string \<times> string" where
  "mask_step out c cs =
     (if line_comment_at c cs then
        (let r = dropWhile (\<lambda>x. x \<noteq> NL) cs in (out @ blanks (c # cs) r, r))
      else if block_comment_at c cs then
        (let r = after_block_comment (tl cs) in (out @ blanks (c # cs) r, r))
      else if c = SQ \<or> c = DQ \<or> c = BQ then
        (let r = skip_quoted c cs in (out @ blanks (c # cs) r, r))
      else case (if c = CHR ''$'' then dollar_quote cs else None) of
        Some (delimiter, b, r) \<Rightarrow> (out @ blanks (c # cs) r, r)
      | None \<Rightarrow> (out @ [c], cs))"

lemma mask_step_forward: "length (snd (mask_step out c cs)) \<le> length cs"
  unfolding mask_step_def Let_def
  by (simp add: scanner_lengths length_dollar_quote split: option.split)

function mask_loop :: "string \<Rightarrow> string \<Rightarrow> string" where
  "mask_loop out [] = out"
| "mask_loop out (c # cs) = (case mask_step out c cs of (out', r) \<Rightarrow> mask_loop out' r)"
  by pat_completeness auto
termination
  by (relation "measure (length \<circ> snd)")
    (simp_all add: less_Suc_eq_le, metis mask_step_forward snd_conv)

definition maskLiteralRegions :: "string \<Rightarrow> string" where
  "maskLiteralRegions sql = mask_loop [] sql"

interpretation structural: scan_loop structural_step structural_loop
  by unfold_locales (simp_all, metis structural_step_forward snd_conv)

interpretation mask: scan_loop mask_step mask_loop
  by unfold_locales (simp_all, metis mask_step_forward snd_conv)


section \<open>Keywords and words\<close>

text \<open>Case-insensitive comparison of a keyword with the text at the position.\<close>

definition word_matches :: "string \<Rightarrow> string \<Rightarrow> bool" where
  "word_matches kw s \<longleftrightarrow> length kw \<le> length s \<and> map toupper (take (length kw) s) = map toupper kw"

definition ident_at :: "string \<Rightarrow> bool" where
  "ident_at s \<longleftrightarrow> s \<noteq> [] \<and> isIdent (hd s)"

text \<open>The scan of \<open>containsTopLevelKeyword\<close> from a position at nesting depth \<open>depth\<close>.\<close>

fun topLevelKeyword_from :: "string \<Rightarrow> char option \<Rightarrow> nat \<Rightarrow> string \<Rightarrow> bool" where
  "topLevelKeyword_from kw prev depth [] = False"
| "topLevelKeyword_from kw prev depth (c # cs) =
     (if length (c # cs) < length kw then False
      else if c = CHR ''('' then topLevelKeyword_from kw (Some c) (depth + 1) cs
      else if c = CHR '')'' then topLevelKeyword_from kw (Some c) (depth - 1) cs
      else if depth \<noteq> 0 then topLevelKeyword_from kw (Some c) depth cs
      else if word_matches kw (c # cs) \<and> at_boundary prev \<and> \<not> ident_at (drop (length kw) (c # cs))
      then True
      else topLevelKeyword_from kw (Some c) depth cs)"

definition containsTopLevelKeyword :: "string \<Rightarrow> string \<Rightarrow> bool" where
  "containsTopLevelKeyword masked kw = topLevelKeyword_from kw None 0 masked"

definition matchWordAt :: "char option \<Rightarrow> string \<Rightarrow> string \<Rightarrow> bool" where
  "matchWordAt prev s kw \<longleftrightarrow>
     word_matches kw s \<and> at_boundary prev \<and> \<not> ident_at (drop (length kw) s)"

definition eatWord :: "char option \<Rightarrow> string \<Rightarrow> string \<Rightarrow> string option" where
  "eatWord prev s kw = (if matchWordAt prev s kw then Some (drop (length kw) s) else None)"

definition nextNonSpace :: "string \<Rightarrow> string" where
  "nextNonSpace s = dropWhile isspace s"

text \<open>The first keyword of the list that matches, as the two \<^verbatim>\<open>for\<close> loops over keywords do.\<close>

fun eatFirst :: "char option \<Rightarrow> string \<Rightarrow> string list \<Rightarrow> string option" where
  "eatFirst prev s [] = None"
| "eatFirst prev s (kw # kws) =
     (case eatWord prev s kw of Some r \<Rightarrow> Some r | None \<Rightarrow> eatFirst prev s kws)"

definition eatBlockTerminator :: "char option \<Rightarrow> string \<Rightarrow> string option" where
  "eatBlockTerminator prev s =
     eatFirst prev s [''CASE'', ''IF'', ''LOOP'', ''WHILE'', ''REPEAT'', ''TRY'', ''CATCH'']"

text \<open>The previous byte after moving from \<open>s\<close> to its suffix \<open>r\<close>, which may be \<open>s\<close> itself.\<close>

definition prev_moved :: "char option \<Rightarrow> string \<Rightarrow> string \<Rightarrow> char option" where
  "prev_moved prev s r = (if length r < length s then Some (prev_after s r) else prev)"

section \<open>Routine bodies\<close>

text \<open>The search for the first \<^verbatim>\<open>BEGIN\<close>: the previous byte and the suffix that starts with it.\<close>

fun find_begin :: "char option \<Rightarrow> string \<Rightarrow> (char option \<times> string) option" where
  "find_begin prev [] = None"
| "find_begin prev (c # cs) =
     (if matchWordAt prev (c # cs) ''BEGIN'' then Some (prev, c # cs) else find_begin (Some c) cs)"

text \<open>
  One iteration of the block scan. \<open>Inr r\<close> is the \<^verbatim>\<open>break\<close> with \<^verbatim>\<open>endPos\<close> at the suffix \<open>r\<close>;
  \<open>Inl (depth, r)\<close> goes on.
\<close>

definition block_step :: "char option \<Rightarrow> int \<Rightarrow> char \<Rightarrow> string \<Rightarrow> (int \<times> string) + string" where
  "block_step prev depth c cs =
     (let s = c # cs in
      case eatWord prev s ''BEGIN'' of Some r \<Rightarrow> Inl (depth + 1, r)
      | None \<Rightarrow>
      case eatWord prev s ''END'' of
        Some r \<Rightarrow>
          (let sp = nextNonSpace r;
               i = (case (if sp \<noteq> [] then eatBlockTerminator (prev_moved prev s sp) sp else None) of
                      Some r' \<Rightarrow> r' | None \<Rightarrow> r)
           in if depth - 1 \<le> 0 then Inr i else Inl (depth - 1, i))
      | None \<Rightarrow>
      case eatFirst prev s [''CASE'', ''LOOP'', ''WHILE'', ''REPEAT''] of Some r \<Rightarrow> Inl (depth + 1, r)
      | None \<Rightarrow>
      case eatWord prev s ''IF'' of
        Some r \<Rightarrow>
          (let sp = nextNonSpace r in
           Inl (if sp \<noteq> [] \<and> hd sp \<noteq> CHR ''('' then depth + 1 else depth, r))
      | None \<Rightarrow> Inl (depth, cs))"

lemma eatWord_forward: "kw \<noteq> [] \<Longrightarrow> eatWord prev (c # cs) kw = Some r \<Longrightarrow> length r \<le> length cs"
  by (cases kw) (auto simp: eatWord_def split: if_splits)

lemma eatFirst_forward:
  "[] \<notin> set kws \<Longrightarrow> eatFirst prev s kws = Some r \<Longrightarrow> length r \<le> length s - 1"
proof (induction kws)
  case Nil
  then show ?case by simp
next
  case (Cons kw kws)
  then show ?case
    by (cases kw) (auto simp: eatWord_def split: option.splits if_splits)
qed

lemma length_nextNonSpace [consumes]: "length (nextNonSpace s) \<le> length s"
  by (simp add: nextNonSpace_def)

lemma eatBlockTerminator_forward:
  "eatBlockTerminator prev s = Some r \<Longrightarrow> length r \<le> length s"
  unfolding eatBlockTerminator_def by (drule eatFirst_forward [rotated]) auto

lemma block_step_forward:
  assumes "block_step prev depth c cs = Inl (d, r)"
  shows "length r \<le> length cs"
proof -
  have tm: "length r' \<le> length cs"
    if "eatWord prev (c # cs) ''END'' = Some e"
      "eatBlockTerminator (prev_moved prev (c # cs) (nextNonSpace e)) (nextNonSpace e) = Some r'" for e r'
    using that eatBlockTerminator_forward eatWord_forward [of "''END''"] length_nextNonSpace
    by (metis le_trans list.distinct(1))
  show ?thesis
    using assms eatFirst_forward [of "[''CASE'', ''LOOP'', ''WHILE'', ''REPEAT'']" prev "c # cs"]
    unfolding block_step_def Let_def
    by (auto split: option.splits if_splits dest: eatWord_forward [rotated] tm)
qed

function block_loop :: "char option \<Rightarrow> int \<Rightarrow> string \<Rightarrow> string option" where
  "block_loop prev depth [] = None"
| "block_loop prev depth (c # cs) =
     (case block_step prev depth c cs of
        Inr endPos \<Rightarrow> Some endPos
      | Inl (depth', r) \<Rightarrow> block_loop (prev_moved prev (c # cs) r) depth' r)"
  by pat_completeness auto
termination
  by (relation "measure (\<lambda>(prev, depth, s). length s)")
    (auto simp: less_Suc_eq_le dest: block_step_forward)

text \<open>The result flag, and the text with the outermost block blanked.\<close>

definition maskCompoundBody :: "string \<Rightarrow> bool \<times> string" where
  "maskCompoundBody s =
     (case find_begin None s of
        None \<Rightarrow> (False, s)
      | Some (prev, b) \<Rightarrow>
        (case block_loop prev 0 b of
           None \<Rightarrow> (False, s)
         | Some e \<Rightarrow>
             if length b \<le> length e then (False, s)
             else (True, consumed s b @ blanks b e @ e)))"

section \<open>The verb of a statement\<close>

definition verb_end :: "char \<Rightarrow> bool" where
  [cctype_simps]: "verb_end c \<longleftrightarrow> isspace c \<or> c = CHR ''('' \<or> c = CHR '';'' \<or> c = CHR ''{''"

definition upperFirstVerb :: "string \<Rightarrow> string" where
  "upperFirstVerb masked = map toupper (takeWhile (\<lambda>c. \<not> verb_end c) (dropWhile isspace masked))"

definition write_verb :: "string \<Rightarrow> bool" where
  "write_verb token \<longleftrightarrow> token \<in> {''INSERT'', ''UPDATE'', ''DELETE'', ''MERGE'', ''REPLACE''}"

text \<open>The scan behind a leading \<^verbatim>\<open>WITH\<close>; \<^term>\<open>None\<close> is the end of the text.\<close>

function mainVerb_loop :: "nat \<Rightarrow> string \<Rightarrow> string \<Rightarrow> string option" where
  "mainVerb_loop depth nestedWrite [] = None"
| "mainVerb_loop depth nestedWrite (c # cs) =
     (if c = CHR ''('' then mainVerb_loop (depth + 1) nestedWrite cs
      else if c = CHR '')'' then mainVerb_loop (depth - 1) nestedWrite cs
      else if isalpha c \<or> c = CHR ''_'' then
        (let token = map toupper (c # takeWhile isIdent cs);
             nested = (if depth > 0 \<and> write_verb token \<and> nestedWrite = [] then token else nestedWrite)
         in if depth = 0 \<and> (token = ''SELECT'' \<or> write_verb token)
            then Some (if nested \<noteq> [] then nested else token)
            else mainVerb_loop depth nested (dropWhile isIdent cs))
      else mainVerb_loop depth nestedWrite cs)"
  by pat_completeness auto
termination
  by (relation "measure (\<lambda>(d, w, s). length s)") (auto simp: less_Suc_eq_le)

definition upperMainVerb :: "string \<Rightarrow> string" where
  "upperMainVerb masked =
     (let first = upperFirstVerb masked in
      if first \<noteq> ''WITH'' then first
      else case mainVerb_loop 0 [] masked of Some v \<Rightarrow> v | None \<Rightarrow> first)"

definition kind_of_verb :: "string \<Rightarrow> StatementKind" where
  "kind_of_verb verb =
     (if verb \<in> {''SELECT'', ''SHOW'', ''EXPLAIN'', ''DESC'', ''DESCRIBE''} then Select
      else if verb \<in> {''INSERT'', ''REPLACE''} then Insert
      else if verb = ''UPDATE'' then Update
      else if verb \<in> {''DELETE'', ''TRUNCATE''} then Delete
      else if verb \<in> {''CREATE'', ''ALTER'', ''DROP'', ''RENAME'', ''GRANT'', ''REVOKE'', ''COMMENT''}
      then Ddl
      else Other)"

definition classifyStatement :: "string \<Rightarrow> StatementKind" where
  "classifyStatement sql = kind_of_verb (upperMainVerb (maskLiteralRegions sql))"

definition isWrite :: "StatementKind \<Rightarrow> bool" where
  "isWrite kind \<longleftrightarrow> kind = Insert \<or> kind = Update \<or> kind = Delete \<or> kind = Ddl \<or> kind = Other"

section \<open>Clauses\<close>

definition hasWhereClause :: "string \<Rightarrow> bool" where
  "hasWhereClause sql = containsTopLevelKeyword (maskLiteralRegions sql) ''WHERE''"

definition hasLimitClause :: "string \<Rightarrow> bool" where
  "hasLimitClause sql = containsTopLevelKeyword (maskLiteralRegions sql) ''LIMIT''"

text \<open>What the row-limit scan looks for at the start \<open>s\<close> of a top-level word.\<close>

definition row_limit_word :: "string \<Rightarrow> bool" where
  "row_limit_word s =
     (let word = map toupper (takeWhile isIdent s);
          q = dropWhile isspace (dropWhile isIdent s)
      in if word = ''FETCH'' then map toupper (takeWhile isalpha q) \<in> {''FIRST'', ''NEXT''}
         else if word = ''ROWNUM'' then q \<noteq> [] \<and> (hd q = CHR ''<'' \<or> hd q = CHR ''='')
         else False)"

fun rowLimit_from :: "char option \<Rightarrow> nat \<Rightarrow> string \<Rightarrow> bool" where
  "rowLimit_from prev depth [] = False"
| "rowLimit_from prev depth (c # cs) =
     (if c = CHR ''('' then rowLimit_from (Some c) (depth + 1) cs
      else if c = CHR '')'' then rowLimit_from (Some c) (depth - 1) cs
      else if depth \<noteq> 0 then rowLimit_from (Some c) depth cs
      else if isalpha c \<and> at_boundary prev \<and> row_limit_word (c # cs) then True
      else rowLimit_from (Some c) depth cs)"

definition hasRowLimitClause :: "string \<Rightarrow> bool" where
  "hasRowLimitClause sql = (hasLimitClause sql \<or> rowLimit_from None 0 (maskLiteralRegions sql))"

section \<open>Several statements\<close>

definition isRoutineDdl :: "string \<Rightarrow> bool" where
  "isRoutineDdl sql =
     (let masked = maskLiteralRegions sql; verb = upperMainVerb masked in
      if verb \<noteq> ''CREATE'' \<and> verb \<noteq> ''ALTER'' then False
      else containsTopLevelKeyword masked ''PROCEDURE'' \<or> containsTopLevelKeyword masked ''FUNCTION'')"

fun multiple_from :: "nat \<Rightarrow> bool \<Rightarrow> string \<Rightarrow> bool" where
  "multiple_from depth ended [] = False"
| "multiple_from depth ended (c # cs) =
     (if c = CHR ''('' then multiple_from (depth + 1) ended cs
      else if c = CHR '')'' then multiple_from (depth - 1) ended cs
      else if depth \<noteq> 0 then multiple_from depth ended cs
      else if c = CHR '';'' then multiple_from depth True cs
      else if ended \<and> \<not> isspace c then True
      else multiple_from depth ended cs)"

definition hasMultipleStatements :: "string \<Rightarrow> bool \<Rightarrow> bool" where
  "hasMultipleStatements sql allowRoutineBody =
     (let masked = maskLiteralRegions sql;
          m = (if allowRoutineBody \<and> isRoutineDdl sql then snd (maskCompoundBody masked) else masked)
      in multiple_from 0 False m)"

section \<open>Every scanner returns a suffix\<close>

lemma suffix_skip_quoted [consumes]: "suffix (skip_quoted q cs) cs"
proof (induction q cs rule: skip_quoted.induct)
  case (2 q c cs)
  have tl: "suffix (tl cs) (c # cs)" by (metis suffix_ConsI suffix_tl)
  show ?case
    using 2 tl by (auto intro: suffix_ConsI suffix_order.trans)
qed simp

lemma suffix_after_block_comment [consumes]: "suffix (after_block_comment cs) cs"
  by (auto simp: after_block_comment_def suffix_drop split: option.splits)

lemma suffix_dollar_quote [consumes]: "dollar_quote cs = Some (d, b, r) \<Longrightarrow> suffix r cs"
  by (drule dollar_quote_Some) (metis append_Cons append_assoc suffix_def)

section \<open>Masking\<close>

text \<open>What one iteration of the masking loop does: it blanks a region or keeps a byte.\<close>

lemma mask_step_cases:
  assumes "mask_step out c cs = (out', r)"
  shows "suffix r cs \<and> (out' = out @ blanks (c # cs) r \<or> out' = out @ [c] \<and> r = cs)"
proof -
  let ?P = "\<lambda>p. suffix (snd p) cs \<and>
    (fst p = out @ blanks (c # cs) (snd p) \<or> fst p = out @ [c] \<and> snd p = cs)"
  have "suffix (after_block_comment (tl cs)) cs"
    by (rule suffix_order.trans [OF suffix_after_block_comment suffix_tl])
  then have "?P (mask_step out c cs)"
    unfolding mask_step_def Let_def
    by (intro if_branches [where P = ?P] option_branches [where P = ?P])
      (auto simp: suffix_skip_quoted suffix_dropWhile dest: suffix_dollar_quote split: if_split_asm)
  then show ?thesis using assms by simp
qed

lemma mask_loop_pointwise:
  "list_all2 (\<lambda>a b. b = a \<or> b = SP) sql (mask_loop [] sql)"
proof -
  let ?ok = "\<lambda>a b. b = a \<or> b = SP"
  let ?I = "\<lambda>out s. \<exists>pre. sql = pre @ s \<and> list_all2 ?ok pre out"
  have "?I (mask_loop [] sql) []"
  proof (rule mask.run_invariant [where I = ?I])
    show "?I [] sql" by simp
  next
    fix out c cs out' r
    assume "?I out (c # cs)" and st: "mask_step out c cs = (out', r)"
    then obtain pre where pre: "sql = pre @ c # cs" "list_all2 ?ok pre out" by blast
    from mask_step_cases [OF st] have suf: "suffix r (c # cs)"
      and out': "out' = out @ blanks (c # cs) r \<or> out' = out @ [c] \<and> r = cs"
      by (auto intro: suffix_ConsI)
    show "?I out' r"
    proof (intro exI conjI)
      show "sql = (pre @ consumed (c # cs) r) @ r"
        using pre(1) suffix_split [OF suf] by simp
      show "list_all2 ?ok (pre @ consumed (c # cs) r) out'"
      proof -
        have "list_all2 ?ok (consumed (c # cs) r) (blanks (c # cs) r)"
          by (simp add: blanks_def consumed_def list_all2_conv_all_nth)
        moreover have "list_all2 ?ok (consumed (c # cs) cs) [c]"
          by (simp add: consumed_def)
        ultimately show ?thesis
          using out' pre(2) by (auto intro: list_all2_appendI)
      qed
    qed
  qed
  then show ?thesis by auto
qed

lemma maskLiteralRegions_length [simp]: "length (maskLiteralRegions sql) = length sql"
  using mask_loop_pointwise [of sql] by (simp add: maskLiteralRegions_def list_all2_lengthD)

theorem maskLiteralRegions_pointwise:
  "list_all2 (\<lambda>original masked. masked = original \<or> masked = SP) sql (maskLiteralRegions sql)"
  unfolding maskLiteralRegions_def by (rule mask_loop_pointwise)

section \<open>Nesting depth and top-level keywords\<close>

definition paren_step :: "nat \<Rightarrow> char \<Rightarrow> nat" where
  "paren_step d c = (if c = CHR ''('' then d + 1 else if c = CHR '')'' then d - 1 else d)"

definition paren_depth :: "string \<Rightarrow> nat \<Rightarrow> nat" where
  "paren_depth s i = foldl paren_step 0 (take i s)"

definition keyword_at :: "string \<Rightarrow> string \<Rightarrow> nat \<Rightarrow> bool" where
  "keyword_at s kw i \<longleftrightarrow> word_matches kw (drop i s) \<and> (i = 0 \<or> \<not> isIdent (s ! (i - 1)))
     \<and> \<not> ident_at (drop (i + length kw) s)"

lemma topLevelKeyword_from_iff:
  assumes kw: "kw \<noteq> []" "toupper (hd kw) \<notin> {CHR ''('', CHR '')''}"
  shows "topLevelKeyword_from kw prev d s \<longleftrightarrow>
    (\<exists>pre rest. s = pre @ rest \<and> foldl paren_step d pre = 0 \<and> word_matches kw rest \<and>
      at_boundary (if pre = [] then prev else Some (last pre)) \<and> \<not> ident_at (drop (length kw) rest))"
    (is "_ \<longleftrightarrow> ?R prev d s")
proof (induction s arbitrary: prev d)
  case Nil
  show ?case using kw(1) by (simp add: word_matches_def)
next
  case (Cons c cs)
  let ?here = "d = 0 \<and> word_matches kw (c # cs) \<and> at_boundary prev \<and> \<not> ident_at (drop (length kw) (c # cs))"
  have split: "?R prev d (c # cs) \<longleftrightarrow> ?here \<or> ?R (Some c) (paren_step d c) cs"
    by (subst ex_append_Cons) (simp add: if_distrib)
  have short: "\<not> word_matches kw (c # cs)" if "length (c # cs) < length kw"
    using that by (simp add: word_matches_def)
  have short': "\<not> ?R p e cs" if "length (c # cs) < length kw" for p e
  proof -
    have "\<not> word_matches kw rest" if "cs = pre @ rest" for pre rest
      using that \<open>length (c # cs) < length kw\<close> by (simp add: word_matches_def)
    then show ?thesis by blast
  qed
  have hd: "toupper c = toupper (hd kw)" if "word_matches kw (c # cs)"
    using that kw(1) by (cases kw) (simp_all add: word_matches_def)
  have paren: "\<not> word_matches kw (c # cs)" if c: "c = CHR ''('' \<or> c = CHR '')''"
  proof
    assume "word_matches kw (c # cs)"
    then have "toupper (hd kw) = toupper c" by (simp add: hd)
    moreover have "toupper c = c" using c by (elim disjE) (simp_all add: toupper_paren)
    ultimately show False using c kw(2) by simp
  qed
  show ?case
  proof (cases "length (c # cs) < length kw")
    case True
    then have "\<not> topLevelKeyword_from kw prev d (c # cs)" by simp
    then show ?thesis unfolding split using short short' True by blast
  next
    case False
    then have "topLevelKeyword_from kw prev d (c # cs) \<longleftrightarrow>
        ?here \<or> topLevelKeyword_from kw (Some c) (paren_step d c) cs"
      using paren by (auto simp: paren_step_def)
    then show ?thesis unfolding split Cons.IH .
  qed
qed

lemma at_boundary_take:
  "i \<le> length s \<Longrightarrow> at_boundary (if take i s = [] then None else Some (last (take i s))) \<longleftrightarrow>
    i = 0 \<or> \<not> isIdent (s ! (i - 1))"
  by (cases "i = 0"; cases "s = []") (auto simp: at_boundary_def last_conv_nth min_def)

lemma containsTopLevelKeyword_iff:
  assumes "kw \<noteq> []" "toupper (hd kw) \<notin> {CHR ''('', CHR '')''}"
  shows "containsTopLevelKeyword s kw \<longleftrightarrow> (\<exists>i \<le> length s. paren_depth s i = 0 \<and> keyword_at s kw i)"
proof -
  have "(i \<le> length s \<and> foldl paren_step 0 (take i s) = 0 \<and> word_matches kw (drop i s) \<and>
      at_boundary (if take i s = [] then None else Some (last (take i s))) \<and>
      \<not> ident_at (drop (length kw) (drop i s))) \<longleftrightarrow>
     (i \<le> length s \<and> paren_depth s i = 0 \<and> keyword_at s kw i)" for i
    unfolding paren_depth_def keyword_at_def drop_drop add.commute [of i]
    using at_boundary_take [of i s] by blast
  then show ?thesis
    unfolding containsTopLevelKeyword_def topLevelKeyword_from_iff [OF assms] ex_append_take_drop
    by simp
qed

lemma keyword_heads:
  "toupper (hd ''WHERE'') \<notin> {CHR ''('', CHR '')''}" "toupper (hd ''LIMIT'') \<notin> {CHR ''('', CHR '')''}"
  "toupper (hd ''PROCEDURE'') \<notin> {CHR ''('', CHR '')''}" "toupper (hd ''FUNCTION'') \<notin> {CHR ''('', CHR '')''}"
  by (simp_all add: toupper_paren)

text \<open>
  hasWhereClause holds exactly when the word WHERE stands at parenthesis depth zero outside
  every literal and comment.
\<close>

theorem hasWhereClause_iff:
  "hasWhereClause sql \<longleftrightarrow>
    (\<exists>i \<le> length sql. paren_depth (maskLiteralRegions sql) i = 0 \<and>
       keyword_at (maskLiteralRegions sql) ''WHERE'' i)"
  unfolding hasWhereClause_def
  by (subst containsTopLevelKeyword_iff)
    (use keyword_heads in simp_all)

section \<open>Several statements\<close>

lemma multiple_from_iff:
  "multiple_from d ended s \<longleftrightarrow>
    (\<exists>j < length s. foldl paren_step d (take j s) = 0 \<and> s ! j \<notin> {CHR ''('', CHR '')'', CHR '';''} \<and>
       \<not> isspace (s ! j) \<and>
       (ended \<or> (\<exists>i < j. foldl paren_step d (take i s) = 0 \<and> s ! i = CHR '';'')))"
  (is "_ \<longleftrightarrow> ?R d ended s")
proof (induction s arbitrary: d ended)
  case Nil
  show ?case by simp
next
  case (Cons c cs)
  have split: "?R d ended (c # cs) \<longleftrightarrow>
      (d = 0 \<and> c \<notin> {CHR ''('', CHR '')'', CHR '';''} \<and> \<not> isspace c \<and> ended) \<or>
      ?R (paren_step d c) (ended \<or> d = 0 \<and> c = CHR '';'') cs"
    unfolding length_Cons Ex_less_Suc2 by (simp add: conj_disj_distribL ex_disj_distrib disj_assoc)
  show ?case
  proof (cases "d = 0 \<and> c \<notin> {CHR ''('', CHR '')'', CHR '';''} \<and> \<not> isspace c \<and> ended")
    case True
    then have "multiple_from d ended (c # cs)" by simp
    with True split show ?thesis by blast
  next
    case False
    then have "multiple_from d ended (c # cs) \<longleftrightarrow>
        multiple_from (paren_step d c) (ended \<or> d = 0 \<and> c = CHR '';'') cs"
      by (simp add: paren_step_def) fast
    then show ?thesis unfolding split Cons.IH using False by (simp only: simp_thms)
  qed
qed

text \<open>
  C14: hasMultipleStatements flags a statement exactly when, outside literals, comments and
  parentheses, a semicolon is followed by a character that is neither white space, another
  semicolon nor a parenthesis (so a parenthesised second statement is not flagged).
\<close>

theorem hasMultipleStatements_iff:
  "hasMultipleStatements sql False \<longleftrightarrow>
    (\<exists>i j. i < j \<and> j < length (maskLiteralRegions sql) \<and>
       paren_depth (maskLiteralRegions sql) i = 0 \<and> maskLiteralRegions sql ! i = CHR '';'' \<and>
       paren_depth (maskLiteralRegions sql) j = 0 \<and>
       maskLiteralRegions sql ! j \<notin> {CHR ''('', CHR '')'', CHR '';''} \<and>
       \<not> isspace (maskLiteralRegions sql ! j))"
  unfolding hasMultipleStatements_def Let_def multiple_from_iff paren_depth_def
  by (simp only: simp_thms if_False) (rule ex_earlier)

section \<open>The verb behind WITH\<close>

function word_tokens :: "nat \<Rightarrow> string \<Rightarrow> (nat \<times> string) list" where
  "word_tokens d [] = []"
| "word_tokens d (c # cs) =
     (if isalpha c \<or> c = CHR ''_''
      then (d, map toupper (c # takeWhile isIdent cs)) # word_tokens d (dropWhile isIdent cs)
      else word_tokens (paren_step d c) cs)"
  by pat_completeness auto
termination
  by (relation "measure (\<lambda>(d, s). length s)") (auto simp: less_Suc_eq_le)

fun main_token :: "string \<Rightarrow> (nat \<times> string) list \<Rightarrow> string option" where
  "main_token w [] = None"
| "main_token w ((d, t) # ts) =
     (if d = 0 \<and> (t = ''SELECT'' \<or> write_verb t) then Some (if w \<noteq> [] then w else t)
      else main_token (if d > 0 \<and> write_verb t \<and> w = [] then t else w) ts)"

lemma isalpha_paren [simp]: "\<not> isalpha CHR ''(''" "\<not> isalpha CHR '')''"
  by (simp_all add: cctype_simps)

lemma mainVerb_loop_tokens: "mainVerb_loop d w s = main_token w (word_tokens d s)"
proof (induction s arbitrary: d w rule: length_induct)
  case (1 s)
  show ?case
  proof (cases s)
    case (Cons c cs)
    define t where "t = toupper c # map toupper (takeWhile isIdent cs)"
    have IH: "mainVerb_loop e v cs = main_token v (word_tokens e cs)"
      "mainVerb_loop e v (dropWhile isIdent cs) = main_token v (word_tokens e (dropWhile isIdent cs))" for e v
      using "1.IH" Cons by (simp_all add: less_Suc_eq_le)
    consider "c = CHR ''(''" | "c = CHR '')''"
      | "c \<noteq> CHR ''(''" "c \<noteq> CHR '')''" "isalpha c \<or> c = CHR ''_''"
      | "c \<noteq> CHR ''(''" "c \<noteq> CHR '')''" "\<not> (isalpha c \<or> c = CHR ''_'')"
      by blast
    then show ?thesis
      by cases (simp_all add: Cons Let_def IH paren_step_def t_def [symmetric])
  qed simp
qed

lemma not_write_SELECT [simp]: "\<not> write_verb ''SELECT''"
  by (simp add: write_verb_def)

lemma main_token_read_iff:
  assumes "w = [] \<or> write_verb w"
  shows "(\<exists>v. main_token w ts = Some v \<and> \<not> write_verb v) \<longleftrightarrow>
    w = [] \<and> (\<exists>ts1 ts2. ts = ts1 @ (0, ''SELECT'') # ts2 \<and> (\<forall>p \<in> set ts1. \<not> write_verb (snd p)))"
  using assms
proof (induction w ts rule: main_token.induct)
  case (2 w d t ts)
  let ?R = "\<lambda>ts. \<exists>ts1 ts2. ts = ts1 @ (0, ''SELECT'') # ts2 \<and> (\<forall>p \<in> set ts1. \<not> write_verb (snd p))"
  have R: "?R ((d, t) # ts) \<longleftrightarrow> d = 0 \<and> t = ''SELECT'' \<or> \<not> write_verb t \<and> ?R ts"
  proof
    assume "?R ((d, t) # ts)"
    then obtain ts1 ts2 where "(d, t) # ts = ts1 @ (0, ''SELECT'') # ts2"
      "\<forall>p \<in> set ts1. \<not> write_verb (snd p)" by blast
    then show "d = 0 \<and> t = ''SELECT'' \<or> \<not> write_verb t \<and> ?R ts" by (cases ts1) auto
  next
    assume "d = 0 \<and> t = ''SELECT'' \<or> \<not> write_verb t \<and> ?R ts"
    then show "?R ((d, t) # ts)"
    proof
      assume "d = 0 \<and> t = ''SELECT''"
      then show ?thesis by (intro exI [of _ "[]"] exI [of _ ts]) simp
    next
      assume "\<not> write_verb t \<and> ?R ts"
      then obtain ts1 ts2 where "\<not> write_verb t" "ts = ts1 @ (0, ''SELECT'') # ts2"
        "\<forall>p \<in> set ts1. \<not> write_verb (snd p)" by blast
      then show ?thesis by (intro exI [of _ "(d, t) # ts1"] exI [of _ ts2]) simp
    qed
  qed
  show ?case
  proof (cases "d = 0 \<and> (t = ''SELECT'' \<or> write_verb t)")
    case True
    then show ?thesis unfolding R using "2.prems" by auto
  next
    case False
    let ?w = "if d > 0 \<and> write_verb t \<and> w = [] then t else w"
    have "?w = [] \<or> write_verb ?w" using "2.prems" by auto
    with "2.IH" False have A: "(\<exists>v. main_token ?w ts = Some v \<and> \<not> write_verb v) \<longleftrightarrow> ?w = [] \<and> ?R ts"
      by blast
    have B: "?w = [] \<and> ?R ts \<longleftrightarrow> w = [] \<and> ?R ((d, t) # ts)"
      unfolding R using False "2.prems" by (auto simp: write_verb_def)
    have eq: "main_token w ((d, t) # ts) = main_token ?w ts"
      using False by (simp only: main_token.simps if_False)
    show ?thesis unfolding eq A B ..
  qed
qed simp

lemma kind_of_verb_read: "isWrite (kind_of_verb v) \<longleftrightarrow>
    v \<notin> {''SELECT'', ''SHOW'', ''EXPLAIN'', ''DESC'', ''DESCRIBE''}"
  by (simp add: kind_of_verb_def isWrite_def)

lemma main_token_verbs: "main_token w ts = Some v \<Longrightarrow> w = [] \<or> write_verb w \<Longrightarrow> v = ''SELECT'' \<or> write_verb v"
  by (induction w ts rule: main_token.induct) (auto split: if_splits)

text \<open>
  A WITH statement is classified as a read exactly when a SELECT at depth zero comes before
  every write verb, at any depth.
\<close>

theorem with_statement_is_read_iff:
  assumes "upperFirstVerb (maskLiteralRegions sql) = ''WITH''"
  shows "\<not> isWrite (classifyStatement sql) \<longleftrightarrow>
    (\<exists>ts1 ts2. word_tokens 0 (maskLiteralRegions sql) = ts1 @ (0, ''SELECT'') # ts2 \<and>
       (\<forall>p \<in> set ts1. \<not> write_verb (snd p)))"
proof -
  let ?r = "main_token [] (word_tokens 0 (maskLiteralRegions sql))"
  have verb: "upperMainVerb (maskLiteralRegions sql) = (case ?r of Some v \<Rightarrow> v | None \<Rightarrow> ''WITH'')"
    using assms by (simp add: upperMainVerb_def mainVerb_loop_tokens)
  have "\<not> isWrite (classifyStatement sql) \<longleftrightarrow> (\<exists>v. ?r = Some v \<and> \<not> write_verb v)"
  proof (cases ?r)
    case None
    then show ?thesis by (simp add: classifyStatement_def verb kind_of_verb_read)
  next
    case (Some v)
    from main_token_verbs [OF this] show ?thesis
      by (auto simp: classifyStatement_def verb kind_of_verb_read Some write_verb_def)
  qed
  then show ?thesis using main_token_read_iff [of "[]"] by simp
qed

theorem with_statement_is_read_iff_witness:
  "upperFirstVerb (maskLiteralRegions ''with a select b'') = ''WITH'' \<and>
   \<not> isWrite (classifyStatement ''with a select b'')"
proof -
  have h: "upperFirstVerb (maskLiteralRegions ''with a select b'') = ''WITH''" by code_simp
  have t: "word_tokens 0 (maskLiteralRegions ''with a select b'') =
      [(0, ''WITH''), (0, ''A'')] @ (0, ''SELECT'') # [(0, ''B'')]" by code_simp
  have "\<forall>p \<in> set [(0, ''WITH''), (0, ''A'')]. \<not> write_verb (snd p)" by (simp add: write_verb_def)
  with h t with_statement_is_read_iff [OF h] show ?thesis by blast
qed

end
