(* ===== verification/SqlAuditor.thy ===== *)
theory SqlAuditor
  imports Types SqlAnalyze
begin

text \<open>
  The SQL audit policy of \<^verbatim>\<open>src/core/sql_auditor.cpp\<close>: the configuration, the policy built from it,
  the check every statement passes through, and its counters and log lines. The counters are
  \<^verbatim>\<open>uint64_t\<close> atomics in the code and unbounded here; \<open>configure\<close> and \<open>check\<close> run one at a time
  (the code guards the policy pointer with a mutex).
\<close>

record SqlAuditConfig =
  ac_enabled :: bool
  ac_action :: string
  ac_block_no_where_dml :: bool
  ac_require_limit_select :: bool
  ac_enforce_read_only :: bool
  ac_log_blocked :: bool
  ac_blacklist_fingerprints :: "64 word list"
  ac_whitelist_fingerprints :: "64 word list"

record Policy =
  block :: bool
  log_blocked :: bool
  block_no_where_dml :: bool
  require_limit_select :: bool
  enforce_read_only :: bool
  blacklist :: "64 word set"
  whitelist :: "64 word set"
  needsFingerprint :: bool
  needsKind :: bool

record SqlAuditorState =
  aud_enabled :: bool
  aud_policy :: "Policy option"
  aud_checked :: nat
  aud_warned :: nat
  aud_blocked :: nat
  aud_log :: "string list"

definition initial_auditor :: SqlAuditorState where
  "initial_auditor = \<lparr>aud_enabled = False, aud_policy = None, aud_checked = 0, aud_warned = 0,
     aud_blocked = 0, aud_log = []\<rparr>"

definition verdict :: "bool \<Rightarrow> bool \<Rightarrow> string \<Rightarrow> string \<Rightarrow> SqlAuditorState \<Rightarrow> Status \<times> SqlAuditorState" where
  "verdict blk logIt reason sql st =
     (let st1 = (if logIt then st\<lparr>aud_log := aud_log st @ [''sql audit ''
                   @ (if blk then ''blocked'' else ''warn'') @ '' ('' @ reason @ ''): '' @ sql]\<rparr>
                 else st)
      in if blk then (error SqlBlocked reason, st1\<lparr>aud_blocked := aud_blocked st1 + 1\<rparr>)
         else (OK, st1\<lparr>aud_warned := aud_warned st1 + 1\<rparr>))"

definition auditor_configure :: "SqlAuditConfig \<Rightarrow> SqlAuditorState \<Rightarrow> SqlAuditorState" where
  "auditor_configure cfg st =
     (let bl = set (ac_blacklist_fingerprints cfg); wl = set (ac_whitelist_fingerprints cfg);
          policy = \<lparr>block = (ac_action cfg = ''block''), log_blocked = ac_log_blocked cfg,
            block_no_where_dml = ac_block_no_where_dml cfg,
            require_limit_select = ac_require_limit_select cfg,
            enforce_read_only = ac_enforce_read_only cfg, blacklist = bl, whitelist = wl,
            needsFingerprint = (ac_blacklist_fingerprints cfg \<noteq> [] \<or> ac_whitelist_fingerprints cfg \<noteq> []),
            needsKind = (ac_enforce_read_only cfg \<or> ac_block_no_where_dml cfg \<or> ac_require_limit_select cfg)\<rparr>
      in st\<lparr>aud_policy := Some policy, aud_enabled := ac_enabled cfg\<rparr>)"

definition auditor_check :: "string \<Rightarrow> OperationType \<Rightarrow> bool \<Rightarrow> SqlAuditorState \<Rightarrow> Status \<times> SqlAuditorState" where
  "auditor_check sql type readOnly st0 =
     (if \<not> aud_enabled st0 then (OK, st0)
      else case aud_policy st0 of
        None \<Rightarrow> (OK, st0)
      | Some policy \<Rightarrow>
          let st = st0\<lparr>aud_checked := aud_checked st0 + 1\<rparr>;
              logIt = log_blocked policy;
              fp = fingerprintTemplate sql;
              kind = classifyStatement sql
          in if hasMultipleStatements sql True then
               verdict (block policy) logIt ''multiple SQL statements are not allowed'' sql st
             else if needsFingerprint policy \<and> whitelist policy \<noteq> {} \<and> fp \<notin> whitelist policy then
               verdict True logIt ''SQL not in audit whitelist'' sql st
             else if needsFingerprint policy \<and> fp \<in> blacklist policy then
               verdict True logIt ''SQL in audit blacklist'' sql st
             else if \<not> needsKind policy then (OK, st)
             else if enforce_read_only policy \<and> readOnly \<and> isWrite kind then
               verdict (block policy) logIt ''write on read-only datasource'' sql st
             else if block_no_where_dml policy \<and> (kind = Update \<or> kind = Delete) \<and> \<not> hasWhereClause sql then
               verdict (block policy) logIt ''UPDATE/DELETE without WHERE clause'' sql st
             else if require_limit_select policy \<and> type \<noteq> OpSelect \<and> kind = Select \<and> \<not> hasRowLimitClause sql then
               verdict (block policy) logIt ''SELECT without LIMIT clause'' sql st
             else (OK, st))"

section \<open>What a configured auditor promises\<close>

text \<open>The two halves of the policy: what the fingerprint lists allow, and what the statement rules allow.\<close>

definition lists_allow :: "SqlAuditConfig \<Rightarrow> string \<Rightarrow> bool" where
  "lists_allow cfg sql \<longleftrightarrow>
     (ac_whitelist_fingerprints cfg = [] \<or> fingerprintTemplate sql \<in> set (ac_whitelist_fingerprints cfg)) \<and>
     fingerprintTemplate sql \<notin> set (ac_blacklist_fingerprints cfg)"

definition rules_allow :: "SqlAuditConfig \<Rightarrow> string \<Rightarrow> OperationType \<Rightarrow> bool \<Rightarrow> bool" where
  "rules_allow cfg sql type readOnly \<longleftrightarrow>
     \<not> (ac_enforce_read_only cfg \<and> readOnly \<and> isWrite (classifyStatement sql)) \<and>
     \<not> (ac_block_no_where_dml cfg \<and> classifyStatement sql \<in> {Update, Delete} \<and> \<not> hasWhereClause sql) \<and>
     \<not> (ac_require_limit_select cfg \<and> type \<noteq> OpSelect \<and> classifyStatement sql = Select \<and>
        \<not> hasRowLimitClause sql)"

lemma verdict_simps [simp]:
  "status_ok (fst (verdict blk logIt reason sql st)) \<longleftrightarrow> \<not> blk"
  "aud_checked (snd (verdict blk logIt reason sql st)) = aud_checked st"
  "aud_warned (snd (verdict blk logIt reason sql st)) = aud_warned st + (if blk then 0 else 1)"
  "aud_blocked (snd (verdict blk logIt reason sql st)) = aud_blocked st + (if blk then 1 else 0)"
  by (simp_all add: verdict_def Let_def)

text \<open>
  C5: With the audit in blocking mode a statement is let through exactly when it is a single
  statement, the fingerprint lists allow it and every configured rule (read-only source, DML
  without WHERE, SELECT without a row limit) allows it.
\<close>

theorem auditor_check_blocking:
  assumes "ac_enabled cfg" "ac_action cfg = ''block''"
  shows "status_ok (fst (auditor_check sql type readOnly (auditor_configure cfg st))) \<longleftrightarrow>
    \<not> hasMultipleStatements sql True \<and> lists_allow cfg sql \<and> rules_allow cfg sql type readOnly"
  using assms
  by (auto simp: auditor_check_def auditor_configure_def lists_allow_def rules_allow_def Let_def)

theorem auditor_check_warning:
  assumes "ac_enabled cfg" "ac_action cfg \<noteq> ''block''"
  shows "status_ok (fst (auditor_check sql type readOnly (auditor_configure cfg st))) \<longleftrightarrow>
    hasMultipleStatements sql True \<or> lists_allow cfg sql"
  using assms
  by (auto simp: auditor_check_def auditor_configure_def lists_allow_def Let_def)

lemma auditor_blocks_read_only_write:
  assumes "ac_enabled cfg" "ac_action cfg = ''block''" "ac_enforce_read_only cfg" "isWrite (classifyStatement sql)"
  shows "\<not> status_ok (fst (auditor_check sql type True (auditor_configure cfg a)))"
  using assms by (simp add: auditor_check_def auditor_configure_def Let_def)

definition strict_audit :: SqlAuditConfig where
  "strict_audit = \<lparr>ac_enabled = True, ac_action = ''block'', ac_block_no_where_dml = False, ac_require_limit_select = False,
     ac_enforce_read_only = True, ac_log_blocked = False, ac_blacklist_fingerprints = [], ac_whitelist_fingerprints = []\<rparr>"

definition sample_config :: "string \<Rightarrow> SqlAuditConfig" where
  "sample_config action = \<lparr>ac_enabled = True, ac_action = action, ac_block_no_where_dml = True,
     ac_require_limit_select = False, ac_enforce_read_only = False, ac_log_blocked = False,
     ac_blacklist_fingerprints = [0], ac_whitelist_fingerprints = []\<rparr>"

theorem auditor_check_blocking_witness:
  "ac_enabled (sample_config ''block'') \<and> ac_action (sample_config ''block'') = ''block'' \<and>
   (status_ok (fst (auditor_check ''delete from t'' OpExecute False
       (auditor_configure (sample_config ''block'') initial_auditor))) \<longleftrightarrow>
    \<not> hasMultipleStatements ''delete from t'' True \<and> lists_allow (sample_config ''block'') ''delete from t'' \<and>
    rules_allow (sample_config ''block'') ''delete from t'' OpExecute False)"
proof -
  have h: "ac_enabled (sample_config ''block'')" "ac_action (sample_config ''block'') = ''block''"
    by (simp_all add: sample_config_def)
  show ?thesis by (intro conjI h auditor_check_blocking [OF h])
qed

theorem auditor_check_warning_witness:
  "ac_enabled (sample_config ''warn'') \<and> ac_action (sample_config ''warn'') \<noteq> ''block'' \<and>
   (status_ok (fst (auditor_check ''a; b'' OpExecute False
       (auditor_configure (sample_config ''warn'') initial_auditor))) \<longleftrightarrow>
    hasMultipleStatements ''a; b'' True \<or> lists_allow (sample_config ''warn'') ''a; b'')"
proof -
  have h: "ac_enabled (sample_config ''warn'')" "ac_action (sample_config ''warn'') \<noteq> ''block''"
    by (simp_all add: sample_config_def)
  show ?thesis by (intro conjI h auditor_check_warning [OF h])
qed

theorem auditor_check_counts:
  "let r = auditor_check sql type readOnly st in
    aud_blocked (snd r) = aud_blocked st + (if status_ok (fst r) then 0 else 1) \<and>
    aud_warned (snd r) + aud_blocked (snd r) + aud_checked st \<le> aud_warned st + aud_blocked st + aud_checked (snd r)
    \<and> aud_checked st \<le> aud_checked (snd r) \<and> aud_checked (snd r) \<le> aud_checked st + 1"
proof (cases "aud_policy st")
  case None
  then show ?thesis by (simp add: auditor_check_def)
next
  case (Some policy)
  show ?thesis
  proof (cases "aud_enabled st")
    case False
    then show ?thesis by (simp add: auditor_check_def)
  next
    case True
    then show ?thesis using Some by (simp add: auditor_check_def Let_def)
  qed
qed

end
