(* ===== verification/SqlDialect.thy ===== *)
theory SqlDialect
  imports Types
begin

text \<open>
  SQL text construction for routines and indexes: \<^verbatim>\<open>include/sqlconduit/common/sql_dialect.h\<close> and
  the generators of \<^verbatim>\<open>include/sqlconduit/util.h\<close>. A generator that fills an output argument on
  success and returns a non-OK status otherwise is a function into \<^typ>\<open>Status + 'a\<close>.
\<close>

datatype Dialect = Auto | MySQL | Postgres | SqlServer | Oracle

datatype RoutineKind = Function | Procedure

record RoutineRef =
  ref_name :: string
  ref_kind :: RoutineKind
  ref_dataSource :: string

section \<open>Quoting\<close>

definition ident_quote :: "Dialect \<Rightarrow> char" where
  "ident_quote d = (if d = MySQL then BQ else DQ)"

text \<open>The character loop that doubles the quote.\<close>

fun double_quote :: "char \<Rightarrow> string \<Rightarrow> string" where
  "double_quote q [] = []"
| "double_quote q (c # cs) = (if c = q then q # c # double_quote q cs else c # double_quote q cs)"

text \<open>The \<open>flush\<close> lambda: append the part under construction, unless it is empty.\<close>

definition quote_flush :: "char \<Rightarrow> string \<Rightarrow> string \<Rightarrow> string" where
  "quote_flush q out part =
     (if part = [] then out
      else out @ (if out \<noteq> [] then ''.'' else []) @ q # double_quote q part @ [q])"

fun quote_loop :: "char \<Rightarrow> string \<Rightarrow> string \<Rightarrow> string \<Rightarrow> string" where
  "quote_loop q out part [] = quote_flush q out part"
| "quote_loop q out part (c # cs) =
     (if c = CHR ''.'' then quote_loop q (quote_flush q out part) [] cs
      else quote_loop q out (part @ [c]) cs)"

definition quoteIdent :: "string \<Rightarrow> Dialect \<Rightarrow> string" where
  "quoteIdent identifier d = quote_loop (ident_quote d) [] [] identifier"

definition quoteStringLiteral :: "string \<Rightarrow> string" where
  "quoteStringLiteral v = SQ # double_quote SQ v @ [SQ]"

section \<open>Dialects\<close>

definition toLowerAscii :: "string \<Rightarrow> string" where
  "toLowerAscii s = map (\<lambda>c. if isupper c then char_of (byte c - 65 + 97) else c) s"

definition dialectName :: "Dialect \<Rightarrow> string" where
  "dialectName d = (case d of MySQL \<Rightarrow> ''mysql'' | Postgres \<Rightarrow> ''postgres''
     | SqlServer \<Rightarrow> ''sqlserver'' | Oracle \<Rightarrow> ''oracle'' | Auto \<Rightarrow> ''auto'')"

definition has_sub :: "string \<Rightarrow> string \<Rightarrow> bool" where
  "has_sub t pat \<longleftrightarrow> str_find pat t \<noteq> None"

definition dialectFromDriverType :: "string \<Rightarrow> Dialect" where
  "dialectFromDriverType driverType =
     (let t = toLowerAscii driverType in
      if has_sub t ''mysql'' \<or> has_sub t ''maria'' then MySQL
      else if has_sub t ''postgres'' \<or> has_sub t ''pgsql'' \<or> t = ''pg'' then Postgres
      else if has_sub t ''oracle'' \<or> t = ''ora'' \<or> t = ''oci'' then Oracle
      else if has_sub t ''odbc'' \<or> has_sub t ''sqlserver'' \<or> has_sub t ''mssql'' then SqlServer
      else Auto)"

definition unsupported :: "string \<Rightarrow> Status" where
  "unsupported msg = error NotSupported msg"

definition badSpec :: "string \<Rightarrow> Status" where
  "badSpec msg = error QueryError msg"

definition noDialect :: "string \<Rightarrow> Status" where
  "noDialect ds = unsupported (''sqlconduit::util: cannot detect dialect for datasource '' @ [SQ] @ ds
     @ [SQ] @ ''; pass Dialect explicitly'')"

section \<open>Argument lists\<close>

text \<open>\<^verbatim>\<open>if (i) s += ", "\<close> between the elements.\<close>

fun comma_join :: "string list \<Rightarrow> string" where
  "comma_join [] = []"
| "comma_join [a] = a"
| "comma_join (a # b # as) = a @ '', '' @ comma_join (b # as)"

definition csvArgs :: "nat \<Rightarrow> string" where
  "csvArgs n = comma_join (replicate n ''?'')"

definition parenArgs :: "nat \<Rightarrow> string" where
  "parenArgs n = ''('' @ comma_join (replicate n ''?'') @ '')''"

definition hasOutParams :: "CallParam list \<Rightarrow> bool" where
  "hasOutParams ps \<longleftrightarrow> (\<exists>p \<in> set ps. direction p \<noteq> In)"

definition outVarName :: "nat \<Rightarrow> string" where
  "outVarName i = ''sqlconduit_out_'' @ to_string i"

text \<open>The schema prefix SQL Server routine names get.\<close>

definition qualified_name :: "string \<Rightarrow> string" where
  "qualified_name name = (if CHR ''.'' \<notin> set name then ''dbo.'' @ name else name)"

section \<open>Call statements\<close>

definition makeCallSql :: "RoutineRef \<Rightarrow> nat \<Rightarrow> Dialect \<Rightarrow> bool \<Rightarrow> Status + string" where
  "makeCallSql ref argCount d returnsRows =
     (if ref_name ref = [] then Inl (badSpec ''sqlconduit::util: routine name is empty'')
      else if d = Auto then Inl (noDialect (ref_dataSource ref))
      else let name = quoteIdent (ref_name ref) d in
      case d of
        MySQL \<Rightarrow> Inr (''CALL '' @ name @ parenArgs argCount)
      | Postgres \<Rightarrow>
          (if ref_kind ref = Function then
             Inr (if returnsRows then ''SELECT * FROM '' @ name @ parenArgs argCount
                  else ''SELECT '' @ name @ parenArgs argCount)
           else if returnsRows then
             Inl (unsupported ''sqlconduit::util: postgres procedures cannot return a result set; use a function with makeCallSql'')
           else Inr (''CALL '' @ name @ parenArgs argCount))
      | SqlServer \<Rightarrow>
          (let q = qualified_name (ref_name ref) in
           if ref_kind ref = Function then Inr (''SELECT '' @ q @ parenArgs argCount)
           else Inr (if returnsRows then ''{CALL '' @ q @ parenArgs argCount @ ''}''
                     else ''EXEC '' @ q @ (if argCount = 0 then [] else '' '' @ csvArgs argCount)))
      | Oracle \<Rightarrow>
          (if ref_kind ref = Function then
             Inr (if returnsRows then ''SELECT * FROM TABLE('' @ name @ parenArgs argCount @ '')''
                  else ''SELECT '' @ name @ parenArgs argCount @ '' FROM DUAL'')
           else if returnsRows then
             Inl (unsupported ''sqlconduit::util: oracle procedures can only return rows through a REF CURSOR OUT parameter, which makeCallSql cannot bind'')
           else Inr (''BEGIN '' @ name @ parenArgs argCount @ ''; END;''))
      | Auto \<Rightarrow> Inl (unsupported ''sqlconduit::util: unknown dialect''))"

record CallPlan =
  preSql :: string
  preParams :: Params
  callSql :: string
  callParams :: Params
  fetchSql :: string
  outColumns :: "string list"
  outFromRowCount :: nat
  needsSameConnection :: bool

definition empty_plan :: CallPlan where
  "empty_plan = \<lparr>preSql = [], preParams = [], callSql = [], callParams = [], fetchSql = [],
     outColumns = [], outFromRowCount = 0, needsSameConnection = False\<rparr>"

text \<open>
  One iteration of the parameter loop of \<open>makeCallPlan\<close>: the index, the argument list, the parts
  of the \<^verbatim>\<open>SET\<close> statement, and the plan with its parameters and output columns.
\<close>

type_synonym plan_state = "nat \<times> string list \<times> string list \<times> CallPlan"

definition plan_param :: "Dialect \<Rightarrow> CallParam \<Rightarrow> plan_state \<Rightarrow> plan_state" where
  "plan_param d p st = (case st of (i, args, setParts, plan) \<Rightarrow>
     if direction p = In then
       (i + 1, args @ [''?''], setParts, plan\<lparr>callParams := callParams plan @ [cp_value p]\<rparr>)
     else if d = Postgres then
       (let plan' = plan\<lparr>outFromRowCount := outFromRowCount plan + 1\<rparr> in
        if direction p = InOut then
          (i + 1, args @ [''?''], setParts, plan'\<lparr>callParams := callParams plan' @ [cp_value p]\<rparr>)
        else (i + 1, args, setParts, plan'))
     else
       (let var = ''@'' @ outVarName i;
            plan' = plan\<lparr>outColumns := outColumns plan @ [outVarName i]\<rparr>
        in if direction p = InOut then
             (i + 1, args @ [var], setParts @ [var @ '' = ?''],
              plan'\<lparr>preParams := preParams plan' @ [cp_value p]\<rparr>)
           else (i + 1, args @ [var], setParts, plan')))"

text \<open>The checks in front of the loop, in the code's order; \<^term>\<open>None\<close> lets the call through.\<close>

definition plan_refused :: "RoutineRef \<Rightarrow> CallParam list \<Rightarrow> Dialect \<Rightarrow> bool \<Rightarrow> Status option" where
  "plan_refused ref params d returnsRows =
     (let hasOut = hasOutParams params in
      if ref_name ref = [] then Some (badSpec ''sqlconduit::util: routine name is empty'')
      else if d = Auto then Some (noDialect (ref_dataSource ref))
      else if d = SqlServer \<and> hasOut then
        Some (unsupported ''sqlconduit::util: sqlserver OUT/INOUT parameters need DECLARE @var <type> before EXEC ... OUTPUT, and Client cannot infer the type; return the values as a result set instead'')
      else if d = Oracle \<and> hasOut then
        Some (unsupported ''sqlconduit::util: Oracle output binds are executed through Client::call()/util::call(), not represented by CallPlan'')
      else if d = Oracle \<and> ref_kind ref = Procedure \<and> returnsRows then
        Some (unsupported ''sqlconduit::util: Oracle procedure result sets require a REF CURSOR CallParam and Client::call()/util::call()'')
      else if d = Postgres \<and> ref_kind ref = Procedure \<and> returnsRows then
        Some (unsupported ''sqlconduit::util: postgres procedures cannot return a result set; use a function with makeCallSql'')
      else if d = Postgres \<and> ref_kind ref = Procedure \<and> hasOut then
        Some (unsupported ''sqlconduit::util: postgres procedures do not hand OUT/INOUT parameters back to the client; use a function with OUT parameters'')
      else if d = Postgres \<and> ref_kind ref = Function \<and> hasOut \<and> \<not> returnsRows then
        Some (unsupported ''sqlconduit::util: postgres functions with OUT/INOUT parameters must be called with returnsRows=true (SELECT * FROM f(...))'')
      else None)"

definition makeCallPlan :: "RoutineRef \<Rightarrow> CallParam list \<Rightarrow> Dialect \<Rightarrow> bool \<Rightarrow> Status + CallPlan" where
  "makeCallPlan ref params d returnsRows =
     (case plan_refused ref params d returnsRows of
        Some st \<Rightarrow> Inl st
      | None \<Rightarrow>
        (case fold (plan_param d) params (0, [], [], empty_plan) of (_, args, setParts, plan) \<Rightarrow>
         let name = quoteIdent (ref_name ref) d; q = qualified_name (ref_name ref) in
         case d of
           MySQL \<Rightarrow> Inr (plan\<lparr>callSql := ''CALL '' @ name @ ''('' @ comma_join args @ '')'',
             preSql := (if setParts \<noteq> [] then ''SET '' @ comma_join setParts else []),
             fetchSql := (if outColumns plan \<noteq> []
               then ''SELECT '' @ comma_join (map (\<lambda>c. ''@'' @ c @ '' AS '' @ c) (outColumns plan)) else []),
             needsSameConnection := (outColumns plan \<noteq> [])\<rparr>)
         | Postgres \<Rightarrow> Inr (plan\<lparr>callSql := ''SELECT * FROM '' @ name @ ''('' @ comma_join args @ '')''\<rparr>)
         | SqlServer \<Rightarrow> Inr (plan\<lparr>callSql :=
             (if ref_kind ref = Function then ''SELECT '' @ q @ parenArgs (length args)
              else if returnsRows then ''{CALL '' @ q @ parenArgs (length args) @ ''}''
              else ''EXEC '' @ q @ (if args = [] then [] else '' '' @ csvArgs (length args)))\<rparr>)
         | Oracle \<Rightarrow> Inr (plan\<lparr>callSql :=
             (if ref_kind ref = Function then ''SELECT '' @ name @ parenArgs (length args) @ '' FROM DUAL''
              else ''BEGIN '' @ name @ parenArgs (length args) @ ''; END;'')\<rparr>)
         | Auto \<Rightarrow> Inl (unsupported ''sqlconduit::util: unknown dialect'')))"

section \<open>Reading output parameters\<close>

text \<open>By name, or by position in the row's key order when the column is missing.\<close>

fun read_out_from :: "Row \<Rightarrow> nat \<Rightarrow> string list \<Rightarrow> Status + Value list" where
  "read_out_from row i [] = Inr []"
| "read_out_from row i (n # ns) =
     (let rest = read_out_from row (i + 1) ns in
      if row_has row n then map_sum id ((#) (row_at row n)) rest
      else if i < length row then map_sum id ((#) (snd (row ! i))) rest
      else Inl (error QueryError (''sqlconduit::util: OUT parameter column '' @ [SQ] @ n @ [SQ]
        @ '' is missing'')))"

definition readOutParams :: "ResultSet \<Rightarrow> string list \<Rightarrow> Status + Value list" where
  "readOutParams rs names =
     (if names = [] then Inr []
      else if rs_rows rs = [] then
        Inl (error QueryError ''sqlconduit::util: OUT parameter fetch returned no row'')
      else read_out_from (hd (rs_rows rs)) 0 names)"

definition readOutParamsFromRow :: "ResultSet \<Rightarrow> nat \<Rightarrow> Status + Value list" where
  "readOutParamsFromRow rs cnt =
     (if cnt = 0 then Inr []
      else if rs_rows rs = [] then
        Inl (error QueryError ''sqlconduit::util: routine returned no row to read OUT/INOUT parameters from'')
      else if length (rs_fields rs) < cnt then
        Inl (error QueryError (''sqlconduit::util: routine returned '' @ to_string (length (rs_fields rs))
          @ '' column(s), expected at least '' @ to_string cnt @ '' for OUT/INOUT parameters''))
      else Inr (map (row_at (hd (rs_rows rs))) (take cnt (rs_fields rs))))"

section \<open>Drop and index statements\<close>

definition makeDropRoutineSql :: "RoutineRef \<Rightarrow> bool \<Rightarrow> bool \<Rightarrow> Dialect \<Rightarrow> Status + string" where
  "makeDropRoutineSql ref ifExists cascade d =
     (if ref_name ref = [] then Inl (badSpec ''sqlconduit::util: routine name is empty'')
      else if d = Auto then Inl (noDialect (ref_dataSource ref))
      else if cascade \<and> d \<noteq> Postgres then
        Inl (unsupported (''sqlconduit::util: DROP ... CASCADE is only supported by postgres (dialect=''
          @ dialectName d @ '')''))
      else let kindWord = (if ref_kind ref = Function then ''FUNCTION'' else ''PROCEDURE'');
               s = ''DROP '' @ kindWord @ (if ifExists \<and> d \<noteq> Oracle then '' IF EXISTS'' else [])
                   @ '' '' @ quoteIdent (ref_name ref) d @ (if cascade then '' CASCADE'' else [])
           in Inr (if ifExists \<and> d = Oracle
                   then ''BEGIN EXECUTE IMMEDIATE '' @ quoteStringLiteral s
                     @ ''; EXCEPTION WHEN OTHERS THEN IF SQLCODE != -4043 THEN RAISE; END IF; END;''
                   else s))"

record IndexSpec =
  ix_table :: string
  ix_name :: string
  ix_columns :: "string list"
  ix_unique :: bool
  ix_ifNotExists :: bool
  ix_concurrent :: bool
  ix_usingMethod :: string
  ix_options :: string

definition noDialectIndex :: Status where
  "noDialectIndex = unsupported
     ''sqlconduit::util: cannot detect dialect for datasource; pass Dialect explicitly''"

definition makeCreateIndexSql :: "IndexSpec \<Rightarrow> Dialect \<Rightarrow> Status + string" where
  "makeCreateIndexSql sp d =
     (if d = Auto then Inl noDialectIndex
      else if ix_table sp = [] \<or> ix_name sp = [] then
        Inl (badSpec ''sqlconduit::util: index spec requires both table and name'')
      else if ix_columns sp = [] then
        Inl (badSpec ''sqlconduit::util: index spec requires at least one column'')
      else if ix_ifNotExists sp \<and> d \<noteq> Postgres then
        Inl (unsupported (''sqlconduit::util: CREATE INDEX IF NOT EXISTS is only supported by postgres (dialect=''
          @ dialectName d @ '')''))
      else if ix_concurrent sp \<and> d \<noteq> Postgres then
        Inl (unsupported (''sqlconduit::util: CREATE INDEX CONCURRENTLY is only supported by postgres (dialect=''
          @ dialectName d @ '')''))
      else if ix_usingMethod sp \<noteq> [] \<and> (d = SqlServer \<or> d = Oracle) then
        Inl (unsupported (''sqlconduit::util: dialect='' @ dialectName d
          @ '' has no USING clause for CREATE INDEX''))
      else Inr (''CREATE '' @ (if ix_unique sp then ''UNIQUE '' else []) @ ''INDEX ''
        @ (if ix_concurrent sp then ''CONCURRENTLY '' else [])
        @ (if ix_ifNotExists sp then ''IF NOT EXISTS '' else [])
        @ quoteIdent (ix_name sp) d @ '' ON '' @ quoteIdent (ix_table sp) d
        @ (if d = Postgres \<and> ix_usingMethod sp \<noteq> [] then '' USING '' @ ix_usingMethod sp else [])
        @ '' ('' @ comma_join (ix_columns sp) @ '')''
        @ (if d = MySQL \<and> ix_usingMethod sp \<noteq> [] then '' USING '' @ ix_usingMethod sp else [])
        @ (if ix_options sp \<noteq> [] then '' '' @ ix_options sp else [])))"

definition makeDropIndexSql :: "string \<Rightarrow> string \<Rightarrow> bool \<Rightarrow> Dialect \<Rightarrow> Status + string" where
  "makeDropIndexSql table name ifExists d =
     (if d = Auto then Inl noDialectIndex
      else if table = [] \<or> name = [] then
        Inl (badSpec ''sqlconduit::util: dropIndex requires both table and name'')
      else Inr (''DROP INDEX '' @ (if ifExists then ''IF EXISTS '' else []) @ quoteIdent name d
        @ (if d \<noteq> Postgres \<and> d \<noteq> Oracle then '' ON '' @ quoteIdent table d else [])))"

definition validateCreateRoutine :: "bool \<Rightarrow> bool \<Rightarrow> Dialect \<Rightarrow> Status" where
  "validateCreateRoutine replace ifNotExists d =
     (if ifNotExists then
        unsupported ''sqlconduit::util: CREATE ROUTINE IF NOT EXISTS is supported by no dialect in this matrix; drop first, then create''
      else if replace \<and> d \<noteq> Postgres \<and> d \<noteq> Oracle then
        unsupported (''sqlconduit::util: CREATE OR REPLACE is only supported by postgres and oracle (dialect=''
          @ dialectName d @ '')'')
      else OK)"

section \<open>DELIMITER directives\<close>

definition startsWithFold :: "string \<Rightarrow> string \<Rightarrow> bool" where
  "startsWithFold s kw \<longleftrightarrow> length kw \<le> length s \<and> map tolower (take (length kw) s) = map tolower kw"

definition isDirective :: "string \<Rightarrow> bool" where
  "isDirective line =
     (let s = dropWhile isspace line; aft = drop 9 s in
      startsWithFold s ''DELIMITER'' \<and> (aft = [] \<or> isspace (hd aft)))"

text \<open>The lines of the text, each with its newline.\<close>

function text_lines :: "string \<Rightarrow> string list" where
  "text_lines s =
     (if s = [] then []
      else case str_find [NL] s of
        None \<Rightarrow> [s]
      | Some k \<Rightarrow> take (k + 1) s # text_lines (drop (k + 1) s))"
  by pat_completeness auto
termination
  by (relation "measure length") auto

declare text_lines.simps [simp del]

text \<open>The number of directives removed, and the text (untouched when there is none).\<close>

definition stripDelimiterDirectives :: "string \<Rightarrow> nat \<times> string" where
  "stripDelimiterDirectives sql =
     (let ls = text_lines sql; removed = length (filter isDirective ls) in
      (removed, if removed > 0 then concat (filter (\<lambda>l. \<not> isDirective l) ls) else sql))"

section \<open>Quoting can be read back\<close>

fun read_quoted :: "char \<Rightarrow> string \<Rightarrow> (string \<times> string) option" where
  "read_quoted q [] = None"
| "read_quoted q [c] = (if c = q then Some ([], []) else None)"
| "read_quoted q (c # c' # cs) =
     (if c = q then
        (if c' = q then map_option (\<lambda>(v, r). (q # v, r)) (read_quoted q cs) else Some ([], c' # cs))
      else map_option (\<lambda>(v, r). (c # v, r)) (read_quoted q (c' # cs)))"

fun read_path :: "nat \<Rightarrow> char \<Rightarrow> string \<Rightarrow> string list option" where
  "read_path 0 q s = None"
| "read_path (Suc n) q s =
     (if s = [] \<or> hd s \<noteq> q then None
      else case read_quoted q (tl s) of
        None \<Rightarrow> None
      | Some (v, r) \<Rightarrow>
          (if r = [] then Some [v]
           else if hd r = CHR ''.'' then map_option ((#) v) (read_path n q (tl r))
           else None))"

lemma read_quoted_double:
  "rest = [] \<or> hd rest \<noteq> q \<Longrightarrow> read_quoted q (double_quote q v @ q # rest) = Some (v, rest)"
proof (induction v)
  case Nil
  then show ?case by (cases rest) auto
next
  case (Cons c v)
  obtain x xs where "double_quote q v @ q # rest = x # xs"
    by (cases "double_quote q v") auto
  with Cons show ?case by auto
qed

definition quoted_path :: "char \<Rightarrow> string list \<Rightarrow> string" where
  "quoted_path q ps = concat (map (\<lambda>p. CHR ''.'' # q # double_quote q p @ [q]) ps)"

fun split_dots :: "string \<Rightarrow> string \<Rightarrow> string list" where
  "split_dots part [] = [part]"
| "split_dots part (c # cs) =
     (if c = CHR ''.'' then part # split_dots [] cs else split_dots (part @ [c]) cs)"

definition ident_parts :: "string \<Rightarrow> string list" where
  "ident_parts s = filter (\<lambda>p. p \<noteq> []) (split_dots [] s)"

lemma quote_flush_eq:
  "quote_flush q (tl (quoted_path q ps)) part =
     tl (quoted_path q (if part = [] then ps else ps @ [part]))"
  by (cases ps) (auto simp: quote_flush_def quoted_path_def)

lemma quote_loop_eq:
  "quote_loop q (tl (quoted_path q ps)) part s =
     tl (quoted_path q (ps @ filter (\<lambda>p. p \<noteq> []) (split_dots part s)))"
proof (induction s arbitrary: ps part)
  case Nil
  then show ?case by (simp add: quote_flush_eq)
next
  case (Cons c cs)
  show ?case
  proof (cases "c = CHR ''.''")
    case True
    have "quote_loop q (tl (quoted_path q ps)) part (c # cs) =
        quote_loop q (tl (quoted_path q (if part = [] then ps else ps @ [part]))) [] cs"
      using True by (simp add: quote_flush_eq)
    then show ?thesis using True unfolding Cons.IH by simp
  next
    case False
    then show ?thesis by (simp add: Cons.IH)
  qed
qed

lemma read_path_quoted:
  assumes "ps \<noteq> []" "length ps \<le> n" "q \<noteq> CHR ''.''"
  shows "read_path n q (tl (quoted_path q ps)) = Some ps"
  using assms
proof (induction ps arbitrary: n)
  case (Cons p ps)
  then obtain m where n: "n = Suc m" by (cases n) auto
  have tl: "tl (quoted_path q (p # ps)) = q # double_quote q p @ q # quoted_path q ps"
    by (simp add: quoted_path_def)
  have rest: "quoted_path q ps = [] \<or> hd (quoted_path q ps) \<noteq> q"
    using Cons.prems by (cases ps) (auto simp: quoted_path_def)
  show ?case
  proof (cases ps)
    case Nil
    then show ?thesis
      unfolding n tl using read_quoted_double [OF rest, of p] by (simp add: quoted_path_def)
  next
    case (Cons p' ps')
    then have "hd (quoted_path q ps) = CHR ''.''" "quoted_path q ps \<noteq> []"
      by (simp_all add: quoted_path_def)
    moreover have "read_path m q (tl (quoted_path q ps)) = Some ps"
      using Cons.IH Cons.prems Cons n by simp
    ultimately show ?thesis
      unfolding n tl using read_quoted_double [OF rest, of p] by simp
  qed
qed simp

lemma quoteIdent_path: "quoteIdent name d = tl (quoted_path (ident_quote d) (ident_parts name))"
  using quote_loop_eq [of "ident_quote d" "[]" "[]" name]
  by (simp add: quoteIdent_def ident_parts_def quoted_path_def)

text \<open>
  A quoted identifier reads back, with the quoting rule of the dialect, as the dot separated
  parts of the name, so no name escapes its quotes.
\<close>

theorem quoteIdent_read_back:
  assumes "ident_parts name \<noteq> []"
  shows "read_path (length (ident_parts name)) (ident_quote d) (quoteIdent name d) =
    Some (ident_parts name)"
  unfolding quoteIdent_path
  by (rule read_path_quoted) (use assms in \<open>simp_all add: ident_quote_def\<close>)

theorem quoteIdent_read_back_witness:
  "ident_parts ''a.b'' \<noteq> [] \<and>
   read_path (length (ident_parts ''a.b'')) (ident_quote MySQL) (quoteIdent ''a.b'' MySQL) =
     Some (ident_parts ''a.b'')"
proof -
  have h: "ident_parts ''a.b'' \<noteq> []" by code_simp
  show ?thesis by (rule conjI [OF h quoteIdent_read_back [OF h]])
qed

theorem quoteStringLiteral_read_back:
  assumes "rest = [] \<or> hd rest \<noteq> SQ"
  shows "\<exists>s. quoteStringLiteral v @ rest = SQ # s \<and> read_quoted SQ s = Some (v, rest)"
  using read_quoted_double [OF assms] by (simp add: quoteStringLiteral_def)

theorem quoteStringLiteral_read_back_witness:
  "hd ''; x'' \<noteq> SQ \<and>
   (\<exists>s. quoteStringLiteral [CHR ''a'', SQ] @ ''; x'' = SQ # s \<and>
      read_quoted SQ s = Some ([CHR ''a'', SQ], ''; x''))"
proof -
  have h: "hd ''; x'' \<noteq> SQ" by simp
  show ?thesis by (rule conjI [OF h quoteStringLiteral_read_back [OF disjI2 [OF h]]])
qed

section \<open>Placeholders match parameters\<close>

abbreviation marks :: "string \<Rightarrow> nat" where
  "marks s \<equiv> count_list s CHR ''?''"

lemma count_list_double_quote:
  "x \<noteq> q \<Longrightarrow> count_list (double_quote q s) x = count_list s x"
  by (induction s) auto

lemma marks_comma_join: "marks (comma_join as) = sum_list (map marks as)"
  by (induction as rule: comma_join.induct) auto

lemma marks_args [simp]: "marks (parenArgs n) = n" "marks (csvArgs n) = n"
  by (simp_all add: parenArgs_def csvArgs_def marks_comma_join sum_list_replicate)
 
lemma marks_outVarName [simp]: "marks (outVarName i) = 0"
proof -
  have "CHR ''?'' \<notin> set (to_string i)"
    using dec_digits_range [of "CHR ''?''" i] by (auto simp: to_string_def isdigit_def)
  then show ?thesis by (simp add: outVarName_def count_list_0_iff)
qed

text \<open>
  The invariant of the parameter loop: every placeholder written has a parameter collected for it,
  and the output columns and counts are those of the parameters with a result.
\<close>

fun plan_inv :: "Dialect \<Rightarrow> plan_state \<Rightarrow> bool" where
  "plan_inv d (i, args, setParts, plan) \<longleftrightarrow>
     sum_list (map marks args) = length (callParams plan) \<and>
     sum_list (map marks setParts) = length (preParams plan) \<and>
     (setParts = [] \<longleftrightarrow> preParams plan = []) \<and>
     (d \<noteq> Postgres \<longrightarrow> length args = length (callParams plan) + length (outColumns plan)) \<and>
     length (preParams plan) \<le> length (outColumns plan) \<and> preSql plan = []"

lemma plan_param_inv: "plan_inv d st \<Longrightarrow> plan_inv d (plan_param d p st)"
  by (cases st; cases "direction p"; cases "d = Postgres")
    (simp_all add: plan_param_def Let_def)

lemma plan_params_inv: "plan_inv d st \<Longrightarrow> plan_inv d (fold (plan_param d) ps st)"
  by (rule fold_invariant [where Q = "\<lambda>_. True"]) (simp_all add: plan_param_inv)

definition outs :: "CallParam list \<Rightarrow> nat" where
  "outs ps = length (filter (\<lambda>p. direction p \<noteq> In) ps)"

lemma plan_param_outs:
  "plan_param d p (i, args, sp, plan) = (i', args', sp', plan') \<Longrightarrow>
   length (outColumns plan') + outFromRowCount plan' =
     length (outColumns plan) + outFromRowCount plan + outs [p] \<and>
   (d = Postgres \<longrightarrow> outColumns plan' = outColumns plan) \<and>
   (d \<noteq> Postgres \<longrightarrow> outFromRowCount plan' = outFromRowCount plan)"
  by (cases "direction p"; cases "d = Postgres") (auto simp: plan_param_def Let_def outs_def)

lemma plan_params_outs:
  "fold (plan_param d) ps (i, args, sp, plan) = (i', args', sp', plan') \<Longrightarrow>
   length (outColumns plan') + outFromRowCount plan' =
     length (outColumns plan) + outFromRowCount plan + outs ps \<and>
   (d = Postgres \<longrightarrow> outColumns plan' = outColumns plan) \<and>
   (d \<noteq> Postgres \<longrightarrow> outFromRowCount plan' = outFromRowCount plan)"
proof (induction ps arbitrary: i args sp plan)
  case Nil
  then show ?case by (simp add: outs_def)
next
  case (Cons p ps)
  obtain j a s pl where step: "plan_param d p (i, args, sp, plan) = (j, a, s, pl)"
    by (metis prod_cases4)
  have "outs (p # ps) = outs [p] + outs ps" by (simp add: outs_def)
  with Cons.IH [of j a s pl] Cons.prems plan_param_outs [OF step] show ?case
    by (simp add: step)
qed

lemma marks_quoteIdent_parts:
  "marks (quoted_path q ps) = sum_list (map marks ps)" if "q \<noteq> CHR ''?''"
  using that by (induction ps) (auto simp: quoted_path_def count_list_double_quote)

lemma marks_split_dots: "sum_list (map marks (split_dots part s)) = marks part + marks s"
  by (induction s arbitrary: part) auto

lemma marks_filter: "sum_list (map marks (filter (\<lambda>p. p \<noteq> []) ps)) = sum_list (map marks ps)"
  by (induction ps) auto

lemma marks_quoteIdent [simp]: "marks (quoteIdent name d) = marks name"
proof -
  let ?p = "quoted_path (ident_quote d) (ident_parts name)"
  have "marks (tl ?p) = marks ?p"
    by (cases "ident_parts name") (simp_all add: quoted_path_def)
  also have "\<dots> = marks name"
    by (simp add: marks_quoteIdent_parts ident_quote_def ident_parts_def marks_filter marks_split_dots)
  finally show ?thesis by (simp add: quoteIdent_path)
qed

lemma marks_qualified [simp]: "marks (qualified_name n) = marks n"
  by (simp add: qualified_name_def)

lemma plan_refused_outs:
  assumes "plan_refused ref params d returnsRows = None" and "d = SqlServer \<or> d = Oracle"
  shows "outs params = 0"
proof -
  have "\<not> hasOutParams params"
    using assms by (auto simp: plan_refused_def Let_def split: if_splits)
  then show ?thesis by (simp add: hasOutParams_def outs_def)
qed

text \<open>
  A routine call plan has as many question marks in its call statement and in its preparing SET
  statement as it binds values there, and it reads back exactly one value per OUT or INOUT
  parameter.
\<close>

theorem makeCallPlan_placeholders:
  assumes "makeCallPlan ref params d returnsRows = Inr plan" and "marks (ref_name ref) = 0"
  shows "marks (callSql plan) = length (callParams plan) \<and>
    marks (preSql plan) = length (preParams plan) \<and>
    length (outColumns plan) + outFromRowCount plan = outs params"
proof -
  obtain i args sp pl where f: "fold (plan_param d) params (0, [], [], empty_plan) = (i, args, sp, pl)"
    by (metis prod_cases4)
  have inv: "plan_inv d (i, args, sp, pl)"
    using plan_params_inv [of d "(0, [], [], empty_plan)" params] f by (simp add: empty_plan_def)
  have outs: "length (outColumns pl) + outFromRowCount pl = outs params"
    "d = Postgres \<longrightarrow> outColumns pl = []"
    using plan_params_outs [OF f] by (simp_all add: empty_plan_def)
  have ok: "plan_refused ref params d returnsRows = None"
    using assms(1) by (cases "plan_refused ref params d returnsRows") (auto simp: makeCallPlan_def)
  note [simp] = marks_comma_join assms(2)
  show ?thesis
  proof (cases d)
    case Auto
    with ok show ?thesis by (simp add: plan_refused_def Let_def split: if_splits)
  next
    case SqlServer
    with plan_refused_outs [OF ok] outs inv have "length args = length (callParams pl)" by simp
    with assms(1) ok f inv outs SqlServer show ?thesis
      by (auto simp: makeCallPlan_def Let_def)
  next
    case Oracle
    with plan_refused_outs [OF ok] outs inv have "length args = length (callParams pl)" by simp
    with assms(1) ok f inv outs Oracle show ?thesis
      by (auto simp: makeCallPlan_def Let_def)
  qed (use assms(1) ok f inv outs in \<open>auto simp: makeCallPlan_def Let_def\<close>)
qed

definition sample_call :: RoutineRef where
  "sample_call = \<lparr>ref_name = ''p'', ref_kind = Procedure, ref_dataSource = []\<rparr>"

definition sample_params :: "CallParam list" where
  "sample_params = [\<lparr>cp_value = VBool True, direction = InOut, cp_type = TAuto, typeName = [], maxBytes = 0\<rparr>]"

theorem makeCallPlan_placeholders_witness:
  "\<exists>plan. makeCallPlan sample_call sample_params MySQL False = Inr plan \<and> marks (ref_name sample_call) = 0 \<and>
    marks (callSql plan) = length (callParams plan) \<and>
    marks (preSql plan) = length (preParams plan) \<and>
    length (outColumns plan) + outFromRowCount plan = outs sample_params"
proof -
  have "isl (makeCallPlan sample_call sample_params MySQL False) = False" by code_simp
  then obtain plan where p: "makeCallPlan sample_call sample_params MySQL False = Inr plan"
    by (cases "makeCallPlan sample_call sample_params MySQL False") auto
  have n: "marks (ref_name sample_call) = 0" by (simp add: sample_call_def)
  show ?thesis by (rule exI [of _ plan], rule conjI [OF p], rule conjI [OF n])
      (rule makeCallPlan_placeholders [OF p n])
qed

section \<open>Postgres procedures\<close>

lemma plan_params_all_in:
  assumes "\<not> hasOutParams ps"
  shows "\<exists>i' plan'. fold (plan_param d) ps (i, args, sp, plan) = (i', args @ replicate (length ps) ''?'', sp, plan')"
  using assms
proof (induction ps arbitrary: i args plan)
  case (Cons p ps)
  then have "direction p = In" "\<not> hasOutParams ps" by (auto simp: hasOutParams_def)
  with Cons.IH [of "i + 1" "args @ [''?'']" "plan\<lparr>callParams := callParams plan @ [cp_value p]\<rparr>"]
  show ?case by (simp add: plan_param_def)
qed simp

theorem postgres_procedure_call_forms:
  assumes "ref_name ref \<noteq> []" and "ref_kind ref = Procedure" and "\<not> hasOutParams params"
  shows "makeCallSql ref (length params) Postgres False =
      Inr (''CALL '' @ quoteIdent (ref_name ref) Postgres @ parenArgs (length params)) \<and>
    map_sum id callSql (makeCallPlan ref params Postgres False) =
      Inr (''SELECT * FROM '' @ quoteIdent (ref_name ref) Postgres @ parenArgs (length params))"
proof -
  obtain i' plan' where "fold (plan_param Postgres) params (0, [], [], empty_plan) =
      (i', replicate (length params) ''?'', [], plan')"
    using plan_params_all_in [OF assms(3), of Postgres 0 "[]" "[]" empty_plan] by auto
  moreover have "plan_refused ref params Postgres False = None"
    using assms by (simp add: plan_refused_def Let_def)
  ultimately show ?thesis
    using assms by (simp add: makeCallSql_def makeCallPlan_def Let_def parenArgs_def)
qed

theorem postgres_procedure_call_forms_witness:
  "ref_name sample_call \<noteq> [] \<and> ref_kind sample_call = Procedure \<and> \<not> hasOutParams [] \<and>
   makeCallSql sample_call (length ([] :: CallParam list)) Postgres False =
      Inr (''CALL '' @ quoteIdent (ref_name sample_call) Postgres @ parenArgs (length ([] :: CallParam list))) \<and>
   map_sum id callSql (makeCallPlan sample_call [] Postgres False) =
      Inr (''SELECT * FROM '' @ quoteIdent (ref_name sample_call) Postgres @ parenArgs (length ([] :: CallParam list)))"
proof -
  have h: "ref_name sample_call \<noteq> []" "ref_kind sample_call = Procedure" "\<not> hasOutParams []"
    by (simp_all add: sample_call_def hasOutParams_def)
  show ?thesis by (rule conjI [OF h(1)], rule conjI [OF h(2)], rule conjI [OF h(3)])
      (rule postgres_procedure_call_forms [OF h])
qed

end
