(* ===== verification/SqlLiterals.thy ===== *)
theory SqlLiterals
  imports SqlDialect SqlAnalyze
begin

text \<open>
  How the SQL scanner of \<^verbatim>\<open>src/common/sql_analyze.cpp\<close> treats the string literals that
  \<open>quoteStringLiteral\<close> of \<^verbatim>\<open>include/sqlconduit/util.h\<close> writes. A statement is given as its plain
  stretches and the values of the literals between them; the masked text keeps the stretches and
  blanks the literals byte for byte, and the structural template and fingerprint do not depend on
  the values. A value holds no backslash, because the scanner reads a backslash as an escape in every
  dialect.
\<close>

section \<open>Statements with string literals\<close>

text \<open>
  Text without quotes, dollar signs and comment openings; a statement made of such stretches with a
  literal behind each; the conditions on the literals. Two literals need text between them, or
  the closing and opening quotes would read as one doubled quote.
\<close>

fun plain_text :: "string \<Rightarrow> bool" where
  "plain_text [] = True"
| "plain_text (c # cs) \<longleftrightarrow>
     c \<noteq> SQ \<and> c \<noteq> DQ \<and> c \<noteq> BQ \<and> c \<noteq> CHR ''$'' \<and>
     \<not> line_comment_at c cs \<and> \<not> block_comment_at c cs \<and> plain_text cs"

fun sql_text :: "string \<Rightarrow> (string \<times> string) list \<Rightarrow> string" where
  "sql_text p [] = p"
| "sql_text p ((v, p') # vs) = p @ quoteStringLiteral v @ sql_text p' vs"

fun literals_ok :: "(string \<times> string) list \<Rightarrow> bool" where
  "literals_ok [] = True"
| "literals_ok ((v, p) # vs) \<longleftrightarrow> BSL \<notin> set v \<and> plain_text p \<and> (vs \<noteq> [] \<longrightarrow> p \<noteq> []) \<and> literals_ok vs"

definition literal_front :: "string \<Rightarrow> bool" where
  "literal_front x \<longleftrightarrow> x = [] \<or> hd x = SQ"

definition no_literal_front :: "string \<Rightarrow> bool" where
  "no_literal_front x \<longleftrightarrow> x = [] \<or> hd x \<noteq> SQ"

lemma sql_text_front: "literal_front (sql_text [] vs)"
  by (cases vs rule: literals_ok.cases) (auto simp: literal_front_def quoteStringLiteral_def)

lemma sql_text_split: "sql_text p vs = p @ sql_text [] vs"
  by (cases vs rule: literals_ok.cases) auto

lemma sql_text_no_front:
  "plain_text p \<Longrightarrow> (vs \<noteq> [] \<longrightarrow> p \<noteq> []) \<Longrightarrow> no_literal_front (sql_text p vs)"
  by (subst sql_text_split) (cases p; cases vs; auto simp: no_literal_front_def)

lemma skip_quoted_literal:
  assumes "BSL \<notin> set v" "no_literal_front x"
  shows "skip_quoted SQ (double_quote SQ v @ SQ # x) = x"
  using assms by (induction v) (auto simp: no_literal_front_def)

lemma plain_text_suffix: "plain_text s \<Longrightarrow> suffix r s \<Longrightarrow> plain_text r"
proof (induction s)
  case (Cons c s)
  then show ?case by (cases "r = c # s") (auto simp: suffix_Cons)
qed simp

lemma comment_at_append:
  assumes "literal_front x"
  shows "line_comment_at c (cs @ x) = line_comment_at c cs"
    and "block_comment_at c (cs @ x) = block_comment_at c cs"
  using assms
  by (cases cs; cases x; simp add: line_comment_at_def block_comment_at_def literal_front_def)+

lemma quote_no_comment [simp]: "\<not> line_comment_at SQ cs" "\<not> block_comment_at SQ cs"
  by (simp_all add: line_comment_at_def block_comment_at_def)

section \<open>Masking\<close>

lemma mask_loop_plain:
  "plain_text p \<Longrightarrow> literal_front x \<Longrightarrow> mask_loop out (p @ x) = mask_loop (out @ p) x"
proof (induction p arbitrary: out)
  case (Cons c p)
  then have "mask_step out c (p @ x) = (out @ [c], p @ x)"
    by (simp add: mask_step_def comment_at_append)
  then show ?case using Cons by simp
qed simp

lemma mask_loop_literal:
  assumes "BSL \<notin> set v" "no_literal_front x"
  shows "mask_loop out (quoteStringLiteral v @ x) =
    mask_loop (out @ replicate (length (quoteStringLiteral v)) SP) x"
proof -
  have "mask_step out SQ (double_quote SQ v @ SQ # x) =
      (out @ blanks (SQ # double_quote SQ v @ SQ # x) x, x)"
    unfolding mask_step_def using skip_quoted_literal [OF assms] by simp
  then show ?thesis by (simp add: quoteStringLiteral_def blanks_def)
qed

lemma mask_loop_sql_text:
  "plain_text p \<Longrightarrow> literals_ok vs \<Longrightarrow> mask_loop out (sql_text p vs) =
    out @ p @ concat (map (\<lambda>(v, p'). replicate (length (quoteStringLiteral v)) SP @ p') vs)"
proof (induction vs arbitrary: out p rule: literals_ok.induct)
  case 1
  then show ?case using mask_loop_plain [of p "[]"] by (simp add: literal_front_def)
next
  case (2 v p' vs)
  have "mask_loop out (sql_text p ((v, p') # vs)) =
      mask_loop (out @ p) (quoteStringLiteral v @ sql_text p' vs)"
    using mask_loop_plain [of p "quoteStringLiteral v @ sql_text p' vs"] 2
    by (simp add: literal_front_def quoteStringLiteral_def)
  also have "\<dots> = mask_loop (out @ p @ replicate (length (quoteStringLiteral v)) SP) (sql_text p' vs)"
    using mask_loop_literal [OF _ sql_text_no_front] 2 by simp
  finally show ?case using 2 by simp
qed

theorem maskLiteralRegions_sql_text:
  assumes "plain_text p" and "literals_ok vs"
  shows "maskLiteralRegions (sql_text p vs) =
    p @ concat (map (\<lambda>(v, p'). replicate (length (quoteStringLiteral v)) SP @ p') vs)"
  using mask_loop_sql_text [OF assms, of "[]"] by (simp add: maskLiteralRegions_def)

theorem maskLiteralRegions_sql_text_witness:
  "plain_text ''a='' \<and> literals_ok [(''b'', '' or c'')] \<and>
   maskLiteralRegions (sql_text ''a='' [(''b'', '' or c'')]) =
    ''a='' @ concat (map (\<lambda>(v, p'). replicate (length (quoteStringLiteral v)) SP @ p') [(''b'', '' or c'')])"
proof -
  have h: "plain_text ''a=''" "literals_ok [(''b'', '' or c'')]" by code_simp+
  show ?thesis by (intro conjI h maskLiteralRegions_sql_text [OF h])
qed

section \<open>Template\<close>

lemma skip_fraction_append:
  "literal_front x \<Longrightarrow> skip_fraction (s @ x) = skip_fraction s @ x"
  by (cases s; cases x)
    (auto simp: skip_fraction_def literal_front_def dropWhile_append_stop cctype_simps)

lemma sq_classes [simp]:
  "\<not> isdigit SQ" "\<not> isIdent SQ" "\<not> digit_or_us SQ" "\<not> isxdigit SQ" "\<not> isspace SQ"
  by (simp_all add: cctype_simps)

lemma skip_exponent_append:
  assumes "literal_front x"
  shows "skip_exponent (s @ x) = skip_exponent s @ x"
proof -
  have d: "dropWhile digit_or_us (u @ x) = dropWhile digit_or_us u @ x" for u
    using assms by (auto simp: literal_front_def intro!: dropWhile_append_stop)
  have sg: "(if u @ x \<noteq> [] \<and> hd (u @ x) \<in> {CHR ''+'', CHR ''-''} then tl (u @ x) else u @ x) =
      (if u \<noteq> [] \<and> hd u \<in> {CHR ''+'', CHR ''-''} then tl u else u) @ x" for u
    using assms by (cases u; cases x) (simp_all add: literal_front_def)
  have hd: "u @ x \<noteq> [] \<and> digit_or_us (hd (u @ x)) \<longleftrightarrow> u \<noteq> [] \<and> digit_or_us (hd u)" for u
    using assms by (cases u; cases x) (simp_all add: literal_front_def)
  have e: "s @ x \<noteq> [] \<and> hd (s @ x) \<in> {CHR ''e'', CHR ''E''} \<longleftrightarrow> s \<noteq> [] \<and> hd s \<in> {CHR ''e'', CHR ''E''}"
    using assms by (cases s; cases x) (simp_all add: literal_front_def)
  show ?thesis
  proof (cases "s \<noteq> [] \<and> hd s \<in> {CHR ''e'', CHR ''E''}")
    case True
    then have "tl (s @ x) = tl s @ x" by simp
    with True show ?thesis unfolding skip_exponent_def e Let_def by (simp only: sg hd d if_True) simp
  next
    case False
    then show ?thesis unfolding skip_exponent_def e by (simp only: if_False)
  qed
qed

lemma skip_number_append:
  assumes "literal_front x" "s \<noteq> []"
  shows "skip_number (s @ x) = skip_number s @ x"
proof -
  have d: "dropWhile P (u @ x) = dropWhile P u @ x" if "\<not> P SQ" for u P
    using assms(1) that by (auto simp: literal_front_def intro!: dropWhile_append_stop)
  have two: "length (s @ x) > 1 \<and> hd (s @ x) = CHR ''0'' \<and> (s @ x) ! 1 \<in> A \<longleftrightarrow>
      length s > 1 \<and> hd s = CHR ''0'' \<and> s ! 1 \<in> A" if "SQ \<notin> A" for A
    using assms that by (cases s; cases "tl s"; cases x) (auto simp: literal_front_def)
  have x: "SQ \<notin> {CHR ''x'', CHR ''X''}" and b: "SQ \<notin> {CHR ''b'', CHR ''B''}" by simp_all
  have dr: "drop 2 (s @ x) = drop 2 s @ x" if "length s > 1" using that by simp
  have num: "skip_exponent (skip_fraction (dropWhile digit_or_us (s @ x))) =
      skip_exponent (skip_fraction (dropWhile digit_or_us s)) @ x"
    by (simp add: d skip_fraction_append skip_exponent_append assms)
  consider "length s > 1 \<and> hd s = CHR ''0'' \<and> s ! 1 \<in> {CHR ''x'', CHR ''X''}"
    | "\<not> (length s > 1 \<and> hd s = CHR ''0'' \<and> s ! 1 \<in> {CHR ''x'', CHR ''X''})"
      "length s > 1 \<and> hd s = CHR ''0'' \<and> s ! 1 \<in> {CHR ''b'', CHR ''B''}"
    | "\<not> (length s > 1 \<and> hd s = CHR ''0'' \<and> s ! 1 \<in> {CHR ''x'', CHR ''X''})"
      "\<not> (length s > 1 \<and> hd s = CHR ''0'' \<and> s ! 1 \<in> {CHR ''b'', CHR ''B''})"
    by blast
  then show ?thesis
    unfolding skip_number_def two [OF x] two [OF b]
    by cases (simp_all only: if_True if_False dr num, simp_all add: d)
qed

lemma plainNumber_append: "literal_front x \<Longrightarrow> plainNumber c (cs @ x) = plainNumber c cs"
  by (cases cs; cases x) (auto simp: plainNumber_def literal_front_def)

lemma signedNumber_append: "literal_front x \<Longrightarrow> signedNumber c (cs @ x) = signedNumber c cs"
  by (cases cs; cases "tl cs"; cases x) (auto simp: signedNumber_def literal_front_def)

lemma suffix_skip_number: "suffix (skip_number s) s"
proof -
  have e: "suffix (skip_exponent u) u" for u
    by (auto simp: skip_exponent_def Let_def suffix_dropWhile
        intro: suffix_order.trans [OF suffix_dropWhile] suffix_order.trans [OF suffix_tl] suffix_tl)
  have f: "suffix (skip_fraction u) u" for u
    by (auto simp: skip_fraction_def intro: suffix_order.trans [OF suffix_dropWhile] suffix_tl)
  show ?thesis
    unfolding skip_number_def
    by (intro if_branches [where P = "\<lambda>r. suffix r s"])
      (meson e f suffix_order.trans suffix_dropWhile suffix_drop)+
qed

lemma structural_step_plain:
  assumes "plain_text (c # cs)"
  shows "\<exists>st' r. plain_text r \<and> length r \<le> length cs \<and>
    (\<forall>x. literal_front x \<longrightarrow> structural_step st c (cs @ x) = (st', r @ x))"
proof -
  obtain prev out pend where st: "st = (prev, out, pend)" by (cases st)
  let ?flushed = "flushSpace out pend"
  have nq: "c \<noteq> SQ" "c \<noteq> DQ" "c \<noteq> BQ" "c \<noteq> CHR ''$''" "\<not> line_comment_at c cs" "\<not> block_comment_at c cs"
    and pcs: "plain_text cs"
    using assms by simp_all
  have prev: "prev_after (c # cs @ x) (r @ x) = prev_after (c # cs) r" if "length r \<le> length cs" for x r
    using prev_after_append [of r "c # cs" x] that by simp
  consider "isspace c" | "\<not> isspace c" "at_boundary prev \<and> (plainNumber c cs \<or> signedNumber c cs)"
    | "\<not> isspace c" "\<not> (at_boundary prev \<and> (plainNumber c cs \<or> signedNumber c cs))" by blast
  then show ?thesis
  proof cases
    case 1
    then have "structural_step st c (cs @ x) = ((Some (prev_after (c # cs) cs), out, out \<noteq> []), cs @ x)" for x
      by (simp add: structural_step_def st structural_emit_def Let_def prev)
    then show ?thesis using pcs by blast
  next
    case 2
    let ?s = "if signedNumber c cs then cs else c # cs"
    let ?r = "skip_number ?s"
    have ne: "?s \<noteq> []" by (auto simp: signedNumber_def)
    have len: "length ?r \<le> length cs" using 2(2) by (intro number_forward) blast
    have "suffix ?s (c # cs)" by (simp add: suffix_ConsI)
    then have "suffix ?r (c # cs)" by (rule suffix_order.trans [OF suffix_skip_number])
    then have "plain_text ?r" by (rule plain_text_suffix [OF assms])
    moreover have "structural_step st c (cs @ x) = ((Some (prev_after (c # cs) ?r), ?flushed @ ''?'', False), ?r @ x)"
      if x: "literal_front x" for x
    proof -
      have "skip_number (if signedNumber c cs then cs @ x else c # cs @ x) = ?r @ x"
        using skip_number_append [OF x ne] by (simp split: if_splits)
      then show ?thesis
        using 2 nq prev [OF len]
        by (simp add: structural_step_def st structural_emit_def Let_def
            comment_at_append [OF x] plainNumber_append [OF x] signedNumber_append [OF x])
    qed
    ultimately show ?thesis using len by blast
  next
    case 3
    then have "structural_step st c (cs @ x) = ((Some (prev_after (c # cs) cs), ?flushed @ [c], False), cs @ x)"
      if x: "literal_front x" for x
      using nq
      by (simp add: structural_step_def st structural_emit_def Let_def prev
          comment_at_append [OF x] plainNumber_append [OF x] signedNumber_append [OF x]) blast
    then show ?thesis using pcs by blast
  qed
qed

lemma structural_loop_literal:
  assumes "BSL \<notin> set v" "no_literal_front x"
  shows "structural_loop (prev, out, pend) (quoteStringLiteral v @ x) =
    structural_loop (Some SQ, flushSpace out pend @ ''?'', False) x"
proof -
  have "prev_after (SQ # double_quote SQ v @ SQ # x) x = SQ"
    by (simp add: prev_after_def nth_append)
  then have "structural_step (prev, out, pend) SQ (double_quote SQ v @ SQ # x) =
      ((Some SQ, flushSpace out pend @ ''?'', False), x)"
    using skip_quoted_literal [OF assms]
    by (simp add: structural_step_def structural_emit_def Let_def)
  then show ?thesis by (simp add: quoteStringLiteral_def)
qed

lemma structural_loop_sql_text:
  assumes "plain_text p" "literals_ok vs" "literals_ok ws" "map snd vs = map snd ws"
  shows "structural_loop st (sql_text p vs) = structural_loop st (sql_text p ws)"
  using assms
proof (induction vs arbitrary: st p ws rule: literals_ok.induct)
  case (2 v p' vs)
  then obtain w ws' where ws: "ws = (w, p') # ws'" "map snd vs = map snd ws'"
    by (auto simp: map_eq_Cons_conv)
  obtain st' where st': "\<forall>x. literal_front x \<longrightarrow> structural_loop st (p @ x) = structural_loop st' x"
    using structural.run_stretch [where P = plain_text and F = literal_front, OF "2.prems"(1)]
      structural_step_plain by blast
  obtain prev out pend where s: "st' = (prev, out, pend)" by (cases st')
  have lit: "structural_loop st (sql_text p ((u, p') # us)) =
      structural_loop (Some SQ, flushSpace out pend @ ''?'', False) (sql_text p' us)"
    if "literals_ok ((u, p') # us)" for u us
  proof -
    have "literal_front (quoteStringLiteral u @ sql_text p' us)"
      by (simp add: literal_front_def quoteStringLiteral_def)
    with st' s structural_loop_literal [OF _ sql_text_no_front] that show ?thesis by simp
  qed
  show ?case
    using lit [of v vs] lit [of w ws'] "2.IH" "2.prems" ws by simp
qed simp

text \<open>
  C16: Two statements that differ only in the values of their quoted string literals have the
  same structural template and the same fingerprint, provided the values contain no backslash
  (which the scanner takes for an escape), the text around the literals contains no quotes,
  backquotes, dollar signs or openings of comments, and two literals have some text between
  them.
\<close>

theorem fingerprint_ignores_literal_values:
  assumes "plain_text p" and "literals_ok vs" and "literals_ok ws" and "map snd vs = map snd ws"
  shows "structuralTemplate (sql_text p vs) = structuralTemplate (sql_text p ws) \<and>
    fingerprintTemplate (sql_text p vs) = fingerprintTemplate (sql_text p ws)"
  using structural_loop_sql_text [OF assms]
  by (simp add: structuralTemplate_def fingerprintTemplate_def buildStructural_def)

theorem fingerprint_ignores_literal_values_witness:
  "plain_text ''a='' \<and> literals_ok [(''b'', '' or c'')] \<and> literals_ok [(''x'', '' or c'')] \<and>
   map snd [(''b'', '' or c'')] = map snd [(''x'', '' or c'')] \<and>
   structuralTemplate (sql_text ''a='' [(''b'', '' or c'')]) =
     structuralTemplate (sql_text ''a='' [(''x'', '' or c'')]) \<and>
   fingerprintTemplate (sql_text ''a='' [(''b'', '' or c'')]) =
     fingerprintTemplate (sql_text ''a='' [(''x'', '' or c'')])"
proof -
  have h: "plain_text ''a=''" "literals_ok [(''b'', '' or c'')]" "literals_ok [(''x'', '' or c'')]"
    "map snd [(''b'', '' or c'')] = map snd [(''x'', '' or c'')]" by code_simp+
  show ?thesis by (intro conjI h fingerprint_ignores_literal_values [OF h, THEN conjunct1]
      fingerprint_ignores_literal_values [OF h, THEN conjunct2])
qed

end
