(* ===== verification/NamedParams.thy ===== *)
theory NamedParams
  imports Types SqlAnalyze
begin

text \<open>
  The rewriting of \<^verbatim>\<open>:name\<close> parameters into positional ones, \<^verbatim>\<open>src/common/named_params.cpp\<close>. A failed
  \<open>BoundQuery\<close> (status set, text and parameters cleared) is \<open>Inl\<close> of the status.
\<close>

section \<open>Names\<close>

definition named_first :: "char \<Rightarrow> bool" where
  [cctype_simps]: "named_first c \<longleftrightarrow> (97 \<le> byte c \<and> byte c \<le> 122) \<or> (65 \<le> byte c \<and> byte c \<le> 90) \<or> c = CHR ''_''"

definition named_next :: "char \<Rightarrow> bool" where
  [cctype_simps]: "named_next c \<longleftrightarrow> named_first c \<or> (48 \<le> byte c \<and> byte c \<le> 57)"

definition valid_name :: "string \<Rightarrow> bool" where
  "valid_name n \<longleftrightarrow> n \<noteq> [] \<and> named_first (hd n) \<and> (\<forall>c \<in> set n. named_next c)"

definition named_fail :: "string \<Rightarrow> Status" where
  "named_fail msg = error QueryError msg"

text \<open>The loop that fills the \<^verbatim>\<open>std::map\<close> of values.\<close>

fun named_values :: "(string \<times> Value) list \<Rightarrow> (string, Value) omap \<Rightarrow> Status + (string, Value) omap" where
  "named_values [] values = Inr values"
| "named_values ((n, v) # es) values =
     (if \<not> valid_name n then Inl (named_fail ''invalid named parameter name'')
      else if map_of values n \<noteq> None then Inl (named_fail (''duplicate named parameter: '' @ n))
      else named_values es (omap_set n v values))"

section \<open>Regions copied verbatim\<close>

text \<open>A quoted region behind its opening byte \<open>op\<close>: the text behind the closing \<open>cl\<close>, \<^term>\<open>None\<close> if unterminated.\<close>

fun close_quoted :: "char \<Rightarrow> char \<Rightarrow> string \<Rightarrow> string option" where
  "close_quoted op cl [] = None"
| "close_quoted op cl (x # xs) =
     (if x = BSL \<and> op \<noteq> CHR ''['' \<and> xs \<noteq> [] then close_quoted op cl (tl xs)
      else if x = cl then
        (if xs \<noteq> [] \<and> hd xs = cl then close_quoted op cl (tl xs) else Some xs)
      else close_quoted op cl xs)"

text \<open>A nested block comment at depth \<open>d\<close>.\<close>

fun close_comment :: "nat \<Rightarrow> string \<Rightarrow> string option" where
  "close_comment 0 s = Some s"
| "close_comment (Suc d) [] = None"
| "close_comment (Suc d) (x # xs) =
     (if x = CHR ''/'' \<and> xs \<noteq> [] \<and> hd xs = CHR ''*'' then close_comment (Suc (Suc d)) (tl xs)
      else if x = CHR ''*'' \<and> xs \<noteq> [] \<and> hd xs = CHR ''/'' then close_comment d (tl xs)
      else close_comment (Suc d) xs)"

definition q_close :: "char \<Rightarrow> char" where
  "q_close op = (if op = CHR ''['' then CHR '']'' else if op = CHR ''('' then CHR '')''
     else if op = CHR ''{'' then CHR ''}'' else if op = CHR ''<'' then CHR ''>'' else op)"

definition bracketIdentifier :: "char option \<Rightarrow> char \<Rightarrow> bool" where
  "bracketIdentifier prev c \<longleftrightarrow> c = CHR ''['' \<and>
     (case prev of None \<Rightarrow> True | Some p \<Rightarrow> \<not> named_next p \<and> p \<noteq> CHR '')'' \<and> p \<noteq> CHR '']'')"

section \<open>One iteration\<close>

text \<open>An iteration fails, copies the text up to a position, or finds a parameter name.\<close>

datatype named_event = NFail string | NText string | NParam string string

definition text_or_fail :: "string option \<Rightarrow> string \<Rightarrow> named_event" where
  "text_or_fail r msg = (case r of None \<Rightarrow> NFail msg | Some r' \<Rightarrow> NText r')"

definition dollar_end :: "string \<Rightarrow> string" where
  "dollar_end cs = (if cs \<noteq> [] \<and> named_first (hd cs) then dropWhile named_next cs else cs)"

definition named_dollar :: "string \<Rightarrow> named_event" where
  "named_dollar cs =
     (let e = dollar_end cs in
      if e \<noteq> [] \<and> hd e = CHR ''$'' then
        (let tag = CHR ''$'' # consumed cs e @ ''$'' in
         text_or_fail (map_option (\<lambda>k. drop (k + length tag) (tl e)) (str_find tag (tl e)))
           ''unterminated SQL dollar quote'')
      else NFail ''native positional placeholders are not supported in named queries'')"

definition named_step :: "char option \<Rightarrow> char \<Rightarrow> string \<Rightarrow> named_event" where
  "named_step prev c cs =
     (if c = SQ \<or> c = DQ \<or> c = BQ \<or> bracketIdentifier prev c then
        text_or_fail (close_quoted c (if c = CHR ''['' then CHR '']'' else c) cs)
          ''unterminated SQL quote in named query''
      else if c = CHR ''#'' then
        NFail ''hash comments/operators are dialect-ambiguous in named queries; use portable SQL''
      else if line_comment_at c cs then NText (dropWhile (\<lambda>x. x \<noteq> NL) cs)
      else if block_comment_at c cs then
        text_or_fail (close_comment 1 (tl cs)) ''unterminated SQL comment in named query''
      else if (c = CHR ''q'' \<or> c = CHR ''Q'') \<and> length cs > 1 \<and> hd cs = SQ then
        text_or_fail (map_option (\<lambda>k. drop (k + 2) (drop 2 cs)) (str_find [q_close (cs ! 1), SQ] (drop 2 cs)))
          ''unterminated Oracle alternative quote''
      else if c = CHR ''$'' \<and> (case prev of None \<Rightarrow> True | Some p \<Rightarrow> \<not> named_next p) then named_dollar cs
      else if c = CHR '':'' \<and> cs \<noteq> [] \<and> hd cs = CHR '':'' then NText (tl cs)
      else if c = CHR '':'' \<and> cs \<noteq> [] \<and> named_first (hd cs) then
        NParam (takeWhile named_next cs) (dropWhile named_next cs)
      else if c = CHR ''?'' then
        NFail ''positional placeholders cannot be mixed with named parameters''
      else if c = CHR '':'' \<and> cs \<noteq> [] \<and> isdigit (hd cs) then
        NFail ''native positional placeholders are not supported in named queries''
      else NText cs)"

lemma close_quoted_forward: "close_quoted op cl s = Some r \<Longrightarrow> length r \<le> length s"
proof (induction op cl s rule: close_quoted.induct)
  case (2 op cl x xs)
  have "length (tl xs) \<le> length (x # xs)" by simp
  with 2 show ?case
    by (auto split: if_splits intro: le_trans [OF _ \<open>length (tl xs) \<le> length (x # xs)\<close>])
qed simp

lemma close_comment_forward: "close_comment d s = Some r \<Longrightarrow> length r \<le> length s"
proof (induction d s rule: close_comment.induct)
  case (3 d x xs)
  then show ?case by (fastforce split: if_splits)
qed simp_all

lemma named_dollar_forward: "named_dollar cs = NText r \<Longrightarrow> length r \<le> length cs"
proof -
  assume a: "named_dollar cs = NText r"
  have "length (dollar_end cs) \<le> length cs" by (simp add: dollar_end_def)
  with a show ?thesis
    by (auto simp: named_dollar_def text_or_fail_def Let_def split: if_splits option.splits)
qed

lemma named_dollar_no_param [simp]: "named_dollar cs \<noteq> NParam n r"
  by (simp add: named_dollar_def text_or_fail_def Let_def split: option.split)

lemma named_step_forward:
  assumes "named_step prev c cs = NText r \<or> named_step prev c cs = NParam n r"
  shows "length r \<le> length cs"
proof -
  let ?P = "\<lambda>e. \<forall>n r. (e = NText r \<or> e = NParam n r) \<longrightarrow> length r \<le> length cs"
  have tl: "length r \<le> length cs" if "close_comment (Suc 0) (tl cs) = Some r" for r
    using close_comment_forward [OF that] by simp
  have "?P (named_step prev c cs)"
    unfolding named_step_def
    by (intro if_branches [where P = ?P])
      (auto simp: text_or_fail_def length_dropWhile_trans split: option.split
        dest: close_quoted_forward named_dollar_forward tl)
  with assms show ?thesis by blast
qed

section \<open>The loop and the entry point\<close>

text \<open>The names used so far, the output text and the parameters are the loop variables.\<close>

function named_loop :: "(string, Value) omap \<Rightarrow> char option \<Rightarrow> string list \<times> string \<times> Params \<Rightarrow> string \<Rightarrow>
    Status + (string list \<times> string \<times> Params)" where
  "named_loop values prev acc [] = Inr acc"
| "named_loop values prev (used, out, ps) (c # cs) =
     (case named_step prev c cs of
        NFail msg \<Rightarrow> Inl (named_fail msg)
      | NText r \<Rightarrow>
          named_loop values (Some (prev_after (c # cs) r)) (used, out @ consumed (c # cs) r, ps) r
      | NParam n r \<Rightarrow>
          (case map_of values n of
             None \<Rightarrow> Inl (named_fail (''missing named parameter: '' @ n))
           | Some v \<Rightarrow>
               named_loop values (Some (prev_after (c # cs) r)) (used @ [n], out @ ''?'', ps @ [v]) r))"
  by pat_completeness auto
termination
  by (relation "measure (\<lambda>(values, prev, acc, s). length s)")
    (auto simp: less_Suc_eq_le dest: named_step_forward [OF disjI1] named_step_forward [OF disjI2])

definition bindNamed :: "string \<Rightarrow> (string \<times> Value) list \<Rightarrow> Status + (string \<times> Params)" where
  "bindNamed sql params =
     (case named_values params [] of
        Inl st \<Rightarrow> Inl st
      | Inr values \<Rightarrow>
        (case named_loop values None ([], [], []) sql of
           Inl st \<Rightarrow> Inl st
         | Inr (used, out, ps) \<Rightarrow>
             (case find (\<lambda>n. n \<notin> set used) (map fst values) of
                Some n \<Rightarrow> Inl (named_fail (''unused named parameter: '' @ n))
              | None \<Rightarrow> Inr (out, ps))))"

section \<open>What a bound query is\<close>

lemma named_values_Inr:
  assumes "named_values es m = Inr m'" and "omap_ok m"
  shows "m' = fold (\<lambda>(k, v). omap_set k v) es m \<and> distinct (map fst es) \<and>
    (\<forall>n \<in> fst ` set es. valid_name n \<and> map_of m n = None)"
  using assms
proof (induction es m rule: named_values.induct)
  case (2 n v es m)
  then have ok: "valid_name n" "map_of m n = None" "named_values es (omap_set n v m) = Inr m'"
    by (auto split: if_splits)
  with 2 have "m' = fold (\<lambda>(k, v). omap_set k v) es (omap_set n v m) \<and> distinct (map fst es) \<and>
      (\<forall>k \<in> fst ` set es. valid_name k \<and> map_of (omap_set n v m) k = None)"
    by (simp add: omap_ok_set)
  with ok 2 show ?case by (auto simp: omap_lookup_set split: if_splits)
qed simp

lemma named_values_complete:
  assumes "distinct (map fst es)" "\<forall>n \<in> fst ` set es. valid_name n \<and> map_of m n = None" "omap_ok m"
  shows "named_values es m = Inr (fold (\<lambda>(k, v). omap_set k v) es m)"
  using assms
proof (induction es m rule: named_values.induct)
  case (2 n v es m)
  have "\<forall>k \<in> fst ` set es. valid_name k \<and> map_of (omap_set n v m) k = None"
    using 2 by (auto simp: omap_lookup_set)
  with 2 show ?case by (simp add: omap_ok_set)
qed simp

lemma named_loop_params:
  assumes "named_loop vals prev (used, out, ps) s = Inr (used', out', ps')"
  shows "\<exists>ns vs. used' = used @ ns \<and> ps' = ps @ vs \<and> list_all2 (\<lambda>n v. map_of vals n = Some v) ns vs"
  using assms
proof (induction vals prev "(used, out, ps)" s arbitrary: used out ps rule: named_loop.induct)
  case (2 vals prev used out ps c cs)
  show ?case
  proof (cases "named_step prev c cs")
    case (NText r)
    with 2 show ?thesis by auto
  next
    case (NParam n r)
    with "2.prems" obtain v where v: "map_of vals n = Some v" by (cases "map_of vals n") auto
    with "2.hyps"(2) [OF NParam v] "2.prems" NParam obtain ns vs where
      "used' = used @ n # ns" "ps' = ps @ v # vs" "list_all2 (\<lambda>n v. map_of vals n = Some v) ns vs"
      by auto
    with v show ?thesis by (intro exI [of _ "n # ns"] exI [of _ "v # vs"]) simp
  qed (use "2.prems" in simp)
qed simp

theorem bindNamed_success:
  assumes "bindNamed sql es = Inr (out, ps)"
  shows "distinct (map fst es) \<and> (\<forall>n \<in> fst ` set es. valid_name n) \<and>
    (\<exists>names. set names = fst ` set es \<and> list_all2 (\<lambda>n v. (n, v) \<in> set es) names ps)"
proof -
  from assms obtain vals where vals: "named_values es [] = Inr vals"
    by (cases "named_values es []") (auto simp: bindNamed_def)
  with assms obtain used where loop: "named_loop vals None ([], [], []) sql = Inr (used, out, ps)"
    and all: "find (\<lambda>n. n \<notin> set used) (map fst vals) = None"
    by (auto simp: bindNamed_def split: sum.splits option.splits)
  from named_values_Inr [OF vals] have es: "distinct (map fst es)" "\<forall>n \<in> fst ` set es. valid_name n"
    and v: "vals = fold (\<lambda>(k, v). omap_set k v) es []"
    by (auto simp: omap_ok_def)
  have lookup: "map_of vals n = map_of (rev es) n" for n
    unfolding v by (subst std_map.fill_lookup) (auto simp: omap_ok_def split: option.split)
  have keys: "fst ` set vals = fst ` set es"
    using std_map.fill_keys [of es] unfolding v by simp
  from named_loop_params [OF loop] have params: "list_all2 (\<lambda>n v. map_of vals n = Some v) used ps"
    by auto
  have "set used = fst ` set es"
  proof
    show "fst ` set es \<subseteq> set used" using all keys by (auto simp: find_None_iff)
    have "n \<in> fst ` set vals" if "n \<in> set used" for n
    proof -
      from that params obtain v where "map_of vals n = Some v"
        by (auto simp: list_all2_conv_all_nth in_set_conv_nth)
      then show ?thesis by (metis map_of_eq_None_iff option.distinct(1))
    qed
    then show "set used \<subseteq> fst ` set es" using keys by blast
  qed
  moreover have "list_all2 (\<lambda>n v. (n, v) \<in> set es) used ps"
    using params by (rule list_all2_mono) (auto simp: lookup dest: map_of_SomeD)
  ultimately show ?thesis using es by blast
qed

section \<open>The text does not depend on the values\<close>

lemma omap_set_same_keys:
  "map fst m = map fst m' \<Longrightarrow> map fst (omap_set k v m) = map fst (omap_set k v' m')"
proof (induction k v m arbitrary: m' rule: omap_set.induct)
  case (2 k v k1 v1 m)
  then obtain v1' m1' where "m' = (k1, v1') # m1'" "map fst m = map fst m1'"
    by (auto simp: Cons_eq_map_conv)
  with 2 show ?case by simp
qed simp

lemma map_of_same_keys: "map fst m = map fst m' \<Longrightarrow> (map_of m n = None) = (map_of m' n = None)"
  by (metis map_of_eq_None_iff set_map)

lemma named_values_same_keys:
  assumes "map fst es = map fst es'" "map fst m = map fst m'"
  shows "map_sum id (map fst) (named_values es m) = map_sum id (map fst) (named_values es' m')"
  using assms
proof (induction es m arbitrary: es' m' rule: named_values.induct)
  case (1 m)
  then show ?case by simp
next
  case (2 n v es m)
  then obtain v' es1 where es': "es' = (n, v') # es1" "map fst es = map fst es1"
    by (auto simp: Cons_eq_map_conv)
  have "map fst (omap_set n v m) = map fst (omap_set n v' m')"
    using 2 by (intro omap_set_same_keys)
  with 2 es' map_of_same_keys [OF 2(3), of n] show ?case by simp
qed

lemma named_loop_same_keys:
  assumes "map fst m = map fst m'"
  shows "map_sum id (\<lambda>(used, out, ps). (used, out)) (named_loop m prev (used, out, ps) s) =
    map_sum id (\<lambda>(used, out, ps). (used, out)) (named_loop m' prev (used, out, ps') s)"
  using assms
proof (induction m prev "(used, out, ps)" s arbitrary: used out ps ps' rule: named_loop.induct)
  case (2 m prev used out ps c cs)
  show ?case
  proof (cases "named_step prev c cs")
    case (NParam n r)
    show ?thesis
    proof (cases "map_of m n")
      case None
      moreover from None map_of_same_keys [OF "2.prems", of n] have "map_of m' n = None" by simp
      ultimately show ?thesis using NParam by simp
    next
      case (Some v)
      with map_of_same_keys [OF "2.prems", of n] obtain v' where "map_of m' n = Some v'" by auto
      with Some NParam "2.hyps"(2) "2.prems" show ?thesis by simp
    qed
  qed (use 2 in simp_all)
qed simp

text \<open>
  The SQL text produced by named binding, and the error when it fails, depend on the parameter
  names only and never on their values.
\<close>

theorem bindNamed_text_independent_of_values:
  assumes "map fst es = map fst es'"
  shows "map_sum id fst (bindNamed sql es) = map_sum id fst (bindNamed sql es')"
proof -
  have v: "map_sum id (map fst) (named_values es []) = map_sum id (map fst) (named_values es' [])"
    by (rule named_values_same_keys [OF assms]) simp
  show ?thesis
  proof (cases "named_values es []")
    case (Inl st)
    with v show ?thesis by (cases "named_values es' []") (simp_all add: bindNamed_def)
  next
    case (Inr m)
    with v obtain m' where m': "named_values es' [] = Inr m'" "map fst m = map fst m'"
      by (cases "named_values es' []") auto
    have l: "map_sum id (\<lambda>(used, out, ps). (used, out)) (named_loop m None ([], [], []) sql) =
        map_sum id (\<lambda>(used, out, ps). (used, out)) (named_loop m' None ([], [], []) sql)"
      by (rule named_loop_same_keys [OF m'(2)])
    show ?thesis
      using l Inr m'
      by (cases "named_loop m None ([], [], []) sql"; cases "named_loop m' None ([], [], []) sql")
        (auto simp: bindNamed_def split: option.splits)
  qed
qed


section \<open>Binding a template\<close>

text \<open>
  A template of plain stretches and \<^verbatim>\<open>:name\<close> references, and the positional statement it should
  become.
\<close>

fun template_plain :: "string \<Rightarrow> bool" where
  "template_plain [] = True"
| "template_plain (c # cs) \<longleftrightarrow>
     c \<notin> {SQ, DQ, BQ, CHR ''['', CHR ''#'', CHR ''$'', CHR '':'', CHR ''?''} \<and>
     \<not> line_comment_at c cs \<and> \<not> block_comment_at c cs \<and> template_plain cs"

fun named_sql :: "string \<Rightarrow> (string \<times> string) list \<Rightarrow> string" where
  "named_sql p [] = p"
| "named_sql p ((n, p') # ns) = p @ CHR '':'' # n @ named_sql p' ns"

fun positional_sql :: "string \<Rightarrow> (string \<times> string) list \<Rightarrow> string" where
  "positional_sql p [] = p"
| "positional_sql p ((n, p') # ns) = p @ CHR ''?'' # positional_sql p' ns"

fun refs_ok :: "(string \<times> string) list \<Rightarrow> bool" where
  "refs_ok [] = True"
| "refs_ok ((n, p) # ns) \<longleftrightarrow> valid_name n \<and> template_plain p \<and> (p \<noteq> [] \<longrightarrow> \<not> named_next (hd p)) \<and> refs_ok ns"

definition ref_front :: "string \<Rightarrow> bool" where
  "ref_front x \<longleftrightarrow> x = [] \<or> hd x = CHR '':''"

lemma colon_not_next [simp]: "\<not> named_next CHR '':''"
  by (simp add: cctype_simps)

lemma named_step_plain:
  assumes "template_plain (c # cs)" "ref_front x"
  shows "named_step prev c (cs @ x) = NText (cs @ x)"
proof -
  have "line_comment_at c (cs @ x) = line_comment_at c cs" "block_comment_at c (cs @ x) = block_comment_at c cs"
    using assms(2) by (cases cs; cases x; simp add: line_comment_at_def block_comment_at_def ref_front_def)+
  moreover have "\<not> (length (cs @ x) > 1 \<and> hd (cs @ x) = SQ)"
    using assms by (cases cs; cases x) (auto simp: ref_front_def)
  ultimately show ?thesis
    using assms(1) by (auto simp: named_step_def bracketIdentifier_def)
qed

lemma named_loop_plain:
  "template_plain p \<Longrightarrow> ref_front x \<Longrightarrow>
   \<exists>prev'. named_loop m prev (used, out, ps) (p @ x) = named_loop m prev' (used, out @ p, ps) x"
proof (induction p arbitrary: prev out)
  case (Cons c p)
  have "named_loop m prev (used, out, ps) ((c # p) @ x) =
      named_loop m (Some (prev_after (c # p @ x) (p @ x))) (used, out @ [c], ps) (p @ x)"
    using named_step_plain [OF Cons.prems] by (simp add: consumed_def)
  moreover obtain prev' where "named_loop m (Some (prev_after (c # p @ x) (p @ x))) (used, out @ [c], ps) (p @ x) =
      named_loop m prev' (used, (out @ [c]) @ p, ps) x"
    using Cons by fastforce
  ultimately show ?case by (intro exI [of _ prev']) simp
qed auto

lemma named_step_ref:
  assumes "valid_name n" "x = [] \<or> \<not> named_next (hd x)"
  shows "named_step prev CHR '':'' (n @ x) = NParam n x"
proof -
  obtain a as where n: "n = a # as" "named_first a" "\<forall>c \<in> set n. named_next c"
    using assms(1) by (cases n) (auto simp: valid_name_def)
  have "takeWhile named_next (n @ x) = n" "dropWhile named_next (n @ x) = x"
    using n(3) takeWhile_append_stop [where P = named_next, OF assms(2), of n]
      dropWhile_append_stop [where P = named_next, OF assms(2), of n]
    by (simp_all add: takeWhile_eq_all_conv)
  moreover have "a \<noteq> CHR '':''" using n(2) by (auto simp: named_first_def)
  ultimately show ?thesis
    using n by (simp add: named_step_def bracketIdentifier_def line_comment_at_def block_comment_at_def)
qed

lemma named_sql_front: "ref_front (named_sql [] ns)"
  by (cases ns rule: refs_ok.cases) (auto simp: ref_front_def)

lemma named_sql_split: "named_sql p ns = p @ named_sql [] ns"
  by (cases ns rule: refs_ok.cases) auto

lemma named_loop_sql:
  assumes "template_plain p" "refs_ok ns" "\<forall>n \<in> fst ` set ns. map_of m n \<noteq> None"
  shows "named_loop m prev (used, out, ps) (named_sql p ns) =
    Inr (used @ map fst ns, out @ positional_sql p ns, ps @ map (\<lambda>n. the (map_of m (fst n))) ns)"
  using assms
proof (induction ns arbitrary: p prev used out ps rule: refs_ok.induct)
  case 1
  then obtain prev' where "named_loop m prev (used, out, ps) (p @ []) = named_loop m prev' (used, out @ p, ps) []"
    using named_loop_plain [of p "[]"] by (auto simp: ref_front_def)
  then show ?case by simp
next
  case (2 n p' ns)
  let ?x = "named_sql p' ns"
  have "ref_front (CHR '':'' # n @ ?x)" by (simp add: ref_front_def)
  then obtain prev' where "named_loop m prev (used, out, ps) (p @ CHR '':'' # n @ ?x) =
      named_loop m prev' (used, out @ p, ps) (CHR '':'' # n @ ?x)"
    using named_loop_plain [OF "2.prems"(1)] by blast
  moreover have "?x = [] \<or> \<not> named_next (hd ?x)"
    unfolding named_sql_split [of p'] using "2.prems"(2) named_sql_front [of ns]
    by (cases p') (auto simp: ref_front_def)
  then have "named_step prev' CHR '':'' (n @ ?x) = NParam n ?x"
    using 2 by (intro named_step_ref) auto
  ultimately show ?case using 2 by auto
qed

text \<open>
  C15: Binding a template of plain text and :name references rewrites every reference to one
  question mark and lists the values in the order of the references.
\<close>

theorem bindNamed_template:
  assumes "template_plain p" and "refs_ok refs"
    and "distinct (map fst es)" and "fst ` set es = fst ` set refs"
  shows "bindNamed (named_sql p refs) es =
    Inr (positional_sql p refs, map (\<lambda>r. the (map_of es (fst r))) refs)"
proof -
  have valid: "\<forall>n \<in> fst ` set refs. valid_name n"
    using assms(2) by (induction refs rule: refs_ok.induct) auto
  let ?m = "fold (\<lambda>(k, v). omap_set k v) es []"
  have vals: "named_values es [] = Inr ?m"
    using named_values_complete [OF assms(3), of "[]"] valid assms(4) by (simp add: omap_ok_def)
  have look: "map_of ?m n = map_of es n" for n
  proof -
    have "map_of ?m n = map_of (rev es) n"
      by (subst std_map.fill_lookup) (auto simp: omap_ok_def split: option.split)
    also have "\<dots> = map_of es n"
      using assms(3) by (metis distinct_rev map_of_eqI map_of_is_SomeI map_of_SomeD option.exhaust rev_map set_rev)
    finally show ?thesis .
  qed
  have "\<forall>n \<in> fst ` set refs. map_of ?m n \<noteq> None"
    by (simp add: look assms(4) [symmetric] map_of_eq_None_iff)
  from named_loop_sql [OF assms(1,2) this, of None "[]" "[]" "[]"]
  have "named_loop ?m None ([], [], []) (named_sql p refs) =
      Inr (map fst refs, positional_sql p refs, map (\<lambda>r. the (map_of es (fst r))) refs)"
    by (simp add: look)
  moreover have "find (\<lambda>n. n \<notin> set (map fst refs)) (map fst ?m) = None"
    using std_map.fill_keys [of es] assms(4) by (auto simp: find_None_iff)
  ultimately show ?thesis by (simp add: bindNamed_def vals)
qed

theorem bindNamed_template_witness:
  "template_plain ''a='' \<and> refs_ok [(''x'', '' '')] \<and> distinct (map fst [(''x'', VBool True)]) \<and>
   fst ` set [(''x'', VBool True)] = fst ` set [(''x'', '' '')] \<and>
   bindNamed (named_sql ''a='' [(''x'', '' '')]) [(''x'', VBool True)] =
     Inr (positional_sql ''a='' [(''x'', '' '')],
       map (\<lambda>r. the (map_of [(''x'', VBool True)] (fst r))) [(''x'', '' '')])"
proof -
  have h: "template_plain ''a=''" "refs_ok [(''x'', '' '')]" by code_simp+
  have k: "distinct (map fst [(''x'', VBool True)])" "fst ` set [(''x'', VBool True)] = fst ` set [(''x'', '' '')]"
    by simp_all
  show ?thesis by (intro conjI h k bindNamed_template [OF h k])
qed

theorem bindNamed_success_witness:
  "bindNamed '':x'' [(''x'', VBool True)] = Inr (''?'', [VBool True]) \<and>
   distinct (map fst [(''x'', VBool True)]) \<and> valid_name ''x'' \<and>
    (\<exists>names. set names = fst ` set [(''x'', VBool True)] \<and>
       list_all2 (\<lambda>n v. (n, v) \<in> set [(''x'', VBool True)]) names [VBool True])"
proof -
  have h: "bindNamed '':x'' [(''x'', VBool True)] = Inr (''?'', [VBool True])" by code_simp
  show ?thesis using h bindNamed_success [OF h] by simp
qed

theorem bindNamed_text_independent_of_values_witness:
  "map fst [(''x'', VBool True)] = map fst [(''x'', VNull)] \<and>
   map_sum id fst (bindNamed '':x'' [(''x'', VBool True)]) = map_sum id fst (bindNamed '':x'' [(''x'', VNull)])"
proof -
  have h: "map fst [(''x'', VBool True)] = map fst [(''x'', VNull)]" by simp
  show ?thesis by (rule conjI [OF h bindNamed_text_independent_of_values [OF h]])
qed

end
