(* ===== verification/ConnectionPool.thy ===== *)
theory ConnectionPool
  imports Types "HOL-Library.Multiset"
begin

text \<open>
  The connection pool, \<^verbatim>\<open>src/core/connection_pool.cpp\<close> and its header.

  Every operation of the pool is a sequence of critical sections on the shared \<open>State\<close>; between two of
  them the lock is released and the thread holds a popped connection or a reserved slot. Each critical
  section is one function on \<open>pool_state\<close> that returns an \<open>outcome\<close>: the new state, what the thread
  does next (a \<open>flight\<close>, which carries the local variables that survive the release of the lock), the
  completions it delivers and the connections it closes. A connection that the code closes after it has
  released the lock is held by a flight of its own until then. \<open>PoolSystem\<close> composes the sections into the
  step relation of the whole pool.

  The environment of a section (\<open>pool_env\<close>) is what the code reads outside its state: the clock
  (nanoseconds), the result of a ping, what the driver answered, whether an executor accepted a task,
  how a wait ended, and the operation a request belongs to. Connections and requests are numbers. Statistics counters are \<^verbatim>\<open>uint64_t\<close> in the
  code and \<open>nat\<close> here; the bookkeeping counters \<^verbatim>\<open>total\<close>, \<^verbatim>\<open>borrowed\<close> and \<^verbatim>\<open>waiting\<close> are signed
  and are \<open>int\<close> here.
\<close>

section \<open>State\<close>

type_synonym conn = nat
type_synonym nanos = int

definition millis :: "int \<Rightarrow> nanos" where
  "millis d = d * 1000000"

record IdleConnection =
  ic_conn :: conn
  ic_createdAt :: nanos
  ic_returnedAt :: nanos
  ic_lastValidated :: nanos

record Handle =
  h_conn :: conn
  h_createdAt :: nanos
  h_borrowedAt :: nanos
  h_reusable :: bool

record AsyncWaiter =
  w_id :: nat
  w_enqueuedAt :: nanos
  w_deadline :: nanos

record pool_state =
  idle :: "IdleConnection list"
  total :: int
  borrowed :: int
  waiting :: int
  closed :: bool
  metricsEnabled :: bool
  pooled :: bool
  poolName :: string
  idleTimeout :: int
  maxLifetime :: int
  leakDetectionThreshold :: int
  validationInterval :: int
  borrowTimeout :: int
  minConn :: int
  maxConn :: int
  connectionsCreated :: nat
  connectionsClosed :: nat
  borrowTimeouts :: nat
  validationFailures :: nat
  leakWarnings :: nat
  maxBorrowed :: int
  maxWaiting :: int
  borrowRequests :: nat
  borrowSuccesses :: nat
  connectionCreateFailures :: nat
  invalidatedConnections :: nat
  idleEvictions :: nat
  lifetimeEvictions :: nat
  totalBorrowWait :: int
  maxBorrowWait :: int
  asyncWaiters :: "AsyncWaiter list"

text \<open>
  What is handed to a caller: a handle, or the status of the failure. The synchronous \<open>borrow\<close> returns
  its code and message; it is a delivery to its own request.
\<close>

type_synonym borrow_result = "Status + Handle"

type_synonym delivery = "nat \<times> borrow_result"

definition poolExhaustedMessage :: "string \<Rightarrow> int \<Rightarrow> int \<Rightarrow> int \<Rightarrow> int \<Rightarrow> string" where
  "poolExhaustedMessage name maxc tot bor waited =
     ''pool '' @ [SQ] @ name @ [SQ] @ '' exhausted: waited '' @ to_string_int waited @ ''ms (max=''
     @ to_string_int maxc @ '', total='' @ to_string_int tot @ '', borrowed='' @ to_string_int bor @ '')''"

definition poolClosedStatus :: "pool_state \<Rightarrow> Status" where
  "poolClosedStatus p = error PoolClosed (''pool '' @ [SQ] @ poolName p @ [SQ] @ '' is closed'')"

definition exhaustedStatus :: "pool_state \<Rightarrow> int \<Rightarrow> Status" where
  "exhaustedStatus p waited =
     error PoolExhausted (poolExhaustedMessage (poolName p) (maxConn p) (total p) (borrowed p) waited)"

section \<open>Shared fragments\<close>

definition lifetime_over :: "pool_state \<Rightarrow> nanos \<Rightarrow> nanos \<Rightarrow> bool" where
  "lifetime_over p now createdAt \<longleftrightarrow> maxLifetime p > 0 \<and> now - createdAt \<ge> millis (maxLifetime p)"

definition needs_ping :: "pool_state \<Rightarrow> nanos \<Rightarrow> nanos \<Rightarrow> bool" where
  "needs_ping p now lastValidated \<longleftrightarrow>
     validationInterval p \<le> 0 \<or> now - lastValidated \<ge> millis (validationInterval p)"

text \<open>\<^verbatim>\<open>++borrowed\<close> and the success metrics of the asynchronous paths.\<close>

definition count_borrow :: "pool_state \<Rightarrow> pool_state" where
  "count_borrow p =
     (let p1 = p\<lparr>borrowed := borrowed p + 1\<rparr> in
      if metricsEnabled p1
      then p1\<lparr>borrowSuccesses := borrowSuccesses p1 + 1, maxBorrowed := max (maxBorrowed p1) (borrowed p1)\<rparr>
      else p1)"

text \<open>The lambda \<open>recordWait\<close> (microseconds) and, with \<^verbatim>\<open>++borrowed\<close> in front, \<open>recordSuccess\<close>.\<close>

definition recordWait :: "nanos \<Rightarrow> nanos \<Rightarrow> pool_state \<Rightarrow> pool_state" where
  "recordWait started now p =
     (if metricsEnabled p
      then p\<lparr>totalBorrowWait := totalBorrowWait p + (now - started) div 1000,
             maxBorrowWait := max (maxBorrowWait p) ((now - started) div 1000)\<rparr>
      else p)"

definition recordSuccess :: "nanos \<Rightarrow> nanos \<Rightarrow> pool_state \<Rightarrow> pool_state" where
  "recordSuccess started now p = count_borrow (recordWait started now p)"

definition clamp_total :: "pool_state \<Rightarrow> pool_state" where
  "clamp_total p = (if total p < 0 then p\<lparr>total := 0\<rparr> else p)"

section \<open>Flights, environment, outcomes\<close>

text \<open>\<^verbatim>\<open>OperationState\<close>: the reason it was stopped (\<open>Ok\<close> while it runs) and its deadline, if it has one.\<close>

record Operation =
  op_reason :: ErrorCode
  op_deadline :: "nanos option"
  op_writeStarted :: bool

definition op_status :: "nanos \<Rightarrow> Operation option \<Rightarrow> Status" where
  "op_status now oper =
     (case oper of
        None \<Rightarrow> OK
      | Some op \<Rightarrow>
          (let late = (case op_deadline op of None \<Rightarrow> False | Some d \<Rightarrow> now \<ge> d);
               c = (if op_reason op = Ok \<and> late then QueryTimeout else op_reason op)
           in if c = Ok then OK
              else (error c (if c = Cancelled then ''operation cancelled''
                             else if c = QueryTimeout then ''operation deadline exceeded''
                             else ''invalid operation options''))\<lparr>outcomeUnknown := op_writeStarted op\<rparr>))"

definition op_remaining :: "nanos \<Rightarrow> Operation option \<Rightarrow> int \<Rightarrow> int" where
  "op_remaining now oper other =
     (case Option.bind oper op_deadline of
        None \<Rightarrow> other
      | Some d \<Rightarrow>
          (let left = max 0 (- ((now - d) div 1000000))
           in if other < 0 then left else min other left))"

record pool_env =
  e_now :: nanos
  e_now2 :: nanos
  e_ping :: bool
  e_driver :: string
  e_connect :: "Status option"
  e_conn :: conn
  e_usable :: bool
  e_post :: bool
  e_timeout :: bool
  e_ops :: "nat \<Rightarrow> Operation option"

text \<open>The local variables of a synchronous \<open>borrow\<close>.\<close>

record BorrowCall =
  b_id :: nat
  b_timeout :: int
  b_started :: nanos
  b_deadline :: nanos

datatype flight =
    BorrowCalled nat int
  | Validating BorrowCall IdleConnection
  | Creating BorrowCall
  | CreatingUnpooled BorrowCall
  | Waiting BorrowCall
  | AsyncCalled nat int
  | AsyncEntering nat int
  | PostValidate nat IdleConnection int
  | AsyncValidating nat IdleConnection int
  | AsyncDead nat conn int
  | PostCreate nat bool
  | AsyncCreating nat bool
  | ExpireTimer
  | HealthCheck
  | HealthSnapshot
  | HealthLoop nat
  | RefillReserve
  | Checking nat IdleConnection bool
  | Refilling nat nat "IdleConnection list"
  | WakeExpire
  | WakeWaiters
  | Shutdown int
  | ShutdownDrain int conn "(nat \<times> Status) list"
  | ShutdownGrace "(nat \<times> Status) list"
  | Closing conn "(nat \<times> (Status + int)) option"

record outcome =
  o_pool :: pool_state
  o_flights :: "flight list"
  o_done :: "delivery list"
  o_closed :: "conn list"

abbreviation out :: "pool_state \<Rightarrow> flight list \<Rightarrow> delivery list \<Rightarrow> conn list \<Rightarrow> outcome" where
  "out p fs ds cs \<equiv> \<lparr>o_pool = p, o_flights = fs, o_done = ds, o_closed = cs\<rparr>"

definition failures :: "(nat \<times> Status) list \<Rightarrow> delivery list" where
  "failures ws = map (\<lambda>(i, st). (i, Inl st)) ws"

text \<open>\<open>createConnection\<close>: the driver may return no object (\<open>None\<close>), or one whose \<open>connect\<close> has a status.\<close>

definition createConnection :: "pool_env \<Rightarrow> Status + conn" where
  "createConnection e =
     (case e_connect e of
        None \<Rightarrow> Inl (error ConnectionFailed
                  (''driver '' @ [SQ] @ e_driver e @ [SQ] @ '' returned a null connection''))
      | Some st \<Rightarrow> if status_ok st then Inr (e_conn e) else Inl (error (code st) (message st)))"

definition handle_of :: "conn \<Rightarrow> nanos \<Rightarrow> nanos \<Rightarrow> Handle" where
  "handle_of c createdAt now = \<lparr>h_conn = c, h_createdAt = createdAt, h_borrowedAt = now, h_reusable = True\<rparr>"

definition fresh_idle :: "conn \<Rightarrow> nanos \<Rightarrow> IdleConnection" where
  "fresh_idle c now = \<lparr>ic_conn = c, ic_createdAt = now, ic_returnedAt = now, ic_lastValidated = now\<rparr>"

text \<open>
  \<^verbatim>\<open>conn->close()\<close> behind a section, with the lock released and the slot already given up: a flight of
  its own. Afterwards the request it belongs to, if any, is answered with a status or tried again.
\<close>

definition closing_done :: "conn \<Rightarrow> (nat \<times> (Status + int)) option \<Rightarrow> pool_state \<Rightarrow> outcome" where
  "closing_done c next p =
     (case next of
        None \<Rightarrow> out p [] [] [c]
      | Some (i, Inl st) \<Rightarrow> out p [] [(i, Inl st)] [c]
      | Some (i, Inr t) \<Rightarrow> out p [AsyncCalled i t] [] [c])"

section \<open>Returning a connection\<close>

text \<open>
  The expiry sweep over the waiter queue that \<open>returnConn\<close> and \<open>expireWaiters\<close> share: the expired
  waiters with their status, the waiters left, in order, and the pool with its timeouts counted.
  \<open>stop\<close> is the status of a waiter's operation; \<open>returnConn\<close> does not consult it.
\<close>

fun sweep :: "(nat \<Rightarrow> Status) \<Rightarrow> nanos \<Rightarrow> AsyncWaiter list \<Rightarrow> pool_state \<Rightarrow>
    (nat \<times> Status) list \<times> AsyncWaiter list \<times> pool_state" where
  "sweep stop now [] p = ([], [], p)"
| "sweep stop now (w # ws) p =
     (if w_deadline w \<le> now \<or> \<not> status_ok (stop (w_id w)) then
        (let p1 = (if metricsEnabled p then p\<lparr>borrowTimeouts := borrowTimeouts p + 1\<rparr> else p);
             waited = (now - w_enqueuedAt w) div 1000000;
             st = (if \<not> status_ok (stop (w_id w)) then stop (w_id w) else exhaustedStatus p1 waited)
         in case sweep stop now ws p1 of (es, ws', p') \<Rightarrow> ((w_id w, st) # es, ws', p'))
      else case sweep stop now ws p of (es, ws', p') \<Rightarrow> (es, w # ws', p'))"

text \<open>
  \<open>State::returnConn\<close>, called by the destructor of a handle. The handoff returns before the expired
  waiters are delivered.
\<close>

definition returnConn :: "Handle \<Rightarrow> nanos \<Rightarrow> pool_state \<Rightarrow> outcome" where
  "returnConn h now p =
     (let leaked = (leakDetectionThreshold p > 0 \<and> now - h_borrowedAt h \<ge> millis (leakDetectionThreshold p));
          p1 = (if leaked then p\<lparr>leakWarnings := leakWarnings p + 1\<rparr> else p);
          p2 = (if borrowed p1 > 0 then p1\<lparr>borrowed := borrowed p1 - 1\<rparr> else p1);
          expired = lifetime_over p2 now (h_createdAt h)
      in if closed p2 \<or> expired \<or> \<not> h_reusable h \<or> \<not> pooled p2 then
           (let p3 = p2\<lparr>connectionsClosed := connectionsClosed p2 + 1\<rparr>;
                p4 = (if \<not> h_reusable h then p3\<lparr>invalidatedConnections := invalidatedConnections p3 + 1\<rparr>
                      else if expired then p3\<lparr>lifetimeEvictions := lifetimeEvictions p3 + 1\<rparr> else p3);
                p5 = (if total p4 > 0 then p4\<lparr>total := total p4 - 1\<rparr> else p4)
            in out p5 [Closing (h_conn h) None] [] [])
         else
           (case sweep (\<lambda>_. OK) now (asyncWaiters p2) p2 of (es, ws, p3) \<Rightarrow>
            case ws of
              w # ws' \<Rightarrow>
                out (count_borrow (p3\<lparr>asyncWaiters := ws'\<rparr>)) []
                  [(w_id w, Inr (handle_of (h_conn h) (h_createdAt h) now))] []
            | [] \<Rightarrow>
                out (p3\<lparr>asyncWaiters := [],
                        idle := idle p3 @ [\<lparr>ic_conn = h_conn h, ic_createdAt = h_createdAt h,
                                            ic_returnedAt = now, ic_lastValidated = now\<rparr>]\<rparr>)
                  [] (failures es) []))"

section \<open>Construction\<close>

record pool_args =
  a_name :: string
  a_minConn :: int
  a_maxConn :: int
  a_borrowTimeout :: int
  a_idleTimeout :: int
  a_maxLifetime :: int
  a_leakDetectionThreshold :: int
  a_validationInterval :: int
  a_metricsEnabled :: bool
  a_pooled :: bool

definition initial_pool :: "pool_args \<Rightarrow> pool_state" where
  "initial_pool a =
     \<lparr>idle = [], total = 0, borrowed = 0, waiting = 0, closed = False,
      metricsEnabled = a_metricsEnabled a, pooled = a_pooled a, poolName = a_name a,
      idleTimeout = max (a_idleTimeout a) 0, maxLifetime = max (a_maxLifetime a) 0,
      leakDetectionThreshold = max (a_leakDetectionThreshold a) 0,
      validationInterval = max (a_validationInterval a) 0,
      borrowTimeout = a_borrowTimeout a,
      minConn = min (max (a_minConn a) 0) (max (a_maxConn a) 1), maxConn = max (a_maxConn a) 1,
      connectionsCreated = 0, connectionsClosed = 0, borrowTimeouts = 0, validationFailures = 0,
      leakWarnings = 0, maxBorrowed = 0, maxWaiting = 0, borrowRequests = 0, borrowSuccesses = 0,
      connectionCreateFailures = 0, invalidatedConnections = 0, idleEvictions = 0,
      lifetimeEvictions = 0, totalBorrowWait = 0, maxBorrowWait = 0, asyncWaiters = []\<rparr>"

text \<open>
  The warm-up loop: one environment per attempt, and the connections it closed. It stops at the first
  failure and when the pool is full.
\<close>

fun warmup :: "pool_env list \<Rightarrow> pool_state \<Rightarrow> pool_state \<times> conn list" where
  "warmup [] p = (p, [])"
| "warmup (e # es) p =
     (case createConnection e of
        Inl st \<Rightarrow> (p\<lparr>connectionCreateFailures := connectionCreateFailures p + 1\<rparr>, [])
      | Inr c \<Rightarrow>
          if total p \<ge> maxConn p then (p, [c])
          else warmup es (p\<lparr>idle := idle p @ [fresh_idle c (e_now e)], total := total p + 1,
                            connectionsCreated := connectionsCreated p + 1\<rparr>))"

definition construct :: "pool_args \<Rightarrow> (nat \<Rightarrow> pool_env) \<Rightarrow> pool_state \<times> conn list" where
  "construct a env =
     (let p = initial_pool a
      in if pooled p then warmup (map env [0..<nat (minConn p)]) p else (p, []))"

section \<open>Synchronous borrow\<close>

definition borrow_fail :: "pool_env \<Rightarrow> BorrowCall \<Rightarrow> Status \<Rightarrow> conn list \<Rightarrow> pool_state \<Rightarrow> outcome" where
  "borrow_fail e b st cs p =
     out (recordWait (b_started b) (e_now2 e) p) [] [(b_id b, Inl (error (code st) (message st)))] cs"

definition borrow_got :: "pool_env \<Rightarrow> BorrowCall \<Rightarrow> Handle \<Rightarrow> pool_state \<Rightarrow> outcome" where
  "borrow_got e b h p = out (recordSuccess (b_started b) (e_now2 e) p) [] [(b_id b, Inr h)] []"

definition datasourceClosedStatus :: "pool_state \<Rightarrow> Status" where
  "datasourceClosedStatus p = error PoolClosed (''datasource '' @ [SQ] @ poolName p @ [SQ] @ '' is closed'')"

definition count_timeout :: "pool_state \<Rightarrow> pool_state" where
  "count_timeout p = (if metricsEnabled p then p\<lparr>borrowTimeouts := borrowTimeouts p + 1\<rparr> else p)"

text \<open>One round of the loop of \<open>borrow\<close>, from its head to the next release of the lock.\<close>

definition borrow_round :: "pool_env \<Rightarrow> BorrowCall \<Rightarrow> pool_state \<Rightarrow> outcome" where
  "borrow_round e b p =
     (let stop = op_status (e_now2 e) (e_ops e (b_id b)) in
      if \<not> status_ok stop then borrow_fail e b stop [] p
      else if closed p then borrow_fail e b (poolClosedStatus p) [] p
      else case idle p of
        item # rest \<Rightarrow> out (p\<lparr>idle := rest\<rparr>) [Validating b item] [] []
      | [] \<Rightarrow>
          if total p < maxConn p then out (p\<lparr>total := total p + 1\<rparr>) [Creating b] [] []
          else if b_timeout b = 0 then
            borrow_fail e b (exhaustedStatus p (b_timeout b)) [] (count_timeout p)
          else
            (let p1 = p\<lparr>waiting := waiting p + 1\<rparr>;
                 p2 = (if metricsEnabled p1 then p1\<lparr>maxWaiting := max (maxWaiting p1) (waiting p1)\<rparr> else p1)
             in out p2 [Waiting b] [] []))"

definition effective_timeout :: "pool_state \<Rightarrow> int \<Rightarrow> int" where
  "effective_timeout p t = (let t1 = (if t < 0 then borrowTimeout p else t) in if t1 < 0 then 0 else t1)"

text \<open>The entry of \<open>borrow\<close>, with the unpooled branch.\<close>

definition borrow_called :: "pool_env \<Rightarrow> nat \<Rightarrow> int \<Rightarrow> pool_state \<Rightarrow> outcome" where
  "borrow_called e i timeout p =
     (let t = op_remaining (e_now e) (e_ops e i) (effective_timeout p timeout);
          stop = op_status (e_now e) (e_ops e i);
          b = \<lparr>b_id = i, b_timeout = t, b_started = e_now e, b_deadline = e_now e + millis t\<rparr>
      in if \<not> status_ok stop then out p [] [(i, Inl (error (code stop) (message stop)))] []
         else
           (let p1 = (if metricsEnabled p then p\<lparr>borrowRequests := borrowRequests p + 1\<rparr> else p)
            in if \<not> pooled p1 then
                 (if closed p1 then borrow_fail e b (datasourceClosedStatus p1) [] p1
                  else out p1 [CreatingUnpooled b] [] [])
               else borrow_round e b p1))"

definition unpooled_created :: "pool_env \<Rightarrow> BorrowCall \<Rightarrow> pool_state \<Rightarrow> outcome" where
  "unpooled_created e b p =
     (case createConnection e of
        Inl st \<Rightarrow> borrow_fail e b st [] (p\<lparr>connectionCreateFailures := connectionCreateFailures p + 1\<rparr>)
      | Inr c \<Rightarrow>
          if closed p then borrow_fail e b (datasourceClosedStatus p) [c] p
          else borrow_got e b (handle_of c (e_now2 e) (e_now2 e))
                 (p\<lparr>total := total p + 1, connectionsCreated := connectionsCreated p + 1\<rparr>))"

text \<open>Back from the validation of a popped connection. A dead one frees its slot and the loop goes on.\<close>

definition borrow_validated :: "pool_env \<Rightarrow> BorrowCall \<Rightarrow> IdleConnection \<Rightarrow> pool_state \<Rightarrow> outcome" where
  "borrow_validated e b item p =
     (let expired = lifetime_over p (e_now e) (ic_createdAt item);
          alive = (\<not> expired \<and> (\<not> needs_ping p (e_now e) (ic_lastValidated item) \<or> e_ping e))
      in if alive then
           (if closed p then borrow_fail e b (poolClosedStatus p) [ic_conn item] p
            else borrow_got e b (handle_of (ic_conn item) (ic_createdAt item) (e_now2 e)) p)
         else
           (let p1 = p\<lparr>total := total p - 1, connectionsClosed := connectionsClosed p + 1\<rparr>;
                p2 = (if expired then p1\<lparr>lifetimeEvictions := lifetimeEvictions p1 + 1\<rparr>
                      else p1\<lparr>validationFailures := validationFailures p1 + 1\<rparr>);
                r = borrow_round e b (clamp_total p2)
            in r\<lparr>o_closed := ic_conn item # o_closed r\<rparr>))"

text \<open>Back from creating a connection on a reserved slot. The closed branch does not clamp \<^verbatim>\<open>total\<close>.\<close>

definition borrow_created :: "pool_env \<Rightarrow> BorrowCall \<Rightarrow> pool_state \<Rightarrow> outcome" where
  "borrow_created e b p =
     (case createConnection e of
        Inr c \<Rightarrow>
          if closed p then borrow_fail e b (poolClosedStatus p) [c] (p\<lparr>total := total p - 1\<rparr>)
          else borrow_got e b (handle_of c (e_now2 e) (e_now2 e))
                 (p\<lparr>connectionsCreated := connectionsCreated p + 1\<rparr>)
      | Inl st \<Rightarrow>
          borrow_fail e b st []
            (clamp_total (p\<lparr>total := total p - 1, connectionCreateFailures := connectionCreateFailures p + 1\<rparr>)))"

text \<open>Back from the condition variable, by a notification or at the wake time.\<close>

definition borrow_woken :: "pool_env \<Rightarrow> BorrowCall \<Rightarrow> pool_state \<Rightarrow> outcome" where
  "borrow_woken e b p =
     (let p1 = p\<lparr>waiting := waiting p - 1\<rparr>;
          oper = e_ops e (b_id b);
          stop = op_status (e_now e) oper
      in if e_timeout e then
           (if \<not> status_ok stop then borrow_fail e b stop [] p1
            else if oper \<noteq> None \<and> e_now e < b_deadline b then borrow_round e b p1
            else borrow_fail e b (exhaustedStatus p1 (b_timeout b)) [] (count_timeout p1))
         else borrow_round e b p1)"

section \<open>Asynchronous borrow\<close>

definition expireWaiters :: "pool_env \<Rightarrow> pool_state \<Rightarrow> delivery list \<times> pool_state" where
  "expireWaiters e p =
     (case sweep (\<lambda>i. op_status (e_now e) (e_ops e i)) (e_now e) (asyncWaiters p) p of (es, ws, p1) \<Rightarrow>
        (failures es, p1\<lparr>asyncWaiters := ws\<rparr>))"

text \<open>
  The entry of \<open>borrowAsync\<close>: the queue is swept, then the request's own operation is looked at. A call
  without its three callbacks fails at once (a call without a completion does nothing at all).
\<close>

definition async_called :: "pool_env \<Rightarrow> nat \<Rightarrow> int \<Rightarrow> pool_state \<Rightarrow> outcome" where
  "async_called e i timeout p =
     (if \<not> e_usable e then
        out p [] [(i, Inl (error ConfigError ''async pool I/O requires post, deliver, and postAfter callbacks''))] []
      else case expireWaiters e p of (ds, p1) \<Rightarrow>
        (let stop = op_status (e_now2 e) (e_ops e i);
             t = op_remaining (e_now2 e) (e_ops e i) (effective_timeout p timeout)
         in if \<not> status_ok stop then out p1 [] (ds @ [(i, Inl stop)]) []
            else out p1 [AsyncEntering i t] ds []))"

definition async_entered :: "pool_env \<Rightarrow> nat \<Rightarrow> int \<Rightarrow> pool_state \<Rightarrow> outcome" where
  "async_entered e i effective p =
     (let now = e_now e;
          p1 = (if metricsEnabled p then p\<lparr>borrowRequests := borrowRequests p + 1\<rparr> else p)
      in if closed p1 then out p1 [] [(i, Inl (poolClosedStatus p1))] []
         else if \<not> pooled p1 then out p1 [PostCreate i False] [] []
         else case idle p1 of
           item # rest \<Rightarrow>
             (let p2 = p1\<lparr>idle := rest\<rparr> in
              if lifetime_over p2 now (ic_createdAt item) then
                out (clamp_total (p2\<lparr>total := total p2 - 1, connectionsClosed := connectionsClosed p2 + 1,
                                     lifetimeEvictions := lifetimeEvictions p2 + 1\<rparr>))
                  [Closing (ic_conn item) (Some (i, Inr effective))] [] []
              else if \<not> needs_ping p2 now (ic_lastValidated item) then
                out (count_borrow p2) [] [(i, Inr (handle_of (ic_conn item) (ic_createdAt item) now))] []
              else out p2 [PostValidate i (item\<lparr>ic_returnedAt := now\<rparr>) effective] [] [])
         | [] \<Rightarrow>
             if total p1 < maxConn p1 then out (p1\<lparr>total := total p1 + 1\<rparr>) [PostCreate i True] [] []
             else if effective = 0 then out (count_timeout p1) [] [(i, Inl (exhaustedStatus p1 0))] []
             else out (p1\<lparr>asyncWaiters := asyncWaiters p1 @
                         [\<lparr>w_id = i, w_enqueuedAt = now, w_deadline = now + millis effective\<rparr>]\<rparr>) [] [] [])"

definition rejected :: "string \<Rightarrow> Status" where
  "rejected what = (error Overloaded (''async executor rejected connection '' @ what))\<lparr>retryable := True\<rparr>"

definition post_validate :: "pool_env \<Rightarrow> nat \<Rightarrow> IdleConnection \<Rightarrow> int \<Rightarrow> pool_state \<Rightarrow> outcome" where
  "post_validate e i item effective p =
     (if e_post e then out p [AsyncValidating i item effective] [] []
      else if closed p then
        out ((if total p > 0 then p\<lparr>total := total p - 1\<rparr> else p)\<lparr>connectionsClosed := connectionsClosed p + 1\<rparr>)
          [Closing (ic_conn item) (Some (i, Inl (rejected ''validation'')))] [] []
      else out (p\<lparr>idle := idle p @ [item]\<rparr>)
             [] [(i, Inl (rejected ''validation''))] [])"

text \<open>The validation task: its first section decides, a second one takes a dead connection off the count.\<close>

definition async_validated :: "pool_env \<Rightarrow> nat \<Rightarrow> IdleConnection \<Rightarrow> int \<Rightarrow> pool_state \<Rightarrow> outcome" where
  "async_validated e i item effective p =
     (if closed p then out p [Closing (ic_conn item) (Some (i, Inl (error PoolClosed ''pool is closed'')))] [] []
      else if e_ping e then
        out (count_borrow p) [] [(i, Inr (handle_of (ic_conn item) (ic_createdAt item) (e_now e)))] []
      else out p [AsyncDead i (ic_conn item) effective] [] [])"

definition async_dead :: "nat \<Rightarrow> conn \<Rightarrow> int \<Rightarrow> pool_state \<Rightarrow> outcome" where
  "async_dead i c effective p =
     out (clamp_total (p\<lparr>total := total p - 1, connectionsClosed := connectionsClosed p + 1,
                        validationFailures := validationFailures p + 1\<rparr>))
       [Closing c (Some (i, Inr effective))] [] []"

definition post_create :: "pool_env \<Rightarrow> nat \<Rightarrow> bool \<Rightarrow> pool_state \<Rightarrow> outcome" where
  "post_create e i slotReserved p =
     (if e_post e then out p [AsyncCreating i slotReserved] [] []
      else out (if slotReserved
                then (if total p > 0 then p\<lparr>total := total p - 1\<rparr> else p)
                       \<lparr>connectionCreateFailures := connectionCreateFailures p + 1\<rparr>
                else p)
             [] [(i, Inl (rejected ''creation''))] [])"

definition async_created :: "pool_env \<Rightarrow> nat \<Rightarrow> bool \<Rightarrow> pool_state \<Rightarrow> outcome" where
  "async_created e i slotReserved p =
     (case createConnection e of
        Inr c \<Rightarrow>
          if closed p then
            out (if slotReserved \<and> total p > 0 then p\<lparr>total := total p - 1\<rparr> else p)
              [Closing c (Some (i, Inl (poolClosedStatus p)))] [] []
          else
            out (count_borrow ((if slotReserved then p else p\<lparr>total := total p + 1\<rparr>)
                                 \<lparr>connectionsCreated := connectionsCreated p + 1\<rparr>))
              [] [(i, Inr (handle_of c (e_now2 e) (e_now2 e)))] []
      | Inl st \<Rightarrow>
          if closed p then
            out (if slotReserved \<and> total p > 0 then p\<lparr>total := total p - 1\<rparr> else p)
              [] [(i, Inl (poolClosedStatus p))] []
          else
            out ((if slotReserved then clamp_total (p\<lparr>total := total p - 1\<rparr>) else p)
                   \<lparr>connectionCreateFailures := connectionCreateFailures p + 1\<rparr>)
              [] [(i, Inl (if code st = ConnectionFailed
                           then st\<lparr>retryable := True, connectionBroken := True\<rparr> else st))] [])"

text \<open>\<open>wakeAsyncWaiters\<close>, after its own sweep: idle connections first, then free slots, in queue order.\<close>

fun wake_loop :: "nanos \<Rightarrow> AsyncWaiter list \<Rightarrow> pool_state \<Rightarrow> delivery list \<times> nat list \<times> pool_state" where
  "wake_loop now [] p = ([], [], p\<lparr>asyncWaiters := []\<rparr>)"
| "wake_loop now (w # ws) p =
     (case idle p of
        item # rest \<Rightarrow>
          (case wake_loop now ws (count_borrow (p\<lparr>idle := rest\<rparr>)) of (ds, cs, p') \<Rightarrow>
             ((w_id w, Inr (handle_of (ic_conn item) (ic_createdAt item) now)) # ds, cs, p'))
      | [] \<Rightarrow>
          if total p < maxConn p then
            (case wake_loop now ws (p\<lparr>total := total p + 1\<rparr>) of (ds, cs, p') \<Rightarrow> (ds, w_id w # cs, p'))
          else ([], [], p\<lparr>asyncWaiters := w # ws\<rparr>))"

definition wakeAsyncWaiters :: "pool_env \<Rightarrow> pool_state \<Rightarrow> outcome" where
  "wakeAsyncWaiters e p =
     (if closed p then out p [] [] []
      else case wake_loop (e_now e) (asyncWaiters p) p of (ds, cs, p1) \<Rightarrow>
        out p1 (map (\<lambda>i. PostCreate i True) cs) ds [])"

section \<open>Health check\<close>

definition health_start :: "pool_env \<Rightarrow> pool_state \<Rightarrow> outcome" where
  "health_start e p =
     (if \<not> pooled p then out p [] [] []
      else case expireWaiters e p of (ds, p1) \<Rightarrow> out p1 [HealthSnapshot] ds [])"

definition health_snapshot :: "pool_state \<Rightarrow> outcome" where
  "health_snapshot p = out p [HealthLoop (length (idle p))] [] []"

text \<open>One round of the loop over the idle snapshot; when the snapshot is used up, the refill follows.\<close>

definition health_pop :: "pool_env \<Rightarrow> nat \<Rightarrow> pool_state \<Rightarrow> outcome" where
  "health_pop e left p =
     (case idle p of
        item # rest \<Rightarrow>
          if left = 0 \<or> closed p then out p [RefillReserve] [] []
          else
            (let retireForIdle = (idleTimeout p > 0 \<and> e_now e - ic_returnedAt item \<ge> millis (idleTimeout p)
                                  \<and> total p > minConn p)
             in out (p\<lparr>idle := rest\<rparr>) [Checking (left - 1) item retireForIdle] [] [])
      | [] \<Rightarrow> out p [RefillReserve] [] [])"

definition health_checked :: "pool_env \<Rightarrow> nat \<Rightarrow> IdleConnection \<Rightarrow> bool \<Rightarrow> pool_state \<Rightarrow> outcome" where
  "health_checked e left item retireForIdle p =
     (let now = e_now e;
          expired = lifetime_over p now (ic_createdAt item);
          needsPing = needs_ping p now (ic_lastValidated item);
          alive = (\<not> retireForIdle \<and> \<not> expired \<and> (\<not> needsPing \<or> e_ping e));
          item1 = (if alive \<and> needsPing then item\<lparr>ic_lastValidated := now\<rparr> else item)
      in if alive \<and> \<not> closed p then out (p\<lparr>idle := idle p @ [item1]\<rparr>) [HealthLoop left] [] []
         else
           (let p1 = p\<lparr>total := total p - 1, connectionsClosed := connectionsClosed p + 1\<rparr>;
                p2 = (if retireForIdle then p1\<lparr>idleEvictions := idleEvictions p1 + 1\<rparr>
                      else if expired then p1\<lparr>lifetimeEvictions := lifetimeEvictions p1 + 1\<rparr>
                      else p1\<lparr>validationFailures := validationFailures p1 + 1\<rparr>)
            in out (clamp_total p2) [HealthLoop left] [] [ic_conn item1]))"

definition refill_need :: "pool_state \<Rightarrow> int" where
  "refill_need p = min (max (minConn p - total p) 0) (max (maxConn p - total p) 0)"

definition refill_reserve :: "pool_state \<Rightarrow> outcome" where
  "refill_reserve p =
     (if closed p then out p [] [] []
      else out (p\<lparr>total := total p + refill_need p\<rparr>)
             [Refilling (nat (refill_need p)) (nat (refill_need p)) []] [] [])"

text \<open>One creation of the refill; \<open>todo\<close> counts the attempts left, a failure ends them.\<close>

definition refill_finish :: "nat \<Rightarrow> IdleConnection list \<Rightarrow> pool_state \<Rightarrow> outcome" where
  "refill_finish need fresh p =
     (let p1 = clamp_total (p\<lparr>total := total p - (int need - int (length fresh)),
                              connectionsCreated := connectionsCreated p + length fresh\<rparr>)
      in if closed p1 then out p1 [WakeExpire] [] (map ic_conn fresh)
         else out (p1\<lparr>idle := idle p1 @ fresh\<rparr>) [WakeExpire] [] [])"

definition refill_step :: "pool_env \<Rightarrow> nat \<Rightarrow> nat \<Rightarrow> IdleConnection list \<Rightarrow> pool_state \<Rightarrow> outcome" where
  "refill_step e need todo fresh p =
     (if todo = 0 then refill_finish need fresh p
      else case createConnection e of
        Inl st \<Rightarrow> out (p\<lparr>connectionCreateFailures := connectionCreateFailures p + 1\<rparr>) [Refilling need 0 fresh] [] []
      | Inr c \<Rightarrow> out p [Refilling need (todo - 1) (fresh @ [fresh_idle c (e_now e)])] [] [])"

section \<open>Shutdown\<close>

definition shutdown_finish :: "(nat \<times> Status) list \<Rightarrow> pool_state \<Rightarrow> outcome" where
  "shutdown_finish ws p = out (p\<lparr>total := borrowed p\<rparr>) [] (failures ws) []"

definition shutdown_wait :: "int \<Rightarrow> (nat \<times> Status) list \<Rightarrow> pool_state \<Rightarrow> outcome" where
  "shutdown_wait grace ws p =
     (if grace > 0 \<and> borrowed p > 0 then out p [ShutdownGrace ws] [] [] else shutdown_finish ws p)"

definition shutdown_pop :: "int \<Rightarrow> (nat \<times> Status) list \<Rightarrow> pool_state \<Rightarrow> outcome" where
  "shutdown_pop grace ws p =
     (case idle p of
        item # rest \<Rightarrow> out (p\<lparr>idle := rest\<rparr>) [ShutdownDrain grace (ic_conn item) ws] [] []
      | [] \<Rightarrow> shutdown_wait grace ws p)"

definition shutdown_begin :: "int \<Rightarrow> pool_state \<Rightarrow> outcome" where
  "shutdown_begin grace p =
     shutdown_pop grace (map (\<lambda>w. (w_id w, poolClosedStatus p)) (asyncWaiters p))
       (p\<lparr>closed := True, asyncWaiters := []\<rparr>)"

definition shutdown_drained :: "int \<Rightarrow> conn \<Rightarrow> (nat \<times> Status) list \<Rightarrow> pool_state \<Rightarrow> outcome" where
  "shutdown_drained grace c ws p =
     (let r = shutdown_pop grace ws (p\<lparr>connectionsClosed := connectionsClosed p + 1\<rparr>)
      in r\<lparr>o_closed := c # o_closed r\<rparr>)"

definition shutdown_woken :: "pool_env \<Rightarrow> (nat \<times> Status) list \<Rightarrow> pool_state \<Rightarrow> outcome" where
  "shutdown_woken e ws p =
     (if e_timeout e \<or> borrowed p \<le> 0 then shutdown_finish ws p else out p [ShutdownGrace ws] [] [])"

section \<open>Statistics\<close>

definition totalCount :: "pool_state \<Rightarrow> 64 word" where
  "totalCount p = word_of_int (total p)"

definition borrowedCount :: "pool_state \<Rightarrow> 64 word" where
  "borrowedCount p = word_of_int (borrowed p)"

end
