(* ===== verification/PoolSystem.thy ===== *)
theory PoolSystem
  imports ConnectionPool
begin

text \<open>
  The whole pool as a transition system over the critical sections of \<open>ConnectionPool\<close>.

  A state has the shared pool, the threads and tasks that stand between two critical sections
  (\<open>flights\<close>, a multiset: any of them may be the next to take the lock), the handles callers hold, the
  completions delivered so far, the connections closed so far, and the numbers of the next connection
  and the next request. \<open>resume\<close> is the critical section a flight runs when it gets the lock;
  \<open>pool_step\<close> lets any flight, any caller and any holder of a handle act, with any environment. The
  properties are invariants of every interleaving.
\<close>

record sys =
  s_pool :: pool_state
  s_flights :: "flight multiset"
  s_handles :: "Handle multiset"
  s_done :: "delivery multiset"
  s_closed :: "conn multiset"
  s_conns :: nat
  s_requests :: nat

definition resume :: "pool_env \<Rightarrow> flight \<Rightarrow> pool_state \<Rightarrow> outcome" where
  "resume e f p =
     (case f of
        BorrowCalled i t \<Rightarrow> borrow_called e i t p
      | Validating b item \<Rightarrow> borrow_validated e b item p
      | Creating b \<Rightarrow> borrow_created e b p
      | CreatingUnpooled b \<Rightarrow> unpooled_created e b p
      | Waiting b \<Rightarrow> borrow_woken e b p
      | AsyncCalled i t \<Rightarrow> async_called e i t p
      | AsyncEntering i t \<Rightarrow> async_entered e i t p
      | PostValidate i item t \<Rightarrow> post_validate e i item t p
      | AsyncValidating i item t \<Rightarrow> async_validated e i item t p
      | AsyncDead i c t \<Rightarrow> async_dead i c t p
      | PostCreate i r \<Rightarrow> post_create e i r p
      | AsyncCreating i r \<Rightarrow> async_created e i r p
      | ExpireTimer \<Rightarrow> (case expireWaiters e p of (ds, p1) \<Rightarrow> out p1 [] ds [])
      | HealthCheck \<Rightarrow> health_start e p
      | HealthSnapshot \<Rightarrow> health_snapshot p
      | HealthLoop left \<Rightarrow> health_pop e left p
      | Checking left item retire \<Rightarrow> health_checked e left item retire p
      | RefillReserve \<Rightarrow> refill_reserve p
      | Refilling need todo fresh \<Rightarrow> refill_step e need todo fresh p
      | WakeExpire \<Rightarrow> (case expireWaiters e p of (ds, p1) \<Rightarrow> out p1 [WakeWaiters] ds [])
      | WakeWaiters \<Rightarrow> wakeAsyncWaiters e p
      | Shutdown grace \<Rightarrow> shutdown_begin grace p
      | ShutdownDrain grace c ws \<Rightarrow> shutdown_drained grace c ws p
      | ShutdownGrace ws \<Rightarrow> shutdown_woken e ws p
      | Closing c next \<Rightarrow> closing_done c next p)"

text \<open>Whether a flight calls the driver, and so may bring a new connection into being.\<close>

fun creates :: "flight \<Rightarrow> bool" where
  "creates (Creating b) = True"
| "creates (CreatingUnpooled b) = True"
| "creates (AsyncCreating i r) = True"
| "creates (Refilling need todo fresh) \<longleftrightarrow> todo \<noteq> 0"
| "creates _ = False"

definition born :: "pool_env \<Rightarrow> flight \<Rightarrow> nat" where
  "born e f = (if creates f \<and> \<not> isl (createConnection e) then 1 else 0)"

definition handles_of :: "delivery list \<Rightarrow> Handle list" where
  "handles_of ds = List.map_filter (\<lambda>(i, r). case r of Inr h \<Rightarrow> Some h | Inl _ \<Rightarrow> None) ds"

text \<open>The effect of an outcome on the system, for a flight or a handle that has been taken out of it.\<close>

definition commit :: "outcome \<Rightarrow> sys \<Rightarrow> sys" where
  "commit r s = s\<lparr>s_pool := o_pool r,
     s_flights := mset (o_flights r) + s_flights s,
     s_handles := mset (handles_of (o_done r)) + s_handles s,
     s_done := mset (o_done r) + s_done s,
     s_closed := mset (o_closed r) + s_closed s\<rparr>"

inductive pool_step :: "sys \<Rightarrow> sys \<Rightarrow> bool" where
  call_borrow: "pool_step s (s\<lparr>s_flights := add_mset (BorrowCalled (s_requests s) t) (s_flights s),
                               s_requests := s_requests s + 1\<rparr>)"
| call_async: "pool_step s (s\<lparr>s_flights := add_mset (AsyncCalled (s_requests s) t) (s_flights s),
                              s_requests := s_requests s + 1\<rparr>)"
| call_background: "f = ExpireTimer \<or> f = HealthCheck \<or> f = Shutdown grace \<Longrightarrow>
     pool_step s (s\<lparr>s_flights := add_mset f (s_flights s)\<rparr>)"
| resume: "f \<in># s_flights s \<Longrightarrow> e_conn e = s_conns s \<Longrightarrow>
     pool_step s (commit (resume e f (s_pool s))
       (s\<lparr>s_flights := s_flights s - {#f#}, s_conns := s_conns s + born e f\<rparr>))"
| invalidate: "h \<in># s_handles s \<Longrightarrow>
     pool_step s (s\<lparr>s_handles := add_mset (h\<lparr>h_reusable := False\<rparr>) (s_handles s - {#h#})\<rparr>)"
| give_back: "h \<in># s_handles s \<Longrightarrow>
     pool_step s (commit (returnConn h now (s_pool s)) (s\<lparr>s_handles := s_handles s - {#h#}\<rparr>))"

definition initial :: "pool_args \<Rightarrow> (nat \<Rightarrow> pool_env) \<Rightarrow> sys" where
  "initial a env =
     (case construct a (\<lambda>k. (env k)\<lparr>e_conn := k\<rparr>) of (p, cs) \<Rightarrow>
        \<lparr>s_pool = p, s_flights = {#}, s_handles = {#}, s_done = {#}, s_closed = mset cs,
         s_conns = length (idle p) + length cs, s_requests = 0\<rparr>)"

inductive reachable :: "pool_args \<Rightarrow> (nat \<Rightarrow> pool_env) \<Rightarrow> sys \<Rightarrow> bool" for a env where
  start: "reachable a env (initial a env)"
| later: "reachable a env s \<Longrightarrow> pool_step s s' \<Longrightarrow> reachable a env s'"

section \<open>What a flight holds\<close>

text \<open>
  Between two critical sections a flight may hold slots of \<^verbatim>\<open>total\<close>, connections, requests it has to
  complete, and a place on the condition variable.
\<close>

fun slots :: "flight \<Rightarrow> int" where
  "slots (Validating b item) = 1"
| "slots (Creating b) = 1"
| "slots (PostValidate i item t) = 1"
| "slots (AsyncValidating i item t) = 1"
| "slots (AsyncDead i c t) = 1"
| "slots (PostCreate i r) = of_bool r"
| "slots (AsyncCreating i r) = of_bool r"
| "slots (Checking left item retire) = 1"
| "slots (Refilling need todo fresh) = int need"
| "slots _ = 0"

fun holds :: "flight \<Rightarrow> conn multiset" where
  "holds (Validating b item) = {#ic_conn item#}"
| "holds (PostValidate i item t) = {#ic_conn item#}"
| "holds (AsyncValidating i item t) = {#ic_conn item#}"
| "holds (AsyncDead i c t) = {#c#}"
| "holds (Checking left item retire) = {#ic_conn item#}"
| "holds (Refilling need todo fresh) = mset (map ic_conn fresh)"
| "holds (ShutdownDrain grace c ws) = {#c#}"
| "holds (Closing c next) = {#c#}"
| "holds _ = {#}"

fun owes :: "flight \<Rightarrow> nat multiset" where
  "owes (BorrowCalled i t) = {#i#}"
| "owes (Validating b item) = {#b_id b#}"
| "owes (Creating b) = {#b_id b#}"
| "owes (CreatingUnpooled b) = {#b_id b#}"
| "owes (Waiting b) = {#b_id b#}"
| "owes (AsyncCalled i t) = {#i#}"
| "owes (AsyncEntering i t) = {#i#}"
| "owes (PostValidate i item t) = {#i#}"
| "owes (AsyncValidating i item t) = {#i#}"
| "owes (AsyncDead i c t) = {#i#}"
| "owes (PostCreate i r) = {#i#}"
| "owes (AsyncCreating i r) = {#i#}"
| "owes (ShutdownDrain grace c ws) = mset (map fst ws)"
| "owes (ShutdownGrace ws) = mset (map fst ws)"
| "owes (Closing c next) = (case next of None \<Rightarrow> {#} | Some (i, _) \<Rightarrow> {#i#})"
| "owes _ = {#}"

fun waits :: "flight \<Rightarrow> int" where
  "waits (Waiting b) = 1"
| "waits _ = 0"

text \<open>
  Only an unpooled source creates connections without a slot, only a pooled one is checked and
  refilled, a refill never exceeds what it reserved, and only a closed pool is drained.
\<close>

fun flight_ok :: "pool_state \<Rightarrow> flight \<Rightarrow> bool" where
  "flight_ok p (CreatingUnpooled b) \<longleftrightarrow> \<not> pooled p"
| "flight_ok p (PostCreate i r) \<longleftrightarrow> pooled p = r"
| "flight_ok p (AsyncCreating i r) \<longleftrightarrow> pooled p = r"
| "flight_ok p (Refilling need todo fresh) \<longleftrightarrow> pooled p \<and> length fresh + todo \<le> need"
| "flight_ok p HealthSnapshot \<longleftrightarrow> pooled p"
| "flight_ok p (HealthLoop left) \<longleftrightarrow> pooled p"
| "flight_ok p (Checking left item retire) \<longleftrightarrow> pooled p"
| "flight_ok p RefillReserve \<longleftrightarrow> pooled p"
| "flight_ok p WakeExpire \<longleftrightarrow> pooled p"
| "flight_ok p WakeWaiters \<longleftrightarrow> pooled p"
| "flight_ok p (ShutdownDrain grace c ws) \<longleftrightarrow> closed p"
| "flight_ok p (ShutdownGrace ws) \<longleftrightarrow> closed p"
| "flight_ok p _ = True"

definition idle_conns :: "pool_state \<Rightarrow> conn multiset" where
  "idle_conns p = mset (map ic_conn (idle p))"

definition queued :: "pool_state \<Rightarrow> nat multiset" where
  "queued p = mset (map w_id (asyncWaiters p))"

definition slack :: "pool_state \<Rightarrow> int" where
  "slack p = total p - int (length (idle p)) - borrowed p"

section \<open>The contract of a critical section\<close>

text \<open>
  An actor that holds \<open>sl\<close> slots, the connections \<open>cn\<close>, the requests \<open>rq\<close>, \<open>wt\<close> places on the condition
  variable and \<open>ln\<close> handles may run a section when the counters cover what it holds (\<open>entitled\<close>). The
  section then accounts for all of it: \<open>nw\<close> is the connection it created, if any.
\<close>

definition entitled :: "int \<Rightarrow> int \<Rightarrow> pool_state \<Rightarrow> bool" where
  "entitled sl ln p \<longleftrightarrow> 0 \<le> sl \<and> ln \<le> borrowed p \<and> 0 \<le> borrowed p \<and> (closed p \<or> sl \<le> slack p)"

definition section_ok ::
  "int \<Rightarrow> conn multiset \<Rightarrow> nat multiset \<Rightarrow> int \<Rightarrow> int \<Rightarrow> conn multiset \<Rightarrow> pool_state \<Rightarrow> outcome \<Rightarrow> bool" where
  "section_ok sl cn rq wt ln nw p r \<longleftrightarrow>
     (closed p \<longrightarrow> closed (o_pool r)) \<and> pooled (o_pool r) = pooled p \<and> maxConn (o_pool r) = maxConn p \<and>
     (closed (o_pool r) \<or> slack (o_pool r) - sum_list (map slots (o_flights r)) = slack p - sl) \<and>
     (closed (o_pool r) \<or> \<not> pooled p \<or> total (o_pool r) \<le> max (total p) (maxConn p)) \<and>
     borrowed (o_pool r) = borrowed p - ln + int (length (handles_of (o_done r))) \<and>
     waiting (o_pool r) = waiting p - wt + sum_list (map waits (o_flights r)) \<and>
     idle_conns (o_pool r) + sum_list (map holds (o_flights r)) + mset (map h_conn (handles_of (o_done r)))
       + mset (o_closed r) = idle_conns p + cn + nw \<and>
     queued (o_pool r) + sum_list (map owes (o_flights r)) + mset (map fst (o_done r)) \<subseteq># queued p + rq \<and>
     list_all (flight_ok (o_pool r)) (o_flights r)"

section \<open>Every critical section keeps the contract\<close>

lemma recordWait_simps [simp]:
  "idle (recordWait s n p) = idle p" "total (recordWait s n p) = total p"
  "borrowed (recordWait s n p) = borrowed p" "waiting (recordWait s n p) = waiting p"
  "closed (recordWait s n p) = closed p" "pooled (recordWait s n p) = pooled p"
  "maxConn (recordWait s n p) = maxConn p" "asyncWaiters (recordWait s n p) = asyncWaiters p"
  by (simp_all add: recordWait_def)

lemma count_borrow_simps [simp]:
  "idle (count_borrow p) = idle p" "total (count_borrow p) = total p"
  "borrowed (count_borrow p) = borrowed p + 1" "waiting (count_borrow p) = waiting p"
  "closed (count_borrow p) = closed p" "pooled (count_borrow p) = pooled p"
  "maxConn (count_borrow p) = maxConn p" "asyncWaiters (count_borrow p) = asyncWaiters p"
  by (simp_all add: count_borrow_def Let_def)

lemma count_timeout_simps [simp]:
  "idle (count_timeout p) = idle p" "total (count_timeout p) = total p"
  "borrowed (count_timeout p) = borrowed p" "waiting (count_timeout p) = waiting p"
  "closed (count_timeout p) = closed p" "pooled (count_timeout p) = pooled p"
  "maxConn (count_timeout p) = maxConn p" "asyncWaiters (count_timeout p) = asyncWaiters p"
  by (simp_all add: count_timeout_def)

lemma clamp_total_simps [simp]:
  "idle (clamp_total p) = idle p" "total (clamp_total p) = max 0 (total p)"
  "borrowed (clamp_total p) = borrowed p" "waiting (clamp_total p) = waiting p"
  "closed (clamp_total p) = closed p" "pooled (clamp_total p) = pooled p"
  "maxConn (clamp_total p) = maxConn p" "asyncWaiters (clamp_total p) = asyncWaiters p"
  by (simp_all add: clamp_total_def)

lemma sweep_frame:
  assumes "sweep stop now ws p = (es, ws', p')"
  shows "idle p' = idle p" "total p' = total p" "borrowed p' = borrowed p" "waiting p' = waiting p"
    "closed p' = closed p" "pooled p' = pooled p" "maxConn p' = maxConn p" "asyncWaiters p' = asyncWaiters p"
  using assms
  by (induction ws arbitrary: p es ws') (auto simp: Let_def split: if_splits prod.splits)

lemma sweep_parts:
  assumes "sweep stop now ws p = (es, ws', p')"
  shows "ws' = filter (\<lambda>w. now < w_deadline w \<and> status_ok (stop (w_id w))) ws"
    "map fst es = map w_id (filter (\<lambda>w. w_deadline w \<le> now \<or> \<not> status_ok (stop (w_id w))) ws)"
  using assms
  by (induction ws arbitrary: p es ws') (auto simp: Let_def split: if_splits prod.splits)

lemma sweep_requests:
  assumes "sweep stop now ws p = (es, ws', p')"
  shows "mset (map fst es) + mset (map w_id ws') = mset (map w_id ws)"
  using assms
  by (induction ws arbitrary: p es ws') (auto simp: Let_def split: if_splits prod.splits)

lemma handles_of_simps [simp]:
  "handles_of [] = []" "handles_of ((i, Inr h) # ds) = h # handles_of ds"
  "handles_of ((i, Inl st) # ds) = handles_of ds" "handles_of (ds @ ds') = handles_of ds @ handles_of ds'"
  "handles_of (failures es) = []"
proof -
  show "handles_of (failures es) = []"
    by (induction es) (auto simp: handles_of_def failures_def map_filter_simps)
qed (simp_all add: handles_of_def map_filter_def)

lemma failures_ids [simp]:
  "map fst (failures es) = map fst es" "image_mset fst (mset (failures es)) = image_mset fst (mset es)"
proof -
  show "map fst (failures es) = map fst es" by (simp add: failures_def case_prod_unfold comp_def)
  then show "image_mset fst (mset (failures es)) = image_mset fst (mset es)" by (metis mset_map)
qed

abbreviation born_conns :: "pool_env \<Rightarrow> flight \<Rightarrow> conn multiset" where
  "born_conns e f \<equiv> replicate_mset (born e f) (e_conn e)"

lemmas accounting = section_ok_def entitled_def slack_def idle_conns_def queued_def


lemma borrow_round_ok: "entitled 0 0 p \<Longrightarrow> section_ok 0 {#} {#b_id b#} 0 0 {#} p (borrow_round e b p)"
  by (cases "idle p") (auto simp: accounting borrow_round_def borrow_fail_def Let_def)

lemma borrow_called_ok: "entitled 0 0 p \<Longrightarrow> section_ok 0 {#} {#i#} 0 0 {#} p (borrow_called e i t p)"
  by (cases "idle p") (auto simp: accounting borrow_called_def borrow_round_def borrow_fail_def Let_def)

lemma unpooled_created_ok:
  "entitled 0 0 p \<Longrightarrow> \<not> pooled p \<Longrightarrow>
   section_ok 0 {#} {#b_id b#} 0 0 (born_conns e (CreatingUnpooled b)) p (unpooled_created e b p)"
  by (auto simp: accounting unpooled_created_def borrow_fail_def borrow_got_def recordSuccess_def born_def
      handle_of_def createConnection_def split: option.splits)

lemma borrow_created_ok:
  "entitled 1 0 p \<Longrightarrow>
   section_ok 1 {#} {#b_id b#} 0 0 (born_conns e (Creating b)) p (borrow_created e b p)"
  by (auto simp: accounting borrow_created_def borrow_fail_def borrow_got_def recordSuccess_def born_def
      handle_of_def createConnection_def split: option.splits)

lemma borrow_validated_ok:
  "entitled 1 0 p \<Longrightarrow> section_ok 1 {#ic_conn item#} {#b_id b#} 0 0 {#} p (borrow_validated e b item p)"
  by (cases "idle p") (auto simp: accounting borrow_validated_def borrow_round_def borrow_fail_def borrow_got_def
      recordSuccess_def handle_of_def Let_def)

lemma borrow_woken_ok:
  "entitled 0 0 p \<Longrightarrow> section_ok 0 {#} {#b_id b#} 1 0 {#} p (borrow_woken e b p)"
  by (cases "idle p") (auto simp: accounting borrow_woken_def borrow_round_def borrow_fail_def Let_def)

lemma expireWaiters_frame:
  assumes "expireWaiters e p = (ds, p')"
  shows "idle p' = idle p" "total p' = total p" "borrowed p' = borrowed p" "waiting p' = waiting p"
    "closed p' = closed p" "pooled p' = pooled p" "maxConn p' = maxConn p"
    "mset (map w_id (asyncWaiters p')) + mset (map fst ds) = mset (map w_id (asyncWaiters p))"
    "handles_of ds = []"
  using assms
  by (auto simp: expireWaiters_def union_commute split: prod.splits dest: sweep_frame sweep_requests)

lemma async_called_ok:
  assumes "entitled 0 0 p"
  shows "section_ok 0 {#} {#i#} 0 0 {#} p (async_called e i t p)"
proof -
  obtain ds p' where x: "expireWaiters e p = (ds, p')" by fastforce
  note f = expireWaiters_frame [OF x]
  show ?thesis
    using assms f(1-7,9) f(8) [symmetric] by (auto simp: accounting async_called_def x Let_def)
qed

lemma async_entered_ok:
  "entitled 0 0 p \<Longrightarrow> section_ok 0 {#} {#i#} 0 0 {#} p (async_entered e i t p)"
  by (cases "idle p") (auto simp: accounting async_entered_def handle_of_def Let_def)

lemma post_validate_ok:
  "entitled 1 0 p \<Longrightarrow> section_ok 1 {#ic_conn item#} {#i#} 0 0 {#} p (post_validate e i item t p)"
  by (auto simp: accounting post_validate_def)

lemma async_validated_ok:
  "entitled 1 0 p \<Longrightarrow> section_ok 1 {#ic_conn item#} {#i#} 0 0 {#} p (async_validated e i item t p)"
  by (auto simp: accounting async_validated_def handle_of_def)

lemma async_dead_ok:
  "entitled 1 0 p \<Longrightarrow> section_ok 1 {#c#} {#i#} 0 0 {#} p (async_dead i c t p)"
  by (auto simp: accounting async_dead_def)

lemma post_create_ok:
  "entitled (of_bool r) 0 p \<Longrightarrow> pooled p = r \<Longrightarrow>
   section_ok (of_bool r) {#} {#i#} 0 0 {#} p (post_create e i r p)"
  by (auto simp: accounting post_create_def)

lemma async_created_ok:
  "entitled (of_bool r) 0 p \<Longrightarrow> pooled p = r \<Longrightarrow>
   section_ok (of_bool r) {#} {#i#} 0 0 (born_conns e (AsyncCreating i r)) p (async_created e i r p)"
  by (auto simp: accounting async_created_def born_def handle_of_def createConnection_def split: option.splits)

lemma wake_loop_ok:
  assumes "wake_loop now ws p = (ds, cs, p')"
  shows "closed p' = closed p \<and> pooled p' = pooled p \<and> maxConn p' = maxConn p \<and> waiting p' = waiting p \<and>
    slack p' - int (length cs) = slack p \<and> total p' \<le> max (total p) (maxConn p) \<and>
    borrowed p' = borrowed p + int (length (handles_of ds)) \<and>
    idle_conns p' + mset (map h_conn (handles_of ds)) = idle_conns p \<and>
    queued p' + mset cs + mset (map fst ds) = mset (map w_id ws)"
  using assms
proof (induction now ws p arbitrary: ds cs p' rule: wake_loop.induct)
  case (1 now p)
  then show ?case by (auto simp: accounting)
next
  case (2 now w ws p)
  show ?case
  proof (cases "idle p")
    case Nil
    with 2(1)[OF this] 2(3) show ?thesis
      by (fastforce simp: slack_def idle_conns_def queued_def split: if_splits prod.splits)
  next
    case (Cons item rest)
    with 2(2)[OF this] 2(3) show ?thesis
      by (fastforce simp: slack_def idle_conns_def queued_def handle_of_def split: prod.splits)
  qed
qed

lemma slots_post_create [simp]:
  "sum_list (map (slots \<circ> (\<lambda>i. PostCreate i True)) cs) = int (length cs)"
  "sum_list (map (waits \<circ> (\<lambda>i. PostCreate i True)) cs) = 0"
  "sum_list (map (holds \<circ> (\<lambda>i. PostCreate i True)) cs) = {#}"
  "sum_list (map (owes \<circ> (\<lambda>i. PostCreate i True)) cs) = mset cs"
  by (induction cs) simp_all

lemma wakeAsyncWaiters_ok:
  assumes "entitled 0 0 p" and "pooled p"
  shows "section_ok 0 {#} {#} 0 0 {#} p (wakeAsyncWaiters e p)"
proof -
  obtain ds cs p' where w: "wake_loop (e_now e) (asyncWaiters p) p = (ds, cs, p')" by (metis prod_cases3)
  show ?thesis
    using wake_loop_ok [OF w] assms
    by (auto simp: section_ok_def wakeAsyncWaiters_def w queued_def list_all_iff)
qed

lemma expire_ok:
  assumes "entitled 0 0 p" and "expireWaiters e p = (ds, p1)"
    and "fs = [] \<or> pooled p \<and> (fs = [WakeWaiters] \<or> fs = [HealthSnapshot])"
  shows "section_ok 0 {#} {#} 0 0 {#} p (out p1 fs ds [])"
proof -
  note f = expireWaiters_frame [OF assms(2)]
  show ?thesis
    using assms(1,3) f(1-7,9) f(8) [symmetric] by (auto simp: accounting)
qed

lemma health_start_ok:
  assumes "entitled 0 0 p"
  shows "section_ok 0 {#} {#} 0 0 {#} p (health_start e p)"
proof (cases "pooled p")
  case True
  with assms show ?thesis by (cases "expireWaiters e p") (simp add: health_start_def expire_ok)
next
  case False
  with assms show ?thesis by (simp add: health_start_def accounting)
qed

lemma health_pop_ok:
  "entitled 0 0 p \<Longrightarrow> pooled p \<Longrightarrow> section_ok 0 {#} {#} 0 0 {#} p (health_pop e left p)"
  by (cases "idle p") (auto simp: accounting health_pop_def Let_def)

lemma health_checked_ok:
  "entitled 1 0 p \<Longrightarrow> pooled p \<Longrightarrow>
   section_ok 1 {#ic_conn item#} {#} 0 0 {#} p (health_checked e left item retire p)"
  by (auto simp: accounting health_checked_def Let_def)

lemma refill_reserve_ok:
  "entitled 0 0 p \<Longrightarrow> pooled p \<Longrightarrow> section_ok 0 {#} {#} 0 0 {#} p (refill_reserve p)"
  by (auto simp: accounting refill_reserve_def refill_need_def)

lemma refill_step_ok:
  assumes "entitled (int need) 0 p" "pooled p" "length fresh + todo \<le> need"
  shows "section_ok (int need) (mset (map ic_conn fresh)) {#} 0 0 (born_conns e (Refilling need todo fresh)) p
    (refill_step e need todo fresh p)"
proof (cases "todo = 0")
  case True
  with assms show ?thesis by (auto simp: accounting refill_step_def refill_finish_def born_def Let_def)
next
  case False
  with assms show ?thesis
    by (auto simp: accounting refill_step_def born_def fresh_idle_def createConnection_def split: option.splits)
qed

lemma shutdown_begin_ok:
  "entitled 0 0 p \<Longrightarrow> section_ok 0 {#} {#} 0 0 {#} p (shutdown_begin grace p)"
  by (cases "idle p")
    (auto simp: accounting shutdown_begin_def shutdown_pop_def shutdown_wait_def shutdown_finish_def
      multiset.map_comp comp_def)

lemma shutdown_drained_ok:
  "0 \<le> borrowed p \<Longrightarrow> closed p \<Longrightarrow>
   section_ok sl {#c#} (mset (map fst ws)) 0 0 {#} p (shutdown_drained grace c ws p)"
  by (cases "idle p")
    (auto simp: accounting shutdown_drained_def shutdown_pop_def shutdown_wait_def shutdown_finish_def)

lemma shutdown_woken_ok:
  "0 \<le> borrowed p \<Longrightarrow> closed p \<Longrightarrow>
   section_ok sl {#} (mset (map fst ws)) 0 0 {#} p (shutdown_woken e ws p)"
  by (auto simp: accounting shutdown_woken_def shutdown_finish_def)

definition loan_ended :: "Handle \<Rightarrow> nanos \<Rightarrow> pool_state \<Rightarrow> pool_state" where
  "loan_ended h now p =
     (let leaked = (leakDetectionThreshold p > 0 \<and> now - h_borrowedAt h \<ge> millis (leakDetectionThreshold p));
          p1 = (if leaked then p\<lparr>leakWarnings := leakWarnings p + 1\<rparr> else p)
      in if borrowed p1 > 0 then p1\<lparr>borrowed := borrowed p1 - 1\<rparr> else p1)"

lemma loan_ended_simps [simp]:
  "idle (loan_ended h now p) = idle p" "total (loan_ended h now p) = total p"
  "waiting (loan_ended h now p) = waiting p"
  "closed (loan_ended h now p) = closed p" "pooled (loan_ended h now p) = pooled p"
  "maxConn (loan_ended h now p) = maxConn p" "asyncWaiters (loan_ended h now p) = asyncWaiters p"
  "borrowed (loan_ended h now p) = (if borrowed p > 0 then borrowed p - 1 else borrowed p)"
  by (simp_all add: loan_ended_def Let_def)

lemma returnConn_cases:
  obtains (dropped) p5 where "closed p \<or> lifetime_over (loan_ended h now p) now (h_createdAt h) \<or> \<not> h_reusable h \<or> \<not> pooled p"
      "returnConn h now p = out p5 [Closing (h_conn h) None] [] []"
      "idle p5 = idle p" "total p5 = (if total p > 0 then total p - 1 else total p)"
      "borrowed p5 = borrowed (loan_ended h now p)" "waiting p5 = waiting p" "closed p5 = closed p"
      "pooled p5 = pooled p" "maxConn p5 = maxConn p" "asyncWaiters p5 = asyncWaiters p"
    | (kept) es ws p3 where "\<not> closed p" "pooled p" "h_reusable h"
      "sweep (\<lambda>_. OK) now (asyncWaiters p) (loan_ended h now p) = (es, ws, p3)"
      "returnConn h now p =
         (case ws of
            w # ws' \<Rightarrow>
              out (count_borrow (p3\<lparr>asyncWaiters := ws'\<rparr>)) []
                [(w_id w, Inr (handle_of (h_conn h) (h_createdAt h) now))] []
          | [] \<Rightarrow>
              out (p3\<lparr>asyncWaiters := [],
                      idle := idle p3 @ [\<lparr>ic_conn = h_conn h, ic_createdAt = h_createdAt h,
                                          ic_returnedAt = now, ic_lastValidated = now\<rparr>]\<rparr>)
                [] (failures es) [])"
proof (cases "closed p \<or> lifetime_over (loan_ended h now p) now (h_createdAt h) \<or> \<not> h_reusable h \<or> \<not> pooled p")
  case True
  let ?r = "returnConn h now p"
  have "closed (loan_ended h now p) \<or> lifetime_over (loan_ended h now p) now (h_createdAt h) \<or> \<not> h_reusable h \<or>
      \<not> pooled (loan_ended h now p)" using True by simp
  then have "?r = out (o_pool ?r) [Closing (h_conn h) None] [] [] \<and> idle (o_pool ?r) = idle p \<and>
      total (o_pool ?r) = (if total p > 0 then total p - 1 else total p) \<and>
      borrowed (o_pool ?r) = borrowed (loan_ended h now p) \<and> waiting (o_pool ?r) = waiting p \<and>
      closed (o_pool ?r) = closed p \<and> pooled (o_pool ?r) = pooled p \<and> maxConn (o_pool ?r) = maxConn p \<and>
      asyncWaiters (o_pool ?r) = asyncWaiters p"
    unfolding returnConn_def Let_def loan_ended_def [unfolded Let_def, symmetric] by simp
  then show ?thesis using True by (intro dropped [of "o_pool ?r"]) auto
next
  case False
  obtain es ws p3 where x: "sweep (\<lambda>_. OK) now (asyncWaiters p) (loan_ended h now p) = (es, ws, p3)"
    by (metis prod_cases3)
  have "\<not> (closed (loan_ended h now p) \<or> lifetime_over (loan_ended h now p) now (h_createdAt h) \<or> \<not> h_reusable h \<or>
      \<not> pooled (loan_ended h now p))" using False by simp
  then show ?thesis using False x
    by (intro kept [OF _ _ _ x]) (auto simp: returnConn_def Let_def loan_ended_def [unfolded Let_def, symmetric])
qed

lemma closing_done_ok:
  "entitled 0 0 p \<Longrightarrow> section_ok 0 {#c#} (owes (Closing c next)) 0 0 {#} p (closing_done c next p)"
  by (auto simp: accounting closing_done_def split: option.split sum.split)

lemma returnConn_ok:
  assumes "entitled 0 1 p"
  shows "section_ok 0 {#h_conn h#} {#} 0 1 {#} p (returnConn h now p)"
proof (cases rule: returnConn_cases [of p h now])
  case (dropped p5)
  then show ?thesis using assms by (auto simp: accounting)
next
  case (kept es ws p3)
  note f = sweep_frame [OF kept(4)] sweep_requests [OF kept(4), symmetric]
  from kept(1-3) f assms show ?thesis
    by (cases ws) (auto simp: accounting kept(5) handle_of_def)
qed

lemmas section_oks = borrow_called_ok borrow_validated_ok borrow_created_ok unpooled_created_ok borrow_woken_ok
  async_called_ok async_entered_ok post_validate_ok async_validated_ok async_dead_ok post_create_ok
  async_created_ok health_start_ok health_pop_ok health_checked_ok refill_reserve_ok refill_step_ok
  wakeAsyncWaiters_ok shutdown_begin_ok shutdown_drained_ok shutdown_woken_ok closing_done_ok

lemma resume_ok:
  assumes "entitled (slots f) 0 p" "flight_ok p f"
  shows "section_ok (slots f) (holds f) (owes f) (waits f) 0 (born_conns e f) p (resume e f p)"
proof (cases f)
  case (Refilling need todo fresh)
  with assms refill_step_ok [of need p fresh todo e] show ?thesis by (simp add: resume_def)
next
  case (ShutdownDrain grace c ws)
  with assms show ?thesis
    using shutdown_drained_ok [of p "slots f" c ws grace] by (simp add: resume_def born_def entitled_def)
next
  case (ShutdownGrace ws)
  with assms show ?thesis
    using shutdown_woken_ok [of p "slots f" ws e] by (simp add: resume_def born_def entitled_def)
next
  case (AsyncCreating i r)
  with assms async_created_ok [of r p i e] show ?thesis by (simp add: resume_def)
next
  case (Creating b)
  with assms borrow_created_ok [of p b e] show ?thesis by (simp add: resume_def)
next
  case (CreatingUnpooled b)
  with assms unpooled_created_ok [of p b e] show ?thesis by (simp add: resume_def)
next
  case ExpireTimer
  with assms expire_ok [of p e _ _ "[]"] show ?thesis
    by (cases "expireWaiters e p") (simp add: resume_def born_def)
next
  case WakeExpire
  with assms expire_ok [of p e _ _ "[WakeWaiters]"] show ?thesis
    by (cases "expireWaiters e p") (simp add: resume_def born_def)
next
  case (Closing c n)
  with assms show ?thesis
    using closing_done_ok [of p c n] by (simp add: resume_def born_def)
next
  case HealthSnapshot
  with assms show ?thesis by (simp add: resume_def born_def health_snapshot_def accounting)
qed (use assms in \<open>simp_all add: resume_def born_def section_oks\<close>)

section \<open>The invariant of the system\<close>

text \<open>
  The system is \<open>balanced\<close> up to one actor that has been taken out of it and still holds \<open>sl\<close>, \<open>cn\<close>,
  \<open>rq\<close>, \<open>wt\<close> and \<open>ln\<close>. The last conjuncts say that every connection ever created is in exactly one place
  and that no request is completed or pending twice.
\<close>

definition balanced :: "int \<Rightarrow> conn multiset \<Rightarrow> nat multiset \<Rightarrow> int \<Rightarrow> int \<Rightarrow> sys \<Rightarrow> bool" where
  "balanced sl cn rq wt ln s \<longleftrightarrow>
     borrowed (s_pool s) = ln + int (size (s_handles s)) \<and>
     waiting (s_pool s) = wt + sum_mset (image_mset waits (s_flights s)) \<and>
     (closed (s_pool s) \<or> slack (s_pool s) = sl + sum_mset (image_mset slots (s_flights s))) \<and>
     (closed (s_pool s) \<or> \<not> pooled (s_pool s) \<or> total (s_pool s) \<le> maxConn (s_pool s)) \<and>
     idle_conns (s_pool s) + sum_mset (image_mset holds (s_flights s)) + image_mset h_conn (s_handles s)
       + cn + s_closed s = mset [0..<s_conns s] \<and>
     queued (s_pool s) + sum_mset (image_mset owes (s_flights s)) + rq + image_mset fst (s_done s)
       \<subseteq># mset [0..<s_requests s] \<and>
     (\<forall>f \<in># s_flights s. flight_ok (s_pool s) f)"

lemma sum_mset_map [simp]: "sum_mset (image_mset f (mset xs)) = sum_list (map f xs)"
  by (induction xs) simp_all

text \<open>Exchanging, in a sum of multisets, what an actor brought for what it leaves behind.\<close>

lemma mset_exchange:
  fixes a :: "'a multiset"
  assumes "a' + fl + hn + cl = a + x + n" and "a + F + H + x + C = M"
  shows "a' + (fl + F) + (hn + H) + (cl + C) = M + n"
proof -
  have "a' + (fl + F) + (hn + H) + (cl + C) = (a' + fl + hn + cl) + (F + H + C)" by (simp add: ac_simps)
  also have "\<dots> = (a + F + H + x + C) + n" unfolding assms(1) by (simp add: ac_simps)
  finally show ?thesis unfolding assms(2) .
qed

lemma mset_exchange_sub:
  fixes a :: "'a multiset"
  assumes "a' + fl + hn \<subseteq># a + x" and "a + F + x + H \<subseteq># M"
  shows "a' + (fl + F) + (hn + H) \<subseteq># M"
proof -
  have "(a' + fl + hn) + (F + H) \<subseteq># (a + x) + (F + H)" using assms(1) by simp
  also have "(a + x) + (F + H) = a + F + x + H" by (simp add: ac_simps)
  also note assms(2)
  finally show ?thesis by (simp add: ac_simps)
qed

lemma slots_nonneg [simp]: "0 \<le> slots f"
  by (cases f) simp_all

lemma sum_slots_nonneg [simp]: "0 \<le> sum_mset (image_mset slots F)"
  by (induction F) simp_all

lemma flight_ok_mono: "flight_ok p f \<Longrightarrow> pooled q = pooled p \<Longrightarrow> (closed p \<longrightarrow> closed q) \<Longrightarrow> flight_ok q f"
  by (cases f) auto

text \<open>
  The interface between the sections and the system: an actor \<open>x\<close> (a flight, or a handle being given
  back) with what it holds, and the promise that running it accounts for all of that. Clients get that
  the system stays balanced.
\<close>

locale critical_section =
  fixes run :: "pool_env \<Rightarrow> 'x \<Rightarrow> pool_state \<Rightarrow> outcome"
    and allowed :: "pool_state \<Rightarrow> 'x \<Rightarrow> bool"
    and xslots :: "'x \<Rightarrow> int" and xholds :: "'x \<Rightarrow> conn multiset" and xowes :: "'x \<Rightarrow> nat multiset"
    and xwaits :: "'x \<Rightarrow> int" and xlent :: "'x \<Rightarrow> int" and xborn :: "pool_env \<Rightarrow> 'x \<Rightarrow> nat"
  assumes accounted: "entitled (xslots x) (xlent x) p \<Longrightarrow> allowed p x \<Longrightarrow>
      section_ok (xslots x) (xholds x) (xowes x) (xwaits x) (xlent x) (replicate_mset (xborn e x) (e_conn e)) p
        (run e x p)"
    and counts_nonneg: "0 \<le> xslots x" "0 \<le> xlent x"
    and born_one: "xborn e x \<le> 1"
begin

lemma commit_balanced:
  assumes "balanced (xslots x) (xholds x) (xowes x) (xwaits x) (xlent x) s" "allowed (s_pool s) x"
    and "e_conn e = s_conns s"
  shows "balanced 0 {#} {#} 0 0 (commit (run e x (s_pool s)) (s\<lparr>s_conns := s_conns s + xborn e x\<rparr>))"
proof -
  let ?p = "s_pool s" let ?r = "run e x ?p"
  have "entitled (xslots x) (xlent x) ?p"
    using assms(1) counts_nonneg [of x] by (auto simp: balanced_def entitled_def)
  from accounted [OF this assms(2), of e]
  have ok: "section_ok (xslots x) (xholds x) (xowes x) (xwaits x) (xlent x)
      (replicate_mset (xborn e x) (s_conns s)) ?p ?r" by (simp add: assms(3))
  have new: "mset [0..<s_conns s + xborn e x] = mset [0..<s_conns s] + replicate_mset (xborn e x) (s_conns s)"
    using born_one [of e x] by (cases "xborn e x") auto
  have fl: "\<forall>f \<in># mset (o_flights ?r) + s_flights s. flight_ok (o_pool ?r) f"
    using ok assms(1) by (auto simp: section_ok_def balanced_def list_all_iff intro: flight_ok_mono)
  have conns: "idle_conns (o_pool ?r) + (sum_list (map holds (o_flights ?r)) + sum_mset (image_mset holds (s_flights s)))
      + (mset (map h_conn (handles_of (o_done ?r))) + image_mset h_conn (s_handles s))
      + (mset (o_closed ?r) + s_closed s) = mset [0..<s_conns s + xborn e x]"
    unfolding new by (rule mset_exchange) (use ok assms(1) in \<open>auto simp: section_ok_def balanced_def\<close>)
  have reqs: "queued (o_pool ?r) + (sum_list (map owes (o_flights ?r)) + sum_mset (image_mset owes (s_flights s)))
      + (mset (map fst (o_done ?r)) + image_mset fst (s_done s)) \<subseteq># mset [0..<s_requests s]"
    by (rule mset_exchange_sub) (use ok assms(1) in \<open>auto simp: section_ok_def balanced_def\<close>)
  have counters: "borrowed (o_pool ?r) = int (size (mset (handles_of (o_done ?r)) + s_handles s))"
    "waiting (o_pool ?r) = sum_list (map waits (o_flights ?r)) + sum_mset (image_mset waits (s_flights s))"
    "closed (o_pool ?r) \<or>
      slack (o_pool ?r) = sum_list (map slots (o_flights ?r)) + sum_mset (image_mset slots (s_flights s))"
    "closed (o_pool ?r) \<or> \<not> pooled (o_pool ?r) \<or> total (o_pool ?r) \<le> maxConn (o_pool ?r)"
    using ok assms(1) by (auto simp: section_ok_def balanced_def)
  show ?thesis
    unfolding balanced_def commit_def using conns reqs counters fl by simp
qed

lemma commit_config:
  assumes "balanced (xslots x) (xholds x) (xowes x) (xwaits x) (xlent x) s" "allowed (s_pool s) x"
  shows "maxConn (o_pool (run e x (s_pool s))) = maxConn (s_pool s) \<and>
    pooled (o_pool (run e x (s_pool s))) = pooled (s_pool s)"
proof -
  have "entitled (xslots x) (xlent x) (s_pool s)"
    using assms(1) counts_nonneg [of x] by (auto simp: balanced_def entitled_def)
  from accounted [OF this assms(2), of e] show ?thesis by (simp add: section_ok_def)
qed

end

lemma born_le: "born e f \<le> Suc 0"
  by (simp add: born_def)

interpretation resume: critical_section resume flight_ok slots holds owes waits "\<lambda>_. 0" born
  by unfold_locales (simp_all add: resume_ok born_le)

interpretation return: critical_section "\<lambda>e h. returnConn h (e_now e)" "\<lambda>_ _. True"
    "\<lambda>_. 0" "\<lambda>h. {#h_conn h#}" "\<lambda>_. {#}" "\<lambda>_. 0" "\<lambda>_. 1" "\<lambda>_ _. 0"
  by unfold_locales (simp_all add: returnConn_ok)

definition pool_inv :: "pool_args \<Rightarrow> sys \<Rightarrow> bool" where
  "pool_inv a s \<longleftrightarrow> balanced 0 {#} {#} 0 0 s \<and>
     maxConn (s_pool s) = max (a_maxConn a) 1 \<and> pooled (s_pool s) = a_pooled a"

lemma take_flight:
  assumes "pool_inv a s" "f \<in># s_flights s"
  shows "balanced (slots f) (holds f) (owes f) (waits f) 0 (s\<lparr>s_flights := s_flights s - {#f#}\<rparr>)"
proof -
  obtain F where F: "s_flights s = add_mset f F" using assms(2) by (metis insert_DiffM)
  then show ?thesis
    using assms(1) by (auto simp: pool_inv_def balanced_def ac_simps)
qed

lemma take_handle:
  assumes "pool_inv a s" "h \<in># s_handles s"
  shows "balanced 0 {#h_conn h#} {#} 0 1 (s\<lparr>s_handles := s_handles s - {#h#}\<rparr>)"
proof -
  obtain H where H: "s_handles s = add_mset h H" using assms(2) by (metis insert_DiffM)
  then show ?thesis using assms(1) by (auto simp: pool_inv_def balanced_def)
qed

lemma commit_pool [simp]: "s_pool (commit r s) = o_pool r"
  by (simp add: commit_def)

lemma pool_step_inv:
  assumes "pool_step s s'" "pool_inv a s"
  shows "pool_inv a s'"
  using assms(1)
proof cases
  case (call_borrow t)
  then show ?thesis using assms(2) by (auto simp: pool_inv_def balanced_def add.assoc)
next
  case (call_async t)
  then show ?thesis using assms(2) by (auto simp: pool_inv_def balanced_def add.assoc)
next
  case (call_background f grace)
  then show ?thesis using assms(2) by (auto simp: pool_inv_def balanced_def)
next
  case (resume f e)
  have "flight_ok (s_pool s) f" using assms(2) resume(2) by (simp add: pool_inv_def balanced_def)
  with take_flight [OF assms(2) resume(2)] show ?thesis
    using resume.commit_balanced [of f "s\<lparr>s_flights := s_flights s - {#f#}\<rparr>" e]
      resume.commit_config [of f "s\<lparr>s_flights := s_flights s - {#f#}\<rparr>" e] resume(1,3) assms(2)
    by (simp add: pool_inv_def)
next
  case (invalidate h)
  obtain H where H: "s_handles s = add_mset h H" using invalidate(2) by (metis insert_DiffM)
  then show ?thesis using assms(2) invalidate(1) by (auto simp: pool_inv_def balanced_def)
next
  case (give_back h now)
  let ?e = "undefined\<lparr>e_now := now, e_conn := s_conns s\<rparr>"
  note taken = take_handle [OF assms(2) give_back(2)]
  show ?thesis
    using return.commit_balanced [OF taken, of ?e] return.commit_config [OF taken, of ?e] give_back(1) assms(2)
    by (simp add: pool_inv_def)
qed

lemma warmup_ok:
  assumes "warmup (map (\<lambda>k. (env k)\<lparr>e_conn := k\<rparr>) [n..<n + m]) p = (q, cs)"
    and "total p = int (length (idle p))" "idle_conns p = mset [0..<n]" "total p \<le> maxConn p"
  shows "borrowed q = borrowed p \<and> waiting q = waiting p \<and> closed q = closed p \<and> pooled q = pooled p \<and>
    maxConn q = maxConn p \<and> asyncWaiters q = asyncWaiters p \<and> total q = int (length (idle q)) \<and>
    total q \<le> maxConn q \<and> idle_conns q + mset cs = mset [0..<length (idle q) + length cs]"
  using assms
proof (induction m arbitrary: n p)
  case 0
  have "length (idle p) = n" using arg_cong [OF 0(3), of size] by (simp add: idle_conns_def)
  with 0 show ?case by auto
next
  case (Suc m)
  have n: "length (idle p) = n" using arg_cong [OF Suc.prems(3), of size] by (simp add: idle_conns_def)
  have up: "[n..<n + Suc m] = n # [Suc n..<Suc n + m]" by (simp add: upt_rec)
  show ?case
  proof (cases "createConnection ((env n)\<lparr>e_conn := n\<rparr>)")
    case (Inl st)
    with Suc.prems n show ?thesis unfolding up by (auto simp: idle_conns_def)
  next
    case (Inr c)
    then have c: "c = n" by (auto simp: createConnection_def split: option.splits if_splits)
    show ?thesis
    proof (cases "total p \<ge> maxConn p")
      case True
      with Suc.prems n Inr c show ?thesis unfolding up by (auto simp: idle_conns_def simp del: mset_upt)
    next
      case False
      with Suc.prems n Inr c show ?thesis
        using Suc.IH [of "Suc n" "p\<lparr>idle := idle p @ [fresh_idle n (e_now (env n))], total := total p + 1,
                            connectionsCreated := connectionsCreated p + 1\<rparr>"]
        unfolding up by (simp add: idle_conns_def fresh_idle_def)
    qed
  qed
qed

lemma initial_inv: "pool_inv a (initial a env)"
proof -
  let ?env = "\<lambda>k. (env k)\<lparr>e_conn := k\<rparr>" and ?p = "initial_pool a"
  obtain p cs where c: "construct a ?env = (p, cs)" by fastforce
  have "borrowed p = 0 \<and> waiting p = 0 \<and> closed p = False \<and> pooled p = pooled ?p \<and>
    maxConn p = maxConn ?p \<and> asyncWaiters p = [] \<and> total p = int (length (idle p)) \<and>
    total p \<le> maxConn p \<and> idle_conns p + mset cs = mset [0..<length (idle p) + length cs]"
  proof (cases "pooled ?p")
    case True
    then have w: "warmup (map ?env [0..<0 + nat (minConn ?p)]) ?p = (p, cs)"
      using c by (simp add: construct_def Let_def)
    have "total ?p = int (length (idle ?p))" "idle_conns ?p = mset [0..<0]" "total ?p \<le> maxConn ?p"
      by (simp_all add: initial_pool_def idle_conns_def)
    from warmup_ok [OF w this] show ?thesis by (simp add: initial_pool_def)
  next
    case False
    with c show ?thesis by (auto simp: construct_def Let_def initial_pool_def idle_conns_def)
  qed
  then show ?thesis
    by (auto simp: pool_inv_def balanced_def initial_def c slack_def queued_def initial_pool_def)
qed

lemma reachable_inv: "reachable a env s \<Longrightarrow> pool_inv a s"
  by (induction rule: reachable.induct) (auto intro: initial_inv pool_step_inv)

end
