(* ===== verification/PoolSafety.thy ===== *)
theory PoolSafety
  imports PoolSystem
begin

text \<open>
  What holds of the pool in every interleaving, from the invariant of \<open>PoolSystem\<close>: the connection
  limit, the counters, single ownership of connections, single completion of requests, the order in
  which waiters are served, and what a closed pool still does; then the two schedules in which the
  code loses a waiter and lets a counter go below zero.
\<close>

section \<open>Every interleaving\<close>

text \<open>
  The connections a flight is only about to close, behind the section that gave their slot up, and
  those it holds for any other reason.
\<close>

fun retiring :: "flight \<Rightarrow> conn multiset" where
  "retiring (Closing c next) = {#c#}"
| "retiring _ = {#}"

definition uses :: "flight \<Rightarrow> conn multiset" where
  "uses f = holds f - retiring f"

lemma uses_slots: "flight_ok p f \<Longrightarrow> \<not> closed p \<Longrightarrow> int (size (uses f)) \<le> slots f"
  by (cases f) (auto simp: uses_def)

lemma sum_uses_slots:
  "\<forall>f \<in># F. flight_ok p f \<Longrightarrow> \<not> closed p \<Longrightarrow>
   int (size (sum_mset (image_mset uses F))) \<le> sum_mset (image_mset slots F)"
  by (induction F) (auto dest: uses_slots)

text \<open>
  C1: In every interleaving an open pooled pool has at most max(maxConn, 1) connections that are
  idle, lent, or in use by a thread or task between two critical sections (being created,
  validated or handed over). Connections that have left the pool, their slot given up, and whose
  close() is still to come after the unlock are not counted: with them the number can exceed the
  maximum (closing_exceeds_max).
\<close>

theorem pool_never_exceeds_max:
  assumes "reachable a env s" and "a_pooled a" and "\<not> closed (s_pool s)"
  shows "int (size (idle_conns (s_pool s) + sum_mset (image_mset uses (s_flights s))
      + image_mset h_conn (s_handles s))) \<le> max (a_maxConn a) 1"
  using reachable_inv [OF assms(1)] assms(2,3) sum_uses_slots [of "s_flights s" "s_pool s"]
  by (auto simp: pool_inv_def balanced_def slack_def idle_conns_def)

theorem pool_counters:
  assumes "reachable a env s" and "\<not> closed (s_pool s)"
  shows "borrowed (s_pool s) = int (size (s_handles s)) \<and>
    waiting (s_pool s) = sum_mset (image_mset waits (s_flights s)) \<and>
    total (s_pool s) = int (length (idle (s_pool s))) + borrowed (s_pool s)
      + sum_mset (image_mset slots (s_flights s))"
  using reachable_inv [OF assms(1)] assms(2) by (auto simp: pool_inv_def balanced_def slack_def)

text \<open>
  C2: In every interleaving each connection ever created is in exactly one place: idle, lent,
  held by one thread or task, or closed (and closed once); none is lost.
\<close>

theorem pool_connections_owned_once:
  assumes "reachable a env s"
  shows "idle_conns (s_pool s) + sum_mset (image_mset holds (s_flights s)) + image_mset h_conn (s_handles s)
    + s_closed s = mset [0..<s_conns s]"
  using reachable_inv [OF assms(1)] by (simp add: pool_inv_def balanced_def)

text \<open>
  C17: No borrow request is completed twice, or completed while it is still pending.
\<close>

theorem pool_completes_at_most_once:
  assumes "reachable a env s"
  shows "queued (s_pool s) + sum_mset (image_mset owes (s_flights s)) + image_mset fst (s_done s)
    \<subseteq># mset [0..<s_requests s]"
  using reachable_inv [OF assms(1)] by (simp add: pool_inv_def balanced_def)

lemma wake_loop_fifo:
  "wake_loop now ws p = (ds, cs, p') \<Longrightarrow>
   map fst ds @ cs @ map w_id (asyncWaiters p') = map w_id ws \<and>
   (asyncWaiters p' \<noteq> [] \<longrightarrow> idle p' = [] \<and> maxConn p' \<le> total p') \<and>
   (idle p = [] \<longrightarrow> ds = [])"
proof (induction now ws p arbitrary: ds cs p' rule: wake_loop.induct)
  case (2 now w ws p)
  show ?case
  proof (cases "idle p")
    case Nil
    with 2(1)[OF this] 2(3) show ?thesis by (fastforce split: if_splits prod.splits)
  next
    case (Cons item rest)
    with 2(2)[OF this] 2(3) show ?thesis by (fastforce split: prod.splits)
  qed
qed auto

text \<open>
  Waking serves a prefix of the waiter queue in order and stops only when the queue is empty or
  there is neither an idle connection nor a free slot.
\<close>

theorem wakeAsyncWaiters_fifo:
  assumes "\<not> closed p"
  shows "\<exists>cs. o_flights (wakeAsyncWaiters e p) = map (\<lambda>i. PostCreate i True) cs \<and>
    map fst (o_done (wakeAsyncWaiters e p)) @ cs @ map w_id (asyncWaiters (o_pool (wakeAsyncWaiters e p))) =
      map w_id (asyncWaiters p) \<and>
    (asyncWaiters (o_pool (wakeAsyncWaiters e p)) = [] \<or>
     idle (o_pool (wakeAsyncWaiters e p)) = [] \<and>
     maxConn (o_pool (wakeAsyncWaiters e p)) \<le> total (o_pool (wakeAsyncWaiters e p)))"
proof -
  obtain ds cs p' where w: "wake_loop (e_now e) (asyncWaiters p) p = (ds, cs, p')" by (metis prod_cases3)
  from wake_loop_fifo [OF w] assms show ?thesis by (auto simp: wakeAsyncWaiters_def w)
qed

lemma maxLifetime_loan_ended [simp]: "maxLifetime (loan_ended h now p) = maxLifetime p"
  by (simp add: loan_ended_def Let_def)

lemma handoff_core:
  assumes "\<not> closed p" "pooled p" "h_reusable h" "maxLifetime p \<le> 0"
    and "filter (\<lambda>w. now < w_deadline w) (asyncWaiters p) = w # ws"
  shows "o_done (returnConn h now p) = [(w_id w, Inr (handle_of (h_conn h) (h_createdAt h) now))] \<and>
    asyncWaiters (o_pool (returnConn h now p)) = ws"
proof (cases rule: returnConn_cases [of p h now])
  case (dropped p5)
  with assms show ?thesis by (auto simp: lifetime_over_def)
next
  case (kept es ws' p3)
  have "ws' = w # ws" using sweep_parts(1) [OF kept(4)] assms(5) by (simp add: status_ok_def OK_def)
  then show ?thesis by (simp add: kept(5))
qed

text \<open>
  A connection given back to an open pool goes to the first waiter whose deadline has not
  passed, and the waiters behind it keep their order.
\<close>

theorem returnConn_hands_to_first_live:
  assumes "\<not> closed p" "pooled p" "h_reusable h" "maxLifetime p \<le> 0"
    and "filter (\<lambda>w. now < w_deadline w) (asyncWaiters p) = w # ws"
  shows "o_done (returnConn h now p) = [(w_id w, Inr (handle_of (h_conn h) (h_createdAt h) now))] \<and>
    asyncWaiters (o_pool (returnConn h now p)) = ws"
  by (rule handoff_core [OF assms])

theorem expired_waiter_lost_on_handoff:
  assumes "\<not> closed p" "pooled p" "h_reusable h" "maxLifetime p \<le> 0" "distinct (map w_id (asyncWaiters p))"
    and "v \<in> set (asyncWaiters p)" "w_deadline v \<le> now"
    and "u \<in> set (asyncWaiters p)" "now < w_deadline u"
  shows "w_id v \<notin> fst ` set (o_done (returnConn h now p)) \<and>
    w_id v \<notin># queued (o_pool (returnConn h now p)) \<and> o_flights (returnConn h now p) = []"
proof -
  let ?live = "filter (\<lambda>w. now < w_deadline w) (asyncWaiters p)"
  have "u \<in> set ?live" using assms(8,9) by simp
  then obtain w ws where live: "?live = w # ws" by (cases ?live) simp_all
  have "inj_on w_id (set (asyncWaiters p))" using assms(5) by (simp add: distinct_map)
  then have "w_id v \<notin> w_id ` set ?live" using assms(6,7) by (fastforce dest: inj_onD)
  moreover have "o_flights (returnConn h now p) = []"
  proof (cases rule: returnConn_cases [of p h now])
    case (dropped p5)
    then show ?thesis using assms(1-4) by (auto simp: lifetime_over_def)
  qed (simp split: list.split)
  ultimately show ?thesis
    using handoff_core [OF assms(1-4) live] unfolding live by (simp add: queued_def)
qed

lemma expireWaiters_closed:
  assumes "expireWaiters e p = (ds, p')"
  shows "handles_of ds = []" "idle p' = idle p" "closed p' = closed p"
  using expireWaiters_frame [OF assms] by auto

lemmas closed_sections = borrow_called_def borrow_validated_def borrow_created_def unpooled_created_def
  borrow_woken_def borrow_round_def borrow_fail_def async_called_def async_entered_def post_validate_def
  async_validated_def async_dead_def post_create_def async_created_def health_start_def health_snapshot_def
  health_pop_def health_checked_def refill_reserve_def refill_step_def refill_finish_def wakeAsyncWaiters_def
  shutdown_begin_def shutdown_drained_def shutdown_woken_def shutdown_pop_def shutdown_wait_def
  shutdown_finish_def closing_done_def Let_def

theorem closed_pool_lends_nothing:
  assumes "closed p"
  shows "handles_of (o_done (resume e f p)) = [] \<and> length (idle (o_pool (resume e f p))) \<le> length (idle p) \<and>
    closed (o_pool (resume e f p)) \<and>
    o_done (returnConn h now p) = [] \<and> idle (o_pool (returnConn h now p)) = idle p \<and>
    o_flights (returnConn h now p) = [Closing (h_conn h) None]"
proof -
  have r: "o_done (returnConn h now p) = [] \<and> idle (o_pool (returnConn h now p)) = idle p \<and>
    o_flights (returnConn h now p) = [Closing (h_conn h) None]"
    by (cases rule: returnConn_cases [of p h now]) (use assms in auto)
  obtain ds p' where x: "expireWaiters e p = (ds, p')" by fastforce
  note x' = expireWaiters_closed [OF x]
  have "handles_of (o_done (resume e f p)) = [] \<and> length (idle (o_pool (resume e f p))) \<le> length (idle p) \<and>
      closed (o_pool (resume e f p))"
    by (cases f; cases "idle p"; cases "createConnection e")
      (use assms x' in \<open>simp_all add: resume_def closed_sections x split: option.split sum.split\<close>)
  with r show ?thesis by blast
qed

section \<open>A shutdown during a connection attempt\<close>

definition one_slot :: pool_args where
  "one_slot = \<lparr>a_name = [], a_minConn = 0, a_maxConn = 1, a_borrowTimeout = 0, a_idleTimeout = 0,
     a_maxLifetime = 0, a_leakDetectionThreshold = 0, a_validationInterval = 0, a_metricsEnabled = False,
     a_pooled = True\<rparr>"

definition calm :: pool_env where
  "calm = \<lparr>e_now = 0, e_now2 = 0, e_ping = True, e_driver = [], e_connect = Some OK, e_conn = 0,
     e_usable = True, e_post = True, e_timeout = False, e_ops = (\<lambda>_. None)\<rparr>"

definition first_call :: BorrowCall where
  "first_call = \<lparr>b_id = 0, b_timeout = 0, b_started = 0, b_deadline = 0\<rparr>"

definition racing :: "int \<Rightarrow> bool \<Rightarrow> flight multiset \<Rightarrow> sys" where
  "racing t c fs = \<lparr>s_pool = (initial_pool one_slot)\<lparr>total := t, closed := c\<rparr>, s_flights = fs, s_handles = {#},
     s_done = {#}, s_closed = {#}, s_conns = 0, s_requests = 1\<rparr>"

lemma calm_ok: "op_status 0 (e_ops calm i) = OK" "status_ok OK" "createConnection calm = Inr 0"
  by (simp_all add: calm_def op_status_def status_ok_def OK_def createConnection_def)

lemma race_reserved: "reachable one_slot (\<lambda>_. calm) (racing 1 False {#Creating first_call#})"
proof -
  let ?R = "reachable one_slot (\<lambda>_. calm)"
  have init: "initial one_slot (\<lambda>_. calm) = (racing 0 False {#})\<lparr>s_requests := 0\<rparr>"
    by (simp add: initial_def construct_def initial_pool_def one_slot_def racing_def Let_def)
  from reachable.later [OF reachable.start pool_step.call_borrow [of _ 0], of one_slot "\<lambda>_. calm"]
  have "?R (racing 0 False {#BorrowCalled 0 0#})" unfolding init by (simp add: racing_def)
  from reachable.later [OF this pool_step.resume [of "BorrowCalled 0 0" _ calm]]
  show ?thesis
    by (simp add: racing_def resume_def born_def commit_def borrow_called_def borrow_round_def Let_def
        initial_pool_def one_slot_def calm_def op_status_def op_remaining_def effective_timeout_def
        status_ok_def OK_def first_call_def millis_def)
qed

lemma race_shut: "reachable one_slot (\<lambda>_. calm) (racing 0 True {#Creating first_call#})"
proof -
  from reachable.later [OF race_reserved pool_step.call_background [of "Shutdown 0" 0]]
  have "reachable one_slot (\<lambda>_. calm) (racing 1 False {#Shutdown 0, Creating first_call#})"
    by (simp add: racing_def)
  from reachable.later [OF this pool_step.resume [of "Shutdown 0" _ calm]]
  show ?thesis
    by (simp add: racing_def resume_def born_def commit_def shutdown_begin_def shutdown_pop_def
        shutdown_wait_def shutdown_finish_def initial_pool_def one_slot_def calm_def failures_def)
qed

theorem shutdown_race_underflow:
  "\<exists>a env s. reachable a env s \<and> total (s_pool s) = -1 \<and> totalCount (s_pool s) = 2 ^ 64 - 1"
proof -
  let ?e = calm and ?s = "racing 0 True {#Creating first_call#}"
  let ?s' = "commit (resume ?e (Creating first_call) (s_pool ?s))
    (?s\<lparr>s_flights := s_flights ?s - {#Creating first_call#}, s_conns := s_conns ?s + born ?e (Creating first_call)\<rparr>)"
  have "reachable one_slot (\<lambda>_. calm) ?s'"
    by (rule reachable.later [OF race_shut pool_step.resume]) (simp_all add: racing_def calm_def)
  moreover have "total (s_pool ?s') = -1"
    by (simp add: racing_def resume_def borrow_created_def borrow_fail_def calm_ok)
  moreover from this have "totalCount (s_pool ?s') = 2 ^ 64 - 1" by (simp add: totalCount_def)
  ultimately show ?thesis by blast
qed

section \<open>A borrow while a connection is being closed\<close>

text \<open>
  The one connection of the pool is given back as broken; its slot is free before it is closed, so the
  next borrow connects and the server sees two connections of a pool of one.
\<close>

definition second_call :: BorrowCall where
  "second_call = first_call\<lparr>b_id := 1\<rparr>"

definition crowded :: "int \<Rightarrow> flight multiset \<Rightarrow> Handle multiset \<Rightarrow> delivery multiset \<Rightarrow> nat \<Rightarrow> nat \<Rightarrow> nat \<Rightarrow> sys" where
  "crowded t fs hs ds made lost calls =
     \<lparr>s_pool = (initial_pool one_slot)\<lparr>total := t, borrowed := int (size hs), connectionsCreated := made,
        connectionsClosed := lost, invalidatedConnections := lost\<rparr>,
      s_flights = fs, s_handles = hs, s_done = ds, s_closed = {#}, s_conns = made, s_requests = calls\<rparr>"

abbreviation "crowd_reached \<equiv> reachable one_slot (\<lambda>_. calm)"

lemmas crowd_eval = crowded_def numeral_2_eq_2 resume_def born_def commit_def borrow_called_def borrow_round_def borrow_created_def
  borrow_got_def recordSuccess_def count_borrow_def recordWait_def handle_of_def createConnection_def Let_def
  initial_pool_def one_slot_def calm_def op_status_def op_remaining_def effective_timeout_def status_ok_def OK_def
  first_call_def second_call_def millis_def returnConn_def lifetime_over_def handles_of_def map_filter_def

lemma crowd_lent:
  "crowd_reached (crowded 1 {#} {#handle_of 0 0 0#} {#(0, Inr (handle_of 0 0 0))#} 1 0 1)"
  using reachable.later [OF race_reserved pool_step.resume [of "Creating first_call" _ calm]]
  by (simp add: racing_def crowd_eval)

lemma crowd_closing:
  "crowd_reached (crowded 0 {#Closing 0 None#} {#} {#(0, Inr (handle_of 0 0 0))#} 1 1 1)"
proof -
  let ?broken = "(handle_of 0 0 0)\<lparr>h_reusable := False\<rparr>"
  have "crowd_reached (crowded 1 {#} {#?broken#} {#(0, Inr (handle_of 0 0 0))#} 1 0 1)"
    using reachable.later [OF crowd_lent pool_step.invalidate [of "handle_of 0 0 0"]] by (simp add: crowded_def)
  from reachable.later [OF this pool_step.give_back [of ?broken _ 0]]
  show ?thesis by (simp add: crowd_eval)
qed

theorem closing_exceeds_max:
  "\<exists>a env s. reachable a env s \<and> a_pooled a \<and> a_maxConn a = 1 \<and> \<not> closed (s_pool s) \<and> total (s_pool s) = 1 \<and>
     size (idle_conns (s_pool s) + sum_mset (image_mset holds (s_flights s)) + image_mset h_conn (s_handles s)) = 2"
proof -
  let ?d = "(0, Inr (handle_of 0 0 0)) :: delivery" and ?h = "handle_of 1 0 0" and ?e = "calm\<lparr>e_conn := 1\<rparr>"
  have "crowd_reached (crowded 0 {#BorrowCalled 1 0, Closing 0 None#} {#} {#?d#} 1 1 2)"
    using reachable.later [OF crowd_closing pool_step.call_borrow [of _ 0]]
    by (simp add: crowded_def numeral_2_eq_2)
  from reachable.later [OF this pool_step.resume [of "BorrowCalled 1 0" _ ?e]]
  have "crowd_reached (crowded 1 {#Creating second_call, Closing 0 None#} {#} {#?d#} 1 1 2)"
    by (simp add: crowd_eval add_mset_commute)
  from reachable.later [OF this pool_step.resume [of "Creating second_call" _ ?e]]
  have "crowd_reached (crowded 1 {#Closing 0 None#} {#?h#} {#(1, Inr ?h), ?d#} 2 1 2)"
    by (simp add: crowd_eval add_mset_commute)
  moreover have "a_pooled one_slot \<and> a_maxConn one_slot = 1" by (simp add: one_slot_def)
  ultimately show ?thesis
    by (intro exI [of _ one_slot] exI [of _ "\<lambda>_. calm"]) (fastforce simp: crowded_def idle_conns_def initial_pool_def)
qed

section \<open>Concrete states\<close>

lemma racing_open: "a_pooled one_slot" "\<not> closed (s_pool (racing 1 False F))"
  by (simp_all add: one_slot_def racing_def)

theorem pool_never_exceeds_max_witness:
  "reachable one_slot (\<lambda>_. calm) (racing 1 False {#Creating first_call#}) \<and> a_pooled one_slot \<and>
   int (size (idle_conns (s_pool (racing 1 False {#Creating first_call#}))
     + sum_mset (image_mset uses (s_flights (racing 1 False {#Creating first_call#})))
     + image_mset h_conn (s_handles (racing 1 False {#Creating first_call#})))) \<le> max (a_maxConn one_slot) 1"
  using pool_never_exceeds_max [OF race_reserved racing_open] race_reserved racing_open(1) by blast

theorem pool_counters_witness:
  "reachable one_slot (\<lambda>_. calm) (racing 1 False {#Creating first_call#}) \<and>
   total (s_pool (racing 1 False {#Creating first_call#})) = 1 \<and>
   sum_mset (image_mset slots (s_flights (racing 1 False {#Creating first_call#}))) = 1"
  using pool_counters [OF race_reserved racing_open(2)] race_reserved
  by (simp add: racing_def initial_pool_def)

theorem pool_connections_owned_once_witness:
  "reachable one_slot (\<lambda>_. calm) (racing 1 False {#Creating first_call#}) \<and>
   idle_conns (s_pool (racing 1 False {#Creating first_call#})) = {#}"
  using pool_connections_owned_once [OF race_reserved] race_reserved
  by (simp add: racing_def)

theorem pool_completes_at_most_once_witness:
  "reachable one_slot (\<lambda>_. calm) (racing 1 False {#Creating first_call#}) \<and>
   queued (s_pool (racing 1 False {#Creating first_call#})) + {#0#} \<subseteq># {#0#}"
  using pool_completes_at_most_once [OF race_reserved] race_reserved
  by (simp add: racing_def first_call_def)

definition two_waiters :: pool_state where
  "two_waiters = (initial_pool one_slot)\<lparr>total := 1, borrowed := 1, asyncWaiters :=
     [\<lparr>w_id = 0, w_enqueuedAt = 0, w_deadline = 5\<rparr>, \<lparr>w_id = 1, w_enqueuedAt = 0, w_deadline = 9\<rparr>]\<rparr>"

definition lent :: Handle where
  "lent = handle_of 0 0 0"

lemma two_waiters_simps [simp]:
  "\<not> closed two_waiters" "pooled two_waiters" "maxLifetime two_waiters \<le> 0" "h_reusable lent"
  "asyncWaiters two_waiters =
     [\<lparr>w_id = 0, w_enqueuedAt = 0, w_deadline = 5\<rparr>, \<lparr>w_id = 1, w_enqueuedAt = 0, w_deadline = 9\<rparr>]"
  by (simp_all add: two_waiters_def initial_pool_def one_slot_def lent_def handle_of_def)

theorem returnConn_hands_to_first_live_witness:
  "\<not> closed two_waiters \<and> o_done (returnConn lent 7 two_waiters) =
     [(1, Inr (handle_of (h_conn lent) (h_createdAt lent) 7))]"
  using returnConn_hands_to_first_live [of two_waiters lent 7 "\<lparr>w_id = 1, w_enqueuedAt = 0, w_deadline = 9\<rparr>" "[]"]
  by simp

theorem expired_waiter_lost_on_handoff_witness:
  "\<not> closed two_waiters \<and> 0 \<notin> fst ` set (o_done (returnConn lent 7 two_waiters)) \<and>
   0 \<notin># queued (o_pool (returnConn lent 7 two_waiters)) \<and> o_flights (returnConn lent 7 two_waiters) = []"
  using expired_waiter_lost_on_handoff [of two_waiters lent "\<lparr>w_id = 0, w_enqueuedAt = 0, w_deadline = 5\<rparr>" 7
      "\<lparr>w_id = 1, w_enqueuedAt = 0, w_deadline = 9\<rparr>"]
  by simp

theorem wakeAsyncWaiters_fifo_witness:
  "\<not> closed two_waiters \<and>
   (\<exists>cs. o_flights (wakeAsyncWaiters calm two_waiters) = map (\<lambda>i. PostCreate i True) cs \<and>
    map fst (o_done (wakeAsyncWaiters calm two_waiters)) @ cs @
      map w_id (asyncWaiters (o_pool (wakeAsyncWaiters calm two_waiters))) = [0, 1])"
  using wakeAsyncWaiters_fifo [of two_waiters calm] by auto

theorem closed_pool_lends_nothing_witness:
  "closed (s_pool (racing 0 True {#})) \<and>
   handles_of (o_done (resume calm (Creating first_call) (s_pool (racing 0 True {#})))) = []"
  using closed_pool_lends_nothing [of "s_pool (racing 0 True {#})" calm "Creating first_call"]
  by (simp add: racing_def)

end
