(* ===== verification/QueryCache.thy ===== *)
theory QueryCache
  imports Types "HOL-Library.AList" "HOL-Library.Sublist" "HOL-Library.Multiset"
begin

text \<open>
  The query result cache, \<^verbatim>\<open>src/core/query_cache.cpp\<close> and its header, with its configuration.

  The store is a \<^verbatim>\<open>std::unordered_map\<close>: an association list with distinct keys whose order nothing
  depends on. An entry's iterator into the recency list denotes the one element that is its key.
  Sizes are \<^verbatim>\<open>size_t\<close> and \<open>nat\<close> here; the sizes of \<^verbatim>\<open>std::string\<close> and \<^verbatim>\<open>Value\<close> objects, which the
  platform fixes, are the parameter \<open>abi\<close>. Every operation holds the mutex throughout, so it is one
  function; the clock reading is its argument. The class \<open>QueryCache\<close> only forwards to the default
  instance.
\<close>

section \<open>State\<close>

record QueryCacheConfig =
  qcc_enabled :: bool
  ttl_ms :: int
  max_entries :: int
  max_memory_bytes :: int
  cache_on_replica_only :: bool

record Entry =
  en_rs :: ResultSet
  en_expire :: int
  en_bytes :: nat

record QueryCacheState =
  qc_cfg :: QueryCacheConfig
  qc_store :: "(string \<times> Entry) list"
  qc_lru :: "string list"
  totalBytes :: nat
  qc_enabled :: bool
  replicaOnly :: bool
  hits :: nat
  misses :: nat
  evictions :: nat
  invalidations :: nat

record abi =
  sizeof_string :: nat
  sizeof_Value :: nat

definition initial_cache :: QueryCacheState where
  "initial_cache =
     \<lparr>qc_cfg = \<lparr>qcc_enabled = False, ttl_ms = 60000, max_entries = 1000, max_memory_bytes = 0,
               cache_on_replica_only = False\<rparr>,
      qc_store = [], qc_lru = [], totalBytes = 0, qc_enabled = False, replicaOnly = False,
      hits = 0, misses = 0, evictions = 0, invalidations = 0\<rparr>"

definition compositeKey :: "string \<Rightarrow> string \<Rightarrow> string" where
  "compositeKey dataSource key = dataSource @ NUL # key"

definition valueBytes :: "abi \<Rightarrow> Value \<Rightarrow> nat" where
  "valueBytes z v =
     (case v of
        VString s \<Rightarrow> length s | VDecimal s \<Rightarrow> length s | VDate s \<Rightarrow> length s | VTime s \<Rightarrow> length s
      | VUuid s \<Rightarrow> length s | VJson s \<Rightarrow> length s | VBlob b \<Rightarrow> length b
      | _ \<Rightarrow> sizeof_Value z)"

definition approxBytes :: "abi \<Rightarrow> ResultSet \<Rightarrow> nat" where
  "approxBytes z rs =
     sum_list (map (\<lambda>f. length f + sizeof_string z) (rs_fields rs)) +
     sum_list (map (\<lambda>row. sum_list (map (\<lambda>(col, val). length col + sizeof_string z + valueBytes z val) row))
       (rs_rows rs))"

section \<open>Operations\<close>

definition eraseLocked :: "string \<Rightarrow> QueryCacheState \<Rightarrow> QueryCacheState" where
  "eraseLocked ck c =
     (case map_of (qc_store c) ck of
        None \<Rightarrow> c
      | Some e \<Rightarrow> c\<lparr>totalBytes := totalBytes c - (if en_bytes e \<le> totalBytes c then en_bytes e else totalBytes c),
                  qc_lru := remove1 ck (qc_lru c), qc_store := AList.delete ck (qc_store c)\<rparr>)"

definition tooMany :: "bool \<Rightarrow> QueryCacheState \<Rightarrow> bool" where
  "tooMany reserveSlot c \<longleftrightarrow> max_entries (qc_cfg c) > 0 \<and>
     (if reserveSlot then length (qc_store c) \<ge> nat (max_entries (qc_cfg c))
      else length (qc_store c) > nat (max_entries (qc_cfg c)))"

definition tooBig :: "nat \<Rightarrow> QueryCacheState \<Rightarrow> bool" where
  "tooBig incomingBytes c \<longleftrightarrow> max_memory_bytes (qc_cfg c) > 0 \<and>
     totalBytes c + incomingBytes > nat (max_memory_bytes (qc_cfg c))"

function evictLocked :: "nat \<Rightarrow> bool \<Rightarrow> QueryCacheState \<Rightarrow> QueryCacheState" where
  "evictLocked incomingBytes reserveSlot c =
     (if qc_lru c = [] then c
      else if \<not> tooMany reserveSlot c \<and> \<not> tooBig incomingBytes c then c
      else if map_of (qc_store c) (last (qc_lru c)) = None
      then evictLocked incomingBytes reserveSlot (c\<lparr>qc_lru := butlast (qc_lru c)\<rparr>)
      else evictLocked incomingBytes reserveSlot
             ((eraseLocked (last (qc_lru c)) c)\<lparr>evictions := evictions c + 1\<rparr>))"
  by pat_completeness auto

termination
proof (relation "measure (\<lambda>(b, r, c). length (qc_lru c))")
  fix b :: nat and r :: bool and c :: QueryCacheState
  assume "qc_lru c \<noteq> []" "map_of (qc_store c) (last (qc_lru c)) \<noteq> None"
  then show "((b, r, (eraseLocked (last (qc_lru c)) c)\<lparr>evictions := evictions c + 1\<rparr>), b, r, c)
      \<in> measure (\<lambda>(b, r, c). length (qc_lru c))"
    by (auto simp: eraseLocked_def length_remove1)
qed simp_all

declare evictLocked.simps [simp del]

definition cache_configure :: "QueryCacheConfig \<Rightarrow> QueryCacheState \<Rightarrow> QueryCacheState" where
  "cache_configure cfg c = c\<lparr>qc_cfg := cfg, qc_store := [], qc_lru := [], totalBytes := 0,
     qc_enabled := qcc_enabled cfg \<and> ttl_ms cfg > 0, replicaOnly := cache_on_replica_only cfg\<rparr>"

definition to_front :: "string \<Rightarrow> string list \<Rightarrow> string list" where
  "to_front k ks = k # remove1 k ks"

definition cache_get :: "int \<Rightarrow> string \<Rightarrow> string \<Rightarrow> QueryCacheState \<Rightarrow> ResultSet option \<times> QueryCacheState" where
  "cache_get now dataSource key c =
     (if \<not> qc_enabled c then (None, c)
      else if \<not> qcc_enabled (qc_cfg c) then (None, c)
      else case map_of (qc_store c) (compositeKey dataSource key) of
        None \<Rightarrow> (None, c\<lparr>misses := misses c + 1\<rparr>)
      | Some e \<Rightarrow>
          if en_expire e \<le> now
          then (None, (eraseLocked (compositeKey dataSource key) c)\<lparr>misses := misses c + 1\<rparr>)
          else (Some (en_rs e), c\<lparr>qc_lru := to_front (compositeKey dataSource key) (qc_lru c),
                                 hits := hits c + 1\<rparr>))"

definition cache_put :: "abi \<Rightarrow> int \<Rightarrow> string \<Rightarrow> string \<Rightarrow> ResultSet \<Rightarrow> QueryCacheState \<Rightarrow> QueryCacheState" where
  "cache_put z now dataSource key rs c =
     (let bytes = approxBytes z rs;
          ck = compositeKey dataSource key;
          e = \<lparr>en_rs = rs, en_expire = now + ttl_ms (qc_cfg c) * 1000000, en_bytes = bytes\<rparr>
      in if \<not> qc_enabled c then c
         else if \<not> qcc_enabled (qc_cfg c) then c
         else if ttl_ms (qc_cfg c) \<le> 0 then c
         else if max_memory_bytes (qc_cfg c) > 0 \<and> bytes > nat (max_memory_bytes (qc_cfg c)) then c
         else case map_of (qc_store c) ck of
           Some old \<Rightarrow>
             evictLocked 0 False
               (c\<lparr>totalBytes := totalBytes c - (if en_bytes old \<le> totalBytes c then en_bytes old else totalBytes c)
                               + bytes,
                  qc_store := AList.update ck e (qc_store c),
                  qc_lru := to_front ck (qc_lru c)\<rparr>)
         | None \<Rightarrow>
             (let c1 = evictLocked bytes True c
              in c1\<lparr>qc_lru := ck # qc_lru c1, totalBytes := totalBytes c1 + bytes,
                    qc_store := (ck, e) # qc_store c1\<rparr>))"

fun invalidate_loop :: "string \<Rightarrow> (string \<times> Entry) list \<Rightarrow> QueryCacheState \<Rightarrow> nat \<times> QueryCacheState" where
  "invalidate_loop pre [] c = (0, c)"
| "invalidate_loop pre ((k, e) # es) c =
     (if prefix pre k
      then (case invalidate_loop pre es (eraseLocked k c) of (n, c') \<Rightarrow> (n + 1, c'))
      else invalidate_loop pre es c)"

definition cache_invalidate :: "string \<Rightarrow> QueryCacheState \<Rightarrow> QueryCacheState" where
  "cache_invalidate dataSource c =
     (if \<not> qc_enabled c then c
      else if qc_store c = [] then c
      else case invalidate_loop (compositeKey dataSource []) (qc_store c) c of (removed, c') \<Rightarrow>
        c'\<lparr>invalidations := invalidations c' + removed\<rparr>)"

section \<open>The cache as a list in order of recency\<close>

definition view :: "QueryCacheState \<Rightarrow> (string \<times> Entry) list" where
  "view c = map (\<lambda>k. (k, the (map_of (qc_store c) k))) (qc_lru c)"

abbreviation bytes_of :: "(string \<times> Entry) list \<Rightarrow> nat" where
  "bytes_of xs \<equiv> sum_list (map (en_bytes \<circ> snd) xs)"

definition cache_ok :: "QueryCacheState \<Rightarrow> bool" where
  "cache_ok c \<longleftrightarrow> distinct (map fst (qc_store c)) \<and> distinct (qc_lru c) \<and>
     set (qc_lru c) = fst ` set (qc_store c) \<and> totalBytes c = bytes_of (view c)"

definition over_limits :: "QueryCacheConfig \<Rightarrow> nat \<Rightarrow> bool \<Rightarrow> (string \<times> Entry) list \<Rightarrow> bool" where
  "over_limits cfg incoming reserve xs \<longleftrightarrow>
     max_entries cfg > 0 \<and> (if reserve then length xs \<ge> nat (max_entries cfg) else length xs > nat (max_entries cfg)) \<or>
     max_memory_bytes cfg > 0 \<and> bytes_of xs + incoming > nat (max_memory_bytes cfg)"

text \<open>Eviction from the old end until the limits hold.\<close>

function lru_evict :: "QueryCacheConfig \<Rightarrow> nat \<Rightarrow> bool \<Rightarrow> (string \<times> Entry) list \<Rightarrow> (string \<times> Entry) list" where
  "lru_evict cfg incoming reserve xs =
     (if xs \<noteq> [] \<and> over_limits cfg incoming reserve xs then lru_evict cfg incoming reserve (butlast xs) else xs)"
  by pat_completeness auto

termination
  by (relation "measure (\<lambda>(cfg, b, r, xs). length xs)") auto

declare lru_evict.simps [simp del]

lemma cache_ok_length: "cache_ok c \<Longrightarrow> length (qc_store c) = length (view c)"
  by (auto simp: cache_ok_def view_def simp flip: distinct_card [of "qc_lru c"])
    (metis distinct_card length_map list.set_map)

lemma view_keys: "map fst (view c) = qc_lru c"
  by (simp add: view_def comp_def)

lemma view_dom: "cache_ok c \<Longrightarrow> fst ` set (view c) = fst ` set (qc_store c)"
  unfolding set_map [symmetric] view_keys by (simp add: cache_ok_def)

lemma view_lookup: "cache_ok c \<Longrightarrow> map_of (view c) = map_of (qc_store c)"
proof
  fix k
  assume ok: "cache_ok c"
  have "map_of (map (\<lambda>k. (k, f k)) ks) k = (if k \<in> set ks then Some (f k) else None)" for f :: "string \<Rightarrow> Entry" and ks
    by (induction ks) auto
  then have "map_of (view c) k = (if k \<in> set (qc_lru c) then Some (the (map_of (qc_store c) k)) else None)"
    by (simp add: view_def)
  moreover have "k \<in> set (qc_lru c) \<longleftrightarrow> map_of (qc_store c) k \<noteq> None"
    using ok by (simp add: cache_ok_def map_of_eq_None_iff)
  ultimately show "map_of (view c) k = map_of (qc_store c) k" by (cases "map_of (qc_store c) k") simp_all
qed

lemma delete_other: "k' \<noteq> k \<Longrightarrow> map_of (AList.delete k al) k' = map_of al k'"
  by (simp add: AList.delete_conv)

lemma eraseLocked_view:
  assumes "cache_ok c" and "map_of (qc_store c) k = Some e"
  shows "view (eraseLocked k c) = filter (\<lambda>x. fst x \<noteq> k) (view c)" and "cache_ok (eraseLocked k c)"
    and "qc_cfg (eraseLocked k c) = qc_cfg c"
proof -
  have d: "distinct (qc_lru c)" "k \<in> set (qc_lru c)"
    using assms by (auto simp: cache_ok_def dest: map_of_SomeD intro!: rev_image_eqI)
  have lru: "qc_lru (eraseLocked k c) = filter (\<lambda>x. x \<noteq> k) (qc_lru c)"
    using assms(2) d by (auto simp: eraseLocked_def distinct_remove1_removeAll removeAll_filter_not_eq intro: filter_cong)
  have "view (eraseLocked k c) = map (\<lambda>k'. (k', the (map_of (qc_store c) k'))) (filter (\<lambda>x. x \<noteq> k) (qc_lru c))"
    unfolding view_def lru by (rule map_cong) (use assms(2) in \<open>simp_all add: eraseLocked_def delete_other\<close>)
  also have "\<dots> = filter (\<lambda>x. fst x \<noteq> k) (view c)"
    by (simp add: view_def filter_map comp_def)
  finally show v: "view (eraseLocked k c) = filter (\<lambda>x. fst x \<noteq> k) (view c)" .
  have sum: "bytes_of (view c) = bytes_of (filter (\<lambda>x. fst x \<noteq> k) (view c)) + en_bytes e"
  proof -
    obtain l1 l2 where l: "qc_lru c = l1 @ k # l2" "k \<notin> set l1" "k \<notin> set l2"
      using d by (metis in_set_conv_decomp_first distinct.simps(2) distinct_append)
    have "filter (\<lambda>x. x \<noteq> k) l1 = l1" "filter (\<lambda>x. x \<noteq> k) l2 = l2" using l by (auto intro!: filter_True)
    then show ?thesis using assms(2) by (simp add: view_def l(1) filter_map comp_def)
  qed
  have st: "qc_store (eraseLocked k c) = AList.delete k (qc_store c)"
    "totalBytes (eraseLocked k c) = bytes_of (filter (\<lambda>x. fst x \<noteq> k) (view c))"
    using assms sum by (simp_all add: eraseLocked_def cache_ok_def)
  have "set (filter (\<lambda>x. x \<noteq> k) (qc_lru c)) = fst ` set (AList.delete k (qc_store c))"
    using assms(1) unfolding set_map [symmetric] delete_keys by (auto simp: cache_ok_def)
  then show "cache_ok (eraseLocked k c)"
    unfolding cache_ok_def v lru st using assms(1) by (simp add: cache_ok_def distinct_delete)
  show "qc_cfg (eraseLocked k c) = qc_cfg c" using assms(2) by (simp add: eraseLocked_def)
qed

lemma filter_last_butlast:
  assumes "distinct (map fst xs)" "xs \<noteq> []"
  shows "filter (\<lambda>x. fst x \<noteq> fst (last xs)) xs = butlast xs"
  using assms
proof (induction xs rule: rev_induct)
  case (snoc x xs)
  then have "filter (\<lambda>y. fst y \<noteq> fst x) xs = xs" by (intro filter_True) (auto simp: image_iff)
  then show ?case by simp
qed simp

lemma cache_ok_stats [simp]: "cache_ok (c\<lparr>evictions := n\<rparr>) = cache_ok c" "view (c\<lparr>evictions := n\<rparr>) = view c"
  "cache_ok (c\<lparr>misses := n\<rparr>) = cache_ok c" "view (c\<lparr>misses := n\<rparr>) = view c"
  "cache_ok (c\<lparr>hits := n\<rparr>) = cache_ok c" "view (c\<lparr>hits := n\<rparr>) = view c"
  "cache_ok (c\<lparr>invalidations := n\<rparr>) = cache_ok c" "view (c\<lparr>invalidations := n\<rparr>) = view c"
  by (simp_all add: cache_ok_def view_def)

lemma over_limits_view:
  "cache_ok c \<Longrightarrow> over_limits (qc_cfg c) b r (view c) \<longleftrightarrow> tooMany r c \<or> tooBig b c"
  by (simp add: over_limits_def tooMany_def tooBig_def cache_ok_length) (simp add: cache_ok_def)

lemma evictLocked_view:
  "cache_ok c \<Longrightarrow> cache_ok (evictLocked b r c) \<and> view (evictLocked b r c) = lru_evict (qc_cfg c) b r (view c) \<and>
     qc_cfg (evictLocked b r c) = qc_cfg c \<and> qc_enabled (evictLocked b r c) = qc_enabled c"
proof (induction b r c rule: evictLocked.induct)
  case (1 b r c)
  note ok = "1.prems"
  have nil: "qc_lru c = [] \<longleftrightarrow> view c = []" by (simp add: view_def)
  show ?case
  proof (cases "view c \<noteq> [] \<and> over_limits (qc_cfg c) b r (view c)")
    case False
    then show ?thesis
      using ok by (auto simp: evictLocked.simps [of b r c] lru_evict.simps [of _ _ _ "view c"] nil over_limits_view)
  next
    case True
    let ?k = "last (qc_lru c)"
    have "?k \<in> set (qc_lru c)" using True nil by simp
    then obtain e where e: "map_of (qc_store c) ?k = Some e"
      using ok by (auto simp: cache_ok_def dest: weak_map_of_SomeI)
    let ?c = "(eraseLocked ?k c)\<lparr>evictions := evictions c + 1\<rparr>"
    note er = eraseLocked_view [OF ok e]
    have "fst (last (view c)) = ?k" using True nil by (metis last_map list.map_disc_iff view_keys)
    then have v: "view ?c = butlast (view c)"
      using filter_last_butlast [of "view c"] True ok er(1) by (simp add: view_keys cache_ok_def)
    have "evictLocked b r c = evictLocked b r ?c"
      using True nil ok e by (subst evictLocked.simps) (auto simp: over_limits_view)
    moreover have "lru_evict (qc_cfg c) b r (view c) = lru_evict (qc_cfg c) b r (butlast (view c))"
      using True by (subst lru_evict.simps) simp
    moreover have "cache_ok ?c" using er(2) by simp
    moreover have "qc_enabled ?c = qc_enabled c" by (simp add: eraseLocked_def e)
    ultimately show ?thesis
      using "1.IH"(2) True nil ok e er(3) v by (auto simp: over_limits_view)
  qed
qed

lemma mset_to_front: "k \<in> set ks \<Longrightarrow> mset (to_front k ks) = mset ks"
  by (simp add: to_front_def)

lemma to_front_props:
  assumes "k \<in> set ks"
  shows "set (to_front k ks) = set ks" "distinct (to_front k ks) = distinct ks"
    "sum_list (map f (to_front k ks)) = (sum_list (map f ks) :: nat)"
  using mset_to_front [OF assms] mset_eq_setD mset_eq_imp_distinct_iff
  by (blast, blast, metis mset_map sum_mset_sum_list)

lemma view_to_front:
  assumes "cache_ok c" "k \<in> set (qc_lru c)"
  shows "view (c\<lparr>qc_lru := to_front k (qc_lru c)\<rparr>) =
      (k, the (map_of (qc_store c) k)) # filter (\<lambda>x. fst x \<noteq> k) (view c)"
    and "cache_ok (c\<lparr>qc_lru := to_front k (qc_lru c)\<rparr>)"
proof -
  obtain l1 l2 where l: "qc_lru c = l1 @ k # l2" "k \<notin> set l1" "k \<notin> set l2"
    using assms by (metis cache_ok_def in_set_conv_decomp_first distinct.simps(2) distinct_append)
  have f: "filter (\<lambda>x. x \<noteq> k) l1 = l1" "filter (\<lambda>x. x \<noteq> k) l2 = l2" using l by (auto intro!: filter_True)
  have tf: "to_front k (qc_lru c) = k # l1 @ l2" using l by (simp add: to_front_def remove1_append)
  show "view (c\<lparr>qc_lru := to_front k (qc_lru c)\<rparr>) =
      (k, the (map_of (qc_store c) k)) # filter (\<lambda>x. fst x \<noteq> k) (view c)"
    using f by (simp add: view_def tf) (simp add: l(1) filter_map comp_def)
  show "cache_ok (c\<lparr>qc_lru := to_front k (qc_lru c)\<rparr>)"
    using assms by (simp add: cache_ok_def view_def to_front_props)
qed

lemma view_replace:
  assumes "cache_ok c" "map_of (qc_store c) k = Some old"
    and c'_def: "c' = c\<lparr>totalBytes := totalBytes c - (if en_bytes old \<le> totalBytes c then en_bytes old else totalBytes c)
      + en_bytes e, qc_store := AList.update k e (qc_store c), qc_lru := to_front k (qc_lru c)\<rparr>"
  shows "view c' = (k, e) # filter (\<lambda>x. fst x \<noteq> k) (view c)" "cache_ok c'"
proof -
  have k: "k \<in> set (qc_lru c)" using assms by (auto simp: cache_ok_def dest: map_of_SomeD intro!: rev_image_eqI)
  obtain l1 l2 where l: "qc_lru c = l1 @ k # l2" "k \<notin> set l1" "k \<notin> set l2"
    using assms k by (metis cache_ok_def in_set_conv_decomp_first distinct.simps(2) distinct_append)
  have f: "filter (\<lambda>x. x \<noteq> k) l1 = l1" "filter (\<lambda>x. x \<noteq> k) l2 = l2" using l by (auto intro!: filter_True)
  have tf: "to_front k (qc_lru c) = k # l1 @ l2" using l by (simp add: to_front_def remove1_append)
  have m: "map (\<lambda>k'. (k', the (map_of (AList.update k e (qc_store c)) k'))) ls =
      map (\<lambda>k'. (k', the (map_of (qc_store c) k'))) ls" if "k \<notin> set ls" for ls
    using that by (intro map_cong) (auto simp: update_conv')
  show v: "view c' = (k, e) # filter (\<lambda>x. fst x \<noteq> k) (view c)"
    using f m [OF l(2)] m [OF l(3)] by (simp add: c'_def view_def tf update_conv') (simp add: l(1) filter_map comp_def)
  have old: "bytes_of (view c) = bytes_of (filter (\<lambda>x. fst x \<noteq> k) (view c)) + en_bytes old"
    using f assms(2) by (simp add: view_def l(1) filter_map comp_def)
  have "totalBytes c' = bytes_of (view c')"
    unfolding v using old assms(1) by (simp add: c'_def cache_ok_def)
  moreover have "set (qc_lru c') = fst ` set (qc_store c')" "distinct (map fst (qc_store c'))" "distinct (qc_lru c')"
    using assms(1) k by (auto simp: c'_def cache_ok_def to_front_props distinct_update dom_update)
  ultimately show "cache_ok c'" by (simp add: cache_ok_def)
qed

lemma view_insert:
  assumes "cache_ok c" "map_of (qc_store c) k = None"
    and c'_def: "c' = c\<lparr>qc_lru := k # qc_lru c, totalBytes := totalBytes c + en_bytes e, qc_store := (k, e) # qc_store c\<rparr>"
  shows "view c' = (k, e) # view c" "cache_ok c'"
proof -
  have k: "k \<notin> set (qc_lru c)" using assms by (simp add: cache_ok_def map_of_eq_None_iff)
  show v: "view c' = (k, e) # view c" using k by (auto simp: c'_def view_def intro!: map_cong)
  show "cache_ok c'" unfolding cache_ok_def v using assms(1) k by (simp add: c'_def cache_ok_def)
qed

definition accepts :: "abi \<Rightarrow> ResultSet \<Rightarrow> QueryCacheState \<Rightarrow> bool" where
  "accepts z rs c \<longleftrightarrow> qc_enabled c \<and> qcc_enabled (qc_cfg c) \<and> ttl_ms (qc_cfg c) > 0 \<and>
     \<not> (max_memory_bytes (qc_cfg c) > 0 \<and> approxBytes z rs > nat (max_memory_bytes (qc_cfg c)))"

definition new_entry :: "abi \<Rightarrow> int \<Rightarrow> ResultSet \<Rightarrow> QueryCacheState \<Rightarrow> Entry" where
  "new_entry z now rs c =
     \<lparr>en_rs = rs, en_expire = now + ttl_ms (qc_cfg c) * 1000000, en_bytes = approxBytes z rs\<rparr>"

text \<open>The specification of \<open>put\<close> on the recency list.\<close>

definition lru_put :: "QueryCacheConfig \<Rightarrow> string \<Rightarrow> Entry \<Rightarrow> (string \<times> Entry) list \<Rightarrow> (string \<times> Entry) list" where
  "lru_put cfg k e xs =
     (if k \<in> fst ` set xs then lru_evict cfg 0 False ((k, e) # filter (\<lambda>x. fst x \<noteq> k) xs)
      else (k, e) # lru_evict cfg (en_bytes e) True xs)"

lemma lru_evict_take: "\<exists>n. lru_evict cfg b r xs = take n xs"
proof (induction cfg b r xs rule: lru_evict.induct)
  case (1 cfg b r xs)
  show ?case
  proof (cases "xs \<noteq> [] \<and> over_limits cfg b r xs")
    case True
    with 1 obtain n where "lru_evict cfg b r (butlast xs) = take n (butlast xs)" by blast
    with True show ?thesis by (metis butlast_conv_take lru_evict.simps take_take)
  next
    case False
    then show ?thesis by (metis lru_evict.simps take_all order_refl)
  qed
qed

lemma lru_evict_fits: "lru_evict cfg b r xs = [] \<or> \<not> over_limits cfg b r (lru_evict cfg b r xs)"
proof (induction cfg b r xs rule: lru_evict.induct)
  case (1 cfg b r xs)
  then show ?case by (metis lru_evict.simps)
qed

lemma put_core:
  assumes "cache_ok c" "accepts z rs c"
  shows "view (cache_put z now d k rs c) =
      lru_put (qc_cfg c) (compositeKey d k) (new_entry z now rs c) (view c) \<and>
    cache_ok (cache_put z now d k rs c) \<and> qc_cfg (cache_put z now d k rs c) = qc_cfg c \<and>
    qc_enabled (cache_put z now d k rs c) = qc_enabled c"
proof (cases "map_of (qc_store c) (compositeKey d k)")
  case None
  let ?c = "evictLocked (approxBytes z rs) True c"
  note ev = evictLocked_view [OF assms(1), of "approxBytes z rs" True]
  have nk: "compositeKey d k \<notin> fst ` set (view c)"
    using None assms(1) by (simp add: view_dom map_of_eq_None_iff)
  obtain n where n: "view ?c = take n (view c)" using ev lru_evict_take by metis
  have "compositeKey d k \<notin> fst ` set (view ?c)" using nk n by (auto dest: in_set_takeD)
  then have "map_of (qc_store ?c) (compositeKey d k) = None"
    using ev view_dom [of ?c] by (simp add: map_of_eq_None_iff)
  note ins = view_insert [OF conjunct1 [OF ev] this refl, of "new_entry z now rs c"]
  have "cache_put z now d k rs c = ?c\<lparr>qc_lru := compositeKey d k # qc_lru ?c,
      totalBytes := totalBytes ?c + en_bytes (new_entry z now rs c),
      qc_store := (compositeKey d k, new_entry z now rs c) # qc_store ?c\<rparr>"
    using assms(2) None by (auto simp: cache_put_def accepts_def new_entry_def Let_def)
  with ins ev nk show ?thesis by (simp add: lru_put_def new_entry_def)
next
  case (Some old)
  let ?c = "c\<lparr>totalBytes := totalBytes c - (if en_bytes old \<le> totalBytes c then en_bytes old else totalBytes c)
      + en_bytes (new_entry z now rs c), qc_store := AList.update (compositeKey d k) (new_entry z now rs c) (qc_store c),
      qc_lru := to_front (compositeKey d k) (qc_lru c)\<rparr>"
  note rep = view_replace [OF assms(1) Some refl, of "new_entry z now rs c"]
  note ev = evictLocked_view [OF rep(2), of 0 False]
  have "compositeKey d k \<in> fst ` set (view c)"
    using Some assms(1) by (auto simp: view_dom dest: map_of_SomeD intro!: rev_image_eqI)
  moreover have "cache_put z now d k rs c = evictLocked 0 False ?c"
    using assms(2) Some by (auto simp: cache_put_def accepts_def new_entry_def Let_def)
  ultimately show ?thesis using rep ev by (simp add: lru_put_def)
qed

text \<open>
  C18: Storing a result in the cache is, seen as a list in order of recency, the abstract LRU
  insertion: the new entry in front and the oldest ones evicted until the configured limits
  hold.
\<close>

theorem cache_put_refines_lru:
  assumes "cache_ok c" and "accepts z rs c"
  shows "view (cache_put z now d k rs c) =
    lru_put (qc_cfg c) (compositeKey d k) (new_entry z now rs c) (view c)"
  using put_core [OF assms] by blast

lemma lru_put_front:
  assumes "\<not> (max_memory_bytes cfg > 0 \<and> en_bytes e > nat (max_memory_bytes cfg))"
  shows "\<exists>ys. lru_put cfg k e xs = (k, e) # ys"
proof (cases "k \<in> fst ` set xs")
  case True
  let ?xs = "(k, e) # filter (\<lambda>x. fst x \<noteq> k) xs"
  have one: "\<not> over_limits cfg 0 False [(k, e)]" using assms by (auto simp: over_limits_def)
  have "\<exists>ys. lru_evict cfg 0 False ((k, e) # zs) = (k, e) # ys" for zs
  proof (induction zs rule: rev_induct)
    case Nil
    then show ?case using one by (subst lru_evict.simps) simp
  next
    case (snoc z zs)
    then show ?case by (subst lru_evict.simps) (auto simp: butlast_append)
  qed
  with True show ?thesis by (simp add: lru_put_def)
qed (simp add: lru_put_def)

theorem cache_get_after_put:
  assumes "cache_ok c" and "accepts z rs c" and "now' < now + ttl_ms (qc_cfg c) * 1000000"
  shows "fst (cache_get now' d k (cache_put z now d k rs c)) = Some rs"
proof -
  let ?c = "cache_put z now d k rs c"
  note p = put_core [OF assms(1,2), of now d k]
  obtain ys where "view ?c = (compositeKey d k, new_entry z now rs c) # ys"
    using p lru_put_front [of "qc_cfg c" "new_entry z now rs c"] assms(2)
    by (auto simp: accepts_def new_entry_def)
  then have "map_of (view ?c) (compositeKey d k) = Some (new_entry z now rs c)" by simp
  then have "map_of (qc_store ?c) (compositeKey d k) = Some (new_entry z now rs c)"
    using p view_lookup [of ?c] by metis
  then show ?thesis using p assms(2,3) by (simp add: cache_get_def accepts_def new_entry_def)
qed

section \<open>Limits\<close>

definition within_limits :: "QueryCacheState \<Rightarrow> bool" where
  "within_limits c \<longleftrightarrow>
     (max_entries (qc_cfg c) \<le> 0 \<or> int (length (qc_store c)) \<le> max_entries (qc_cfg c)) \<and>
     (max_memory_bytes (qc_cfg c) \<le> 0 \<or> int (totalBytes c) \<le> max_memory_bytes (qc_cfg c))"

datatype cache_op =
    Configure QueryCacheConfig | Get int string string | Put int string string ResultSet | Invalidate string

definition cache_do :: "abi \<Rightarrow> cache_op \<Rightarrow> QueryCacheState \<Rightarrow> QueryCacheState" where
  "cache_do z oper c =
     (case oper of
        Configure cfg \<Rightarrow> cache_configure cfg c
      | Get now d k \<Rightarrow> snd (cache_get now d k c)
      | Put now d k rs \<Rightarrow> cache_put z now d k rs c
      | Invalidate d \<Rightarrow> cache_invalidate d c)"

lemma within_limits_view:
  "cache_ok c \<Longrightarrow> within_limits c \<longleftrightarrow> \<not> over_limits (qc_cfg c) 0 False (view c)"
  by (simp add: within_limits_def over_limits_def cache_ok_length) (auto simp: cache_ok_def)

lemma over_limits_mono:
  assumes "\<not> over_limits cfg b r xs" "length ys \<le> length xs" "bytes_of ys \<le> bytes_of xs"
  shows "\<not> over_limits cfg b r ys"
  using assms by (auto simp: over_limits_def split: if_splits)

lemma lru_put_within:
  assumes "\<not> (max_memory_bytes cfg > 0 \<and> en_bytes e > nat (max_memory_bytes cfg))"
  shows "\<not> over_limits cfg 0 False (lru_put cfg k e xs)"
proof (cases "k \<in> fst ` set xs")
  case True
  then show ?thesis
    using lru_evict_fits [of cfg 0 False "(k, e) # filter (\<lambda>x. fst x \<noteq> k) xs"] lru_put_front [OF assms, of k xs]
    by (auto simp: lru_put_def)
next
  case False
  with lru_evict_fits [of cfg "en_bytes e" True xs] assms show ?thesis
    by (auto simp: lru_put_def over_limits_def)
qed

lemma erase_limits:
  assumes "cache_ok c" "within_limits c"
  shows "cache_ok (eraseLocked k c) \<and> within_limits (eraseLocked k c) \<and> qc_cfg (eraseLocked k c) = qc_cfg c"
proof (cases "map_of (qc_store c) k")
  case None
  then show ?thesis using assms by (simp add: eraseLocked_def)
next
  case (Some e)
  note er = eraseLocked_view [OF assms(1) Some]
  have "bytes_of (filter (\<lambda>x. fst x \<noteq> k) xs) \<le> bytes_of xs" for xs :: "(string \<times> Entry) list"
    by (induction xs) auto
  then show ?thesis
    using assms er over_limits_mono [of "qc_cfg c" 0 False "view c" "filter (\<lambda>x. fst x \<noteq> k) (view c)"]
    by (simp add: within_limits_view)
qed

lemma invalidate_loop_limits:
  "cache_ok c \<Longrightarrow> within_limits c \<Longrightarrow> invalidate_loop pre es c = (n, c') \<Longrightarrow>
   cache_ok c' \<and> within_limits c' \<and> qc_cfg c' = qc_cfg c"
proof (induction pre es c arbitrary: n c' rule: invalidate_loop.induct)
  case (2 pre k e es c)
  show ?case
  proof (cases "prefix pre k")
    case True
    obtain m c1 where r: "invalidate_loop pre es (eraseLocked k c) = (m, c1)" by fastforce
    with "2.prems"(3) True have "c' = c1" by simp
    with "2.IH"(1) [OF True _ _ r] erase_limits [OF "2.prems"(1,2), of k] show ?thesis by simp
  next
    case False
    with "2.IH"(2) "2.prems" show ?thesis by simp
  qed
qed simp

lemma within_limits_stats [simp]:
  "within_limits (c\<lparr>misses := n\<rparr>) = within_limits c" "within_limits (c\<lparr>hits := n\<rparr>) = within_limits c"
  "within_limits (c\<lparr>invalidations := n\<rparr>) = within_limits c" "within_limits (c\<lparr>qc_lru := l\<rparr>) = within_limits c"
  by (simp_all add: within_limits_def)

lemma cache_do_ok:
  assumes "cache_ok c" "within_limits c"
  shows "cache_ok (cache_do z oper c) \<and> within_limits (cache_do z oper c)"
proof (cases oper)
  case (Configure cfg)
  then show ?thesis by (auto simp: cache_do_def cache_configure_def cache_ok_def view_def within_limits_def)
next
  case (Get now d k)
  show ?thesis
  proof (cases "map_of (qc_store c) (compositeKey d k)")
    case None
    then show ?thesis using assms Get by (simp add: cache_do_def cache_get_def)
  next
    case (Some e)
    then have "compositeKey d k \<in> set (qc_lru c)"
      using assms(1) by (auto simp: cache_ok_def dest: map_of_SomeD intro!: rev_image_eqI)
    with view_to_front(2) [OF assms(1) this] erase_limits [OF assms] assms Get Some show ?thesis
      by (simp add: cache_do_def cache_get_def)
  qed
next
  case (Put now d k rs)
  show ?thesis
  proof (cases "accepts z rs c")
    case True
    with put_core [OF assms(1) True, of now d k] lru_put_within [of "qc_cfg c" "new_entry z now rs c"] Put show ?thesis
      by (auto simp: cache_do_def within_limits_view accepts_def new_entry_def)
  next
    case False
    then have "cache_put z now d k rs c = c" by (auto simp: cache_put_def accepts_def Let_def)
    with assms Put show ?thesis by (simp add: cache_do_def)
  qed
next
  case (Invalidate d)
  with assms invalidate_loop_limits [OF assms] show ?thesis
    by (auto simp: cache_do_def cache_invalidate_def split: prod.splits)
qed

text \<open>
  In every sequence of operations the recency list and the store hold the same keys once, the
  byte count is the sum of the entries, and neither limit of the configuration is exceeded.
\<close>

theorem cache_stays_within_limits:
  "cache_ok (fold (cache_do z) ops initial_cache) \<and> within_limits (fold (cache_do z) ops initial_cache)"
proof -
  have "cache_ok initial_cache" "within_limits initial_cache"
    by (simp_all add: initial_cache_def cache_ok_def view_def within_limits_def)
  then show ?thesis
  proof (induction ops arbitrary: rule: rev_induct)
    case (snoc oper ops)
    then show ?case using cache_do_ok by simp
  qed simp
qed

section \<open>Invalidation and freshness\<close>

abbreviation no_nul :: "string \<Rightarrow> bool" where
  "no_nul d \<equiv> NUL \<notin> set d"

definition held :: "QueryCacheState \<Rightarrow> string \<Rightarrow> string \<Rightarrow> ResultSet option" where
  "held c d k = map_option en_rs (map_of (qc_store c) (compositeKey d k))"

lemma compositeKey_inject:
  "no_nul d \<Longrightarrow> no_nul d' \<Longrightarrow> compositeKey d k = compositeKey d' k' \<longleftrightarrow> d = d' \<and> k = k'"
proof (induction d arbitrary: d')
  case Nil
  then show ?case by (cases d') (auto simp: compositeKey_def)
next
  case (Cons x d)
  then show ?case by (cases d') (auto simp: compositeKey_def)
qed

lemma compositeKey_prefix:
  "no_nul d \<Longrightarrow> no_nul d' \<Longrightarrow> prefix (compositeKey d []) (compositeKey d' k) \<longleftrightarrow> d = d'"
proof (induction d arbitrary: d')
  case Nil
  then show ?case by (cases d') (auto simp: compositeKey_def)
next
  case (Cons x d)
  then show ?case by (cases d') (auto simp: compositeKey_def)
qed

lemma erase_lookup: "map_of (qc_store (eraseLocked k c)) k' = (if k' = k then None else map_of (qc_store c) k')"
  by (simp add: eraseLocked_def AList.delete_conv' split: option.split)

lemma invalidate_loop_lookup:
  "invalidate_loop pre es c = (n, c') \<Longrightarrow>
   map_of (qc_store c') k = (if prefix pre k \<and> k \<in> fst ` set es then None else map_of (qc_store c) k)"
proof (induction pre es c arbitrary: n c' rule: invalidate_loop.induct)
  case (2 pre k0 e es c)
  show ?case
  proof (cases "prefix pre k0")
    case True
    obtain m c1 where r: "invalidate_loop pre es (eraseLocked k0 c) = (m, c1)" by fastforce
    with "2.prems" True have "c' = c1" by simp
    with "2.IH"(1) [OF True r] True show ?thesis by (auto simp: erase_lookup)
  next
    case False
    then show ?thesis using "2.IH"(2) [OF False, of n c'] "2.prems" by auto
  qed
qed simp

lemma invalidate_lookup:
  assumes "qc_enabled c \<or> qc_store c = []"
  shows "map_of (qc_store (cache_invalidate d c)) k =
    (if prefix (compositeKey d []) k then None else map_of (qc_store c) k)"
proof (cases "qc_enabled c \<and> qc_store c \<noteq> []")
  case False
  then show ?thesis using assms by (auto simp: cache_invalidate_def)
next
  case True
  obtain n c' where r: "invalidate_loop (compositeKey d []) (qc_store c) c = (n, c')" by fastforce
  have "k \<notin> fst ` set (qc_store c) \<Longrightarrow> map_of (qc_store c) k = None" by (simp add: map_of_eq_None_iff)
  with invalidate_loop_lookup [OF r, of k] True r show ?thesis by (auto simp: cache_invalidate_def)
qed

theorem cache_invalidate_exact:
  assumes "qc_enabled c" and "no_nul d" and "no_nul d'"
  shows "held (cache_invalidate d c) d' k = (if d' = d then None else held c d' k)"
  using assms by (simp add: held_def invalidate_lookup compositeKey_prefix eq_commute)

text \<open>What a client of the cache relies on, and what it gets: a hit was put since the last invalidation.\<close>

locale result_cache =
  fixes invar :: "'c \<Rightarrow> bool" and named :: "string \<Rightarrow> bool"
    and held :: "'c \<Rightarrow> string \<Rightarrow> string \<Rightarrow> ResultSet option"
    and get :: "int \<Rightarrow> string \<Rightarrow> string \<Rightarrow> 'c \<Rightarrow> ResultSet option \<times> 'c"
    and put :: "int \<Rightarrow> string \<Rightarrow> string \<Rightarrow> ResultSet \<Rightarrow> 'c \<Rightarrow> 'c"
    and drop_source :: "string \<Rightarrow> 'c \<Rightarrow> 'c"
  assumes hit_held: "fst (get now d k c) = Some rs \<Longrightarrow> held c d k = Some rs"
    and get_held: "invar c \<Longrightarrow> held (snd (get now d k c)) d' k' = Some rs \<Longrightarrow> held c d' k' = Some rs"
    and put_held: "invar c \<Longrightarrow> named d \<Longrightarrow> named d' \<Longrightarrow> held (put now d k rs c) d' k' = Some rs' \<Longrightarrow>
      held c d' k' = Some rs' \<or> (d', k', rs') = (d, k, rs)"
    and drop_held: "invar c \<Longrightarrow> named d \<Longrightarrow> named d' \<Longrightarrow> held (drop_source d c) d' k' = Some rs \<Longrightarrow>
      held c d' k' = Some rs \<and> d' \<noteq> d"
begin

definition fresh :: "'c \<Rightarrow> (string \<times> string \<times> ResultSet) set \<Rightarrow> bool" where
  "fresh c M \<longleftrightarrow> (\<forall>d k rs. named d \<and> held c d k = Some rs \<longrightarrow> (d, k, rs) \<in> M)"

lemma fresh_hit: "fresh c M \<Longrightarrow> named d \<Longrightarrow> fst (get now d k c) = Some rs \<Longrightarrow> (d, k, rs) \<in> M"
  using hit_held by (auto simp: fresh_def)

lemma fresh_get: "invar c \<Longrightarrow> fresh c M \<Longrightarrow> fresh (snd (get now d k c)) M"
  using get_held by (fastforce simp: fresh_def)

lemma fresh_put:
  assumes "invar c" "fresh c M" "named d"
  shows "fresh (put now d k rs c) (insert (d, k, rs) M)"
  unfolding fresh_def
proof (intro allI impI, elim conjE)
  fix d' k' rs'
  assume "named d'" "held (put now d k rs c) d' k' = Some rs'"
  from put_held [OF assms(1,3) this] show "(d', k', rs') \<in> insert (d, k, rs) M"
    using assms(2) \<open>named d'\<close> unfolding fresh_def by blast
qed

lemma fresh_drop:
  "invar c \<Longrightarrow> fresh c M \<Longrightarrow> named d \<Longrightarrow> fresh (drop_source d c) {m \<in> M. fst m \<noteq> d}"
  unfolding fresh_def by (auto dest: drop_held)

end

definition cache_inv :: "QueryCacheState \<Rightarrow> bool" where
  "cache_inv c \<longleftrightarrow> cache_ok c \<and> within_limits c \<and> (qc_enabled c \<or> qc_store c = [])"

lemma evict_lookup: "map_of (qc_store (evictLocked b r c)) k \<in> {None, map_of (qc_store c) k}"
proof (induction b r c rule: evictLocked.induct)
  case (1 b r c)
  let ?c1 = "c\<lparr>qc_lru := butlast (qc_lru c)\<rparr>" and ?c2 = "(eraseLocked (last (qc_lru c)) c)\<lparr>evictions := evictions c + 1\<rparr>"
  consider "evictLocked b r c = c" | "evictLocked b r c = evictLocked b r ?c1" "qc_lru c \<noteq> []"
      "\<not> (\<not> tooMany r c \<and> \<not> tooBig b c)" "map_of (qc_store c) (last (qc_lru c)) = None"
    | "evictLocked b r c = evictLocked b r ?c2" "qc_lru c \<noteq> []" "\<not> (\<not> tooMany r c \<and> \<not> tooBig b c)"
      "map_of (qc_store c) (last (qc_lru c)) \<noteq> None"
    by (metis evictLocked.simps)
  then show ?case
  proof cases
    case 1
    then show ?thesis by simp
  next
    case 2
    then show ?thesis using "1.IH"(1) by simp
  next
    case 3
    then show ?thesis using "1.IH"(2) by (auto simp: erase_lookup split: if_splits)
  qed
qed

lemma put_lookup:
  assumes "map_of (qc_store (cache_put z now d k rs c)) x = Some e"
  shows "map_of (qc_store c) x = Some e \<or> x = compositeKey d k \<and> en_rs e = rs"
proof (cases "accepts z rs c")
  case False
  then have "cache_put z now d k rs c = c" by (auto simp: cache_put_def accepts_def Let_def)
  with assms show ?thesis by simp
next
  case True
  show ?thesis
  proof (cases "map_of (qc_store c) (compositeKey d k)")
    case None
    with True assms evict_lookup [of "approxBytes z rs" True c x] show ?thesis
      by (auto simp: cache_put_def accepts_def Let_def split: if_splits)
  next
    case (Some old)
    let ?c = "c\<lparr>totalBytes := totalBytes c - (if en_bytes old \<le> totalBytes c then en_bytes old else totalBytes c)
      + approxBytes z rs, qc_store := AList.update (compositeKey d k) (new_entry z now rs c) (qc_store c),
      qc_lru := to_front (compositeKey d k) (qc_lru c)\<rparr>"
    have "cache_put z now d k rs c = evictLocked 0 False ?c"
      using True Some by (auto simp: cache_put_def accepts_def new_entry_def Let_def)
    with assms evict_lookup [of 0 False ?c x] show ?thesis
      by (auto simp: update_conv' new_entry_def split: if_splits)
  qed
qed

interpretation query_cache: result_cache cache_inv no_nul held cache_get "cache_put z" cache_invalidate for z
proof unfold_locales
  fix now d k c rs d' k' rs'
  show "fst (cache_get now d k c) = Some rs \<Longrightarrow> held c d k = Some rs"
    by (auto simp: cache_get_def held_def split: if_splits option.splits)
  show "held (snd (cache_get now d k c)) d' k' = Some rs \<Longrightarrow> held c d' k' = Some rs"
    by (auto simp: cache_get_def held_def erase_lookup split: if_splits option.splits)
  show "no_nul d \<Longrightarrow> no_nul d' \<Longrightarrow> held (cache_put z now d k rs c) d' k' = Some rs' \<Longrightarrow>
      held c d' k' = Some rs' \<or> (d', k', rs') = (d, k, rs)"
    by (auto simp: held_def compositeKey_inject dest!: put_lookup)
  show "cache_inv c \<Longrightarrow> no_nul d \<Longrightarrow> no_nul d' \<Longrightarrow> held (cache_invalidate d c) d' k' = Some rs \<Longrightarrow>
      held c d' k' = Some rs \<and> d' \<noteq> d"
    by (auto simp: cache_inv_def held_def invalidate_lookup compositeKey_prefix split: if_splits)
qed

text \<open>The results put for each source since its last invalidation, and that only NUL-free names occur.\<close>

definition puts_since :: "cache_op \<Rightarrow> (string \<times> string \<times> ResultSet) set \<Rightarrow> (string \<times> string \<times> ResultSet) set" where
  "puts_since oper M =
     (case oper of
        Configure cfg \<Rightarrow> {}
      | Get now d k \<Rightarrow> M
      | Put now d k rs \<Rightarrow> insert (d, k, rs) M
      | Invalidate d \<Rightarrow> {m \<in> M. fst m \<noteq> d})"

definition op_named :: "cache_op \<Rightarrow> bool" where
  "op_named oper =
     (case oper of
        Configure cfg \<Rightarrow> True | Get now d k \<Rightarrow> no_nul d | Put now d k rs \<Rightarrow> no_nul d | Invalidate d \<Rightarrow> no_nul d)"

lemma erase_enabled [simp]: "qc_enabled (eraseLocked k c) = qc_enabled c"
  by (simp add: eraseLocked_def split: option.split)

lemma invalidate_loop_enabled: "qc_enabled (snd (invalidate_loop pre es c)) = qc_enabled c"
  by (induction pre es c rule: invalidate_loop.induct) (auto split: prod.split simp: case_prod_unfold)

lemma cache_put_off: "\<not> accepts z rs c \<Longrightarrow> cache_put z now d k rs c = c"
  by (auto simp: cache_put_def accepts_def Let_def)

lemma cache_do_inv:
  assumes "cache_inv c"
  shows "cache_inv (cache_do z oper c)"
proof -
  have ok: "cache_ok c" "within_limits c" "qc_enabled c \<or> qc_store c = []" using assms by (simp_all add: cache_inv_def)
  have "qc_enabled (cache_do z oper c) \<or> qc_store (cache_do z oper c) = []"
  proof (cases oper)
    case (Configure cfg)
    then show ?thesis by (simp add: cache_do_def cache_configure_def)
  next
    case (Get now d k)
    then show ?thesis
      using ok(3) by (auto simp: cache_do_def cache_get_def eraseLocked_def split: option.split)
  next
    case (Put now d k rs)
    then show ?thesis
      using ok put_core [OF ok(1), of z rs now d k] cache_put_off [of z rs c now d k]
      by (cases "accepts z rs c") (auto simp: cache_do_def accepts_def)
  next
    case (Invalidate d)
    then show ?thesis
      using ok(3) invalidate_loop_enabled [of "compositeKey d []" "qc_store c" c]
      by (auto simp: cache_do_def cache_invalidate_def case_prod_unfold)
  qed
  then show ?thesis using cache_do_ok [OF ok(1,2)] by (simp add: cache_inv_def)
qed

lemma cache_do_fresh:
  assumes "cache_inv c" "query_cache.fresh c M" "op_named oper"
  shows "query_cache.fresh (cache_do z oper c) (puts_since oper M)"
proof (cases oper)
  case (Configure cfg)
  then show ?thesis
    by (simp add: cache_do_def cache_configure_def puts_since_def query_cache.fresh_def held_def)
next
  case (Get now d k)
  then show ?thesis using query_cache.fresh_get [OF assms(1,2)] by (simp add: cache_do_def puts_since_def)
next
  case (Put now d k rs)
  then show ?thesis using query_cache.fresh_put [OF assms(1,2)] assms(3) by (simp add: cache_do_def puts_since_def op_named_def)
next
  case (Invalidate d)
  then show ?thesis using query_cache.fresh_drop [OF assms(1,2)] assms(3) by (simp add: cache_do_def puts_since_def op_named_def)
qed

text \<open>
  C8: In every sequence of operations a cache hit returns a result that was put for that data
  source and key since the last invalidation of that data source and the last configuration.
\<close>

theorem cache_hits_are_fresh:
  assumes "list_all op_named ops" and "no_nul d"
    and "fst (cache_get now d k (fold (cache_do z) ops initial_cache)) = Some rs"
  shows "(d, k, rs) \<in> fold puts_since ops {}"
proof -
  have init: "cache_inv initial_cache" "query_cache.fresh initial_cache {}"
    by (simp_all add: cache_inv_def cache_ok_def view_def within_limits_def initial_cache_def
        query_cache.fresh_def held_def)
  have "cache_inv (fold (cache_do z) os initial_cache) \<and>
      query_cache.fresh (fold (cache_do z) os initial_cache) (fold puts_since os {})" if "list_all op_named os" for os
    using that
  proof (induction os rule: rev_induct)
    case Nil
    then show ?case using init by simp
  next
    case (snoc oper os)
    then show ?case using cache_do_inv cache_do_fresh by simp
  qed
  with assms query_cache.fresh_hit show ?thesis by blast
qed

definition sample_cache :: QueryCacheState where
  "sample_cache = cache_configure
     \<lparr>qcc_enabled = True, ttl_ms = 1, max_entries = 2, max_memory_bytes = 0, cache_on_replica_only = False\<rparr>
     initial_cache"

definition sample_abi :: abi where
  "sample_abi = \<lparr>sizeof_string = 32, sizeof_Value = 48\<rparr>"

lemma sample_ok: "cache_ok sample_cache" "accepts sample_abi empty_rs sample_cache" "qc_enabled sample_cache"
  "ttl_ms (qc_cfg sample_cache) = 1"
  by (simp_all add: sample_cache_def cache_configure_def cache_ok_def view_def accepts_def initial_cache_def)

theorem cache_put_refines_lru_witness:
  "cache_ok sample_cache \<and> accepts sample_abi empty_rs sample_cache \<and>
   view (cache_put sample_abi 0 ''d'' ''q'' empty_rs sample_cache) =
     lru_put (qc_cfg sample_cache) (compositeKey ''d'' ''q'') (new_entry sample_abi 0 empty_rs sample_cache)
       (view sample_cache)"
  using cache_put_refines_lru [OF sample_ok(1,2)] sample_ok(1,2) by blast

theorem cache_get_after_put_witness:
  "fst (cache_get 5 ''d'' ''q'' (cache_put sample_abi 0 ''d'' ''q'' empty_rs sample_cache)) = Some empty_rs"
  using cache_get_after_put [OF sample_ok(1,2), of 5 0 "''d''" "''q''"] by (simp add: sample_ok)

theorem cache_invalidate_exact_witness:
  "qc_enabled sample_cache \<and>
   held (cache_invalidate ''d'' sample_cache) ''d'' ''q'' = None"
  using cache_invalidate_exact [OF sample_ok(3), of "''d''" "''d''" "''q''"] sample_ok(3) by simp

theorem cache_hits_are_fresh_witness:
  "\<exists>ops. list_all op_named ops \<and>
     fst (cache_get 5 ''d'' ''q'' (fold (cache_do sample_abi) ops initial_cache)) = Some empty_rs \<and>
     (''d'', ''q'', empty_rs) \<in> fold puts_since ops {}"
proof -
  let ?ops = "[Configure \<lparr>qcc_enabled = True, ttl_ms = 1, max_entries = 2, max_memory_bytes = 0,
    cache_on_replica_only = False\<rparr>, Put 0 ''d'' ''q'' empty_rs]"
  have n: "list_all op_named ?ops" "no_nul ''d''" by (simp_all add: op_named_def)
  have h: "fst (cache_get 5 ''d'' ''q'' (fold (cache_do sample_abi) ?ops initial_cache)) = Some empty_rs"
    by code_simp
  from cache_hits_are_fresh [OF n h] n(1) h show ?thesis by blast
qed

end
