(* ===== verification/SqlScript.thy ===== *)
theory SqlScript
  imports SqlDialect SqlLiterals
begin

text \<open>
  Splitting and running SQL scripts, \<^verbatim>\<open>include/sqlconduit/util.h\<close>: \<open>splitSqlScript\<close> in its three
  passes (protect literals and comments, protect compound blocks, split at what is left), and
  \<open>runScriptText\<close> and \<open>runScripts\<close> over an arbitrary client. The client and the file system are
  parameters: \<open>exec\<close> runs one statement and \<open>read_file\<close> returns the contents of a file, if it can.
\<close>

section \<open>First pass: literals and comments\<close>

datatype script_mode = Plain | InS | InD | InLine | InBlock

fun protect :: "script_mode \<Rightarrow> string \<Rightarrow> bool list" where
  "protect m [] = []"
| "protect InLine (c # cs) = True # protect (if c = NL then Plain else InLine) cs"
| "protect InBlock (c # cs) =
     (case cs of
        d # ds \<Rightarrow> if c = CHR ''*'' \<and> d = CHR ''/'' then True # True # protect Plain ds else True # protect InBlock cs
      | [] \<Rightarrow> [True])"
| "protect InS (c # cs) =
     (if c = SQ then
        (case cs of
           d # ds \<Rightarrow> if d = SQ then True # True # protect InS ds else True # protect Plain cs
         | [] \<Rightarrow> [True])
      else True # protect InS cs)"
| "protect InD (c # cs) =
     (if c = DQ then
        (case cs of
           d # ds \<Rightarrow> if d = DQ then True # True # protect InD ds else True # protect Plain cs
         | [] \<Rightarrow> [True])
      else True # protect InD cs)"
| "protect Plain (c # cs) =
     (if line_comment_at c cs then True # True # protect InLine (tl cs)
      else if c = CHR ''#'' then True # protect InLine cs
      else if block_comment_at c cs then True # True # protect InBlock (tl cs)
      else if c = SQ then True # protect InS cs
      else if c = DQ then True # protect InD cs
      else False # protect Plain cs)"

section \<open>Second pass: compound blocks\<close>

definition opens_block :: "string \<Rightarrow> bool" where
  "opens_block w \<longleftrightarrow>
     map tolower w \<in> {''begin'', ''case'', ''if'', ''loop'', ''while'', ''repeat''}"

definition closes_block :: "string \<Rightarrow> bool" where
  "closes_block w \<longleftrightarrow> map tolower w = ''end''"

definition mark :: "nat \<Rightarrow> nat \<Rightarrow> bool list \<Rightarrow> bool list" where
  "mark from to prot = map (\<lambda>(k, b). b \<or> from \<le> k \<and> k \<le> to) (enumerate 0 prot)"

lemma word_progress: "i < n \<Longrightarrow> w \<noteq> [] \<Longrightarrow> n - (i + length w) < n - i"
  by (cases w) auto

text \<open>
  The loop at index \<open>i\<close>: the stack holds the end of each opening word (the kind of the block is
  recorded in the code and never read). Closing a block protects up to and including the byte after
  \<^verbatim>\<open>END\<close>.
\<close>

function block_pass :: "string \<Rightarrow> nat \<Rightarrow> nat list \<Rightarrow> bool list \<Rightarrow> bool list" where
  "block_pass sql i stack prot =
     (if i \<ge> length sql then prot
      else if prot ! i then block_pass sql (i + 1) stack prot
      else
        (let w = takeWhile isIdent (drop i sql); j = i + length w
         in if w = [] then block_pass sql (i + 1) stack prot
            else if opens_block w then block_pass sql j (j # stack) prot
            else if closes_block w \<and> stack \<noteq> [] then block_pass sql j (tl stack) (mark (hd stack) j prot)
            else block_pass sql j stack prot))"
  by pat_completeness auto

termination
  by (relation "measure (\<lambda>(sql, i, stack, prot). length sql - i)") (auto intro: word_progress)

declare block_pass.simps [simp del]

section \<open>Third pass: splitting\<close>

fun fragments :: "string \<Rightarrow> string \<Rightarrow> bool list \<Rightarrow> string list" where
  "fragments acc (c # cs) (b # bs) =
     (if c = CHR '';'' \<and> \<not> b then acc # fragments [] cs bs else fragments (acc @ [c]) cs bs)"
| "fragments acc _ _ = [acc]"

definition trim :: "string \<Rightarrow> string" where
  "trim s = rev (dropWhile isspace (rev (dropWhile isspace s)))"

definition splitSqlScript :: "string \<Rightarrow> string list" where
  "splitSqlScript sql =
     filter (\<lambda>s. s \<noteq> []) (map trim (fragments [] sql (block_pass sql 0 [] (protect Plain sql))))"

section \<open>Running\<close>

fun run_statements :: "(string \<Rightarrow> 'st \<Rightarrow> Status \<times> 'st) \<Rightarrow> bool \<Rightarrow> string list \<Rightarrow> nat \<Rightarrow> Status \<Rightarrow> 'st \<Rightarrow>
    Status \<times> nat \<times> 'st" where
  "run_statements exec stopOnError [] done lastErr st = (lastErr, done, st)"
| "run_statements exec stopOnError (s # ss) done lastErr st =
     (case exec s st of (r, st') \<Rightarrow>
        if \<not> status_ok r
        then (if stopOnError then (r, done, st') else run_statements exec stopOnError ss done r st')
        else run_statements exec stopOnError ss (done + 1) lastErr st')"

definition runScriptText :: "(string \<Rightarrow> 'st \<Rightarrow> Status \<times> 'st) \<Rightarrow> bool \<Rightarrow> string \<Rightarrow> 'st \<Rightarrow> Status \<times> nat \<times> 'st" where
  "runScriptText exec stopOnError sql st = run_statements exec stopOnError (splitSqlScript sql) 0 OK st"

record ScriptResult =
  sr_path :: string
  sr_status :: Status
  sr_statements :: nat
  sr_executed :: nat

definition cannot_read :: "string \<Rightarrow> Status" where
  "cannot_read f = error IoError (''sqlconduit::util: cannot read file: '' @ f)"

fun run_files :: "(string \<Rightarrow> 'st \<Rightarrow> Status \<times> 'st) \<Rightarrow> (string \<Rightarrow> string option) \<Rightarrow> bool \<Rightarrow> string list \<Rightarrow>
    ScriptResult list \<Rightarrow> bool \<Rightarrow> Status \<Rightarrow> 'st \<Rightarrow> Status \<times> ScriptResult list \<times> 'st" where
  "run_files exec read_file stopOnError [] perFile anyFail lastErr st =
     ((if anyFail then lastErr else OK), perFile, st)"
| "run_files exec read_file stopOnError (f # fs) perFile anyFail lastErr st =
     (case read_file f of
        None \<Rightarrow>
          (let r = \<lparr>sr_path = f, sr_status = cannot_read f, sr_statements = 0, sr_executed = 0\<rparr>
           in if stopOnError then (cannot_read f, perFile @ [r], st)
              else run_files exec read_file stopOnError fs (perFile @ [r]) True (cannot_read f) st)
      | Some content \<Rightarrow>
          (case runScriptText exec stopOnError content st of (s, done, st') \<Rightarrow>
             (let r = \<lparr>sr_path = f, sr_status = s, sr_statements = length (splitSqlScript content),
                       sr_executed = done\<rparr>
              in if \<not> status_ok s
                 then (if stopOnError then (s, perFile @ [r], st')
                       else run_files exec read_file stopOnError fs (perFile @ [r]) True s st')
                 else run_files exec read_file stopOnError fs (perFile @ [r]) anyFail lastErr st')))"

definition runScripts :: "(string \<Rightarrow> 'st \<Rightarrow> Status \<times> 'st) \<Rightarrow> (string \<Rightarrow> string option) \<Rightarrow> bool \<Rightarrow> string list \<Rightarrow>
    'st \<Rightarrow> Status \<times> ScriptResult list \<times> 'st" where
  "runScripts exec read_file stopOnError files st = run_files exec read_file stopOnError files [] False OK st"

definition endsWith :: "string \<Rightarrow> string \<Rightarrow> bool" where
  "endsWith s suf \<longleftrightarrow> length suf \<le> length s \<and> drop (length s - length suf) s = suf"

section \<open>Nothing is lost\<close>

fun join_semi :: "string list \<Rightarrow> string" where
  "join_semi [] = []"
| "join_semi [s] = s"
| "join_semi (s # ss) = s @ CHR '';'' # join_semi ss"

lemma fragments_nonempty: "fragments acc cs bs \<noteq> []"
  by (induction acc cs bs rule: fragments.induct) auto

lemma join_semi_Cons: "ss \<noteq> [] \<Longrightarrow> join_semi (s # ss) = s @ CHR '';'' # join_semi ss"
  by (cases ss) auto

lemma fragments_join: "length bs = length cs \<Longrightarrow> join_semi (fragments acc cs bs) = acc @ cs"
  by (induction acc cs bs rule: fragments.induct) (auto simp: join_semi_Cons fragments_nonempty)

lemma length_protect: "length (protect m s) = length s"
proof (induction m s rule: protect.induct)
  case (6 c cs)
  then show ?case by (cases cs) (auto simp: line_comment_at_def block_comment_at_def)
qed (auto split: list.splits)

lemma length_mark [simp]: "length (mark a b prot) = length prot"
  by (simp add: mark_def)

lemma length_block_pass: "length (block_pass sql i stack prot) = length prot"
proof (induction sql i stack prot rule: block_pass.induct)
  case (1 sql i stack prot)
  then show ?case by (subst block_pass.simps) (simp add: Let_def)
qed

theorem splitSqlScript_keeps_text:
  "\<exists>frs. join_semi frs = sql \<and> splitSqlScript sql = filter (\<lambda>s. s \<noteq> []) (map trim frs)"
  unfolding splitSqlScript_def
  by (rule exI [of _ "fragments [] sql (block_pass sql 0 [] (protect Plain sql))"])
    (simp add: fragments_join length_block_pass length_protect)

section \<open>Statements without blocks\<close>


text \<open>Text between literals: no quote, no separator, no comment, no word that opens a block.\<close>

fun script_plain :: "string \<Rightarrow> bool" where
  "script_plain [] = True"
| "script_plain (c # cs) \<longleftrightarrow>
     c \<notin> {SQ, DQ, CHR ''#'', CHR '';''} \<and> \<not> line_comment_at c cs \<and> \<not> block_comment_at c cs \<and> script_plain cs"

function no_opener :: "string \<Rightarrow> bool" where
  "no_opener [] = True"
| "no_opener (c # cs) \<longleftrightarrow>
     (if isIdent c then \<not> opens_block (takeWhile isIdent (c # cs)) \<and> no_opener (dropWhile isIdent cs)
      else no_opener cs)"
  by pat_completeness auto

termination
  by (relation "measure length") (auto simp: less_Suc_eq_le length_dropWhile_le)

fun script_stmt :: "string \<Rightarrow> (string \<times> string) list \<Rightarrow> bool" where
  "script_stmt p [] \<longleftrightarrow> script_plain p \<and> no_opener p"
| "script_stmt p ((v, p') # vs) \<longleftrightarrow>
     script_plain p \<and> no_opener p \<and> (vs \<noteq> [] \<longrightarrow> p' \<noteq> []) \<and> script_stmt p' vs"

fun stmt_prot :: "string \<Rightarrow> (string \<times> string) list \<Rightarrow> bool list" where
  "stmt_prot p [] = replicate (length p) False"
| "stmt_prot p ((v, p') # vs) =
     replicate (length p) False @ replicate (length (quoteStringLiteral v)) True @ stmt_prot p' vs"

lemma protect_plain:
  assumes "script_plain p" "rest = [] \<or> hd rest \<in> {SQ, CHR '';''}"
  shows "protect Plain (p @ rest) = replicate (length p) False @ protect Plain rest"
  using assms
proof (induction p)
  case (Cons c cs)
  have "\<not> line_comment_at c (cs @ rest)" "\<not> block_comment_at c (cs @ rest)"
    using Cons.prems by (cases cs; cases rest; auto simp: line_comment_at_def block_comment_at_def)+
  with Cons show ?case by simp
qed simp

lemma protect_literal_body:
  assumes "rest = [] \<or> hd rest \<noteq> SQ"
  shows "protect InS (double_quote SQ v @ SQ # rest) =
    replicate (length (double_quote SQ v) + 1) True @ protect Plain rest"
  using assms
proof (induction v)
  case Nil
  then show ?case by (cases rest) auto
qed auto

lemma protect_literal:
  assumes "rest = [] \<or> hd rest \<noteq> SQ"
  shows "protect Plain (quoteStringLiteral v @ rest) =
    replicate (length (quoteStringLiteral v)) True @ protect Plain rest"
  using protect_literal_body [OF assms, of v]
  by (simp add: quoteStringLiteral_def line_comment_at_def block_comment_at_def)

lemma script_plain_hd: "script_plain p \<Longrightarrow> p \<noteq> [] \<Longrightarrow> hd p \<notin> {SQ, CHR '';''}"
  by (cases p) auto

lemma sql_text_hd:
  assumes "script_stmt p vs" "rest = [] \<or> hd rest = CHR '';''" "vs \<noteq> [] \<longrightarrow> p \<noteq> []"
  shows "sql_text p vs @ rest = [] \<or> hd (sql_text p vs @ rest) \<noteq> SQ"
  using assms by (cases p; cases vs; cases rest) auto

lemma protect_stmt:
  assumes "script_stmt p vs" "rest = [] \<or> hd rest = CHR '';''"
  shows "protect Plain (sql_text p vs @ rest) = stmt_prot p vs @ protect Plain rest"
  using assms
proof (induction p vs rule: script_stmt.induct)
  case (1 p)
  then show ?case using protect_plain [of p rest] by auto
next
  case (2 p v p' vs)
  have "protect Plain (p @ quoteStringLiteral v @ sql_text p' vs @ rest) =
      replicate (length p) False @ protect Plain (quoteStringLiteral v @ sql_text p' vs @ rest)"
    using 2 by (intro protect_plain) (auto simp: quoteStringLiteral_def)
  also have "protect Plain (quoteStringLiteral v @ sql_text p' vs @ rest) =
      replicate (length (quoteStringLiteral v)) True @ protect Plain (sql_text p' vs @ rest)"
    using 2 sql_text_hd [of p' vs rest] by (intro protect_literal) auto
  finally show ?case using 2 by simp
qed

lemma length_stmt_prot: "length (stmt_prot p vs) = length (sql_text p vs)"
  by (induction p vs rule: stmt_prot.induct) auto

lemma fragments_plain:
  "CHR '';'' \<notin> set p \<Longrightarrow> fragments acc (p @ cs) (replicate (length p) False @ bs) = fragments (acc @ p) cs bs"
  by (induction p arbitrary: acc) auto

lemma fragments_protected:
  "fragments acc (p @ cs) (replicate (length p) True @ bs) = fragments (acc @ p) cs bs"
  by (induction p arbitrary: acc) auto

lemma script_plain_semi: "script_plain p \<Longrightarrow> CHR '';'' \<notin> set p"
  by (induction p) auto

lemma fragments_stmt:
  "script_stmt p vs \<Longrightarrow> fragments acc (sql_text p vs @ rest) (stmt_prot p vs @ bs) = fragments (acc @ sql_text p vs) rest bs"
proof (induction p vs arbitrary: acc rule: script_stmt.induct)
  case (1 p)
  then show ?case by (simp add: fragments_plain script_plain_semi)
next
  case (2 p v p' vs)
  then show ?case by (simp add: fragments_plain fragments_protected script_plain_semi)
qed

lemma block_pass_skip:
  assumes "length pb = length pre"
  shows "block_pass (pre @ q @ rest) (length pre) [] (pb @ replicate (length q) True @ bs) =
    block_pass (pre @ q @ rest) (length pre + length q) [] (pb @ replicate (length q) True @ bs)"
  using assms
proof (induction q arbitrary: pre pb)
  case (Cons c q)
  have "block_pass (pre @ (c # q) @ rest) (length pre) [] (pb @ replicate (length (c # q)) True @ bs) =
      block_pass (pre @ (c # q) @ rest) (length pre + 1) [] (pb @ replicate (length (c # q)) True @ bs)"
    using Cons.prems by (subst block_pass.simps) (simp add: nth_append)
  then show ?case using Cons.IH [of "pb @ [True]" "pre @ [c]"] Cons.prems by simp
qed simp

lemma block_pass_step:
  assumes "length pb = length pre" "w \<noteq> []" "list_all isIdent w" "rest = [] \<or> \<not> isIdent (hd rest)" "\<not> opens_block w"
    "length bs = length rest"
  shows "block_pass (pre @ w @ rest) (length pre) [] (pb @ replicate (length w) False @ bs) =
    block_pass (pre @ w @ rest) (length pre + length w) [] (pb @ replicate (length w) False @ bs)"
proof -
  have tw: "takeWhile isIdent (w @ rest) = w"
    using assms(3,4) by (cases rest) (auto simp: list_all_iff takeWhile_append)
  have f: "\<not> (pb @ replicate (length w) False @ bs) ! length pre" using assms(1,2) by (cases w) (auto simp: nth_append)
  show ?thesis
    by (subst block_pass.simps) (use assms(2,5) f in \<open>simp add: tw Let_def\<close>)
qed

lemma block_pass_plain:
  assumes "length pb = length pre" "no_opener p" "rest = [] \<or> \<not> isIdent (hd rest)" "length bs = length rest"
  shows "block_pass (pre @ p @ rest) (length pre) [] (pb @ replicate (length p) False @ bs) =
    block_pass (pre @ p @ rest) (length pre + length p) [] (pb @ replicate (length p) False @ bs)"
  using assms
proof (induction p arbitrary: pre pb rule: no_opener.induct)
  case (2 c cs)
  show ?case
  proof (cases "isIdent c")
    case True
    define w where "w = takeWhile isIdent (c # cs)"
    define r where "r = dropWhile isIdent cs"
    have s: "c # cs = w @ r" using True by (simp add: w_def r_def)
    have w: "w \<noteq> []" "list_all isIdent w" "\<not> opens_block w"
      using True "2.prems"(2) by (auto simp: w_def list_all_iff dest: set_takeWhileD)
    have b: "r @ rest = [] \<or> \<not> isIdent (hd (r @ rest))"
      using "2.prems"(3) hd_dropWhile [of isIdent cs] by (auto simp: r_def hd_append)
    have step: "block_pass (pre @ w @ r @ rest) (length pre) [] (pb @ replicate (length w) False @ replicate (length r) False @ bs) =
        block_pass (pre @ w @ r @ rest) (length pre + length w) [] (pb @ replicate (length w) False @ replicate (length r) False @ bs)"
      by (rule block_pass_step) (use "2.prems"(1,4) w b in simp_all)
    have "no_opener r" using "2.prems"(2) True by (simp add: r_def)
    with "2.IH"(1) [OF True, folded r_def, of "pb @ replicate (length w) False" "pre @ w"] "2.prems"
    have IH: "block_pass (pre @ w @ r @ rest) (length pre + length w) [] (pb @ replicate (length w) False @ replicate (length r) False @ bs) =
        block_pass (pre @ w @ r @ rest) (length pre + length w + length r) [] (pb @ replicate (length w) False @ replicate (length r) False @ bs)"
      by simp
    show ?thesis unfolding s length_append replicate_add append_assoc step IH add.assoc ..
  next
    case False
    have "block_pass (pre @ (c # cs) @ rest) (length pre) [] (pb @ replicate (length (c # cs)) False @ bs) =
        block_pass (pre @ (c # cs) @ rest) (length pre + 1) [] (pb @ replicate (length (c # cs)) False @ bs)"
      using "2.prems"(1) False by (subst block_pass.simps) (simp add: nth_append Let_def)
    then show ?thesis using "2.IH"(2) [OF False, of "pb @ [False]" "pre @ [c]"] "2.prems" False by simp
  qed
qed simp

lemma not_ident [simp]: "\<not> isIdent SQ" "\<not> isIdent CHR '';''"
  by (simp_all add: isIdent_def isalnum_def isalpha_def isdigit_def isupper_def islower_def)

lemma block_pass_stmt:
  assumes "length pb = length pre" "script_stmt p vs" "rest = [] \<or> hd rest = CHR '';''" "length bs = length rest"
  shows "block_pass (pre @ sql_text p vs @ rest) (length pre) [] (pb @ stmt_prot p vs @ bs) =
    block_pass (pre @ sql_text p vs @ rest) (length pre + length (sql_text p vs)) [] (pb @ stmt_prot p vs @ bs)"
  using assms(1,2)
proof (induction p vs arbitrary: pre pb rule: script_stmt.induct)
  case (1 p)
  then show ?case using block_pass_plain [of pb pre p rest bs] assms(3,4) by auto
next
  case (2 p v p' vs)
  let ?q = "quoteStringLiteral v" and ?t = "sql_text p' vs" and ?m = "stmt_prot p' vs"
  have q: "?q @ ?t @ rest = [] \<or> \<not> isIdent (hd (?q @ ?t @ rest))" by (simp add: quoteStringLiteral_def)
  let ?sql = "pre @ p @ ?q @ ?t @ rest"
    and ?prot = "pb @ replicate (length p) False @ replicate (length ?q) True @ ?m @ bs"
  have "block_pass ?sql (length pre) [] ?prot = block_pass ?sql (length pre + length p) [] ?prot"
    using block_pass_plain [OF "2.prems"(1) _ q, of p "replicate (length ?q) True @ ?m @ bs"] 2 assms(4)
    by (simp add: length_stmt_prot)
  also have "\<dots> = block_pass ?sql (length pre + length p + length ?q) [] ?prot"
    using block_pass_skip [of "pb @ replicate (length p) False" "pre @ p" ?q "?t @ rest" "?m @ bs"] "2.prems"(1) by simp
  also have "\<dots> = block_pass ?sql (length pre + length p + length ?q + length ?t) [] ?prot"
    using "2.IH" [of "pb @ replicate (length p) False @ replicate (length ?q) True" "pre @ p @ ?q"] 2
    by (simp add: add.assoc)
  finally show ?case by (simp add: add.assoc)
qed

definition script_of :: "(string \<times> (string \<times> string) list) list \<Rightarrow> string" where
  "script_of ss = join_semi (map (\<lambda>(p, vs). sql_text p vs) ss)"

lemma script_of_Cons: "ss \<noteq> [] \<Longrightarrow> script_of ((p, vs) # ss) = sql_text p vs @ CHR '';'' # script_of ss"
  by (simp add: script_of_def join_semi_Cons)

lemma protect_semi: "protect Plain (CHR '';'' # s) = False # protect Plain s"
  by (simp add: line_comment_at_def block_comment_at_def)

lemma block_pass_semi:
  assumes "length pb = length pre"
  shows "block_pass (pre @ CHR '';'' # rest) (length pre) [] (pb @ False # bs) =
    block_pass (pre @ CHR '';'' # rest) (length pre + 1) [] (pb @ False # bs)"
  by (subst block_pass.simps) (use assms in \<open>simp add: nth_append Let_def\<close>)

lemma block_pass_script:
  assumes "length pb = length pre" "list_all (\<lambda>(p, vs). script_stmt p vs) ss" "ss \<noteq> []"
  shows "block_pass (pre @ script_of ss) (length pre) [] (pb @ protect Plain (script_of ss)) =
    pb @ protect Plain (script_of ss)"
  using assms
proof (induction ss arbitrary: pre pb)
  case (Cons s ss)
  obtain p vs where s: "s = (p, vs)" by fastforce
  have ok: "script_stmt p vs" using Cons.prems s by simp
  show ?case
  proof (cases "ss = []")
    case True
    then have t: "script_of (s # ss) = sql_text p vs" by (simp add: s script_of_def)
    show ?thesis
      unfolding t using block_pass_stmt [OF Cons.prems(1) ok, of "[]" "[]"] protect_stmt [OF ok, of "[]"] Cons.prems(1)
      by (simp add: block_pass.simps [of _ "length pre + length (sql_text p vs)"])
  next
    case False
    let ?t = "sql_text p vs" and ?r = "script_of ss"
    have sc: "script_of (s # ss) = ?t @ CHR '';'' # ?r" using False by (simp add: s script_of_Cons)
    have pr: "protect Plain (?t @ CHR '';'' # ?r) = stmt_prot p vs @ False # protect Plain ?r"
      using protect_stmt [OF ok, of "CHR '';'' # ?r"] by (simp only: protect_semi list.sel simp_thms)
    have "block_pass (pre @ ?t @ CHR '';'' # ?r) (length pre) [] (pb @ stmt_prot p vs @ False # protect Plain ?r) =
        block_pass (pre @ ?t @ CHR '';'' # ?r) (length pre + length ?t) [] (pb @ stmt_prot p vs @ False # protect Plain ?r)"
      using block_pass_stmt [OF Cons.prems(1) ok] by (simp add: length_protect)
    also have "\<dots> = block_pass (pre @ ?t @ CHR '';'' # ?r) (length pre + length ?t + 1) []
        (pb @ stmt_prot p vs @ False # protect Plain ?r)"
      using block_pass_semi [of "pb @ stmt_prot p vs" "pre @ ?t"] Cons.prems(1) by (simp add: length_stmt_prot)
    also have "\<dots> = pb @ stmt_prot p vs @ False # protect Plain ?r"
      using Cons.IH [of "pb @ stmt_prot p vs @ [False]" "pre @ ?t @ [CHR '';'']"] Cons.prems False
      by (simp add: length_stmt_prot)
    finally show ?thesis unfolding sc pr .
  qed
qed simp

lemma fragments_script:
  assumes "list_all (\<lambda>(p, vs). script_stmt p vs) ss" "ss \<noteq> []"
  shows "fragments [] (script_of ss) (protect Plain (script_of ss)) = map (\<lambda>(p, vs). sql_text p vs) ss"
  using assms
proof (induction ss)
  case (Cons s ss)
  obtain p vs where s: "s = (p, vs)" by fastforce
  have ok: "script_stmt p vs" using Cons.prems s by simp
  show ?case
  proof (cases "ss = []")
    case True
    then show ?thesis
      using fragments_stmt [OF ok, of "[]" "[]" "[]"] protect_stmt [OF ok, of "[]"] by (simp add: s script_of_def)
  next
    case False
    have "protect Plain (sql_text p vs @ CHR '';'' # script_of ss) = stmt_prot p vs @ False # protect Plain (script_of ss)"
      using protect_stmt [OF ok, of "CHR '';'' # script_of ss"] by (simp only: protect_semi list.sel simp_thms)
    then show ?thesis using Cons False fragments_stmt [OF ok, of "[]"] by (simp add: s script_of_Cons)
  qed
qed simp

definition trimmed :: "string \<Rightarrow> bool" where
  "trimmed s \<longleftrightarrow> s \<noteq> [] \<and> \<not> isspace (hd s) \<and> \<not> isspace (last s)"

lemma trim_trimmed: "trimmed s \<Longrightarrow> trim s = s"
proof -
  assume t: "trimmed s"
  have "dropWhile isspace s = s" using t by (cases s) (auto simp: trimmed_def)
  moreover have "dropWhile isspace (rev s) = rev s" using t by (cases "rev s") (auto simp: trimmed_def last_rev hd_rev)
  ultimately show ?thesis by (simp add: trim_def)
qed

text \<open>
  C21: A script of statements joined by semicolons splits back into its statements, whatever
  semicolons, keywords and quotes their string literals contain, provided each statement is not
  empty, has no white space at its ends, has text between two literals and, outside its
  literals, contains no comments, double quotes, hash signs or semicolons and none of the words
  BEGIN, CASE, IF, LOOP, WHILE and REPEAT.
\<close>

theorem splitSqlScript_roundtrip:
  assumes "list_all (\<lambda>(p, vs). script_stmt p vs \<and> trimmed (sql_text p vs)) ss" and "ss \<noteq> []"
  shows "splitSqlScript (script_of ss) = map (\<lambda>(p, vs). sql_text p vs) ss"
proof -
  have ok: "list_all (\<lambda>(p, vs). script_stmt p vs) ss" and tr: "\<forall>(p, vs) \<in> set ss. trimmed (sql_text p vs)"
    using assms(1) by (auto simp: list_all_iff)
  have "block_pass (script_of ss) 0 [] (protect Plain (script_of ss)) = protect Plain (script_of ss)"
    using block_pass_script [OF _ ok assms(2), of "[]" "[]"] by simp
  then have "splitSqlScript (script_of ss) =
      filter (\<lambda>s. s \<noteq> []) (map trim (map (\<lambda>(p, vs). sql_text p vs) ss))"
    by (simp add: splitSqlScript_def fragments_script [OF ok assms(2)])
  also have "map trim (map (\<lambda>(p, vs). sql_text p vs) ss) = map (\<lambda>(p, vs). sql_text p vs) ss"
    using tr by (auto intro!: trim_trimmed)
  also have "filter (\<lambda>s. s \<noteq> []) (map (\<lambda>(p, vs). sql_text p vs) ss) = map (\<lambda>(p, vs). sql_text p vs) ss"
    using tr by (intro filter_True) (auto simp: trimmed_def)
  finally show ?thesis .
qed

theorem splitSqlScript_roundtrip_witness:
  "list_all (\<lambda>(p, vs). script_stmt p vs \<and> trimmed (sql_text p vs)) [(''a='', [(''x;'', [])]), (''b'', [])] \<and>
   splitSqlScript (script_of [(''a='', [(''x;'', [])]), (''b'', [])]) =
     map (\<lambda>(p, vs). sql_text p vs) [(''a='', [(''x;'', [])]), (''b'', [])]"
proof -
  have h: "list_all (\<lambda>(p, vs). script_stmt p vs \<and> trimmed (sql_text p vs)) [(''a='', [(''x;'', [])]), (''b'', [])]"
    by code_simp
  show ?thesis by (rule conjI [OF h splitSqlScript_roundtrip [OF h]]) simp
qed

section \<open>Compound blocks\<close>

text \<open>
  What the block pass does around \<^verbatim>\<open>END\<close>: the separator right after it is protected, so the next
  statement of the script stays attached; and \<^verbatim>\<open>END IF\<close> opens another block, so the text between the
  outer \<^verbatim>\<open>BEGIN\<close> and the first inner block is left unprotected and is split.
\<close>

theorem splitSqlScript_end_separator:
  "splitSqlScript ''begin x; end; y'' = [''begin x; end; y''] \<and>
   splitSqlScript ''begin x; end ; y'' = [''begin x; end'', ''y'']"
  by (rule conjI; code_simp)

theorem splitSqlScript_end_if:
  "splitSqlScript ''begin x; if a then b; end if; end'' = [''begin x'', ''if a then b; end if; end'']"
  by code_simp

section \<open>Running a script\<close>

fun ran_ok :: "(string \<Rightarrow> 'st \<Rightarrow> Status \<times> 'st) \<Rightarrow> string list \<Rightarrow> 'st \<Rightarrow> 'st \<Rightarrow> bool" where
  "ran_ok exec [] st st' \<longleftrightarrow> st = st'"
| "ran_ok exec (s # ss) st st' \<longleftrightarrow> status_ok (fst (exec s st)) \<and> ran_ok exec ss (snd (exec s st)) st'"

lemma run_statements_stop:
  assumes "run_statements exec True ss d OK st = (r, done, st')"
  shows "status_ok r \<and> done = d + length ss \<and> ran_ok exec ss st st' \<or>
    (\<exists>pre s post st1. ss = pre @ s # post \<and> done = d + length pre \<and> ran_ok exec pre st st1 \<and>
       exec s st1 = (r, st') \<and> \<not> status_ok r)"
  using assms
proof (induction ss arbitrary: d st)
  case Nil
  then show ?case by (auto simp: status_ok_def OK_def)
next
  case (Cons s ss)
  obtain r1 st1 where e: "exec s st = (r1, st1)" by fastforce
  show ?case
  proof (cases "status_ok r1")
    case False
    then have "exec s st = (r, st') \<and> \<not> status_ok r \<and> done = d" using Cons.prems e by simp
    then show ?thesis by (intro disjI2 exI [of _ "[]"] exI [of _ s] exI [of _ ss] exI [of _ st]) simp
  next
    case True
    with Cons.prems e have run: "run_statements exec True ss (d + 1) OK st1 = (r, done, st')" by simp
    from Cons.IH [OF this] show ?thesis
    proof
      assume "status_ok r \<and> done = d + 1 + length ss \<and> ran_ok exec ss st1 st'"
      then show ?thesis using True e by simp
    next
      assume "\<exists>pre s post st2. ss = pre @ s # post \<and> done = d + 1 + length pre \<and> ran_ok exec pre st1 st2 \<and>
        exec s st2 = (r, st') \<and> \<not> status_ok r"
      then obtain pre u post st2 where "ss = pre @ u # post" "done = d + 1 + length pre" "ran_ok exec pre st1 st2"
        "exec u st2 = (r, st')" "\<not> status_ok r" by blast
      then show ?thesis using True e
        by (intro disjI2 exI [of _ "s # pre"] exI [of _ u] exI [of _ post] exI [of _ st2]) simp
    qed
  qed
qed

text \<open>
  Running a script that stops on error executes the statements in order, up to and including the
  first that fails, reports that failure and counts the ones before it; without a failure it
  executes all of them.
\<close>

theorem runScriptText_stops_at_first_error:
  assumes "runScriptText exec True sql st = (r, done, st')"
  shows "status_ok r \<and> done = length (splitSqlScript sql) \<and> ran_ok exec (splitSqlScript sql) st st' \<or>
    (\<exists>pre s post st1. splitSqlScript sql = pre @ s # post \<and> done = length pre \<and> ran_ok exec pre st st1 \<and>
       exec s st1 = (r, st') \<and> \<not> status_ok r)"
  using run_statements_stop [of exec "splitSqlScript sql" 0] assms by (simp add: runScriptText_def)

theorem runScriptText_stops_at_first_error_witness:
  "\<exists>r done st'. runScriptText (\<lambda>s n. (OK, n + 1)) True ''a;b'' (0 :: nat) = (r, done, st') \<and> done = 2 \<and> st' = 2"
proof -
  obtain r dn st' where x: "runScriptText (\<lambda>s n. (OK, n + 1)) True ''a;b'' (0 :: nat) = (r, dn, st')"
    by (metis prod_cases3)
  have ss: "splitSqlScript ''a;b'' = [''a'', ''b'']" by code_simp
  from runScriptText_stops_at_first_error [OF x] have "dn = 2 \<and> st' = 2"
    unfolding ss by (auto simp: status_ok_def OK_def Cons_eq_append_conv)
  with x show ?thesis by blast
qed

end
