(* ===== verification/SqlBuilder.thy ===== *)
theory SqlBuilder
  imports SqlDialect SqlLiterals
begin

text \<open>
  The statement builder, \<^verbatim>\<open>src/common/sql_builder.cpp\<close> and \<^verbatim>\<open>include/sqlconduit/sql_builder.h\<close>.

  A \<open>Condition\<close> can only be made by its factories, so each kind carries exactly the data its factory
  stores. Rendering appends to the text and the parameters; here it returns what it appends, or the
  error. A failed \<open>build\<close> leaves a partial statement behind that callers must not read: it is not
  part of the result here. Constructor names that clash carry a prefix (\<open>C\<close> for the kinds of a
  condition, \<open>B\<close> for the operations).
\<close>

section \<open>Conditions\<close>

datatype BOperation = BSelect | BInsert | BUpdate | BDelete

datatype CompareOperator = Equal | NotEqual | Less | LessOrEqual | Greater | GreaterOrEqual | Like

datatype SortDirection = Ascending | Descending

datatype Condition =
    CInvalid
  | CCompare string CompareOperator Value
  | CIn string Params
  | CNotIn string Params
  | CBetween string Value Value
  | CIsNull string
  | CIsNotNull string
  | CAll "Condition list"
  | CAny "Condition list"
  | CNot Condition

definition builder_error :: "string \<Rightarrow> Status" where
  "builder_error msg = error QueryError (''sql builder: '' @ msg)"

lemma drop_part_less: "s \<noteq> [] \<Longrightarrow> length (tl (dropWhile P s)) < length s"
proof -
  assume "s \<noteq> []"
  then have "0 < length s" by simp
  with length_dropWhile_le [of P s] show ?thesis unfolding length_tl by linarith
qed

function valid_parts :: "string \<Rightarrow> bool" where
  "valid_parts s =
     (if s = [] then True
      else (let part = takeWhile (\<lambda>c. c \<noteq> CHR ''.'') s
            in part \<noteq> [] \<and> part \<noteq> ''*'' \<and> list_all (\<lambda>c. byte c \<ge> 32) part \<and>
               valid_parts (tl (dropWhile (\<lambda>c. c \<noteq> CHR ''.'') s))))"
  by pat_completeness auto

termination
  by (relation "measure length") (simp_all add: drop_part_less del: length_tl)

declare valid_parts.simps [simp del]

definition validIdentifier :: "string \<Rightarrow> bool" where
  "validIdentifier s \<longleftrightarrow> s \<noteq> [] \<and> NUL \<notin> set s \<and> valid_parts s \<and> last s \<noteq> CHR ''.''"

definition validDialect :: "Dialect \<Rightarrow> bool" where
  "validDialect d \<longleftrightarrow> d = Auto \<or> d = MySQL \<or> d = Postgres \<or> d = SqlServer \<or> d = Oracle"

definition compareText :: "CompareOperator \<Rightarrow> string" where
  "compareText oper =
     (case oper of Equal \<Rightarrow> ''='' | NotEqual \<Rightarrow> ''<>'' | Less \<Rightarrow> ''<'' | LessOrEqual \<Rightarrow> ''<=''
      | Greater \<Rightarrow> ''>'' | GreaterOrEqual \<Rightarrow> ''>='' | Like \<Rightarrow> ''LIKE'')"

definition bad_field :: Status where
  "bad_field = builder_error ''condition field is empty or invalid''"

fun renderCondition :: "Dialect \<Rightarrow> bool \<Rightarrow> Condition \<Rightarrow> Status + (string \<times> Params)"
  and render_children :: "Dialect \<Rightarrow> string \<Rightarrow> Condition list \<Rightarrow> Status + (string \<times> Params)" where
  "renderCondition d nested (CCompare f oper v) =
     (if \<not> validIdentifier f then Inl bad_field
      else if v = VNull then
        (case oper of
           Equal \<Rightarrow> Inr (quoteIdent f d @ '' IS NULL'', [])
         | NotEqual \<Rightarrow> Inr (quoteIdent f d @ '' IS NOT NULL'', [])
         | _ \<Rightarrow> Inl (builder_error ''NULL supports only equality and inequality comparisons''))
      else Inr (quoteIdent f d @ '' '' @ compareText oper @ '' ?'', [v]))"
| "renderCondition d nested (CIn f vs) =
     (if \<not> validIdentifier f then Inl bad_field
      else if vs = [] then Inr (''1 = 0'', [])
      else Inr (quoteIdent f d @ '' IN ('' @ csvArgs (length vs) @ '')'', vs))"
| "renderCondition d nested (CNotIn f vs) =
     (if \<not> validIdentifier f then Inl bad_field
      else if vs = [] then Inr (''1 = 1'', [])
      else Inr (quoteIdent f d @ '' NOT IN ('' @ csvArgs (length vs) @ '')'', vs))"
| "renderCondition d nested (CBetween f lo hi) =
     (if \<not> validIdentifier f then Inl bad_field
      else if lo = VNull \<or> hi = VNull then Inl (builder_error ''BETWEEN requires two non-NULL values'')
      else Inr (quoteIdent f d @ '' BETWEEN ? AND ?'', [lo, hi]))"
| "renderCondition d nested (CIsNull f) =
     (if \<not> validIdentifier f then Inl bad_field else Inr (quoteIdent f d @ '' IS NULL'', []))"
| "renderCondition d nested (CIsNotNull f) =
     (if \<not> validIdentifier f then Inl bad_field else Inr (quoteIdent f d @ '' IS NOT NULL'', []))"
| "renderCondition d nested (CAll cs) =
     (if cs = [] then Inl (builder_error ''condition group cannot be empty'')
      else case render_children d '' AND '' cs of
        Inl st \<Rightarrow> Inl st
      | Inr (t, ps) \<Rightarrow> Inr (if nested then ''('' @ t @ '')'' else t, ps))"
| "renderCondition d nested (CAny cs) =
     (if cs = [] then Inl (builder_error ''condition group cannot be empty'')
      else case render_children d '' OR '' cs of
        Inl st \<Rightarrow> Inl st
      | Inr (t, ps) \<Rightarrow> Inr (if nested then ''('' @ t @ '')'' else t, ps))"
| "renderCondition d nested (CNot c) =
     (case renderCondition d False c of
        Inl st \<Rightarrow> Inl st
      | Inr (t, ps) \<Rightarrow> Inr (''NOT ('' @ t @ '')'', ps))"
| "renderCondition d nested CInvalid = Inl (builder_error ''condition is empty'')"
| "render_children d sep [] = Inr ([], [])"
| "render_children d sep [c] = renderCondition d True c"
| "render_children d sep (c # cs) =
     (case renderCondition d True c of
        Inl st \<Rightarrow> Inl st
      | Inr (t, ps) \<Rightarrow>
          (case render_children d sep cs of
             Inl st \<Rightarrow> Inl st
           | Inr (t', ps') \<Rightarrow> Inr (t @ sep @ t', ps @ ps')))"

definition appendWhere :: "Condition list \<Rightarrow> Dialect \<Rightarrow> Status + (string \<times> Params)" where
  "appendWhere conditions d =
     (if conditions = [] then Inr ([], [])
      else case renderCondition d False (CAll conditions) of
        Inl st \<Rightarrow> Inl st
      | Inr (t, ps) \<Rightarrow> Inr ('' WHERE '' @ t, ps))"

section \<open>The builder\<close>

record Builder =
  b_operation :: BOperation
  b_table :: string
  b_dialect :: Dialect
  b_columns :: "string list"
  b_values :: "(string \<times> Value) list"
  b_conditions :: "Condition list"
  b_orderings :: "(string \<times> SortDirection) list"
  b_specificationError :: string
  b_allowAllRows :: bool

definition new_builder :: "BOperation \<Rightarrow> string \<Rightarrow> Dialect \<Rightarrow> Builder" where
  "new_builder oper table d =
     \<lparr>b_operation = oper, b_table = table, b_dialect = d, b_columns = [], b_values = [],
      b_conditions = [], b_orderings = [], b_specificationError = [], b_allowAllRows = False\<rparr>"

definition columns :: "string list \<Rightarrow> Builder \<Rightarrow> Builder" where
  "columns fs b = b\<lparr>b_columns := fs\<rparr>"

definition add_value :: "string \<Rightarrow> Value \<Rightarrow> Builder \<Rightarrow> Builder" where
  "add_value f v b = b\<lparr>b_values := b_values b @ [(f, v)]\<rparr>"

definition add_values :: "(string \<times> Value) list \<Rightarrow> Builder \<Rightarrow> Builder" where
  "add_values vs b = b\<lparr>b_values := b_values b @ vs\<rparr>"

definition add_fields :: "string list \<Rightarrow> Params \<Rightarrow> Builder \<Rightarrow> Builder" where
  "add_fields fs ps b =
     (if length fs \<noteq> length ps then b\<lparr>b_specificationError := ''field count does not match parameter count''\<rparr>
      else b\<lparr>b_values := b_values b @ zip fs ps\<rparr>)"

definition add_condition :: "Condition \<Rightarrow> Builder \<Rightarrow> Builder" where
  "add_condition c b = b\<lparr>b_conditions := b_conditions b @ [c]\<rparr>"

definition orderBy :: "string \<Rightarrow> SortDirection \<Rightarrow> Builder \<Rightarrow> Builder" where
  "orderBy f dir b = b\<lparr>b_orderings := b_orderings b @ [(f, dir)]\<rparr>"

definition allowAllRows :: "bool \<Rightarrow> Builder \<Rightarrow> Builder" where
  "allowAllRows allow b = b\<lparr>b_allowAllRows := allow\<rparr>"

fun validateUniqueFields :: "string set \<Rightarrow> (string \<times> Value) list \<Rightarrow> Status option" where
  "validateUniqueFields seen [] = None"
| "validateUniqueFields seen ((f, v) # vs) =
     (if \<not> validIdentifier f then Some (builder_error ''value field is empty or invalid'')
      else if f \<in> seen
      then Some (builder_error (''duplicate value field '' @ [SQ] @ f @ [SQ]))
      else validateUniqueFields (insert f seen) vs)"

fun check_columns :: "string set \<Rightarrow> string list \<Rightarrow> Status option" where
  "check_columns seen [] = None"
| "check_columns seen (c # cs) =
     (if \<not> validIdentifier c \<or> c = ''*'' then Some (builder_error ''SELECT column is empty or invalid'')
      else if c \<in> seen
      then Some (builder_error (''duplicate SELECT column '' @ [SQ] @ c @ [SQ]))
      else check_columns (insert c seen) cs)"

fun check_orderings :: "(string \<times> SortDirection) list \<Rightarrow> Status option" where
  "check_orderings [] = None"
| "check_orderings ((f, dir) # os) =
     (if \<not> validIdentifier f then Some (builder_error ''ORDER BY field is empty or invalid'')
      else check_orderings os)"

definition order_text :: "Dialect \<Rightarrow> (string \<times> SortDirection) list \<Rightarrow> string" where
  "order_text d os =
     (if os = [] then []
      else '' ORDER BY '' @ comma_join
        (map (\<lambda>(f, dir). quoteIdent f d @ (if dir = Ascending then '' ASC'' else '' DESC'')) os))"

definition build_select :: "Builder \<Rightarrow> Status + (string \<times> Params)" where
  "build_select b =
     (let d = b_dialect b in
      if b_values b \<noteq> [] \<or> b_allowAllRows b
      then Inl (builder_error ''SELECT does not accept value assignments or allowAllRows'')
      else case check_columns {} (b_columns b) of
        Some st \<Rightarrow> Inl st
      | None \<Rightarrow>
          (case appendWhere (b_conditions b) d of
             Inl st \<Rightarrow> Inl st
           | Inr (w, ps) \<Rightarrow>
               (case check_orderings (b_orderings b) of
                  Some st \<Rightarrow> Inl st
                | None \<Rightarrow>
                    Inr (''SELECT '' @ (if b_columns b = [] then ''*''
                                        else comma_join (map (\<lambda>c. quoteIdent c d) (b_columns b)))
                         @ '' FROM '' @ quoteIdent (b_table b) d @ w @ order_text d (b_orderings b), ps))))"

definition build_insert :: "Builder \<Rightarrow> Status + (string \<times> Params)" where
  "build_insert b =
     (if b_columns b \<noteq> [] \<or> b_conditions b \<noteq> [] \<or> b_orderings b \<noteq> [] \<or> b_allowAllRows b
      then Inl (builder_error ''INSERT accepts values only'')
      else if b_values b = [] then Inl (builder_error ''INSERT requires at least one value'')
      else Inr (''INSERT INTO '' @ quoteIdent (b_table b) (b_dialect b) @ '' (''
                @ comma_join (map (\<lambda>(f, v). quoteIdent f (b_dialect b)) (b_values b))
                @ '') VALUES ('' @ csvArgs (length (b_values b)) @ '')'', map snd (b_values b)))"

definition build_update :: "Builder \<Rightarrow> Status + (string \<times> Params)" where
  "build_update b =
     (if b_columns b \<noteq> [] \<or> b_orderings b \<noteq> []
      then Inl (builder_error ''UPDATE does not accept columns or ordering'')
      else if b_values b = [] then Inl (builder_error ''UPDATE requires at least one value'')
      else if b_conditions b = [] \<and> \<not> b_allowAllRows b
      then Inl (builder_error ''UPDATE without WHERE requires allowAllRows()'')
      else case appendWhere (b_conditions b) (b_dialect b) of
        Inl st \<Rightarrow> Inl st
      | Inr (w, ps) \<Rightarrow>
          Inr (''UPDATE '' @ quoteIdent (b_table b) (b_dialect b) @ '' SET ''
               @ comma_join (map (\<lambda>(f, v). quoteIdent f (b_dialect b) @ '' = ?'') (b_values b)) @ w,
               map snd (b_values b) @ ps))"

definition build_delete :: "Builder \<Rightarrow> Status + (string \<times> Params)" where
  "build_delete b =
     (if b_columns b \<noteq> [] \<or> b_values b \<noteq> [] \<or> b_orderings b \<noteq> []
      then Inl (builder_error ''DELETE accepts conditions only'')
      else if b_conditions b = [] \<and> \<not> b_allowAllRows b
      then Inl (builder_error ''DELETE without WHERE requires allowAllRows()'')
      else case appendWhere (b_conditions b) (b_dialect b) of
        Inl st \<Rightarrow> Inl st
      | Inr (w, ps) \<Rightarrow> Inr (''DELETE FROM '' @ quoteIdent (b_table b) (b_dialect b) @ w, ps))"

definition build :: "Builder \<Rightarrow> Status + (string \<times> Params)" where
  "build b =
     (if b_specificationError b \<noteq> [] then Inl (builder_error (b_specificationError b))
      else if \<not> validDialect (b_dialect b) then Inl (builder_error ''unknown identifier dialect'')
      else if \<not> validIdentifier (b_table b) then Inl (builder_error ''table is empty or invalid'')
      else case validateUniqueFields {} (b_values b) of
        Some st \<Rightarrow> Inl st
      | None \<Rightarrow>
          (case b_operation b of
             BSelect \<Rightarrow> build_select b | BInsert \<Rightarrow> build_insert b
           | BUpdate \<Rightarrow> build_update b | BDelete \<Rightarrow> build_delete b))"

definition buildPage :: "Builder \<Rightarrow> Status + (string \<times> Params) \<times> (string \<times> Params)" where
  "buildPage b =
     (case build b of
        Inl st \<Rightarrow> Inl st
      | Inr stmt \<Rightarrow>
          if b_operation b \<noteq> BSelect \<or> b_orderings b = []
          then Inl (builder_error ''pagination requires SELECT with a stable ORDER BY'')
          else case appendWhere (b_conditions b) (b_dialect b) of
            Inl st \<Rightarrow> Inl st
          | Inr (w, ps) \<Rightarrow>
              Inr (stmt, ((if b_dialect b = SqlServer then ''SELECT COUNT_BIG(*) FROM '' else ''SELECT COUNT(*) FROM '')
                          @ quoteIdent (b_table b) (b_dialect b) @ w, ps)))"

section \<open>Values and placeholders\<close>

text \<open>The values a condition binds, in the order of the text, and the names it mentions.\<close>

fun cond_params :: "Condition \<Rightarrow> Params" where
  "cond_params (CCompare f oper v) = (if v = VNull then [] else [v])"
| "cond_params (CIn f vs) = vs"
| "cond_params (CNotIn f vs) = vs"
| "cond_params (CBetween f lo hi) = [lo, hi]"
| "cond_params (CAll cs) = concat (map cond_params cs)"
| "cond_params (CAny cs) = concat (map cond_params cs)"
| "cond_params (CNot c) = cond_params c"
| "cond_params _ = []"

fun cond_names :: "Condition \<Rightarrow> string list" where
  "cond_names (CCompare f oper v) = [f]"
| "cond_names (CIn f vs) = [f]"
| "cond_names (CNotIn f vs) = [f]"
| "cond_names (CBetween f lo hi) = [f]"
| "cond_names (CIsNull f) = [f]"
| "cond_names (CIsNotNull f) = [f]"
| "cond_names (CAll cs) = concat (map cond_names cs)"
| "cond_names (CAny cs) = concat (map cond_names cs)"
| "cond_names (CNot c) = cond_names c"
| "cond_names CInvalid = []"

text \<open>Every name the statement of a builder mentions.\<close>

definition builder_names :: "Builder \<Rightarrow> string list" where
  "builder_names b =
     b_table b # b_columns b @ map fst (b_values b) @ concat (map cond_names (b_conditions b))
     @ map fst (b_orderings b)"

lemma marks_compareText [simp]: "marks (compareText oper) = 0"
  by (cases oper) (simp_all add: compareText_def)

lemma render_params:
  "renderCondition d nested c = Inr (t, ps) \<Longrightarrow> ps = cond_params c"
  "render_children d sep cs = Inr (t, ps) \<Longrightarrow> ps = concat (map cond_params cs)"
proof (induction d nested c and d sep cs arbitrary: t ps and t ps rule: renderCondition_render_children.induct)
  case (1 d nested f oper v)
  then show ?case by (cases oper) (auto split: if_splits)
qed (auto split: if_splits sum.splits)

lemma render_marks:
  "renderCondition d nested c = Inr (t, ps) \<Longrightarrow> list_all (\<lambda>n. marks n = 0) (cond_names c) \<Longrightarrow> marks t = length ps"
  "render_children d sep cs = Inr (t, ps) \<Longrightarrow> marks sep = 0 \<Longrightarrow>
   list_all (\<lambda>n. marks n = 0) (concat (map cond_names cs)) \<Longrightarrow> marks t = length ps"
proof (induction d nested c and d sep cs arbitrary: t ps and t ps rule: renderCondition_render_children.induct)
  case (1 d nested f oper v)
  then show ?case by (cases oper) (auto split: if_splits)
qed (auto split: if_splits sum.splits)

lemma appendWhere_params: "appendWhere cs d = Inr (w, ps) \<Longrightarrow> ps = concat (map cond_params cs)"
  by (auto simp: appendWhere_def split: if_splits sum.splits dest: render_params)

lemma appendWhere_marks:
  "appendWhere cs d = Inr (w, ps) \<Longrightarrow> list_all (\<lambda>n. marks n = 0) (concat (map cond_names cs)) \<Longrightarrow>
   marks w = length ps"
  by (auto simp: appendWhere_def split: if_splits sum.splits dest: render_marks)

lemma marks_names:
  "list_all (\<lambda>n. marks n = 0) (map f xs) \<Longrightarrow>
   (\<And>x. x \<in> set xs \<Longrightarrow> marks (g x) = marks (f x) + k) \<Longrightarrow> marks (comma_join (map g xs)) = k * length xs"
  by (induction xs) (simp_all add: marks_comma_join)

lemma marks_order_text [simp]:
  "list_all (\<lambda>n. marks n = 0) (map fst os) \<Longrightarrow> marks (order_text d os) = 0"
  using marks_names [of fst os "\<lambda>(f, dir). quoteIdent f d @ (if dir = Ascending then '' ASC'' else '' DESC'')" 0]
  by (force simp: order_text_def)

lemmas build_defs = build_select_def build_insert_def build_update_def build_delete_def

text \<open>
  A successful build has one question mark per bound value, and the values are those of the
  assignments followed by those of the conditions, in order.
\<close>

theorem build_binds_values:
  assumes "build b = Inr (sql, ps)" and "list_all (\<lambda>n. CHR ''?'' \<notin> set n) (builder_names b)"
  shows "marks sql = length ps \<and>
    ps = map snd (b_values b) @ concat (map cond_params (b_conditions b))"
proof -
  have names: "marks (b_table b) = 0" "list_all (\<lambda>n. marks n = 0) (map fst (b_values b))"
    "list_all (\<lambda>n. marks n = 0) (map (\<lambda>c. c) (b_columns b))"
    "list_all (\<lambda>n. marks n = 0) (concat (map cond_names (b_conditions b)))"
    "list_all (\<lambda>n. marks n = 0) (map fst (b_orderings b))"
    using assms(2) by (simp_all add: builder_names_def count_list_0_iff list_all_iff)
  have cols: "marks (comma_join (map (\<lambda>c. quoteIdent c d) (b_columns b))) = 0" for d
    using marks_names [OF names(3), of "\<lambda>c. quoteIdent c d" 0] by simp
  have fields: "marks (comma_join (map (\<lambda>(f, v). quoteIdent f d) (b_values b))) = 0"
    "marks (comma_join (map (\<lambda>(f, v). quoteIdent f d @ '' = ?'') (b_values b))) = length (b_values b)" for d
    using marks_names [OF names(2), of "\<lambda>(f, v). quoteIdent f d" 0]
      marks_names [OF names(2), of "\<lambda>(f, v). quoteIdent f d @ '' = ?''" 1] by force+
  have conds: "marks w = length qs \<and> qs = concat (map cond_params (b_conditions b))"
    if "appendWhere (b_conditions b) d = Inr (w, qs)" for w qs d
    using appendWhere_marks [OF that names(4)] appendWhere_params [OF that] by blast
  show ?thesis
    using assms(1) names cols fields
    by (auto simp: build_def build_defs Let_def split: if_splits option.splits sum.splits BOperation.splits
        dest!: conds)
qed

section \<open>What the scanner sees of a built statement\<close>

definition simple :: "char \<Rightarrow> bool" where
  "simple c \<longleftrightarrow> c \<notin> {SQ, DQ, BQ, CHR ''$'', CHR ''-'', CHR ''/''}"

definition open_front :: "string \<Rightarrow> bool" where
  "open_front x \<longleftrightarrow> x = [] \<or> hd x \<notin> {DQ, BQ}"

definition masks_to :: "string \<Rightarrow> string \<Rightarrow> bool" where
  "masks_to s t \<longleftrightarrow> (\<forall>out x. open_front x \<longrightarrow> mask_loop out (s @ x) = mask_loop (out @ t) x)"

definition sealed :: "char set \<Rightarrow> string \<Rightarrow> bool" where
  "sealed A s \<longleftrightarrow> (\<exists>t. masks_to s t \<and> set t \<subseteq> A)"

lemma mask_loop_simple: "list_all simple p \<Longrightarrow> mask_loop out (p @ x) = mask_loop (out @ p) x"
proof (induction p arbitrary: out)
  case (Cons c p)
  then have "mask_step out c (p @ x) = (out @ [c], p @ x)"
    by (simp add: mask_step_def simple_def line_comment_at_def block_comment_at_def)
  then show ?case using Cons by simp
qed simp

lemma simple_front: "list_all simple p \<Longrightarrow> p \<noteq> [] \<Longrightarrow> open_front (p @ x)"
  by (cases p) (auto simp: simple_def open_front_def)

lemma masks_to_before: "list_all simple p \<Longrightarrow> masks_to s t \<Longrightarrow> masks_to (p @ s) (p @ t)"
  by (simp add: masks_to_def mask_loop_simple)

lemma masks_to_append:
  "masks_to s t \<Longrightarrow> masks_to s' t' \<Longrightarrow> (\<And>x. open_front x \<Longrightarrow> open_front (s' @ x)) \<Longrightarrow>
   masks_to (s @ s') (t @ t')"
  by (simp add: masks_to_def)

lemma masks_to_Nil: "masks_to [] []"
  by (simp add: masks_to_def)

lemma skip_quoted_double:
  assumes "BSL \<notin> set v" "x = [] \<or> hd x \<noteq> q" "q \<noteq> BSL"
  shows "skip_quoted q (double_quote q v @ q # x) = x"
  using assms by (induction v) auto

lemma masks_to_quoted:
  assumes "BSL \<notin> set v" "q = DQ \<or> q = BQ"
  shows "masks_to (q # double_quote q v @ [q]) (replicate (length (double_quote q v) + 2) SP)"
  unfolding masks_to_def
proof (intro allI impI)
  fix out x
  assume "open_front x"
  then have "skip_quoted q (double_quote q v @ q # x) = x"
    using assms by (intro skip_quoted_double) (auto simp: open_front_def)
  then have "mask_step out q (double_quote q v @ q # x) =
      (out @ blanks (q # double_quote q v @ q # x) x, x)"
    unfolding mask_step_def using assms(2) by (auto simp: line_comment_at_def block_comment_at_def)
  then show "mask_loop out ((q # double_quote q v @ [q]) @ x) =
      mask_loop (out @ replicate (length (double_quote q v) + 2) SP) x"
    by (simp add: blanks_def)
qed

lemma sealed_Nil [simp]: "sealed A []"
  using masks_to_Nil by (auto simp: sealed_def)

lemma sealed_mono: "sealed A s \<Longrightarrow> A \<subseteq> B \<Longrightarrow> sealed B s"
  by (auto simp: sealed_def)

lemma sealed_simple: "list_all simple p \<Longrightarrow> set p \<subseteq> A \<Longrightarrow> sealed A p"
  using masks_to_before [OF _ masks_to_Nil] by (fastforce simp: sealed_def)

lemma sealed_before: "list_all simple p \<Longrightarrow> set p \<subseteq> A \<Longrightarrow> sealed A s \<Longrightarrow> sealed A (p @ s)"
  unfolding sealed_def using masks_to_before by (metis Un_subset_iff set_append)

lemma sealed_join:
  assumes "sealed A s" "list_all simple p" "p \<noteq> []" "set p \<subseteq> A" "sealed A s'"
  shows "sealed A (s @ p @ s')"
proof -
  obtain t t' where t: "masks_to s t" "masks_to s' t'" "set t \<subseteq> A" "set t' \<subseteq> A"
    using assms by (auto simp: sealed_def)
  have "masks_to (s @ p @ s') (t @ p @ t')"
    using t assms by (intro masks_to_append masks_to_before) (simp_all add: simple_front)
  then show ?thesis using t assms(4) by (fastforce simp: sealed_def)
qed

lemma sealed_quoted_path:
  assumes "list_all (\<lambda>p. BSL \<notin> set p) ps" "q = DQ \<or> q = BQ" "{SP, CHR ''.''} \<subseteq> A"
  shows "sealed A (tl (quoted_path q ps))"
  using assms(1)
proof (induction ps)
  case Nil
  then show ?case by (simp add: quoted_path_def)
next
  case (Cons p ps)
  have quoted: "sealed A (q # double_quote q p @ [q])"
    using masks_to_quoted [of p q] Cons.prems assms(2,3) by (auto simp: sealed_def)
  show ?case
  proof (cases ps)
    case Nil
    then show ?thesis using quoted by (simp add: quoted_path_def)
  next
    case (Cons p' ps')
    have "sealed A ((q # double_quote q p @ [q]) @ ''.'' @ tl (quoted_path q ps))"
      using Cons.IH Cons.prems assms(3) by (intro sealed_join quoted) (simp_all add: simple_def)
    then show ?thesis using Cons by (simp add: quoted_path_def)
  qed
qed

lemma split_dots_chars: "c \<notin> set part \<Longrightarrow> c \<notin> set s \<Longrightarrow> list_all (\<lambda>p. c \<notin> set p) (split_dots part s)"
  by (induction s arbitrary: part) auto

lemma sealed_quoteIdent:
  assumes "BSL \<notin> set name" "{SP, CHR ''.''} \<subseteq> A"
  shows "sealed A (quoteIdent name d)"
  unfolding quoteIdent_path
proof (rule sealed_quoted_path)
  show "list_all (\<lambda>p. BSL \<notin> set p) (ident_parts name)"
    using split_dots_chars [of BSL "[]" name] assms(1) by (auto simp: ident_parts_def list_all_iff)
qed (use assms in \<open>simp_all add: ident_quote_def\<close>)

lemma sealed_after: "sealed A s \<Longrightarrow> list_all simple p \<Longrightarrow> p \<noteq> [] \<Longrightarrow> set p \<subseteq> A \<Longrightarrow> sealed A (s @ p)"
  using sealed_join [of A s p "[]"] by simp

lemma sealed_comma_join:
  "list_all (sealed A) ss \<Longrightarrow> {SP, CHR '',''} \<subseteq> A \<Longrightarrow> sealed A (comma_join ss)"
proof (induction ss rule: comma_join.induct)
  case (3 a b as)
  have "sealed A (a @ '', '' @ comma_join (b # as))"
    using 3 by (intro sealed_join) (simp_all add: simple_def)
  then show ?case by simp
qed (auto intro: sealed_simple)

abbreviation no_semi :: "char set" where
  "no_semi \<equiv> - {CHR '';''}"

abbreviation flat_text :: "char set" where
  "flat_text \<equiv> - {CHR '';'', CHR ''('', CHR '')''}"

lemma simple_compareText: "list_all simple (compareText oper)" "set (compareText oper) \<subseteq> no_semi"
  by (cases oper; simp add: compareText_def simple_def)+

lemma set_comma_join: "set (comma_join ss) \<subseteq> {SP, CHR '',''} \<union> \<Union> (set ` set ss)"
  by (induction ss rule: comma_join.induct) auto

lemma simple_csvArgs: "list_all simple (csvArgs n)" "set (csvArgs n) \<subseteq> no_semi"
  using set_comma_join [of "replicate n ''?''"]
  by (auto simp: csvArgs_def list_all_iff simple_def split: if_splits)

lemma sealed_quoteIdent_text:
  "BSL \<notin> set f \<Longrightarrow> list_all simple p \<Longrightarrow> p \<noteq> [] \<Longrightarrow> set p \<subseteq> no_semi \<Longrightarrow> sealed no_semi (quoteIdent f d @ p)"
  by (intro sealed_after sealed_quoteIdent) simp_all

lemma sealed_within:
  "sealed A s \<Longrightarrow> list_all simple p \<Longrightarrow> set p \<subseteq> A \<Longrightarrow> list_all simple p' \<Longrightarrow> p' \<noteq> [] \<Longrightarrow> set p' \<subseteq> A \<Longrightarrow>
   sealed A (p @ s @ p')"
  by (intro sealed_before sealed_after)

lemma sealed_paren:
  "sealed no_semi s \<Longrightarrow> sealed no_semi (CHR ''('' # s @ '')'')"
  "sealed no_semi s \<Longrightarrow> sealed no_semi (''NOT ('' @ s @ '')'')"
  using sealed_within [of no_semi s "''(''" "'')''"] sealed_within [of no_semi s "''NOT (''" "'')''"]
  by (simp_all add: simple_def)

lemma render_sealed:
  "renderCondition d nested c = Inr (t, ps) \<Longrightarrow> list_all (\<lambda>n. BSL \<notin> set n) (cond_names c) \<Longrightarrow>
   sealed no_semi t"
  "render_children d sep cs = Inr (t, ps) \<Longrightarrow> list_all simple sep \<and> sep \<noteq> [] \<and> set sep \<subseteq> no_semi \<Longrightarrow>
   list_all (\<lambda>n. BSL \<notin> set n) (concat (map cond_names cs)) \<Longrightarrow> sealed no_semi t"
proof (induction d nested c and d sep cs arbitrary: t ps and t ps rule: renderCondition_render_children.induct)
  case (1 d nested f oper v)
  then show ?case using simple_compareText [of oper]
    by (cases oper) (auto split: if_splits intro!: sealed_quoteIdent_text simp: simple_def compareText_def)
next
  case (2 d nested f vs)
  have "sealed no_semi (quoteIdent f d @ '' IN ('' @ csvArgs (length vs) @ '')'')"
    using 2 simple_csvArgs [of "length vs"] by (intro sealed_quoteIdent_text) (auto simp: simple_def)
  then show ?case using 2 by (auto split: if_splits intro!: sealed_simple simp: simple_def)
next
  case (3 d nested f vs)
  have "sealed no_semi (quoteIdent f d @ '' NOT IN ('' @ csvArgs (length vs) @ '')'')"
    using 3 simple_csvArgs [of "length vs"] by (intro sealed_quoteIdent_text) (auto simp: simple_def)
  then show ?case using 3 by (auto split: if_splits intro!: sealed_simple simp: simple_def)
next
  case (4 d nested f lo hi)
  then show ?case by (auto split: if_splits intro!: sealed_quoteIdent_text simp: simple_def)
next
  case (5 d nested f)
  then show ?case by (auto split: if_splits intro!: sealed_quoteIdent_text simp: simple_def)
next
  case (6 d nested f)
  then show ?case by (auto split: if_splits intro!: sealed_quoteIdent_text simp: simple_def)
next
  case (7 d nested cs)
  then show ?case by (auto split: if_splits sum.splits intro: sealed_paren(1) simp: simple_def)
next
  case (8 d nested cs)
  then show ?case by (auto split: if_splits sum.splits intro: sealed_paren(1) simp: simple_def)
next
  case (9 d nested c)
  then show ?case using sealed_paren(2) by (auto split: sum.splits)
next
  case (10 d nested)
  then show ?case by simp
next
  case (11 d sep)
  then show ?case by simp
next
  case (12 d sep c)
  then show ?case by simp
next
  case (13 d sep c c' cs)
  then show ?case by (auto split: sum.splits intro!: sealed_join)
qed

lemma mask_masks_to: "masks_to s t \<Longrightarrow> maskLiteralRegions s = t"
  unfolding masks_to_def maskLiteralRegions_def
  by (drule spec [of _ "[]"], drule spec [of _ "[]"]) (simp add: open_front_def)

lemma sealed_single: "sealed no_semi s \<Longrightarrow> \<not> hasMultipleStatements s False"
proof -
  assume "sealed no_semi s"
  then obtain t where "masks_to s t" "CHR '';'' \<notin> set t" by (auto simp: sealed_def)
  then have "\<not> multiple_from 0 False t"
    unfolding multiple_from_iff by (metis nth_mem order_less_trans)
  with \<open>masks_to s t\<close> show ?thesis by (simp add: hasMultipleStatements_def mask_masks_to Let_def)
qed

lemma foldl_paren_flat: "set t \<subseteq> flat_text \<Longrightarrow> foldl paren_step 0 t = 0"
  by (induction t) (auto simp: paren_step_def)

lemma sealed_where:
  assumes "sealed flat_text s" "sealed no_semi s'"
  shows "hasWhereClause (s @ '' WHERE '' @ s')"
proof -
  obtain t t' where t: "masks_to s t" "set t \<subseteq> flat_text" "masks_to s' t'"
    using assms by (auto simp: sealed_def)
  have "masks_to (s @ '' WHERE '' @ s') (t @ '' WHERE '' @ t')"
    using t by (intro masks_to_append masks_to_before) (simp_all add: simple_def open_front_def)
  then have mask: "maskLiteralRegions (s @ '' WHERE '' @ s') = t @ '' WHERE '' @ t'"
    by (rule mask_masks_to)
  have "paren_depth (t @ '' WHERE '' @ t') (Suc (length t)) = 0"
    using foldl_paren_flat [OF t(2)] by (simp add: paren_depth_def paren_step_def)
  moreover have "keyword_at (t @ '' WHERE '' @ t') ''WHERE'' (Suc (length t))"
    by (simp add: keyword_at_def word_matches_def ident_at_def isIdent_def cctype_simps)
  moreover have "Suc (length t) \<le> length (t @ '' WHERE '' @ t')" by simp
  ultimately show ?thesis
    unfolding hasWhereClause_def mask
    by (subst containsTopLevelKeyword_iff) (use keyword_heads in blast)+
qed

text \<open>The parts of a built statement.\<close>

lemma appendWhere_sealed:
  assumes "appendWhere cs d = Inr (w, ps)" "list_all (\<lambda>n. BSL \<notin> set n) (concat (map cond_names cs))"
  shows "w = [] \<and> cs = [] \<or> (\<exists>t. w = '' WHERE '' @ t \<and> sealed no_semi t)"
proof (cases "cs = []")
  case False
  then obtain t where "renderCondition d False (CAll cs) = Inr (t, ps)" "w = '' WHERE '' @ t"
    using assms(1) by (auto simp: appendWhere_def simp del: renderCondition.simps split: sum.splits)
  then show ?thesis using render_sealed(1) [of d False "CAll cs" t ps] assms(2) by auto
qed (use assms in \<open>simp add: appendWhere_def\<close>)

lemma sealed_where_text:
  assumes "appendWhere cs d = Inr (w, ps)" "list_all (\<lambda>n. BSL \<notin> set n) (concat (map cond_names cs))"
    and "sealed flat_text s"
  shows "sealed no_semi (s @ w)" and "cs \<noteq> [] \<Longrightarrow> hasWhereClause (s @ w)"
proof -
  have s: "sealed no_semi s" using assms(3) by (rule sealed_mono) auto
  from appendWhere_sealed [OF assms(1,2)] show "sealed no_semi (s @ w)"
  proof (elim disjE exE conjE)
    fix t assume "w = '' WHERE '' @ t" "sealed no_semi t"
    then show ?thesis using sealed_join [OF s, of "'' WHERE ''" t] by (simp add: simple_def)
  qed (use s in simp)
  show "hasWhereClause (s @ w)" if "cs \<noteq> []"
    using appendWhere_sealed [OF assms(1,2)] sealed_where [OF assms(3)] that by auto
qed

lemma sealed_names:
  assumes "list_all (\<lambda>n. BSL \<notin> set n) (map f xs)"
    and "\<And>x. x \<in> set xs \<Longrightarrow> \<exists>p. g x = quoteIdent (f x) d @ p \<and> list_all simple p \<and> set p \<subseteq> flat_text"
  shows "sealed flat_text (comma_join (map g xs))"
proof (rule sealed_comma_join)
  have "sealed flat_text (g x)" if x: "x \<in> set xs" for x
  proof -
    obtain p where p: "g x = quoteIdent (f x) d @ p" "list_all simple p" "set p \<subseteq> flat_text"
      using assms(2) [OF x] by blast
    have "sealed flat_text (quoteIdent (f x) d)"
      using assms(1) x by (intro sealed_quoteIdent) (auto simp: list_all_iff)
    then show ?thesis using p by (cases "p = []") (simp_all add: sealed_after)
  qed
  then show "list_all (sealed flat_text) (map g xs)" by (simp add: list_all_iff)
qed simp

definition names_ok :: "Builder \<Rightarrow> bool" where
  "names_ok b \<longleftrightarrow> list_all (\<lambda>n. BSL \<notin> set n) (builder_names b)"

lemma names_okD:
  assumes "names_ok b"
  shows "BSL \<notin> set (b_table b)" "list_all (\<lambda>n. BSL \<notin> set n) (map (\<lambda>c. c) (b_columns b))"
    "list_all (\<lambda>n. BSL \<notin> set n) (map fst (b_values b))"
    "list_all (\<lambda>n. BSL \<notin> set n) (concat (map cond_names (b_conditions b)))"
    "list_all (\<lambda>n. BSL \<notin> set n) (map fst (b_orderings b))"
  using assms by (simp_all add: names_ok_def builder_names_def list_all_iff)

lemma sealed_table:
  assumes "names_ok b" "list_all simple p" "set p \<subseteq> flat_text"
  shows "sealed flat_text (p @ quoteIdent (b_table b) d)"
  using assms by (intro sealed_before sealed_quoteIdent names_okD(1)) auto

lemma sealed_order_text:
  assumes "names_ok b" "b_orderings b \<noteq> []"
  obtains s where "order_text d (b_orderings b) = '' ORDER BY '' @ s" "sealed no_semi s"
proof
  let ?s = "comma_join (map (\<lambda>(f, dir). quoteIdent f d @ (if dir = Ascending then '' ASC'' else '' DESC'')) (b_orderings b))"
  show "order_text d (b_orderings b) = '' ORDER BY '' @ ?s"
    using assms(2) by (simp add: order_text_def)
  have "sealed flat_text ?s"
    by (rule sealed_names [OF names_okD(5) [OF assms(1)], where d = d]) (auto simp: simple_def)
  then show "sealed no_semi ?s" by (rule sealed_mono) auto
qed

lemma build_select_sealed:
  assumes "build_select b = Inr (sql, ps)" "names_ok b"
  shows "sealed no_semi sql"
proof -
  let ?d = "b_dialect b"
  let ?cols = "if b_columns b = [] then ''*'' else comma_join (map (\<lambda>c. quoteIdent c ?d) (b_columns b))"
  obtain w where w: "appendWhere (b_conditions b) ?d = Inr (w, ps)"
    and sql: "sql = (''SELECT '' @ ?cols @ '' FROM '' @ quoteIdent (b_table b) ?d) @ w @ order_text ?d (b_orderings b)"
    using assms(1) by (auto simp: build_select_def Let_def split: if_splits option.splits sum.splits)
  have "sealed flat_text (comma_join (map (\<lambda>c. quoteIdent c ?d) (b_columns b)))"
    by (rule sealed_names [OF names_okD(2) [OF assms(2)], where d = ?d]) auto
  moreover have "sealed flat_text ''*''" by (rule sealed_simple) (simp_all add: simple_def)
  ultimately have cols: "sealed flat_text ?cols" by simp
  have "sealed flat_text (?cols @ '' FROM '' @ quoteIdent (b_table b) ?d)"
    using cols by (intro sealed_join sealed_quoteIdent) (simp_all add: simple_def names_okD(1) [OF assms(2)])
  then have "sealed flat_text (''SELECT '' @ ?cols @ '' FROM '' @ quoteIdent (b_table b) ?d)"
    by (rule sealed_before [rotated 2]) (simp_all add: simple_def)
  then have base: "sealed no_semi ((''SELECT '' @ ?cols @ '' FROM '' @ quoteIdent (b_table b) ?d) @ w)"
    by (rule sealed_where_text(1) [OF w names_okD(4) [OF assms(2)]])
  show ?thesis
  proof (cases "b_orderings b = []")
    case True
    then show ?thesis using base sql by (simp add: order_text_def)
  next
    case False
    then obtain s where "order_text ?d (b_orderings b) = '' ORDER BY '' @ s" "sealed no_semi s"
      using sealed_order_text [OF assms(2)] by blast
    then show ?thesis using sealed_join [OF base, of "'' ORDER BY ''" s] sql by (simp add: simple_def)
  qed
qed

lemma build_insert_sealed:
  assumes "build_insert b = Inr (sql, ps)" "names_ok b"
  shows "sealed no_semi sql"
proof -
  let ?d = "b_dialect b"
  let ?fields = "comma_join (map (\<lambda>(f, v). quoteIdent f ?d) (b_values b))"
  have sql: "sql = (''INSERT INTO '' @ quoteIdent (b_table b) ?d) @ '' ('' @ ?fields @ ('') VALUES ('' @ csvArgs (length (b_values b)) @ '')'')"
    using assms(1) by (auto simp: build_insert_def split: if_splits)
  have "sealed flat_text ?fields"
    by (rule sealed_names [OF names_okD(3) [OF assms(2)], where d = ?d]) auto
  then have "sealed no_semi ?fields" by (rule sealed_mono) auto
  moreover have "sealed flat_text (''INSERT INTO '' @ quoteIdent (b_table b) ?d)"
    using assms(2) by (intro sealed_table) (simp_all add: simple_def)
  then have "sealed no_semi (''INSERT INTO '' @ quoteIdent (b_table b) ?d)" by (rule sealed_mono) auto
  moreover have "sealed no_semi (?fields @ ('') VALUES ('' @ csvArgs (length (b_values b)) @ '')''))"
    using calculation simple_csvArgs [of "length (b_values b)"]
    by (intro sealed_after) (simp_all add: simple_def)
  ultimately show ?thesis unfolding sql
    by (intro sealed_join [of _ _ "'' (''"]) (simp_all add: simple_def)
qed

lemma build_update_sealed:
  assumes "build_update b = Inr (sql, ps)" "names_ok b"
  shows "sealed no_semi sql" and "\<not> b_allowAllRows b \<Longrightarrow> hasWhereClause sql"
proof -
  let ?d = "b_dialect b"
  let ?set = "comma_join (map (\<lambda>(f, v). quoteIdent f ?d @ '' = ?'') (b_values b))"
  obtain w qs where w: "appendWhere (b_conditions b) ?d = Inr (w, qs)"
    and sql: "sql = ((''UPDATE '' @ quoteIdent (b_table b) ?d) @ '' SET '' @ ?set) @ w"
    and guard: "b_conditions b \<noteq> [] \<or> b_allowAllRows b"
    using assms(1) by (auto simp: build_update_def split: if_splits sum.splits)
  have "sealed flat_text ?set"
    by (rule sealed_names [OF names_okD(3) [OF assms(2)], where d = ?d]) (auto simp: simple_def)
  then have base: "sealed flat_text ((''UPDATE '' @ quoteIdent (b_table b) ?d) @ '' SET '' @ ?set)"
    using assms(2) by (intro sealed_join sealed_table) (simp_all add: simple_def)
  note parts = sealed_where_text [OF w names_okD(4) [OF assms(2)] base]
  show "sealed no_semi sql" unfolding sql by (rule parts(1))
  show "hasWhereClause sql" if "\<not> b_allowAllRows b"
    unfolding sql by (rule parts(2)) (use guard that in blast)
qed

lemma build_delete_sealed:
  assumes "build_delete b = Inr (sql, ps)" "names_ok b"
  shows "sealed no_semi sql" and "\<not> b_allowAllRows b \<Longrightarrow> hasWhereClause sql"
proof -
  let ?d = "b_dialect b"
  obtain w qs where w: "appendWhere (b_conditions b) ?d = Inr (w, qs)"
    and sql: "sql = (''DELETE FROM '' @ quoteIdent (b_table b) ?d) @ w"
    and guard: "b_conditions b \<noteq> [] \<or> b_allowAllRows b"
    using assms(1) by (auto simp: build_delete_def split: if_splits sum.splits)
  have base: "sealed flat_text (''DELETE FROM '' @ quoteIdent (b_table b) ?d)"
    using assms(2) by (intro sealed_table) (simp_all add: simple_def)
  note parts = sealed_where_text [OF w names_okD(4) [OF assms(2)] base]
  show "sealed no_semi sql" unfolding sql by (rule parts(1))
  show "hasWhereClause sql" if "\<not> b_allowAllRows b"
    unfolding sql by (rule parts(2)) (use guard that in blast)
qed

text \<open>
  C6: A successful build is a single statement in the sense of the audit, and an UPDATE or
  DELETE built without allowAllRows has a WHERE clause at the top level, whatever the table,
  column and value bytes are (names without a backslash).
\<close>

theorem build_is_one_guarded_statement:
  assumes "build b = Inr (sql, ps)" and "list_all (\<lambda>n. BSL \<notin> set n) (builder_names b)"
  shows "\<not> hasMultipleStatements sql False \<and>
    (b_operation b \<in> {BUpdate, BDelete} \<and> \<not> b_allowAllRows b \<longrightarrow> hasWhereClause sql)"
proof -
  have ok: "names_ok b" using assms(2) by (simp add: names_ok_def)
  show ?thesis
  proof (cases "b_operation b")
    case BSelect
    then have "build_select b = Inr (sql, ps)" using assms(1) by (auto simp: build_def split: if_splits option.splits)
    with BSelect show ?thesis using build_select_sealed [OF _ ok] sealed_single by simp
  next
    case BInsert
    then have "build_insert b = Inr (sql, ps)" using assms(1) by (auto simp: build_def split: if_splits option.splits)
    with BInsert show ?thesis using build_insert_sealed [OF _ ok] sealed_single by simp
  next
    case BUpdate
    then have "build_update b = Inr (sql, ps)" using assms(1) by (auto simp: build_def split: if_splits option.splits)
    with BUpdate show ?thesis using build_update_sealed [OF _ ok] sealed_single by simp
  next
    case BDelete
    then have "build_delete b = Inr (sql, ps)" using assms(1) by (auto simp: build_def split: if_splits option.splits)
    with BDelete show ?thesis using build_delete_sealed [OF _ ok] sealed_single by simp
  qed
qed

theorem buildPage_succeeds_iff:
  "(\<forall>stmt cnt. buildPage b = Inr (stmt, cnt) \<longrightarrow> build b = Inr stmt \<and> snd cnt = snd stmt) \<and>
   ((\<exists>stmts. buildPage b = Inr stmts) \<longleftrightarrow>
     (\<exists>stmt. build b = Inr stmt) \<and> b_operation b = BSelect \<and> b_orderings b \<noteq> [])"
  by (auto simp: buildPage_def build_def build_select_def Let_def
      split: if_splits option.splits sum.splits BOperation.splits)

text \<open>A builder of each kind, to evaluate the theorems on.\<close>

definition sample_delete :: Builder where
  "sample_delete = add_condition (CAny [CCompare ''id'' Equal (VInt64 7), CIn ''tag'' [VInt64 1, VInt64 2]])
     (new_builder BDelete ''app.users'' Postgres)"

definition sample_select :: Builder where
  "sample_select = orderBy ''id'' Ascending (add_condition (CNot (CIsNull ''name''))
     (columns [''id''] (new_builder BSelect ''users'' MySQL)))"

lemmas sample_builders = sample_delete_def sample_select_def new_builder_def add_condition_def orderBy_def columns_def
lemmas build_eval = build_def build_defs appendWhere_def validIdentifier_def validDialect_def valid_parts.simps
  csvArgs_def compareText_def quoteIdent_def ident_quote_def quote_flush_def order_text_def Let_def

theorem build_binds_values_witness:
  "\<exists>sql. build sample_delete = Inr (sql, [VInt64 7, VInt64 1, VInt64 2]) \<and> marks sql = 3"
proof -
  obtain sql where sql: "build sample_delete = Inr (sql, [VInt64 7, VInt64 1, VInt64 2])"
    by (simp add: sample_builders build_eval)
  have "marks sql = length [VInt64 7, VInt64 1, VInt64 2]"
    using build_binds_values [OF sql] by (simp add: builder_names_def sample_builders)
  then show ?thesis using sql by simp
qed

theorem build_is_one_guarded_statement_witness:
  "\<exists>sql ps. build sample_delete = Inr (sql, ps) \<and> hasWhereClause sql \<and> \<not> hasMultipleStatements sql False"
proof -
  obtain sql where sql: "build sample_delete = Inr (sql, [VInt64 7, VInt64 1, VInt64 2])"
    by (simp add: sample_builders build_eval)
  show ?thesis
    using build_is_one_guarded_statement [OF sql] sql
    by (simp add: builder_names_def sample_builders)
qed

theorem buildPage_succeeds_iff_witness:
  "\<exists>stmts. buildPage sample_select = Inr stmts"
proof -
  have "\<exists>stmt. build sample_select = Inr stmt" by (simp add: sample_builders build_eval)
  then show ?thesis using buildPage_succeeds_iff [of sample_select] by (simp add: sample_builders)
qed

end
