(* ===== verification/Context.thy ===== *)
theory Context
  imports Types
begin

text \<open>
  The per-request context, \<^verbatim>\<open>include/sqlconduit/common/context.h\<close> and \<^verbatim>\<open>src/common/context.cpp\<close>, with
  \<open>pinRequestWrite\<close> of \<^verbatim>\<open>src/core/database_manager.cpp\<close>.

  The thread-local stack of scopes is a list whose last element is the innermost scope. The
  operation a context carries is a parameter of its type. \<open>parseTraceparent\<close> leaves its output alone
  when it fails: it returns an option here. The span counter, a process-wide atomic of 64 bits, is
  passed and returned.
\<close>

section \<open>The stack of scopes\<close>

datatype Idempotency = Unspecified | Idempotent | NonIdempotent

record 'op SqlContext =
  traceId :: string
  spanId :: string
  tenantId :: string
  targetDataSource :: string
  shadow :: bool
  wroteInThisRequest :: bool
  idempotency :: Idempotency
  traceFlags :: "8 word"
  operation :: "'op option"

definition defaultInstance :: "'op SqlContext" where
  "defaultInstance =
     \<lparr>traceId = [], spanId = [], tenantId = [], targetDataSource = [], shadow = False,
      wroteInThisRequest = False, idempotency = Unspecified, traceFlags = 1, operation = None\<rparr>"

definition context_empty :: "'op SqlContext \<Rightarrow> bool" where
  "context_empty c \<longleftrightarrow> traceId c = [] \<and> spanId c = [] \<and> tenantId c = [] \<and> targetDataSource c = [] \<and>
     \<not> shadow c \<and> \<not> wroteInThisRequest c \<and> idempotency c = Unspecified \<and> operation c = None"

definition kMaxDepth :: nat where
  "kMaxDepth = 64"

definition scope_enter :: "'op SqlContext \<Rightarrow> 'op SqlContext list \<Rightarrow> bool \<times> 'op SqlContext list" where
  "scope_enter ctx s = (if length s < kMaxDepth then (True, s @ [ctx]) else (False, s))"

definition scope_leave :: "bool \<Rightarrow> 'op SqlContext list \<Rightarrow> 'op SqlContext list" where
  "scope_leave entered s = (if entered then butlast s else s)"

definition current :: "'op SqlContext list \<Rightarrow> 'op SqlContext" where
  "current s = (if s = [] then defaultInstance else last s)"

text \<open>A write pins the scope below the innermost one, or the only one.\<close>

definition pinRequestWrite :: "'op SqlContext list \<Rightarrow> 'op SqlContext list" where
  "pinRequestWrite s =
     (if s = [] then s
      else if length s \<ge> 2
      then s[length s - 2 := (s ! (length s - 2))\<lparr>wroteInThisRequest := True\<rparr>]
      else butlast s @ [(last s)\<lparr>wroteInThisRequest := True\<rparr>])"

section \<open>Trace headers\<close>

definition isHex :: "char \<Rightarrow> bool" where
  "isHex c \<longleftrightarrow> CHR ''0'' \<le> c \<and> c \<le> CHR ''9'' \<or> CHR ''a'' \<le> c \<and> c \<le> CHR ''f'' \<or>
     CHR ''A'' \<le> c \<and> c \<le> CHR ''F''"

definition copyHex :: "string \<Rightarrow> nat \<Rightarrow> nat \<Rightarrow> string option" where
  "copyHex s pos len =
     (if pos + len > length s then None
      else if list_all isHex (take len (drop pos s)) then Some (take len (drop pos s))
      else None)"

definition kHex :: string where
  "kHex = ''0123456789abcdef''"

text \<open>\<^verbatim>\<open>std::stoul\<close> in base 16, on hexadecimal digits.\<close>

definition hex_value :: "char \<Rightarrow> nat" where
  "hex_value c =
     (if byte c \<le> 57 then byte c - 48 else if byte c \<le> 70 then byte c - 55 else byte c - 87)"

definition stoul16 :: "string \<Rightarrow> nat" where
  "stoul16 s = foldl (\<lambda>n c. 16 * n + hex_value c) 0 s"

definition parseTraceparent :: "string \<Rightarrow> 'op SqlContext option" where
  "parseTraceparent header =
     (if length header \<noteq> 55 then None
      else if header ! 0 \<noteq> CHR ''0'' \<or> header ! 1 \<noteq> CHR ''0'' then None
      else if header ! 2 \<noteq> CHR ''-'' \<or> header ! 35 \<noteq> CHR ''-'' \<or> header ! 52 \<noteq> CHR ''-'' then None
      else case copyHex header 3 32 of
        None \<Rightarrow> None
      | Some trace \<Rightarrow>
          (case copyHex header 36 16 of
             None \<Rightarrow> None
           | Some span \<Rightarrow>
               (case copyHex header 53 2 of
                  None \<Rightarrow> None
                | Some flags \<Rightarrow>
                    if list_all (\<lambda>c. c = CHR ''0'') trace then None
                    else if list_all (\<lambda>c. c = CHR ''0'') span then None
                    else Some (defaultInstance\<lparr>traceId := trace, spanId := span,
                                 traceFlags := of_nat (stoul16 flags)\<rparr>))))"

definition formatTraceparent :: "'op SqlContext \<Rightarrow> string" where
  "formatTraceparent c =
     (if length (traceId c) \<noteq> 32 \<or> length (spanId c) \<noteq> 16 then []
      else if \<not> list_all isHex (traceId c) \<or> \<not> list_all isHex (spanId c) then []
      else if list_all (\<lambda>x. x = CHR ''0'') (traceId c) \<or> list_all (\<lambda>x. x = CHR ''0'') (spanId c) then []
      else ''00-'' @ traceId c @ ''-'' @ spanId c @ ''-''
        @ [kHex ! unat (drop_bit 4 (traceFlags c)), kHex ! unat (and (traceFlags c) 15)])"

text \<open>The digits of the sequence number, the least significant last.\<close>

fun span_digits :: "nat \<Rightarrow> 64 word \<Rightarrow> string" where
  "span_digits 0 sq = []"
| "span_digits (Suc i) sq = span_digits i (drop_bit 4 sq) @ [kHex ! unat (and sq 15)]"

definition nextSpanId :: "'op SqlContext list \<Rightarrow> 64 word \<Rightarrow> string \<times> 64 word" where
  "nextSpanId s globalSeq =
     (if traceId (current s) = [] \<and> spanId (current s) = [] then ([], globalSeq)
      else (span_digits 16 (globalSeq + 1), globalSeq + 1))"

section \<open>Trace headers round trip\<close>

lemma isHex_bytes: "isHex c \<longleftrightarrow> byte c \<in> {48..57} \<or> byte c \<in> {97..102} \<or> byte c \<in> {65..70}"
  by (auto simp: isHex_def less_eq_char_def)

lemma kHex_value:
  assumes "i < 16"
  shows "hex_value (kHex ! i) = i" "isHex (kHex ! i)"
proof -
  have "i \<in> set [0..<16]" using assms by simp
  then have "hex_value (kHex ! i) = i \<and> isHex (kHex ! i)"
    by (simp add: upt_rec numeral_nat) (elim disjE; simp add: kHex_def hex_value_def isHex_bytes)
  then show "hex_value (kHex ! i) = i" "isHex (kHex ! i)" by simp_all
qed

lemma hex_value_less: "isHex c \<Longrightarrow> hex_value c < 16"
  by (auto simp: isHex_bytes hex_value_def)

lemma char_of_byte: "of_char c = n \<Longrightarrow> n < 256 \<Longrightarrow> c = char_of (n::nat)"
  by (metis char_of_char)

lemma hex_chars: "map char_of ([48..<58] @ [97..<103] @ [65..<71 :: nat]) = ''0123456789abcdefABCDEF''"
  by code_simp

lemma lower_hex: "char_of (97::nat) = CHR ''a''" "char_of (98::nat) = CHR ''b''" "char_of (99::nat) = CHR ''c''"
  "char_of (100::nat) = CHR ''d''" "char_of (101::nat) = CHR ''e''" "char_of (102::nat) = CHR ''f''"
  by code_simp+

lemma hex_digit_again: "isHex c \<Longrightarrow> kHex ! hex_value c = tolower c"
proof -
  assume "isHex c"
  then have "byte c \<in> set ([48..<58] @ [97..<103] @ [65..<71])" unfolding isHex_bytes set_append set_upt by auto
  then have "c \<in> set (map char_of ([48..<58] @ [97..<103] @ [65..<71 :: nat]))"
    unfolding set_map by (metis char_of_char image_iff)
  then show ?thesis unfolding hex_chars
    by simp (elim disjE; simp add: kHex_def hex_value_def tolower_def isupper_def lower_hex)
qed

lemma word_nibbles:
  fixes f :: "8 word"
  shows "unat (drop_bit 4 f) = unat f div 16" and "unat (and f 15) = unat f mod 16"
proof -
  show "unat (drop_bit 4 f) = unat f div 16" by (simp add: drop_bit_eq_div unat_div)
  have "and f 15 = f mod 16" using take_bit_eq_mask [of 4 f] take_bit_eq_mod [of 4 f] by (simp add: mask_eq_exp_minus_1)
  then show "unat (and f 15) = unat f mod 16" by (simp add: unat_mod)
qed

lemma flags_value:
  fixes f :: "8 word"
  shows "of_nat (stoul16 [kHex ! unat (drop_bit 4 f), kHex ! unat (and f 15)]) = f"
    and "isHex (kHex ! unat (drop_bit 4 f))" and "isHex (kHex ! unat (and f 15))"
proof -
  have "unat f < 2 ^ LENGTH(8)" by (rule unsigned_less)
  then have less: "unat f div 16 < 16" "unat f mod 16 < 16" by auto
  show "of_nat (stoul16 [kHex ! unat (drop_bit 4 f), kHex ! unat (and f 15)]) = f"
    unfolding word_nibbles using less by (simp add: stoul16_def kHex_value)
  show "isHex (kHex ! unat (drop_bit 4 f))" "isHex (kHex ! unat (and f 15))"
    unfolding word_nibbles using less by (simp_all add: kHex_value)
qed

lemma format_shape:
  assumes "formatTraceparent c \<noteq> []"
  obtains "length (traceId c) = 32" "length (spanId c) = 16" "list_all isHex (traceId c)" "list_all isHex (spanId c)"
    "\<not> list_all (\<lambda>x. x = CHR ''0'') (traceId c)" "\<not> list_all (\<lambda>x. x = CHR ''0'') (spanId c)"
    "formatTraceparent c = ''00-'' @ traceId c @ ''-'' @ spanId c @ ''-''
        @ [kHex ! unat (drop_bit 4 (traceFlags c)), kHex ! unat (and (traceFlags c) 15)]"
  using assms by (auto simp: formatTraceparent_def split: if_splits)

lemma header_parts:
  assumes "length t = 32" "length s = 16" "h = ''00-'' @ t @ ''-'' @ s @ ''-'' @ [a, b]"
  shows "length h = 55" "h ! 0 = CHR ''0''" "h ! 1 = CHR ''0''" "h ! 2 = CHR ''-''" "h ! 35 = CHR ''-''"
    "h ! 52 = CHR ''-''" "take 32 (drop 3 h) = t" "take 16 (drop 36 h) = s" "take 2 (drop 53 h) = [a, b]"
    "take 53 h = ''00-'' @ t @ ''-'' @ s @ ''-''" "drop 53 h = [a, b]"
  using assms by (simp_all add: nth_append numeral_nat)

text \<open>
  A trace header that formatTraceparent produces is parsed back to the same trace id, span id
  and flags.
\<close>

theorem traceparent_roundtrip:
  assumes "formatTraceparent c \<noteq> []"
  shows "parseTraceparent (formatTraceparent c) =
    Some (defaultInstance\<lparr>traceId := traceId c, spanId := spanId c, traceFlags := traceFlags c\<rparr>)"
proof (rule format_shape [OF assms])
  let ?a = "kHex ! unat (drop_bit 4 (traceFlags c))" and ?b = "kHex ! unat (and (traceFlags c) 15)"
  assume len: "length (traceId c) = 32" "length (spanId c) = 16"
    and hex: "list_all isHex (traceId c)" "list_all isHex (spanId c)"
    and zero: "\<not> list_all (\<lambda>x. x = CHR ''0'') (traceId c)" "\<not> list_all (\<lambda>x. x = CHR ''0'') (spanId c)"
    and h: "formatTraceparent c = ''00-'' @ traceId c @ ''-'' @ spanId c @ ''-'' @ [?a, ?b]"
  note p = header_parts [OF len h]
  have "copyHex (formatTraceparent c) 3 32 = Some (traceId c)" "copyHex (formatTraceparent c) 36 16 = Some (spanId c)"
    "copyHex (formatTraceparent c) 53 2 = Some [?a, ?b]"
    unfolding copyHex_def p using hex flags_value(2,3) [of "traceFlags c"] by simp_all
  then show ?thesis unfolding parseTraceparent_def p using zero flags_value(1) [of "traceFlags c"] by simp
qed

lemma stoul16_hex2:
  assumes "isHex a" "isHex b"
  shows "[kHex ! unat (drop_bit 4 (of_nat (stoul16 [a, b]) :: 8 word)),
          kHex ! unat (and (of_nat (stoul16 [a, b]) :: 8 word) 15)] = [tolower a, tolower b]"
proof -
  define n where "n = 16 * hex_value a + hex_value b"
  have "hex_value a < 16" "hex_value b < 16" using assms by (simp_all add: hex_value_less)
  then have n: "n < 256" "n div 16 = hex_value a" "n mod 16 = hex_value b" by (auto simp: n_def)
  have u: "unat (of_nat n :: 8 word) = n" using n(1) by (simp add: unat_of_nat)
  show ?thesis
    unfolding word_nibbles using u n hex_digit_again assms by (simp add: n_def stoul16_def)
qed

lemma copyHex_Some: "copyHex s pos len = Some x \<longleftrightarrow> pos + len \<le> length s \<and> x = take len (drop pos s) \<and> list_all isHex x"
  by (auto simp: copyHex_def)

lemma header_split:
  assumes "length h = 55"
  shows "h = [h ! 0, h ! 1, h ! 2] @ take 32 (drop 3 h) @ [h ! 35] @ take 16 (drop 36 h) @ [h ! 52] @ drop 53 h"
proof (rule nth_equalityI)
  fix i assume "i < length h"
  then have "i \<in> {0, 1, 2} \<or> 3 \<le> i \<and> i < 35 \<or> i = 35 \<or> 36 \<le> i \<and> i < 52 \<or> i = 52 \<or> 53 \<le> i"
    by auto
  then show "h ! i = ([h ! 0, h ! 1, h ! 2] @ take 32 (drop 3 h) @ [h ! 35] @ take 16 (drop 36 h) @ [h ! 52] @ drop 53 h) ! i"
    using assms \<open>i < length h\<close> by (elim disjE) (auto simp: nth_append nth_Cons')
qed (use assms in simp)

theorem traceparent_format_parse:
  assumes "parseTraceparent h = Some c"
  shows "formatTraceparent c = take 53 h @ map tolower (drop 53 h)"
proof -
  have len: "length h = 55"
    and dash: "h ! 0 = CHR ''0''" "h ! 1 = CHR ''0''" "h ! 2 = CHR ''-''" "h ! 35 = CHR ''-''" "h ! 52 = CHR ''-''"
    and hex: "list_all isHex (take 32 (drop 3 h))" "list_all isHex (take 16 (drop 36 h))" "list_all isHex (take 2 (drop 53 h))"
    and nz: "\<not> list_all (\<lambda>x. x = CHR ''0'') (take 32 (drop 3 h))" "\<not> list_all (\<lambda>x. x = CHR ''0'') (take 16 (drop 36 h))"
    and c: "c = defaultInstance\<lparr>traceId := take 32 (drop 3 h), spanId := take 16 (drop 36 h),
      traceFlags := of_nat (stoul16 (take 2 (drop 53 h)))\<rparr>"
    using assms by (auto simp: parseTraceparent_def copyHex_Some split: if_splits option.splits)
  obtain a b where ab: "drop 53 h = [a, b]" using len
    by (cases "drop 53 h" rule: remdups_adj.cases) (auto dest: arg_cong [where f = length])
  have h: "h = ''00-'' @ take 32 (drop 3 h) @ ''-'' @ take 16 (drop 36 h) @ ''-'' @ [a, b]"
    using header_split [OF len] dash ab by simp
  have "length (take 32 (drop 3 h)) = 32" "length (take 16 (drop 36 h)) = 16" using len by simp_all
  note p = header_parts [OF this h]
  have "[kHex ! unat (drop_bit 4 (traceFlags c)), kHex ! unat (and (traceFlags c) 15)] = [tolower a, tolower b]"
    using stoul16_hex2 [of a b] hex(3) ab by (simp add: c)
  then show ?thesis unfolding p(10,11) using hex nz len by (simp add: formatTraceparent_def c)
qed

section \<open>Pinned scopes\<close>

lemma pinRequestWrite_scopes:
  assumes "2 \<le> length s" "i < length s"
  shows "pinRequestWrite s ! i =
    (if i = length s - 2 then (s ! i)\<lparr>wroteInThisRequest := True\<rparr> else s ! i)"
  using assms by (auto simp: pinRequestWrite_def)

lemma pinRequestWrite_length [simp]: "length (pinRequestWrite s) = length s"
  by (cases "s = []"; cases "2 \<le> length s") (auto simp: pinRequestWrite_def simp flip: length_greater_0_conv)

theorem pinRequestWrite_leaves_current:
  assumes "2 \<le> length s"
  shows "current (pinRequestWrite s) = current s \<and>
    (\<exists>i < length s. pinRequestWrite s = s[i := (s ! i)\<lparr>wroteInThisRequest := True\<rparr>] \<and> i = length s - 2)"
proof -
  have ne: "s \<noteq> []" "pinRequestWrite s \<noteq> []" using assms by (auto simp flip: length_greater_0_conv)
  have "last (pinRequestWrite s) = last s"
    using pinRequestWrite_scopes [OF assms, of "length s - 1"] assms ne by (simp add: last_conv_nth)
  then show ?thesis using ne assms by (auto simp: current_def pinRequestWrite_def)
qed

section \<open>Witnesses\<close>

definition sample_context :: "unit SqlContext" where
  "sample_context = defaultInstance\<lparr>traceId := ''0af7651916cd43dd8448eb211c80319c'', spanId := ''b7ad6b7169203331''\<rparr>"

theorem traceparent_roundtrip_witness:
  "formatTraceparent sample_context = ''00-0af7651916cd43dd8448eb211c80319c-b7ad6b7169203331-01'' \<and>
   parseTraceparent ''00-0af7651916cd43dd8448eb211c80319c-b7ad6b7169203331-01'' = Some sample_context"
proof -
  have f: "formatTraceparent sample_context = ''00-0af7651916cd43dd8448eb211c80319c-b7ad6b7169203331-01''"
    by code_simp
  then show ?thesis
    using traceparent_roundtrip [of sample_context] by (simp add: sample_context_def defaultInstance_def)
qed

theorem pinRequestWrite_leaves_current_witness:
  "current (pinRequestWrite [sample_context, sample_context]) = sample_context"
  using pinRequestWrite_leaves_current [of "[sample_context, sample_context]"] by (simp add: current_def)

end
