(* ===== verification/CircuitBreaker.thy ===== *)
theory CircuitBreaker
  imports Context
begin

text \<open>
  The circuit breaker and the retry loop of a plain data source, \<^verbatim>\<open>DataSource\<close> in
  \<^verbatim>\<open>src/core/database_manager.cpp\<close>.

  Times are nanoseconds of the steady clock; the default \<^verbatim>\<open>time_point\<close> is 0. The breaker is three
  atomics and the last error: each method is one function on their values. What a method takes from
  elsewhere is an argument: the clock reading, the status of the calling operation
  (\<^verbatim>\<open>operationStatus()\<close>), the random jitter. The failure counter is an \<open>int\<close>; its wrap-around
  after \<open>2\<^sup>31\<close> failures without a success is not modelled.
\<close>

section \<open>Configuration and state\<close>

record RetryConfig =
  max_attempts :: int
  initial_backoff_ms :: int
  max_backoff_ms :: int
  retry_writes :: bool

record CircuitBreakerConfig =
  failure_threshold :: int
  open_interval_ms :: int

record Breaker =
  circuitOpenUntil :: int
  halfOpenInFlight :: bool
  consecutiveFailures :: int
  lastError :: ErrorCode

definition new_breaker :: Breaker where
  "new_breaker = \<lparr>circuitOpenUntil = 0, halfOpenInFlight = False, consecutiveFailures = 0, lastError = Ok\<rparr>"

section \<open>The breaker\<close>

definition isCircuitOpen :: "CircuitBreakerConfig \<Rightarrow> int \<Rightarrow> Breaker \<Rightarrow> bool" where
  "isCircuitOpen cfg now b \<longleftrightarrow> failure_threshold cfg > 0 \<and> circuitOpenUntil b > now"

definition circuit_status :: "string \<Rightarrow> string \<Rightarrow> Status" where
  "circuit_status name what =
     error CircuitOpen (''datasource '' @ [SQ] @ name @ [SQ] @ '' circuit is '' @ what)"

definition beforeAttempt :: "string \<Rightarrow> CircuitBreakerConfig \<Rightarrow> Status \<Rightarrow> int \<Rightarrow> Breaker \<Rightarrow> Status \<times> Breaker" where
  "beforeAttempt name cfg stop now b =
     (if \<not> status_ok stop then (stop, b)
      else if failure_threshold cfg \<le> 0 then (OK, b)
      else if circuitOpenUntil b > now then (circuit_status name ''open'', b)
      else if circuitOpenUntil b \<noteq> 0 then
        (if halfOpenInFlight b then (circuit_status name ''half-open'', b)
         else (OK, b\<lparr>halfOpenInFlight := True\<rparr>))
      else (OK, b))"

definition afterAttempt :: "CircuitBreakerConfig \<Rightarrow> Status \<Rightarrow> Status \<Rightarrow> int \<Rightarrow> Breaker \<Rightarrow> Breaker" where
  "afterAttempt cfg st stop now b =
     (if (code st = Cancelled \<or> code st = QueryTimeout) \<and> \<not> status_ok stop
      then b\<lparr>halfOpenInFlight := False\<rparr>
      else
        (let b1 = (if status_ok st then b else b\<lparr>lastError := code st\<rparr>) in
         if failure_threshold cfg \<le> 0 then b1
         else if status_ok st
         then b1\<lparr>consecutiveFailures := 0, halfOpenInFlight := False, circuitOpenUntil := 0\<rparr>
         else
           (let b2 = b1\<lparr>halfOpenInFlight := False\<rparr> in
            if \<not> retryable st \<and> \<not> connectionBroken st
            then b2\<lparr>consecutiveFailures := 0, circuitOpenUntil := 0\<rparr>
            else
              (let n = consecutiveFailures b2 + 1; b3 = b2\<lparr>consecutiveFailures := n\<rparr> in
               if n \<ge> failure_threshold cfg
               then b3\<lparr>circuitOpenUntil := now + open_interval_ms cfg * 1000000\<rparr>
               else b3))))"

section \<open>Retries\<close>

definition resolveWriteAttempts :: "RetryConfig \<Rightarrow> Idempotency \<Rightarrow> int" where
  "resolveWriteAttempts retry idem =
     (case idem of
        NonIdempotent \<Rightarrow> 1
      | Idempotent \<Rightarrow> max 1 (max_attempts retry)
      | Unspecified \<Rightarrow> if retry_writes retry then max 1 (max_attempts retry) else 1)"

text \<open>The doubling loop: \<open>n\<close> is the number of iterations left, \<^verbatim>\<open>attempt - i\<close>.\<close>

fun backoff :: "int \<Rightarrow> nat \<Rightarrow> int \<Rightarrow> int" where
  "backoff m 0 delay = delay"
| "backoff m (Suc n) delay = (if delay < m then backoff m n (min (delay * 2) m) else delay)"

text \<open>The jitter is drawn uniformly from \<open>0\<close> to \<^verbatim>\<open>range - 1\<close>; \<open>draw\<close> maps the range to the value drawn.\<close>

definition randomJitter :: "(int \<Rightarrow> int) \<Rightarrow> int \<Rightarrow> int" where
  "randomJitter draw rng = (if rng \<le> 0 then 0 else draw rng)"

definition retryDelay :: "RetryConfig \<Rightarrow> (int \<Rightarrow> int) \<Rightarrow> nat \<Rightarrow> int" where
  "retryDelay retry draw attempt =
     (if initial_backoff_ms retry \<le> 0 then 0
      else
        (let delay = backoff (max_backoff_ms retry) (attempt - 1) (initial_backoff_ms retry);
             rng = max 1 (delay div 4 + 1)
         in min (max_backoff_ms retry) (delay + randomJitter draw rng)))"

section \<open>One attempt\<close>

text \<open>
  What the pool answers a borrow with: the pool is gone, the borrow failed with a code and a message,
  or a connection. \<open>borrowSession\<close> turns it into a status.
\<close>

datatype borrow_outcome = PoolGone | BorrowFailed ErrorCode string | Borrowed

definition borrowSession :: "string \<Rightarrow> borrow_outcome \<Rightarrow> Status" where
  "borrowSession name r =
     (case r of
        PoolGone \<Rightarrow> error PoolClosed (''datasource '' @ [SQ] @ name @ [SQ] @ '' has been shut down'')
      | BorrowFailed c err \<Rightarrow>
          (if c = ConnectionFailed
           then (error c err)\<lparr>retryable := True, connectionBroken := True\<rparr>
           else error c err)
      | Borrowed \<Rightarrow> OK)"

text \<open>
  The surroundings of one attempt: what the calls it makes return. The session call works on a
  state \<^typ>\<open>'w\<close> of its own (the database behind the connection) and produces the output.
\<close>

record ('a, 'w) attempt =
  at_stop :: Status
  at_before :: int
  at_borrow :: borrow_outcome
  at_session :: "'a \<Rightarrow> 'w \<Rightarrow> (Status \<times> 'a) \<times> 'w"
  at_stop_after :: Status
  at_after :: int

text \<open>
  From \<open>beforeAttempt\<close> to \<open>afterAttempt\<close>: a refused attempt ends the operation with the gate's status
  (\<open>Inl\<close>), any other yields the status and the output.
\<close>

definition attempt_once :: "string \<Rightarrow> CircuitBreakerConfig \<Rightarrow> ('a, 'w) attempt \<Rightarrow> 'a \<Rightarrow> 'w \<Rightarrow> Breaker \<Rightarrow>
    (Status + Status \<times> 'a) \<times> 'w \<times> Breaker" where
  "attempt_once name cfg e out w b =
     (case beforeAttempt name cfg (at_stop e) (at_before e) b of (gate, b1) \<Rightarrow>
        if \<not> status_ok gate then (Inl gate, w, b1)
        else
          (let bs = borrowSession name (at_borrow e);
               r = (if status_ok bs then at_session e out w else ((bs, out), w))
           in (Inr (fst r), snd r,
               afterAttempt cfg (fst (fst r)) (at_stop_after e) (at_after e) b1)))"

text \<open>
  The loop \<^verbatim>\<open>for (attempt = 1; attempt <= attempts; ++attempt)\<close> with \<open>left\<close> attempts to go, the
  next one being number \<open>k\<close>; \<open>prep k\<close> is what the body does to the output first. It returns the status,
  the output, the state and the breaker.
\<close>

fun attempt_loop :: "string \<Rightarrow> CircuitBreakerConfig \<Rightarrow> (nat \<Rightarrow> ('a, 'w) attempt) \<Rightarrow> (nat \<Rightarrow> 'a \<Rightarrow> 'a) \<Rightarrow>
    nat \<Rightarrow> nat \<Rightarrow> 'a \<Rightarrow> 'w \<Rightarrow> Breaker \<Rightarrow> Status \<times> 'a \<times> 'w \<times> Breaker" where
  "attempt_loop name cfg env prep 0 k out w b = (OK, out, w, b)"
| "attempt_loop name cfg env prep (Suc left) k out w b =
     (case attempt_once name cfg (env k) (prep k out) w b of
        (Inl gate, w', b') \<Rightarrow> (gate, out, w', b')
      | (Inr (st, out'), w', b') \<Rightarrow>
          if status_ok st then (st, out', w', b')
          else if \<not> retryable st \<or> left = 0 then (st, out', w', b')
          else attempt_loop name cfg env prep left (k + 1) out' w' b')"

section \<open>Counting failures\<close>

text \<open>An attempt the application itself stopped says nothing; the others count unless they fail for good.\<close>

definition app_stopped :: "Status \<Rightarrow> Status \<Rightarrow> bool" where
  "app_stopped st stop \<longleftrightarrow> (code st = Cancelled \<or> code st = QueryTimeout) \<and> \<not> status_ok stop"

definition counted :: "Status \<Rightarrow> bool" where
  "counted st \<longleftrightarrow> \<not> status_ok st \<and> (retryable st \<or> connectionBroken st)"

abbreviation after_all :: "CircuitBreakerConfig \<Rightarrow> (Status \<times> Status \<times> int) list \<Rightarrow> Breaker \<Rightarrow> Breaker" where
  "after_all cfg \<equiv> fold (\<lambda>(st, stop, now). afterAttempt cfg st stop now)"

definition failing_run :: "(Status \<times> Status \<times> int) list \<Rightarrow> (Status \<times> Status \<times> int) list" where
  "failing_run hist = takeWhile (\<lambda>(st, stop, now). counted st) (rev (filter (\<lambda>(st, stop, now). \<not> app_stopped st stop) hist))"

lemma failing_run_snoc:
  "failing_run (hist @ [(st, stop, now)]) =
     (if app_stopped st stop then failing_run hist
      else if counted st then (st, stop, now) # failing_run hist else [])"
  by (simp add: failing_run_def)

lemma afterAttempt_cases:
  assumes "0 < failure_threshold cfg"
  shows "app_stopped st stop \<Longrightarrow> afterAttempt cfg st stop now b = b\<lparr>halfOpenInFlight := False\<rparr>"
    and "\<not> app_stopped st stop \<Longrightarrow> \<not> counted st \<Longrightarrow>
      afterAttempt cfg st stop now b =
        b\<lparr>lastError := (if status_ok st then lastError b else code st), consecutiveFailures := 0,
          halfOpenInFlight := False, circuitOpenUntil := 0\<rparr>"
    and "\<not> app_stopped st stop \<Longrightarrow> counted st \<Longrightarrow>
      afterAttempt cfg st stop now b =
        b\<lparr>lastError := code st, halfOpenInFlight := False, consecutiveFailures := consecutiveFailures b + 1,
          circuitOpenUntil := (if consecutiveFailures b + 1 \<ge> failure_threshold cfg
            then now + open_interval_ms cfg * 1000000 else circuitOpenUntil b)\<rparr>"
  using assms by (auto simp: afterAttempt_def app_stopped_def counted_def Let_def)

text \<open>
  C20: After any history of attempts the failure count is the length of the trailing run of
  countable failures and the breaker is open exactly when that run reaches the threshold, until
  the configured interval after its last failure.
\<close>

theorem breaker_trips_on_failing_run:
  assumes "0 < failure_threshold cfg"
  shows "consecutiveFailures (after_all cfg hist new_breaker) = int (length (failing_run hist)) \<and>
    circuitOpenUntil (after_all cfg hist new_breaker) =
      (if int (length (failing_run hist)) \<ge> failure_threshold cfg
       then snd (snd (hd (failing_run hist))) + open_interval_ms cfg * 1000000 else 0)"
proof (induction hist rule: rev_induct)
  case Nil
  then show ?case using assms by (simp add: failing_run_def new_breaker_def)
next
  case (snoc e hist)
  obtain st stop now where e: "e = (st, stop, now)" by (cases e)
  let ?b = "after_all cfg hist new_breaker"
  have step: "after_all cfg (hist @ [e]) new_breaker = afterAttempt cfg st stop now ?b"
    by (simp add: e)
  consider "app_stopped st stop" | "\<not> app_stopped st stop" "\<not> counted st" | "\<not> app_stopped st stop" "counted st"
    by blast
  then show ?case
  proof cases
    case 1
    then show ?thesis unfolding step using snoc by (simp add: afterAttempt_cases(1) [OF assms] e failing_run_snoc)
  next
    case 2
    then show ?thesis unfolding step using assms by (simp add: afterAttempt_cases(2) [OF assms] e failing_run_snoc)
  next
    case 3
    have "int (length (failing_run hist)) < failure_threshold cfg"
      if "int (length (failing_run hist)) + 1 < failure_threshold cfg" using that by simp
    with 3 show ?thesis unfolding step using snoc
      by (simp add: afterAttempt_cases(3) [OF assms] e failing_run_snoc)
  qed
qed

section \<open>Half-open probes\<close>


lemma status_ok_circuit [simp]: "\<not> status_ok (circuit_status name what)"
  by (simp add: circuit_status_def)


lemma afterAttempt_frees: "0 < failure_threshold cfg \<Longrightarrow> \<not> halfOpenInFlight (afterAttempt cfg st stop now b)"
  by (simp add: afterAttempt_def Let_def)




section \<open>Delays\<close>

lemma backoff_closed: "0 < d \<Longrightarrow> d \<le> m \<Longrightarrow> backoff m n d = min m (d * 2 ^ n)"
proof (induction n arbitrary: d)
  case (Suc n)
  show ?case
  proof (cases "d < m")
    case True
    then have "backoff m (Suc n) d = min m (min (d * 2) m * 2 ^ n)" using Suc by simp
    also have "\<dots> = min m (d * 2 * 2 ^ n)"
    proof (cases "d * 2 \<le> m")
      case False
      have "m * 1 \<le> m * 2 ^ n" "d * 2 * 1 \<le> d * 2 * 2 ^ n"
        using Suc.prems by (intro mult_left_mono; simp)+
      with False show ?thesis by simp
    qed simp
    finally show ?thesis by (simp add: ac_simps)
  next
    case False
    then have "d = m" using Suc.prems by simp
    then show ?thesis using Suc.prems using one_le_power [of "2::int" "Suc n"] by (simp add: min_def mult_le_cancel_left1)
  qed
qed simp

text \<open>The delay before the jitter, as the configuration promises it: doubled per attempt up to the maximum.\<close>

definition nominal_delay :: "RetryConfig \<Rightarrow> nat \<Rightarrow> int" where
  "nominal_delay retry attempt = min (max_backoff_ms retry) (initial_backoff_ms retry * 2 ^ (attempt - 1))"

text \<open>
  The delay before a retry is the exponential backoff capped at the maximum, plus at most a
  quarter of it as jitter, and never more than the maximum.
\<close>

theorem retryDelay_bounds:
  assumes "0 < initial_backoff_ms retry" and "initial_backoff_ms retry \<le> max_backoff_ms retry"
    and "\<And>rng. 0 < rng \<Longrightarrow> 0 \<le> draw rng \<and> draw rng < rng"
  shows "nominal_delay retry attempt \<le> retryDelay retry draw attempt \<and>
    retryDelay retry draw attempt \<le> nominal_delay retry attempt + nominal_delay retry attempt div 4 \<and>
    retryDelay retry draw attempt \<le> max_backoff_ms retry"
proof -
  let ?d = "nominal_delay retry attempt"
  have d: "backoff (max_backoff_ms retry) (attempt - 1) (initial_backoff_ms retry) = ?d"
    using backoff_closed [OF assms(1,2)] by (simp add: nominal_delay_def)
  have "0 < ?d" using assms(1,2) by (simp add: nominal_delay_def)
  then have r: "max 1 (?d div 4 + 1) = ?d div 4 + 1" "0 < ?d div 4 + 1" by simp_all
  then have j: "0 \<le> randomJitter draw (?d div 4 + 1)" "randomJitter draw (?d div 4 + 1) \<le> ?d div 4"
    using assms(3) [of "?d div 4 + 1"] by (simp_all add: randomJitter_def)
  have "?d \<le> max_backoff_ms retry" by (simp add: nominal_delay_def)
  with j show ?thesis using assms(1) unfolding retryDelay_def d Let_def r(1) by (simp add: min_def)
qed

section \<open>What the loop sends\<close>

text \<open>
  The database sees the sessions of some of the attempts, in their order, each at most once and only
  with a connection.
\<close>

lemma attempt_once_state:
  assumes "attempt_once name cfg e out w b = (r, w', b')"
  shows "w' = w \<or> status_ok (borrowSession name (at_borrow e)) \<and> w' = snd (at_session e out w)"
  using assms by (auto simp: attempt_once_def Let_def split: prod.splits if_splits)

lemma attempt_loop_sends:
  assumes "attempt_loop name cfg env prep left k out w b = (st, out', w', b')"
  shows "\<exists>sent. w' = fold (\<lambda>(j, arg) w. snd (at_session (env j) arg w)) sent w \<and>
    sorted_wrt (<) (map fst sent) \<and> fst ` set sent \<subseteq> {k..<k + left} \<and>
    list_all (\<lambda>(j, arg). status_ok (borrowSession name (at_borrow (env j)))) sent"
  using assms
proof (induction left arbitrary: k out w b)
  case 0
  then show ?case by (intro exI [of _ "[]"]) simp
next
  case (Suc left)
  obtain r w1 b1 where once: "attempt_once name cfg (env k) (prep k out) w b = (r, w1, b1)"
    by (cases "attempt_once name cfg (env k) (prep k out) w b")
  define s where "s = (if w1 = w then [] else [(k, prep k out)])"
  have s: "w1 = fold (\<lambda>(j, arg) w. snd (at_session (env j) arg w)) s w" "fst ` set s \<subseteq> {k}"
    "list_all (\<lambda>(j, arg). status_ok (borrowSession name (at_borrow (env j)))) s" "sorted_wrt (<) (map fst s)"
    using attempt_once_state [OF once] by (auto simp: s_def)
  consider "w' = w1"
    | o1 where "attempt_loop name cfg env prep left (k + 1) o1 w1 b1 = (st, out', w', b')"
    using Suc.prems once by (auto split: sum.splits prod.splits if_splits)
  then show ?case
  proof cases
    case 1
    then show ?thesis using s by (intro exI [of _ s]) auto
  next
    case 2
    from Suc.IH [OF this] obtain t where t: "w' = fold (\<lambda>(j, arg) w. snd (at_session (env j) arg w)) t w1"
      "sorted_wrt (<) (map fst t)" "fst ` set t \<subseteq> {k + 1..<k + 1 + left}"
      "list_all (\<lambda>(j, arg). status_ok (borrowSession name (at_borrow (env j)))) t" by blast
    have "sorted_wrt (<) (map fst (s @ t))"
      using s(2,4) t(2,3) by (fastforce simp: sorted_wrt_append)
    then show ?thesis using s t by (intro exI [of _ "s @ t"]) auto
  qed
qed

section \<open>Witnesses\<close>

definition sample_breaker_cfg :: CircuitBreakerConfig where
  "sample_breaker_cfg = \<lparr>failure_threshold = 2, open_interval_ms = 5\<rparr>"

definition lost :: Status where
  "lost = (error ConnectionFailed [])\<lparr>connectionBroken := True\<rparr>"

definition sample_retry :: RetryConfig where
  "sample_retry = \<lparr>max_attempts = 3, initial_backoff_ms = 50, max_backoff_ms = 1000, retry_writes = False\<rparr>"

theorem breaker_trips_on_failing_run_witness:
  "consecutiveFailures (after_all sample_breaker_cfg [(lost, OK, 1), (lost, OK, 2)] new_breaker) = 2 \<and>
   circuitOpenUntil (after_all sample_breaker_cfg [(lost, OK, 1), (lost, OK, 2)] new_breaker) = 5000002"
proof -
  have "failing_run [(lost, OK, 1), (lost, OK, 2)] = [(lost, OK, 2), (lost, OK, 1)]"
    by (simp add: failing_run_def app_stopped_def counted_def lost_def status_ok_def)
  then show ?thesis
    using breaker_trips_on_failing_run [of sample_breaker_cfg "[(lost, OK, 1), (lost, OK, 2)]"]
    by (simp add: sample_breaker_cfg_def)
qed




theorem retryDelay_bounds_witness:
  "nominal_delay sample_retry 2 = 100 \<and>
   100 \<le> retryDelay sample_retry (\<lambda>rng. rng - 1) 2 \<and> retryDelay sample_retry (\<lambda>rng. rng - 1) 2 \<le> 125"
  using retryDelay_bounds [of sample_retry "\<lambda>rng. rng - 1" 2]
  by (simp add: sample_retry_def nominal_delay_def)

end
