(* ===== verification/CacheKey.thy ===== *)
theory CacheKey
  imports Types
begin

text \<open>
  The key of a cached query, \<open>cacheKey\<close> and \<open>appendValueKey\<close> of \<^verbatim>\<open>src/core/database_manager.cpp\<close>:
  the statement, the number of parameters and each parameter behind a separator. Appending to the key
  is returning the appended part.
\<close>

abbreviation RS :: char where
  "RS \<equiv> CHR 0x1E"

abbreviation US :: char where
  "US \<equiv> CHR 0x1F"

text \<open>A tag, the length, a colon and the bytes.\<close>

definition sized_key :: "char \<Rightarrow> string \<Rightarrow> string" where
  "sized_key tag s = tag # to_string (length s) @ '':'' @ s"

definition blob_bytes :: "8 word list \<Rightarrow> string" where
  "blob_bytes b = map (\<lambda>x. char_of (unat x)) b"

fun appendValueKey :: "Value \<Rightarrow> string" where
  "appendValueKey VNull = ''n''"
| "appendValueKey (VBool b) = ''b'' @ (if b then ''1'' else ''0'')"
| "appendValueKey (VInt64 x) = ''i'' @ to_string_int (sint x)"
| "appendValueKey (VUInt64 x) = ''u'' @ to_string (unat x)"
| "appendValueKey (VDouble x) = ''d'' @ to_string (unat x)"
| "appendValueKey (VTimestamp k) = ''t'' @ to_string_int k"
| "appendValueKey (VString s) = sized_key CHR ''s'' s"
| "appendValueKey (VDecimal s) = sized_key CHR ''m'' s"
| "appendValueKey (VDate s) = sized_key CHR ''a'' s"
| "appendValueKey (VTime s) = sized_key CHR ''o'' s"
| "appendValueKey (VUuid s) = sized_key CHR ''g'' s"
| "appendValueKey (VIntervalYearMonth s) = sized_key CHR ''y'' s"
| "appendValueKey (VIntervalDaySecond s) = sized_key CHR ''v'' s"
| "appendValueKey (VJson s) = sized_key CHR ''j'' s"
| "appendValueKey (VBlob b) = sized_key CHR ''x'' (blob_bytes b)"
| "appendValueKey (VArray vs) =
     ''A'' @ to_string (length vs) @ concat (map (\<lambda>v. US # appendValueKey v) vs)"
| "appendValueKey (VComposite fs) =
     ''C'' @ to_string (length fs)
     @ concat (map (\<lambda>(n, v). US # to_string (length n) @ '':'' @ n @ appendValueKey v) fs)"
| "appendValueKey (VTypedArray t vs) =
     ''Y'' @ t @ to_string (length vs) @ concat (map appendValueKey vs)"
| "appendValueKey (VTypedComposite t fs) =
     ''O'' @ t @ to_string (length fs) @ concat (map (\<lambda>(n, v). n @ appendValueKey v) fs)"

definition cacheKey :: "string \<Rightarrow> Params \<Rightarrow> string" where
  "cacheKey sql ps =
     sql @ [RS] @ to_string (length ps) @ concat (map (\<lambda>p. US # appendValueKey p) ps)"

section \<open>Numbers\<close>

definition no_digit_front :: "string \<Rightarrow> bool" where
  "no_digit_front r \<longleftrightarrow> r = [] \<or> \<not> isdigit (hd r)"

lemma to_string_split:
  assumes "to_string m @ r = to_string n @ q" "no_digit_front r" "no_digit_front q"
  shows "m = n \<and> r = q"
proof -
  have tw: "takeWhile isdigit (to_string k @ x) = to_string k" if "no_digit_front x" for k x
  proof -
    have "\<forall>c \<in> set (to_string k). isdigit c" using dec_digits_range by (auto simp: to_string_def)
    then have "takeWhile isdigit (to_string k @ x) = to_string k @ takeWhile isdigit x" by simp
    moreover have "takeWhile isdigit x = []" using that by (cases x) (auto simp: no_digit_front_def)
    ultimately show ?thesis by simp
  qed
  have "to_string m = to_string n" using tw [OF assms(2)] tw [OF assms(3)] assms(1) by metis
  then show ?thesis using assms(1) dec_value_digits by (metis same_append_eq to_string_def)
qed

lemma to_string_int_split:
  assumes "to_string_int m @ r = to_string_int n @ q" "no_digit_front r" "no_digit_front q"
  shows "m = n \<and> r = q"
proof -
  have dash: "\<not> isdigit CHR ''-''" by (simp add: isdigit_def)
  have "(m < 0) = (n < 0)"
    using assms(1) to_string_digit_front [of "nat m"] to_string_digit_front [of "nat n"] dash
    by (auto simp: to_string_int_def split: if_splits)
  then consider "m < 0" "n < 0" | "0 \<le> m" "0 \<le> n" by linarith
  then show ?thesis
  proof cases
    case 1
    then have "to_string (nat (- m)) @ r = to_string (nat (- n)) @ q" using assms(1) by (simp add: to_string_int_def)
    from to_string_split [OF this assms(2,3)] 1 show ?thesis by (auto simp: eq_nat_nat_iff)
  next
    case 2
    then have "to_string (nat m) @ r = to_string (nat n) @ q" using assms(1) by (simp add: to_string_int_def)
    from to_string_split [OF this assms(2,3)] 2 show ?thesis by (auto simp: eq_nat_nat_iff)
  qed
qed

section \<open>Keys can be read back\<close>

text \<open>Behind a key comes its end or a separator, and neither continues a number.\<close>

definition sep_front :: "string \<Rightarrow> bool" where
  "sep_front r \<longleftrightarrow> r = [] \<or> hd r = US"

lemma sep_no_digit: "sep_front r \<Longrightarrow> no_digit_front r"
  by (auto simp: sep_front_def no_digit_front_def isdigit_def)

lemma sized_split:
  assumes "sized_key a s @ r = sized_key b s' @ r'"
  shows "a = b \<and> s = s' \<and> r = r'"
proof -
  have colon: "no_digit_front ('':'' @ x)" for x by (simp add: no_digit_front_def isdigit_def)
  have "to_string (length s) @ '':'' @ s @ r = to_string (length s') @ '':'' @ s' @ r'"
    using assms by (simp add: sized_key_def)
  from to_string_split [OF this colon colon] have "length s = length s'" "s @ r = s' @ r'" by simp_all
  then show ?thesis using assms by (simp add: sized_key_def)
qed

lemma blob_bytes_inject: "blob_bytes a = blob_bytes b \<Longrightarrow> a = b"
proof -
  have "x = y" if "char_of (unat x) = (char_of (unat y) :: char)" for x y :: "8 word"
  proof -
    have "unat z < 256" for z :: "8 word" using unsigned_less [of z] by simp
    then have "unat x = unat y" using arg_cong [OF that, of "of_char :: char \<Rightarrow> nat"] by simp
    then show "x = y" by (simp add: word_unat_eq_iff)
  qed
  then have "inj (\<lambda>x :: 8 word. char_of (unat x) :: char)" by (rule injI)
  then show "blob_bytes a = blob_bytes b \<Longrightarrow> a = b" by (simp add: blob_bytes_def inj_map_eq_map)
qed

text \<open>Values without the driver-named types, whose keys leave out the lengths.\<close>

fun untyped :: "Value \<Rightarrow> bool" where
  "untyped (VArray vs) = list_all untyped vs"
| "untyped (VComposite fs) = list_all (\<lambda>(n, v). untyped v) fs"
| "untyped (VTypedArray t vs) = False"
| "untyped (VTypedComposite t fs) = False"
| "untyped _ = True"

text \<open>
  The first byte tells the kind of the value; the keys of two values of one kind that agree up to a
  separator are those of equal values.
\<close>

lemma seps_front:
  assumes "sep_front r" "\<And>x. \<exists>cs. g x = US # cs"
  shows "sep_front (concat (map g xs) @ r)"
proof (cases xs)
  case (Cons x xs')
  obtain cs where "g x = US # cs" using assms(2) by blast
  then show ?thesis using Cons by (simp add: sep_front_def)
qed (use assms in simp)

lemma items_split:
  assumes "length vs = length vs'"
    and "\<And>v v' r r'. v \<in> set vs \<Longrightarrow> untyped v \<Longrightarrow> untyped v' \<Longrightarrow> f v @ r = f v' @ r' \<Longrightarrow> sep_front r \<Longrightarrow> sep_front r' \<Longrightarrow>
      v = v' \<and> r = r'"
    and "list_all untyped vs" "list_all untyped vs'" "sep_front r" "sep_front r'"
    and "concat (map (\<lambda>v. US # f v) vs) @ r = concat (map (\<lambda>v. US # f v) vs') @ r'"
  shows "vs = vs' \<and> r = r'"
  using assms
proof (induction vs vs' arbitrary: rule: list_induct2)
  case (Cons v vs v' vs')
  let ?rest = "\<lambda>vs r. concat (map (\<lambda>v. US # f v) vs) @ r"
  have front: "sep_front (?rest us q)" if "sep_front q" for us q
    using that by (rule seps_front) auto
  have "f v @ ?rest vs r = f v' @ ?rest vs' r'" using Cons.prems by simp
  with Cons.prems front have "v = v' \<and> ?rest vs r = ?rest vs' r'" by (intro Cons.prems(1)) auto
  then show ?case using Cons.IH Cons.prems by auto
qed simp

lemma fields_split:
  assumes "length fs = length fs'"
    and "\<And>n v v' r r'. (n, v) \<in> set fs \<Longrightarrow> untyped v \<Longrightarrow> untyped v' \<Longrightarrow> f v @ r = f v' @ r' \<Longrightarrow> sep_front r \<Longrightarrow>
      sep_front r' \<Longrightarrow> v = v' \<and> r = r'"
    and "list_all (\<lambda>(n, v). untyped v) fs" "list_all (\<lambda>(n, v). untyped v) fs'" "sep_front r" "sep_front r'"
    and "concat (map (\<lambda>(n, v). US # to_string (length n) @ '':'' @ n @ f v) fs) @ r =
      concat (map (\<lambda>(n, v). US # to_string (length n) @ '':'' @ n @ f v) fs') @ r'"
  shows "fs = fs' \<and> r = r'"
  using assms
proof (induction fs fs' arbitrary: rule: list_induct2)
  case (Cons x fs y fs')
  obtain n v n' v' where xy: "x = (n, v)" "y = (n', v')" by (cases x; cases y)
  let ?rest = "\<lambda>fs r. concat (map (\<lambda>(n, v). US # to_string (length n) @ '':'' @ n @ f v) fs) @ r"
  have front: "sep_front (?rest us q)" if "sep_front q" for us q
    using that by (rule seps_front) auto
  have "sized_key CHR ''s'' n @ f v @ ?rest fs r = sized_key CHR ''s'' n' @ f v' @ ?rest fs' r'"
    using Cons.prems(6) xy by (simp add: sized_key_def)
  from sized_split [OF this] have eq: "n = n'" "f v @ ?rest fs r = f v' @ ?rest fs' r'" by simp_all
  have v: "v = v' \<and> ?rest fs r = ?rest fs' r'"
    by (rule Cons.prems(1) [of n, OF _ _ _ eq(2) front front]) (use Cons.prems(2-5) xy in simp_all)
  have "fs = fs' \<and> r = r'"
  proof (rule Cons.IH)
    fix m u u' q q'
    assume "(m, u) \<in> set fs" "untyped u" "untyped u'" "f u @ q = f u' @ q'" "sep_front q" "sep_front q'"
    then show "u = u' \<and> q = q'" by (intro Cons.prems(1) [of m]) simp_all
  qed (use Cons.prems(2-5) xy v in simp_all)
  then show ?case using v eq(1) xy by simp
qed simp

lemma key_kinds:
  "hd (appendValueKey v) = CHR ''n'' \<longleftrightarrow> v = VNull"
  "hd (appendValueKey v) = CHR ''b'' \<longleftrightarrow> (\<exists>b. v = VBool b)"
  "hd (appendValueKey v) = CHR ''i'' \<longleftrightarrow> (\<exists>x. v = VInt64 x)"
  "hd (appendValueKey v) = CHR ''u'' \<longleftrightarrow> (\<exists>x. v = VUInt64 x)"
  "hd (appendValueKey v) = CHR ''d'' \<longleftrightarrow> (\<exists>x. v = VDouble x)"
  "hd (appendValueKey v) = CHR ''t'' \<longleftrightarrow> (\<exists>k. v = VTimestamp k)"
  "hd (appendValueKey v) = CHR ''s'' \<longleftrightarrow> (\<exists>s. v = VString s)"
  "hd (appendValueKey v) = CHR ''m'' \<longleftrightarrow> (\<exists>s. v = VDecimal s)"
  "hd (appendValueKey v) = CHR ''a'' \<longleftrightarrow> (\<exists>s. v = VDate s)"
  "hd (appendValueKey v) = CHR ''o'' \<longleftrightarrow> (\<exists>s. v = VTime s)"
  "hd (appendValueKey v) = CHR ''g'' \<longleftrightarrow> (\<exists>s. v = VUuid s)"
  "hd (appendValueKey v) = CHR ''y'' \<longleftrightarrow> (\<exists>s. v = VIntervalYearMonth s)"
  "hd (appendValueKey v) = CHR ''v'' \<longleftrightarrow> (\<exists>s. v = VIntervalDaySecond s)"
  "hd (appendValueKey v) = CHR ''j'' \<longleftrightarrow> (\<exists>s. v = VJson s)"
  "hd (appendValueKey v) = CHR ''x'' \<longleftrightarrow> (\<exists>b. v = VBlob b)"
  "hd (appendValueKey v) = CHR ''A'' \<longleftrightarrow> (\<exists>vs. v = VArray vs)"
  "hd (appendValueKey v) = CHR ''C'' \<longleftrightarrow> (\<exists>fs. v = VComposite fs)"
  by (cases v; simp add: sized_key_def)+

lemma key_nonempty [simp]: "appendValueKey v \<noteq> []"
  by (cases v) (simp_all add: sized_key_def)

lemma key_head:
  assumes "appendValueKey v @ r = appendValueKey v' @ r'"
  shows "hd (appendValueKey v') = hd (appendValueKey v)"
  using arg_cong [OF assms, of hd] by simp

lemma key_split:
  "untyped v \<Longrightarrow> untyped v' \<Longrightarrow> appendValueKey v @ r = appendValueKey v' @ r' \<Longrightarrow> sep_front r \<Longrightarrow> sep_front r' \<Longrightarrow>
   v = v' \<and> r = r'"
proof (induction v arbitrary: v' r r' rule: appendValueKey.induct)
  case 1
  then have "v' = VNull" using key_head [OF 1(3)] by (simp add: key_kinds)
  then show ?case using 1 by simp
next
  case (2 b)
  then obtain b' where "v' = VBool b'" using key_head [OF 2(3)] by (auto simp: key_kinds)
  then show ?case using 2 by (auto split: if_splits)
next
  case (3 x)
  then obtain x' where v': "v' = VInt64 x'" using key_head [OF 3(3)] by (auto simp: key_kinds)
  then have "to_string_int (sint x) @ r = to_string_int (sint x') @ r'" using 3 by simp
  from to_string_int_split [OF this] have "sint x = sint x'" "r = r'" using 3 by (simp_all add: sep_no_digit)
  then show ?case using v' by (auto intro: signed_word_eqI [where 'a = int])
next
  case (4 x)
  then obtain x' where v': "v' = VUInt64 x'" using key_head [OF 4(3)] by (auto simp: key_kinds)
  then have "to_string (unat x) @ r = to_string (unat x') @ r'" using 4 by simp
  from to_string_split [OF this] have "unat x = unat x'" "r = r'" using 4 by (simp_all add: sep_no_digit)
  then show ?case using v' by (simp add: word_unat_eq_iff)
next
  case (5 x)
  then obtain x' where v': "v' = VDouble x'" using key_head [OF 5(3)] by (auto simp: key_kinds)
  then have "to_string (unat x) @ r = to_string (unat x') @ r'" using 5 by simp
  from to_string_split [OF this] have "unat x = unat x'" "r = r'" using 5 by (simp_all add: sep_no_digit)
  then show ?case using v' by (simp add: word_unat_eq_iff)
next
  case (6 k)
  then obtain k' where v': "v' = VTimestamp k'" using key_head [OF 6(3)] by (auto simp: key_kinds)
  then have "to_string_int k @ r = to_string_int k' @ r'" using 6 by simp
  from to_string_int_split [OF this] show ?case using v' 6 by (simp add: sep_no_digit)
next
  case (7 s)
  then obtain s' where v': "v' = VString s'" using key_head [OF 7(3)] by (auto simp: key_kinds sized_key_def)
  with 7(3) show ?case by (auto dest: sized_split)
next
  case (8 s)
  then obtain s' where v': "v' = VDecimal s'" using key_head [OF 8(3)] by (auto simp: key_kinds sized_key_def)
  with 8(3) show ?case by (auto dest: sized_split)
next
  case (9 s)
  then obtain s' where v': "v' = VDate s'" using key_head [OF 9(3)] by (auto simp: key_kinds sized_key_def)
  with 9(3) show ?case by (auto dest: sized_split)
next
  case (10 s)
  then obtain s' where v': "v' = VTime s'" using key_head [OF 10(3)] by (auto simp: key_kinds sized_key_def)
  with 10(3) show ?case by (auto dest: sized_split)
next
  case (11 s)
  then obtain s' where v': "v' = VUuid s'" using key_head [OF 11(3)] by (auto simp: key_kinds sized_key_def)
  with 11(3) show ?case by (auto dest: sized_split)
next
  case (12 s)
  then obtain s' where v': "v' = VIntervalYearMonth s'" using key_head [OF 12(3)] by (auto simp: key_kinds sized_key_def)
  with 12(3) show ?case by (auto dest: sized_split)
next
  case (13 s)
  then obtain s' where v': "v' = VIntervalDaySecond s'" using key_head [OF 13(3)] by (auto simp: key_kinds sized_key_def)
  with 13(3) show ?case by (auto dest: sized_split)
next
  case (14 s)
  then obtain s' where v': "v' = VJson s'" using key_head [OF 14(3)] by (auto simp: key_kinds sized_key_def)
  with 14(3) show ?case by (auto dest: sized_split)
next
  case (15 b)
  then obtain b' where v': "v' = VBlob b'" using key_head [OF 15(3)] by (auto simp: key_kinds sized_key_def)
  with 15(3) show ?case by (auto dest!: sized_split blob_bytes_inject)
next
  case (16 vs)
  then obtain vs' where v': "v' = VArray vs'" using key_head [OF 16(4)] by (auto simp: key_kinds)
  let ?rest = "\<lambda>vs r. concat (map (\<lambda>v. US # appendValueKey v) vs) @ r"
  have front: "sep_front (?rest us q)" if "sep_front q" for us q
    using that by (rule seps_front) auto
  have "to_string (length vs) @ ?rest vs r = to_string (length vs') @ ?rest vs' r'" using 16(4) v' by simp
  then have len: "length vs = length vs'" and rest: "?rest vs r = ?rest vs' r'"
    using to_string_split [of "length vs" "?rest vs r" "length vs'" "?rest vs' r'"] front 16(5,6)
    by (auto simp: sep_no_digit)
  have "vs = vs' \<and> r = r'"
  proof (rule items_split [where f = appendValueKey, OF len _ _ _ 16(5,6) rest])
    fix u u' q q'
    assume "u \<in> set vs" "untyped u" "untyped u'" "appendValueKey u @ q = appendValueKey u' @ q'" "sep_front q" "sep_front q'"
    then show "u = u' \<and> q = q'" by (rule 16(1))
  qed (use 16(2,3) v' in simp_all)
  then show ?case using v' by simp
next
  case (17 fs)
  then obtain fs' where v': "v' = VComposite fs'" using key_head [OF 17(4)] by (auto simp: key_kinds)
  let ?rest = "\<lambda>fs r. concat (map (\<lambda>(n, v). US # to_string (length n) @ '':'' @ n @ appendValueKey v) fs) @ r"
  have front: "sep_front (?rest us q)" if "sep_front q" for us q
    using that by (rule seps_front) auto
  have "to_string (length fs) @ ?rest fs r = to_string (length fs') @ ?rest fs' r'" using 17(4) v' by simp
  then have len: "length fs = length fs'" and rest: "?rest fs r = ?rest fs' r'"
    using to_string_split [of "length fs" "?rest fs r" "length fs'" "?rest fs' r'"] front 17(5,6)
    by (auto simp: sep_no_digit)
  have "fs = fs' \<and> r = r'"
  proof (rule fields_split [where f = appendValueKey, OF len _ _ _ 17(5,6) rest])
    fix n u u' q q'
    assume "(n, u) \<in> set fs" "untyped u" "untyped u'" "appendValueKey u @ q = appendValueKey u' @ q'"
      "sep_front q" "sep_front q'"
    then show "u = u' \<and> q = q'" by (rule 17(1) [OF _ refl])
  qed (use 17(2,3) v' in simp_all)
  then show ?case using v' by simp
next
  case (18 t vs)
  then show ?case by simp
next
  case (19 t fs)
  then show ?case by simp
qed

section \<open>Which queries share a key\<close>

text \<open>
  C34: Equal cache keys come from the same statement and the same values, for statements without
  the record separator and values without typed arrays or typed composites.
\<close>

theorem cacheKey_inject:
  assumes "RS \<notin> set sql" and "RS \<notin> set sql'" and "list_all untyped ps" and "list_all untyped ps'"
    and "cacheKey sql ps = cacheKey sql' ps'"
  shows "sql = sql' \<and> ps = ps'"
proof -
  let ?rest = "\<lambda>vs. concat (map (\<lambda>v. US # appendValueKey v) vs) @ []"
  have front: "sep_front (?rest us)" for us by (rule seps_front) (auto simp: sep_front_def)
  have sql: "takeWhile (\<lambda>c. c \<noteq> RS) (cacheKey q us) = q" if "RS \<notin> set q" for q us
  proof -
    have "takeWhile (\<lambda>c. c \<noteq> RS) (q @ RS # x) = q" for x using that by (induction q) auto
    then show ?thesis by (simp add: cacheKey_def)
  qed
  have "sql = sql'" using sql [OF assms(1)] sql [OF assms(2)] assms(5) by metis
  moreover from this have eq: "to_string (length ps) @ ?rest ps = to_string (length ps') @ ?rest ps'"
    using assms(5) by (simp add: cacheKey_def)
  then have len: "length ps = length ps'" and rest: "?rest ps = ?rest ps'"
    using to_string_split [OF eq] front by (simp_all add: sep_no_digit)
  have "ps = ps' \<and> ([] :: string) = []"
  proof (rule items_split [where f = appendValueKey, OF len _ assms(3,4) _ _ rest])
    fix u u' q q'
    assume "untyped u" "untyped u'" "appendValueKey u @ q = appendValueKey u' @ q'" "sep_front q" "sep_front q'"
    then show "u = u' \<and> q = q'" by (rule key_split)
  qed (simp_all add: sep_front_def)
  ultimately show ?thesis by simp
qed

text \<open>
  The keys of driver-named arrays and objects carry no length for the type name, and those of objects
  none for the field names: different parameters can share a key, and so a cached result.
\<close>

theorem cacheKey_collides:
  "cacheKey sql [VTypedArray ''T'' [VBool False]] = cacheKey sql [VTypedArray ''T1b'' []] \<and>
   cacheKey sql [VTypedComposite ''T'' [(''a'', VString ''n'')]] = cacheKey sql [VTypedComposite ''T'' [(''as1:'', VNull)]]"
proof -
  have "char_of (48 :: nat) = CHR ''0''" "char_of (49 :: nat) = CHR ''1''" by code_simp+
  then show ?thesis by (simp add: cacheKey_def sized_key_def to_string_def dec_digits.simps)
qed

section \<open>Witness\<close>

theorem cacheKey_inject_witness:
  "cacheKey ''SELECT ?'' [VString ''1''] \<noteq> cacheKey ''SELECT ?'' [VInt64 1]"
  using cacheKey_inject [of "''SELECT ?''" "''SELECT ?''" "[VString ''1'']" "[VInt64 1]"] by auto

end
