(* ===== verification/WriteBuffer.thy ===== *)
theory WriteBuffer
  imports Types "HOL-Library.Sublist"
begin

text \<open>
  The volatile write buffer, \<^verbatim>\<open>src/core/write_buffer.cpp\<close> and its header.

  A task is a value \<^typ>\<open>'t\<close> whose execution \<open>exec\<close> works on a state \<^typ>\<open>'w\<close>. Everything the code does
  under its mutex is one function on the buffer; the worker's loop is the three sections of one pass:
  taking the queue, running the batch (no lock held), putting the failed tasks back. Times are
  nanoseconds; \<open>clk\<close> gives the readings of a pass.
\<close>

section \<open>State and operations\<close>

record WriteBufferConfig =
  wbc_enabled :: bool
  max_queue :: int
  wbc_ttl_ms :: int
  flush_interval_ms :: int

record 't WriteBuffer =
  wb_cfg :: WriteBufferConfig
  wb_enabled :: bool
  wb_q :: "('t \<times> int) list"
  wb_stop :: bool
  wb_running :: bool

definition new_buffer :: "WriteBufferConfig \<Rightarrow> 't WriteBuffer" where
  "new_buffer cfg =
     \<lparr>wb_cfg = cfg\<lparr>max_queue := (if max_queue cfg < 1 then 1 else max_queue cfg),
                flush_interval_ms := (if flush_interval_ms cfg < 10 then 10 else flush_interval_ms cfg)\<rparr>,
      wb_enabled = wbc_enabled cfg, wb_q = [], wb_stop = False, wb_running = False\<rparr>"

definition enqueue :: "'t option \<Rightarrow> int \<Rightarrow> 't WriteBuffer \<Rightarrow> bool \<times> 't WriteBuffer" where
  "enqueue task now b =
     (case task of
        None \<Rightarrow> (False, b)
      | Some t \<Rightarrow>
          if \<not> wb_enabled b then (False, b)
          else if wb_stop b \<or> \<not> wb_running b then (False, b)
          else if int (length (wb_q b)) \<ge> max_queue (wb_cfg b) then (False, b)
          else (True, b\<lparr>wb_q := wb_q b @ [(t, now)]\<rparr>))"

definition pending :: "'t WriteBuffer \<Rightarrow> nat" where
  "pending b = length (wb_q b)"

definition start :: "'t WriteBuffer \<Rightarrow> 't WriteBuffer" where
  "start b =
     (if \<not> wb_enabled b then b
      else if wb_running b then b
      else b\<lparr>wb_running := True, wb_stop := False\<rparr>)"

text \<open>\<open>stop\<close>: the request, and what follows once the worker has been joined.\<close>

definition stop_request :: "'t WriteBuffer \<Rightarrow> 't WriteBuffer" where
  "stop_request b = (if \<not> wb_running b then b else b\<lparr>wb_stop := True\<rparr>)"

definition stop_joined :: "'t WriteBuffer \<Rightarrow> 't WriteBuffer" where
  "stop_joined b = b\<lparr>wb_running := False\<rparr>"

section \<open>One pass of the worker\<close>

definition take_batch :: "'t WriteBuffer \<Rightarrow> (bool \<times> ('t \<times> int) list) \<times> 't WriteBuffer" where
  "take_batch b = ((wb_stop b, wb_q b), b\<lparr>wb_q := []\<rparr>)"

fun run_batch :: "WriteBufferConfig \<Rightarrow> bool \<Rightarrow> ('t \<Rightarrow> 'w \<Rightarrow> Status \<times> 'w) \<Rightarrow> (nat \<Rightarrow> int) \<Rightarrow> nat \<Rightarrow> ('t \<times> int) list \<Rightarrow>
    'w \<Rightarrow> ('t \<times> int) list \<times> 'w" where
  "run_batch cfg finalPass exec clk k [] w = ([], w)"
| "run_batch cfg finalPass exec clk k ((t, at) # items) w =
     (if wbc_ttl_ms cfg > 0 \<and> clk k - at > wbc_ttl_ms cfg * 1000000
      then run_batch cfg finalPass exec clk (k + 1) items w
      else
        (case exec t w of (st, w') \<Rightarrow>
           case run_batch cfg finalPass exec clk (k + 1) items w' of (again, w'') \<Rightarrow>
             (if status_ok st then again
              else if \<not> finalPass \<and> (retryable st \<or> connectionBroken st) then (t, at) # again
              else again, w'')))"

fun refill :: "int \<Rightarrow> ('t \<times> int) list \<Rightarrow> ('t \<times> int) list \<Rightarrow> ('t \<times> int) list" where
  "refill m [] q = q"
| "refill m (x # xs) q = refill m xs (if int (length q) \<ge> m then q else q @ [x])"

definition requeue :: "('t \<times> int) list \<Rightarrow> 't WriteBuffer \<Rightarrow> 't WriteBuffer" where
  "requeue again b =
     (if again = [] then b
      else b\<lparr>wb_q := refill (max_queue (wb_cfg b)) (again @ wb_q b) []\<rparr>)"

definition abandon :: "'t WriteBuffer \<Rightarrow> 't WriteBuffer" where
  "abandon b = b\<lparr>wb_q := []\<rparr>"

definition end_pass :: "bool \<Rightarrow> ('t \<times> int) list \<Rightarrow> 't WriteBuffer \<Rightarrow> 't WriteBuffer" where
  "end_pass finalPass again b =
     (let b' = requeue again b in if finalPass then abandon b' else b')"

section \<open>Bounds and order\<close>

lemma refill_take: "int (length q) \<le> m \<Longrightarrow> refill m xs q = q @ take (nat m - length q) xs"
proof (induction xs arbitrary: q)
  case (Cons x xs)
  show ?case
  proof (cases "int (length q) \<ge> m")
    case True
    then have "nat m - length q = 0" by linarith
    then show ?thesis using Cons True by simp
  next
    case False
    then have "nat m - length q = Suc (nat m - length (q @ [x]))" by simp
    then show ?thesis using Cons.IH [of "q @ [x]"] False by simp
  qed
qed simp

lemma requeue_eq: "0 \<le> max_queue (wb_cfg b) \<Longrightarrow>
  requeue again b = (if again = [] then b else b\<lparr>wb_q := take (nat (max_queue (wb_cfg b))) (again @ wb_q b)\<rparr>)"
  by (simp add: requeue_def refill_take)

text \<open>The tasks of a batch that are tried again, in the order of the batch.\<close>

lemma run_batch_subseq: "subseq (fst (run_batch cfg finalPass exec clk k items w)) items"
proof (induction items arbitrary: k w)
  case (Cons x items)
  obtain t at where x: "x = (t, at)" by (cases x)
  show ?case
  proof (cases "wbc_ttl_ms cfg > 0 \<and> clk k - at > wbc_ttl_ms cfg * 1000000")
    case True
    then show ?thesis using Cons.IH [of "k + 1" w] by (simp add: x list_emb_Cons)
  next
    case False
    obtain st w' where st: "exec t w = (st, w')" by (cases "exec t w")
    obtain again w'' where again: "run_batch cfg finalPass exec clk (Suc k) items w' = (again, w'')"
      by (cases "run_batch cfg finalPass exec clk (Suc k) items w'")
    then have "subseq again items" using Cons.IH [of "Suc k" w'] by simp
    then show ?thesis using False by (auto simp: x st again list_emb_Cons)
  qed
qed simp

text \<open>
  The buffer with its producers and its worker: producers add tasks, numbered in the order they are
  accepted, while the worker is idle or in a pass; \<open>held\<close> is the batch the worker has taken.
\<close>

record ('t, 'w) wb_sys =
  ws_buf :: "(nat \<times> 't) WriteBuffer"
  ws_held :: "((nat \<times> 't) \<times> int) list"
  ws_pass :: "bool option"
  ws_db :: 'w
  ws_next :: nat

inductive wb_step :: "(nat \<times> 't \<Rightarrow> 'w \<Rightarrow> Status \<times> 'w) \<Rightarrow> ('t, 'w) wb_sys \<Rightarrow> ('t, 'w) wb_sys \<Rightarrow> bool" for exec where
  produce: "enqueue (Some (ws_next s, t)) now (ws_buf s) = (True, b') \<Longrightarrow>
    wb_step exec s (s\<lparr>ws_buf := b', ws_next := ws_next s + 1\<rparr>)"
| begin_pass: "ws_pass s = None \<Longrightarrow> wb_running (ws_buf s) \<Longrightarrow> take_batch (ws_buf s) = ((fin, batch), b') \<Longrightarrow>
    wb_step exec s (s\<lparr>ws_buf := b', ws_held := batch, ws_pass := Some fin\<rparr>)"
| finish_pass: "ws_pass s = Some fin \<Longrightarrow> run_batch (wb_cfg (ws_buf s)) fin exec clk 0 (ws_held s) (ws_db s) = (again, db') \<Longrightarrow>
    wb_step exec s (s\<lparr>ws_buf := end_pass fin again (ws_buf s), ws_held := [], ws_pass := None, ws_db := db'\<rparr>)"
| request_stop: "wb_step exec s (s\<lparr>ws_buf := stop_request (ws_buf s)\<rparr>)"
| start_worker: "wb_step exec s (s\<lparr>ws_buf := start (ws_buf s)\<rparr>)"

definition wb_initial :: "WriteBufferConfig \<Rightarrow> 'w \<Rightarrow> ('t, 'w) wb_sys" where
  "wb_initial cfg db = \<lparr>ws_buf = new_buffer cfg, ws_held = [], ws_pass = None, ws_db = db, ws_next = 0\<rparr>"

abbreviation numbers :: "((nat \<times> 't) \<times> int) list \<Rightarrow> nat list" where
  "numbers q \<equiv> map (fst \<circ> fst) q"

definition wb_inv :: "('t, 'w) wb_sys \<Rightarrow> bool" where
  "wb_inv s \<longleftrightarrow> 1 \<le> max_queue (wb_cfg (ws_buf s)) \<and>
     int (length (wb_q (ws_buf s))) \<le> max_queue (wb_cfg (ws_buf s)) \<and>
     sorted_wrt (<) (numbers (ws_held s @ wb_q (ws_buf s))) \<and>
     list_all (\<lambda>n. n < ws_next s) (numbers (ws_held s @ wb_q (ws_buf s))) \<and>
     (ws_pass s = None \<longrightarrow> ws_held s = [])"

lemma list_all_subseq: "subseq xs ys \<Longrightarrow> list_all P ys \<Longrightarrow> list_all P xs"
  by (induction rule: list_emb.induct) auto

lemma sorted_subseq: "subseq xs ys \<Longrightarrow> sorted_wrt P ys \<Longrightarrow> sorted_wrt P xs"
proof (induction rule: list_emb.induct)
  case (list_emb_Cons2 x y xs ys)
  then show ?case using list_all_subseq [of xs ys "P y"] by (auto simp: list_all_iff)
qed auto

lemma end_pass_subseq:
  assumes "1 \<le> max_queue (wb_cfg b)" "int (length (wb_q b)) \<le> max_queue (wb_cfg b)"
  shows "subseq (wb_q (end_pass fin again b)) (again @ wb_q b)"
    and "int (length (wb_q (end_pass fin again b))) \<le> max_queue (wb_cfg b)"
    and "wb_cfg (end_pass fin again b) = wb_cfg b"
proof -
  have take: "subseq (take n xs) xs" for n and xs :: "'z list" by (rule prefix_imp_subseq [OF take_is_prefix])
  show "subseq (wb_q (end_pass fin again b)) (again @ wb_q b)"
    using assms take [of _ "again @ wb_q b"]
    by (simp add: end_pass_def requeue_eq abandon_def Let_def del: take_append)
  show "int (length (wb_q (end_pass fin again b))) \<le> max_queue (wb_cfg b)" "wb_cfg (end_pass fin again b) = wb_cfg b"
    using assms by (auto simp: end_pass_def requeue_eq abandon_def Let_def min_def)
qed

lemma wb_step_cfg: "wb_step exec s s' \<Longrightarrow> wb_cfg (ws_buf s') = wb_cfg (ws_buf s)"
  by (induction rule: wb_step.induct)
    (auto simp: enqueue_def take_batch_def end_pass_def requeue_def abandon_def stop_request_def start_def Let_def
      split: if_splits)

lemma wb_step_inv: "wb_step exec s s' \<Longrightarrow> wb_inv s \<Longrightarrow> wb_inv s'"
proof (induction rule: wb_step.induct)
  case (produce s t now b')
  then have b': "b' = (ws_buf s)\<lparr>wb_q := wb_q (ws_buf s) @ [((ws_next s, t), now)]\<rparr>"
    "int (length (wb_q (ws_buf s))) < max_queue (wb_cfg (ws_buf s))"
    by (auto simp: enqueue_def split: if_splits)
  let ?n = "numbers (ws_held s @ wb_q (ws_buf s))"
  have n: "numbers (ws_held s @ wb_q b') = ?n @ [ws_next s]" by (simp add: b')
  have old: "sorted_wrt (<) ?n" "list_all (\<lambda>n. n < ws_next s) ?n" using produce.prems by (simp_all only: wb_inv_def)
  then have "sorted_wrt (<) (?n @ [ws_next s])" "list_all (\<lambda>n. n < ws_next s + 1) (?n @ [ws_next s])"
    unfolding sorted_wrt_append by (auto simp: list_all_iff less_Suc_eq simp del: map_append)
  then have "sorted_wrt (<) (numbers (ws_held s @ wb_q b'))"
    "list_all (\<lambda>n. n < ws_next s + 1) (numbers (ws_held s @ wb_q b'))" unfolding n by simp_all
  then show ?case using produce.prems b'(2) unfolding wb_inv_def by (simp add: b'(1) del: map_append)
next
  case (begin_pass s fin batch b')
  then show ?case by (auto simp: take_batch_def wb_inv_def)
next
  case (finish_pass s fin clk again db')
  let ?b = "ws_buf s" and ?b' = "end_pass fin again (ws_buf s)"
  have "subseq again (ws_held s)"
    using run_batch_subseq [of "wb_cfg ?b" fin exec clk 0 "ws_held s" "ws_db s"] finish_pass by simp
  then have "subseq (again @ wb_q ?b) (ws_held s @ wb_q ?b)" by simp
  moreover have "subseq (wb_q ?b') (again @ wb_q ?b)"
    using end_pass_subseq(1) finish_pass.prems by (auto simp: wb_inv_def)
  ultimately have sub: "subseq (wb_q ?b') (ws_held s @ wb_q ?b)" by (rule subseq_order.order_trans [rotated])
  then have "sorted_wrt (<) (numbers (wb_q ?b'))" "list_all (\<lambda>n. n < ws_next s) (numbers (wb_q ?b'))"
    using finish_pass.prems sorted_subseq [OF subseq_map [OF sub]] list_all_subseq [OF subseq_map [OF sub]]
    by (auto simp: wb_inv_def)
  moreover have "int (length (wb_q ?b')) \<le> max_queue (wb_cfg ?b)" "wb_cfg ?b' = wb_cfg ?b"
    using end_pass_subseq(2,3) [of ?b fin again] finish_pass.prems by (simp_all add: wb_inv_def)
  ultimately show ?case using finish_pass.prems by (simp add: wb_inv_def)
next
  case (request_stop s)
  then show ?case by (simp add: stop_request_def wb_inv_def)
next
  case (start_worker s)
  then show ?case by (simp add: start_def wb_inv_def)
qed

text \<open>
  C32: In every interleaving of producers and worker the buffered writes are within the
  configured queue bound and stand in the order in which they were accepted, those in the
  worker's hands first.
\<close>

theorem write_buffer_fifo_bounded:
  assumes "(wb_step exec)\<^sup>*\<^sup>* (wb_initial cfg db) s"
  shows "int (length (wb_q (ws_buf s))) \<le> max 1 (max_queue cfg) \<and>
    sorted_wrt (<) (numbers (ws_held s @ wb_q (ws_buf s)))"
proof -
  have "wb_inv s \<and> max_queue (wb_cfg (ws_buf s)) = max 1 (max_queue cfg)"
    using assms
  proof (induction rule: rtranclp_induct)
    case base
    then show ?case by (simp add: wb_inv_def wb_initial_def new_buffer_def)
  next
    case (step s s')
    then show ?case using wb_step_inv [OF step(2)] wb_step_cfg [OF step(2)] by simp
  qed
  then show ?thesis by (simp add: wb_inv_def)
qed

section \<open>Witness\<close>

definition sample_buffer_cfg :: WriteBufferConfig where
  "sample_buffer_cfg = \<lparr>wbc_enabled = True, max_queue = 1, wbc_ttl_ms = 0, flush_interval_ms = 100\<rparr>"

theorem write_buffer_fifo_bounded_witness:
  "\<exists>s :: (unit, unit) wb_sys. (wb_step (\<lambda>t w. (OK, w)))\<^sup>*\<^sup>* (wb_initial sample_buffer_cfg ()) s \<and> length (wb_q (ws_buf s)) = 1 \<and>
     int (length (wb_q (ws_buf s))) \<le> 1"
proof -
  let ?exec = "(\<lambda>t w. (OK, w)) :: nat \<times> unit \<Rightarrow> unit \<Rightarrow> Status \<times> unit"
  let ?s0 = "wb_initial sample_buffer_cfg () :: (unit, unit) wb_sys"
  let ?s1 = "?s0\<lparr>ws_buf := start (ws_buf ?s0)\<rparr>"
  let ?s2 = "?s1\<lparr>ws_buf := snd (enqueue (Some (ws_next ?s1, ())) 0 (ws_buf ?s1)), ws_next := ws_next ?s1 + 1\<rparr>"
  have a: "wb_step ?exec ?s0 ?s1" by (rule start_worker)
  have b: "wb_step ?exec ?s1 ?s2"
    by (rule produce [where now = 0 and t = "()"])
      (simp add: enqueue_def start_def wb_initial_def new_buffer_def sample_buffer_cfg_def)
  have run: "(wb_step ?exec)\<^sup>*\<^sup>* ?s0 ?s2"
    by (rule rtranclp.rtrancl_into_rtrancl, rule r_into_rtranclp, rule a, rule b)
  have "length (wb_q (ws_buf ?s2)) = 1"
    by (simp add: enqueue_def start_def wb_initial_def new_buffer_def sample_buffer_cfg_def)
  moreover have "int (length (wb_q (ws_buf ?s2))) \<le> 1"
    using write_buffer_fifo_bounded [OF run] by (simp add: sample_buffer_cfg_def)
  ultimately show ?thesis using run by blast
qed

end
