(* ===== verification/Interceptor.thy ===== *)
theory Interceptor
  imports Context
begin

text \<open>
  SQL interceptors: \<^verbatim>\<open>src/core/interceptor.cpp\<close>, its header, and \<open>runWithInterceptors\<close> of
  \<^verbatim>\<open>src/core/database_manager.cpp\<close>.

  An interceptor is user code: a record of functions on a state \<^typ>\<open>'s\<close> of its own. A callback that
  throws is swallowed by \<open>safeCall\<close>: \<open>beforeExecution\<close> then yields no status (\<^term>\<open>None\<close>), the other
  callbacks have whatever effect they had. A callback may use the library again on the same thread;
  it sees the two thread-local stacks and the stack of scopes, which the guards restore before it
  returns, so they are arguments only. Registries are named by numbers (their addresses). The fields of
  a view that no modelled code reads (duration, \<^verbatim>\<open>cached\<close>, depth) are left out.
\<close>

section \<open>Registry and thread state\<close>

record 'op ExecutionView =
  v_dataSource :: string
  v_sql :: string
  v_type :: OperationType
  v_params :: "Params option"
  v_affected :: int
  v_status :: Status
  v_ctx :: "'op SqlContext"

record 'op Thread =
  executionStack :: "nat list"
  callbackStack :: "nat list"
  scopes :: "'op SqlContext list"

record ('op, 's) ISqlInterceptor =
  onRoute :: "'op Thread \<Rightarrow> string \<Rightarrow> string \<Rightarrow> OperationType \<Rightarrow> 'op SqlContext \<Rightarrow> 's \<Rightarrow> 'op SqlContext \<times> 's"
  beforeExecution :: "'op Thread \<Rightarrow> 'op ExecutionView \<Rightarrow> 's \<Rightarrow> Status option \<times> 's"
  afterExecution :: "'op Thread \<Rightarrow> 'op ExecutionView \<Rightarrow> 's \<Rightarrow> 's"
  onRow :: "'op Thread \<Rightarrow> 'op ExecutionView \<Rightarrow> Row \<Rightarrow> 's \<Rightarrow> Row \<times> 's"
  onCompletion :: "'op Thread \<Rightarrow> 'op ExecutionView \<Rightarrow> 's \<Rightarrow> 's"

record ('op, 's) InterceptorRegistry =
  r_id :: nat
  r_enabled :: bool
  r_count :: nat
  r_interceptors :: "('op, 's) ISqlInterceptor list"

definition registry_add :: "('op, 's) ISqlInterceptor option \<Rightarrow> ('op, 's) InterceptorRegistry \<Rightarrow> ('op, 's) InterceptorRegistry" where
  "registry_add i r =
     (case i of
        None \<Rightarrow> r
      | Some x \<Rightarrow> r\<lparr>r_count := length (r_interceptors r) + 1, r_interceptors := r_interceptors r @ [x]\<rparr>)"

definition registry_clear :: "('op, 's) InterceptorRegistry \<Rightarrow> ('op, 's) InterceptorRegistry" where
  "registry_clear r = r\<lparr>r_interceptors := [], r_count := 0\<rparr>"

definition registry_active :: "('op, 's) InterceptorRegistry \<Rightarrow> bool" where
  "registry_active r \<longleftrightarrow> r_enabled r \<and> r_count r \<noteq> 0"

definition setEnabled :: "bool \<Rightarrow> ('op, 's) InterceptorRegistry \<Rightarrow> ('op, 's) InterceptorRegistry" where
  "setEnabled v r = r\<lparr>r_enabled := v\<rparr>"

definition stack_depth :: "nat list \<Rightarrow> ('op, 's) InterceptorRegistry \<Rightarrow> nat" where
  "stack_depth s r = count_list s (r_id r)"

text \<open>\<open>CallbackGuard\<close>: the thread as a callback sees it.\<close>

definition in_callback :: "('op, 's) InterceptorRegistry \<Rightarrow> 'op Thread \<Rightarrow> 'op Thread" where
  "in_callback r th = th\<lparr>callbackStack := callbackStack th @ [r_id r]\<rparr>"

section \<open>The hooks\<close>

definition runOnRoute :: "('op, 's) InterceptorRegistry \<Rightarrow> 'op Thread \<Rightarrow> string \<Rightarrow> string \<Rightarrow> OperationType \<Rightarrow>
    'op SqlContext \<Rightarrow> 's \<Rightarrow> 'op SqlContext \<times> 's" where
  "runOnRoute r th dataSource sql type ctx s =
     (if \<not> r_enabled r \<or> stack_depth (executionStack th) r > 0 \<or> stack_depth (callbackStack th) r > 0
      then (ctx, s)
      else fold (\<lambda>i (c, s). onRoute i (in_callback r th) dataSource sql type c s) (r_interceptors r) (ctx, s))"

text \<open>A throwing callback leaves the status as it was; the first refusal ends the loop.\<close>

fun before_loop :: "'op Thread \<Rightarrow> 'op ExecutionView \<Rightarrow> ('op, 's) ISqlInterceptor list \<Rightarrow> Status \<Rightarrow> 's \<Rightarrow> Status \<times> 's" where
  "before_loop th view [] st s = (st, s)"
| "before_loop th view (i # is) st s =
     (case beforeExecution i th view s of (r, s') \<Rightarrow>
        let st' = (case r of None \<Rightarrow> st | Some x \<Rightarrow> x) in
        if \<not> status_ok st' then (st', s') else before_loop th view is st' s')"

definition runBeforeExecution :: "('op, 's) InterceptorRegistry \<Rightarrow> 'op Thread \<Rightarrow> 'op ExecutionView \<Rightarrow> 's \<Rightarrow> Status \<times> 's" where
  "runBeforeExecution r th view s =
     (if \<not> r_enabled r \<or> stack_depth (executionStack th) r > 1 \<or> stack_depth (callbackStack th) r > 0
      then (OK, s)
      else before_loop (in_callback r th) view (r_interceptors r) OK s)"

definition runAfterExecution :: "('op, 's) InterceptorRegistry \<Rightarrow> 'op Thread \<Rightarrow> 'op ExecutionView \<Rightarrow> 's \<Rightarrow> 's" where
  "runAfterExecution r th view s =
     (if \<not> r_enabled r \<or> stack_depth (executionStack th) r > 1 \<or> stack_depth (callbackStack th) r > 0
      then s
      else fold (\<lambda>i. afterExecution i (in_callback r th) view) (r_interceptors r) s)"

definition runOnCompletion :: "('op, 's) InterceptorRegistry \<Rightarrow> 'op Thread \<Rightarrow> 'op ExecutionView \<Rightarrow> 's \<Rightarrow> 's" where
  "runOnCompletion r th view s =
     (if \<not> r_enabled r \<or> stack_depth (executionStack th) r > 0 \<or> stack_depth (callbackStack th) r > 0
      then s
      else fold (\<lambda>i. onCompletion i (in_callback r th) view) (r_interceptors r) s)"

definition runOnRow :: "('op, 's) InterceptorRegistry \<Rightarrow> 'op Thread \<Rightarrow> 'op ExecutionView \<Rightarrow> Row \<Rightarrow> 's \<Rightarrow> Row \<times> 's" where
  "runOnRow r th view row s =
     (if \<not> r_enabled r \<or> stack_depth (executionStack th) r > 1 \<or> stack_depth (callbackStack th) r > 0
      then (row, s)
      else fold (\<lambda>i (row, s). onRow i (in_callback r th) view row s) (r_interceptors r) (row, s))"

section \<open>A guarded execution\<close>

definition guard_active :: "('op, 's) InterceptorRegistry \<Rightarrow> 'op Thread \<Rightarrow> bool" where
  "guard_active r th \<longleftrightarrow> r_enabled r \<and> stack_depth (executionStack th) r = 0 \<and> stack_depth (callbackStack th) r = 0"

definition guard_enter :: "('op, 's) InterceptorRegistry \<Rightarrow> 'op Thread \<Rightarrow> 'op Thread" where
  "guard_enter r th = th\<lparr>executionStack := executionStack th @ [r_id r]\<rparr>"

text \<open>The destructor of an active guard: the completion callbacks, with the registry still on the stack.\<close>

definition guard_leave :: "('op, 's) InterceptorRegistry \<Rightarrow> 'op Thread \<Rightarrow> 'op ExecutionView \<Rightarrow> 's \<Rightarrow> 's" where
  "guard_leave r th view s = fold (\<lambda>i. onCompletion i (in_callback r th) view) (r_interceptors r) s"

text \<open>
  The statement \<open>fn\<close> runs with the thread state it sees and may pin scopes, so it returns them. \<open>out\<close> is
  the output as it was before, \<open>affected_of\<close> the affected count the view reports, if there is one.
\<close>

definition runWithInterceptors :: "('op, 's) InterceptorRegistry \<Rightarrow> 'op Thread \<Rightarrow> 'op ExecutionView \<Rightarrow>
    ('a \<Rightarrow> int option) \<Rightarrow> 'a \<Rightarrow> ('op Thread \<Rightarrow> 's \<Rightarrow> (Status \<times> 'a) \<times> 'op SqlContext list \<times> 's) \<Rightarrow> 's \<Rightarrow>
    (Status \<times> 'a) \<times> 'op SqlContext list \<times> 's" where
  "runWithInterceptors r th view affected_of out fn s =
     (if \<not> guard_active r th then fn th s
      else
        (let th1 = guard_enter r th in
         case runBeforeExecution r th1 view s of (st, s1) \<Rightarrow>
           if \<not> status_ok st
           then ((st, out), scopes th, guard_leave r th1 (view\<lparr>v_status := st\<rparr>) s1)
           else
             (case scope_enter (v_ctx view) (scopes th) of (entered, sc) \<Rightarrow>
                case fn (th1\<lparr>scopes := sc\<rparr>) s1 of ((st', a), sc', s2) \<Rightarrow>
                  let view' = view\<lparr>v_status := st',
                        v_affected := (case affected_of a of Some n \<Rightarrow> if status_ok st' then n else v_affected view
                                       | None \<Rightarrow> v_affected view)\<rparr>;
                      s3 = runAfterExecution r (th1\<lparr>scopes := sc'\<rparr>) view' s2
                  in ((st', a), scope_leave entered sc',
                      guard_leave r (th1\<lparr>scopes := scope_leave entered sc'\<rparr>) view' s3))))"

section \<open>Nesting and refusal\<close>

lemma guard_active_nested [simp]:
  "\<not> guard_active r ((guard_enter r th)\<lparr>scopes := sc\<rparr>)"
  by (simp add: guard_active_def guard_enter_def stack_depth_def)

text \<open>
  A statement that is run under the interceptors inside another run of the same registry runs
  them once: the inner run is the statement itself.
\<close>

theorem interceptors_run_once:
  "runWithInterceptors r th view af out (\<lambda>th'. runWithInterceptors r th' view' af' out' fn) s =
   runWithInterceptors r th view af out fn s"
proof (cases "guard_active r th")
  case False
  then show ?thesis by (simp add: runWithInterceptors_def)
next
  case True
  have inner: "runWithInterceptors r ((guard_enter r th)\<lparr>scopes := sc\<rparr>) view' af' out' fn =
      fn ((guard_enter r th)\<lparr>scopes := sc\<rparr>)" for sc
    by (rule ext) (simp add: runWithInterceptors_def)
  show ?thesis
    using True unfolding runWithInterceptors_def [of r th] by (simp only: inner Let_def if_False not_True_eq_False)
qed

lemma before_loop_append:
  "before_loop th view (is @ js) st s =
     (case before_loop th view is st s of (st', s') \<Rightarrow>
        if is \<noteq> [] \<and> \<not> status_ok st' then (st', s') else before_loop th view js st' s')"
proof (induction "is" arbitrary: st s)
  case (Cons i "is")
  then show ?case by (cases "is") (auto simp: Let_def split: prod.splits)
qed simp

lemma runBefore_entered:
  assumes "guard_active r th"
  shows "runBeforeExecution r (guard_enter r th) view s =
    before_loop (in_callback r (guard_enter r th)) view (r_interceptors r) OK s"
  using assms by (simp add: runBeforeExecution_def guard_active_def guard_enter_def stack_depth_def)

text \<open>
  When an interceptor refuses before execution, the statement and the later interceptors are not
  run, the output is unchanged, the refusal is returned, and every interceptor sees the
  completion.
\<close>

theorem refusal_stops_statement:
  assumes "guard_active r th" and "r_interceptors r = accepting @ i # others"
    and "before_loop (in_callback r (guard_enter r th)) view accepting OK s = (st0, s0)" and "status_ok st0"
    and "beforeExecution i (in_callback r (guard_enter r th)) view s0 = (Some st, s1)" and "\<not> status_ok st"
  shows "runWithInterceptors r th view af out fn s =
    ((st, out), scopes th, guard_leave r (guard_enter r th) (view\<lparr>v_status := st\<rparr>) s1)"
proof -
  have "runBeforeExecution r (guard_enter r th) view s = (st, s1)"
    unfolding runBefore_entered [OF assms(1)] assms(2) before_loop_append assms(3)
    using assms(4,5,6) by (simp add: Let_def)
  then show ?thesis using assms(1,6) by (simp add: runWithInterceptors_def)
qed

text \<open>Inside a callback every hook of the registry is inert, so a callback may use the library.\<close>

lemma hooks_inert_in_callback:
  fixes r :: "('op, 's) InterceptorRegistry"
  shows "runOnRoute r (in_callback r th) d q t c s = (c, s)"
    and "runBeforeExecution r (in_callback r th) view s = (OK, s)"
    and "runAfterExecution r (in_callback r th) view s = s"
    and "runOnCompletion r (in_callback r th) view s = s"
    and "runOnRow r (in_callback r th) view row s = (row, s)"
    and "runWithInterceptors r (in_callback r th) view af out fn s = fn (in_callback r th) s"
  by (simp_all add: runOnRoute_def runBeforeExecution_def runAfterExecution_def runOnCompletion_def
      runOnRow_def runWithInterceptors_def guard_active_def in_callback_def stack_depth_def)

section \<open>Witness\<close>

definition log_interceptor :: "nat \<Rightarrow> Status option \<Rightarrow> (unit, nat list) ISqlInterceptor" where
  "log_interceptor n verdict =
     \<lparr>onRoute = (\<lambda>th d q t c s. (c, s)), beforeExecution = (\<lambda>th v s. (verdict, s @ [n])),
      afterExecution = (\<lambda>th v s. s @ [n + 100]), onRow = (\<lambda>th v row s. (row, s)),
      onCompletion = (\<lambda>th v s. s @ [n + 200])\<rparr>"

definition sample_registry :: "(unit, nat list) InterceptorRegistry" where
  "sample_registry = \<lparr>r_id = 7, r_enabled = True, r_count = 3,
     r_interceptors = [log_interceptor 1 None, log_interceptor 2 (Some (error SqlBlocked ''no'')), log_interceptor 3 (Some OK)]\<rparr>"

definition idle_thread :: "unit Thread" where
  "idle_thread = \<lparr>executionStack = [], callbackStack = [], scopes = []\<rparr>"

definition sample_view :: "unit ExecutionView" where
  "sample_view = \<lparr>v_dataSource = ''db'', v_sql = ''DELETE'', v_type = OpExecute, v_params = None, v_affected = 0,
     v_status = OK, v_ctx = defaultInstance\<rparr>"

theorem refusal_stops_statement_witness:
  "runWithInterceptors sample_registry idle_thread sample_view (\<lambda>n. Some n) 0
     (\<lambda>th s. ((OK, 5), scopes th, s @ [999])) [] = ((error SqlBlocked ''no'', 0), [], [1, 2, 201, 202, 203])"
proof -
  let ?th = "in_callback sample_registry (guard_enter sample_registry idle_thread)"
  have g: "guard_active sample_registry idle_thread"
    by (simp add: guard_active_def sample_registry_def idle_thread_def stack_depth_def)
  have i: "r_interceptors sample_registry =
      [log_interceptor 1 None] @ log_interceptor 2 (Some (error SqlBlocked ''no'')) # [log_interceptor 3 (Some OK)]"
    by (simp add: sample_registry_def)
  have "before_loop ?th sample_view [log_interceptor 1 None] OK [] = (OK, [1])"
    and "beforeExecution (log_interceptor 2 (Some (error SqlBlocked ''no''))) ?th sample_view [1] =
      (Some (error SqlBlocked ''no''), [1, 2])"
    by (simp_all add: log_interceptor_def)
  from refusal_stops_statement [OF g i this(1) _ this(2)] show ?thesis
    by (simp add: guard_leave_def i log_interceptor_def idle_thread_def)
qed

end
