(* ===== verification/DataSource.thy ===== *)
theory DataSource
  imports CircuitBreaker QueryCache CacheKey WriteBuffer Interceptor SqlAuditor
begin

text \<open>
  \<open>DataSource\<close> of \<^verbatim>\<open>src/core/database_manager.cpp\<close>: plain sources (leaves) with their cache, retries and
  breaker, and groups that route reads to replicas and writes to a primary with failover.

  A leaf is its configuration; what it changes is in one state shared by all sources: the breakers by
  name (names are unique in a manager), the query cache, the thread's scopes and round-robin counter, the
  last write and the write buffer of each group, and the databases \<^typ>\<open>'w\<close> behind the pools. The
  attempts of an operation are given by number, as in the retry loop; clock readings are arguments.
  The session call of an attempt is part of its surroundings (\<^const>\<open>at_session\<close>).
\<close>

section \<open>Configuration and state\<close>

record Leaf =
  lf_name :: string
  lf_retry :: RetryConfig
  lf_breaker :: CircuitBreakerConfig
  lf_readReplica :: bool
  lf_readOnly :: bool
  lf_poolAlive :: bool

record Group =
  g_name :: string
  g_primary :: Leaf
  g_replicas :: "Leaf list"
  g_readAfterWrite_ms :: int
  g_fallbackToPrimary :: bool
  g_failoverPrimaries :: "Leaf list"
  g_requireHealthy :: bool
  g_shadow :: "Leaf option"
  g_readOnly :: bool

datatype Source = LeafSource Leaf | GroupSource Group

text \<open>The closures that \<open>executeUngated\<close> and \<open>executeBatchUngated\<close> hand to the buffer: what they capture.\<close>

datatype buffered = BufferedExecute Leaf string "Params option" | BufferedBatch Leaf string "Params list"

record ('op, 'w) ds_state =
  ds_auditor :: SqlAuditorState
  ds_breaker :: "string \<Rightarrow> Breaker"
  ds_cache :: QueryCacheState
  ds_scopes :: "'op SqlContext list"
  ds_round :: "64 word"
  ds_lastWriteNs :: "string \<Rightarrow> int"
  ds_buffer :: "string \<Rightarrow> buffered WriteBuffer option"
  ds_db :: 'w

text \<open>Outputs of the writes and calls, and their cleared values.\<close>

type_synonym GeneratedKeys = ResultSet

record BatchResult =
  br_affected :: "int list"
  br_keys :: "GeneratedKeys list"

definition empty_batch :: BatchResult where
  "empty_batch = \<lparr>br_affected = [], br_keys = []\<rparr>"

record CallOutput =
  co_sets :: "ResultSet list"
  co_outParams :: "Value list"
  co_affected :: int

definition empty_call :: CallOutput where
  "empty_call = \<lparr>co_sets = [], co_outParams = [], co_affected = 0\<rparr>"

section \<open>Writes leave their mark\<close>

definition leaf_markWrite :: "Leaf \<Rightarrow> ('op, 'w) ds_state \<Rightarrow> ('op, 'w) ds_state" where
  "leaf_markWrite l s =
     s\<lparr>ds_cache := cache_invalidate (lf_name l) (ds_cache s), ds_scopes := pinRequestWrite (ds_scopes s)\<rparr>"

definition group_markWrite :: "Group \<Rightarrow> int \<Rightarrow> ('op, 'w) ds_state \<Rightarrow> ('op, 'w) ds_state" where
  "group_markWrite g now s =
     s\<lparr>ds_lastWriteNs := (ds_lastWriteNs s)(g_name g := now),
       ds_cache := fold cache_invalidate
         (g_name g # lf_name (g_primary g) # map lf_name (g_replicas g) @ map lf_name (g_failoverPrimaries g))
         (ds_cache s)\<rparr>"

section \<open>Operations of a leaf\<close>

text \<open>The retry loop of a leaf on the shared state.\<close>

definition leaf_loop :: "Leaf \<Rightarrow> (nat \<Rightarrow> ('a, 'w) attempt) \<Rightarrow> (nat \<Rightarrow> 'a \<Rightarrow> 'a) \<Rightarrow> int \<Rightarrow> 'a \<Rightarrow> ('op, 'w) ds_state \<Rightarrow>
    (Status \<times> 'a) \<times> ('op, 'w) ds_state" where
  "leaf_loop l env prep attempts out s =
     (case attempt_loop (lf_name l) (lf_breaker l) env prep (nat attempts) 1 out (ds_db s) (ds_breaker s (lf_name l)) of
        (st, out', w, b) \<Rightarrow>
          ((st, out'), s\<lparr>ds_db := w, ds_breaker := (ds_breaker s)(lf_name l := b)\<rparr>))"

text \<open>One attempt without retries; \<open>prep\<close> is what the code does to the output behind the gate.\<close>

definition leaf_once :: "Leaf \<Rightarrow> ('a, 'w) attempt \<Rightarrow> ('a \<Rightarrow> 'a) \<Rightarrow> 'a \<Rightarrow> ('op, 'w) ds_state \<Rightarrow> (Status \<times> 'a) \<times> ('op, 'w) ds_state" where
  "leaf_once l e prep out s =
     (case attempt_once (lf_name l) (lf_breaker l) e (prep out) (ds_db s) (ds_breaker s (lf_name l)) of
        (r, w, b) \<Rightarrow>
          (case r of Inl gate \<Rightarrow> (gate, out) | Inr x \<Rightarrow> x,
           s\<lparr>ds_db := w, ds_breaker := (ds_breaker s)(lf_name l := b)\<rparr>))"

definition caching :: "Leaf \<Rightarrow> ('op, 'w) ds_state \<Rightarrow> bool" where
  "caching l s \<longleftrightarrow> qc_enabled (ds_cache s) \<and> (\<not> replicaOnly (ds_cache s) \<or> lf_readReplica l) \<and>
     \<not> shadow (current (ds_scopes s))"

record ('a, 'w) query_env =
  qe_abi :: abi
  qe_get :: int
  qe_put :: int
  qe_attempts :: "nat \<Rightarrow> ('a, 'w) attempt"

definition leaf_queryUngated :: "(ResultSet, 'w) query_env \<Rightarrow> Leaf \<Rightarrow> string \<Rightarrow> Params \<Rightarrow> ResultSet \<Rightarrow>
    ('op, 'w) ds_state \<Rightarrow> (Status \<times> ResultSet) \<times> ('op, 'w) ds_state" where
  "leaf_queryUngated e l sql ps out s =
     (let on = caching l s; key = cacheKey sql ps in
      case (if on then cache_get (qe_get e) (lf_name l) key (ds_cache s) else (None, ds_cache s)) of
        (Some rs, c) \<Rightarrow> ((OK, rs), s\<lparr>ds_cache := c\<rparr>)
      | (None, c) \<Rightarrow>
          (case leaf_loop l (qe_attempts e) (\<lambda>k o'. if k > 1 then empty_rs else o')
                  (max 1 (max_attempts (lf_retry l))) out (s\<lparr>ds_cache := c\<rparr>) of
             ((st, out'), s') \<Rightarrow>
               ((st, out'),
                if status_ok st \<and> on
                then s'\<lparr>ds_cache := cache_put (qe_abi e) (qe_put e) (lf_name l) key out' (ds_cache s')\<rparr>
                else s')))"

definition leaf_queryUngated_plain :: "(ResultSet, 'w) query_env \<Rightarrow> Leaf \<Rightarrow> string \<Rightarrow> ResultSet \<Rightarrow>
    ('op, 'w) ds_state \<Rightarrow> (Status \<times> ResultSet) \<times> ('op, 'w) ds_state" where
  "leaf_queryUngated_plain e l sql out s = leaf_queryUngated e l sql [] out s"

definition leaf_queryAll :: "Leaf \<Rightarrow> (nat \<Rightarrow> (ResultSet list, 'w) attempt) \<Rightarrow> ('op, 'w) ds_state \<Rightarrow>
    (Status \<times> ResultSet list) \<times> ('op, 'w) ds_state" where
  "leaf_queryAll l env s =
     leaf_loop l env (\<lambda>k o'. if k > 1 then [] else o') (max 1 (max_attempts (lf_retry l))) [] s"

definition leaf_call :: "Leaf \<Rightarrow> (CallOutput, 'w) attempt \<Rightarrow> ('op, 'w) ds_state \<Rightarrow>
    (Status \<times> CallOutput) \<times> ('op, 'w) ds_state" where
  "leaf_call l e s = leaf_once l e (\<lambda>o'. o') empty_call s"

text \<open>
  The leaf part of \<open>executeUngated\<close>: \<open>zero\<close> is the output every attempt starts from (no rows affected, no
  keys).
\<close>

definition leaf_executeUngated :: "Leaf \<Rightarrow> (nat \<Rightarrow> ('a, 'w) attempt) \<Rightarrow> 'a \<Rightarrow> 'a \<Rightarrow> ('op, 'w) ds_state \<Rightarrow>
    (Status \<times> 'a) \<times> ('op, 'w) ds_state" where
  "leaf_executeUngated l env zero out s =
     (case leaf_loop l env (\<lambda>k o'. zero)
             (resolveWriteAttempts (lf_retry l) (idempotency (current (ds_scopes s)))) out s of
        ((st, a), s') \<Rightarrow> ((st, a), if status_ok st then leaf_markWrite l s' else s'))"

text \<open>The leaf part of the batch and stream writes: one attempt.\<close>

definition leaf_writeOnce :: "Leaf \<Rightarrow> ('a, 'w) attempt \<Rightarrow> ('a \<Rightarrow> 'a) \<Rightarrow> 'a \<Rightarrow> ('op, 'w) ds_state \<Rightarrow>
    (Status \<times> 'a) \<times> ('op, 'w) ds_state" where
  "leaf_writeOnce l e prep out s =
     (case leaf_once l e prep out s of
        ((st, a), s') \<Rightarrow> ((st, a), if status_ok st then leaf_markWrite l s' else s'))"

text \<open>
  A cursor: an attempt that opens one returns at once, so \<open>afterAttempt\<close> is not reached; the driver may
  also report success without a cursor (\<open>None\<close>).
\<close>

definition cursor_attempt :: "Leaf \<Rightarrow> ('a option, 'w) attempt \<Rightarrow> 'w \<Rightarrow> Breaker \<Rightarrow>
    (Status + Status \<times> 'a option) \<times> 'w \<times> Breaker" where
  "cursor_attempt l e w b =
     (case beforeAttempt (lf_name l) (lf_breaker l) (at_stop e) (at_before e) b of (gate, b1) \<Rightarrow>
        if \<not> status_ok gate then (Inl gate, w, b1)
        else
          (let bs = borrowSession (lf_name l) (at_borrow e);
               r = (if status_ok bs then at_session e None w else ((bs, None), w));
               st = fst (fst r); impl = snd (fst r)
           in if status_ok bs \<and> status_ok st \<and> impl \<noteq> None then (Inr (st, impl), snd r, b1)
              else (Inr (st, None), snd r,
                    afterAttempt (lf_breaker l) st (at_stop_after e) (at_after e) b1)))"

fun cursor_loop :: "Leaf \<Rightarrow> (nat \<Rightarrow> ('a option, 'w) attempt) \<Rightarrow> nat \<Rightarrow> nat \<Rightarrow> 'w \<Rightarrow> Breaker \<Rightarrow>
    (Status \<times> 'a option) \<times> 'w \<times> Breaker" where
  "cursor_loop l env 0 k w b = ((OK, None), w, b)"
| "cursor_loop l env (Suc left) k w b =
     (case cursor_attempt l (env k) w b of
        (Inl gate, w', b') \<Rightarrow> ((gate, None), w', b')
      | (Inr (st, impl), w', b') \<Rightarrow>
          if status_ok st \<or> \<not> retryable st \<or> left = 0 then ((st, impl), w', b')
          else cursor_loop l env left (k + 1) w' b')"

text \<open>The cursor budget: the limit and the number of open cursors.\<close>

definition cursorBudgetAcquire :: "int \<Rightarrow> int \<Rightarrow> (bool \<times> bool) \<times> int" where
  "cursorBudgetAcquire limit open =
     (if limit \<le> 0 then ((True, False), open)
      else if open < limit then ((True, True), open + 1)
      else ((False, False), open))"

definition leaf_openCursorUngated :: "Leaf \<Rightarrow> (nat \<Rightarrow> ('a option, 'w) attempt) \<Rightarrow> int \<Rightarrow> int \<Rightarrow> ('op, 'w) ds_state \<Rightarrow>
    (Status \<times> 'a option) \<times> int \<times> ('op, 'w) ds_state" where
  "leaf_openCursorUngated l env limit open s =
     (case cursorBudgetAcquire limit open of ((got, leased), open1) \<Rightarrow>
        if \<not> got
        then ((error CursorLimit (''datasource '' @ [SQ] @ lf_name l @ [SQ] @ '': cursor limit reached''), None), open, s)
        else
          (case cursor_loop l env (nat (max 1 (max_attempts (lf_retry l)))) 1 (ds_db s) (ds_breaker s (lf_name l)) of
             ((st, impl), w, b) \<Rightarrow>
               ((st, impl),
                if leased \<and> impl = None then open else open1,
                s\<lparr>ds_db := w, ds_breaker := (ds_breaker s)(lf_name l := b)\<rparr>)))"

section \<open>Routing of a group\<close>

text \<open>\<open>clk\<close> gives the clock readings of the replicas' breaker checks, \<open>now\<close> the one of the write window.\<close>

definition pick_replica :: "(nat \<Rightarrow> int) \<Rightarrow> Group \<Rightarrow> ('op, 'w) ds_state \<Rightarrow> Leaf" where
  "pick_replica clk g s =
     (let n = length (g_replicas g); start = unat (ds_round s) mod n;
          cand = (\<lambda>i. g_replicas g ! ((start + i) mod n))
      in case find (\<lambda>i. \<not> isCircuitOpen (lf_breaker (cand i)) (clk i) (ds_breaker s (lf_name (cand i)))) [0..<n] of
           Some i \<Rightarrow> cand i
         | None \<Rightarrow> g_primary g)"

definition readTarget :: "int \<Rightarrow> (nat \<Rightarrow> int) \<Rightarrow> Group \<Rightarrow> ('op, 'w) ds_state \<Rightarrow> Leaf \<times> ('op, 'w) ds_state" where
  "readTarget now clk g s =
     (case (g_shadow g, shadow (current (ds_scopes s))) of
        (Some sh, True) \<Rightarrow> (sh, s)
      | _ \<Rightarrow>
          if wroteInThisRequest (current (ds_scopes s)) then (g_primary g, s)
          else if g_readAfterWrite_ms g > 0 \<and> ds_lastWriteNs s (g_name g) > 0 \<and>
                  now - ds_lastWriteNs s (g_name g) < g_readAfterWrite_ms g * 1000000
          then (g_primary g, s)
          else if g_replicas g = [] then (g_primary g, s)
          else (pick_replica clk g s, s\<lparr>ds_round := ds_round s + 1\<rparr>))"

definition falls_back :: "Group \<Rightarrow> Leaf \<Rightarrow> Status \<Rightarrow> bool" where
  "falls_back g target st \<longleftrightarrow> target \<noteq> g_primary g \<and> g_fallbackToPrimary g \<and>
     (retryable st \<or> connectionBroken st \<or> code st = CircuitOpen)"

text \<open>
  A read of a group: the target first, the primary when that fails for want of a server. \<open>leaf_op\<close> is the
  operation on a leaf, whose first argument tells the first from the second try (its surroundings);
  \<open>again\<close> is the condition on the output for the second.
\<close>

definition group_read :: "int \<Rightarrow> (nat \<Rightarrow> int) \<Rightarrow> Group \<Rightarrow> ('a \<Rightarrow> bool) \<Rightarrow> ('a \<Rightarrow> 'a) \<Rightarrow>
    (bool \<Rightarrow> Leaf \<Rightarrow> 'a \<Rightarrow> ('op, 'w) ds_state \<Rightarrow> (Status \<times> 'a) \<times> ('op, 'w) ds_state) \<Rightarrow> 'a \<Rightarrow>
    ('op, 'w) ds_state \<Rightarrow> (Status \<times> 'a) \<times> ('op, 'w) ds_state" where
  "group_read now clk g again reset leaf_op out s =
     (case readTarget now clk g s of (target, s1) \<Rightarrow>
        case leaf_op False target out s1 of ((st, a), s2) \<Rightarrow>
          if again a \<and> falls_back g target st then leaf_op True (g_primary g) (reset a) s2
          else ((st, a), s2))"

definition writeTargets :: "(nat \<Rightarrow> int) \<Rightarrow> Group \<Rightarrow> ('op, 'w) ds_state \<Rightarrow> Leaf list" where
  "writeTargets clk g s =
     (case (g_shadow g, shadow (current (ds_scopes s))) of
        (Some sh, True) \<Rightarrow> [sh]
      | _ \<Rightarrow>
          if g_failoverPrimaries g = [] then [g_primary g]
          else map snd (filter (\<lambda>(i, l).
                 \<not> isCircuitOpen (lf_breaker l) (clk i) (ds_breaker s (lf_name l)) \<and>
                 \<not> (g_requireHealthy g \<and> \<not> lf_poolAlive l)) (enumerate 0 (g_failoverPrimaries g))))"

definition safeToFailoverWrite :: "Status \<Rightarrow> bool" where
  "safeToFailoverWrite st =
     (case code st of
        ConnectionFailed \<Rightarrow> \<not> connectionBroken st \<and> sqlState st = []
      | PoolExhausted \<Rightarrow> True | PoolClosed \<Rightarrow> True | CircuitOpen \<Rightarrow> True | DriverDisabled \<Rightarrow> True
      | _ \<Rightarrow> False)"

definition no_primary :: "Group \<Rightarrow> Status" where
  "no_primary g =
     (error CircuitOpen (''group '' @ [SQ] @ g_name g @ [SQ] @ '': no writable primary available''))\<lparr>retryable := True\<rparr>"

definition buffered_status :: "Group \<Rightarrow> Status" where
  "buffered_status g =
     error Buffered (''group '' @ [SQ] @ g_name g @ [SQ] @ '': write accepted into buffer, not yet committed'')"

text \<open>The write that is handed to the buffer when no target is left.\<close>

definition buffer_write :: "Group \<Rightarrow> buffered option \<Rightarrow> int \<Rightarrow> Status \<Rightarrow> ('op, 'w) ds_state \<Rightarrow> Status \<times> ('op, 'w) ds_state" where
  "buffer_write g task now st s =
     (case ds_buffer s (g_name g) of
        None \<Rightarrow> (st, s)
      | Some b \<Rightarrow>
          if task = None \<or> \<not> wb_enabled b then (st, s)
          else
            (case enqueue task now b of (accepted, b') \<Rightarrow>
               (if accepted then buffered_status g else st,
                s\<lparr>ds_buffer := (ds_buffer s)(g_name g := Some b')\<rparr>)))"

fun dispatch_loop :: "Group \<Rightarrow> (Leaf \<Rightarrow> ('op, 'w) ds_state \<Rightarrow> (Status \<times> 'a) \<times> ('op, 'w) ds_state) \<Rightarrow>
    buffered option \<Rightarrow> int \<Rightarrow> int \<Rightarrow> Leaf list \<Rightarrow> Status \<Rightarrow> 'a \<Rightarrow> ('op, 'w) ds_state \<Rightarrow> (Status \<times> 'a) \<times> ('op, 'w) ds_state" where
  "dispatch_loop g attempt task markAt bufAt [] st a s =
     (case buffer_write g task bufAt st s of (st', s') \<Rightarrow> ((st', a), s'))"
| "dispatch_loop g attempt task markAt bufAt (l # ls) st a s =
     (case attempt l s of ((st', a'), s') \<Rightarrow>
        if status_ok st' then ((st', a'), group_markWrite g markAt s')
        else if \<not> safeToFailoverWrite st' then ((st', a'), s')
        else dispatch_loop g attempt task markAt bufAt ls st' a' s')"

definition dispatchWrite :: "(nat \<Rightarrow> int) \<Rightarrow> Group \<Rightarrow>
    (Leaf \<Rightarrow> ('op, 'w) ds_state \<Rightarrow> (Status \<times> 'a) \<times> ('op, 'w) ds_state) \<Rightarrow> buffered option \<Rightarrow> int \<Rightarrow> int \<Rightarrow> 'a \<Rightarrow>
    ('op, 'w) ds_state \<Rightarrow> (Status \<times> 'a) \<times> ('op, 'w) ds_state" where
  "dispatchWrite clk g attempt task markAt bufAt a s =
     (case (g_shadow g, shadow (current (ds_scopes s))) of
        (Some sh, True) \<Rightarrow> attempt sh s
      | _ \<Rightarrow> dispatch_loop g attempt task markAt bufAt (writeTargets clk g s) (no_primary g) a s)"

section \<open>Operations of a source\<close>

text \<open>
  Surroundings of a routed read: the clock readings of the routing, and the surroundings of the first
  and of the second leaf operation. Those of a routed write: the readings of the breaker checks, of
  \<open>markWrite\<close> and of the buffer, and the surroundings of the attempts on each target.
\<close>

record 'e read_env =
  re_now :: int
  re_clk :: "nat \<Rightarrow> int"
  re_leaf :: "bool \<Rightarrow> 'e"

record 'e write_env =
  we_clk :: "nat \<Rightarrow> int"
  we_mark :: int
  we_buffer :: int
  we_leaf :: "Leaf \<Rightarrow> 'e"

definition queryUngated :: "(ResultSet, 'w) query_env read_env \<Rightarrow> Source \<Rightarrow> string \<Rightarrow> Params \<Rightarrow> ResultSet \<Rightarrow>
    ('op, 'w) ds_state \<Rightarrow> (Status \<times> ResultSet) \<times> ('op, 'w) ds_state" where
  "queryUngated e src sql ps out s =
     (case src of
        GroupSource g \<Rightarrow>
          group_read (re_now e) (re_clk e) g (\<lambda>_. True) (\<lambda>_. empty_rs)
            (\<lambda>second l. leaf_queryUngated (re_leaf e second) l sql ps) out s
      | LeafSource l \<Rightarrow> leaf_queryUngated (re_leaf e False) l sql ps out s)"

definition queryUngated_plain :: "(ResultSet, 'w) query_env read_env \<Rightarrow> Source \<Rightarrow> string \<Rightarrow> ResultSet \<Rightarrow>
    ('op, 'w) ds_state \<Rightarrow> (Status \<times> ResultSet) \<times> ('op, 'w) ds_state" where
  "queryUngated_plain e src sql out s =
     (case src of
        GroupSource g \<Rightarrow>
          group_read (re_now e) (re_clk e) g (\<lambda>_. True) (\<lambda>_. empty_rs)
            (\<lambda>second l. leaf_queryUngated_plain (re_leaf e second) l sql) out s
      | LeafSource l \<Rightarrow> leaf_queryUngated_plain (re_leaf e False) l sql out s)"

definition queryUngated_stream :: "(ResultSet, 'w) attempt read_env \<Rightarrow> Source \<Rightarrow> ResultSet \<Rightarrow>
    ('op, 'w) ds_state \<Rightarrow> (Status \<times> ResultSet) \<times> ('op, 'w) ds_state" where
  "queryUngated_stream e src out s =
     (case src of
        GroupSource g \<Rightarrow>
          group_read (re_now e) (re_clk e) g (\<lambda>_. True) (\<lambda>_. empty_rs)
            (\<lambda>second l. leaf_once l (re_leaf e second) (\<lambda>o'. o')) out s
      | LeafSource l \<Rightarrow> leaf_once l (re_leaf e False) (\<lambda>o'. o') out s)"

text \<open>The output of \<open>queryEach\<close> is the number of rows handed to the callback so far.\<close>

definition queryEachUngated :: "(64 word, 'w) attempt read_env \<Rightarrow> Source \<Rightarrow> 64 word \<Rightarrow>
    ('op, 'w) ds_state \<Rightarrow> (Status \<times> 64 word) \<times> ('op, 'w) ds_state" where
  "queryEachUngated e src rows s =
     (case src of
        GroupSource g \<Rightarrow>
          group_read (re_now e) (re_clk e) g (\<lambda>r. r = 0) (\<lambda>r. r)
            (\<lambda>second l. leaf_once l (re_leaf e second) (\<lambda>o'. o')) rows s
      | LeafSource l \<Rightarrow> leaf_once l (re_leaf e False) (\<lambda>o'. o') rows s)"

definition openCursorUngated :: "(nat \<Rightarrow> ('a option, 'w) attempt) read_env \<Rightarrow> Source \<Rightarrow> (string \<Rightarrow> int) \<Rightarrow>
    ('a option \<times> (string \<Rightarrow> int)) \<Rightarrow> ('op, 'w) ds_state \<Rightarrow> (Status \<times> 'a option \<times> (string \<Rightarrow> int)) \<times> ('op, 'w) ds_state" where
  "openCursorUngated e src limit out s =
     (let leaf = (\<lambda>second l (cur, opened) s.
            case leaf_openCursorUngated l (re_leaf e second) (limit (lf_name l)) (opened (lf_name l)) s of
              ((st, c), n, s') \<Rightarrow> ((st, if c = None then cur else c, opened(lf_name l := n)), s'))
      in case src of
           GroupSource g \<Rightarrow>
             group_read (re_now e) (re_clk e) g (\<lambda>_. True) (\<lambda>(_, opened). (None, opened)) leaf out s
         | LeafSource l \<Rightarrow> leaf False l out s)"

text \<open>
  The writes. \<open>zero\<close> is the output the code resets to before every attempt; \<open>execute\<close> without generated
  keys offers its statement to the buffer, the other variants do not.
\<close>

definition executeUngated :: "(nat \<Rightarrow> ('a, 'w) attempt) write_env \<Rightarrow> Source \<Rightarrow> (Leaf \<Rightarrow> buffered option) \<Rightarrow> 'a \<Rightarrow> 'a \<Rightarrow>
    ('op, 'w) ds_state \<Rightarrow> (Status \<times> 'a) \<times> ('op, 'w) ds_state" where
  "executeUngated e src offer zero out s =
     (case src of
        GroupSource g \<Rightarrow>
          dispatchWrite (we_clk e) g (\<lambda>l. leaf_executeUngated l (we_leaf e l) zero zero)
            (offer (g_primary g)) (we_mark e) (we_buffer e) out s
      | LeafSource l \<Rightarrow> leaf_executeUngated l (we_leaf e l) zero out s)"

definition executeUngated_plain :: "(nat \<Rightarrow> (int, 'w) attempt) write_env \<Rightarrow> Source \<Rightarrow> string \<Rightarrow> int \<Rightarrow>
    ('op, 'w) ds_state \<Rightarrow> (Status \<times> int) \<times> ('op, 'w) ds_state" where
  "executeUngated_plain e src sql = executeUngated e src (\<lambda>p. Some (BufferedExecute p sql None)) 0"

definition executeUngated_params :: "(nat \<Rightarrow> (int, 'w) attempt) write_env \<Rightarrow> Source \<Rightarrow> string \<Rightarrow> Params \<Rightarrow> int \<Rightarrow>
    ('op, 'w) ds_state \<Rightarrow> (Status \<times> int) \<times> ('op, 'w) ds_state" where
  "executeUngated_params e src sql ps = executeUngated e src (\<lambda>p. Some (BufferedExecute p sql (Some ps))) 0"

text \<open>With generated keys: the keys are cleared with the count.\<close>

definition executeUngated_keys :: "(nat \<Rightarrow> (int \<times> GeneratedKeys, 'w) attempt) write_env \<Rightarrow> Source \<Rightarrow> int \<times> GeneratedKeys \<Rightarrow>
    ('op, 'w) ds_state \<Rightarrow> (Status \<times> int \<times> GeneratedKeys) \<times> ('op, 'w) ds_state" where
  "executeUngated_keys e src = executeUngated e src (\<lambda>_. None) (0, empty_rs)"

definition executeUngated_params_keys :: "(nat \<Rightarrow> (int \<times> GeneratedKeys, 'w) attempt) write_env \<Rightarrow> Source \<Rightarrow> int \<times> GeneratedKeys \<Rightarrow>
    ('op, 'w) ds_state \<Rightarrow> (Status \<times> int \<times> GeneratedKeys) \<times> ('op, 'w) ds_state" where
  "executeUngated_params_keys e src = executeUngated e src (\<lambda>_. None) (0, empty_rs)"

definition executeUngated_stream :: "(int \<times> GeneratedKeys, 'w) attempt write_env \<Rightarrow> Source \<Rightarrow> int \<times> GeneratedKeys \<Rightarrow>
    ('op, 'w) ds_state \<Rightarrow> (Status \<times> int \<times> GeneratedKeys) \<times> ('op, 'w) ds_state" where
  "executeUngated_stream e src out s =
     (case src of
        GroupSource g \<Rightarrow>
          dispatchWrite (we_clk e) g (\<lambda>l. leaf_writeOnce l (we_leaf e l) (\<lambda>_. (0, empty_rs)) (0, empty_rs))
            None (we_mark e) (we_buffer e) out s
      | LeafSource l \<Rightarrow> leaf_writeOnce l (we_leaf e l) (\<lambda>_. (0, empty_rs)) out s)"

definition executeBatchUngated_stream :: "(BatchResult, 'w) attempt write_env \<Rightarrow> Source \<Rightarrow> BatchResult \<Rightarrow>
    ('op, 'w) ds_state \<Rightarrow> (Status \<times> BatchResult) \<times> ('op, 'w) ds_state" where
  "executeBatchUngated_stream e src out s =
     (case src of
        GroupSource g \<Rightarrow>
          dispatchWrite (we_clk e) g (\<lambda>l. leaf_writeOnce l (we_leaf e l) (\<lambda>o'. o') empty_batch)
            None (we_mark e) (we_buffer e) out s
      | LeafSource l \<Rightarrow> leaf_writeOnce l (we_leaf e l) (\<lambda>o'. o') out s)"

definition executeBatchUngated :: "(BatchResult, 'w) attempt write_env \<Rightarrow> Source \<Rightarrow> string \<Rightarrow> Params list \<Rightarrow> BatchResult \<Rightarrow>
    ('op, 'w) ds_state \<Rightarrow> (Status \<times> BatchResult) \<times> ('op, 'w) ds_state" where
  "executeBatchUngated e src sql batch out s =
     (case src of
        GroupSource g \<Rightarrow>
          dispatchWrite (we_clk e) g (\<lambda>l. leaf_writeOnce l (we_leaf e l) (\<lambda>o'. o') empty_batch)
            (Some (BufferedBatch (g_primary g) sql batch)) (we_mark e) (we_buffer e) out s
      | LeafSource l \<Rightarrow> leaf_writeOnce l (we_leaf e l) (\<lambda>o'. o') out s)"

text \<open>
  The closures in the buffer, run by its worker: the write on the primary that was captured, in the
  worker's thread. That thread has no scope of the request, so the write runs in the default context;
  the scopes of the thread that made the request are not touched.
\<close>

definition run_buffered :: "(nat \<Rightarrow> (int, 'w) attempt) \<Rightarrow> (BatchResult, 'w) attempt \<Rightarrow> buffered \<Rightarrow>
    ('op, 'w) ds_state \<Rightarrow> Status \<times> ('op, 'w) ds_state" where
  "run_buffered env env_batch task s =
     (let s0 = s\<lparr>ds_scopes := []\<rparr>;
          (st, s1) = (case task of
            BufferedExecute l sql ps \<Rightarrow>
              (case leaf_executeUngated l env 0 0 s0 of ((st, _), s') \<Rightarrow> (st, s'))
          | BufferedBatch l sql batch \<Rightarrow>
              (case leaf_writeOnce l env_batch (\<lambda>o'. o') empty_batch s0 of ((st, _), s') \<Rightarrow> (st, s')))
      in (st, s1\<lparr>ds_scopes := ds_scopes s\<rparr>))"

section \<open>The gates\<close>

text \<open>
  What a rate limiter answers: whether it wants fingerprints, and its verdict for one. The name and
  the read-only flag are those of the leaf or group the caller holds.
\<close>

record gate_env =
  ge_stop :: Status
  ge_limiter :: "(bool \<times> (64 word \<Rightarrow> bool)) option"

definition source_name :: "Source \<Rightarrow> string" where
  "source_name src = (case src of LeafSource l \<Rightarrow> lf_name l | GroupSource g \<Rightarrow> g_name g)"

definition source_readOnly :: "Source \<Rightarrow> bool" where
  "source_readOnly src = (case src of LeafSource l \<Rightarrow> lf_readOnly l | GroupSource g \<Rightarrow> g_readOnly g)"

definition rate_limited :: "string \<Rightarrow> Status" where
  "rate_limited name = error RateLimited (''datasource '' @ [SQ] @ name @ [SQ] @ '' rate limited'')"

definition preGate :: "gate_env \<Rightarrow> Source \<Rightarrow> string \<Rightarrow> OperationType \<Rightarrow> ('op, 'w) ds_state \<Rightarrow>
    Status \<times> ('op, 'w) ds_state" where
  "preGate ge src sql type s =
     (if \<not> status_ok (ge_stop ge) then (ge_stop ge, s)
      else case auditor_check sql type (source_readOnly src) (ds_auditor s) of (a, aud) \<Rightarrow>
        let s' = s\<lparr>ds_auditor := aud\<rparr> in
        if \<not> status_ok a then (a, s')
        else case ge_limiter ge of
          None \<Rightarrow> (OK, s')
        | Some (usesFp, acquire) \<Rightarrow>
            if \<not> acquire (if usesFp then fingerprintTemplate sql else 0)
            then (rate_limited (source_name src), s') else (OK, s'))"

definition gateSession :: "gate_env \<Rightarrow> Source \<Rightarrow> Status" where
  "gateSession ge src =
     (case ge_limiter ge of
        None \<Rightarrow> OK
      | Some (usesFp, acquire) \<Rightarrow> if \<not> acquire 0 then rate_limited (source_name src) else OK)"

text \<open>
  The public methods: the gate, the route callbacks, then the ungated operation under the interceptors,
  which share the state; the scopes travel in the thread while an interceptor frame is open.
\<close>

definition with_scopes :: "(('op, 'w) ds_state \<Rightarrow> (Status \<times> 'a) \<times> ('op, 'w) ds_state) \<Rightarrow> 'op Thread \<Rightarrow> ('op, 'w) ds_state \<Rightarrow>
    (Status \<times> 'a) \<times> 'op SqlContext list \<times> ('op, 'w) ds_state" where
  "with_scopes oper th s =
     (case oper (s\<lparr>ds_scopes := scopes th\<rparr>) of (r, s') \<Rightarrow> (r, ds_scopes s', s'))"

definition gated :: "gate_env \<Rightarrow> ('op, ('op, 'w) ds_state) InterceptorRegistry \<Rightarrow> 'op Thread \<Rightarrow> Source \<Rightarrow> OperationType \<Rightarrow>
    string \<Rightarrow> Params option \<Rightarrow> ('a \<Rightarrow> int option) \<Rightarrow>
    ('a \<Rightarrow> ('op, 'w) ds_state \<Rightarrow> (Status \<times> 'a) \<times> ('op, 'w) ds_state) \<Rightarrow> 'a \<Rightarrow> ('op, 'w) ds_state \<Rightarrow>
    (Status \<times> 'a) \<times> ('op, 'w) ds_state" where
  "gated ge reg th src type sql ps af oper out s =
     (case preGate ge src sql type s of (g, s1) \<Rightarrow>
        if \<not> status_ok g then ((g, out), s1)
        else
          let th1 = th\<lparr>scopes := ds_scopes s1\<rparr> in
          case runOnRoute reg th1 (source_name src) sql type (current (ds_scopes s1)) s1 of (ctx, s2) \<Rightarrow>
            case runWithInterceptors reg th1
                   \<lparr>v_dataSource = source_name src, v_sql = sql, v_type = type, v_params = ps,
                    v_affected = 0, v_status = OK, v_ctx = ctx\<rparr>
                   af out (with_scopes (oper out)) s2 of
              (r, sc, s3) \<Rightarrow> (r, s3\<lparr>ds_scopes := sc\<rparr>))"

definition ds_query where
  "ds_query ge reg th src sql e = gated ge reg th src OpQuery sql None (\<lambda>_. None) (queryUngated_plain e src sql)"

definition ds_query_params where
  "ds_query_params ge reg th src sql ps e =
     gated ge reg th src OpQuery sql (Some ps) (\<lambda>_. None) (queryUngated e src sql ps)"

definition ds_query_stream where
  "ds_query_stream ge reg th src sql e = gated ge reg th src OpQuery sql None (\<lambda>_. None) (queryUngated_stream e src)"

definition ds_execute where
  "ds_execute ge reg th src sql e = gated ge reg th src OpExecute sql None Some (executeUngated_plain e src sql)"

definition ds_execute_params where
  "ds_execute_params ge reg th src sql ps e =
     gated ge reg th src OpExecute sql (Some ps) Some (executeUngated_params e src sql ps)"

definition ds_execute_keys where
  "ds_execute_keys ge reg th src sql e =
     gated ge reg th src OpExecute sql None (\<lambda>(n, _). Some n) (executeUngated_keys e src)"

definition ds_execute_params_keys where
  "ds_execute_params_keys ge reg th src sql ps e =
     gated ge reg th src OpExecute sql (Some ps) (\<lambda>(n, _). Some n) (executeUngated_params_keys e src)"

definition ds_execute_stream where
  "ds_execute_stream ge reg th src sql e =
     gated ge reg th src OpExecute sql None (\<lambda>(n, _). Some n) (executeUngated_stream e src)"

definition ds_executeBatch where
  "ds_executeBatch ge reg th src sql batch e =
     gated ge reg th src OpBatch sql None (\<lambda>_. None) (executeBatchUngated e src sql batch)"

definition ds_executeBatch_stream where
  "ds_executeBatch_stream ge reg th src sql e =
     gated ge reg th src OpBatch sql None (\<lambda>_. None) (executeBatchUngated_stream e src)"

definition ds_queryEach where
  "ds_queryEach ge reg th src sql ps e =
     gated ge reg th src OpStream sql (Some ps) (\<lambda>_. None) (queryEachUngated e src)"

text \<open>Cursors can be switched off; the options' batch size only reaches the driver.\<close>

definition ds_openCursor where
  "ds_openCursor enabled scrollable_ok scrollable ge reg th src sql ps limit e out s =
     (if \<not> enabled
      then ((error NotSupported ''cursors are disabled for this datasource'', out), s)
      else if scrollable \<and> \<not> scrollable_ok
      then ((error NotSupported ''scrollable cursors are disabled for this datasource'', out), s)
      else gated ge reg th src OpSelect sql (Some ps) (\<lambda>_. None) (openCursorUngated e src limit) out s)"

text \<open>
  \<open>queryAll\<close> and \<open>call\<close> have no interceptor frame and no branch for groups: on a group they run the leaf
  code on the group itself, which has no pool, retries or breaker settings of its own (\<open>group_as_leaf\<close>).
\<close>

definition group_as_leaf :: "Group \<Rightarrow> Leaf" where
  "group_as_leaf g =
     \<lparr>lf_name = g_name g,
      lf_retry = \<lparr>max_attempts = 1, initial_backoff_ms = 50, max_backoff_ms = 1000, retry_writes = False\<rparr>,
      lf_breaker = \<lparr>failure_threshold = 0, open_interval_ms = 30000\<rparr>,
      lf_readReplica = False, lf_readOnly = g_readOnly g, lf_poolAlive = False\<rparr>"

definition own_leaf :: "Source \<Rightarrow> Leaf" where
  "own_leaf src = (case src of LeafSource l \<Rightarrow> l | GroupSource g \<Rightarrow> group_as_leaf g)"

definition ds_queryAll where
  "ds_queryAll ge reg th src sql env s =
     (case preGate ge src sql OpQuery s of (g, s1) \<Rightarrow>
        if \<not> status_ok g then ((g, []), s1)
        else case runOnRoute reg (th\<lparr>scopes := ds_scopes s1\<rparr>) (source_name src) sql OpQuery (current (ds_scopes s1)) s1 of
          (_, s2) \<Rightarrow> leaf_queryAll (own_leaf src) env s2)"

definition ds_call where
  "ds_call ge src sql e s =
     (case preGate ge src sql OpExecute s of (g, s1) \<Rightarrow>
        if \<not> status_ok g then ((g, empty_call), s1) else leaf_call (own_leaf src) e s1)"

end
