(* ===== verification/SourceRouting.thy ===== *)
theory SourceRouting
  imports DataSource
begin

text \<open>
  Theorems on the routing of a \<open>DataSource\<close>: which database executes a write, what readers see after it,
  and what the breaker does to cursors.
\<close>

section \<open>One write, one server\<close>

lemma nested_pair: obtains a b c where "x = ((a, b), c)"
  by (metis surj_pair)




lemma group_markWrite_db [simp]:
  "ds_db (group_markWrite g now s) = ds_db s" "ds_buffer (group_markWrite g now s) = ds_buffer s"
  by (simp_all add: group_markWrite_def)






text \<open>
  The replay of a buffered write does not know the mark: it makes as many attempts as an unmarked
  write, whatever the scopes of the thread that asked for it.
\<close>

theorem buffered_write_loses_mark:
  assumes "run_buffered env env_batch (BufferedExecute l sql ps) s = (st, s')"
  shows "\<exists>a s1. leaf_loop l env (\<lambda>k o'. 0) (resolveWriteAttempts (lf_retry l) Unspecified) 0 (s\<lparr>ds_scopes := []\<rparr>) =
    ((st, a), s1) \<and> ds_db s' = ds_db s1"
proof -
  obtain st1 a s1 where r: "leaf_loop l env (\<lambda>k o'. 0) (resolveWriteAttempts (lf_retry l) Unspecified) 0 (s\<lparr>ds_scopes := []\<rparr>) =
    ((st1, a), s1)" by (rule nested_pair)
  then show ?thesis using assms
    by (auto simp: run_buffered_def leaf_executeUngated_def current_def defaultInstance_def leaf_markWrite_def split: if_splits)
qed

section \<open>Readers after a write\<close>



lemma pinRequestWrite_shadow [simp]: "shadow (current (pinRequestWrite sc)) = shadow (current sc)"
proof (cases "2 \<le> length sc")
  case True
  then have "last (sc[length sc - 2 := x]) = last sc" for x
    by (subst last_list_update) auto
  with True show ?thesis by (auto simp: pinRequestWrite_def current_def)
qed (auto simp: pinRequestWrite_def current_def)






section \<open>Cursors and the half-open breaker\<close>

text \<open>
  A cursor opened as the probe of a half-open breaker: the attempt is not accounted for, so the breaker
  refuses every later attempt, whatever the time.
\<close>

theorem open_cursor_blocks_half_open_breaker:
  assumes "0 < failure_threshold (lf_breaker l)" and "circuitOpenUntil b \<noteq> 0"
    and "cursor_attempt l e w b = (Inr (st, Some c), w', b')"
  shows "\<not> status_ok (fst (beforeAttempt (lf_name l) (lf_breaker l) stop now b')) \<and>
    snd (beforeAttempt (lf_name l) (lf_breaker l) stop now b') = b'"
  using assms
  by (auto simp: cursor_attempt_def beforeAttempt_def circuit_status_def Let_def split: prod.splits if_splits)

section \<open>Failover and connection failures\<close>

text \<open>
  A target that cannot be connected to ends a dispatch: \<open>borrowSession\<close> marks the failure as a broken
  connection, which counts as possibly sent. The later candidates are not tried.
\<close>

theorem unreachable_target_ends_failover:
  assumes "resolveWriteAttempts (lf_retry l) (idempotency (current (ds_scopes s))) = 1"
    and "status_ok (fst (beforeAttempt (lf_name l) (lf_breaker l) (at_stop (env l 1)) (at_before (env l 1)) (ds_breaker s (lf_name l))))"
    and "at_borrow (env l 1) = BorrowFailed ConnectionFailed err"
    and "dispatch_loop g (\<lambda>l. leaf_executeUngated l (env l) zero zero) task mk bf (l # ls) st0 a0 s = ((st, a), s')"
  shows "code st = ConnectionFailed \<and> ds_db s' = ds_db s"
  using assms
  by (auto simp: leaf_executeUngated_def leaf_loop_def attempt_once_def borrowSession_def safeToFailoverWrite_def error_def
      status_ok_def Let_def split: prod.splits if_splits)

section \<open>Gates\<close>

lemma preGate_read_only:
  assumes "ac_enabled cfg" and "ac_action cfg = ''block''" and "ac_enforce_read_only cfg" and "isWrite (classifyStatement sql)"
    and "source_readOnly src" and "ds_auditor s = auditor_configure cfg aud"
  shows "\<not> status_ok (fst (preGate ge src sql type s)) \<and> ds_db (snd (preGate ge src sql type s)) = ds_db s \<and>
    ds_cache (snd (preGate ge src sql type s)) = ds_cache s \<and> ds_buffer (snd (preGate ge src sql type s)) = ds_buffer s"
  using auditor_blocks_read_only_write [OF assms(1-4), of type aud] assms(5,6)
  by (auto simp: preGate_def Let_def split: prod.splits)

text \<open>
  C35: Under a blocking audit with read-only enforcement every gated operation of a read-only
  source refuses a write statement and changes neither the database, nor the cache, nor the
  write buffer.
\<close>

theorem read_only_source_executes_no_write:
  assumes "ac_enabled cfg" and "ac_action cfg = ''block''" and "ac_enforce_read_only cfg" and "isWrite (classifyStatement sql)"
    and "source_readOnly src" and "ds_auditor s = auditor_configure cfg aud"
    and "gated ge reg th src type sql ps af oper out s = ((st, a), s')"
  shows "\<not> status_ok st \<and> a = out \<and> ds_db s' = ds_db s \<and> ds_cache s' = ds_cache s \<and> ds_buffer s' = ds_buffer s"
  using preGate_read_only [OF assms(1-6), of ge type] assms(7)
  by (auto simp: gated_def split: prod.splits)

text \<open>
  \<open>queryAll\<close> on a group: a group has no pool of its own, so every call that passes the gate fails.
\<close>

theorem group_queryAll_never_reaches_a_server:
  assumes "at_borrow (env 1) = PoolGone" and "status_ok (at_stop (env 1))"
    and "r_interceptors reg = []"
    and "status_ok (fst (preGate ge (GroupSource g) sql OpQuery s))"
    and "ds_queryAll ge reg th (GroupSource g) sql env s = ((st, rs), s')"
  shows "code st = PoolClosed \<and> rs = [] \<and> ds_db s' = ds_db s"
proof -
  obtain g1 s1 where p: "preGate ge (GroupSource g) sql OpQuery s = (g1, s1)" by (cases "preGate ge (GroupSource g) sql OpQuery s")
  then have "ds_db s1 = ds_db s" by (auto simp: preGate_def Let_def split: prod.splits if_splits option.splits)
  then show ?thesis using assms p
    by (auto simp: ds_queryAll_def runOnRoute_def own_leaf_def group_as_leaf_def leaf_queryAll_def leaf_loop_def attempt_once_def
        beforeAttempt_def borrowSession_def error_def OK_def status_ok_def Let_def split: prod.splits if_splits)
qed

section \<open>Witnesses\<close>

definition sample_leaf :: "string \<Rightarrow> Leaf" where
  "sample_leaf n =
     \<lparr>lf_name = n, lf_retry = \<lparr>max_attempts = 3, initial_backoff_ms = 50, max_backoff_ms = 1000, retry_writes = True\<rparr>,
      lf_breaker = \<lparr>failure_threshold = 2, open_interval_ms = 5\<rparr>, lf_readReplica = False, lf_readOnly = False, lf_poolAlive = True\<rparr>"

definition sample_group :: Group where
  "sample_group =
     \<lparr>g_name = ''app'', g_primary = sample_leaf ''main'', g_replicas = [sample_leaf ''replica''], g_readAfterWrite_ms = 1000,
      g_fallbackToPrimary = True, g_failoverPrimaries = [sample_leaf ''main'', sample_leaf ''standby''], g_requireHealthy = False,
      g_shadow = None, g_readOnly = True\<rparr>"

definition sample_state :: "(unit, nat) ds_state" where
  "sample_state =
     \<lparr>ds_auditor = auditor_configure strict_audit initial_auditor, ds_breaker = (\<lambda>_. new_breaker), ds_cache = sample_cache,
      ds_scopes = [defaultInstance\<lparr>idempotency := NonIdempotent\<rparr>], ds_round = 0, ds_lastWriteNs = (\<lambda>_. 0),
      ds_buffer = (\<lambda>_. None), ds_db = 0\<rparr>"

text \<open>Each session adds one to the database; the pool of the first target is exhausted.\<close>

definition sample_attempt :: "borrow_outcome \<Rightarrow> (int, nat) attempt" where
  "sample_attempt b =
     \<lparr>at_stop = OK, at_before = 1, at_borrow = b, at_session = (\<lambda>a w. ((OK, 1), w + 1)), at_stop_after = OK, at_after = 2\<rparr>"

definition sample_write :: "(nat \<Rightarrow> (int, nat) attempt) write_env" where
  "sample_write =
     \<lparr>we_clk = (\<lambda>_. 0), we_mark = 7, we_buffer = 8,
      we_leaf = (\<lambda>l _. sample_attempt (if lf_name l = ''main'' then BorrowFailed PoolExhausted [] else Borrowed))\<rparr>"

lemmas sample_routing = sample_leaf_def sample_group_def sample_state_def sample_attempt_def sample_write_def




text \<open>A replay whose first attempt was executed and reported as retryable: the write is executed twice.\<close>

definition lost_answer :: "nat \<Rightarrow> (int, nat) attempt" where
  "lost_answer k =
     (sample_attempt Borrowed)\<lparr>at_session := (\<lambda>a w. ((if k = 1 then (error QueryError [])\<lparr>retryable := True\<rparr> else OK, 1), w + 1))\<rparr>"

theorem buffered_write_loses_mark_witness:
  "idempotency (current (ds_scopes sample_state)) = NonIdempotent \<and>
   (\<exists>st s'. run_buffered lost_answer eb (BufferedExecute (sample_leaf ''main'') sql ps) sample_state = (st, s') \<and>
     status_ok st \<and> ds_db s' = 2)"
proof -
  obtain st s' where r: "run_buffered lost_answer eb (BufferedExecute (sample_leaf ''main'') sql ps) sample_state = (st, s')"
    by fastforce
  from buffered_write_loses_mark [OF r] have "status_ok st \<and> ds_db s' = 2"
    by (auto simp: leaf_loop_def resolveWriteAttempts_def sample_routing lost_answer_def attempt_once_def beforeAttempt_def
        afterAttempt_def new_breaker_def borrowSession_def OK_def status_ok_def error_def numeral_3_eq_3 Let_def)
  then show ?thesis using r by (auto simp: sample_state_def current_def)
qed


theorem open_cursor_blocks_half_open_breaker_witness:
  "\<exists>w' b'. cursor_attempt (sample_leaf ''main'')
       \<lparr>at_stop = OK, at_before = 9, at_borrow = Borrowed, at_session = (\<lambda>a w. ((OK, Some ()), w)), at_stop_after = OK, at_after = 9\<rparr>
       () (new_breaker\<lparr>circuitOpenUntil := 5\<rparr>) = (Inr (OK, Some ()), w', b') \<and>
     \<not> status_ok (fst (beforeAttempt ''main'' (lf_breaker (sample_leaf ''main'')) OK 1000000 b'))"
proof -
  let ?e = "\<lparr>at_stop = OK, at_before = 9, at_borrow = Borrowed, at_session = (\<lambda>a w. ((OK, Some ()), w)), at_stop_after = OK, at_after = 9\<rparr>
    :: (unit option, unit) attempt"
  obtain w' b' where r: "cursor_attempt (sample_leaf ''main'') ?e () (new_breaker\<lparr>circuitOpenUntil := 5\<rparr>) = (Inr (OK, Some ()), w', b')"
    by (auto simp: cursor_attempt_def beforeAttempt_def borrowSession_def sample_leaf_def new_breaker_def Let_def)
  from open_cursor_blocks_half_open_breaker [OF _ _ r, of OK 1000000] r show ?thesis
    by (auto simp: sample_leaf_def)
qed

theorem unreachable_target_ends_failover_witness:
  "\<exists>st a s'. dispatch_loop sample_group
       (\<lambda>l. leaf_executeUngated l (\<lambda>_. sample_attempt (if lf_name l = ''main'' then BorrowFailed ConnectionFailed [] else Borrowed)) 0 0)
       None 0 0 [sample_leaf ''main'', sample_leaf ''standby''] OK 0 sample_state = ((st, a), s') \<and>
     code st = ConnectionFailed \<and> ds_db s' = 0"
proof -
  let ?env = "\<lambda>l. (\<lambda>_. sample_attempt (if lf_name l = ''main'' then BorrowFailed ConnectionFailed [] else Borrowed))"
  obtain st a s' where r: "dispatch_loop sample_group (\<lambda>l. leaf_executeUngated l (?env l) 0 0)
      None 0 0 [sample_leaf ''main'', sample_leaf ''standby''] OK 0 sample_state = ((st, a), s')" by (rule nested_pair)
  have "resolveWriteAttempts (lf_retry (sample_leaf ''main'')) (idempotency (current (ds_scopes sample_state))) = 1"
    by (simp add: sample_routing current_def resolveWriteAttempts_def)
  moreover have "status_ok (fst (beforeAttempt ''main'' (lf_breaker (sample_leaf ''main'')) OK 1 (ds_breaker sample_state ''main'')))"
    by (simp add: sample_routing beforeAttempt_def new_breaker_def)
  ultimately have "code st = ConnectionFailed \<and> ds_db s' = ds_db sample_state"
    using unreachable_target_ends_failover [OF _ _ _ r] by (simp add: sample_attempt_def sample_leaf_def)
  then show ?thesis using r by (auto simp: sample_state_def)
qed

theorem read_only_source_executes_no_write_witness:
  "\<exists>st a s'. ds_execute \<lparr>ge_stop = OK, ge_limiter = None\<rparr> \<lparr>r_id = 0, r_enabled = False, r_count = 0, r_interceptors = []\<rparr>
       \<lparr>executionStack = [], callbackStack = [], scopes = []\<rparr> (GroupSource sample_group) ''DELETE FROM t'' sample_write 0 sample_state =
       ((st, a), s') \<and> \<not> status_ok st \<and> ds_db s' = 0"
proof -
  have w: "isWrite (classifyStatement ''DELETE FROM t'')" by code_simp
  obtain st a s' where r: "ds_execute \<lparr>ge_stop = OK, ge_limiter = None\<rparr> \<lparr>r_id = 0, r_enabled = False, r_count = 0, r_interceptors = []\<rparr>
       \<lparr>executionStack = [], callbackStack = [], scopes = []\<rparr> (GroupSource sample_group) ''DELETE FROM t'' sample_write 0 sample_state =
       ((st, a), s')" by (rule nested_pair)
  from read_only_source_executes_no_write [where cfg = strict_audit and aud = initial_auditor, OF _ _ _ w _ _ r [unfolded ds_execute_def]]
  have "\<not> status_ok st \<and> ds_db s' = ds_db sample_state"
    by (simp add: strict_audit_def sample_group_def source_readOnly_def sample_state_def)
  then show ?thesis using r by (auto simp: sample_state_def)
qed

end
