(* ===== verification/Session.thy ===== *)
theory Session
  imports Interceptor SqlAuditor
begin

text \<open>
  A session on a borrowed connection: \<open>Session\<close> of \<^verbatim>\<open>src/core/database_manager.cpp\<close>, with \<open>observe\<close>,
  \<open>observeSqlImpl\<close> and the prepared-statement path.

  The connection is a state \<^typ>\<open>'c\<close> behind the virtual functions of \<open>IDatabaseConnection\<close>, which a
  driver implements: a call is a function from the connection to its status, output and the new
  connection. Every statement method of \<open>Session\<close> has the same frame around its driver call (audit,
  routing hook, interceptors, observation, invalidation of a broken connection): \<open>statement\<close> is the
  frame, one definition per method fills it. What \<open>operationStatus()\<close> answers at each point is an argument.
  Events and log lines are not modelled.
\<close>

section \<open>State\<close>

record 'c Session =
  h_conn :: 'c
  h_reusable :: bool
  audit_enabled :: bool
  audit_readOnly :: bool
  txOpen :: bool
  didWrite :: bool

record ('c, 'u) sess_world =
  sw_session :: "'c Session"
  sw_auditor :: SqlAuditorState
  sw_user :: 'u

definition invalidate_if :: "bool \<Rightarrow> 'c Session \<Rightarrow> 'c Session" where
  "invalidate_if broken s = (if broken then s\<lparr>h_reusable := False\<rparr> else s)"

section \<open>Observation\<close>

text \<open>The status of the current operation before the call, after binding the cancellation and after the call.\<close>

record op_view =
  has_op :: bool
  op_start :: Status
  op_bound :: Status
  op_end :: Status

definition observe :: "Status \<Rightarrow> ('s \<Rightarrow> Status \<times> 's) \<Rightarrow> 's \<Rightarrow> Status \<times> 's" where
  "observe stop fn s = (if \<not> status_ok stop then (stop, s) else fn s)"

definition observeSql :: "op_view \<Rightarrow> OperationType \<Rightarrow> 'a \<Rightarrow> ('s \<Rightarrow> (Status \<times> 'a) \<times> 's) \<Rightarrow> 's \<Rightarrow> (Status \<times> 'a) \<times> 's" where
  "observeSql e type out fn s =
     (if has_op e \<and> \<not> status_ok (op_start e) then ((op_start e, out), s)
      else if has_op e \<and> \<not> status_ok (op_bound e) then ((op_bound e, out), s)
      else
        (case fn s of ((st, a), s') \<Rightarrow>
           let isWriteOp = (type = OpExecute \<or> type = OpBatch);
               st' = (if has_op e \<and> \<not> status_ok (op_end e)
                      then (if isWriteOp \<and> status_ok st then st else op_end e)\<lparr>connectionBroken := True\<rparr>
                      else st)
           in ((st', a), s')))"

section \<open>Statements\<close>

definition auditStatement :: "string \<Rightarrow> OperationType \<Rightarrow> ('c, 'u) sess_world \<Rightarrow> Status \<times> ('c, 'u) sess_world" where
  "auditStatement sql type w =
     (if \<not> audit_enabled (sw_session w) then (OK, w)
      else case auditor_check sql type (audit_readOnly (sw_session w)) (sw_auditor w) of
        (st, a) \<Rightarrow> (st, w\<lparr>sw_auditor := a\<rparr>))"

text \<open>The driver call with the bookkeeping of its lambda, and the invalidation after the observation.\<close>

definition observed_call :: "op_view \<Rightarrow> OperationType \<Rightarrow> bool \<Rightarrow> 'a \<Rightarrow> ('c \<Rightarrow> (Status \<times> 'a) \<times> 'c) \<Rightarrow>
    ('c, 'u) sess_world \<Rightarrow> (Status \<times> 'a) \<times> ('c, 'u) sess_world" where
  "observed_call e type writes out drv w =
     (case observeSql e type out
        (\<lambda>s. case drv (h_conn s) of ((st, a), c) \<Rightarrow>
           ((st, a), s\<lparr>h_conn := c, didWrite := didWrite s \<or> writes \<and> status_ok st\<rparr>))
        (sw_session w) of
        ((st, a), s) \<Rightarrow> ((st, a), w\<lparr>sw_session := invalidate_if (connectionBroken st) s\<rparr>))"

definition session_view :: "string \<Rightarrow> string \<Rightarrow> OperationType \<Rightarrow> Params option \<Rightarrow> 'op SqlContext \<Rightarrow> 'op ExecutionView" where
  "session_view ds sql type ps ctx =
     \<lparr>v_dataSource = ds, v_sql = sql, v_type = type, v_params = ps, v_affected = 0, v_status = OK, v_ctx = ctx\<rparr>"

record ('op, 'c, 'u) sess_env =
  se_registry :: "('op, ('c, 'u) sess_world) InterceptorRegistry"
  se_thread :: "'op Thread"
  se_op :: op_view
  se_dataSource :: string

text \<open>
  The frame: \<open>audited\<close> and \<open>guarded\<close> say whether the method audits and runs under the interceptors,
  \<open>cleared\<close> is the output after the method's own reset, \<open>af\<close> the affected count it reports.
\<close>

definition statement :: "('op, 'c, 'u) sess_env \<Rightarrow> bool \<Rightarrow> bool \<Rightarrow> OperationType \<Rightarrow> bool \<Rightarrow> string \<Rightarrow> Params option \<Rightarrow>
    ('a \<Rightarrow> int option) \<Rightarrow> 'a \<Rightarrow> ('c \<Rightarrow> (Status \<times> 'a) \<times> 'c) \<Rightarrow> ('c, 'u) sess_world \<Rightarrow>
    (Status \<times> 'a) \<times> 'op SqlContext list \<times> ('c, 'u) sess_world" where
  "statement e audited guarded type writes sql ps af cleared drv w =
     (case (if audited then auditStatement sql type w else (OK, w)) of (a, w1) \<Rightarrow>
        if \<not> status_ok a then ((a, cleared), scopes (se_thread e), w1)
        else
          (case runOnRoute (se_registry e) (se_thread e) (se_dataSource e) sql type
                  (current (scopes (se_thread e))) w1 of (ctx, w2) \<Rightarrow>
             let run = (\<lambda>th w. case observed_call (se_op e) type writes cleared drv w of
                          (r, w') \<Rightarrow> (r, scopes th, w'))
             in if guarded
                then runWithInterceptors (se_registry e) (se_thread e)
                       (session_view (se_dataSource e) sql type ps ctx) af cleared run w2
                else run (se_thread e) w2))"

definition session_query :: "('op, 'c, 'u) sess_env \<Rightarrow> string \<Rightarrow> ('c \<Rightarrow> (Status \<times> ResultSet) \<times> 'c) \<Rightarrow>
    ('c, 'u) sess_world \<Rightarrow> (Status \<times> ResultSet) \<times> 'op SqlContext list \<times> ('c, 'u) sess_world" where
  "session_query e sql drv = statement e True True OpQuery False sql None (\<lambda>_. None) empty_rs drv"

text \<open>
  The prepared path: prepare when the cache is on and the driver supports it; a failed prepare falls
  back to the direct call.
\<close>

definition runPreparedQuery :: "bool \<Rightarrow> ('c \<Rightarrow> (Status \<times> 'h) \<times> 'c) \<Rightarrow> ('h \<Rightarrow> 'c \<Rightarrow> (Status \<times> ResultSet) \<times> 'c) \<Rightarrow>
    ('c \<Rightarrow> (Status \<times> ResultSet) \<times> 'c) \<Rightarrow> 'c \<Rightarrow> (Status \<times> ResultSet) \<times> 'c" where
  "runPreparedQuery usable prep exec direct c =
     (if \<not> usable then direct c
      else case prep c of ((st, h), c') \<Rightarrow> if \<not> status_ok st then direct c' else exec h c')"

definition runPreparedExec :: "bool \<Rightarrow> bool \<Rightarrow> ('c \<Rightarrow> (Status \<times> 'h) \<times> 'c) \<Rightarrow> ('h \<Rightarrow> 'c \<Rightarrow> (Status \<times> 'a) \<times> 'c) \<Rightarrow>
    ('c \<Rightarrow> (Status \<times> 'a) \<times> 'c) \<Rightarrow> 'c \<Rightarrow> (Status \<times> 'a) \<times> 'c" where
  "runPreparedExec keys usable prep exec direct c =
     (if keys \<or> \<not> usable then direct c
      else case prep c of ((st, h), c') \<Rightarrow> if \<not> status_ok st then direct c' else exec h c')"

definition session_query_params :: "('op, 'c, 'u) sess_env \<Rightarrow> string \<Rightarrow> Params \<Rightarrow> bool \<Rightarrow>
    ('c \<Rightarrow> (Status \<times> 'h) \<times> 'c) \<Rightarrow> ('h \<Rightarrow> 'c \<Rightarrow> (Status \<times> ResultSet) \<times> 'c) \<Rightarrow> ('c \<Rightarrow> (Status \<times> ResultSet) \<times> 'c) \<Rightarrow>
    ('c, 'u) sess_world \<Rightarrow> (Status \<times> ResultSet) \<times> 'op SqlContext list \<times> ('c, 'u) sess_world" where
  "session_query_params e sql ps usable prep exec direct =
     statement e True True OpQuery False sql (Some ps) (\<lambda>_. None) empty_rs (runPreparedQuery usable prep exec direct)"

definition session_queryAll :: "('op, 'c, 'u) sess_env \<Rightarrow> string \<Rightarrow> Params \<Rightarrow> ('c \<Rightarrow> (Status \<times> ResultSet list) \<times> 'c) \<Rightarrow>
    ('c, 'u) sess_world \<Rightarrow> (Status \<times> ResultSet list) \<times> 'op SqlContext list \<times> ('c, 'u) sess_world" where
  "session_queryAll e sql ps drv = statement e True False OpQuery False sql (Some ps) (\<lambda>_. None) [] drv"

definition session_call :: "('op, 'c, 'u) sess_env \<Rightarrow> string \<Rightarrow> 'out \<Rightarrow> ('c \<Rightarrow> (Status \<times> 'out) \<times> 'c) \<Rightarrow>
    ('c, 'u) sess_world \<Rightarrow> (Status \<times> 'out) \<times> 'op SqlContext list \<times> ('c, 'u) sess_world" where
  "session_call e sql emptyOut drv = statement e True False OpExecute True sql None (\<lambda>_. None) emptyOut drv"

definition session_execute :: "('op, 'c, 'u) sess_env \<Rightarrow> string \<Rightarrow> int \<Rightarrow> ('c \<Rightarrow> (Status \<times> int) \<times> 'c) \<Rightarrow>
    ('c, 'u) sess_world \<Rightarrow> (Status \<times> int) \<times> 'op SqlContext list \<times> ('c, 'u) sess_world" where
  "session_execute e sql affected drv = statement e True True OpExecute True sql None Some affected drv"

definition session_execute_params :: "('op, 'c, 'u) sess_env \<Rightarrow> string \<Rightarrow> Params \<Rightarrow> int \<Rightarrow> bool \<Rightarrow>
    ('c \<Rightarrow> (Status \<times> 'h) \<times> 'c) \<Rightarrow> ('h \<Rightarrow> 'c \<Rightarrow> (Status \<times> int) \<times> 'c) \<Rightarrow> ('c \<Rightarrow> (Status \<times> int) \<times> 'c) \<Rightarrow>
    ('c, 'u) sess_world \<Rightarrow> (Status \<times> int) \<times> 'op SqlContext list \<times> ('c, 'u) sess_world" where
  "session_execute_params e sql ps affected usable prep exec direct =
     statement e True True OpExecute True sql (Some ps) Some affected (runPreparedExec False usable prep exec direct)"

text \<open>With generated keys the output is the affected count and the keys.\<close>

definition session_execute_keys :: "('op, 'c, 'u) sess_env \<Rightarrow> string \<Rightarrow> int \<times> 'k \<Rightarrow> ('c \<Rightarrow> (Status \<times> int \<times> 'k) \<times> 'c) \<Rightarrow>
    ('c, 'u) sess_world \<Rightarrow> (Status \<times> int \<times> 'k) \<times> 'op SqlContext list \<times> ('c, 'u) sess_world" where
  "session_execute_keys e sql out drv = statement e True True OpExecute True sql None (\<lambda>(n, k). Some n) out drv"

definition session_execute_params_keys :: "('op, 'c, 'u) sess_env \<Rightarrow> string \<Rightarrow> Params \<Rightarrow> int \<times> 'k \<Rightarrow>
    bool \<Rightarrow> ('c \<Rightarrow> (Status \<times> 'h) \<times> 'c) \<Rightarrow> ('h \<Rightarrow> 'c \<Rightarrow> (Status \<times> int \<times> 'k) \<times> 'c) \<Rightarrow> ('c \<Rightarrow> (Status \<times> int \<times> 'k) \<times> 'c) \<Rightarrow>
    ('c, 'u) sess_world \<Rightarrow> (Status \<times> int \<times> 'k) \<times> 'op SqlContext list \<times> ('c, 'u) sess_world" where
  "session_execute_params_keys e sql ps out usable prep exec direct =
     statement e True True OpExecute True sql (Some ps) (\<lambda>(n, k). Some n) out (runPreparedExec True usable prep exec direct)"

definition session_query_stream :: "('op, 'c, 'u) sess_env \<Rightarrow> string \<Rightarrow> ('c \<Rightarrow> (Status \<times> ResultSet) \<times> 'c) \<Rightarrow>
    ('c, 'u) sess_world \<Rightarrow> (Status \<times> ResultSet) \<times> 'op SqlContext list \<times> ('c, 'u) sess_world" where
  "session_query_stream e sql drv = statement e True True OpQuery False sql None (\<lambda>_. None) empty_rs drv"

definition session_execute_stream :: "('op, 'c, 'u) sess_env \<Rightarrow> string \<Rightarrow> int \<times> 'k \<Rightarrow> ('c \<Rightarrow> (Status \<times> int \<times> 'k) \<times> 'c) \<Rightarrow>
    ('c, 'u) sess_world \<Rightarrow> (Status \<times> int \<times> 'k) \<times> 'op SqlContext list \<times> ('c, 'u) sess_world" where
  "session_execute_stream e sql out drv = statement e True True OpExecute True sql None (\<lambda>(n, k). Some n) out drv"

definition session_executeBatch :: "('op, 'c, 'u) sess_env \<Rightarrow> string \<Rightarrow> 'out \<Rightarrow> ('c \<Rightarrow> (Status \<times> 'out) \<times> 'c) \<Rightarrow>
    ('c, 'u) sess_world \<Rightarrow> (Status \<times> 'out) \<times> 'op SqlContext list \<times> ('c, 'u) sess_world" where
  "session_executeBatch e sql out drv = statement e True True OpBatch True sql None (\<lambda>_. None) out drv"

definition session_executeBatch_stream :: "('op, 'c, 'u) sess_env \<Rightarrow> string \<Rightarrow> 'out \<Rightarrow> ('c \<Rightarrow> (Status \<times> 'out) \<times> 'c) \<Rightarrow>
    ('c, 'u) sess_world \<Rightarrow> (Status \<times> 'out) \<times> 'op SqlContext list \<times> ('c, 'u) sess_world" where
  "session_executeBatch_stream e sql out drv = statement e True True OpBatch True sql None (\<lambda>_. None) out drv"

text \<open>A prepared handle was audited when it was prepared; running it is not audited again.\<close>

definition session_executePrepared_query :: "('op, 'c, 'u) sess_env \<Rightarrow> Params \<Rightarrow> ResultSet \<Rightarrow> ('c \<Rightarrow> (Status \<times> ResultSet) \<times> 'c) \<Rightarrow>
    ('c, 'u) sess_world \<Rightarrow> (Status \<times> ResultSet) \<times> 'op SqlContext list \<times> ('c, 'u) sess_world" where
  "session_executePrepared_query e ps out drv =
     statement e False True OpQuery False ''<prepared>'' (Some ps) (\<lambda>_. None) out drv"

definition session_executePrepared :: "('op, 'c, 'u) sess_env \<Rightarrow> Params \<Rightarrow> int \<Rightarrow> ('c \<Rightarrow> (Status \<times> int) \<times> 'c) \<Rightarrow>
    ('c, 'u) sess_world \<Rightarrow> (Status \<times> int) \<times> 'op SqlContext list \<times> ('c, 'u) sess_world" where
  "session_executePrepared e ps affected drv =
     statement e False True OpExecute True ''<prepared>'' (Some ps) Some affected drv"

text \<open>Preparing runs under the interceptors without observation.\<close>

definition session_prepare :: "('op, 'c, 'u) sess_env \<Rightarrow> string \<Rightarrow> Params \<Rightarrow> 'h \<Rightarrow> ('c \<Rightarrow> (Status \<times> 'h) \<times> 'c) \<Rightarrow>
    ('c, 'u) sess_world \<Rightarrow> (Status \<times> 'h) \<times> 'op SqlContext list \<times> ('c, 'u) sess_world" where
  "session_prepare e sql sample noHandle drv w =
     (case auditStatement sql OpQuery w of (a, w1) \<Rightarrow>
        if \<not> status_ok a then ((a, noHandle), scopes (se_thread e), w1)
        else
          (case runOnRoute (se_registry e) (se_thread e) (se_dataSource e) sql OpQuery
                  (current (scopes (se_thread e))) w1 of (ctx, w2) \<Rightarrow>
             runWithInterceptors (se_registry e) (se_thread e)
               (session_view (se_dataSource e) sql OpQuery (Some sample) ctx) (\<lambda>_. None) noHandle
               (\<lambda>th w. case drv (h_conn (sw_session w)) of
                  (r, c) \<Rightarrow> (r, scopes th, w\<lparr>sw_session := (sw_session w)\<lparr>h_conn := c\<rparr>\<rparr>)) w2))"

section \<open>What reaches the connection\<close>

text \<open>An operation that is over when the driver call returns.\<close>

text \<open>
  A driver call during which the operation ends makes the connection not reusable; the call is
  reported as successful exactly when it was a write that the driver completed.
\<close>

theorem stopped_call_retires_connection:
  assumes "has_op e" and "status_ok (op_start e)" and "status_ok (op_bound e)" and "\<not> status_ok (op_end e)"
    and "observed_call e type writes out drv w = ((st, a), w')"
  shows "\<not> h_reusable (sw_session w') \<and>
    (status_ok st \<longleftrightarrow> (type = OpExecute \<or> type = OpBatch) \<and> status_ok (fst (fst (drv (h_conn (sw_session w))))))"
  using assms
  by (auto simp: observed_call_def observeSql_def invalidate_if_def Let_def status_ok_def split: prod.splits if_splits)

lemma audit_refusal:
  assumes "audit_enabled (sw_session w)"
    and "\<not> status_ok (fst (auditor_check sql type (audit_readOnly (sw_session w)) (sw_auditor w)))"
    and "statement e True guarded type writes sql ps af cleared drv w = (r, sc, w')"
  shows "\<not> status_ok (fst r) \<and> sw_session w' = sw_session w"
  using assms by (auto simp: statement_def auditStatement_def split: prod.splits if_splits)

theorem read_only_session_sends_no_write:
  assumes "ac_enabled cfg" and "ac_action cfg = ''block''" and "ac_enforce_read_only cfg"
    and "isWrite (classifyStatement sql)"
    and "audit_enabled (sw_session w)" and "audit_readOnly (sw_session w)" and "sw_auditor w = auditor_configure cfg a"
    and "session_execute e sql affected drv w = (r, sc, w')"
  shows "\<not> status_ok (fst r) \<and> sw_session w' = sw_session w"
proof (rule audit_refusal [OF assms(5)])
  show "\<not> status_ok (fst (auditor_check sql OpExecute (audit_readOnly (sw_session w)) (sw_auditor w)))"
    using auditor_blocks_read_only_write [OF assms(1-4)] assms(6,7) by simp
  show "statement e True True OpExecute True sql None Some affected drv w = (r, sc, w')"
    using assms(8) by (simp add: session_execute_def)
qed

section \<open>Witnesses\<close>

definition no_op :: op_view where
  "no_op = \<lparr>has_op = False, op_start = OK, op_bound = OK, op_end = OK\<rparr>"

definition expired_op :: op_view where
  "expired_op = \<lparr>has_op = True, op_start = OK, op_bound = OK, op_end = error QueryTimeout ''operation deadline exceeded''\<rparr>"

definition sample_world :: "(nat, unit) sess_world" where
  "sample_world =
     \<lparr>sw_session = \<lparr>h_conn = 0, h_reusable = True, audit_enabled = True, audit_readOnly = True, txOpen = False, didWrite = False\<rparr>,
      sw_auditor = auditor_configure strict_audit initial_auditor, sw_user = ()\<rparr>"

definition sample_env :: "(unit, nat, unit) sess_env" where
  "sample_env =
     \<lparr>se_registry = \<lparr>r_id = 0, r_enabled = False, r_count = 0, r_interceptors = []\<rparr>,
      se_thread = \<lparr>executionStack = [], callbackStack = [], scopes = []\<rparr>, se_op = no_op, se_dataSource = ''db''\<rparr>"

definition count_call :: "nat \<Rightarrow> (Status \<times> int) \<times> nat" where
  "count_call c = ((OK, 1), c + 1)"

theorem stopped_call_retires_connection_witness:
  "\<exists>st a w'. observed_call expired_op OpExecute True 0 count_call sample_world = ((st, a), w') \<and>
     \<not> h_reusable (sw_session w') \<and> status_ok st"
proof -
  obtain st a w' where r: "observed_call expired_op OpExecute True 0 count_call sample_world = ((st, a), w')"
    by (metis prod.collapse)
  have "\<not> h_reusable (sw_session w') \<and> status_ok st"
    using stopped_call_retires_connection [OF _ _ _ _ r] by (simp add: expired_op_def count_call_def)
  then show ?thesis using r by blast
qed

theorem read_only_session_sends_no_write_witness:
  "\<exists>r sc w'. session_execute sample_env ''DELETE FROM t'' 0 count_call sample_world = (r, sc, w') \<and>
     \<not> status_ok (fst r) \<and> h_conn (sw_session w') = 0"
proof -
  obtain r sc w' where r: "session_execute sample_env ''DELETE FROM t'' 0 count_call sample_world = (r, sc, w')"
    by (metis prod.collapse)
  have w: "isWrite (classifyStatement ''DELETE FROM t'')" by code_simp
  have "\<not> status_ok (fst r) \<and> sw_session w' = sw_session sample_world"
    using read_only_session_sends_no_write [where cfg = strict_audit, OF _ _ _ w _ _ _ r]
    by (simp add: strict_audit_def sample_world_def)
  then show ?thesis using r by (auto simp: sample_world_def)
qed

end
