(* ===== verification/Transactions.thy ===== *)
theory Transactions
  imports Session
begin

text \<open>
  The transaction methods of \<open>Session\<close> in \<^verbatim>\<open>src/core/database_manager.cpp\<close>: begin, commit, rollback,
  savepoints, cancel, and what the destructor does with an open transaction.

  The driver's transaction calls are functions on the connection. The thread-local transaction depth
  \<^verbatim>\<open>gTxDepth\<close> is passed along with the session. Each method goes through \<open>observe\<close>, which does not call
  the driver when the current operation is over: what \<open>operationStatus()\<close> answers is its argument.
\<close>

section \<open>Methods\<close>

datatype IsolationLevel = IsolationDefault | ReadUncommitted | ReadCommitted | RepeatableRead | Serializable

record TransactionOptions =
  isolation :: IsolationLevel
  to_readOnly :: bool
  timeout_ms :: int

record 'c TxDriver =
  d_begin :: "TransactionOptions \<Rightarrow> 'c \<Rightarrow> Status \<times> 'c"
  d_commit :: "'c \<Rightarrow> Status \<times> 'c"
  d_rollback :: "'c \<Rightarrow> Status \<times> 'c"
  d_savepoint :: "string \<Rightarrow> 'c \<Rightarrow> Status \<times> 'c"
  d_releaseSavepoint :: "string \<Rightarrow> 'c \<Rightarrow> Status \<times> 'c"
  d_rollbackToSavepoint :: "string \<Rightarrow> 'c \<Rightarrow> Status \<times> 'c"

type_synonym 'c txs = "'c Session \<times> int"

text \<open>A call of the connection under \<open>observe\<close>, and the invalidation that follows it everywhere.\<close>

definition tx_call :: "Status \<Rightarrow> ('c \<Rightarrow> Status \<times> 'c) \<Rightarrow> 'c Session \<Rightarrow> Status \<times> 'c Session" where
  "tx_call stop drv s =
     (case observe stop (\<lambda>s. case drv (h_conn s) of (st, c) \<Rightarrow> (st, s\<lparr>h_conn := c\<rparr>)) s of
        (st, s') \<Rightarrow> (st, invalidate_if (connectionBroken st) s'))"

definition tx_closed :: "'c txs \<Rightarrow> 'c txs" where
  "tx_closed x =
     (case x of (s, depth) \<Rightarrow>
        if txOpen s then (s\<lparr>txOpen := False\<rparr>, if depth > 0 then depth - 1 else depth) else (s, depth))"

definition session_begin :: "'c TxDriver \<Rightarrow> TransactionOptions \<Rightarrow> Status \<Rightarrow> 'c txs \<Rightarrow> Status \<times> 'c txs" where
  "session_begin drv opts stop x =
     (case x of (s, depth) \<Rightarrow>
        case tx_call stop (d_begin drv opts) s of (st, s') \<Rightarrow>
          if status_ok st then (st, s'\<lparr>txOpen := True\<rparr>, if txOpen s' then depth else depth + 1)
          else (st, s', depth))"

definition session_commit :: "'c TxDriver \<Rightarrow> Status \<Rightarrow> 'c txs \<Rightarrow> Status \<times> 'c txs" where
  "session_commit drv stop x =
     (case x of (s, depth) \<Rightarrow>
        case tx_call stop (d_commit drv) s of (st, s') \<Rightarrow> (st, tx_closed (s', depth)))"

definition session_rollback :: "'c TxDriver \<Rightarrow> Status \<Rightarrow> 'c txs \<Rightarrow> Status \<times> 'c txs" where
  "session_rollback drv stop x =
     (case x of (s, depth) \<Rightarrow>
        case tx_call stop (d_rollback drv) s of (st, s') \<Rightarrow> (st, tx_closed (s', depth)))"

definition session_savepoint :: "'c TxDriver \<Rightarrow> string \<Rightarrow> Status \<Rightarrow> 'c txs \<Rightarrow> Status \<times> 'c txs" where
  "session_savepoint drv name stop x =
     (case x of (s, depth) \<Rightarrow>
        case tx_call stop (d_savepoint drv name) s of (st, s') \<Rightarrow> (st, s', depth))"

definition session_releaseSavepoint :: "'c TxDriver \<Rightarrow> string \<Rightarrow> Status \<Rightarrow> 'c txs \<Rightarrow> Status \<times> 'c txs" where
  "session_releaseSavepoint drv name stop x =
     (case x of (s, depth) \<Rightarrow>
        case tx_call stop (d_releaseSavepoint drv name) s of (st, s') \<Rightarrow> (st, s', depth))"

definition session_rollbackToSavepoint :: "'c TxDriver \<Rightarrow> string \<Rightarrow> Status \<Rightarrow> 'c txs \<Rightarrow> Status \<times> 'c txs" where
  "session_rollbackToSavepoint drv name stop x =
     (case x of (s, depth) \<Rightarrow>
        case tx_call stop (d_rollbackToSavepoint drv name) s of (st, s') \<Rightarrow> (st, s', depth))"

text \<open>A call that may throw.\<close>

datatype 'r call_outcome = Returned 'r | Threw string | ThrewUnknown

definition session_cancel :: "Status \<Rightarrow> Status call_outcome \<Rightarrow> 'c Session \<Rightarrow> Status \<times> 'c Session" where
  "session_cancel stop r s =
     (case observe stop (\<lambda>s.
         (case r of
            Returned st \<Rightarrow> st
          | Threw what \<Rightarrow> error Cancelled (''driver cancel threw: '' @ what)
          | ThrewUnknown \<Rightarrow> error Cancelled ''driver cancel threw an unknown exception'', s)) s of
        (st, s') \<Rightarrow> (st, invalidate_if (connectionBroken st) s'))"

text \<open>\<open>runGuarded\<close>: the user's function, with its exceptions turned into a status.\<close>

definition runGuarded :: "('x \<Rightarrow> Status call_outcome \<times> 'x) \<Rightarrow> 'x \<Rightarrow> Status \<times> 'x" where
  "runGuarded fn x =
     (case fn x of (r, x') \<Rightarrow>
        (case r of
           Returned st \<Rightarrow> st
         | Threw what \<Rightarrow> error TxError (''exception in session: '' @ what)
         | ThrewUnknown \<Rightarrow> error TxError ''unknown exception in session'', x'))"

text \<open>The destructor: a transaction that is still open is rolled back, or the connection given up.\<close>

definition cleanupOpenTransaction :: "'c TxDriver \<Rightarrow> bool \<Rightarrow> 'c txs \<Rightarrow> 'c txs" where
  "cleanupOpenTransaction drv threw x =
     (case x of (s, depth) \<Rightarrow>
        if \<not> txOpen s then (s, depth)
        else
          (case d_rollback drv (h_conn s) of (st, c) \<Rightarrow>
             let s' = s\<lparr>h_conn := c, txOpen := False\<rparr>; depth' = (if depth > 0 then depth - 1 else depth)
             in if \<not> threw \<and> status_ok st then (s', depth') else (s'\<lparr>h_reusable := False\<rparr>, depth')))"

section \<open>Sequences of calls\<close>

text \<open>What a user's function may do with its session; a statement is any other call of the connection.\<close>

datatype 'c session_op =
    SBegin TransactionOptions Status | SCommit Status | SRollback Status
  | SSavepoint string Status | SRelease string Status | SRollbackTo string Status
  | SStatement "'c \<Rightarrow> Status \<times> 'c"

definition session_do :: "'c TxDriver \<Rightarrow> 'c session_op \<Rightarrow> 'c txs \<Rightarrow> 'c txs" where
  "session_do drv oper x =
     (case oper of
        SBegin opts stop \<Rightarrow> snd (session_begin drv opts stop x)
      | SCommit stop \<Rightarrow> snd (session_commit drv stop x)
      | SRollback stop \<Rightarrow> snd (session_rollback drv stop x)
      | SSavepoint n stop \<Rightarrow> snd (session_savepoint drv n stop x)
      | SRelease n stop \<Rightarrow> snd (session_releaseSavepoint drv n stop x)
      | SRollbackTo n stop \<Rightarrow> snd (session_rollbackToSavepoint drv n stop x)
      | SStatement call \<Rightarrow>
          (case x of (s, depth) \<Rightarrow>
             case call (h_conn s) of (st, c) \<Rightarrow> (invalidate_if (connectionBroken st) (s\<lparr>h_conn := c\<rparr>), depth)))"

definition session_run :: "'c TxDriver \<Rightarrow> bool \<Rightarrow> 'c session_op list \<Rightarrow> 'c txs \<Rightarrow> 'c txs" where
  "session_run drv threw ops x = cleanupOpenTransaction drv threw (fold (session_do drv) ops x)"

lemmas session_tx_defs = session_begin_def session_commit_def session_rollback_def session_savepoint_def
  session_releaseSavepoint_def session_rollbackToSavepoint_def tx_closed_def

lemma invalidate_if_simps [simp]:
  "txOpen (invalidate_if b s) = txOpen s" "h_conn (invalidate_if b s) = h_conn s"
  "h_reusable (invalidate_if b s) \<longleftrightarrow> \<not> b \<and> h_reusable s"
  by (simp_all add: invalidate_if_def)

lemma tx_call_txOpen: "tx_call stop drv s = (st, s') \<Longrightarrow> txOpen s' = txOpen s"
  by (auto simp: tx_call_def observe_def split: prod.splits if_splits)

text \<open>The depth counts the open transactions of the thread: with \<open>d\<close> of them outside the session.\<close>

definition depth_ok :: "int \<Rightarrow> 'c txs \<Rightarrow> bool" where
  "depth_ok d x \<longleftrightarrow> snd x = d + (if txOpen (fst x) then 1 else 0)"

lemma session_do_depth: "0 \<le> d \<Longrightarrow> depth_ok d x \<Longrightarrow> depth_ok d (session_do drv oper x)"
  by (cases x; cases oper)
    (auto simp: session_do_def session_tx_defs depth_ok_def split: prod.splits if_splits dest!: tx_call_txOpen)

text \<open>
  Whatever a session does, with transactions opened, closed or left open, the depth of
  transactions of the thread is after the session what it was before.
\<close>

theorem transaction_depth_balanced:
  assumes "0 \<le> depth" and "\<not> txOpen s"
  shows "snd (session_run drv threw ops (s, depth)) = depth \<and> \<not> txOpen (fst (session_run drv threw ops (s, depth)))"
proof -
  have "depth_ok depth (fold (session_do drv) ops (s, depth))"
  proof (induction ops rule: rev_induct)
    case Nil
    then show ?case using assms by (simp add: depth_ok_def)
  next
    case (snoc oper ops)
    then show ?case using session_do_depth [OF assms(1)] by simp
  qed
  then show ?thesis using assms(1)
    by (cases "fold (session_do drv) ops (s, depth)")
      (auto simp: session_run_def cleanupOpenTransaction_def depth_ok_def Let_def split: prod.splits)
qed

section \<open>The connection that goes back to the pool\<close>

text \<open>
  What the drivers provide: \<open>inTx\<close> tells whether the connection has a transaction open. A commit or
  rollback that succeeds closes it; a failed begin and a savepoint call open none. Nothing is asked of a
  commit or rollback that fails.
\<close>

definition closes_tx :: "('c \<Rightarrow> bool) \<Rightarrow> ('c \<Rightarrow> Status \<times> 'c) \<Rightarrow> bool" where
  "closes_tx inTx call \<longleftrightarrow> (\<forall>c. case call c of (st, c') \<Rightarrow> status_ok st \<longrightarrow> \<not> inTx c')"

definition opens_no_tx :: "('c \<Rightarrow> bool) \<Rightarrow> ('c \<Rightarrow> Status \<times> 'c) \<Rightarrow> bool" where
  "opens_no_tx inTx call \<longleftrightarrow> (\<forall>c. case call c of (st, c') \<Rightarrow> inTx c' \<longrightarrow> inTx c)"

definition tx_driver_ok :: "('c \<Rightarrow> bool) \<Rightarrow> 'c TxDriver \<Rightarrow> bool" where
  "tx_driver_ok inTx drv \<longleftrightarrow>
     closes_tx inTx (d_commit drv) \<and> closes_tx inTx (d_rollback drv) \<and>
     (\<forall>opts c. case d_begin drv opts c of (st, c') \<Rightarrow> \<not> status_ok st \<and> inTx c' \<longrightarrow> inTx c) \<and>
     (\<forall>n. opens_no_tx inTx (d_savepoint drv n) \<and> opens_no_tx inTx (d_releaseSavepoint drv n) \<and>
          opens_no_tx inTx (d_rollbackToSavepoint drv n))"

text \<open>
  The statements of a function are not transaction control in disguise. A run is settled when every
  commit and rollback that is called in it succeeds or reports the connection broken.
\<close>

fun op_plain :: "('c \<Rightarrow> bool) \<Rightarrow> 'c session_op \<Rightarrow> bool" where
  "op_plain inTx (SStatement call) = opens_no_tx inTx call"
| "op_plain inTx _ = True"

definition settled :: "Status \<Rightarrow> bool" where
  "settled st \<longleftrightarrow> status_ok st \<or> connectionBroken st"

fun op_settled :: "'c TxDriver \<Rightarrow> 'c session_op \<Rightarrow> 'c txs \<Rightarrow> bool" where
  "op_settled drv (SCommit stop) x = settled (fst (session_commit drv stop x))"
| "op_settled drv (SRollback stop) x = settled (fst (session_rollback drv stop x))"
| "op_settled drv _ x = True"

fun ops_settled :: "'c TxDriver \<Rightarrow> 'c session_op list \<Rightarrow> 'c txs \<Rightarrow> bool" where
  "ops_settled drv [] x = True"
| "ops_settled drv (oper # ops) x \<longleftrightarrow> op_settled drv oper x \<and> ops_settled drv ops (session_do drv oper x)"

definition tx_known :: "('c \<Rightarrow> bool) \<Rightarrow> 'c txs \<Rightarrow> bool" where
  "tx_known inTx x \<longleftrightarrow> (h_reusable (fst x) \<and> inTx (h_conn (fst x)) \<longrightarrow> txOpen (fst x))"

lemma tx_call_run:
  "status_ok stop \<Longrightarrow> tx_call stop drv s =
    (case drv (h_conn s) of (st, c) \<Rightarrow> (st, invalidate_if (connectionBroken st) (s\<lparr>h_conn := c\<rparr>)))"
  by (simp add: tx_call_def observe_def split: prod.splits)

lemma tx_call_stopped: "\<not> status_ok stop \<Longrightarrow> tx_call stop drv s = (stop, invalidate_if (connectionBroken stop) s)"
  by (simp add: tx_call_def observe_def)

lemma tx_closed_simps [simp]:
  "h_reusable (fst (tx_closed (s, d))) = h_reusable s" "h_conn (fst (tx_closed (s, d))) = h_conn s"
  by (simp_all add: tx_closed_def)

lemma closing_known:
  assumes "settled (fst (tx_call stop call s))" "closes_tx inTx call"
  shows "tx_known inTx (tx_closed (snd (tx_call stop call s), depth))"
  using assms
  by (cases "status_ok stop")
    (auto simp: tx_call_run tx_call_stopped settled_def tx_known_def closes_tx_def split: prod.splits)

lemma quiet_known:
  assumes "opens_no_tx inTx call" "tx_known inTx (s, depth)"
  shows "tx_known inTx (snd (tx_call stop call s), depth)"
  using assms
  by (cases "status_ok stop")
    (auto simp: tx_call_run tx_call_stopped tx_known_def opens_no_tx_def split: prod.splits)

lemma session_do_known:
  assumes drv: "tx_driver_ok inTx drv" and run: "op_plain inTx oper" "op_settled drv oper x" and known: "tx_known inTx x"
  shows "tx_known inTx (session_do drv oper x)"
proof -
  obtain s depth where x: "x = (s, depth)" by (cases x)
  note laws = drv [unfolded tx_driver_ok_def]
  show ?thesis
  proof (cases oper)
    case (SBegin opts stop)
    obtain st c where c: "d_begin drv opts (h_conn s) = (st, c)" by (cases "d_begin drv opts (h_conn s)")
    then have "\<not> status_ok st \<longrightarrow> inTx c \<longrightarrow> inTx (h_conn s)" using laws by (auto split: prod.splits)
    with c known SBegin show ?thesis
      by (cases "status_ok stop")
        (auto simp: x session_do_def session_begin_def tx_call_run tx_call_stopped tx_known_def)
  next
    case (SCommit stop)
    then show ?thesis using closing_known [of stop "d_commit drv" s inTx depth] laws run
      by (auto simp: x session_do_def session_commit_def split: prod.splits)
  next
    case (SRollback stop)
    then show ?thesis using closing_known [of stop "d_rollback drv" s inTx depth] laws run
      by (auto simp: x session_do_def session_rollback_def split: prod.splits)
  next
    case (SSavepoint n stop)
    then show ?thesis using quiet_known [of inTx "d_savepoint drv n" s depth stop] laws known
      by (auto simp: x session_do_def session_savepoint_def split: prod.splits)
  next
    case (SRelease n stop)
    then show ?thesis using quiet_known [of inTx "d_releaseSavepoint drv n" s depth stop] laws known
      by (auto simp: x session_do_def session_releaseSavepoint_def split: prod.splits)
  next
    case (SRollbackTo n stop)
    then show ?thesis using quiet_known [of inTx "d_rollbackToSavepoint drv n" s depth stop] laws known
      by (auto simp: x session_do_def session_rollbackToSavepoint_def split: prod.splits)
  next
    case (SStatement call)
    then show ?thesis using run known
      by (auto simp: x session_do_def tx_known_def opens_no_tx_def split: prod.splits)
  qed
qed

lemma session_ops_known:
  assumes "tx_driver_ok inTx drv" and "list_all (op_plain inTx) ops" and "ops_settled drv ops x" and "tx_known inTx x"
  shows "tx_known inTx (fold (session_do drv) ops x)"
  using assms(2-)
proof (induction ops arbitrary: x)
  case (Cons oper ops)
  then show ?case using session_do_known [OF assms(1), of oper x] by simp
qed simp

text \<open>
  A session in which every commit and rollback succeeds or reports the connection broken: a connection
  that stays reusable is returned with no open transaction, even when the function left one open.
\<close>

text \<open>
  When every commit and rollback of a session succeeds or reports the connection broken and the
  driver keeps its contract, a connection that stays reusable is returned with no open
  transaction.
\<close>

theorem session_returns_clean_connection:
  assumes "tx_driver_ok inTx drv" and "list_all (op_plain inTx) ops" and "ops_settled drv ops (s, depth)"
    and "\<not> inTx (h_conn s)"
    and "h_reusable (fst (session_run drv threw ops (s, depth)))"
  shows "\<not> inTx (h_conn (fst (session_run drv threw ops (s, depth))))"
proof -
  have known: "tx_known inTx (fold (session_do drv) ops (s, depth))"
    using session_ops_known [OF assms(1,2,3)] assms(4) by (simp add: tx_known_def)
  obtain s' d' where s': "fold (session_do drv) ops (s, depth) = (s', d')" by fastforce
  have "closes_tx inTx (d_rollback drv)" using assms(1) by (simp add: tx_driver_ok_def)
  then show ?thesis using known assms(5)
    by (auto simp: session_run_def s' cleanupOpenTransaction_def tx_known_def closes_tx_def Let_def
        split: prod.splits if_splits)
qed

text \<open>
  A commit or rollback that fails without reporting the connection broken: the session forgets its
  transaction all the same, so the destructor does nothing, and the connection stays reusable in
  whatever state the driver left it.
\<close>

theorem failed_close_keeps_connection:
  assumes "d_rollback drv (h_conn s) = (st, c)" and "\<not> status_ok st" and "\<not> connectionBroken st"
  shows "h_conn (fst (session_run drv threw [SRollback OK] (s, depth))) = c \<and>
    h_reusable (fst (session_run drv threw [SRollback OK] (s, depth))) = h_reusable s \<and>
    \<not> txOpen (fst (session_run drv threw [SRollback OK] (s, depth)))"
  using assms
  by (auto simp: session_run_def session_do_def session_rollback_def tx_call_def observe_def
      tx_closed_def cleanupOpenTransaction_def invalidate_if_def split: prod.splits)

text \<open>
  When the operation is over (its deadline passed, or it was cancelled) rollback and commit do not
  reach the driver, but the session forgets its transaction: the destructor does nothing either.
\<close>

theorem stopped_operation_keeps_transaction_open:
  assumes "\<not> status_ok stop" and "\<not> connectionBroken stop"
  shows "h_conn (fst (session_run drv threw [SRollback stop] (s, depth))) = h_conn s \<and>
    h_reusable (fst (session_run drv threw [SRollback stop] (s, depth))) = h_reusable s \<and>
    h_conn (fst (session_run drv threw [SCommit stop] (s, depth))) = h_conn s \<and>
    h_reusable (fst (session_run drv threw [SCommit stop] (s, depth))) = h_reusable s"
  using assms
  by (auto simp: session_run_def session_do_def session_rollback_def session_commit_def tx_call_def observe_def
      tx_closed_def cleanupOpenTransaction_def invalidate_if_def split: prod.splits)

section \<open>Witnesses\<close>

text \<open>A driver whose connection is just its transaction flag.\<close>

definition flag_driver :: "bool TxDriver" where
  "flag_driver =
     \<lparr>d_begin = (\<lambda>opts c. if c then (error TxError ''open'', c) else (OK, True)),
      d_commit = (\<lambda>c. (OK, False)), d_rollback = (\<lambda>c. (OK, False)),
      d_savepoint = (\<lambda>n c. (OK, c)), d_releaseSavepoint = (\<lambda>n c. (OK, c)), d_rollbackToSavepoint = (\<lambda>n c. (OK, c))\<rparr>"

definition new_session :: "bool Session" where
  "new_session = \<lparr>h_conn = False, h_reusable = True, audit_enabled = False, audit_readOnly = False,
     txOpen = False, didWrite = False\<rparr>"

definition plain_tx :: TransactionOptions where
  "plain_tx = \<lparr>isolation = IsolationDefault, to_readOnly = False, timeout_ms = 0\<rparr>"

definition timed_out :: Status where
  "timed_out = error QueryTimeout ''operation deadline exceeded''"

theorem transaction_depth_balanced_witness:
  "snd (session_run flag_driver False [SBegin plain_tx OK, SSavepoint ''a'' OK] (new_session, 2)) = 2"
  using transaction_depth_balanced [of 2 new_session flag_driver False "[SBegin plain_tx OK, SSavepoint ''a'' OK]"]
  by (simp add: new_session_def)

theorem session_returns_clean_connection_witness:
  "h_reusable (fst (session_run flag_driver False [SBegin plain_tx OK] (new_session, 0))) \<and>
   \<not> h_conn (fst (session_run flag_driver False [SBegin plain_tx OK] (new_session, 0)))"
proof -
  have ok: "tx_driver_ok (\<lambda>c. c) flag_driver"
    by (simp add: tx_driver_ok_def closes_tx_def opens_no_tx_def flag_driver_def)
  have reusable: "h_reusable (fst (session_run flag_driver False [SBegin plain_tx OK] (new_session, 0)))"
    by code_simp
  show ?thesis
    using session_returns_clean_connection [OF ok _ _ _ reusable] reusable by (simp add: new_session_def)
qed

theorem stopped_operation_keeps_transaction_open_witness:
  "h_conn (fst (session_run flag_driver False [SRollback timed_out] (new_session\<lparr>h_conn := True, txOpen := True\<rparr>, 1))) \<and>
   h_reusable (fst (session_run flag_driver False [SRollback timed_out] (new_session\<lparr>h_conn := True, txOpen := True\<rparr>, 1)))"
  using stopped_operation_keeps_transaction_open
    [of timed_out flag_driver False "new_session\<lparr>h_conn := True, txOpen := True\<rparr>" 1]
  by (simp add: timed_out_def error_def OK_def status_ok_def new_session_def)

end
