(* ===== verification/SourceSessions.thy ===== *)
theory SourceSessions
  imports SourceRouting Transactions
begin

text \<open>
  Sessions and transactions of a \<open>DataSource\<close> (\<open>withSession\<close>, \<open>transaction\<close> and what they call in
  \<^verbatim>\<open>src/core/database_manager.cpp\<close>), composed from the breaker, the session methods and the marks of
  writes.

  The user's function works on the session and the thread's transaction depth; it may throw. The
  connection it gets is part of the surroundings, as are the clock readings, the state of the current
  operation at each call, and what the watcher of the transaction's deadline did. The result carries the
  session as its destructor leaves it, when there was one: that is the connection the pool gets back.
\<close>

section \<open>Surroundings\<close>

record 'c ses_env =
  sn_stop :: Status
  sn_before :: int
  sn_borrow :: borrow_outcome
  sn_conn :: 'c
  sn_threw :: bool
  sn_stop_after :: Status
  sn_after :: int

text \<open>
  For a transaction also: the operation's state at begin, rollback and commit, those of the second
  \<open>afterAttempt\<close>, the answer to the watcher's cancel if it fired, whether the deadline had passed when the
  function returned.
\<close>

record 'c tx_env = "'c ses_env" +
  tn_stop_begin :: Status
  tn_stop_rollback :: Status
  tn_stop_commit :: Status
  tn_stop_committed :: Status
  tn_after_commit :: int
  tn_fired :: "Status call_outcome option"
  tn_late :: bool

type_synonym 'c session_fn = "'c txs \<Rightarrow> Status call_outcome \<times> 'c txs"

definition new_session_on :: "'c \<Rightarrow> bool \<Rightarrow> 'c Session" where
  "new_session_on c ro =
     \<lparr>h_conn = c, h_reusable = True, audit_enabled = True, audit_readOnly = ro, txOpen = False, didWrite = False\<rparr>"

definition set_breaker :: "Leaf \<Rightarrow> Breaker \<Rightarrow> ('op, 'w) ds_state \<Rightarrow> ('op, 'w) ds_state" where
  "set_breaker l b s = s\<lparr>ds_breaker := (ds_breaker s)(lf_name l := b)\<rparr>"

definition after_on :: "Leaf \<Rightarrow> Status \<Rightarrow> Status \<Rightarrow> int \<Rightarrow> ('op, 'w) ds_state \<Rightarrow> ('op, 'w) ds_state" where
  "after_on l st stop now s = set_breaker l (afterAttempt (lf_breaker l) st stop now (ds_breaker s (lf_name l))) s"

definition mark_if :: "bool \<Rightarrow> Leaf \<Rightarrow> ('op, 'w) ds_state \<Rightarrow> ('op, 'w) ds_state" where
  "mark_if wrote l s = (if wrote then leaf_markWrite l s else s)"

section \<open>Plain sessions\<close>

definition withSessionInternal :: "'c TxDriver \<Rightarrow> 'c ses_env \<Rightarrow> Leaf \<Rightarrow> bool \<Rightarrow> 'c session_fn \<Rightarrow> int \<Rightarrow> ('op, 'w) ds_state \<Rightarrow>
    (Status \<times> bool) \<times> 'c txs option \<times> ('op, 'w) ds_state" where
  "withSessionInternal drv e l enforceReadOnly fn depth s =
     (case beforeAttempt (lf_name l) (lf_breaker l) (sn_stop e) (sn_before e) (ds_breaker s (lf_name l)) of (gate, b) \<Rightarrow>
        let s1 = set_breaker l b s in
        if \<not> status_ok gate then ((gate, False), None, s1)
        else
          let bs = borrowSession (lf_name l) (sn_borrow e) in
          if \<not> status_ok bs then ((bs, False), None, after_on l bs (sn_stop_after e) (sn_after e) s1)
          else
            case runGuarded fn (new_session_on (sn_conn e) enforceReadOnly, depth) of (st, x) \<Rightarrow>
              ((st, didWrite (fst x)), Some (cleanupOpenTransaction drv (sn_threw e) x),
               mark_if (didWrite (fst x)) l (after_on l st (sn_stop_after e) (sn_after e) s1)))"

definition withSession :: "gate_env \<Rightarrow> 'c TxDriver \<Rightarrow> 'c ses_env \<Rightarrow> Source \<Rightarrow> int \<Rightarrow> 'c session_fn \<Rightarrow> int \<Rightarrow> ('op, 'w) ds_state \<Rightarrow>
    Status \<times> 'c txs option \<times> ('op, 'w) ds_state" where
  "withSession ge drv e src now fn depth s =
     (let g = gateSession ge src in
      if \<not> status_ok g then (g, None, s)
      else case src of
        GroupSource gr \<Rightarrow>
          (case withSessionInternal drv e (g_primary gr) (g_readOnly gr) fn depth s of
             ((st, wrote), x, s') \<Rightarrow> (st, x, if wrote then group_markWrite gr now s' else s'))
      | LeafSource l \<Rightarrow>
          (case withSessionInternal drv e l (lf_readOnly l) fn depth s of ((st, wrote), x, s') \<Rightarrow> (st, x, s')))"

section \<open>Transactions\<close>

text \<open>
  The deadline of the transaction: the watcher cancels on the session when it fires, and a function that
  returned late counts as timed out too.
\<close>

definition tx_timeout :: "TransactionOptions \<Rightarrow> bool \<Rightarrow> Status" where
  "tx_timeout opts delivered =
     (error QueryTimeout (''transaction timed out after '' @ to_string_int (timeout_ms opts) @ ''ms'' @
        (if delivered then []
         else '' (driver could not cancel the running statement; the callback had to run to completion)'')))\<lparr>retryable := True\<rparr>"

definition tx_watch :: "'c tx_env \<Rightarrow> TransactionOptions \<Rightarrow> Status \<times> 'c txs \<Rightarrow> Status \<times> 'c txs" where
  "tx_watch e opts r =
     (case r of (st, s, depth) \<Rightarrow>
        if timeout_ms opts \<le> 0 then r
        else case tn_fired e of
          None \<Rightarrow> if tn_late e then (tx_timeout opts False, s, depth) else r
        | Some answer \<Rightarrow>
            (case session_cancel OK answer s of (c, s') \<Rightarrow> (tx_timeout opts (status_ok c), s', depth)))"

definition transactionWithHandle :: "'c TxDriver \<Rightarrow> 'c tx_env \<Rightarrow> Leaf \<Rightarrow> TransactionOptions \<Rightarrow> bool \<Rightarrow> 'c session_fn \<Rightarrow>
    int \<Rightarrow> ('op, 'w) ds_state \<Rightarrow> Status \<times> 'c txs \<times> ('op, 'w) ds_state" where
  "transactionWithHandle drv e l opts enforceReadOnly fn depth s =
     (let leave = cleanupOpenTransaction drv (sn_threw e);
          sess = new_session_on (sn_conn e) (enforceReadOnly \<or> to_readOnly opts) in
      case session_begin drv opts (tn_stop_begin e) (sess, depth) of (st, x) \<Rightarrow>
        if \<not> status_ok st then (st, leave x, after_on l st (sn_stop_after e) (sn_after e) s)
        else
          case tx_watch e opts (runGuarded fn x) of (st, x) \<Rightarrow>
            let s1 = after_on l st (sn_stop_after e) (sn_after e) s in
            if \<not> status_ok st
            then
              (case session_rollback drv (tn_stop_rollback e) x of (rb, x) \<Rightarrow>
                 (st, leave x, mark_if (\<not> status_ok rb \<and> didWrite (fst x)) l s1))
            else if txOpen (fst x)
            then
              (case session_commit drv (tn_stop_commit e) x of (cm, x) \<Rightarrow>
                 if \<not> status_ok cm
                 then (cm, leave x, mark_if (didWrite (fst x)) l (after_on l cm (tn_stop_committed e) (tn_after_commit e) s1))
                 else (OK, leave x, mark_if (didWrite (fst x)) l s1))
            else (OK, leave x, mark_if (didWrite (fst x)) l s1))"

text \<open>A borrow that succeeds hands over a connection, so the branch without a handle is not reached.\<close>

definition transaction_leaf :: "'c TxDriver \<Rightarrow> 'c tx_env \<Rightarrow> Leaf \<Rightarrow> TransactionOptions \<Rightarrow> bool \<Rightarrow> 'c session_fn \<Rightarrow>
    int \<Rightarrow> ('op, 'w) ds_state \<Rightarrow> Status \<times> 'c txs option \<times> ('op, 'w) ds_state" where
  "transaction_leaf drv e l opts enforceReadOnly fn depth s =
     (case beforeAttempt (lf_name l) (lf_breaker l) (sn_stop e) (sn_before e) (ds_breaker s (lf_name l)) of (gate, b) \<Rightarrow>
        let s1 = set_breaker l b s in
        if \<not> status_ok gate then (gate, None, s1)
        else
          let bs = borrowSession (lf_name l) (sn_borrow e) in
          if \<not> status_ok bs then (bs, None, after_on l bs (sn_stop_after e) (sn_after e) s1)
          else case transactionWithHandle drv e l opts enforceReadOnly fn depth s1 of (st, x, s') \<Rightarrow> (st, Some x, s'))"

definition transactionInternal :: "'c TxDriver \<Rightarrow> 'c tx_env \<Rightarrow> Source \<Rightarrow> int \<Rightarrow> TransactionOptions \<Rightarrow> bool \<Rightarrow> 'c session_fn \<Rightarrow>
    int \<Rightarrow> ('op, 'w) ds_state \<Rightarrow> Status \<times> 'c txs option \<times> ('op, 'w) ds_state" where
  "transactionInternal drv e src now opts enforceReadOnly fn depth s =
     (case src of
        GroupSource g \<Rightarrow>
          (case transaction_leaf drv e (g_primary g) opts (enforceReadOnly \<or> g_readOnly g) fn depth s of (st, x, s') \<Rightarrow>
             (st, x, if status_ok st \<and> \<not> to_readOnly opts then group_markWrite g now s' else s'))
      | LeafSource l \<Rightarrow> transaction_leaf drv e l opts enforceReadOnly fn depth s)"

definition transaction :: "gate_env \<Rightarrow> 'c TxDriver \<Rightarrow> 'c tx_env \<Rightarrow> Source \<Rightarrow> int \<Rightarrow> TransactionOptions \<Rightarrow> 'c session_fn \<Rightarrow>
    int \<Rightarrow> ('op, 'w) ds_state \<Rightarrow> Status \<times> 'c txs option \<times> ('op, 'w) ds_state" where
  "transaction ge drv e src now opts fn depth s =
     (let g = gateSession ge src in
      if \<not> status_ok g then (g, None, s)
      else transactionInternal drv e src now opts (source_readOnly src) fn depth s)"

section \<open>All or nothing\<close>

text \<open>
  What a driver promises about a connection: \<open>committed\<close> is the database everybody sees through it,
  \<open>staged\<close> what its open transaction would make of it. Only a commit changes the former, to the latter;
  when it fails the outcome is one of the two.
\<close>

definition tx_atomic :: "('c \<Rightarrow> bool) \<Rightarrow> ('c \<Rightarrow> 'd) \<Rightarrow> ('c \<Rightarrow> 'd) \<Rightarrow> 'c TxDriver \<Rightarrow> bool" where
  "tx_atomic inTx committed staged drv \<longleftrightarrow>
     (\<forall>opts c. committed (snd (d_begin drv opts c)) = committed c \<and>
        (status_ok (fst (d_begin drv opts c)) \<longrightarrow> inTx (snd (d_begin drv opts c)))) \<and>
     (\<forall>c. committed (snd (d_rollback drv c)) = committed c) \<and>
     (\<forall>c. (status_ok (fst (d_commit drv c)) \<longrightarrow> committed (snd (d_commit drv c)) = staged c) \<and>
        committed (snd (d_commit drv c)) \<in> {committed c, staged c}) \<and>
     (\<forall>n c. inTx c \<longrightarrow> inTx (snd (d_savepoint drv n c)) \<and> committed (snd (d_savepoint drv n c)) = committed c \<and>
        inTx (snd (d_releaseSavepoint drv n c)) \<and> committed (snd (d_releaseSavepoint drv n c)) = committed c \<and>
        inTx (snd (d_rollbackToSavepoint drv n c)) \<and> committed (snd (d_rollbackToSavepoint drv n c)) = committed c)"

text \<open>What the function may do: savepoints, and statements that keep to the open transaction.\<close>

fun op_inside :: "('c \<Rightarrow> bool) \<Rightarrow> ('c \<Rightarrow> 'd) \<Rightarrow> 'c session_op \<Rightarrow> bool" where
  "op_inside inTx committed (SSavepoint n stop) = True"
| "op_inside inTx committed (SRelease n stop) = True"
| "op_inside inTx committed (SRollbackTo n stop) = True"
| "op_inside inTx committed (SStatement call) =
     (\<forall>c. inTx c \<longrightarrow> inTx (snd (call c)) \<and> committed (snd (call c)) = committed c)"
| "op_inside inTx committed _ = False"

definition tx_session :: "'c TxDriver \<Rightarrow> 'c tx_env \<Rightarrow> TransactionOptions \<Rightarrow> bool \<Rightarrow> int \<Rightarrow> Status \<times> 'c txs" where
  "tx_session drv e opts ro depth =
     session_begin drv opts (tn_stop_begin e) (new_session_on (sn_conn e) (ro \<or> to_readOnly opts), depth)"

lemma tx_call_conn:
  "h_conn (snd (tx_call stop call s)) = (if status_ok stop then snd (call (h_conn s)) else h_conn s)"
  by (auto simp: tx_call_def observe_def split: prod.splits)

lemma op_inside_keeps:
  assumes "tx_atomic inTx committed staged drv" and "op_inside inTx committed oper"
    and "txOpen (fst x)" and "inTx (h_conn (fst x))"
  shows "txOpen (fst (session_do drv oper x)) \<and> inTx (h_conn (fst (session_do drv oper x))) \<and>
    committed (h_conn (fst (session_do drv oper x))) = committed (h_conn (fst x))"
proof -
  obtain s depth where x: "x = (s, depth)" by (cases x)
  have quiet: "txOpen (snd (tx_call stop call s)) \<and> inTx (h_conn (snd (tx_call stop call s))) \<and>
      committed (h_conn (snd (tx_call stop call s))) = committed (h_conn s)"
    if "inTx (snd (call (h_conn s)))" "committed (snd (call (h_conn s))) = committed (h_conn s)" for stop call
    using that assms(3,4) tx_call_txOpen [of stop call s "fst (tx_call stop call s)" "snd (tx_call stop call s)"]
    by (simp add: x tx_call_conn)
  note laws = assms(1) [unfolded tx_atomic_def]
  show ?thesis
  proof (cases oper)
    case (SSavepoint n stop)
    then show ?thesis using quiet [of "d_savepoint drv n" stop] laws assms(4)
      by (auto simp: x session_do_def session_savepoint_def split: prod.splits)
  next
    case (SRelease n stop)
    then show ?thesis using quiet [of "d_releaseSavepoint drv n" stop] laws assms(4)
      by (auto simp: x session_do_def session_releaseSavepoint_def split: prod.splits)
  next
    case (SRollbackTo n stop)
    then show ?thesis using quiet [of "d_rollbackToSavepoint drv n" stop] laws assms(4)
      by (auto simp: x session_do_def session_rollbackToSavepoint_def split: prod.splits)
  next
    case (SStatement call)
    then show ?thesis using assms(2,3,4) by (auto simp: x session_do_def split: prod.splits)
  qed (use assms(2) in auto)
qed

lemma ops_inside_keep:
  assumes "tx_atomic inTx committed staged drv" and "list_all (op_inside inTx committed) ops"
    and "txOpen (fst x)" and "inTx (h_conn (fst x))"
  shows "txOpen (fst (fold (session_do drv) ops x)) \<and> inTx (h_conn (fst (fold (session_do drv) ops x))) \<and>
    committed (h_conn (fst (fold (session_do drv) ops x))) = committed (h_conn (fst x))"
  using assms(2-)
proof (induction ops arbitrary: x)
  case (Cons oper ops)
  then show ?case using op_inside_keeps [OF assms(1), of oper x] by simp
qed simp

lemma tx_begun:
  assumes "tx_session drv e opts ro depth = (st, x)"
  shows "txOpen (fst x) \<longleftrightarrow> status_ok st"
    and "h_conn (fst x) = (if status_ok (tn_stop_begin e) then snd (d_begin drv opts (sn_conn e)) else sn_conn e)"
    and "status_ok st \<Longrightarrow> status_ok (tn_stop_begin e) \<and> status_ok (fst (d_begin drv opts (sn_conn e)))"
  using assms
  by (auto simp: tx_session_def session_begin_def new_session_on_def tx_call_def observe_def
      split: prod.splits if_splits)

lemma tx_watch_conn:
  "h_conn (fst (snd (tx_watch e opts r))) = h_conn (fst (snd r))" "txOpen (fst (snd (tx_watch e opts r))) = txOpen (fst (snd r))"
  by (auto simp: tx_watch_def session_cancel_def observe_def split: prod.splits option.splits)

lemma tx_watch_reusable: "h_reusable (fst (snd (tx_watch e opts r))) \<Longrightarrow> h_reusable (fst (snd r))"
  by (auto simp: tx_watch_def session_cancel_def observe_def split: prod.splits option.splits if_splits)

lemma session_close_conn:
  "h_conn (fst (snd (session_rollback drv stop x))) =
     (if status_ok stop then snd (d_rollback drv (h_conn (fst x))) else h_conn (fst x))"
  "h_conn (fst (snd (session_commit drv stop x))) =
     (if status_ok stop then snd (d_commit drv (h_conn (fst x))) else h_conn (fst x))"
  "\<not> txOpen (fst (snd (session_rollback drv stop x)))" "\<not> txOpen (fst (snd (session_commit drv stop x)))"
  "fst (session_commit drv stop x) = (if status_ok stop then fst (d_commit drv (h_conn (fst x))) else stop)"
  by (auto simp: session_rollback_def session_commit_def tx_call_def observe_def tx_closed_def split: prod.splits)

lemma runGuarded_state [simp]: "snd (runGuarded (\<lambda>x. (answer, f x)) x) = f x"
  by (simp add: runGuarded_def)

lemma cleanup_closed: "\<not> txOpen (fst x) \<Longrightarrow> cleanupOpenTransaction drv threw x = x"
  by (auto simp: cleanupOpenTransaction_def split: prod.splits)

text \<open>The three ways through \<open>transactionWithHandle\<close> for a function that leaves its transaction open.\<close>

lemma tx_not_begun:
  assumes "tx_session drv e opts ro depth = (bst, x)" and "\<not> status_ok bst"
  shows "\<exists>s'. transactionWithHandle drv e l opts ro fn depth s = (bst, x, s')"
  using assms tx_begun(1) [OF assms(1)] cleanup_closed [of x]
  by (auto simp: transactionWithHandle_def tx_session_def)

lemma tx_rolled_back:
  assumes "tx_session drv e opts ro depth = (bst, x)" and "status_ok bst"
    and "tx_watch e opts (runGuarded fn x) = (wst, z)" and "\<not> status_ok wst"
  shows "\<exists>s'. transactionWithHandle drv e l opts ro fn depth s =
    (wst, snd (session_rollback drv (tn_stop_rollback e) z), s')"
  using assms cleanup_closed [OF session_close_conn(3) [of drv "tn_stop_rollback e" z]]
  by (auto simp: transactionWithHandle_def tx_session_def split: prod.splits)

lemma tx_commits:
  assumes "tx_session drv e opts ro depth = (bst, x)" and "status_ok bst"
    and "tx_watch e opts (runGuarded fn x) = (wst, z)" and "status_ok wst" and "txOpen (fst z)"
  shows "\<exists>s'. transactionWithHandle drv e l opts ro fn depth s =
    (let cm = session_commit drv (tn_stop_commit e) z
     in (if status_ok (fst cm) then OK else fst cm, snd cm, s'))"
  using assms cleanup_closed [OF session_close_conn(4) [of drv "tn_stop_commit e" z]]
  by (auto simp: transactionWithHandle_def tx_session_def Let_def split: prod.splits)

lemma tx_left_closed:
  assumes "tx_session drv e opts ro depth = (bst, x)" and "status_ok bst"
    and "tx_watch e opts (runGuarded fn x) = (wst, z)" and "status_ok wst" and "\<not> txOpen (fst z)"
  shows "\<exists>s'. transactionWithHandle drv e l opts ro fn depth s = (OK, z, s')"
  using assms cleanup_closed [of z] by (auto simp: transactionWithHandle_def tx_session_def split: prod.splits)

text \<open>
  C4: For a function that sets, releases and rolls back to savepoints and runs statements which
  keep to the open transaction, but does not begin, commit or roll back itself, and for a driver
  whose begin, rollback and savepoints leave the committed data alone and whose commit, when it
  succeeds, makes the staged data the committed one and, when it fails, leaves one of the two: a
  transaction that returns success has committed what its function staged, and one that returns
  an error leaves the committed data as it was before, unless that error is the one of the
  driver's commit.
\<close>

theorem transaction_all_or_nothing:
  assumes "tx_atomic inTx committed staged drv" and "list_all (op_inside inTx committed) ops"
    and "transactionWithHandle drv e l opts ro (\<lambda>x. (answer, fold (session_do drv) ops x)) depth s = (st, x', s')"
  defines "c \<equiv> h_conn (fst (fold (session_do drv) ops (snd (tx_session drv e opts ro depth))))"
  shows "(status_ok st \<longrightarrow> committed (h_conn (fst x')) = staged c) \<and>
    (\<not> status_ok st \<and> committed (h_conn (fst x')) \<noteq> committed (sn_conn e) \<longrightarrow>
       committed (h_conn (fst x')) = staged c \<and> st = fst (d_commit drv c))"
proof -
  obtain bst x where b: "tx_session drv e opts ro depth = (bst, x)" by (cases "tx_session drv e opts ro depth")
  note begun = tx_begun [OF b] and laws = assms(1) [unfolded tx_atomic_def]
  have x0: "committed (h_conn (fst x)) = committed (sn_conn e)" using begun(2) laws by auto
  show ?thesis
  proof (cases "status_ok bst")
    case False
    then have "st = bst" "x' = x" using assms(3) tx_not_begun [OF b False] by (metis prod.inject)+
    then show ?thesis using False x0 by simp
  next
    case True
    define y where "y = fold (session_do drv) ops x"
    have y: "txOpen (fst y)" "committed (h_conn (fst y)) = committed (sn_conn e)"
      using ops_inside_keep [OF assms(1,2), of x] begun True laws x0 by (auto simp: y_def)
    have c: "c = h_conn (fst y)" by (simp add: c_def b y_def)
    obtain wst z where w: "tx_watch e opts (runGuarded (\<lambda>x. (answer, fold (session_do drv) ops x)) x) = (wst, z)"
      by (cases "tx_watch e opts (runGuarded (\<lambda>x. (answer, fold (session_do drv) ops x)) x)")
    have z: "h_conn (fst z) = c" "txOpen (fst z)"
      using tx_watch_conn [of e opts "runGuarded (\<lambda>x. (answer, fold (session_do drv) ops x)) x"] y
      unfolding w c by (simp_all add: y_def)
    show ?thesis
    proof (cases "status_ok wst")
      case False
      then have "st = wst" "x' = snd (session_rollback drv (tn_stop_rollback e) z)"
        using assms(3) tx_rolled_back [OF b True w False] by (metis prod.inject)+
      then show ?thesis using False y(2) laws by (auto simp: session_close_conn z c)
    next
      case wok: True
      have st: "st = (if status_ok (fst (session_commit drv (tn_stop_commit e) z)) then OK
          else fst (session_commit drv (tn_stop_commit e) z))" "x' = snd (session_commit drv (tn_stop_commit e) z)"
        using assms(3) tx_commits [OF b True w wok z(2), of l s] by (auto simp: Let_def)
      have "status_ok (fst (d_commit drv c)) \<longrightarrow> committed (snd (d_commit drv c)) = staged c"
        "committed (snd (d_commit drv c)) \<in> {committed c, staged c}"
        using laws by blast+
      then show ?thesis using st y(2) z(1) by (auto simp: session_close_conn c [symmetric])
    qed
  qed
qed

text \<open>
  Every commit and rollback of a transaction, those of its function and the one of \<open>transaction\<close> itself,
  succeeds or reports the connection broken.
\<close>

definition tx_settled :: "'c TxDriver \<Rightarrow> 'c tx_env \<Rightarrow> TransactionOptions \<Rightarrow> bool \<Rightarrow> Status call_outcome \<Rightarrow>
    'c session_op list \<Rightarrow> int \<Rightarrow> bool" where
  "tx_settled drv e opts ro answer ops depth \<longleftrightarrow>
     (let x = snd (tx_session drv e opts ro depth) in
      ops_settled drv ops x \<and>
      (case tx_watch e opts (runGuarded (\<lambda>x. (answer, fold (session_do drv) ops x)) x) of (st, z) \<Rightarrow>
         if status_ok st then txOpen (fst z) \<longrightarrow> settled (fst (session_commit drv (tn_stop_commit e) z))
         else settled (fst (session_rollback drv (tn_stop_rollback e) z))))"

text \<open>
  C19: After a transaction on a connection that had none open, however it ended and whatever
  transactions, savepoints and statements its function used, a connection that goes back as
  reusable has no open transaction; provided that every commit and rollback that the function or
  the transaction itself called succeeded or reported the connection broken, that the statements
  open no transaction, and that the driver has no open transaction after a successful commit or
  rollback and opens none with a failed begin or a savepoint. A commit or rollback that fails
  without reporting the connection broken can leave it open (failed_close_keeps_connection).
\<close>

theorem transaction_returns_clean_connection:
  assumes "tx_driver_ok inTx drv" and "list_all (op_plain inTx) ops" and "\<not> inTx (sn_conn e)"
    and "tx_settled drv e opts ro answer ops depth"
    and "transactionWithHandle drv e l opts ro (\<lambda>x. (answer, fold (session_do drv) ops x)) depth s = (st, x', s')"
    and "h_reusable (fst x')"
  shows "\<not> inTx (h_conn (fst x'))"
proof -
  note known = session_ops_known [OF assms(1)]
  obtain bst x where b: "tx_session drv e opts ro depth = (bst, x)" by (cases "tx_session drv e opts ro depth")
  have x: "tx_known inTx x"
    using known [of "[SBegin opts (tn_stop_begin e)]" "(new_session_on (sn_conn e) (ro \<or> to_readOnly opts), depth)"]
      assms(3) b by (simp add: tx_session_def session_do_def tx_known_def new_session_on_def)
  let ?r = "runGuarded (\<lambda>x. (answer, fold (session_do drv) ops x)) x"
  obtain wst z where w: "tx_watch e opts ?r = (wst, z)" by (cases "tx_watch e opts ?r")
  note settled = assms(4) [unfolded tx_settled_def b Let_def snd_conv w prod.case]
  have "tx_known inTx (fold (session_do drv) ops x)" using known [OF assms(2) _ x] settled by blast
  then have z: "tx_known inTx z"
    using tx_watch_conn [of e opts ?r] tx_watch_reusable [of e opts ?r] by (auto simp: w tx_known_def)
  have rb: "tx_known inTx (snd (session_rollback drv (tn_stop_rollback e) z))" if "\<not> status_ok wst"
    using known [of "[SRollback (tn_stop_rollback e)]" z] z settled that by (simp add: session_do_def)
  have cm: "tx_known inTx (snd (session_commit drv (tn_stop_commit e) z))" if "status_ok wst" "txOpen (fst z)"
    using known [of "[SCommit (tn_stop_commit e)]" z] z settled that by (simp add: session_do_def)
  have clean: "\<not> inTx (h_conn (fst y))" if "tx_known inTx y" "\<not> txOpen (fst y)" "h_reusable (fst y)" for y :: "'a txs"
    using that by (simp add: tx_known_def)
  consider "\<not> status_ok bst" | "status_ok bst" "\<not> status_ok wst" | "status_ok bst" "status_ok wst" "txOpen (fst z)"
    | "status_ok bst" "status_ok wst" "\<not> txOpen (fst z)" by blast
  then show ?thesis
  proof cases
    case 1
    then have "x' = x" using assms(5) tx_not_begun [OF b 1] by (metis prod.inject)
    then show ?thesis using clean [OF x] 1 tx_begun(1) [OF b] assms(6) by blast
  next
    case 2
    then have "x' = snd (session_rollback drv (tn_stop_rollback e) z)"
      using assms(5) tx_rolled_back [OF b 2(1) w 2(2)] by (metis prod.inject)
    then show ?thesis using clean [OF rb [OF 2(2)]] session_close_conn(3) assms(6) by blast
  next
    case 3
    then have "x' = snd (session_commit drv (tn_stop_commit e) z)"
      using assms(5) tx_commits [OF b 3(1) w 3(2,3), of l s] by (auto simp: Let_def)
    then show ?thesis using clean [OF cm [OF 3(2,3)]] session_close_conn(4) assms(6) by blast
  next
    case 4
    then have "x' = z" using assms(5) tx_left_closed [OF b 4(1) w 4(2,3), of l s] by auto
    then show ?thesis using clean [OF z] 4(3) assms(6) by blast
  qed
qed

text \<open>
  An operation that ends between two statements of the function, with an error from the function: the
  rollback is skipped, the transaction stays open on a connection that is given back as reusable.
\<close>

theorem transaction_deadline_leaks_open_transaction:
  assumes "tx_session drv e opts ro depth = (bst, x)" and "status_ok bst" and "timeout_ms opts \<le> 0"
    and "fn x = (Returned st, y)" and "\<not> status_ok st"
    and "\<not> status_ok (tn_stop_rollback e)" and "\<not> connectionBroken (tn_stop_rollback e)"
  shows "\<exists>x' s'. transactionWithHandle drv e l opts ro fn depth s = (st, x', s') \<and>
    h_conn (fst x') = h_conn (fst y) \<and> h_reusable (fst x') = h_reusable (fst y) \<and> \<not> txOpen (fst x')"
proof -
  have w: "tx_watch e opts (runGuarded fn x) = (st, y)"
    using assms(3,4) by (cases y) (simp add: tx_watch_def runGuarded_def)
  have "h_reusable (fst (snd (session_rollback drv (tn_stop_rollback e) y))) = h_reusable (fst y)"
    using assms(6,7) by (cases y) (simp add: session_rollback_def tx_call_def observe_def)
  moreover obtain s' where "transactionWithHandle drv e l opts ro fn depth s =
      (st, snd (session_rollback drv (tn_stop_rollback e) y), s')"
    using tx_rolled_back [OF assms(1,2) w assms(5)] by blast
  ultimately show ?thesis using assms(6) session_close_conn(1,3) by metis
qed

section \<open>Witnesses\<close>

text \<open>A driver over a connection that is its transaction flag, the committed and the staged database.\<close>

definition store_driver :: "(bool \<times> nat \<times> nat) TxDriver" where
  "store_driver =
     \<lparr>d_begin = (\<lambda>_ (_, c, _). (OK, True, c, c)), d_commit = (\<lambda>(_, _, p). (OK, False, p, p)),
      d_rollback = (\<lambda>(_, c, _). (OK, False, c, c)), d_savepoint = (\<lambda>_ x. (OK, x)),
      d_releaseSavepoint = (\<lambda>_ x. (OK, x)), d_rollbackToSavepoint = (\<lambda>_ x. (OK, x))\<rparr>"

definition add_five :: "(bool \<times> nat \<times> nat) session_op" where
  "add_five = SStatement (\<lambda>(t, c, p). (OK, t, c, p + 5))"

definition sample_tx :: "Status \<Rightarrow> (bool \<times> nat \<times> nat) tx_env" where
  "sample_tx stop =
     \<lparr>sn_stop = OK, sn_before = 1, sn_borrow = Borrowed, sn_conn = (False, 1, 1), sn_threw = False, sn_stop_after = OK,
      sn_after = 2, tn_stop_begin = OK, tn_stop_rollback = stop, tn_stop_commit = OK, tn_stop_committed = OK,
      tn_after_commit = 3, tn_fired = None, tn_late = False\<rparr>"

abbreviation sample_transaction :: "Status \<Rightarrow> Status call_outcome \<Rightarrow> Status \<times> (bool \<times> nat \<times> nat) txs \<times> (unit, nat) ds_state" where
  "sample_transaction stop answer \<equiv>
     transactionWithHandle store_driver (sample_tx stop) (sample_leaf ''main'') plain_tx False
       (\<lambda>x. (answer, fold (session_do store_driver) [add_five] x)) 0 sample_state"

lemma OK_not_broken [simp]: "\<not> connectionBroken OK"
  by (simp add: OK_def)

lemma store_atomic: "tx_atomic fst (\<lambda>(_, c, _). c) (\<lambda>(_, _, p). p) store_driver"
  by (auto simp: tx_atomic_def store_driver_def)

lemma store_ok: "tx_driver_ok fst store_driver"
  by (auto simp: tx_driver_ok_def closes_tx_def opens_no_tx_def store_driver_def)

lemma sample_begun: "tx_session store_driver (sample_tx stop) plain_tx False 0 =
    (OK, (new_session_on (True, 1, 1) False)\<lparr>txOpen := True\<rparr>, 1)"
  by (simp add: tx_session_def session_begin_def tx_call_def observe_def invalidate_if_def new_session_on_def sample_tx_def
      store_driver_def plain_tx_def)

theorem transaction_all_or_nothing_witness:
  "\<exists>st x' s'. sample_transaction OK (Returned OK) = (st, x', s') \<and> status_ok st \<and> (case h_conn (fst x') of (_, c, _) \<Rightarrow> c) = 6"
proof -
  obtain st x' s' where r: "sample_transaction OK (Returned OK) = (st, x', s')" by (metis surj_pair)
  have w: "tx_watch (sample_tx OK) plain_tx (runGuarded (\<lambda>x. (Returned OK, fold (session_do store_driver) [add_five] x))
      ((new_session_on (True, 1, 1) False)\<lparr>txOpen := True\<rparr>, 1)) =
      (OK, (new_session_on (True, 1, 6) False)\<lparr>txOpen := True\<rparr>, 1)"
    by (simp add: tx_watch_def runGuarded_def plain_tx_def session_do_def add_five_def invalidate_if_def new_session_on_def)
  have st: "status_ok st"
    using tx_commits [OF sample_begun _ w, of "sample_leaf ''main''" sample_state] r
    by (auto simp: session_close_conn sample_tx_def store_driver_def Let_def new_session_on_def)
  have "list_all (op_inside fst (\<lambda>(_, c, _). c)) [add_five]" by (auto simp: add_five_def)
  from transaction_all_or_nothing [OF store_atomic this r] st r show ?thesis
    unfolding sample_begun by (auto simp: session_do_def add_five_def invalidate_if_def new_session_on_def)
qed

theorem transaction_returns_clean_connection_witness:
  "\<exists>st x' s'. sample_transaction OK (Threw ''boom'') = (st, x', s') \<and> \<not> fst (h_conn (fst x'))"
proof -
  obtain st x' s' where r: "sample_transaction OK (Threw ''boom'') = (st, x', s')" by (metis surj_pair)
  define st1 where "st1 = error TxError (''exception in session: '' @ ''boom'')"
  have w: "\<not> status_ok st1" "tx_watch (sample_tx OK) plain_tx (runGuarded (\<lambda>x. (Threw ''boom'', fold (session_do store_driver) [add_five] x))
      ((new_session_on (True, 1, 1) False)\<lparr>txOpen := True\<rparr>, 1)) =
      (st1, (new_session_on (True, 1, 6) False)\<lparr>txOpen := True\<rparr>, 1)"
    by (simp_all add: st1_def tx_watch_def runGuarded_def plain_tx_def session_do_def add_five_def invalidate_if_def new_session_on_def)
  have "x' = snd (session_rollback store_driver (tn_stop_rollback (sample_tx OK))
      ((new_session_on (True, 1, 6) False)\<lparr>txOpen := True\<rparr>, 1))"
    using tx_rolled_back [OF sample_begun _ w(2,1), of "sample_leaf ''main''" sample_state] r by auto
  moreover have settled: "tx_settled store_driver (sample_tx OK) plain_tx False (Threw ''boom'') [add_five] 0"
    unfolding tx_settled_def sample_begun Let_def snd_conv w(2) prod.case
    using w(1) by (simp add: settled_def add_five_def session_rollback_def tx_call_def observe_def sample_tx_def store_driver_def
        new_session_on_def)
  ultimately have "h_reusable (fst x')"
    by (simp add: session_rollback_def tx_call_def observe_def tx_closed_def invalidate_if_def sample_tx_def store_driver_def
        new_session_on_def)
  then show ?thesis
    using transaction_returns_clean_connection [OF store_ok _ _ settled r] r
    by (simp add: sample_tx_def add_five_def opens_no_tx_def)
qed

end
