(* ===== verification/Registry.thy ===== *)
theory Registry
  imports CircuitBreaker WriteBuffer SqlAuditor QueryCache
begin

text \<open>
  The \<open>DatabaseManager\<close> of \<^verbatim>\<open>src/core/database_manager.cpp\<close>: the registry of sources and groups, built from a
  configuration by \<open>init\<close> and changed at run time.

  Data sources are shared objects: they live in a store under identities, and groups hold the identities
  of their members. Pools and write buffers are identities too; what matters here is whether a pool was
  shut down and a buffer is running. The maps \<^verbatim>\<open>pools_\<close> and \<^verbatim>\<open>datasources_\<close> are association lists in
  the order of an iteration. Every method holds the mutex for each of its critical sections and is one
  function. \<open>gl_rate_limit\<close> is the limiter the configuration asks for, if it does. The driver registry, code of the driver components, is the parameter \<open>known\<close>; a rate limiter
  is a value of type \<^typ>\<open>'l\<close>.
\<close>

section \<open>Configuration\<close>

record CursorConfig =
  cu_enabled :: bool
  cu_default_batch_size :: int
  cu_max_open_cursors :: int
  cu_allow_scrollable :: bool

definition default_cursor :: CursorConfig where
  "default_cursor = \<lparr>cu_enabled = True, cu_default_batch_size = 256, cu_max_open_cursors = 0, cu_allow_scrollable = False\<rparr>"

definition default_retry :: RetryConfig where
  "default_retry = \<lparr>max_attempts = 1, initial_backoff_ms = 50, max_backoff_ms = 1000, retry_writes = False\<rparr>"

definition default_breaker :: CircuitBreakerConfig where
  "default_breaker = \<lparr>failure_threshold = 0, open_interval_ms = 30000\<rparr>"

record DataSourceConfig =
  dc_name :: string
  dc_type :: string

record ReplicaConfig =
  rc_name :: string
  rc_weight :: int

record FailoverConfig =
  fo_primaries :: "string list"
  acknowledge_external_fencing :: bool
  require_healthy :: bool
  write_buffer :: WriteBufferConfig
  acknowledge_data_loss_and_duplicates :: bool

record DataSourceGroupConfig =
  gc_name :: string
  gc_primary :: string
  gc_replicas :: "ReplicaConfig list"
  read_after_write_ms :: int
  fallback_to_primary :: bool
  gc_read_only :: bool
  gc_failover :: FailoverConfig
  gc_shadow :: string

record 'l GlobalConfig =
  default_datasource :: string
  gl_retry :: RetryConfig
  gl_circuit_breaker :: CircuitBreakerConfig
  gl_rate_limit :: "'l option"
  gl_sql_audit :: SqlAuditConfig
  gl_query_cache :: QueryCacheConfig
  gl_cursor :: CursorConfig
  gl_prepared_cache :: "bool \<times> int"
  gl_interceptors :: bool
  gl_datasources :: "DataSourceConfig list"
  gl_groups :: "DataSourceGroupConfig list"

record 'l DataSourceOptions =
  op_retry :: RetryConfig
  op_circuit_breaker :: CircuitBreakerConfig
  op_rate_limiter :: "'l option"
  op_read_only :: bool
  op_cursor :: CursorConfig
  attach_heartbeat :: bool

record 'l GroupOptions =
  go_rate_limiter :: "'l option"
  go_cursor :: CursorConfig
  go_acknowledge_external_fencing :: bool
  go_acknowledge_data_loss_and_duplicates :: bool

section \<open>State\<close>

type_synonym ident = nat

record 'l DataSource_obj =
  o_name :: string
  o_pool :: "ident option"
  o_primary :: "ident option"
  o_replicas :: "ident list"
  o_readAfterWrite :: int
  o_fallbackToPrimary :: bool
  o_failoverPrimaries :: "ident list"
  o_requireHealthy :: bool
  o_writeBuffer :: "(ident \<times> WriteBufferConfig) option"
  o_shadowName :: string
  o_shadow :: "ident option"
  o_readOnly :: bool
  o_readReplica :: bool
  o_rateLimiter :: "'l option"
  o_inheritsLimiter :: bool
  o_driverType :: string
  o_retry :: RetryConfig
  o_circuitBreaker :: CircuitBreakerConfig
  o_cursor :: CursorConfig

type_synonym 'l store = "(ident \<Rightarrow> 'l DataSource_obj) \<times> ident"

type_synonym names = "(string \<times> ident) list"

record services =
  sv_audit :: SqlAuditConfig
  sv_prepared :: "bool \<times> int"
  sv_cache :: QueryCacheConfig
  sv_interceptors :: bool

record 'l Manager =
  m_objs :: "ident \<Rightarrow> 'l DataSource_obj"
  m_next :: ident
  m_pools :: names
  m_sources :: names
  m_buffers :: "ident list"
  m_heartbeat :: "ident list option"
  m_defaultName :: string
  m_defaultLimiter :: "'l option"
  m_shut :: "ident set"
  m_running :: "ident set"
  m_services :: services

abbreviation config_error :: "string \<Rightarrow> Status" where
  "config_error msg \<equiv> error ConfigError msg"

abbreviation quoted :: "string \<Rightarrow> string" where
  "quoted s \<equiv> [SQ] @ s @ [SQ]"

section \<open>Building sources and groups\<close>

definition buildSingleDataSource :: "(string \<Rightarrow> bool) \<Rightarrow> DataSourceConfig \<Rightarrow> RetryConfig \<Rightarrow> CircuitBreakerConfig \<Rightarrow> CursorConfig \<Rightarrow>
    'l option \<Rightarrow> string set \<Rightarrow> 'l store \<Rightarrow> Status + (ident \<times> ident) \<times> 'l store" where
  "buildSingleDataSource known dsc retry circuit cursor limiter replicaNames st =
     (case st of (objs, n) \<Rightarrow>
        if dc_name dsc = [] then Inl (config_error ''datasource name must not be empty'')
        else if \<not> known (dc_type dsc)
        then Inl (error UnknownDriver (''unknown datasource type: '' @ quoted (dc_type dsc) @ '' (name='' @ dc_name dsc @
               ''). Register it on this Client and link the matching sqlconduit driver component''))
        else Inr ((n, n + 1),
          objs(n + 1 :=
            \<lparr>o_name = dc_name dsc, o_pool = Some n, o_primary = None, o_replicas = [], o_readAfterWrite = 0,
             o_fallbackToPrimary = True, o_failoverPrimaries = [], o_requireHealthy = False, o_writeBuffer = None,
             o_shadowName = [], o_shadow = None, o_readOnly = False, o_readReplica = dc_name dsc \<in> replicaNames,
             o_rateLimiter = limiter, o_inheritsLimiter = False, o_driverType = dc_type dsc, o_retry = retry,
             o_circuitBreaker = circuit, o_cursor = cursor\<rparr>), n + 2))"

definition validateGroupRefs :: "DataSourceGroupConfig \<Rightarrow> names \<Rightarrow> Status" where
  "validateGroupRefs cfg candidates =
     (let has = (\<lambda>n. map_of candidates n \<noteq> None) in
      if \<not> has (gc_primary cfg)
      then config_error (''group '' @ quoted (gc_name cfg) @ '' references unknown primary '' @ quoted (gc_primary cfg) @
             '' (must be a plain datasource, not a group)'')
      else case find (\<lambda>r. \<not> has (rc_name r)) (gc_replicas cfg) of
        Some r \<Rightarrow> config_error (''group '' @ quoted (gc_name cfg) @ '' references unknown replica '' @ quoted (rc_name r))
      | None \<Rightarrow>
          (case find (\<lambda>c. \<not> has c) (fo_primaries (gc_failover cfg)) of
             Some c \<Rightarrow> config_error (''group '' @ quoted (gc_name cfg) @ '' failover.primaries references unknown datasource '' @
                        quoted c @ '' (must be a plain datasource, not a group)'')
           | None \<Rightarrow> OK))"

fun weighted_replicas :: "string \<Rightarrow> names \<Rightarrow> ReplicaConfig list \<Rightarrow> Status + ident list" where
  "weighted_replicas g sources [] = Inr []"
| "weighted_replicas g sources (r # rs) =
     (case map_of sources (rc_name r) of
        None \<Rightarrow> Inl (config_error (''group '' @ quoted g @ '' references unknown replica '' @ quoted (rc_name r)))
      | Some i \<Rightarrow>
          (case weighted_replicas g sources rs of
             Inl e \<Rightarrow> Inl e | Inr is \<Rightarrow> Inr (replicate (nat (rc_weight r)) i @ is)))"

fun failover_candidates :: "string \<Rightarrow> names \<Rightarrow> string set \<Rightarrow> string list \<Rightarrow> Status + ident list" where
  "failover_candidates g sources seen [] = Inr []"
| "failover_candidates g sources seen (c # cs) =
     (if c \<in> seen then failover_candidates g sources seen cs
      else case map_of sources c of
        None \<Rightarrow> Inl (config_error (''group '' @ quoted g @ '' failover.primaries references unknown datasource '' @ quoted c @
                 '' (must be a plain datasource, not a group)''))
      | Some i \<Rightarrow>
          (case failover_candidates g sources (insert c seen) cs of Inl e \<Rightarrow> Inl e | Inr is \<Rightarrow> Inr (i # is)))"

text \<open>Returns the new group's identity and that of its write buffer, if it has one.\<close>

definition buildSingleDataSourceGroup :: "DataSourceGroupConfig \<Rightarrow> 'l option \<Rightarrow> CursorConfig \<Rightarrow> names \<Rightarrow> 'l store \<Rightarrow>
    Status + (ident \<times> ident option) \<times> 'l store" where
  "buildSingleDataSourceGroup grp limiter cursor sources st =
     (case st of (objs, n) \<Rightarrow>
        let name = gc_name grp; fo = gc_failover grp in
        if name = [] then Inl (config_error ''group name must not be empty'')
        else if gc_read_only grp \<and> wbc_enabled (write_buffer fo)
        then Inl (config_error (''group '' @ quoted name @
               '' is read_only but enables failover.write_buffer; a read-only group never writes''))
        else case map_of sources (gc_primary grp) of
          None \<Rightarrow> Inl (config_error (''group '' @ quoted name @ '' references unknown primary '' @ quoted (gc_primary grp)))
        | Some p \<Rightarrow>
            (case weighted_replicas name sources (gc_replicas grp) of
               Inl e \<Rightarrow> Inl e
             | Inr rs \<Rightarrow>
                 (case (if fo_primaries fo = [] then Inr []
                        else map_sum id (Cons p) (failover_candidates name sources {gc_primary grp} (fo_primaries fo))) of
                    Inl e \<Rightarrow> Inl e
                  | Inr fs \<Rightarrow>
                      let buf = (if wbc_enabled (write_buffer fo) then Some n else None) in
                      Inr ((n + 1, buf),
                        objs(n + 1 :=
                          \<lparr>o_name = name, o_pool = None, o_primary = Some p, o_replicas = rs,
                           o_readAfterWrite = read_after_write_ms grp, o_fallbackToPrimary = fallback_to_primary grp,
                           o_failoverPrimaries = fs, o_requireHealthy = require_healthy fo,
                           o_writeBuffer = map_option (\<lambda>b. (b, write_buffer fo)) buf,
                           o_shadowName = gc_shadow grp, o_shadow = None, o_readOnly = gc_read_only grp,
                           o_readReplica = False, o_rateLimiter = limiter, o_inheritsLimiter = False,
                           o_driverType = o_driverType (objs p), o_retry = default_retry,
                           o_circuitBreaker = default_breaker, o_cursor = cursor\<rparr>), n + 2))))"

section \<open>Shadows\<close>

definition shadow_error :: "names \<Rightarrow> (ident \<Rightarrow> 'l DataSource_obj) \<Rightarrow> 'l DataSource_obj \<Rightarrow> Status + ident" where
  "shadow_error sources objs ds =
     (let name = o_shadowName ds; refuse = (\<lambda>why. Inl (config_error (''group '' @ quoted (o_name ds) @ why))) in
      case map_of sources name of
        None \<Rightarrow> refuse ('' references unknown shadow '' @ quoted name)
      | Some i \<Rightarrow>
          if o_primary (objs i) \<noteq> None
          then refuse ('' shadow '' @ quoted name @ '' is a group; shadow target must be a plain datasource'')
          else if o_primary ds = Some i
          then refuse ('' shadow '' @ quoted name @ '' is the group's primary; self-shadowing is rejected'')
          else if i \<in> set (o_replicas ds)
          then refuse ('' shadow '' @ quoted name @ '' is a replica of the group; self-shadowing is rejected'')
          else Inr i)"

fun resolve_loop :: "names \<Rightarrow> names \<Rightarrow> (ident \<Rightarrow> 'l DataSource_obj) \<Rightarrow> Status \<times> (ident \<Rightarrow> 'l DataSource_obj)" where
  "resolve_loop sources [] objs = (OK, objs)"
| "resolve_loop sources ((n, i) # rest) objs =
     (if o_shadowName (objs i) = [] then resolve_loop sources rest objs
      else case shadow_error sources objs (objs i) of
        Inl e \<Rightarrow> (e, objs)
      | Inr t \<Rightarrow> resolve_loop sources rest (objs(i := (objs i)\<lparr>o_shadow := Some t\<rparr>)))"

definition resolveShadows :: "'l Manager \<Rightarrow> Status \<times> 'l Manager" where
  "resolveShadows m =
     (case resolve_loop (m_sources m) (m_sources m) (m_objs m) of (st, objs) \<Rightarrow> (st, m\<lparr>m_objs := objs\<rparr>))"

section \<open>Initialisation\<close>

definition configured_limiter :: "'l GlobalConfig \<Rightarrow> 'l option \<Rightarrow> 'l option" where
  "configured_limiter cfg deflt = (case gl_rate_limit cfg of Some l \<Rightarrow> Some l | None \<Rightarrow> deflt)"

fun build_sources :: "(string \<Rightarrow> bool) \<Rightarrow> 'l GlobalConfig \<Rightarrow> 'l option \<Rightarrow> string set \<Rightarrow> DataSourceConfig list \<Rightarrow>
    names \<times> names \<times> 'l store \<Rightarrow> Status + names \<times> names \<times> 'l store" where
  "build_sources known cfg limiter replicaNames [] x = Inr x"
| "build_sources known cfg limiter replicaNames (dsc # ds) (pools, sources, st) =
     (if map_of pools (dc_name dsc) \<noteq> None
      then Inl (config_error (''duplicate datasource name: '' @ dc_name dsc))
      else case buildSingleDataSource known dsc (gl_retry cfg) (gl_circuit_breaker cfg) (gl_cursor cfg) limiter replicaNames st of
        Inl e \<Rightarrow> Inl e
      | Inr ((p, i), (objs, n)) \<Rightarrow>
          build_sources known cfg limiter replicaNames ds
            ((dc_name dsc, p) # pools, (dc_name dsc, i) # sources,
             (objs(i := (objs i)\<lparr>o_inheritsLimiter := gl_rate_limit cfg = None\<rparr>), n)))"

definition fencing_error :: "string \<Rightarrow> Status" where
  "fencing_error g = config_error (''group '' @ quoted g @
     '' configures automatic write failover without acknowledging external fencing'')"

definition buffering_error :: "string \<Rightarrow> Status" where
  "buffering_error g = config_error (''group '' @ quoted g @
     '' enables volatile write buffering without acknowledging data-loss and duplicate-replay risk'')"

fun build_groups :: "'l GlobalConfig \<Rightarrow> 'l option \<Rightarrow> names \<Rightarrow> DataSourceGroupConfig list \<Rightarrow>
    names \<times> ident list \<times> 'l store \<Rightarrow> Status + names \<times> ident list \<times> 'l store" where
  "build_groups cfg limiter pools [] x = Inr x"
| "build_groups cfg limiter pools (g # gs) (sources, buffers, st) =
     (let fo = gc_failover g in
      if map_of sources (gc_name g) \<noteq> None
      then Inl (config_error (''duplicate datasource/group name: '' @ gc_name g))
      else if fo_primaries fo \<noteq> [] \<and> \<not> acknowledge_external_fencing fo then Inl (fencing_error (gc_name g))
      else if wbc_enabled (write_buffer fo) \<and> \<not> acknowledge_data_loss_and_duplicates fo then Inl (buffering_error (gc_name g))
      else let v = validateGroupRefs g pools in
        if \<not> status_ok v then Inl v
        else case buildSingleDataSourceGroup g limiter default_cursor sources st of
          Inl e \<Rightarrow> Inl e
        | Inr ((i, buf), (objs, n)) \<Rightarrow>
            build_groups cfg limiter pools gs
              ((gc_name g, i) # sources, buffers @ (case buf of None \<Rightarrow> [] | Some b \<Rightarrow> [b]),
               (objs(i := (objs i)\<lparr>o_inheritsLimiter := gl_rate_limit cfg = None\<rparr>), n)))"

definition inherit_limiter :: "names \<Rightarrow> 'l option \<Rightarrow> (ident \<Rightarrow> 'l DataSource_obj) \<Rightarrow> (ident \<Rightarrow> 'l DataSource_obj)" where
  "inherit_limiter sources limiter objs =
     fold (\<lambda>(n, i) objs. if o_inheritsLimiter (objs i) then objs(i := (objs i)\<lparr>o_rateLimiter := limiter\<rparr>) else objs) sources objs"

text \<open>The state that \<open>init\<close> installs before it resolves the shadows.\<close>

definition installed :: "'l GlobalConfig \<Rightarrow> names \<Rightarrow> names \<Rightarrow> ident list \<Rightarrow> 'l store \<Rightarrow> 'l Manager \<Rightarrow> 'l Manager" where
  "installed cfg pools sources buffers st m =
     m\<lparr>m_services := \<lparr>sv_audit = gl_sql_audit cfg, sv_prepared = gl_prepared_cache cfg,
         sv_cache = gl_query_cache cfg, sv_interceptors = gl_interceptors cfg\<rparr>,
       m_objs := inherit_limiter sources (m_defaultLimiter m) (fst st), m_next := snd st,
       m_pools := pools, m_sources := sources, m_buffers := buffers,
       m_heartbeat := Some (map snd pools), m_defaultName := default_datasource cfg,
       m_running := m_running m \<union> set buffers\<rparr>"

text \<open>
  The pools of the replaced registry are shut down, its buffers stopped. When the shadows cannot be
  resolved the old registry is put back; the default name and the services keep their new values.
\<close>

definition init :: "(string \<Rightarrow> bool) \<Rightarrow> 'l GlobalConfig \<Rightarrow> 'l Manager \<Rightarrow> Status \<times> 'l Manager" where
  "init known cfg m =
     (if gl_datasources cfg = [] then (config_error ''no datasource configured'', m)
      else
        let limiter = configured_limiter cfg (m_defaultLimiter m);
            replicaNames = rc_name ` set (concat (map gc_replicas (gl_groups cfg))) in
        case build_sources known cfg limiter replicaNames (gl_datasources cfg) ([], [], (m_objs m, m_next m)) of
          Inl e \<Rightarrow> (e, m)
        | Inr (pools, leaves, st) \<Rightarrow>
            (case build_groups cfg limiter pools (gl_groups cfg) (leaves, [], st) of
               Inl e \<Rightarrow> (e, m)
             | Inr (sources, buffers, st2) \<Rightarrow>
                 if map_of sources (default_datasource cfg) = None
                 then (config_error (''default_datasource '' @ quoted (default_datasource cfg) @
                         '' is not defined in datasources[] or groups[]''), m)
                 else
                   case resolveShadows (installed cfg pools sources buffers st2 m) of (rs, m2) \<Rightarrow>
                     if \<not> status_ok rs
                     then (rs, m2\<lparr>m_pools := m_pools m, m_sources := m_sources m, m_buffers := m_buffers m,
                                  m_heartbeat := m_heartbeat m, m_running := m_running m,
                                  m_shut := m_shut m2 \<union> snd ` set pools\<rparr>)
                     else (OK, m2\<lparr>m_running := m_running m2 - set (m_buffers m),
                                  m_shut := m_shut m2 \<union> snd ` set (m_pools m)\<rparr>)))"

section \<open>Changes at run time\<close>

definition name_taken :: "string \<Rightarrow> 'l Manager \<Rightarrow> bool" where
  "name_taken n m \<longleftrightarrow> map_of (m_pools m) n \<noteq> None \<or> map_of (m_sources m) n \<noteq> None"

definition setDefaultRateLimiter :: "'l option \<Rightarrow> 'l Manager \<Rightarrow> 'l Manager" where
  "setDefaultRateLimiter limiter m =
     m\<lparr>m_defaultLimiter := limiter, m_objs := inherit_limiter (m_sources m) limiter (m_objs m)\<rparr>"

text \<open>
  \<open>addDataSource\<close> drops the mutex while it builds and looks the name up again afterwards: what it does is
  what it does in the state of its last critical section, apart from a pool that was built in vain.
\<close>

definition addDataSource :: "(string \<Rightarrow> bool) \<Rightarrow> DataSourceConfig \<Rightarrow> 'l DataSourceOptions \<Rightarrow> 'l Manager \<Rightarrow> Status \<times> 'l Manager" where
  "addDataSource known cfg opts m =
     (if dc_name cfg = [] then (config_error ''datasource name must not be empty'', m)
      else if name_taken (dc_name cfg) m then (config_error (''datasource name already exists: '' @ dc_name cfg), m)
      else
        let limiter = (case op_rate_limiter opts of Some l \<Rightarrow> Some l | None \<Rightarrow> m_defaultLimiter m) in
        case buildSingleDataSource known cfg (op_retry opts) (op_circuit_breaker opts) (op_cursor opts) limiter {}
               (m_objs m, m_next m) of
          Inl e \<Rightarrow> (e, m)
        | Inr ((p, i), (objs, n)) \<Rightarrow>
            (OK, m\<lparr>m_objs := objs(i := (objs i)\<lparr>o_inheritsLimiter := op_rate_limiter opts = None, o_readOnly := op_read_only opts\<rparr>),
                   m_next := n, m_pools := (dc_name cfg, p) # m_pools m, m_sources := (dc_name cfg, i) # m_sources m,
                   m_heartbeat := (if attach_heartbeat opts then map_option (\<lambda>ps. ps @ [p]) (m_heartbeat m)
                                   else m_heartbeat m)\<rparr>))"

text \<open>How a registered group refers to a source of a given name; the first group found decides.\<close>

definition reference :: "(ident \<Rightarrow> 'l DataSource_obj) \<Rightarrow> string \<Rightarrow> 'l DataSource_obj \<Rightarrow> string option" where
  "reference objs name c =
     (case o_primary c of
        None \<Rightarrow> None
      | Some p \<Rightarrow>
          if o_name c = name then None
          else if o_name (objs p) = name then Some ''primary''
          else if \<exists>r \<in> set (o_replicas c). o_name (objs r) = name then Some ''replica''
          else if \<exists>f \<in> set (o_failoverPrimaries c). o_name (objs f) = name then Some ''failover candidate''
          else case o_shadow c of
            Some s \<Rightarrow> if o_name (objs s) = name then Some ''shadow'' else None
          | None \<Rightarrow> None)"

definition removeDataSource :: "string \<Rightarrow> 'l Manager \<Rightarrow> Status \<times> 'l Manager" where
  "removeDataSource name m =
     (case map_of (m_pools m) name of
        None \<Rightarrow> (config_error (''datasource not found: '' @ name), m)
      | Some p \<Rightarrow>
          if name = m_defaultName m
          then (config_error (''datasource '' @ quoted name @ '' is the current default and cannot be removed''), m)
          else case find (\<lambda>(n, i). reference (m_objs m) name (m_objs m i) \<noteq> None) (m_sources m) of
            Some (n, i) \<Rightarrow>
              (config_error (''datasource '' @ quoted name @ '' is still referenced by group '' @ quoted (o_name (m_objs m i)) @
                 '' as '' @ the (reference (m_objs m) name (m_objs m i)) @ '' (remove the group first)''), m)
          | None \<Rightarrow>
              (OK, m\<lparr>m_pools := AList.delete name (m_pools m), m_sources := AList.delete name (m_sources m),
                     m_shut := insert p (m_shut m)\<rparr>))"

text \<open>
  \<open>started\<close>: whether the write buffer's thread could be started. The replicas are flagged before the shadows
  are resolved.
\<close>

definition flag_replicas :: "names \<Rightarrow> string list \<Rightarrow> (ident \<Rightarrow> 'l DataSource_obj) \<Rightarrow> (ident \<Rightarrow> 'l DataSource_obj)" where
  "flag_replicas sources rs objs =
     fold (\<lambda>r objs. case map_of sources r of None \<Rightarrow> objs | Some i \<Rightarrow> objs(i := (objs i)\<lparr>o_readReplica := True\<rparr>)) rs objs"

definition drop_group :: "string \<Rightarrow> ident list \<Rightarrow> 'l Manager \<Rightarrow> 'l Manager" where
  "drop_group name bufs m =
     m\<lparr>m_sources := AList.delete name (m_sources m), m_buffers := filter (\<lambda>b. b \<notin> set bufs) (m_buffers m),
       m_running := m_running m - set bufs\<rparr>"

text \<open>From the built group on: it is registered, its buffer started, the shadows resolved; a failure takes it out again.\<close>

definition enter_group :: "bool \<Rightarrow> DataSourceGroupConfig \<Rightarrow> 'l GroupOptions \<Rightarrow> 'l Manager \<Rightarrow> ident \<Rightarrow> ident list \<Rightarrow> 'l store \<Rightarrow>
    Status \<times> 'l Manager" where
  "enter_group started cfg opts m i bufs st =
     (case st of (objs, n) \<Rightarrow>
        let objs1 = objs(i := (objs i)\<lparr>o_inheritsLimiter := go_rate_limiter opts = None\<rparr>);
            m1 = m\<lparr>m_objs := flag_replicas (m_sources m) (map rc_name (gc_replicas cfg)) objs1, m_next := n,
                   m_sources := (gc_name cfg, i) # m_sources m, m_buffers := m_buffers m @ bufs\<rparr> in
        if bufs \<noteq> [] \<and> \<not> started
        then (error UnknownError ''write buffer start failed'', drop_group (gc_name cfg) bufs m1)
        else
          case resolveShadows (m1\<lparr>m_running := m_running m1 \<union> set bufs\<rparr>) of (rs, m2) \<Rightarrow>
            if \<not> status_ok rs then (rs, drop_group (gc_name cfg) bufs m2) else (OK, m2))"

definition addGroup :: "bool \<Rightarrow> DataSourceGroupConfig \<Rightarrow> 'l GroupOptions \<Rightarrow> 'l Manager \<Rightarrow> Status \<times> 'l Manager" where
  "addGroup started cfg opts m =
     (let fo = gc_failover cfg; name = gc_name cfg in
      if name = [] then (config_error ''group name must not be empty'', m)
      else if name_taken name m then (config_error (''group name already exists: '' @ name), m)
      else if fo_primaries fo \<noteq> [] \<and> \<not> go_acknowledge_external_fencing opts then (fencing_error name, m)
      else if wbc_enabled (write_buffer fo) \<and> \<not> go_acknowledge_data_loss_and_duplicates opts then (buffering_error name, m)
      else
        let v = validateGroupRefs cfg (m_pools m);
            limiter = (case go_rate_limiter opts of Some l \<Rightarrow> Some l | None \<Rightarrow> m_defaultLimiter m) in
        if \<not> status_ok v then (v, m)
        else case buildSingleDataSourceGroup cfg limiter (go_cursor opts) (m_sources m) (m_objs m, m_next m) of
          Inl e \<Rightarrow> (e, m)
        | Inr ((i, buf), st) \<Rightarrow> enter_group started cfg opts m i (case buf of None \<Rightarrow> [] | Some b \<Rightarrow> [b]) st)"

text \<open>The flags of the leaves are computed again from the groups that stay.\<close>

definition reflag :: "names \<Rightarrow> (ident \<Rightarrow> 'l DataSource_obj) \<Rightarrow> (ident \<Rightarrow> 'l DataSource_obj)" where
  "reflag sources objs =
     (let cleared = fold (\<lambda>(n, i) objs. if o_primary (objs i) = None then objs(i := (objs i)\<lparr>o_readReplica := False\<rparr>) else objs)
            sources objs
      in fold (\<lambda>(n, i) objs.
           if o_primary (objs i) = None then objs
           else fold (\<lambda>r objs. objs(r := (objs r)\<lparr>o_readReplica := True\<rparr>)) (o_replicas (objs i)) objs) sources cleared)"

definition removeGroup :: "string \<Rightarrow> 'l Manager \<Rightarrow> Status \<times> 'l Manager" where
  "removeGroup name m =
     (case map_of (m_sources m) name of
        None \<Rightarrow> (config_error (''group not found: '' @ name), m)
      | Some i \<Rightarrow>
          if map_of (m_pools m) name \<noteq> None
          then (config_error (''datasource '' @ quoted name @ '' is not a group (use removeDataSource)''), m)
          else if name = m_defaultName m
          then (config_error (''group '' @ quoted name @ '' is the current default and cannot be removed''), m)
          else
            let bufs = (case o_writeBuffer (m_objs m i) of None \<Rightarrow> [] | Some (b, _) \<Rightarrow> [b]);
                m1 = drop_group name bufs m
            in (OK, m1\<lparr>m_objs := reflag (m_sources m1) (m_objs m1)\<rparr>))"

definition getDataSource :: "string \<Rightarrow> 'l Manager \<Rightarrow> ident option" where
  "getDataSource name m = map_of (m_sources m) name"

definition getDefault :: "'l Manager \<Rightarrow> ident option" where
  "getDefault m = (if m_defaultName m = [] then None else map_of (m_sources m) (m_defaultName m))"

definition shutdown_manager :: "'l Manager \<Rightarrow> 'l Manager" where
  "shutdown_manager m =
     m\<lparr>m_heartbeat := None, m_pools := [], m_sources := [], m_buffers := [], m_defaultName := [],
       m_running := m_running m - set (m_buffers m), m_shut := m_shut m \<union> snd ` set (m_pools m)\<rparr>"

definition dataSourceCount :: "'l Manager \<Rightarrow> nat" where
  "dataSourceCount m = length (m_sources m)"

section \<open>The registry is closed under references\<close>

definition members_of :: "'l DataSource_obj \<Rightarrow> ident list" where
  "members_of ob =
     (case o_primary ob of
        None \<Rightarrow> []
      | Some p \<Rightarrow> p # o_replicas ob @ o_failoverPrimaries ob @ (case o_shadow ob of None \<Rightarrow> [] | Some s \<Rightarrow> [s]))"

text \<open>
  A registered object carries its name; a leaf has the pool registered under that name, a group has none
  and its members are registered leaves.
\<close>

definition entry_ok :: "(ident \<Rightarrow> 'l DataSource_obj) \<Rightarrow> names \<Rightarrow> names \<Rightarrow> string \<Rightarrow> ident \<Rightarrow> bool" where
  "entry_ok objs pools sources n i \<longleftrightarrow> o_name (objs i) = n \<and>
     (case o_primary (objs i) of
        None \<Rightarrow> \<exists>p. o_pool (objs i) = Some p \<and> (n, p) \<in> set pools
      | Some _ \<Rightarrow> n \<notin> fst ` set pools) \<and>
     (\<forall>j \<in> set (members_of (objs i)). (o_name (objs j), j) \<in> set sources \<and> o_primary (objs j) = None)"

definition linked :: "(ident \<Rightarrow> 'l DataSource_obj) \<Rightarrow> names \<Rightarrow> names \<Rightarrow> bool" where
  "linked objs pools sources \<longleftrightarrow>
     distinct (map fst sources) \<and> distinct (map fst pools) \<and> distinct (map snd pools) \<and> fst ` set pools \<subseteq> fst ` set sources \<and>
     (\<forall>(n, i) \<in> set sources. entry_ok objs pools sources n i)"

text \<open>What the operations that only set flags and limiters keep of an object.\<close>

definition links :: "'l DataSource_obj \<Rightarrow> string \<times> ident option \<times> ident option \<times> ident list \<times> ident list \<times> ident option" where
  "links ob = (o_name ob, o_pool ob, o_primary ob, o_replicas ob, o_failoverPrimaries ob, o_shadow ob)"

lemma members_of_links: "links x = links y \<Longrightarrow> members_of x = members_of y"
  by (auto simp: links_def members_of_def split: option.split)

lemma linked_entry: "linked objs pools sources \<Longrightarrow> (n, i) \<in> set sources \<Longrightarrow> entry_ok objs pools sources n i"
  by (auto simp: linked_def)

lemma linked_cong:
  assumes "\<And>i. links (objs' i) = links (objs i)"
  shows "linked objs' pools sources = linked objs pools sources"
proof -
  have f: "o_name (objs' i) = o_name (objs i)" "o_pool (objs' i) = o_pool (objs i)" "o_primary (objs' i) = o_primary (objs i)"
    "members_of (objs' i) = members_of (objs i)" for i
    using assms [of i] members_of_links [OF assms [of i]] by (simp_all add: links_def)
  show ?thesis unfolding linked_def entry_ok_def f ..
qed

lemma linked_lookup:
  assumes "linked objs pools sources" and "map_of pools n = Some p"
  shows "\<exists>i. map_of sources n = Some i \<and> o_name (objs i) = n \<and> o_primary (objs i) = None \<and> o_pool (objs i) = Some p"
proof -
  have np: "(n, p) \<in> set pools" using assms(2) by (rule map_of_SomeD)
  then have "n \<in> fst ` set sources" using assms(1) by (force simp: linked_def)
  then obtain i where i: "(n, i) \<in> set sources" by auto
  then have e: "entry_ok objs pools sources n i" using linked_entry [OF assms(1)] by blast
  have "o_primary (objs i) = None" using e np by (force simp: entry_ok_def split: option.splits)
  moreover from this obtain q where q: "o_pool (objs i) = Some q" "(n, q) \<in> set pools" using e by (auto simp: entry_ok_def)
  moreover have "q = p" using q(2) np assms(1) by (auto simp: linked_def dest: eq_key_imp_eq_value)
  ultimately show ?thesis using e i assms(1) by (auto simp: entry_ok_def linked_def)
qed

subsection \<open>Building\<close>

lemma linked_add_leaf:
  assumes "linked objs pools sources" and "n \<notin> fst ` set sources" and "i \<notin> snd ` set sources" and "p \<notin> snd ` set pools"
    and "o_name ob = n" and "o_primary ob = None" and "o_pool ob = Some p"
  shows "linked (objs(i := ob)) ((n, p) # pools) ((n, i) # sources)"
proof -
  have old: "entry_ok (objs(i := ob)) ((n, p) # pools) ((n, i) # sources) n' i'" if "(n', i') \<in> set sources" for n' i'
  proof -
    have e: "entry_ok objs pools sources n' i'" using linked_entry [OF assms(1) that] .
    have ne: "i' \<noteq> i" "n' \<noteq> n" using assms(2,3) that by force+
    have "j \<noteq> i" if "(x, j) \<in> set sources" for x j using that assms(3) by force
    with e ne show ?thesis by (auto simp: entry_ok_def split: option.splits)
  qed
  moreover have "entry_ok (objs(i := ob)) ((n, p) # pools) ((n, i) # sources) n i"
    using assms(5,6,7) by (simp add: entry_ok_def members_of_def)
  moreover have "n \<notin> fst ` set pools" using assms(1,2) by (auto simp: linked_def)
  ultimately show ?thesis using assms(1,2,4) by (auto simp: linked_def)
qed

lemma linked_add_group:
  assumes "linked objs pools sources" and "n \<notin> fst ` set sources" and "i \<notin> snd ` set sources"
    and "o_name ob = n" and "o_primary ob \<noteq> None"
    and "\<forall>j \<in> set (members_of ob). (o_name (objs j), j) \<in> set sources \<and> o_primary (objs j) = None"
  shows "linked (objs(i := ob)) pools ((n, i) # sources)"
proof -
  have fresh: "j \<noteq> i" if "(x, j) \<in> set sources" for x j using that assms(3) by force
  have old: "entry_ok (objs(i := ob)) pools ((n, i) # sources) n' i'" if "(n', i') \<in> set sources" for n' i'
  proof -
    have e: "entry_ok objs pools sources n' i'" using linked_entry [OF assms(1) that] .
    moreover have "i' \<noteq> i" using fresh that by blast
    ultimately show ?thesis using fresh by (auto simp: entry_ok_def split: option.splits)
  qed
  moreover have "n \<notin> fst ` set pools" using assms(1,2) by (auto simp: linked_def)
  then have "entry_ok (objs(i := ob)) pools ((n, i) # sources) n i"
    using assms(4,5,6) fresh by (auto simp: entry_ok_def split: option.splits)
  ultimately show ?thesis using assms(1,2) by (auto simp: linked_def)
qed

lemma members_of_shadow:
  "set (members_of (ob\<lparr>o_shadow := Some t\<rparr>)) \<subseteq> insert t (set (members_of ob))"
  by (auto simp: members_of_def split: option.splits)

lemma linked_set_shadow:
  assumes "linked objs pools sources" and "(n, i) \<in> set sources" and "map_of sources s = Some t" and "o_primary (objs t) = None"
  shows "linked (objs(i := (objs i)\<lparr>o_shadow := Some t\<rparr>)) pools sources"
proof -
  let ?objs = "objs(i := (objs i)\<lparr>o_shadow := Some t\<rparr>)"
  have f: "o_name (?objs j) = o_name (objs j)" "o_pool (?objs j) = o_pool (objs j)" "o_primary (?objs j) = o_primary (objs j)" for j
    by simp_all
  have st: "(s, t) \<in> set sources" using assms(3) by (rule map_of_SomeD)
  then have t: "(o_name (objs t), t) \<in> set sources" using linked_entry [OF assms(1) st] by (simp add: entry_ok_def)
  have "entry_ok ?objs pools sources m j" if "(m, j) \<in> set sources" for m j
  proof -
    have e: "entry_ok objs pools sources m j" using linked_entry [OF assms(1) that] .
    have "set (members_of (?objs j)) \<subseteq> insert t (set (members_of (objs j)))" using members_of_shadow [where ob = "objs i" and t = t] by auto
    then have "\<forall>k \<in> set (members_of (?objs j)). (o_name (objs k), k) \<in> set sources \<and> o_primary (objs k) = None"
      using e t assms(4) by (auto simp: entry_ok_def)
    then show ?thesis using e unfolding entry_ok_def f by blast
  qed
  then show ?thesis using assms(1) by (auto simp: linked_def)
qed

lemma shadow_error_Inr:
  "shadow_error sources objs ds = Inr t \<Longrightarrow> map_of sources (o_shadowName ds) = Some t \<and> o_primary (objs t) = None"
  by (auto simp: shadow_error_def Let_def split: option.splits if_splits)

lemma resolve_loop_linked:
  assumes "linked objs pools sources" and "set rest \<subseteq> set sources" and "resolve_loop sources rest objs = (st, objs')"
  shows "linked objs' pools sources \<and> (\<forall>j. j \<notin> snd ` set rest \<longrightarrow> objs' j = objs j)"
  using assms
proof (induction sources rest objs rule: resolve_loop.induct)
  case (2 sources n i rest objs)
  show ?case
  proof (cases "o_shadowName (objs i) = []")
    case True
    then show ?thesis using 2 by auto
  next
    case False
    show ?thesis
    proof (cases "shadow_error sources objs (objs i)")
      case (Inl e)
      then show ?thesis using False 2 by auto
    next
      case (Inr t)
      have l: "linked (objs(i := (objs i)\<lparr>o_shadow := Some t\<rparr>)) pools sources"
        using linked_set_shadow [OF 2(3)] shadow_error_Inr [OF Inr] 2(4) by auto
      have r: "resolve_loop sources rest (objs(i := (objs i)\<lparr>o_shadow := Some t\<rparr>)) = (st, objs')" "set rest \<subseteq> set sources"
        using 2(4,5) False Inr by auto
      from "2.IH"(2) [OF False Inr l r(2,1)] show ?thesis by simp
    qed
  qed
qed auto

subsection \<open>Removing\<close>

lemma set_delete [simp]: "set (AList.delete n xs) = {x \<in> set xs. fst x \<noteq> n}"
  by (auto simp: AList.delete_eq)

lemma distinct_delete_fst: "distinct (map fst xs) \<Longrightarrow> distinct (map fst (AList.delete n xs))"
  by (simp add: AList.delete_eq distinct_map_filter)

lemma distinct_delete_snd: "distinct (map snd xs) \<Longrightarrow> distinct (map snd (AList.delete n xs))"
  by (simp add: AList.delete_eq distinct_map_filter)

lemma linked_remove:
  assumes "linked objs pools sources"
    and "\<And>g i j. (g, i) \<in> set sources \<Longrightarrow> g \<noteq> n \<Longrightarrow> j \<in> set (members_of (objs i)) \<Longrightarrow> o_name (objs j) \<noteq> n"
  shows "linked objs (AList.delete n pools) (AList.delete n sources)"
proof -
  have "entry_ok objs (AList.delete n pools) (AList.delete n sources) g i" if "(g, i) \<in> set sources" "g \<noteq> n" for g i
    using linked_entry [OF assms(1) that(1)] assms(2) [OF that] that(2)
    by (auto simp: entry_ok_def split: option.splits)
  then show ?thesis using assms(1)
    by (auto simp: linked_def distinct_delete_fst distinct_delete_snd)
qed

lemma member_entry:
  "linked objs pools sources \<Longrightarrow> (g, i) \<in> set sources \<Longrightarrow> j \<in> set (members_of (objs i)) \<Longrightarrow>
    (o_name (objs j), j) \<in> set sources \<and> o_primary (objs j) = None \<and> o_name (objs j) \<in> fst ` set pools"
proof -
  assume l: "linked objs pools sources" and g: "(g, i) \<in> set sources" and j: "j \<in> set (members_of (objs i))"
  have m: "(o_name (objs j), j) \<in> set sources" "o_primary (objs j) = None"
    using linked_entry [OF l g] j by (auto simp: entry_ok_def)
  have "\<exists>p. (o_name (objs j), p) \<in> set pools" using linked_entry [OF l m(1)] m(2) by (auto simp: entry_ok_def)
  then show ?thesis using m by force
qed

lemma linked_remove_group:
  assumes "linked objs pools sources" and "n \<notin> fst ` set pools"
  shows "linked objs pools (AList.delete n sources)"
proof -
  have "linked objs (AList.delete n pools) (AList.delete n sources)"
  proof (rule linked_remove [OF assms(1)])
    fix g i j
    assume "(g, i) \<in> set sources" "j \<in> set (members_of (objs i))"
    then show "o_name (objs j) \<noteq> n" using member_entry [OF assms(1), of g i j] assms(2) by auto
  qed
  moreover have "AList.delete n pools = pools" using assms(2) by (rule AList.delete_id)
  ultimately show ?thesis by simp
qed

subsection \<open>Groups of validated names\<close>

lemma weighted_replicas_in:
  "weighted_replicas g sources rs = Inr is \<Longrightarrow> i \<in> set is \<Longrightarrow> \<exists>r \<in> set rs. map_of sources (rc_name r) = Some i"
  by (induction rs arbitrary: "is") (auto split: option.splits sum.splits if_splits)

lemma failover_candidates_in:
  "failover_candidates g sources seen cs = Inr is \<Longrightarrow> i \<in> set is \<Longrightarrow> \<exists>c \<in> set cs. map_of sources c = Some i"
proof (induction cs arbitrary: "is" seen)
  case (Cons c cs)
  show ?case
  proof (cases "c \<in> seen")
    case True
    then show ?thesis using Cons by auto
  next
    case False
    then obtain j js where "map_of sources c = Some j" "failover_candidates g sources (insert c seen) cs = Inr js" "is = j # js"
      using Cons.prems(1) by (auto split: option.splits sum.splits)
    then show ?thesis using Cons.IH [of "insert c seen" js] Cons.prems(2) by auto
  qed
qed simp

lemma validateGroupRefs_ok:
  assumes "status_ok (validateGroupRefs cfg pools)"
  shows "map_of pools (gc_primary cfg) \<noteq> None" "\<forall>r \<in> set (gc_replicas cfg). map_of pools (rc_name r) \<noteq> None"
    "\<forall>c \<in> set (fo_primaries (gc_failover cfg)). map_of pools c \<noteq> None"
  using assms by (auto simp: validateGroupRefs_def Let_def find_None_iff split: option.splits if_splits)

text \<open>The object a successful build makes, up to what does not matter for the links.\<close>

lemma build_group_object:
  assumes "buildSingleDataSourceGroup cfg limiter cursor sources (objs, n) = Inr ((i, buf), (objs', n'))"
    and "linked objs pools sources" and "status_ok (validateGroupRefs cfg pools)"
  shows "i = n + 1 \<and> n' = n + 2 \<and> (buf = None \<or> buf = Some n) \<and> (\<exists>ob. objs' = objs(i := ob) \<and> o_name ob = gc_name cfg \<and>
    o_primary ob \<noteq> None \<and> o_shadow ob = None \<and>
    (\<forall>j \<in> set (members_of ob). (o_name (objs j), j) \<in> set sources \<and> o_primary (objs j) = None))"
proof -
  note names = validateGroupRefs_ok [OF assms(3)]
  have reg: "(o_name (objs j), j) \<in> set sources \<and> o_primary (objs j) = None"
    if "map_of sources s = Some j" "map_of pools s \<noteq> None" for s j
    using that linked_lookup [OF assms(2), of s] map_of_SomeD [OF that(1)] by auto
  obtain p where p: "map_of sources (gc_primary cfg) = Some p"
    using names(1) linked_lookup [OF assms(2), of "gc_primary cfg"] by auto
  obtain rs where rs: "weighted_replicas (gc_name cfg) sources (gc_replicas cfg) = Inr rs"
    using assms(1) p by (auto simp: buildSingleDataSourceGroup_def Let_def split: sum.splits if_splits)
  let ?f = "if fo_primaries (gc_failover cfg) = [] then Inr []
    else map_sum id (Cons p) (failover_candidates (gc_name cfg) sources {gc_primary cfg} (fo_primaries (gc_failover cfg)))"
  obtain fs where fs: "?f = Inr fs"
    using assms(1) p rs by (auto simp: buildSingleDataSourceGroup_def Let_def split: sum.splits if_splits)
  have fs_in: "f = p \<or> (\<exists>c \<in> set (fo_primaries (gc_failover cfg)). map_of sources c = Some f)" if "f \<in> set fs" for f
    using fs that failover_candidates_in
    by (cases "failover_candidates (gc_name cfg) sources {gc_primary cfg} (fo_primaries (gc_failover cfg))")
      (fastforce split: if_splits)+
  define ob where "ob = objs' i"
  have ob: "i = n + 1" "n' = n + 2" "buf = None \<or> buf = Some n" "objs' = objs(i := ob)" "o_name ob = gc_name cfg"
      "o_primary ob = Some p" "o_shadow ob = None" "o_replicas ob = rs" "o_failoverPrimaries ob = fs"
    using assms(1) p rs fs unfolding buildSingleDataSourceGroup_def ob_def
    by (auto simp: Let_def split: if_splits)
  have "\<forall>j \<in> set (members_of ob). (o_name (objs j), j) \<in> set sources \<and> o_primary (objs j) = None"
  proof
    fix j assume "j \<in> set (members_of ob)"
    then consider "j = p" | "j \<in> set rs" | "j \<in> set fs" using ob(6-9) by (auto simp: members_of_def)
    then show "(o_name (objs j), j) \<in> set sources \<and> o_primary (objs j) = None"
    proof cases
      case 1
      then show ?thesis using reg [OF p names(1)] by simp
    next
      case 2
      then show ?thesis using weighted_replicas_in [OF rs 2] names(2) reg by blast
    next
      case 3
      from fs_in [OF 3] show ?thesis
      proof
        assume "\<exists>c \<in> set (fo_primaries (gc_failover cfg)). map_of sources c = Some j"
        then show ?thesis using names(3) reg by blast
      qed (use reg [OF p names(1)] in simp)
    qed
  qed
  then show ?thesis using ob by auto
qed

subsection \<open>A new registry\<close>

definition within :: "ident \<Rightarrow> ident \<Rightarrow> names \<Rightarrow> bool" where
  "within lo n xs \<longleftrightarrow> (\<forall>(s, i) \<in> set xs. lo \<le> i \<and> i < n)"

lemma within_Cons [simp]: "within lo n ((s, i) # xs) \<longleftrightarrow> lo \<le> i \<and> i < n \<and> within lo n xs"
  and within_Nil [simp]: "within lo n []"
  by (auto simp: within_def)

lemma within_mono: "within lo n xs \<Longrightarrow> n \<le> n' \<Longrightarrow> within lo n' xs"
  by (fastforce simp: within_def)

lemma within_fresh: "within lo n xs \<Longrightarrow> n \<le> i \<Longrightarrow> i \<notin> snd ` set xs"
  by (fastforce simp: within_def)

text \<open>A registry under construction whose identities are all above \<open>lo\<close>; the objects below are untouched.\<close>

definition built :: "ident \<Rightarrow> (ident \<Rightarrow> 'l DataSource_obj) \<Rightarrow> names \<Rightarrow> names \<Rightarrow> 'l store \<Rightarrow> bool" where
  "built lo old pools sources st \<longleftrightarrow> (case st of (objs, n) \<Rightarrow>
     linked objs pools sources \<and> lo \<le> n \<and> within lo n pools \<and> within lo n sources \<and> (\<forall>j < lo. objs j = old j))"

lemma links_inherits [simp]: "links (ob\<lparr>o_inheritsLimiter := b\<rparr>) = links ob"
  by (simp add: links_def)

lemma linked_upd_links:
  "links ob = links (objs i) \<Longrightarrow> linked (objs(i := ob)) pools sources = linked objs pools sources"
  by (rule linked_cong) simp

lemma build_source_built:
  assumes "buildSingleDataSource known dsc retry circuit cursor limiter names (objs, n) = Inr ((p, i), (objs', n'))"
    and "built lo old pools sources (objs, n)" and "dc_name dsc \<notin> fst ` set sources"
  shows "built lo old ((dc_name dsc, p) # pools) ((dc_name dsc, i) # sources) (objs', n')"
proof -
  have r: "p = n" "i = n + 1" "n' = n + 2" "objs' = objs(i := objs' i)" "o_name (objs' i) = dc_name dsc"
      "o_primary (objs' i) = None" "o_pool (objs' i) = Some p"
    using assms(1) by (auto simp: buildSingleDataSource_def split: if_splits)
  have b: "linked objs pools sources" "lo \<le> n" "within lo n pools" "within lo n sources" "\<forall>j < lo. objs j = old j"
    using assms(2) by (simp_all add: built_def)
  have "linked objs' ((dc_name dsc, p) # pools) ((dc_name dsc, i) # sources)"
    by (subst r(4), rule linked_add_leaf [OF b(1) assms(3)])
      (use within_fresh [OF b(3)] within_fresh [OF b(4)] r in auto)
  moreover have "\<forall>j < lo. objs' j = old j" using b(2,5) r(2,4) by (metis add_lessD1 fun_upd_apply less_le_not_le trans_le_add1)
  ultimately show ?thesis using b r(1-3) within_mono [OF b(3), of n'] within_mono [OF b(4), of n'] by (simp add: built_def)
qed

lemma build_sources_built:
  assumes "build_sources known cfg limiter names ds (pools, sources, st) = Inr (pools', sources', st')"
    and "built lo old pools sources st" and "fst ` set sources = fst ` set pools"
  shows "built lo old pools' sources' st'"
  using assms
proof (induction ds arbitrary: pools sources st)
  case (Cons dsc ds)
  obtain objs n where st: "st = (objs, n)" by (cases st)
  obtain p i objs1 n1 where b: "buildSingleDataSource known dsc (gl_retry cfg) (gl_circuit_breaker cfg) (gl_cursor cfg) limiter names
      (objs, n) = Inr ((p, i), (objs1, n1))" and new: "map_of pools (dc_name dsc) = None"
    using Cons.prems(1) unfolding st by (auto split: if_splits sum.splits prod.splits)
  have "dc_name dsc \<notin> fst ` set sources" using new Cons.prems(3) by (simp add: map_of_eq_None_iff)
  from build_source_built [OF b Cons.prems(2) [unfolded st] this]
  have "built lo old ((dc_name dsc, p) # pools) ((dc_name dsc, i) # sources) (objs1(i := (objs1 i)\<lparr>o_inheritsLimiter := x\<rparr>), n1)" for x
    by (auto simp: built_def linked_upd_links)
  from Cons.IH [OF _ this] show ?case using Cons.prems(1,3) b new st by simp
qed simp

lemma build_groups_built:
  assumes "build_groups cfg limiter pools gs (sources, buffers, st) = Inr (sources', buffers', st')"
    and "built lo old pools sources st"
  shows "built lo old pools sources' st'"
  using assms
proof (induction gs arbitrary: sources buffers st)
  case (Cons g gs)
  obtain objs n where st: "st = (objs, n)" by (cases st)
  obtain i buf objs1 n1 where b: "buildSingleDataSourceGroup g limiter default_cursor sources (objs, n) = Inr ((i, buf), (objs1, n1))"
    and ok: "map_of sources (gc_name g) = None" "status_ok (validateGroupRefs g pools)"
    using Cons.prems(1) unfolding st by (auto simp: Let_def split: if_splits sum.splits prod.splits)
  have bt: "linked objs pools sources" "lo \<le> n" "within lo n pools" "within lo n sources" "\<forall>j < lo. objs j = old j"
    using Cons.prems(2) by (simp_all add: built_def st)
  obtain ob where ob: "i = n + 1" "n1 = n + 2" "objs1 = objs(i := ob)" "o_name ob = gc_name g" "o_primary ob \<noteq> None"
      "\<forall>j \<in> set (members_of ob). (o_name (objs j), j) \<in> set sources \<and> o_primary (objs j) = None"
    using build_group_object [OF b bt(1) ok(2)] by blast
  have "linked (objs(i := ob)) pools ((gc_name g, i) # sources)"
    using linked_add_group [OF bt(1) _ _ ob(4-6), of i] ok(1) within_fresh [OF bt(4), of i] ob(1) by (simp add: map_of_eq_None_iff)
  then have "linked (objs1(i := (objs1 i)\<lparr>o_inheritsLimiter := x\<rparr>)) pools ((gc_name g, i) # sources)" for x
    unfolding linked_upd_links [OF links_inherits] using ob(3) by (simp only:)
  then have "built lo old pools ((gc_name g, i) # sources) (objs1(i := (objs1 i)\<lparr>o_inheritsLimiter := x\<rparr>), n1)" for x
    using bt(2,5) ob(1-3) within_mono [OF bt(3), of n1] within_mono [OF bt(4), of n1] by (simp add: built_def)
  from Cons.IH [OF _ this] show ?case using Cons.prems(1) b ok st by (auto simp: Let_def split: if_splits)
qed simp

subsection \<open>Flags and limiters keep the links\<close>

lemma fold_links:
  assumes "\<And>x objs i. links (f x objs i) = links (objs i)"
  shows "links (fold f xs objs i) = links (objs i)"
  by (induction xs arbitrary: objs) (simp_all add: assms)

lemma inherit_limiter_links [simp]: "links (inherit_limiter sources limiter objs i) = links (objs i)"
  unfolding inherit_limiter_def by (rule fold_links) (auto simp: links_def)

lemma flag_replicas_links [simp]: "links (flag_replicas sources rs objs i) = links (objs i)"
  unfolding flag_replicas_def by (rule fold_links) (auto simp: links_def split: option.splits)

lemma reflag_links [simp]: "links (reflag sources objs i) = links (objs i)"
proof -
  have "links (fold (\<lambda>r objs. objs(r := (objs r)\<lparr>o_readReplica := True\<rparr>)) rs objs i) = links (objs i)"
    for rs :: "ident list" and objs :: "ident \<Rightarrow> 'a DataSource_obj" and i
    by (rule fold_links) (simp add: links_def)
  then show ?thesis unfolding reflag_def Let_def
    by (subst fold_links; (subst fold_links)?) (auto simp: links_def)
qed

subsection \<open>Every operation keeps the registry closed\<close>

definition registry_ok :: "'l Manager \<Rightarrow> bool" where
  "registry_ok m \<longleftrightarrow> linked (m_objs m) (m_pools m) (m_sources m) \<and>
     within 0 (m_next m) (m_pools m) \<and> within 0 (m_next m) (m_sources m) \<and>
     (\<forall>p \<in> m_shut m. p < m_next m) \<and> (\<forall>(s, p) \<in> set (m_pools m). p \<notin> m_shut m)"

lemma within_zero: "within lo n xs \<Longrightarrow> within 0 n xs"
  by (auto simp: within_def)

lemma within_delete: "within lo n xs \<Longrightarrow> within lo n (AList.delete s xs)"
  by (auto simp: within_def)

lemma linked_agree:
  assumes "linked objs pools sources" and "within 0 lo sources" and "\<And>j. j < lo \<Longrightarrow> objs' j = objs j"
  shows "linked objs' pools sources"
proof -
  have e: "entry_ok objs' pools sources n i" if "(n, i) \<in> set sources" for n i
  proof -
    have old: "entry_ok objs pools sources n i" using linked_entry [OF assms(1) that] .
    have ag: "objs' j = objs j" if "(s, j) \<in> set sources" for s j using that assms(2,3) by (fastforce simp: within_def)
    have "\<forall>j \<in> set (members_of (objs i)). (o_name (objs' j), j) \<in> set sources \<and> o_primary (objs' j) = None"
      using old ag by (fastforce simp: entry_ok_def)
    then show ?thesis using old unfolding entry_ok_def ag [OF that] by blast
  qed
  then show ?thesis using assms(1) by (auto simp: linked_def)
qed

lemma resolveShadows_keeps:
  assumes "resolveShadows m = (st, m')" and "linked (m_objs m) (m_pools m) (m_sources m)"
  shows "\<exists>objs. m' = m\<lparr>m_objs := objs\<rparr> \<and> linked objs (m_pools m) (m_sources m) \<and>
    (\<forall>j. j \<notin> snd ` set (m_sources m) \<longrightarrow> objs j = m_objs m j)"
  using assms resolve_loop_linked [OF assms(2) subset_refl]
  by (auto simp: resolveShadows_def split: prod.splits)

lemma addDataSource_ok:
  assumes "registry_ok m"
  shows "registry_ok (snd (addDataSource known cfg opts m))"
proof (cases "addDataSource known cfg opts m = (fst (addDataSource known cfg opts m), m)")
  case True
  then show ?thesis using assms by (metis snd_conv)
next
  case False
  let ?l = "case op_rate_limiter opts of Some l \<Rightarrow> Some l | None \<Rightarrow> m_defaultLimiter m"
  obtain p i objs n where b: "buildSingleDataSource known cfg (op_retry opts) (op_circuit_breaker opts) (op_cursor opts) ?l {}
      (m_objs m, m_next m) = Inr ((p, i), (objs, n))" and new: "\<not> name_taken (dc_name cfg) m"
    using False by (auto simp: addDataSource_def Let_def split: if_splits sum.splits prod.splits)
  have r: "p = m_next m" "n = m_next m + 2" using b by (auto simp: buildSingleDataSource_def split: if_splits)
  have bt: "built 0 (m_objs m) (m_pools m) (m_sources m) (m_objs m, m_next m)" using assms by (simp add: built_def registry_ok_def)
  have "dc_name cfg \<notin> fst ` set (m_sources m)" using new by (auto simp: name_taken_def map_of_eq_None_iff)
  from build_source_built [OF b bt this]
  have l: "linked objs ((dc_name cfg, p) # m_pools m) ((dc_name cfg, i) # m_sources m)"
      "within 0 n ((dc_name cfg, p) # m_pools m)" "within 0 n ((dc_name cfg, i) # m_sources m)"
    by (simp_all add: built_def)
  have lk: "linked (objs(i := (objs i)\<lparr>o_inheritsLimiter := a, o_readOnly := c\<rparr>)) ps ss = linked objs ps ss" for a c ps ss
    by (rule linked_upd_links) (simp add: links_def)
  have "p \<notin> m_shut m" "\<forall>p \<in> m_shut m. p < n" using assms r by (auto simp: registry_ok_def)
  then show ?thesis using b new l assms
    by (auto simp: addDataSource_def Let_def registry_ok_def lk)
qed

lemma reference_None:
  assumes "reference objs name ob = None" and "o_name ob \<noteq> name" and "j \<in> set (members_of ob)"
  shows "o_name (objs j) \<noteq> name"
  using assms by (auto simp: reference_def members_of_def split: option.splits if_splits)

lemma removeDataSource_ok:
  assumes "registry_ok m"
  shows "registry_ok (snd (removeDataSource name m))"
proof (cases "removeDataSource name m = (fst (removeDataSource name m), m)")
  case True
  then show ?thesis using assms by (metis snd_conv)
next
  case False
  have ok: "linked (m_objs m) (m_pools m) (m_sources m)" using assms by (simp add: registry_ok_def)
  obtain p where p: "map_of (m_pools m) name = Some p"
    and none: "find (\<lambda>(n, i). reference (m_objs m) name (m_objs m i) \<noteq> None) (m_sources m) = None"
    and r: "snd (removeDataSource name m) = m\<lparr>m_pools := AList.delete name (m_pools m), m_sources := AList.delete name (m_sources m),
      m_shut := insert p (m_shut m)\<rparr>"
    using False by (auto simp: removeDataSource_def simp del: not_None_eq split: option.splits if_splits)
  have "linked (m_objs m) (AList.delete name (m_pools m)) (AList.delete name (m_sources m))"
  proof (rule linked_remove [OF ok])
    fix g i j
    assume g: "(g, i) \<in> set (m_sources m)" "g \<noteq> name" "j \<in> set (members_of (m_objs m i))"
    have "o_name (m_objs m i) = g" using linked_entry [OF ok g(1)] by (simp add: entry_ok_def)
    moreover have "reference (m_objs m) name (m_objs m i) = None" using none g(1) by (auto simp: find_None_iff)
    ultimately show "o_name (m_objs m j) \<noteq> name" using reference_None [OF _ _ g(3)] g(2) by blast
  qed
  moreover have "\<And>n q. (n, q) \<in> set (m_pools m) \<Longrightarrow> n \<noteq> name \<Longrightarrow> q \<noteq> p"
  proof
    fix n q
    assume that: "(n, q) \<in> set (m_pools m)" "n \<noteq> name" and "q = p"
    moreover have "inj_on snd (set (m_pools m))" using ok by (simp add: linked_def distinct_map)
    ultimately show False using that map_of_SomeD [OF p] inj_onD [of snd "set (m_pools m)" "(n, p)" "(name, p)"] by auto
  qed
  moreover have "p < m_next m" using map_of_SomeD [OF p] assms by (auto simp: registry_ok_def within_def)
  ultimately show ?thesis using assms unfolding r registry_ok_def by (auto intro: within_delete)
qed

lemma registry_ok_objs:
  assumes "registry_ok m" and "\<And>i. links (objs i) = links (m_objs m i)"
  shows "registry_ok (m\<lparr>m_objs := objs\<rparr>)"
  using assms linked_cong [OF assms(2)] by (simp add: registry_ok_def)

lemma registry_ok_simps [simp]:
  "registry_ok (m\<lparr>m_running := r\<rparr>) = registry_ok m" "registry_ok (m\<lparr>m_buffers := bs\<rparr>) = registry_ok m"
  "registry_ok (m\<lparr>m_defaultLimiter := l\<rparr>) = registry_ok m" "registry_ok (m\<lparr>m_defaultName := d\<rparr>) = registry_ok m"
  "registry_ok (m\<lparr>m_heartbeat := h\<rparr>) = registry_ok m" "registry_ok (m\<lparr>m_services := s\<rparr>) = registry_ok m"
  by (simp_all add: registry_ok_def)

lemma drop_group_ok: "registry_ok m \<Longrightarrow> name \<notin> fst ` set (m_pools m) \<Longrightarrow> registry_ok (drop_group name bufs m)"
  using linked_remove_group [of "m_objs m" "m_pools m" "m_sources m" name] within_delete [of 0 "m_next m" "m_sources m" name]
  by (simp add: drop_group_def registry_ok_def)

lemma removeGroup_ok: "registry_ok m \<Longrightarrow> registry_ok (snd (removeGroup name m))"
  by (auto simp: removeGroup_def Let_def map_of_eq_None_iff split: option.splits intro!: registry_ok_objs drop_group_ok)

lemma resolveShadows_ok:
  assumes "registry_ok m" and "resolveShadows m = (st, m')"
  shows "registry_ok m' \<and> m_pools m' = m_pools m"
proof -
  have "linked (m_objs m) (m_pools m) (m_sources m)" using assms(1) by (simp add: registry_ok_def)
  from resolveShadows_keeps [OF assms(2) this] show ?thesis using assms(1) by (auto simp: registry_ok_def)
qed

lemma addGroup_ok:
  assumes "registry_ok m"
  shows "registry_ok (snd (addGroup started cfg opts m))"
proof (cases "addGroup started cfg opts m = (fst (addGroup started cfg opts m), m)")
  case True
  then show ?thesis using assms by (metis snd_conv)
next
  case False
  let ?l = "case go_rate_limiter opts of Some l \<Rightarrow> Some l | None \<Rightarrow> m_defaultLimiter m" and ?name = "gc_name cfg"
  obtain i buf objs n where b: "buildSingleDataSourceGroup cfg ?l (go_cursor opts) (m_sources m) (m_objs m, m_next m) =
      Inr ((i, buf), (objs, n))" and new: "\<not> name_taken ?name m" and ok: "status_ok (validateGroupRefs cfg (m_pools m))"
    using False by (auto simp: addGroup_def Let_def split: if_splits sum.splits prod.splits)
  define bufs where "bufs = (case buf of None \<Rightarrow> [] | Some b \<Rightarrow> [b])"
  define m1 where "m1 = m\<lparr>m_objs := flag_replicas (m_sources m) (map rc_name (gc_replicas cfg))
    (objs(i := (objs i)\<lparr>o_inheritsLimiter := go_rate_limiter opts = None\<rparr>)), m_next := n,
    m_sources := (?name, i) # m_sources m, m_buffers := m_buffers m @ bufs\<rparr>"
  have r: "addGroup started cfg opts m = enter_group started cfg opts m i bufs (objs, n)"
    using False b new ok by (auto simp: addGroup_def Let_def bufs_def split: if_splits)
  have lk: "linked (m_objs m) (m_pools m) (m_sources m)" and wi: "within 0 (m_next m) (m_sources m)" "within 0 (m_next m) (m_pools m)"
    using assms by (simp_all add: registry_ok_def)
  obtain ob where ob: "i = m_next m + 1" "n = m_next m + 2" "objs = (m_objs m)(i := ob)" "o_name ob = ?name" "o_primary ob \<noteq> None"
      "\<forall>j \<in> set (members_of ob). (o_name (m_objs m j), j) \<in> set (m_sources m) \<and> o_primary (m_objs m j) = None"
    using build_group_object [OF b lk ok] by blast
  have free: "?name \<notin> fst ` set (m_sources m)" "?name \<notin> fst ` set (m_pools m)"
    using new by (auto simp: name_taken_def map_of_eq_None_iff)
  have "linked objs (m_pools m) ((?name, i) # m_sources m)"
    unfolding ob(3) by (rule linked_add_group [OF lk free(1) _ ob(4-6)]) (use within_fresh [OF wi(1)] ob(1) in auto)
  then have "linked (m_objs m1) (m_pools m1) (m_sources m1)"
    by (subst linked_cong [of _ objs]) (simp_all add: m1_def)
  then have m1: "registry_ok m1"
    using assms ob(1,2) within_mono [OF wi(1), of n] within_mono [OF wi(2), of n]
    by (auto simp: registry_ok_def m1_def)
  have pools: "m_pools m1 = m_pools m" by (simp add: m1_def)
  obtain rs m2 where rs: "resolveShadows (m1\<lparr>m_running := m_running m1 \<union> set bufs\<rparr>) = (rs, m2)"
    by (cases "resolveShadows (m1\<lparr>m_running := m_running m1 \<union> set bufs\<rparr>)")
  have "snd (addGroup started cfg opts m) \<in> {drop_group ?name bufs m1, m2, drop_group ?name bufs m2}"
    unfolding r enter_group_def Let_def prod.case m1_def [symmetric] rs by simp
  moreover have "registry_ok m2" "m_pools m2 = m_pools m" using resolveShadows_ok [OF _ rs] m1 pools by simp_all
  ultimately show ?thesis using drop_group_ok [OF m1] drop_group_ok [of m2] free(2) pools by auto
qed

lemma build_sources_error:
  "build_sources known cfg limiter names ds x = Inl e \<Longrightarrow> \<not> status_ok e"
proof (induction ds arbitrary: x)
  case (Cons d ds)
  obtain pools sources st where x: "x = (pools, sources, st)" by (metis surj_pair)
  have "\<not> status_ok e'" if "buildSingleDataSource known d r c cu limiter names st = Inl e'" for r c cu e'
    using that by (auto simp: buildSingleDataSource_def split: prod.splits if_splits)
  then show ?case using Cons by (auto simp: x split: if_splits sum.splits prod.splits)
qed simp

lemma weighted_replicas_error: "weighted_replicas g sources rs = Inl e \<Longrightarrow> \<not> status_ok e"
  by (induction rs) (auto split: option.splits sum.splits)

lemma failover_candidates_error: "failover_candidates g sources seen cs = Inl e \<Longrightarrow> \<not> status_ok e"
  by (induction cs arbitrary: seen) (auto split: option.splits sum.splits if_splits)

lemma build_group_error: "buildSingleDataSourceGroup cfg limiter cursor sources st = Inl e \<Longrightarrow> \<not> status_ok e"
  by (auto simp: buildSingleDataSourceGroup_def Let_def map_sum_def
      split: prod.splits if_splits option.splits sum.splits dest: weighted_replicas_error failover_candidates_error)

lemma build_groups_error:
  "build_groups cfg limiter pools gs x = Inl e \<Longrightarrow> \<not> status_ok e"
proof (induction gs arbitrary: x)
  case (Cons g gs)
  obtain sources buffers st where x: "x = (sources, buffers, st)" by (metis surj_pair)
  show ?case using Cons
    by (auto simp: x Let_def fencing_error_def buffering_error_def split: if_splits sum.splits prod.splits dest: build_group_error)
qed simp

lemma init_cases:
  obtains (refused) "snd (init known cfg m) = m" "\<not> status_ok (fst (init known cfg m))"
  | (resolved) pools leaves st1 sources buffers st rs m2 where
    "build_sources known cfg (configured_limiter cfg (m_defaultLimiter m))
       (rc_name ` set (concat (map gc_replicas (gl_groups cfg)))) (gl_datasources cfg) ([], [], (m_objs m, m_next m)) =
       Inr (pools, leaves, st1)"
    "build_groups cfg (configured_limiter cfg (m_defaultLimiter m)) pools (gl_groups cfg) (leaves, [], st1) =
       Inr (sources, buffers, st)"
    "map_of sources (default_datasource cfg) \<noteq> None"
    "resolveShadows (installed cfg pools sources buffers st m) = (rs, m2)"
    "init known cfg m =
       (if \<not> status_ok rs
        then (rs, m2\<lparr>m_pools := m_pools m, m_sources := m_sources m, m_buffers := m_buffers m, m_heartbeat := m_heartbeat m,
                     m_running := m_running m, m_shut := m_shut m2 \<union> snd ` set pools\<rparr>)
        else (OK, m2\<lparr>m_running := m_running m2 - set (m_buffers m), m_shut := m_shut m2 \<union> snd ` set (m_pools m)\<rparr>))"
proof -
  let ?l = "configured_limiter cfg (m_defaultLimiter m)" and ?r = "rc_name ` set (concat (map gc_replicas (gl_groups cfg)))"
  let ?b = "build_sources known cfg ?l ?r (gl_datasources cfg) ([], [], (m_objs m, m_next m))"
  show thesis
  proof (cases "gl_datasources cfg = []")
    case True
    then show thesis by (intro refused) (simp_all add: init_def)
  next
    case ds: False
    show thesis
    proof (cases ?b)
      case (Inl e)
      then show thesis using ds build_sources_error [OF Inl] by (intro refused) (simp_all add: init_def Let_def)
    next
      case b: (Inr y)
      obtain pools leaves st1 where y: "y = (pools, leaves, st1)" by (cases y)
      show thesis
      proof (cases "build_groups cfg ?l pools (gl_groups cfg) (leaves, [], st1)")
        case (Inl e)
        then show thesis using ds b y build_groups_error [OF Inl] by (intro refused) (simp_all add: init_def Let_def)
      next
        case g: (Inr x)
        obtain sources buffers st where x: "x = (sources, buffers, st)" by (cases x)
        obtain rs m2 where rs: "resolveShadows (installed cfg pools sources buffers st m) = (rs, m2)"
          by (cases "resolveShadows (installed cfg pools sources buffers st m)")
        show thesis
        proof (cases "map_of sources (default_datasource cfg)")
          case None
          then show thesis using ds b y g x by (intro refused) (simp_all add: init_def Let_def)
        next
          case (Some d)
          then show thesis using ds b y g x rs
            by (intro resolved [OF _ _ _ rs]) (simp_all add: init_def Let_def)
        qed
      qed
    qed
  qed
qed

lemma inherit_limiter_other: "j \<notin> snd ` set sources \<Longrightarrow> inherit_limiter sources l objs j = objs j"
  unfolding inherit_limiter_def by (induction sources arbitrary: objs) (auto split: prod.splits)

text \<open>What the resolved case of \<open>init\<close> knows about the new registry.\<close>

lemma init_built:
  assumes "build_sources known cfg l r ds ([], [], (m_objs m, m_next m)) = Inr (pools, leaves, st1)"
    and "build_groups cfg l pools gs (leaves, [], st1) = Inr (sources, buffers, st)"
    and "resolveShadows (installed cfg pools sources buffers st m) = (rs, m2)"
  shows "\<exists>objs. m2 = (installed cfg pools sources buffers st m)\<lparr>m_objs := objs\<rparr> \<and> linked objs pools sources \<and>
    m_next m \<le> snd st \<and> within (m_next m) (snd st) pools \<and> within (m_next m) (snd st) sources \<and>
    (\<forall>j < m_next m. objs j = m_objs m j)"
proof -
  have "built (m_next m) (m_objs m) [] [] (m_objs m, m_next m)" by (simp add: built_def linked_def)
  from build_groups_built [OF assms(2) build_sources_built [OF assms(1) this]]
  have b: "linked (fst st) pools sources" "m_next m \<le> snd st" "within (m_next m) (snd st) pools"
      "within (m_next m) (snd st) sources" "\<forall>j < m_next m. fst st j = m_objs m j"
    by (auto simp: built_def split: prod.splits)
  have "linked (m_objs (installed cfg pools sources buffers st m)) (m_pools (installed cfg pools sources buffers st m))
      (m_sources (installed cfg pools sources buffers st m))"
    using b(1) linked_cong [where objs' = "inherit_limiter sources (m_defaultLimiter m) (fst st)", OF inherit_limiter_links]
    by (simp add: installed_def)
  from resolveShadows_keeps [OF assms(3) this] obtain objs where o: "m2 = (installed cfg pools sources buffers st m)\<lparr>m_objs := objs\<rparr>"
      "linked objs pools sources"
      "\<forall>j. j \<notin> snd ` set sources \<longrightarrow> objs j = inherit_limiter sources (m_defaultLimiter m) (fst st) j"
    by (auto simp: installed_def)
  have "objs j = m_objs m j" if "j < m_next m" for j
  proof -
    have "j \<notin> snd ` set sources" using b(4) that by (fastforce simp: within_def)
    then show ?thesis using o(3) b(5) that inherit_limiter_other by metis
  qed
  then show ?thesis using o(1,2) b by blast
qed

lemma init_ok:
  assumes "registry_ok m"
  shows "registry_ok (snd (init known cfg m))"
proof (cases known cfg m rule: init_cases)
  case (resolved pools leaves st1 sources buffers st rs m2)
  obtain objs where o: "m2 = (installed cfg pools sources buffers st m)\<lparr>m_objs := objs\<rparr>" "linked objs pools sources"
      "m_next m \<le> snd st" "within (m_next m) (snd st) pools" "within (m_next m) (snd st) sources"
      "\<And>j. j < m_next m \<Longrightarrow> objs j = m_objs m j"
    using init_built [OF resolved(1,2,4)] by blast
  have m: "linked (m_objs m) (m_pools m) (m_sources m)" "within 0 (m_next m) (m_pools m)" "within 0 (m_next m) (m_sources m)"
      "\<forall>p \<in> m_shut m. p < m_next m" "\<forall>(s, p) \<in> set (m_pools m). p \<notin> m_shut m"
    using assms by (simp_all add: registry_ok_def)
  have lt: "\<forall>(s, p) \<in> set (m_pools m). p < m_next m" "\<forall>(s, p) \<in> set pools. m_next m \<le> p \<and> p < snd st"
    using m(2) o(4) by (auto simp: within_def)
  have old: "linked objs (m_pools m) (m_sources m)" by (rule linked_agree [OF m(1,3) o(6)])
  show ?thesis
  proof (cases "status_ok rs")
    case True
    then show ?thesis using o m(4) lt within_zero [OF o(4)] within_zero [OF o(5)]
      by (fastforce simp: resolved(5) registry_ok_def installed_def)
  next
    case False
    then show ?thesis using old o(1,3) m lt within_mono [OF m(2), of "snd st"] within_mono [OF m(3), of "snd st"]
      by (fastforce simp: resolved(5) registry_ok_def installed_def)
  qed
qed (use assms in simp)

section \<open>Reachable registries\<close>

datatype 'l manager_op =
    MInit "'l GlobalConfig" | MAddSource DataSourceConfig "'l DataSourceOptions" | MRemoveSource string
  | MAddGroup bool DataSourceGroupConfig "'l GroupOptions" | MRemoveGroup string | MSetLimiter "'l option" | MShutdown

definition manager_do :: "(string \<Rightarrow> bool) \<Rightarrow> 'l manager_op \<Rightarrow> 'l Manager \<Rightarrow> 'l Manager" where
  "manager_do known oper m =
     (case oper of
        MInit cfg \<Rightarrow> snd (init known cfg m)
      | MAddSource cfg opts \<Rightarrow> snd (addDataSource known cfg opts m)
      | MRemoveSource n \<Rightarrow> snd (removeDataSource n m)
      | MAddGroup started cfg opts \<Rightarrow> snd (addGroup started cfg opts m)
      | MRemoveGroup n \<Rightarrow> snd (removeGroup n m)
      | MSetLimiter l \<Rightarrow> setDefaultRateLimiter l m
      | MShutdown \<Rightarrow> shutdown_manager m)"

definition blank_source :: "'l DataSource_obj" where
  "blank_source =
     \<lparr>o_name = [], o_pool = None, o_primary = None, o_replicas = [], o_readAfterWrite = 0, o_fallbackToPrimary = True,
      o_failoverPrimaries = [], o_requireHealthy = False, o_writeBuffer = None, o_shadowName = [], o_shadow = None,
      o_readOnly = False, o_readReplica = False, o_rateLimiter = None, o_inheritsLimiter = False, o_driverType = [],
      o_retry = default_retry, o_circuitBreaker = default_breaker, o_cursor = default_cursor\<rparr>"

definition new_manager :: "services \<Rightarrow> 'l Manager" where
  "new_manager sv =
     \<lparr>m_objs = (\<lambda>_. blank_source), m_next = 0, m_pools = [], m_sources = [], m_buffers = [], m_heartbeat = None, m_defaultName = [],
      m_defaultLimiter = None, m_shut = {}, m_running = {}, m_services = sv\<rparr>"

lemma manager_do_ok: "registry_ok m \<Longrightarrow> registry_ok (manager_do known oper m)"
  by (cases oper)
    (auto simp: manager_do_def init_ok addDataSource_ok removeDataSource_ok addGroup_ok removeGroup_ok setDefaultRateLimiter_def
      intro!: registry_ok_objs, auto simp: shutdown_manager_def registry_ok_def linked_def within_def)

lemma reachable_ok: "registry_ok (fold (manager_do known) ops (new_manager sv))"
proof -
  have "registry_ok (new_manager sv)" by (simp add: new_manager_def registry_ok_def linked_def)
  moreover have "registry_ok m \<Longrightarrow> registry_ok (fold (manager_do known) ops m)" for m
    by (induction ops arbitrary: m) (simp_all add: manager_do_ok)
  ultimately show ?thesis by blast
qed

text \<open>
  C7: In every state the manager reaches through init, adding and removing sources and groups,
  setting the limiter and shutdown, each primary, replica, failover candidate and shadow of a
  registered group is itself registered under its name, has its pool registered, and that pool
  has not been shut down.
\<close>

theorem group_members_stay_registered:
  assumes "m = fold (manager_do known) ops (new_manager sv)" and "getDataSource g m = Some i" and "j \<in> set (members_of (m_objs m i))"
  shows "getDataSource (o_name (m_objs m j)) m = Some j \<and>
    (\<exists>p. o_pool (m_objs m j) = Some p \<and> map_of (m_pools m) (o_name (m_objs m j)) = Some p \<and> p \<notin> m_shut m)"
proof -
  have ok: "linked (m_objs m) (m_pools m) (m_sources m)" "\<forall>(s, p) \<in> set (m_pools m). p \<notin> m_shut m"
    using reachable_ok [of known ops sv] assms(1) by (simp_all add: registry_ok_def)
  have "(g, i) \<in> set (m_sources m)" using assms(2) by (simp add: getDataSource_def map_of_SomeD)
  note m = member_entry [OF ok(1) this assms(3)]
  obtain p where p: "map_of (m_pools m) (o_name (m_objs m j)) = Some p"
    using m by (metis (no_types) map_of_eq_None_iff not_None_eq)
  have "map_of (m_sources m) (o_name (m_objs m j)) = Some j" using m ok(1) by (simp add: linked_def)
  then show ?thesis using p linked_lookup [OF ok(1) p] ok(2) map_of_SomeD [OF p] by (auto simp: getDataSource_def)
qed

text \<open>
  C36: A failed init leaves the registered sources, pools, write buffers, heartbeat and every
  existing object as they were.
\<close>

theorem failed_init_restores_registry:
  assumes "init known cfg m = (st, m')" and "\<not> status_ok st"
  shows "m_sources m' = m_sources m \<and> m_pools m' = m_pools m \<and> m_buffers m' = m_buffers m \<and> m_running m' = m_running m \<and>
    m_heartbeat m' = m_heartbeat m \<and> (\<forall>j < m_next m. m_objs m' j = m_objs m j)"
proof (cases known cfg m rule: init_cases)
  case (resolved pools leaves st1 sources buffers st2 rs m2)
  obtain objs where "m2 = (installed cfg pools sources buffers st2 m)\<lparr>m_objs := objs\<rparr>" "\<forall>j < m_next m. objs j = m_objs m j"
    using init_built [OF resolved(1,2,4)] by blast
  then show ?thesis using assms resolved(5) by (auto split: if_splits)
qed (use assms in auto)

section \<open>Removal\<close>

lemma reference_iff:
  assumes "o_name ob \<noteq> name"
  shows "reference objs name ob = None \<longleftrightarrow> (\<forall>j \<in> set (members_of ob). o_name (objs j) \<noteq> name)"
  using assms by (auto simp: reference_def members_of_def split: option.splits if_splits)

text \<open>
  Removing a source succeeds exactly when it is a registered plain source, is not the default
  and is no member of a registered group; it is then gone and its pool shut down, and otherwise
  nothing changes.
\<close>

theorem removeDataSource_succeeds_iff:
  assumes "registry_ok m" and "removeDataSource name m = (st, m')"
  shows "(status_ok st \<longleftrightarrow> map_of (m_pools m) name \<noteq> None \<and> name \<noteq> m_defaultName m \<and>
      (\<forall>g i j. getDataSource g m = Some i \<and> j \<in> set (members_of (m_objs m i)) \<longrightarrow> o_name (m_objs m j) \<noteq> name)) \<and>
    (status_ok st \<longrightarrow> getDataSource name m' = None \<and> (\<forall>p. map_of (m_pools m) name = Some p \<longrightarrow> p \<in> m_shut m')) \<and>
    (\<not> status_ok st \<longrightarrow> m' = m)"
proof -
  let ?f = "find (\<lambda>(n, i). reference (m_objs m) name (m_objs m i) \<noteq> None) (m_sources m)"
  have ok: "linked (m_objs m) (m_pools m) (m_sources m)" using assms(1) by (simp add: registry_ok_def)
  have mem: "(g, i) \<in> set (m_sources m) \<longleftrightarrow> getDataSource g m = Some i" for g i
    using ok by (simp add: getDataSource_def linked_def)
  have none: "?f = None \<longleftrightarrow> (\<forall>g i j. getDataSource g m = Some i \<and> j \<in> set (members_of (m_objs m i)) \<longrightarrow> o_name (m_objs m j) \<noteq> name)"
    if leaf: "map_of (m_pools m) name \<noteq> None"
  proof -
    have ref: "reference (m_objs m) name (m_objs m i) = None \<longleftrightarrow> (\<forall>j \<in> set (members_of (m_objs m i)). o_name (m_objs m j) \<noteq> name)"
      if g: "(g, i) \<in> set (m_sources m)" for g i
    proof (cases "g = name")
      case False
      then show ?thesis using reference_iff [of "m_objs m i" name "m_objs m"] linked_entry [OF ok g] by (simp add: entry_ok_def)
    next
      case True
      then have "map_of (m_sources m) name = Some i" using g ok by (simp add: linked_def)
      then have "o_primary (m_objs m i) = None" using leaf linked_lookup [OF ok, of name] by auto
      then show ?thesis by (simp add: reference_def members_of_def)
    qed
    have "?f = None \<longleftrightarrow> (\<forall>g i. (g, i) \<in> set (m_sources m) \<longrightarrow> reference (m_objs m) name (m_objs m i) = None)"
      by (auto simp: find_None_iff)
    also have "\<dots> \<longleftrightarrow> (\<forall>g i. (g, i) \<in> set (m_sources m) \<longrightarrow> (\<forall>j \<in> set (members_of (m_objs m i)). o_name (m_objs m j) \<noteq> name))"
      using ref by metis
    finally show ?thesis unfolding mem by blast
  qed
  show ?thesis
  proof (cases "map_of (m_pools m) name")
    case None
    then show ?thesis using assms(2) by (auto simp: removeDataSource_def)
  next
    case (Some p)
    then show ?thesis using assms(2) none
      by (cases ?f) (auto simp: removeDataSource_def getDataSource_def AList.delete_conv simp del: not_None_eq split: if_splits)
  qed
qed

section \<open>Configurations to evaluate\<close>

definition sample_source :: "string \<Rightarrow> DataSourceConfig" where
  "sample_source n = \<lparr>dc_name = n, dc_type = ''mysql''\<rparr>"

definition group_on :: "string \<Rightarrow> string \<Rightarrow> string list \<Rightarrow> string \<Rightarrow> DataSourceGroupConfig" where
  "group_on n p rs sh =
     \<lparr>gc_name = n, gc_primary = p, gc_replicas = map (\<lambda>r. \<lparr>rc_name = r, rc_weight = 1\<rparr>) rs, read_after_write_ms = 0,
      fallback_to_primary = True, gc_read_only = False,
      gc_failover = \<lparr>fo_primaries = [], acknowledge_external_fencing = False, require_healthy = False,
        write_buffer = \<lparr>wbc_enabled = False, max_queue = 1, wbc_ttl_ms = 1, flush_interval_ms = 10\<rparr>,
        acknowledge_data_loss_and_duplicates = False\<rparr>, gc_shadow = sh\<rparr>"

definition sample_global :: "string \<Rightarrow> string list \<Rightarrow> DataSourceGroupConfig list \<Rightarrow> unit GlobalConfig" where
  "sample_global d ds gs =
     \<lparr>default_datasource = d, gl_retry = default_retry, gl_circuit_breaker = default_breaker, gl_rate_limit = None,
      gl_sql_audit = strict_audit, gl_query_cache = qc_cfg initial_cache, gl_cursor = default_cursor\<lparr>cu_enabled := False\<rparr>,
      gl_prepared_cache = (True, 128), gl_interceptors = False, gl_datasources = map sample_source ds, gl_groups = gs\<rparr>"

definition sample_manager :: "unit Manager" where
  "sample_manager = snd (init (\<lambda>_. True) (sample_global ''main'' [''main'', ''standby''] [group_on ''app'' ''main'' [''standby''] []])
     (new_manager \<lparr>sv_audit = strict_audit, sv_prepared = (True, 128), sv_cache = qc_cfg initial_cache, sv_interceptors = False\<rparr>))"

text \<open>An \<open>init\<close> that fails while it resolves shadows keeps the sources but not their default.\<close>

theorem failed_init_loses_default:
  "\<not> status_ok (fst (init (\<lambda>_. True) (sample_global ''new'' [''new''] [group_on ''g'' ''new'' [] ''nowhere'']) sample_manager)) \<and>
   getDefault sample_manager \<noteq> None \<and>
   getDefault (snd (init (\<lambda>_. True) (sample_global ''new'' [''new''] [group_on ''g'' ''new'' [] ''nowhere'']) sample_manager)) = None"
  by code_simp

text \<open>A group added with an unknown shadow is taken out again, but its replicas stay flagged.\<close>

theorem failed_addGroup_leaves_flag:
  "\<exists>i. getDataSource ''main'' sample_manager = Some i \<and> \<not> o_readReplica (m_objs sample_manager i) \<and>
    \<not> status_ok (fst (addGroup True (group_on ''h'' ''standby'' [''main''] ''nowhere'')
      \<lparr>go_rate_limiter = None, go_cursor = default_cursor, go_acknowledge_external_fencing = False,
       go_acknowledge_data_loss_and_duplicates = False\<rparr> sample_manager)) \<and>
    o_readReplica (m_objs (snd (addGroup True (group_on ''h'' ''standby'' [''main''] ''nowhere'')
      \<lparr>go_rate_limiter = None, go_cursor = default_cursor, go_acknowledge_external_fencing = False,
       go_acknowledge_data_loss_and_duplicates = False\<rparr> sample_manager)) i)"
  by (rule exI [of _ "the (getDataSource ''main'' sample_manager)"]) code_simp

text \<open>Groups built by \<open>init\<close> get the default cursor settings, not the configured ones.\<close>

theorem init_group_ignores_cursor_settings:
  "cu_enabled (gl_cursor (sample_global ''main'' [''main'', ''standby''] [group_on ''app'' ''main'' [''standby''] []])) = False \<and>
   (\<exists>i. getDataSource ''app'' sample_manager = Some i \<and> cu_enabled (o_cursor (m_objs sample_manager i))) \<and>
   (\<exists>i. getDataSource ''main'' sample_manager = Some i \<and> \<not> cu_enabled (o_cursor (m_objs sample_manager i)))"
proof (intro conjI)
  show "\<exists>i. getDataSource ''app'' sample_manager = Some i \<and> cu_enabled (o_cursor (m_objs sample_manager i))"
    by (rule exI [of _ "the (getDataSource ''app'' sample_manager)"]) code_simp
  show "\<exists>i. getDataSource ''main'' sample_manager = Some i \<and> \<not> cu_enabled (o_cursor (m_objs sample_manager i))"
    by (rule exI [of _ "the (getDataSource ''main'' sample_manager)"]) code_simp
qed (simp add: sample_global_def)

section \<open>Witnesses\<close>

definition sample_services :: services where
  "sample_services = \<lparr>sv_audit = strict_audit, sv_prepared = (True, 128), sv_cache = qc_cfg initial_cache, sv_interceptors = False\<rparr>"

abbreviation sample_init :: "unit manager_op" where
  "sample_init \<equiv> MInit (sample_global ''main'' [''main'', ''standby''] [group_on ''app'' ''main'' [''standby''] []])"

lemma sample_reached: "sample_manager = fold (manager_do (\<lambda>_. True)) [sample_init] (new_manager sample_services)"
  by (simp add: sample_manager_def manager_do_def sample_services_def)

theorem group_members_stay_registered_witness:
  "\<exists>i j. getDataSource ''app'' sample_manager = Some i \<and> o_replicas (m_objs sample_manager i) = [j] \<and>
     getDataSource ''standby'' sample_manager = Some j"
proof -
  have e: "getDataSource ''app'' sample_manager = Some 5" "o_primary (m_objs sample_manager 5) = Some 1"
      "o_replicas (m_objs sample_manager 5) = [3]" "o_name (m_objs sample_manager 3) = ''standby''"
    by code_simp+
  have "3 \<in> set (members_of (m_objs sample_manager 5))" using e(2,3) by (simp add: members_of_def)
  from group_members_stay_registered [OF sample_reached e(1) this] e show ?thesis by auto
qed

theorem removeDataSource_succeeds_iff_witness:
  "\<not> status_ok (fst (removeDataSource ''standby'' sample_manager)) \<and> snd (removeDataSource ''standby'' sample_manager) = sample_manager"
proof -
  obtain st m' where r: "removeDataSource ''standby'' sample_manager = (st, m')" by (cases "removeDataSource ''standby'' sample_manager")
  have ok: "registry_ok sample_manager" unfolding sample_reached by (rule reachable_ok)
  have e: "getDataSource ''app'' sample_manager = Some 5" "o_primary (m_objs sample_manager 5) = Some 1"
      "o_replicas (m_objs sample_manager 5) = [3]" "o_name (m_objs sample_manager 3) = ''standby''"
    by code_simp+
  have "3 \<in> set (members_of (m_objs sample_manager 5))" using e(2,3) by (simp add: members_of_def)
  then have "\<not> status_ok st" using removeDataSource_succeeds_iff [OF ok r] e(1,4) by blast
  then show ?thesis using removeDataSource_succeeds_iff [OF ok r] r by simp
qed

theorem failed_init_restores_registry_witness:
  "\<exists>st m'. init (\<lambda>_. True) (sample_global ''new'' [''new''] [group_on ''g'' ''new'' [] ''nowhere'']) sample_manager = (st, m') \<and>
     \<not> status_ok st \<and> m_sources m' = m_sources sample_manager"
proof -
  obtain st m' where r: "init (\<lambda>_. True) (sample_global ''new'' [''new''] [group_on ''g'' ''new'' [] ''nowhere'']) sample_manager = (st, m')"
    by (cases "init (\<lambda>_. True) (sample_global ''new'' [''new''] [group_on ''g'' ''new'' [] ''nowhere'']) sample_manager")
  have "\<not> status_ok (fst (init (\<lambda>_. True) (sample_global ''new'' [''new''] [group_on ''g'' ''new'' [] ''nowhere'']) sample_manager))"
    by code_simp
  then have "\<not> status_ok st" by (simp add: r)
  from failed_init_restores_registry [OF r this] this r show ?thesis by blast
qed

end
