(* ===== verification/PgTypes.thy ===== *)
theory PgTypes
  imports Types
begin

text \<open>
  Text formats of PostgreSQL values: \<^verbatim>\<open>src/common/pg_types.cpp\<close> and \<^verbatim>\<open>pg_types.h\<close>.
  \<^item> The scanner of geometric values walks its text with an index; the model carries the suffix
    still to be read. A parse that returns \<^verbatim>\<open>false\<close> is \<^term>\<open>None\<close>.
  \<^item> Doubles are an arbitrary type with the operations the code applies to them, the record
    \<open>fp_ops\<close>: what is proved holds for every floating point arithmetic and every
    \<^verbatim>\<open>printf\<close>. The limits of a machine \<^verbatim>\<open>int\<close> (a nesting depth, an exponent that the code
    cuts off at six digits) are not reached by any text and the model uses \<open>int\<close>.
  \<^item> Array and composite texts are split by \<open>splitElements\<close>. Every list of elements survives
    the round trip through the array format; the composite format loses elements with
    parentheses and a single null.
\<close>

section \<open>Floating point\<close>

record 'd fp_ops =
  fp_of :: "nat \<Rightarrow> 'd"
  fp_add :: "'d \<Rightarrow> 'd \<Rightarrow> 'd"
  fp_mul :: "'d \<Rightarrow> 'd \<Rightarrow> 'd"
  fp_div :: "'d \<Rightarrow> 'd \<Rightarrow> 'd"
  fp_neg :: "'d \<Rightarrow> 'd"
  fp_pow10 :: "int \<Rightarrow> 'd"
  fp_eq :: "'d \<Rightarrow> 'd \<Rightarrow> bool"
  fp_isnan :: "'d \<Rightarrow> bool"
  fp_isinf :: "'d \<Rightarrow> bool"
  fp_pos :: "'d \<Rightarrow> bool"
  fp_printg :: "nat \<Rightarrow> 'd \<Rightarrow> string"

section \<open>Scanner\<close>

definition pg_space :: "char \<Rightarrow> bool" where
  "pg_space c \<longleftrightarrow> c = SP \<or> c = CHR 0x09 \<or> c = NL \<or> c = CHR 0x0D"

definition pg_ws :: "string \<Rightarrow> string" where
  "pg_ws s = dropWhile pg_space s"

definition pg_lit :: "char \<Rightarrow> string \<Rightarrow> bool \<times> string" where
  "pg_lit c s = (case pg_ws s of [] \<Rightarrow> (False, []) | d # r \<Rightarrow> if d = c then (True, r) else (False, d # r))"

definition pg_eof :: "string \<Rightarrow> bool" where
  "pg_eof s \<longleftrightarrow> pg_ws s = []"

text \<open>The sign of a mantissa or of an exponent.\<close>

definition pg_sign :: "string \<Rightarrow> bool \<times> string" where
  "pg_sign s = (case s of [] \<Rightarrow> (False, [])
     | c # r \<Rightarrow> if c = CHR ''+'' then (False, r) else if c = CHR ''-'' then (True, r) else (False, c # r))"

definition digit_value :: "char \<Rightarrow> nat" where
  "digit_value c = byte c - 48"

definition pg_whole :: "'d fp_ops \<Rightarrow> string \<Rightarrow> 'd" where
  "pg_whole fp ds = foldl (\<lambda>w c. fp_add fp (fp_mul fp w (fp_of fp 10)) (fp_of fp (digit_value c))) (fp_of fp 0) ds"

definition pg_scale :: "'d fp_ops \<Rightarrow> string \<Rightarrow> 'd" where
  "pg_scale fp ds = foldl (\<lambda>w c. fp_mul fp w (fp_of fp 10)) (fp_of fp 1) ds"

definition pg_exp_value :: "string \<Rightarrow> int" where
  "pg_exp_value ds = foldl (\<lambda>e c. if e < 100000 then e * 10 + int (digit_value c) else e) 0 ds"

text \<open>The exponent: \<^term>\<open>None\<close> when the letter is not followed by digits.\<close>

definition pg_exponent :: "string \<Rightarrow> (int \<times> string) option" where
  "pg_exponent s = (case s of [] \<Rightarrow> Some (0, [])
     | c # r \<Rightarrow>
         if c = CHR ''e'' \<or> c = CHR ''E'' then
           (let (neg, r1) = pg_sign r; ds = takeWhile isdigit r1 in
            if ds = [] then None
            else Some (if neg then - pg_exp_value ds else pg_exp_value ds, dropWhile isdigit r1))
         else Some (0, c # r))"

text \<open>The digits after a point; without a point nothing is read.\<close>

definition pg_fraction :: "string \<Rightarrow> string \<times> string" where
  "pg_fraction s = (case s of [] \<Rightarrow> ([], [])
     | c # r \<Rightarrow> if c = CHR ''.'' then (takeWhile isdigit r, dropWhile isdigit r) else ([], c # r))"

definition pg_number :: "'d fp_ops \<Rightarrow> string \<Rightarrow> ('d \<times> string) option" where
  "pg_number fp s0 =
     (let (negative, s1) = pg_sign (pg_ws s0);
          ds = takeWhile isdigit s1;
          (fs, s2) = pg_fraction (dropWhile isdigit s1)
      in if ds = [] \<and> fs = [] then None
         else (case pg_exponent s2 of
             None \<Rightarrow> None
           | Some (ex, s3) \<Rightarrow>
               (let v = fp_mul fp (fp_add fp (pg_whole fp ds) (fp_div fp (pg_whole fp fs) (pg_scale fp fs)))
                          (fp_pow10 fp ex)
                in Some (if negative then fp_neg fp v else v, s3))))"

record 'd PgPoint =
  pt_x :: 'd
  pt_y :: 'd

record 'd PgLine =
  ln_a :: 'd
  ln_b :: 'd
  ln_c :: 'd

record 'd PgLseg =
  sg_p1 :: "'d PgPoint"
  sg_p2 :: "'d PgPoint"

record 'd PgBox =
  bx_high :: "'d PgPoint"
  bx_low :: "'d PgPoint"

record 'd PgPath =
  pa_closed :: bool
  pa_points :: "'d PgPoint list"

record 'd PgPolygon =
  po_points :: "'d PgPoint list"

record 'd PgCircle =
  ci_center :: "'d PgPoint"
  ci_radius :: 'd

text \<open>A step of a parser: read the literal, or fail.\<close>

definition need :: "char \<Rightarrow> string \<Rightarrow> string option" where
  "need c s = (case pg_lit c s of (True, r) \<Rightarrow> Some r | (False, _) \<Rightarrow> None)"

definition pg_point :: "'d fp_ops \<Rightarrow> string \<Rightarrow> ('d PgPoint \<times> string) option" where
  "pg_point fp s =
     Option.bind (need (CHR ''('') s) (\<lambda>s.
     Option.bind (pg_number fp s) (\<lambda>(x, s).
     Option.bind (need (CHR '','') s) (\<lambda>s.
     Option.bind (pg_number fp s) (\<lambda>(y, s).
     Option.bind (need (CHR '')'') s) (\<lambda>s. Some (\<lparr>pt_x = x, pt_y = y\<rparr>, s))))))"

lemma pg_ws_length [consumes]: "length (pg_ws s) \<le> length s"
  by (simp add: pg_ws_def)

lemma need_length [consumes]: "need c s = Some r \<Longrightarrow> length r < length s"
  using pg_ws_length [of s] by (auto simp: need_def pg_lit_def split: list.splits if_splits bool.splits)

lemma pg_sign_length [consumes]: "length (snd (pg_sign s)) \<le> length s"
  by (cases s) (auto simp: pg_sign_def)

lemma pg_fraction_length [consumes]: "length (snd (pg_fraction s)) \<le> length s"
  by (cases s) (auto simp: pg_fraction_def intro: le_SucI)

lemma pg_exponent_length [consumes]: "pg_exponent s = Some (e, r) \<Longrightarrow> length r \<le> length s"
proof (cases s)
  case (Cons c cs)
  moreover have "length (dropWhile isdigit (snd (pg_sign cs))) \<le> length cs"
    using pg_sign_length [of cs] by (rule length_dropWhile_trans)
  ultimately show "pg_exponent s = Some (e, r) \<Longrightarrow> length r \<le> length s"
    by (auto simp: pg_exponent_def Let_def split: if_splits prod.splits)
qed (simp add: pg_exponent_def)

lemma pg_number_length [consumes]: "pg_number fp s = Some (v, r) \<Longrightarrow> length r \<le> length s"
proof -
  assume n: "pg_number fp s = Some (v, r)"
  obtain neg s1 where s1: "pg_sign (pg_ws s) = (neg, s1)" by fastforce
  obtain fs s2 where s2: "pg_fraction (dropWhile isdigit s1) = (fs, s2)" by fastforce
  from n s1 s2 obtain ex where "pg_exponent s2 = Some (ex, r)"
    by (auto simp: pg_number_def Let_def split: if_splits option.splits)
  then have "length r \<le> length s2" by (rule pg_exponent_length)
  also have "\<dots> \<le> length (dropWhile isdigit s1)" using pg_fraction_length [of "dropWhile isdigit s1"] s2 by simp
  also have "\<dots> \<le> length s1" by simp
  also have "\<dots> \<le> length (pg_ws s)" using pg_sign_length [of "pg_ws s"] s1 by simp
  also have "\<dots> \<le> length s" by (rule pg_ws_length)
  finally show ?thesis .
qed

lemma pg_point_length [consumes]: "pg_point fp s = Some (p, r) \<Longrightarrow> length r < length s"
  by (auto simp: pg_point_def bind_eq_Some_conv dest!: need_length pg_number_length)

text \<open>The points between \<open>opening\<close> and \<open>close\<close>: the loop after the opening character.\<close>

function point_loop :: "'d fp_ops \<Rightarrow> char \<Rightarrow> 'd PgPoint list \<Rightarrow> string \<Rightarrow> ('d PgPoint list \<times> string) option" where
  "point_loop fp close out s =
     (case pg_point fp s of
        None \<Rightarrow> None
      | Some (p, s1) \<Rightarrow>
          (case pg_lit (CHR '','') s1 of
             (True, s2) \<Rightarrow> point_loop fp close (out @ [p]) s2
           | (False, s2) \<Rightarrow> map_option (Pair (out @ [p])) (need close s2)))"
  by pat_completeness auto
termination
proof (relation "measure (\<lambda>(fp, close, out, s). length s)"; clarsimp)
  fix fp :: "'d fp_ops" and s p s1 s2
  assume "pg_point fp s = Some (p, s1)" and l: "(True, s2) = pg_lit (CHR '','') s1"
  moreover have "length s2 < length s1" using need_length [of "CHR '',''" s1 s2] l [symmetric] by (simp add: need_def)
  ultimately show "length s2 < length s" using pg_point_length by fastforce
qed

declare point_loop.simps [simp del]

definition pg_points :: "'d fp_ops \<Rightarrow> char \<Rightarrow> char \<Rightarrow> string \<Rightarrow> ('d PgPoint list \<times> string) option" where
  "pg_points fp opening close s =
     Option.bind (need opening s) (\<lambda>s.
       case pg_lit close s of (True, s') \<Rightarrow> Some ([], s') | (False, s') \<Rightarrow> point_loop fp close [] s')"

section \<open>Parsing and formatting of geometric values\<close>

text \<open>The end of every parser: what is left is white space.\<close>

definition at_end :: "('a \<times> string) option \<Rightarrow> 'a option" where
  "at_end r = (case r of None \<Rightarrow> None | Some (v, s) \<Rightarrow> if pg_eof s then Some v else None)"

definition pgParseDouble :: "'d fp_ops \<Rightarrow> string \<Rightarrow> 'd option" where
  "pgParseDouble fp text = at_end (pg_number fp text)"

text \<open>
  The shortest of 15, 16 and 17 significant digits that reads back as the value; a locale's decimal
  comma becomes a point.
\<close>

definition pg_reads_back :: "'d fp_ops \<Rightarrow> 'd \<Rightarrow> nat \<Rightarrow> bool" where
  "pg_reads_back fp v precision =
     (case pgParseDouble fp (fp_printg fp precision v) of None \<Rightarrow> False | Some back \<Rightarrow> fp_eq fp back v)"

definition pgFormatDouble :: "'d fp_ops \<Rightarrow> 'd \<Rightarrow> string" where
  "pgFormatDouble fp v =
     (if fp_isnan fp v then ''NaN''
      else if fp_isinf fp v then (if fp_pos fp v then ''Infinity'' else ''-Infinity'')
      else let buf = (if pg_reads_back fp v 15 then fp_printg fp 15 v
                      else if pg_reads_back fp v 16 then fp_printg fp 16 v
                      else fp_printg fp 17 v)
           in map (\<lambda>c. if c = CHR '','' then CHR ''.'' else c) buf)"

definition pgParsePoint :: "'d fp_ops \<Rightarrow> string \<Rightarrow> 'd PgPoint option" where
  "pgParsePoint fp text = at_end (pg_point fp text)"

definition pgParseLine :: "'d fp_ops \<Rightarrow> string \<Rightarrow> 'd PgLine option" where
  "pgParseLine fp text = at_end (
     Option.bind (need (CHR ''{'') text) (\<lambda>s.
     Option.bind (pg_number fp s) (\<lambda>(a, s).
     Option.bind (need (CHR '','') s) (\<lambda>s.
     Option.bind (pg_number fp s) (\<lambda>(b, s).
     Option.bind (need (CHR '','') s) (\<lambda>s.
     Option.bind (pg_number fp s) (\<lambda>(c, s).
     Option.bind (need (CHR ''}'') s) (\<lambda>s. Some (\<lparr>ln_a = a, ln_b = b, ln_c = c\<rparr>, s)))))))))"

definition pgParseLseg :: "'d fp_ops \<Rightarrow> string \<Rightarrow> 'd PgLseg option" where
  "pgParseLseg fp text = at_end (
     Option.bind (need (CHR ''['') text) (\<lambda>s.
     Option.bind (pg_point fp s) (\<lambda>(p, s).
     Option.bind (need (CHR '','') s) (\<lambda>s.
     Option.bind (pg_point fp s) (\<lambda>(q, s).
     Option.bind (need (CHR '']'') s) (\<lambda>s. Some (\<lparr>sg_p1 = p, sg_p2 = q\<rparr>, s)))))))"

definition pgParseBox :: "'d fp_ops \<Rightarrow> string \<Rightarrow> 'd PgBox option" where
  "pgParseBox fp text = at_end (
     Option.bind (pg_point fp text) (\<lambda>(p, s).
     Option.bind (need (CHR '','') s) (\<lambda>s.
     Option.bind (pg_point fp s) (\<lambda>(q, s). Some (\<lparr>bx_high = p, bx_low = q\<rparr>, s)))))"

definition pgParsePath :: "'d fp_ops \<Rightarrow> string \<Rightarrow> 'd PgPath option" where
  "pgParsePath fp text =
     (let s = pg_ws text; closed = prefix ''('' s in
      map_option (\<lambda>ps. \<lparr>pa_closed = closed, pa_points = ps\<rparr>)
        (at_end (if closed then pg_points fp (CHR ''('') (CHR '')'') s
                 else pg_points fp (CHR ''['') (CHR '']'') s)))"

definition pgParsePolygon :: "'d fp_ops \<Rightarrow> string \<Rightarrow> 'd PgPolygon option" where
  "pgParsePolygon fp text =
     map_option (\<lambda>ps. \<lparr>po_points = ps\<rparr>) (at_end (pg_points fp (CHR ''('') (CHR '')'') text))"

definition pgParseCircle :: "'d fp_ops \<Rightarrow> string \<Rightarrow> 'd PgCircle option" where
  "pgParseCircle fp text = at_end (
     Option.bind (need (CHR ''<'') text) (\<lambda>s.
     Option.bind (pg_point fp s) (\<lambda>(p, s).
     Option.bind (need (CHR '','') s) (\<lambda>s.
     Option.bind (pg_number fp s) (\<lambda>(r, s).
     Option.bind (need (CHR ''>'') s) (\<lambda>s. Some (\<lparr>ci_center = p, ci_radius = r\<rparr>, s)))))))"

definition pgFormatPoint :: "'d fp_ops \<Rightarrow> 'd PgPoint \<Rightarrow> string" where
  "pgFormatPoint fp p = ''('' @ pgFormatDouble fp (pt_x p) @ '','' @ pgFormatDouble fp (pt_y p) @ '')''"

definition pgFormatLine :: "'d fp_ops \<Rightarrow> 'd PgLine \<Rightarrow> string" where
  "pgFormatLine fp l = ''{'' @ pgFormatDouble fp (ln_a l) @ '','' @ pgFormatDouble fp (ln_b l) @ '',''
     @ pgFormatDouble fp (ln_c l) @ ''}''"

definition pgFormatLseg :: "'d fp_ops \<Rightarrow> 'd PgLseg \<Rightarrow> string" where
  "pgFormatLseg fp s = ''['' @ pgFormatPoint fp (sg_p1 s) @ '','' @ pgFormatPoint fp (sg_p2 s) @ '']''"

definition pgFormatBox :: "'d fp_ops \<Rightarrow> 'd PgBox \<Rightarrow> string" where
  "pgFormatBox fp b = pgFormatPoint fp (bx_high b) @ '','' @ pgFormatPoint fp (bx_low b)"

text \<open>Elements with a comma in front of every one but the first.\<close>

fun comma_list :: "string list \<Rightarrow> string" where
  "comma_list [] = []"
| "comma_list [t] = t"
| "comma_list (t # u # ts) = t @ '','' @ comma_list (u # ts)"

definition pgFormatPath :: "'d fp_ops \<Rightarrow> 'd PgPath \<Rightarrow> string" where
  "pgFormatPath fp p = (if pa_closed p then ''('' else ''['') @ comma_list (map (pgFormatPoint fp) (pa_points p))
     @ (if pa_closed p then '')'' else '']'')"

definition pgFormatPolygon :: "'d fp_ops \<Rightarrow> 'd PgPolygon \<Rightarrow> string" where
  "pgFormatPolygon fp p = ''('' @ comma_list (map (pgFormatPoint fp) (po_points p)) @ '')''"

definition pgFormatCircle :: "'d fp_ops \<Rightarrow> 'd PgCircle \<Rightarrow> string" where
  "pgFormatCircle fp c = ''<'' @ pgFormatPoint fp (ci_center c) @ '','' @ pgFormatDouble fp (ci_radius c) @ ''>''"

text \<open>The JSON rendering of geometric values.\<close>

definition json_key :: "string \<Rightarrow> string" where
  "json_key k = [DQ] @ k @ [DQ] @ '':''"

definition jsonPoint :: "'d fp_ops \<Rightarrow> 'd PgPoint \<Rightarrow> string" where
  "jsonPoint fp p = ''{'' @ json_key ''x'' @ pgFormatDouble fp (pt_x p) @ '','' @ json_key ''y''
     @ pgFormatDouble fp (pt_y p) @ ''}''"

definition jsonPoints :: "'d fp_ops \<Rightarrow> 'd PgPoint list \<Rightarrow> string" where
  "jsonPoints fp pts = ''['' @ comma_list (map (jsonPoint fp) pts) @ '']''"

definition line_to_json :: "'d fp_ops \<Rightarrow> 'd PgLine \<Rightarrow> string" where
  "line_to_json fp l = ''{'' @ json_key ''a'' @ pgFormatDouble fp (ln_a l) @ '','' @ json_key ''b''
     @ pgFormatDouble fp (ln_b l) @ '','' @ json_key ''c'' @ pgFormatDouble fp (ln_c l) @ ''}''"

definition lseg_to_json :: "'d fp_ops \<Rightarrow> 'd PgLseg \<Rightarrow> string" where
  "lseg_to_json fp s = ''{'' @ json_key ''p1'' @ jsonPoint fp (sg_p1 s) @ '','' @ json_key ''p2''
     @ jsonPoint fp (sg_p2 s) @ ''}''"

definition box_to_json :: "'d fp_ops \<Rightarrow> 'd PgBox \<Rightarrow> string" where
  "box_to_json fp b = ''{'' @ json_key ''high'' @ jsonPoint fp (bx_high b) @ '','' @ json_key ''low''
     @ jsonPoint fp (bx_low b) @ ''}''"

definition path_to_json :: "'d fp_ops \<Rightarrow> 'd PgPath \<Rightarrow> string" where
  "path_to_json fp p = ''{'' @ json_key ''closed'' @ (if pa_closed p then ''true'' else ''false'') @ '',''
     @ json_key ''points'' @ jsonPoints fp (pa_points p) @ ''}''"

definition polygon_to_json :: "'d fp_ops \<Rightarrow> 'd PgPolygon \<Rightarrow> string" where
  "polygon_to_json fp p = ''{'' @ json_key ''points'' @ jsonPoints fp (po_points p) @ ''}''"

definition circle_to_json :: "'d fp_ops \<Rightarrow> 'd PgCircle \<Rightarrow> string" where
  "circle_to_json fp c = ''{'' @ json_key ''center'' @ jsonPoint fp (ci_center c) @ '','' @ json_key ''radius''
     @ pgFormatDouble fp (ci_radius c) @ ''}''"

definition pgGeometryTypeName :: "32 word \<Rightarrow> string option" where
  "pgGeometryTypeName oid =
     (if oid = 600 then Some ''point'' else if oid = 601 then Some ''lseg''
      else if oid = 602 then Some ''path'' else if oid = 603 then Some ''box''
      else if oid = 604 then Some ''polygon'' else if oid = 628 then Some ''line''
      else if oid = 718 then Some ''circle'' else None)"

definition pgIsGeometryOid :: "32 word \<Rightarrow> bool" where
  "pgIsGeometryOid oid \<longleftrightarrow> pgGeometryTypeName oid \<noteq> None"

section \<open>Arrays and composites\<close>

definition needsQuoting :: "string \<Rightarrow> bool" where
  "needsQuoting raw \<longleftrightarrow> raw = [] \<or> (length raw = 4 \<and> map toupper raw = ''NULL'') \<or>
     list_ex (\<lambda>c. c \<in> {CHR ''{'', CHR ''}'', CHR '','', DQ, BSL} \<or> pg_space c) raw"

text \<open>The end of an element.\<close>

definition flush_element :: "bool \<Rightarrow> bool \<Rightarrow> string \<Rightarrow> string option" where
  "flush_element emptyIsNull quotedAny raw =
     (if \<not> quotedAny \<and> raw = ''NULL'' then None
      else if \<not> quotedAny \<and> raw = [] \<and> emptyIsNull then None
      else Some raw)"

text \<open>The loop variables \<^verbatim>\<open>raw\<close>, \<^verbatim>\<open>quoted\<close>, \<^verbatim>\<open>quotedAny\<close>, \<^verbatim>\<open>depth\<close> and \<^verbatim>\<open>out\<close>.\<close>

fun split_loop :: "char \<Rightarrow> char \<Rightarrow> bool \<Rightarrow> string \<Rightarrow> bool \<Rightarrow> bool \<Rightarrow> int \<Rightarrow> string option list \<Rightarrow> string
    \<Rightarrow> string option list option" where
  "split_loop opening close en raw quoted quotedAny depth out [] =
     (if quoted \<or> depth \<noteq> 0 then None else Some (out @ [flush_element en quotedAny raw]))"
| "split_loop opening close en raw quoted quotedAny depth out (c # cs) =
     (if quoted then
        (if c = BSL \<and> cs \<noteq> [] then split_loop opening close en (raw @ [hd cs]) quoted quotedAny depth out (tl cs)
         else if c = DQ then split_loop opening close en raw False quotedAny depth out cs
         else split_loop opening close en (raw @ [c]) quoted quotedAny depth out cs)
      else if c = DQ then split_loop opening close en raw True True depth out cs
      else if c = opening then split_loop opening close en (raw @ [c]) quoted quotedAny (depth + 1) out cs
      else if c = close then
        (if depth - 1 < 0 then None
         else split_loop opening close en (raw @ [c]) quoted quotedAny (depth - 1) out cs)
      else if c = CHR '','' \<and> depth = 0 then
        split_loop opening close en [] quoted False depth (out @ [flush_element en quotedAny raw]) cs
      else split_loop opening close en (raw @ [c]) quoted quotedAny depth out cs)"

definition splitElements :: "string \<Rightarrow> char \<Rightarrow> char \<Rightarrow> bool \<Rightarrow> string option list option" where
  "splitElements text opening close emptyIsNull =
     (if length text < 2 \<or> hd text \<noteq> opening \<or> last text \<noteq> close then None
      else if length text = 2 then Some []
      else split_loop opening close emptyIsNull [] False False 0 [] (butlast (tl text)))"

definition pgParseArray :: "string \<Rightarrow> string option list option" where
  "pgParseArray text = splitElements text (CHR ''{'') (CHR ''}'') False"

definition pgParseComposite :: "string \<Rightarrow> string option list option" where
  "pgParseComposite text = splitElements text (CHR ''('') (CHR '')'') True"

definition escape_quoted :: "string \<Rightarrow> string" where
  "escape_quoted raw = concat (map (\<lambda>c. if c = DQ \<or> c = BSL then [BSL, c] else [c]) raw)"

definition pgQuoteArrayElement :: "string \<Rightarrow> string" where
  "pgQuoteArrayElement raw = (if needsQuoting raw then [DQ] @ escape_quoted raw @ [DQ] else raw)"

definition array_text :: "string option \<Rightarrow> string" where
  "array_text e = (case e of Some raw \<Rightarrow> pgQuoteArrayElement raw | None \<Rightarrow> ''NULL'')"

definition pgFormatArray :: "string option list \<Rightarrow> string" where
  "pgFormatArray elements = ''{'' @ comma_list (map array_text elements) @ ''}''"

definition composite_text :: "string option \<Rightarrow> string" where
  "composite_text e = (case e of Some raw \<Rightarrow> pgQuoteArrayElement raw | None \<Rightarrow> '''')"

definition pgFormatComposite :: "string option list \<Rightarrow> string" where
  "pgFormatComposite elements = ''('' @ comma_list (map composite_text elements) @ '')''"


section \<open>Round trip of arrays and composites\<close>

text \<open>
  A text \<open>t\<close> reads as the element \<open>e\<close> when the loop, started at an element, comes out of
  \<open>t\<close> outside quotes, at depth 0 and about to store \<open>e\<close>.
\<close>

definition reads_as :: "char \<Rightarrow> char \<Rightarrow> bool \<Rightarrow> string \<Rightarrow> string option \<Rightarrow> bool" where
  "reads_as opening close en t e \<longleftrightarrow> (\<exists>raw qa. flush_element en qa raw = e \<and>
     (\<forall>out rest. split_loop opening close en [] False False 0 out (t @ rest) =
                 split_loop opening close en raw False qa 0 out rest))"

lemma reads_asE:
  assumes "reads_as opening close en t e"
  obtains raw qa where "flush_element en qa raw = e"
    "\<And>out rest. split_loop opening close en [] False False 0 out (t @ rest) = split_loop opening close en raw False qa 0 out rest"
  using assms unfolding reads_as_def by blast

lemma split_loop_quoted:
  "split_loop opening close en raw True qa d out (escape_quoted w @ DQ # rest) =
   split_loop opening close en (raw @ w) False qa d out rest"
proof (induction w arbitrary: raw)
  case (Cons c w)
  show ?case using Cons.IH [of "raw @ [c]"] by (simp add: escape_quoted_def)
qed (simp add: escape_quoted_def)

lemma split_loop_plain:
  assumes "\<forall>c \<in> set w. c \<notin> {opening, close, DQ, CHR '',''}"
  shows "split_loop opening close en raw False qa d out (w @ rest) =
         split_loop opening close en (raw @ w) False qa d out rest"
  using assms
proof (induction w arbitrary: raw)
  case (Cons c w)
  then show ?case using Cons.IH [of "raw @ [c]"] by auto
qed simp

lemma reads_as_quoted: "DQ \<noteq> opening \<Longrightarrow> reads_as opening close en ([DQ] @ escape_quoted w @ [DQ]) (Some w)"
  unfolding reads_as_def
  by (rule exI [of _ w], rule exI [of _ True]) (simp add: split_loop_quoted flush_element_def)

lemma reads_as_plain:
  assumes "\<forall>c \<in> set w. c \<notin> {opening, close, DQ, CHR '',''}"
  shows "reads_as opening close en w (flush_element en False w)"
  unfolding reads_as_def
  by (rule exI [of _ w], rule exI [of _ False]) (simp add: split_loop_plain [OF assms])

lemma unquoted_element:
  assumes "\<not> needsQuoting w"
  shows "flush_element en False w = Some w" "\<forall>c \<in> set w. c \<notin> {CHR ''{'', CHR ''}'', DQ, CHR '',''}"
proof -
  from assms have "w \<noteq> ''NULL''" by (auto simp: needsQuoting_def toupper_def cctype_simps)
  with assms show "flush_element en False w = Some w" by (auto simp: flush_element_def needsQuoting_def)
  from assms show "\<forall>c \<in> set w. c \<notin> {CHR ''{'', CHR ''}'', DQ, CHR '',''}"
    by (auto simp: needsQuoting_def list_ex_iff)
qed

lemma reads_as_comma_list:
  assumes "es \<noteq> []" "opening \<noteq> CHR '',''" "close \<noteq> CHR '',''" "\<forall>e \<in> set es. reads_as opening close en (txt e) e"
  shows "split_loop opening close en [] False False 0 out (comma_list (map txt es)) = Some (out @ es)"
  using assms
proof (induction es arbitrary: out rule: induct_list012)
  case (2 e)
  then obtain raw qa where "flush_element en qa raw = e"
    "\<And>out rest. split_loop opening close en [] False False 0 out (txt e @ rest) = split_loop opening close en raw False qa 0 out rest"
    by (auto elim: reads_asE)
  from this(1) this(2) [of out "[]"] show ?case by simp
next
  case (3 e e' es)
  then obtain raw qa where r: "flush_element en qa raw = e"
    "\<And>out rest. split_loop opening close en [] False False 0 out (txt e @ rest) = split_loop opening close en raw False qa 0 out rest"
    by (auto elim: reads_asE)
  have "split_loop opening close en [] False False 0 (out @ [e]) (comma_list (map txt (e' # es))) = Some ((out @ [e]) @ e' # es)"
    using 3 by simp
  then show ?case using r "3.prems" by simp
qed simp

lemma splitElements_roundtrip:
  assumes "opening \<noteq> CHR '',''" "close \<noteq> CHR '',''" "\<forall>e \<in> set es. reads_as opening close en (txt e) e"
    and "es = [] \<or> comma_list (map txt es) \<noteq> []"
  shows "splitElements ([opening] @ comma_list (map txt es) @ [close]) opening close en = Some es"
proof (cases "es = []")
  case False
  then have "comma_list (map txt es) \<noteq> []" using assms(4) by simp
  then show ?thesis using reads_as_comma_list [OF False assms(1-3), of "[]"]
    by (cases "comma_list (map txt es)") (auto simp: splitElements_def butlast_append)
qed (simp add: splitElements_def)

lemma element_reads:
  assumes "DQ \<noteq> opening" "needsQuoting w \<or> (opening \<notin> set w \<and> close \<notin> set w)"
  shows "reads_as opening close en (pgQuoteArrayElement w) (Some w)"
proof (cases "needsQuoting w")
  case True
  then show ?thesis using reads_as_quoted [OF assms(1)] by (simp add: pgQuoteArrayElement_def)
next
  case False
  then have "\<forall>c \<in> set w. c \<notin> {opening, close, DQ, CHR '',''}" using assms(2) unquoted_element(2) by auto
  from reads_as_plain [OF this, of en] show ?thesis
    using False unquoted_element(1) [OF False] by (simp add: pgQuoteArrayElement_def)
qed

lemma array_text_reads: "reads_as (CHR ''{'') (CHR ''}'') False (array_text e) e"
proof (cases e)
  case None
  then show ?thesis using reads_as_plain [of "''NULL''" "CHR ''{''" "CHR ''}''" False]
    by (simp add: array_text_def flush_element_def)
next
  case (Some w)
  have "needsQuoting w \<or> (CHR ''{'' \<notin> set w \<and> CHR ''}'' \<notin> set w)" using unquoted_element(2) by blast
  with Some show ?thesis by (auto simp: array_text_def intro: element_reads)
qed

lemma quoted_nonempty: "pgQuoteArrayElement w \<noteq> []"
  by (auto simp: pgQuoteArrayElement_def needsQuoting_def)

lemma comma_list_nonempty: "comma_list (map txt es) = [] \<longleftrightarrow> es = [] \<or> (\<exists>e. es = [e] \<and> txt e = [])"
  by (cases "map txt es" rule: comma_list.cases) auto

text \<open>
  C38: Every array of optional texts that pgFormatArray writes is read back by pgParseArray as
  the same array, whatever quotes, backslashes, braces, commas or the word NULL its elements
  contain.
\<close>

theorem pgArray_roundtrip: "pgParseArray (pgFormatArray elements) = Some elements"
  unfolding pgParseArray_def pgFormatArray_def
proof (rule splitElements_roundtrip)
  show "elements = [] \<or> comma_list (map array_text elements) \<noteq> []"
    using quoted_nonempty by (auto simp: comma_list_nonempty array_text_def split: option.splits)
qed (simp_all add: array_text_reads)

text \<open>
  A composite survives when it is not a single null and no element that is printed without
  quotes has a parenthesis.
\<close>

definition composite_safe :: "string option list \<Rightarrow> bool" where
  "composite_safe es \<longleftrightarrow> es \<noteq> [None] \<and>
     (\<forall>w. Some w \<in> set es \<longrightarrow> needsQuoting w \<or> (CHR ''('' \<notin> set w \<and> CHR '')'' \<notin> set w))"

lemma composite_text_reads:
  assumes "\<And>w. e = Some w \<Longrightarrow> needsQuoting w \<or> (CHR ''('' \<notin> set w \<and> CHR '')'' \<notin> set w)"
  shows "reads_as (CHR ''('') (CHR '')'') True (composite_text e) e"
proof (cases e)
  case None
  then show ?thesis using reads_as_plain [of "[]" "CHR ''(''" "CHR '')''" True]
    by (simp add: composite_text_def flush_element_def)
next
  case (Some w)
  with assms show ?thesis by (auto simp: composite_text_def intro: element_reads)
qed

theorem pgComposite_roundtrip:
  assumes "composite_safe elements"
  shows "pgParseComposite (pgFormatComposite elements) = Some elements"
  unfolding pgParseComposite_def pgFormatComposite_def
proof (rule splitElements_roundtrip)
  show "\<forall>e \<in> set elements. reads_as (CHR ''('') (CHR '')'') True (composite_text e) e"
    using assms by (auto simp: composite_safe_def intro!: composite_text_reads)
  show "elements = [] \<or> comma_list (map composite_text elements) \<noteq> []"
    using assms quoted_nonempty
    by (auto simp: comma_list_nonempty composite_text_def composite_safe_def split: option.splits)
qed simp_all

text \<open>
  What the composite format loses: a parenthesis in an element is printed without quotes, so the
  text is rejected or two elements are read as one; a record of one null reads as an empty record.
\<close>

lemma pgComposite_loses_elements:
  "pgParseComposite (pgFormatComposite [Some '')'']) = None"
  "pgParseComposite (pgFormatComposite [Some ''('', Some '')'']) = Some [Some ''(,)'']"
  "pgParseComposite (pgFormatComposite [None]) = Some []"
  by code_simp+

section \<open>Round trip of geometric values\<close>

text \<open>A double whose text reads back as itself, which is what \<open>pgFormatDouble\<close> looks for.\<close>

definition exact :: "'d fp_ops \<Rightarrow> 'd \<Rightarrow> bool" where
  "exact fp v \<longleftrightarrow> pgParseDouble fp (pgFormatDouble fp v) = Some v"

definition exact_point :: "'d fp_ops \<Rightarrow> 'd PgPoint \<Rightarrow> bool" where
  "exact_point fp p \<longleftrightarrow> exact fp (pt_x p) \<and> exact fp (pt_y p)"

definition delimiter :: "char \<Rightarrow> bool" where
  "delimiter c \<longleftrightarrow> c \<in> {CHR '','', CHR '')'', CHR ''}'', CHR '']'', CHR ''>''}"

lemma delimiter_other:
  assumes "delimiter c"
  shows "\<not> pg_space c" "\<not> isdigit c" "c \<notin> {CHR ''+'', CHR ''-'', CHR ''.'', CHR ''e'', CHR ''E''}"
  using assms by (auto simp: delimiter_def pg_space_def isdigit_def)

lemma pg_sign_append:
  "delimiter c \<Longrightarrow> pg_sign (u @ c # rest) = (fst (pg_sign u), snd (pg_sign u) @ c # rest)"
  by (cases u) (auto simp: pg_sign_def dest: delimiter_other)

lemma pg_fraction_append:
  "delimiter c \<Longrightarrow> pg_fraction (u @ c # rest) = (fst (pg_fraction u), snd (pg_fraction u) @ c # rest)"
  by (cases u) (auto simp: pg_fraction_def takeWhile_append_stop dropWhile_append_stop dest: delimiter_other)

lemma pg_exponent_append:
  "delimiter c \<Longrightarrow> pg_exponent u = Some (e, r) \<Longrightarrow> pg_exponent (u @ c # rest) = Some (e, r @ c # rest)"
proof (cases u)
  case (Cons d ds)
  assume d: "delimiter c" and e: "pg_exponent u = Some (e, r)"
  obtain neg s1 where s1: "pg_sign ds = (neg, s1)" by fastforce
  show ?thesis using e delimiter_other(2) [OF d] s1 pg_sign_append [OF d, of ds rest]
    by (auto simp: Cons pg_exponent_def Let_def takeWhile_append_stop dropWhile_append_stop split: if_splits)
qed (auto simp: pg_exponent_def dest: delimiter_other)

lemma pg_number_append:
  assumes "delimiter c" "pg_number fp u = Some (v, r)"
  shows "pg_number fp (u @ c # rest) = Some (v, r @ c # rest)"
proof -
  note stop = delimiter_other [OF assms(1)]
  obtain neg s1 where s1: "pg_sign (pg_ws u) = (neg, s1)" by fastforce
  obtain fs s2 where s2: "pg_fraction (dropWhile isdigit s1) = (fs, s2)" by fastforce
  from assms(2) s1 s2 obtain ex where e: "pg_exponent s2 = Some (ex, r)"
    by (auto simp: pg_number_def Let_def split: if_splits option.splits)
  have "pg_ws (u @ c # rest) = pg_ws u @ c # rest" using stop by (simp add: pg_ws_def dropWhile_append_stop)
  moreover have "pg_sign (pg_ws u @ c # rest) = (neg, s1 @ c # rest)"
    using pg_sign_append [OF assms(1), of "pg_ws u" rest] s1 by simp
  moreover have "takeWhile isdigit (s1 @ c # rest) = takeWhile isdigit s1"
    "dropWhile isdigit (s1 @ c # rest) = dropWhile isdigit s1 @ c # rest"
    using stop by (simp_all add: takeWhile_append_stop dropWhile_append_stop)
  moreover have "pg_fraction (dropWhile isdigit s1 @ c # rest) = (fs, s2 @ c # rest)"
    using pg_fraction_append [OF assms(1), of "dropWhile isdigit s1" rest] s2 by simp
  moreover have "pg_exponent (s2 @ c # rest) = Some (ex, r @ c # rest)"
    by (rule pg_exponent_append [OF assms(1) e])
  ultimately show ?thesis using assms(2) s1 s2 e by (simp add: pg_number_def Let_def split: if_splits)
qed

lemma pg_ws_blank: "pg_ws r = [] \<Longrightarrow> pg_ws (r @ x) = pg_ws x"
  by (simp add: pg_ws_def)

lemma need_here [simp]: "\<not> pg_space c \<Longrightarrow> need c (c # rest) = Some rest"
  by (simp add: need_def pg_lit_def pg_ws_def)

lemma need_blank: "pg_ws r = [] \<Longrightarrow> need c (r @ x) = need c x"
  by (simp add: need_def pg_lit_def pg_ws_blank)

lemma number_then:
  assumes "exact fp v" "delimiter c"
  shows "Option.bind (pg_number fp (pgFormatDouble fp v @ c # rest)) (\<lambda>(x, s). Option.bind (need c s) (k x)) = k v rest"
proof -
  from assms(1) obtain r where r: "pg_number fp (pgFormatDouble fp v) = Some (v, r)" "pg_ws r = []"
    by (auto simp: exact_def pgParseDouble_def at_end_def pg_eof_def split: option.splits if_splits)
  show ?thesis using pg_number_append [OF assms(2) r(1), of rest] delimiter_other(1) [OF assms(2)]
    by (simp add: need_blank [OF r(2)])
qed

lemmas delimiters = delimiter_def pg_space_def

lemma point_text: "exact_point fp p \<Longrightarrow> pg_point fp (pgFormatPoint fp p @ rest) = Some (p, rest)"
  by (simp add: pg_point_def pgFormatPoint_def exact_point_def number_then delimiters)

lemma point_front: "\<exists>t. pgFormatPoint fp p = CHR ''('' # t"
  by (simp add: pgFormatPoint_def)

lemma pg_lit_here [simp]: "\<not> pg_space d \<Longrightarrow> pg_lit c (d # r) = (if d = c then (True, r) else (False, d # r))"
  by (simp add: pg_lit_def pg_ws_def)

lemma point_loop_text:
  assumes "ps \<noteq> []" "\<forall>p \<in> set ps. exact_point fp p" "close = CHR '')'' \<or> close = CHR '']''"
  shows "point_loop fp close out (comma_list (map (pgFormatPoint fp) ps) @ close # rest) = Some (out @ ps, rest)"
  using assms(1,2)
proof (induction ps arbitrary: out rule: induct_list012)
  case (2 p)
  then show ?case using assms(3)
    by (subst point_loop.simps) (auto simp: point_text pg_space_def)
next
  case (3 p q ps)
  have "point_loop fp close (out @ [p]) (comma_list (map (pgFormatPoint fp) (q # ps)) @ close # rest)
      = Some ((out @ [p]) @ q # ps, rest)" using 3 by simp
  then show ?case using "3.prems"
    by (subst point_loop.simps) (simp add: point_text pg_space_def)
qed simp

lemma points_text:
  assumes "\<forall>p \<in> set ps. exact_point fp p" "close = CHR '')'' \<or> close = CHR '']''" "\<not> pg_space opening"
  shows "pg_points fp opening close (opening # comma_list (map (pgFormatPoint fp) ps) @ close # rest) = Some (ps, rest)"
proof (cases ps)
  case (Cons p qs)
  obtain t where "comma_list (map (pgFormatPoint fp) ps) = CHR ''('' # t"
    using point_front [of fp p] Cons by (cases qs) auto
  moreover have "point_loop fp close [] (comma_list (map (pgFormatPoint fp) ps) @ close # rest) = Some ([] @ ps, rest)"
    by (rule point_loop_text) (use Cons assms in auto)
  ultimately show ?thesis using assms by (auto simp: pg_points_def pg_space_def)
qed (use assms in \<open>auto simp: pg_points_def pg_space_def\<close>)

theorem pgGeometry_roundtrip:
  assumes "\<forall>p \<in> {p1, p2} \<union> set ps. exact_point fp p" "exact fp a \<and> exact fp b \<and> exact fp c"
  shows "pgParsePoint fp (pgFormatPoint fp p1) = Some p1 \<and>
    pgParseLine fp (pgFormatLine fp \<lparr>ln_a = a, ln_b = b, ln_c = c\<rparr>) = Some \<lparr>ln_a = a, ln_b = b, ln_c = c\<rparr> \<and>
    pgParseLseg fp (pgFormatLseg fp \<lparr>sg_p1 = p1, sg_p2 = p2\<rparr>) = Some \<lparr>sg_p1 = p1, sg_p2 = p2\<rparr> \<and>
    pgParseBox fp (pgFormatBox fp \<lparr>bx_high = p1, bx_low = p2\<rparr>) = Some \<lparr>bx_high = p1, bx_low = p2\<rparr> \<and>
    pgParsePath fp (pgFormatPath fp \<lparr>pa_closed = closed, pa_points = ps\<rparr>) = Some \<lparr>pa_closed = closed, pa_points = ps\<rparr> \<and>
    pgParsePolygon fp (pgFormatPolygon fp \<lparr>po_points = ps\<rparr>) = Some \<lparr>po_points = ps\<rparr> \<and>
    pgParseCircle fp (pgFormatCircle fp \<lparr>ci_center = p1, ci_radius = a\<rparr>) = Some \<lparr>ci_center = p1, ci_radius = a\<rparr>"
proof -
  have e: "exact_point fp p1" "exact_point fp p2" "\<forall>p \<in> set ps. exact_point fp p" using assms(1) by auto
  have fin: "at_end (Some (x, [])) = Some x" for x :: 'x by (simp add: at_end_def pg_eof_def pg_ws_def)
  have p1: "pg_point fp (pgFormatPoint fp p1) = Some (p1, [])" and p2: "pg_point fp (pgFormatPoint fp p2) = Some (p2, [])"
    using point_text [OF e(1), of "[]"] point_text [OF e(2), of "[]"] by simp_all
  note texts = point_text [OF e(1)] point_text [OF e(2)] p1 p2 number_then delimiters fin
  have g1: "pgParsePoint fp (pgFormatPoint fp p1) = Some p1" by (simp add: pgParsePoint_def texts)
  have g2: "pgParseLine fp (pgFormatLine fp \<lparr>ln_a = a, ln_b = b, ln_c = c\<rparr>) = Some \<lparr>ln_a = a, ln_b = b, ln_c = c\<rparr>"
    using assms(2) by (simp add: pgParseLine_def pgFormatLine_def texts)
  have g3: "pgParseLseg fp (pgFormatLseg fp \<lparr>sg_p1 = p1, sg_p2 = p2\<rparr>) = Some \<lparr>sg_p1 = p1, sg_p2 = p2\<rparr>"
    by (simp add: pgParseLseg_def pgFormatLseg_def texts)
  have g4: "pgParseBox fp (pgFormatBox fp \<lparr>bx_high = p1, bx_low = p2\<rparr>) = Some \<lparr>bx_high = p1, bx_low = p2\<rparr>"
    by (simp add: pgParseBox_def pgFormatBox_def texts)
  have g5: "pgParseCircle fp (pgFormatCircle fp \<lparr>ci_center = p1, ci_radius = a\<rparr>) = Some \<lparr>ci_center = p1, ci_radius = a\<rparr>"
    using assms(2) by (simp add: pgParseCircle_def pgFormatCircle_def texts)
  have g6: "pgParsePolygon fp (pgFormatPolygon fp \<lparr>po_points = ps\<rparr>) = Some \<lparr>po_points = ps\<rparr>"
    using points_text [OF e(3), of "CHR '')''" "CHR ''(''" "[]"]
    by (simp add: pgParsePolygon_def pgFormatPolygon_def fin pg_space_def)
  have g7: "pgParsePath fp (pgFormatPath fp \<lparr>pa_closed = closed, pa_points = ps\<rparr>) = Some \<lparr>pa_closed = closed, pa_points = ps\<rparr>"
    using points_text [OF e(3), of "CHR '')''" "CHR ''(''" "[]"] points_text [OF e(3), of "CHR '']''" "CHR ''[''" "[]"]
    by (cases closed) (simp_all add: pgParsePath_def pgFormatPath_def fin pg_ws_def pg_space_def)
  show ?thesis using g1 g2 g3 g4 g5 g6 g7 by blast
qed

text \<open>The texts of the values that are not numbers are not accepted by the parser.\<close>

lemma non_numbers_not_read_back:
  assumes "fp_isnan fp v \<or> fp_isinf fp v"
  shows "pgParseDouble fp (pgFormatDouble fp v) = None"
  using assms
  by (auto simp: pgFormatDouble_def pgParseDouble_def at_end_def pg_number_def pg_ws_def pg_space_def
      pg_sign_def pg_fraction_def isdigit_def)

section \<open>Witnesses\<close>

text \<open>An arithmetic on integers that prints decimal digits.\<close>

definition integer_ops :: "int fp_ops" where
  "integer_ops = \<lparr>fp_of = int, fp_add = (+), fp_mul = (*), fp_div = (div), fp_neg = uminus,
     fp_pow10 = (\<lambda>e. 10 ^ nat e), fp_eq = (=), fp_isnan = (\<lambda>_. False), fp_isinf = (\<lambda>_. False),
     fp_pos = (\<lambda>v. v > 0), fp_printg = (\<lambda>_ v. to_string_int v)\<rparr>"

lemma sample_exact: "exact integer_ops 12" "exact integer_ops (- 7)"
  by code_simp+

theorem pgGeometry_roundtrip_witness:
  "pgParsePath integer_ops (pgFormatPath integer_ops
     \<lparr>pa_closed = True, pa_points = [\<lparr>pt_x = 12, pt_y = - 7\<rparr>, \<lparr>pt_x = - 7, pt_y = 12\<rparr>]\<rparr>)
   = Some \<lparr>pa_closed = True, pa_points = [\<lparr>pt_x = 12, pt_y = - 7\<rparr>, \<lparr>pt_x = - 7, pt_y = 12\<rparr>]\<rparr>"
  using pgGeometry_roundtrip [of "\<lparr>pt_x = 12, pt_y = - 7\<rparr>" "\<lparr>pt_x = - 7, pt_y = 12\<rparr>"
      "[\<lparr>pt_x = 12, pt_y = - 7\<rparr>, \<lparr>pt_x = - 7, pt_y = 12\<rparr>]" integer_ops 12 12 12 True]
  by (simp add: exact_point_def sample_exact)

theorem pgComposite_roundtrip_witness:
  "pgParseComposite (pgFormatComposite [Some ''a,(b'', None, Some ''null'', Some '''']) =
     Some [Some ''a,(b'', None, Some ''null'', Some '''']"
proof (rule pgComposite_roundtrip)
  have "needsQuoting ''a,(b''" by code_simp
  then show "composite_safe [Some ''a,(b'', None, Some ''null'', Some '''']"
    by (simp add: composite_safe_def)
qed

end
