(* ===== verification/Values.thy ===== *)
theory Values
  imports Types SqlDialect
begin

text \<open>
  Conversions of values: the functions of \<^verbatim>\<open>src/common/types.cpp\<close> (its error classification is in
  \<^verbatim>\<open>Types\<close>): time stamps and their text, the rendering of values for logs and as literals,
  identifier quoting, generated keys, streamed parameters and parameter signatures.

  A \<^verbatim>\<open>Timestamp\<close> is its count of nanoseconds (the resolution of \<^verbatim>\<open>system_clock\<close> in libstdc++). What
  depends on the machine is an argument: \<open>time_zone\<close> holds the C library's conversions between
  seconds and broken-down time, \<open>render_env\<close> also the text of a double. A stream is the list of
  blocks its read function returns before it returns nothing.
\<close>

section \<open>Calendar\<close>

definition leap :: "int \<Rightarrow> bool" where
  "leap y \<longleftrightarrow> y mod 4 = 0 \<and> (y mod 100 \<noteq> 0 \<or> y mod 400 = 0)"

definition monthDays :: "int \<Rightarrow> int \<Rightarrow> int" where
  "monthDays y m = [31, 28, 31, 30, 31, 30, 31, 31, 30, 31, 30, 31] ! nat (m - 1) + (if m = 2 \<and> leap y then 1 else 0)"

text \<open>
  Days since 1970-01-01 of a date of the proleptic Gregorian calendar. The years are not negative
  here (they are read from four digits), except year 0 minus one, so the division by 400 of
  a negative year is written as in the source.
\<close>

definition daysFromCivil :: "int \<Rightarrow> int \<Rightarrow> int \<Rightarrow> int" where
  "daysFromCivil y m d =
     (let yy = (if m \<le> 2 then y - 1 else y);
          era = (if yy \<ge> 0 then yy div 400 else - ((399 - yy) div 400));
          yoe = yy - era * 400;
          doy = (153 * (if m > 2 then m - 3 else m + 9) + 2) div 5 + d - 1;
          doe = yoe * 365 + yoe div 4 - yoe div 100 + doy
      in era * 146097 + doe - 719468)"

definition valid_date :: "int \<Rightarrow> int \<Rightarrow> int \<Rightarrow> bool" where
  "valid_date y m d \<longleftrightarrow> 1 \<le> m \<and> m \<le> 12 \<and> 1 \<le> d \<and> d \<le> monthDays y m"

section \<open>Time stamps\<close>

record tm =
  tm_year :: int
  tm_mon :: int
  tm_mday :: int
  tm_hour :: int
  tm_min :: int
  tm_sec :: int

record time_zone =
  gmtime :: "int \<Rightarrow> tm"
  localtime :: "int \<Rightarrow> tm"
  mktime :: "tm \<Rightarrow> int"

definition toTm :: "time_zone \<Rightarrow> int \<Rightarrow> bool \<Rightarrow> tm \<times> int" where
  "toTm tz t utc = (let secs = t div 1000000000 in
     (if utc then gmtime tz secs else localtime tz secs, t - secs * 1000000000))"

text \<open>A number with at least \<open>w\<close> digits, as \<^verbatim>\<open>strftime\<close> and \<^verbatim>\<open>setfill('0')\<close> print it.\<close>

definition padded :: "nat \<Rightarrow> int \<Rightarrow> string" where
  "padded w n = (let s = to_string_int n in replicate (w - length s) CHR ''0'' @ s)"

definition strftime :: "tm \<Rightarrow> string" where
  "strftime t = to_string_int (tm_year t + 1900) @ ''-'' @ padded 2 (tm_mon t + 1) @ ''-'' @ padded 2 (tm_mday t)
     @ '' '' @ padded 2 (tm_hour t) @ '':'' @ padded 2 (tm_min t) @ '':'' @ padded 2 (tm_sec t)"

definition formatTimestamp :: "time_zone \<Rightarrow> int \<Rightarrow> bool \<Rightarrow> bool \<Rightarrow> string" where
  "formatTimestamp tz t withMillis utc =
     (let (tm, fracNs) = toTm tz t utc in
      strftime tm @ (if withMillis then ''.'' @ padded 3 ((fracNs div 1000000) mod 1000) else []))"

definition timestampToString :: "time_zone \<Rightarrow> int \<Rightarrow> string" where
  "timestampToString tz t = formatTimestamp tz t False False"

definition timestampToStringMs :: "time_zone \<Rightarrow> int \<Rightarrow> string" where
  "timestampToStringMs tz t = formatTimestamp tz t True False"

definition timestampToUtcStringMs :: "time_zone \<Rightarrow> int \<Rightarrow> string" where
  "timestampToUtcStringMs tz t = formatTimestamp tz t True True @ ''+00''"

text \<open>Exactly \<open>w\<close> digits.\<close>

definition readInt :: "nat \<Rightarrow> string \<Rightarrow> (int \<times> string) option" where
  "readInt w s =
     (if length s < w \<or> \<not> list_all isdigit (take w s) then None
      else Some (int (dec_value (take w s)), drop w s))"

definition expect :: "char \<Rightarrow> string \<Rightarrow> string option" where
  "expect c s = (case s of [] \<Rightarrow> None | d # r \<Rightarrow> if d = c then Some r else None)"

definition read_date :: "string \<Rightarrow> ((int \<times> int \<times> int) \<times> string) option" where
  "read_date s =
     Option.bind (readInt 4 s) (\<lambda>(y, s).
     Option.bind (expect CHR ''-'' s) (\<lambda>s.
     Option.bind (readInt 2 s) (\<lambda>(mo, s).
     Option.bind (expect CHR ''-'' s) (\<lambda>s.
     Option.bind (readInt 2 s) (\<lambda>(d, s). Some ((y, mo, d), s))))))"

definition read_time :: "string \<Rightarrow> ((int \<times> int \<times> int) \<times> string) option" where
  "read_time s =
     (case s of [] \<Rightarrow> Some ((0, 0, 0), [])
      | c # r \<Rightarrow>
          if c = SP \<or> c = CHR ''T'' then
            Option.bind (readInt 2 r) (\<lambda>(h, s).
            Option.bind (expect CHR '':'' s) (\<lambda>s.
            Option.bind (readInt 2 s) (\<lambda>(mi, s).
            Option.bind (expect CHR '':'' s) (\<lambda>s.
            Option.bind (readInt 2 s) (\<lambda>(se, s). Some ((h, mi, se), s))))))
          else Some ((0, 0, 0), s))"

text \<open>Nanoseconds: the first nine digits after the point, filled up with zeros.\<close>

definition frac_ns :: "string \<Rightarrow> int" where
  "frac_ns ds = int (dec_value (take 9 ds)) * 10 ^ (9 - min 9 (length ds))"

definition read_frac :: "string \<Rightarrow> int \<times> string" where
  "read_frac s =
     (case s of [] \<Rightarrow> (0, [])
      | c # r \<Rightarrow> if c = CHR ''.'' then (frac_ns (takeWhile isdigit r), dropWhile isdigit r) else (0, s))"

text \<open>The zone: \<^term>\<open>Some None\<close> without one, \<^term>\<open>Some (Some k)\<close> with an offset of \<open>k\<close> seconds.\<close>

definition read_zone :: "string \<Rightarrow> (int option \<times> string) option" where
  "read_zone s =
     (case s of [] \<Rightarrow> Some (None, [])
      | c # r \<Rightarrow>
          if c = CHR ''Z'' \<or> c = CHR ''z'' then Some (Some 0, r)
          else if c = CHR ''+'' \<or> c = CHR ''-'' then
            Option.bind (readInt 2 r) (\<lambda>(oh, s1).
              let s2 = (if prefix '':'' s1 then tl s1 else s1) in
              Option.bind (if s2 = [] then Some (0, []) else readInt 2 s2) (\<lambda>(om, s3).
                if oh > 23 \<or> om > 59 then None
                else Some (Some ((if c = CHR ''+'' then 1 else - 1) * (oh * 3600 + om * 60)), s3)))
          else Some (None, s))"

definition tryParseTimestamp :: "time_zone \<Rightarrow> string \<Rightarrow> int option" where
  "tryParseTimestamp tz text =
     Option.bind (read_date text) (\<lambda>((y, mo, d), s).
     Option.bind (read_time s) (\<lambda>((h, mi, se), s).
       let (fracNs, s) = read_frac s in
       Option.bind (read_zone s) (\<lambda>(zone, s).
         if s \<noteq> [] then None
         else if mo < 1 \<or> mo > 12 \<or> d < 1 \<or> d > monthDays y mo \<or> h < 0 \<or> h > 23 \<or> mi < 0 \<or> mi > 59
             \<or> se < 0 \<or> se > 59 \<or> y < 1900 then None
         else (case zone of
             Some offsetSeconds \<Rightarrow>
               Some ((daysFromCivil y mo d * 86400 + h * 3600 + mi * 60 + se - offsetSeconds) * 1000000000 + fracNs)
           | None \<Rightarrow>
               (let tt = mktime tz \<lparr>tm_year = y - 1900, tm_mon = mo - 1, tm_mday = d, tm_hour = h, tm_min = mi, tm_sec = se\<rparr>
                in if tt = - 1 then None else Some (tt * 1000000000 + fracNs))))))"

section \<open>Rendering\<close>

record render_env =
  re_tz :: time_zone
  print17 :: "64 word \<Rightarrow> string"

definition kHexUpper :: "string" where
  "kHexUpper = ''0123456789ABCDEF''"

definition hex_byte :: "8 word \<Rightarrow> string" where
  "hex_byte x = [kHexUpper ! (unat x div 16), kHexUpper ! (unat x mod 16)]"

definition appendHex :: "8 word list \<Rightarrow> string" where
  "appendHex b = concat (map hex_byte b)"

fun valueToString :: "render_env \<Rightarrow> Value \<Rightarrow> string" where
  "valueToString e VNull = ''NULL''"
| "valueToString e (VBool b) = (if b then ''true'' else ''false'')"
| "valueToString e (VInt64 x) = to_string_int (sint x)"
| "valueToString e (VUInt64 x) = to_string (unat x)"
| "valueToString e (VDouble x) = print17 e x"
| "valueToString e (VDecimal s) = s"
| "valueToString e (VString s) = s"
| "valueToString e (VDate s) = s"
| "valueToString e (VTime s) = s"
| "valueToString e (VTimestamp t) = timestampToStringMs (re_tz e) t"
| "valueToString e (VUuid s) = s"
| "valueToString e (VJson s) = s"
| "valueToString e (VIntervalYearMonth s) = s"
| "valueToString e (VIntervalDaySecond s) = s"
| "valueToString e (VBlob b) = ''blob['' @ to_string (length b) @ '']:'' @ appendHex (take 16 b)
     @ (if length b > 16 then ''...'' else [])"
| "valueToString e (VArray vs) = ''['' @ comma_join (map (valueToString e) vs) @ '']''"
| "valueToString e (VComposite fs) = ''('' @ comma_join (map (\<lambda>(n, v). n @ ''='' @ valueToString e v) fs) @ '')''"
| "valueToString e (VTypedArray t vs) = t @ ''['' @ comma_join (map (valueToString e) vs) @ '']''"
| "valueToString e (VTypedComposite t fs) = t @ ''('' @ comma_join (map (\<lambda>(n, v). n @ ''='' @ valueToString e v) fs) @ '')''"

text \<open>\<^verbatim>\<open>std::isfinite\<close> of an IEEE 754 bit pattern: the exponent is not all ones.\<close>

definition isfinite :: "64 word \<Rightarrow> bool" where
  "isfinite x \<longleftrightarrow> (unat x div 2 ^ 52) mod 2 ^ 11 \<noteq> 2047"

definition quoteText :: "string \<Rightarrow> string" where
  "quoteText text = [SQ] @ concat (map (\<lambda>c. if c = SQ then [SQ, SQ] else [c]) text) @ [SQ]"

fun escapeLiteralGeneric :: "render_env \<Rightarrow> Value \<Rightarrow> string" where
  "escapeLiteralGeneric e VNull = ''NULL''"
| "escapeLiteralGeneric e (VBool b) = (if b then ''TRUE'' else ''FALSE'')"
| "escapeLiteralGeneric e (VInt64 x) = to_string_int (sint x)"
| "escapeLiteralGeneric e (VUInt64 x) = to_string (unat x)"
| "escapeLiteralGeneric e (VDouble x) = (if isfinite x then print17 e x else ''NULL'')"
| "escapeLiteralGeneric e (VTimestamp t) = [SQ] @ timestampToStringMs (re_tz e) t @ [SQ]"
| "escapeLiteralGeneric e (VDecimal s) = quoteText s"
| "escapeLiteralGeneric e (VDate s) = quoteText s"
| "escapeLiteralGeneric e (VTime s) = quoteText s"
| "escapeLiteralGeneric e (VUuid s) = quoteText s"
| "escapeLiteralGeneric e (VJson s) = quoteText s"
| "escapeLiteralGeneric e (VIntervalYearMonth s) = quoteText s"
| "escapeLiteralGeneric e (VIntervalDaySecond s) = quoteText s"
| "escapeLiteralGeneric e (VBlob b) = ''X'' @ [SQ] @ appendHex b @ [SQ]"
| "escapeLiteralGeneric e (VArray vs) = ''ARRAY['' @ comma_join (map (escapeLiteralGeneric e) vs) @ '']''"
| "escapeLiteralGeneric e (VComposite fs) = ''ROW('' @ comma_join (map (\<lambda>(n, v). escapeLiteralGeneric e v) fs) @ '')''"
| "escapeLiteralGeneric e (VTypedArray t vs) = t @ ''('' @ comma_join (map (escapeLiteralGeneric e) vs) @ '')''"
| "escapeLiteralGeneric e (VTypedComposite t fs) = t @ ''('' @ comma_join (map (\<lambda>(n, v). escapeLiteralGeneric e v) fs) @ '')''"
| "escapeLiteralGeneric e (VString s) = quoteText s"

definition quoteIdentifier :: "string \<Rightarrow> string" where
  "quoteIdentifier ident = [DQ] @ concat (map (\<lambda>c. if c = DQ then [DQ, DQ] else [c]) ident) @ [DQ]"

definition errorCodeToString :: "ErrorCode \<Rightarrow> string" where
  "errorCodeToString c =
     (case c of
        Ok \<Rightarrow> ''Ok'' | ConfigError \<Rightarrow> ''ConfigError'' | ConnectionFailed \<Rightarrow> ''ConnectionFailed''
      | QueryError \<Rightarrow> ''QueryError'' | QueryTimeout \<Rightarrow> ''QueryTimeout'' | Cancelled \<Rightarrow> ''Cancelled''
      | ConstraintViolation \<Rightarrow> ''ConstraintViolation'' | Deadlock \<Rightarrow> ''Deadlock'' | PingFailed \<Rightarrow> ''PingFailed''
      | TxError \<Rightarrow> ''TxError'' | PoolExhausted \<Rightarrow> ''PoolExhausted'' | PoolClosed \<Rightarrow> ''PoolClosed''
      | CircuitOpen \<Rightarrow> ''CircuitOpen'' | NotConnected \<Rightarrow> ''NotConnected'' | DriverDisabled \<Rightarrow> ''DriverDisabled''
      | UnknownDriver \<Rightarrow> ''UnknownDriver'' | NotSupported \<Rightarrow> ''NotSupported'' | RateLimited \<Rightarrow> ''RateLimited''
      | SqlBlocked \<Rightarrow> ''SqlBlocked'' | Buffered \<Rightarrow> ''Buffered'' | CursorClosed \<Rightarrow> ''CursorClosed''
      | CursorLimit \<Rightarrow> ''CursorLimit'' | CursorError \<Rightarrow> ''CursorError'' | UnknownError \<Rightarrow> ''Unknown''
      | Overloaded \<Rightarrow> ''Overloaded'' | MappingError \<Rightarrow> ''MappingError'' | IoError \<Rightarrow> ''IoError''
      | NotInitialized \<Rightarrow> ''NotInitialized'' | AlreadyInitialized \<Rightarrow> ''AlreadyInitialized''
      | ClientClosed \<Rightarrow> ''ClientClosed'')"

section \<open>Keys and parameters\<close>

text \<open>\<^verbatim>\<open>std::stoll\<close> in base 10: \<^term>\<open>None\<close> when it throws.\<close>

definition stoll :: "string \<Rightarrow> int option" where
  "stoll s0 =
     (let s1 = dropWhile isspace s0;
          neg = prefix ''-'' s1;
          s2 = (if neg \<or> prefix ''+'' s1 then tl s1 else s1);
          ds = takeWhile isdigit s2;
          v = (if neg then - int (dec_value ds) else int (dec_value ds))
      in if ds = [] \<or> v < - (2 ^ 63) \<or> v \<ge> 2 ^ 63 then None else Some v)"

definition lastInsertId :: "ResultSet \<Rightarrow> int" where
  "lastInsertId rs =
     (case rs_rows rs of
        [] \<Rightarrow> 0
      | firstRow # _ \<Rightarrow>
          (case (if rs_fields rs \<noteq> [] then Some (hd (rs_fields rs))
                 else if firstRow = [] then None else Some (fst (hd firstRow))) of
             None \<Rightarrow> 0
           | Some column \<Rightarrow>
               (case row_at firstRow column of
                  VInt64 x \<Rightarrow> sint x
                | VUInt64 x \<Rightarrow> if unat x \<le> 2 ^ 63 - 1 then int (unat x) else 0
                | VString s \<Rightarrow> (case stoll s of Some v \<Rightarrow> v | None \<Rightarrow> 0)
                | _ \<Rightarrow> 0)))"

datatype StreamParam = SValue Value | SStream "8 word list list"

text \<open>The reads of a source up to the first that returns nothing.\<close>

fun drain :: "8 word list list \<Rightarrow> 8 word list" where
  "drain [] = []"
| "drain (b # bs) = (if b = [] then [] else b @ drain bs)"

definition streamParamsToParams :: "StreamParam list \<Rightarrow> Status \<times> Params" where
  "streamParamsToParams ps = (OK, map (\<lambda>p. case p of SStream bs \<Rightarrow> VBlob (drain bs) | SValue v \<Rightarrow> v) ps)"

definition signature_char :: "Value \<Rightarrow> char" where
  "signature_char v =
     (case v of VNull \<Rightarrow> CHR ''n'' | VBool _ \<Rightarrow> CHR ''b'' | VInt64 _ \<Rightarrow> CHR ''i'' | VUInt64 _ \<Rightarrow> CHR ''u''
      | VDouble _ \<Rightarrow> CHR ''d'' | VDecimal _ \<Rightarrow> CHR ''m'' | VString _ \<Rightarrow> CHR ''s'' | VDate _ \<Rightarrow> CHR ''a''
      | VTime _ \<Rightarrow> CHR ''o'' | VTimestamp _ \<Rightarrow> CHR ''t'' | VUuid _ \<Rightarrow> CHR ''g'' | VJson _ \<Rightarrow> CHR ''j''
      | VIntervalYearMonth _ \<Rightarrow> CHR ''y'' | VIntervalDaySecond _ \<Rightarrow> CHR ''v'' | VArray _ \<Rightarrow> CHR ''A''
      | VComposite _ \<Rightarrow> CHR ''C'' | VTypedArray _ _ \<Rightarrow> CHR ''Y'' | VTypedComposite _ _ \<Rightarrow> CHR ''O''
      | VBlob _ \<Rightarrow> CHR ''x'')"

definition paramTypeSignature :: "Params \<Rightarrow> string" where
  "paramTypeSignature ps = map signature_char ps"

section \<open>The calendar counts days\<close>

definition next_day :: "int \<Rightarrow> int \<Rightarrow> int \<Rightarrow> int \<times> int \<times> int" where
  "next_day y m d =
     (if d < monthDays y m then (y, m, d + 1) else if m < 12 then (y, m + 1, 1) else (y + 1, 1, 1))"

text \<open>The days of the years before year \<open>n\<close>, counted from March.\<close>

definition whole_years :: "int \<Rightarrow> int" where
  "whole_years n = 365 * n + n div 4 - n div 100 + n div 400"

lemma div_period: "(r + e * (p * k)) div k = r div k + e * p" if "0 < k" for r e p k :: int
  using div_mult_self1 [of k r "e * p"] that by (simp add: mult.assoc)

lemma era_days:
  assumes "n = r + e * 400"
  shows "e * 146097 + (r * 365 + r div 4 - r div 100) = whole_years n - (r div 400)"
  using div_period [of 4 r e 100] div_period [of 100 r e 4] div_period [of 400 r e 1] assms
  by (simp add: whole_years_def)

lemma daysFromCivil_closed:
  assumes "1 \<le> y" "1 \<le> m" "m \<le> 12"
  shows "daysFromCivil y m d =
    whole_years (if m \<le> 2 then y - 1 else y) + (153 * (if m > 2 then m - 3 else m + 9) + 2) div 5 + d - 719469"
proof -
  define n e r where "n = (if m \<le> 2 then y - 1 else y)" and "e = n div 400" and "r = n - n div 400 * 400"
  have "0 \<le> n" using assms by (simp add: n_def)
  have "n = r + e * 400" by (simp add: e_def r_def)
  moreover have "r div 400 = 0" unfolding r_def by (simp add: minus_div_mult_eq_mod)
  ultimately have "e * 146097 + (r * 365 + r div 4 - r div 100) = whole_years n" using era_days [of n r e] by linarith
  moreover have "daysFromCivil y m d = e * 146097 + ((r * 365 + r div 4 - r div 100)
      + ((153 * (if m > 2 then m - 3 else m + 9) + 2) div 5 + d - 1)) - 719468"
    using \<open>0 \<le> n\<close> unfolding daysFromCivil_def Let_def e_def r_def n_def by (simp only: if_True if_False split: if_split)
  ultimately show ?thesis unfolding n_def [symmetric] by linarith
qed

lemma div_step:
  fixes n k :: int
  assumes "0 < k"
  shows "n div k = (n - 1) div k + (if n mod k = 0 then 1 else 0)"
proof (cases "n mod k = 0")
  case True
  then have "n - 1 = k * (n div k - 1) + (k - 1)" by (simp add: algebra_simps) (metis add.right_neutral mult.commute mult_div_mod_eq)
  then have "(n - 1) div k = n div k - 1" by (rule int_div_pos_eq) (use assms in auto)
  with True show ?thesis by simp
next
  case False
  have "n - 1 = k * (n div k) + (n mod k - 1)" by simp
  then have "(n - 1) div k = n div k"
    by (rule int_div_pos_eq) (use assms False pos_mod_bound [of k n] pos_mod_sign [of k n] in linarith)+
  with False show ?thesis by simp
qed

lemma leap_count:
  fixes a b c n :: int
  assumes "a = a' + (if P4 then 1 else 0)" "b = b' + (if P100 then 1 else 0)" "c = c' + (if P400 then 1 else 0)"
    and "P400 \<longrightarrow> P100" "P100 \<longrightarrow> P4"
  shows "365 * n + a - b + c = 365 * (n - 1) + a' - b' + c' + (if P4 \<and> (\<not> P100 \<or> P400) then 366 else 365)"
  using assms by (cases P4; cases P100; cases P400) simp_all

lemma year_step: "whole_years n = whole_years (n - 1) + (if leap n then 366 else 365)"
  unfolding whole_years_def leap_def
proof (rule leap_count)
  show "n mod 400 = 0 \<longrightarrow> n mod 100 = 0" "n mod 100 = 0 \<longrightarrow> n mod 4 = 0"
    using dvd_trans [of 100 400 n] dvd_trans [of 4 100 n] by (simp_all add: mod_eq_0_iff_dvd)
qed (rule div_step; simp)+

lemma twelve_months: "1 \<le> m \<Longrightarrow> m \<le> 12 \<Longrightarrow> m \<in> {1, 2, 3, 4, 5, 6, 7, 8, 9, 10, 11, 12}" for m :: int
  by simp presburger

theorem daysFromCivil_counts_days:
  assumes "1 \<le> y" "valid_date y m d"
  shows "(case next_day y m d of (y', m', d') \<Rightarrow> daysFromCivil y' m' d') = daysFromCivil y m d + 1 \<and>
         daysFromCivil 1970 1 1 = 0"
proof -
  have m: "m \<in> {1, 2, 3, 4, 5, 6, 7, 8, 9, 10, 11, 12}" using assms(2) twelve_months by (simp add: valid_date_def)
  have d: "d \<le> monthDays y m" using assms(2) by (simp add: valid_date_def)
  have "daysFromCivil 1970 1 1 = 0" by code_simp
  moreover have "(case next_day y m d of (y', m', d') \<Rightarrow> daysFromCivil y' m' d') = daysFromCivil y m d + 1"
  proof (cases "d < monthDays y m")
    case True
    then show ?thesis using assms m by (auto simp: next_day_def daysFromCivil_closed valid_date_def)
  next
    case False
    with d have "d = monthDays y m" by simp
    then show ?thesis using assms(1) m year_step [of y]
      by (auto simp: next_day_def daysFromCivil_closed monthDays_def Let_def eval_nat_numeral)
  qed
  ultimately show ?thesis by simp
qed

section \<open>Time stamps survive their text\<close>

text \<open>
  What POSIX says of \<^verbatim>\<open>gmtime\<close>: it breaks the seconds down into a date of the Gregorian calendar
  and a time of day.
\<close>

definition gmtime_at :: "time_zone \<Rightarrow> int \<Rightarrow> bool" where
  "gmtime_at tz secs \<longleftrightarrow>
     (let t = gmtime tz secs in
      valid_date (tm_year t + 1900) (tm_mon t + 1) (tm_mday t) \<and>
      0 \<le> tm_hour t \<and> tm_hour t \<le> 23 \<and> 0 \<le> tm_min t \<and> tm_min t \<le> 59 \<and> 0 \<le> tm_sec t \<and> tm_sec t \<le> 59 \<and>
      daysFromCivil (tm_year t + 1900) (tm_mon t + 1) (tm_mday t) * 86400 + tm_hour t * 3600 + tm_min t * 60 + tm_sec t = secs)"

lemma to_string_length: "0 < w \<Longrightarrow> n < 10 ^ w \<Longrightarrow> length (to_string n) \<le> w"
proof (induction w arbitrary: n)
  case (Suc w)
  show ?case
  proof (cases "n < 10")
    case True
    then show ?thesis by (simp add: to_string_def dec_digits.simps)
  next
    case False
    then have "0 < w" using Suc.prems by (cases w) auto
    moreover have "n div 10 < 10 ^ w" using Suc.prems by (simp add: less_mult_imp_div_less mult.commute)
    ultimately have "length (to_string (n div 10)) \<le> w" by (rule Suc.IH)
    with False show ?thesis by (simp add: to_string_def dec_digits.simps [of n])
  qed
qed simp

lemma dec_value_zeros: "dec_value (replicate k CHR ''0'' @ s) = dec_value s"
  by (induction k) (simp_all add: dec_value_def)

lemma padded_reads:
  assumes "0 \<le> n" "n < 10 ^ w" "0 < w"
  shows "readInt w (padded w n @ rest) = Some (n, rest)"
proof -
  let ?p = "padded w n"
  have p: "?p = replicate (w - length (to_string (nat n))) CHR ''0'' @ to_string (nat n)"
    using assms(1) by (simp add: padded_def to_string_int_def Let_def)
  have "nat n < 10 ^ w" using assms by (simp add: nat_less_iff)
  then have "length ?p = w" using to_string_length [OF assms(3)] by (simp add: p)
  moreover have "list_all isdigit ?p"
    using to_string_digits [of "nat n"] by (auto simp: p list_all_iff isdigit_def)
  moreover have "int (dec_value ?p) = n" using assms(1) by (simp add: p dec_value_zeros)
  ultimately show ?thesis by (simp add: readInt_def)
qed

lemma to_string_long: "10 ^ w \<le> n \<Longrightarrow> w < length (to_string n)"
proof (induction w arbitrary: n)
  case 0
  show ?case using to_string_digit_front [of n] by auto
next
  case (Suc w)
  then have "10 ^ w \<le> n div 10" by (simp add: less_eq_div_iff_mult_less_eq mult.commute)
  moreover have "1 \<le> (10 :: nat) ^ w" by simp
  then have "\<not> n < 10" using Suc.prems unfolding power_Suc by linarith
  ultimately show ?case using Suc.IH [of "n div 10"] by (simp add: to_string_def dec_digits.simps [of n])
qed

lemma year_padded: "1000 \<le> y \<Longrightarrow> y < 10000 \<Longrightarrow> to_string_int y = padded 4 y"
proof -
  assume y: "1000 \<le> y" "y < 10000"
  then have "length (to_string (nat y)) = 4"
    using to_string_long [of 3 "nat y"] to_string_length [of 4 "nat y"] by (simp add: nat_less_iff le_nat_iff)
  then show ?thesis using y by (simp add: padded_def to_string_int_def)
qed

lemma frac_millis:
  assumes "0 \<le> ms" "ms < 1000"
  shows "read_frac (''.'' @ padded 3 ms @ ''+00'') = (ms * 1000000, ''+00'')"
proof -
  have r: "readInt 3 (padded 3 ms) = Some (ms, [])" using padded_reads [of ms 3 "[]"] assms by simp
  then have l: "length (padded 3 ms) = 3" "list_all isdigit (padded 3 ms)" "int (dec_value (padded 3 ms)) = ms"
    by (auto simp: readInt_def split: if_splits)
  then have "takeWhile isdigit (padded 3 ms @ ''+00'') = padded 3 ms" "dropWhile isdigit (padded 3 ms @ ''+00'') = ''+00''"
    by (auto simp: list_all_iff isdigit_def)
  then show ?thesis using l by (simp add: read_frac_def frac_ns_def)
qed

lemma valid_date_bounds:
  assumes "valid_date y m d"
  shows "d < 100" "0 \<le> m" "m < 100" "0 \<le> d"
proof -
  have "m \<in> {1, 2, 3, 4, 5, 6, 7, 8, 9, 10, 11, 12}" using assms twelve_months by (simp add: valid_date_def)
  then have "monthDays y m \<le> 31" by (auto simp: monthDays_def eval_nat_numeral)
  then show "d < 100" "0 \<le> m" "m < 100" "0 \<le> d" using assms by (auto simp: valid_date_def)
qed

lemma whole_millis:
  "t - t mod 1000000 = t div 1000000000 * 1000000000 + (t mod 1000000000 div 1000000) mod 1000 * 1000000" for t :: int
proof -
  define r m where "r = t mod 1000000" and "m = t div 1000000 mod 1000"
  have r: "0 \<le> r" "r < 1000000" and m: "0 \<le> m" "m < 1000" by (simp_all add: r_def m_def)
  have f: "t mod 1000000000 = 1000000 * m + r"
    using zmod_zmult2_eq [of 1000 t 1000000] by (simp add: r_def m_def)
  have "(1000000 * m + r) div 1000000 = m" by (rule int_div_pos_eq [of _ _ _ r]) (use r in simp_all)
  then have "(t mod 1000000000 div 1000000) mod 1000 = m" using f m by simp
  moreover have "t = t div 1000000000 * 1000000000 + (1000000 * m + r)"
    using div_mult_mod_eq [of t 1000000000] f by simp
  ultimately show ?thesis by (simp flip: r_def)
qed

text \<open>
  A time of the years 1900 to 9999 printed in UTC with milliseconds is parsed back to the same
  instant, cut to milliseconds, provided gmtime gives the calendar date of that instant.
\<close>

theorem timestamp_utc_roundtrip:
  assumes "gmtime_at tz (t div 1000000000)" "1900 \<le> tm_year (gmtime tz (t div 1000000000)) + 1900"
    and "tm_year (gmtime tz (t div 1000000000)) + 1900 \<le> 9999"
  shows "tryParseTimestamp tz (timestampToUtcStringMs tz t) = Some (t - t mod 1000000)"
proof -
  define g where "g = gmtime tz (t div 1000000000)"
  define y mo where "y = tm_year g + 1900" and "mo = tm_mon g + 1"
  define f where "f = t mod 1000000000"
  have g: "valid_date y mo (tm_mday g)" "0 \<le> tm_hour g" "tm_hour g \<le> 23" "0 \<le> tm_min g" "tm_min g \<le> 59"
    "0 \<le> tm_sec g" "tm_sec g \<le> 59"
    "daysFromCivil y mo (tm_mday g) * 86400 + tm_hour g * 3600 + tm_min g * 60 + tm_sec g = t div 1000000000"
    using assms(1) by (auto simp: gmtime_at_def Let_def g_def y_def mo_def)
  have y: "1900 \<le> y" "y \<le> 9999" using assms by (simp_all add: y_def g_def)
  note b = valid_date_bounds [OF g(1)]
  have ms: "0 \<le> (f div 1000000) mod 1000" "(f div 1000000) mod 1000 < 1000" by simp_all
  have rendered: "timestampToUtcStringMs tz t = padded 4 y @ ''-'' @ padded 2 mo @ ''-'' @ padded 2 (tm_mday g) @ '' ''
      @ padded 2 (tm_hour g) @ '':'' @ padded 2 (tm_min g) @ '':'' @ padded 2 (tm_sec g) @ ''.''
      @ padded 3 ((f div 1000000) mod 1000) @ ''+00''"
    using y by (simp add: timestampToUtcStringMs_def formatTimestamp_def toTm_def Let_def strftime_def year_padded
        g_def [symmetric] y_def [symmetric] mo_def [symmetric] f_def minus_div_mult_eq_mod)
  have zone: "read_zone ''+00'' = Some (Some 0, [])" by code_simp
  have "t - t mod 1000000 = t div 1000000000 * 1000000000 + (f div 1000000) mod 1000 * 1000000"
    unfolding f_def by (rule whole_millis)
  then show ?thesis using y g b frac_millis [OF ms] zone
    by (simp add: rendered tryParseTimestamp_def read_date_def read_time_def padded_reads expect_def valid_date_def)
qed

text \<open>
  Dates the format accepts and the nanosecond clock cannot hold: the parser multiplies the seconds
  into a 64-bit count without a check.
\<close>

lemma parsed_timestamp_exceeds_clock:
  "tryParseTimestamp tz ''9999-12-31 00:00:00Z'' = Some t \<Longrightarrow> 2 ^ 63 \<le> t"
proof -
  have "tryParseTimestamp tz ''9999-12-31 00:00:00Z'' = Some 253402214400000000000" by code_simp
  then show "tryParseTimestamp tz ''9999-12-31 00:00:00Z'' = Some t \<Longrightarrow> 2 ^ 63 \<le> t" by simp
qed

section \<open>Witnesses\<close>

theorem daysFromCivil_counts_days_witness:
  "daysFromCivil 2024 3 1 = daysFromCivil 2024 2 29 + 1"
  using daysFromCivil_counts_days [of 2024 2 29] by (simp add: next_day_def valid_date_def monthDays_def leap_def)

text \<open>2024-02-29 12:34:56 UTC.\<close>

definition sample_zone :: time_zone where
  "sample_zone = \<lparr>gmtime = (\<lambda>_. \<lparr>tm_year = 124, tm_mon = 1, tm_mday = 29, tm_hour = 12, tm_min = 34, tm_sec = 56\<rparr>),
     localtime = (\<lambda>_. \<lparr>tm_year = 124, tm_mon = 1, tm_mday = 29, tm_hour = 12, tm_min = 34, tm_sec = 56\<rparr>),
     mktime = (\<lambda>_. 1709210096)\<rparr>"

theorem timestamp_utc_roundtrip_witness:
  "tryParseTimestamp sample_zone (timestampToUtcStringMs sample_zone 1709210096789654321) = Some 1709210096789000000"
proof -
  have "gmtime_at sample_zone 1709210096" by code_simp
  then show ?thesis using timestamp_utc_roundtrip [of sample_zone 1709210096789654321]
    by (simp add: sample_zone_def)
qed

end
