(* ===== verification/OracleTypes.thy ===== *)
theory OracleTypes
  imports Values
begin

text \<open>
  Text formats of Oracle values: \<^verbatim>\<open>src/common/oracle_types.cpp\<close> and \<^verbatim>\<open>oracle_types.h\<close>: type
  codes, time stamps, values from and to their bound text, connect descriptors, the
  \<^verbatim>\<open>RETURNING ... INTO\<close> clause and the SQLSTATE of an error. The library's \<^verbatim>\<open>strtod\<close>, \<^verbatim>\<open>snprintf\<close>
  and \<^verbatim>\<open>mktime\<close> are arguments; scanners carry the suffix still to be read.
\<close>

section \<open>Type codes\<close>

datatype OracleTypeClass =
    OraUnknown | OraText | OraNumber | OraBinary | OraDate | OraTimestamp | OraTimestampTz
  | OraInterval | OraLob | OraRowid

definition oracleTypeClass :: "nat \<Rightarrow> OracleTypeClass" where
  "oracleTypeClass sqlt =
     (if sqlt \<in> {1, 5, 9, 96, 8} then OraText
      else if sqlt \<in> {2, 6, 7, 3, 68, 4, 21, 22, 100, 101} then OraNumber
      else if sqlt \<in> {23, 24, 15} then OraBinary
      else if sqlt = 12 then OraDate
      else if sqlt = 187 then OraTimestamp
      else if sqlt \<in> {188, 232} then OraTimestampTz
      else if sqlt \<in> {189, 190} then OraInterval
      else if sqlt \<in> {112, 113, 114, 115} then OraLob
      else if sqlt \<in> {11, 104} then OraRowid
      else OraUnknown)"

definition oracleTypeName :: "nat \<Rightarrow> string" where
  "oracleTypeName sqlt =
     (case map_of [(1, ''VARCHAR2''), (2, ''NUMBER''), (3, ''INTEGER''), (4, ''FLOAT''), (5, ''STRING''),
        (6, ''VARNUM''), (7, ''PACKED-DECIMAL''), (8, ''LONG''), (9, ''VARCHAR''), (11, ''ROWID''),
        (12, ''DATE''), (15, ''VARRAW''), (21, ''BINARY_FLOAT''), (22, ''BINARY_DOUBLE''), (23, ''RAW''),
        (24, ''LONG RAW''), (68, ''UNSIGNED''), (91, ''DISPLAY''), (96, ''CHAR''), (100, ''BINARY_FLOAT''),
        (101, ''BINARY_DOUBLE''), (102, ''REF CURSOR''), (108, ''NAMED TYPE''), (110, ''REF''),
        (112, ''CLOB''), (113, ''BLOB''), (114, ''BFILE''), (115, ''CFILE''), (104, ''ROWID DESC''),
        (187, ''TIMESTAMP''), (188, ''TIMESTAMP WITH TIME ZONE''), (189, ''INTERVAL YEAR TO MONTH''),
        (190, ''INTERVAL DAY TO SECOND''), (232, ''TIMESTAMP WITH LOCAL TIME ZONE'')] sqlt of
        Some name \<Rightarrow> name
      | None \<Rightarrow> ''UNKNOWN'')"

definition oracleIsLob :: "nat \<Rightarrow> bool" where
  "oracleIsLob sqlt \<longleftrightarrow> oracleTypeClass sqlt = OraLob"

definition oracleIsRowid :: "nat \<Rightarrow> bool" where
  "oracleIsRowid sqlt \<longleftrightarrow> oracleTypeClass sqlt = OraRowid"

section \<open>Helpers\<close>

definition foldEquals :: "string \<Rightarrow> string \<Rightarrow> bool" where
  "foldEquals a b \<longleftrightarrow> map toupper a = map toupper b"

definition isWordChar :: "char \<Rightarrow> bool" where
  "isWordChar c \<longleftrightarrow> isalnum c \<or> c = CHR ''_'' \<or> c = CHR ''$'' \<or> c = CHR ''#''"

definition skipSpaces :: "string \<Rightarrow> string" where
  "skipSpaces s = dropWhile isspace s"

definition hexNibble :: "char \<Rightarrow> nat option" where
  "hexNibble c =
     (if isdigit c then Some (byte c - 48)
      else if 97 \<le> byte c \<and> byte c \<le> 102 then Some (byte c - 97 + 10)
      else if 65 \<le> byte c \<and> byte c \<le> 70 then Some (byte c - 65 + 10)
      else None)"

fun hexToBlob :: "string \<Rightarrow> 8 word list" where
  "hexToBlob (a # b # s) =
     (case (hexNibble a, hexNibble b) of
        (Some hi, Some lo) \<Rightarrow> of_nat (hi * 16 + lo) # hexToBlob s
      | _ \<Rightarrow> [])"
| "hexToBlob _ = []"

text \<open>
  \<^verbatim>\<open>strtoll\<close> and \<^verbatim>\<open>strtoull\<close> in base 10 where the whole text has to be consumed: white space, a sign
  and digits; a negative text of an unsigned value is its two's complement.
\<close>

definition strict_parts :: "string \<Rightarrow> (bool \<times> nat) option" where
  "strict_parts s =
     (let s1 = dropWhile isspace s;
          neg = prefix ''-'' s1;
          ds = (if neg \<or> prefix ''+'' s1 then tl s1 else s1)
      in if ds = [] \<or> \<not> list_all isdigit ds then None else Some (neg, dec_value ds))"

definition parseInt64Strict :: "string \<Rightarrow> (64 word) option" where
  "parseInt64Strict s =
     (case strict_parts s of
        None \<Rightarrow> None
      | Some (neg, v) \<Rightarrow>
          if neg \<and> v \<le> 2 ^ 63 then Some (word_of_int (- int v))
          else if \<not> neg \<and> v < 2 ^ 63 then Some (word_of_int (int v))
          else None)"

definition parseUint64Strict :: "string \<Rightarrow> (64 word) option" where
  "parseUint64Strict s =
     (if prefix ''-'' s then None
      else case strict_parts s of
          None \<Rightarrow> None
        | Some (neg, v) \<Rightarrow>
            if v \<ge> 2 ^ 64 then None else Some (if neg then word_of_int (- int v) else word_of_int (int v)))"

section \<open>Time stamps\<close>

text \<open>The time of day: hours and minutes, optionally seconds and a fraction.\<close>

definition ora_seconds :: "string \<Rightarrow> (int \<times> string) option" where
  "ora_seconds s = (if prefix '':'' s then readInt 2 (tl s) else Some (0, s))"

definition ora_time :: "string \<Rightarrow> ((int \<times> int \<times> int \<times> int) \<times> string) option" where
  "ora_time s =
     (if s \<noteq> [] \<and> isdigit (hd s) then
        Option.bind (readInt 2 s) (\<lambda>(hour, s).
        Option.bind (expect CHR '':'' s) (\<lambda>s.
        Option.bind (readInt 2 s) (\<lambda>(minute, s).
        Option.bind (ora_seconds s) (\<lambda>(second, s).
          let (nanos, s) = read_frac s in Some ((hour, minute, second, nanos), s)))))
      else Some ((0, 0, 0, 0), s))"

definition ora_zone :: "string \<Rightarrow> int option option" where
  "ora_zone s =
     (if prefix ''+'' s \<or> prefix ''-'' s then
        Option.bind (readInt 2 (tl s)) (\<lambda>(offsetHour, s1).
        Option.bind (if prefix '':'' s1 then readInt 2 (tl s1) else Some (0, s1)) (\<lambda>(offsetMinute, _).
          Some (Some ((if prefix ''-'' s then - 1 else 1) * (offsetHour * 3600 + offsetMinute * 60)))))
      else if prefix ''Z'' s \<or> prefix ''z'' s then Some (Some 0)
      else Some None)"

definition oracleParseTimestamp :: "time_zone \<Rightarrow> string \<Rightarrow> int option" where
  "oracleParseTimestamp tz text =
     Option.bind (read_date (skipSpaces text)) (\<lambda>((year, month, day), s).
       if month < 1 \<or> month > 12 \<or> day < 1 \<or> day > 31 then None
       else Option.bind (ora_time (skipSpaces s)) (\<lambda>((hour, minute, second, nanos), s).
         Option.bind (ora_zone (skipSpaces s)) (\<lambda>zone.
           case zone of
             Some offsetSeconds \<Rightarrow>
               Some ((daysFromCivil year month day * 86400 + hour * 3600 + minute * 60 + second - offsetSeconds)
                      * 1000000000 + nanos)
           | None \<Rightarrow>
               (let epoch = mktime tz \<lparr>tm_year = year - 1900, tm_mon = month - 1, tm_mday = day, tm_hour = hour,
                                       tm_min = minute, tm_sec = second\<rparr>
                in if epoch = - 1 then None else Some (epoch * 1000000000 + nanos)))))"

definition oracleFormatTimestamp :: "time_zone \<Rightarrow> int \<Rightarrow> string" where
  "oracleFormatTimestamp tz t = timestampToStringMs tz t"

section \<open>Values\<close>

record oracle_env =
  oe_tz :: time_zone
  strtod :: "string \<Rightarrow> 64 word"
  printg :: "nat \<Rightarrow> 64 word \<Rightarrow> string"
  double_eq :: "64 word \<Rightarrow> 64 word \<Rightarrow> bool"

definition oracleFormatDouble :: "oracle_env \<Rightarrow> 64 word \<Rightarrow> string" where
  "oracleFormatDouble e v =
     (if \<not> isfinite v then ''NULL''
      else case List.find (\<lambda>precision. double_eq e (strtod e (printg e precision v)) v) [15, 16, 17] of
          Some precision \<Rightarrow> printg e precision v
        | None \<Rightarrow> printg e 17 v)"

definition ora_integer :: "string \<Rightarrow> Value" where
  "ora_integer text =
     (case parseInt64Strict text of
        Some x \<Rightarrow> VInt64 x
      | None \<Rightarrow> (case parseUint64Strict text of Some x \<Rightarrow> VUInt64 x | None \<Rightarrow> VDecimal text))"

definition ora_stamp :: "oracle_env \<Rightarrow> string \<Rightarrow> Value" where
  "ora_stamp e text = (case oracleParseTimestamp (oe_tz e) text of Some t \<Rightarrow> VTimestamp t | None \<Rightarrow> VString text)"

definition ora_number :: "oracle_env \<Rightarrow> nat \<Rightarrow> string \<Rightarrow> int \<Rightarrow> int \<Rightarrow> Value" where
  "ora_number e sqlt text precision scale =
     (if sqlt \<in> {4, 21, 22, 100, 101} then VDouble (strtod e text)
      else let hasFraction = CHR ''.'' \<in> set text \<or> CHR ''e'' \<in> set text \<or> CHR ''E'' \<in> set text in
        if \<not> hasFraction \<and> (precision \<le> 0 \<or> precision > 18) then ora_integer text
        else if \<not> hasFraction \<and> scale = 0 then ora_integer text
        else VDecimal text)"

definition oracleValueFromText :: "oracle_env \<Rightarrow> nat \<Rightarrow> string \<Rightarrow> int \<Rightarrow> int \<Rightarrow> Value" where
  "oracleValueFromText e sqlt text precision scale =
     (case oracleTypeClass sqlt of
        OraText \<Rightarrow> VString text
      | OraRowid \<Rightarrow> VString text
      | OraInterval \<Rightarrow> if sqlt = 189 then VIntervalYearMonth text else VIntervalDaySecond text
      | OraBinary \<Rightarrow> VBlob (hexToBlob text)
      | OraDate \<Rightarrow> ora_stamp e text
      | OraTimestamp \<Rightarrow> ora_stamp e text
      | OraTimestampTz \<Rightarrow> ora_stamp e text
      | OraLob \<Rightarrow> if sqlt = 112 \<or> sqlt = 115 then VString text else VBlob (hexToBlob text)
      | OraNumber \<Rightarrow> ora_number e sqlt text precision scale
      | OraUnknown \<Rightarrow> VString text)"

record OracleBindValue =
  bv_text :: "string option"
  bv_raw :: "8 word list option"
  bv_unsupported :: bool

definition bind_text :: "string \<Rightarrow> OracleBindValue" where
  "bind_text s = \<lparr>bv_text = Some s, bv_raw = None, bv_unsupported = False\<rparr>"

definition bind_null :: OracleBindValue where
  "bind_null = \<lparr>bv_text = None, bv_raw = None, bv_unsupported = False\<rparr>"

definition oracleBindValue :: "oracle_env \<Rightarrow> Value \<Rightarrow> OracleBindValue" where
  "oracleBindValue e v =
     (case v of
        VNull \<Rightarrow> bind_null
      | VBool b \<Rightarrow> bind_text (if b then ''1'' else ''0'')
      | VInt64 x \<Rightarrow> bind_text (to_string_int (sint x))
      | VUInt64 x \<Rightarrow> bind_text (to_string (unat x))
      | VDouble x \<Rightarrow> if isfinite x then bind_text (oracleFormatDouble e x) else bind_null
      | VDecimal s \<Rightarrow> bind_text s
      | VString s \<Rightarrow> bind_text s
      | VDate d \<Rightarrow> bind_text (if SP \<in> set d then d else d @ '' 00:00:00'')
      | VTime s \<Rightarrow> bind_text (''1970-01-01 '' @ s)
      | VTimestamp t \<Rightarrow> bind_text (oracleFormatTimestamp (oe_tz e) t)
      | VUuid s \<Rightarrow> bind_text s
      | VJson s \<Rightarrow> bind_text s
      | VIntervalYearMonth s \<Rightarrow> bind_text s
      | VIntervalDaySecond s \<Rightarrow> bind_text s
      | VBlob b \<Rightarrow> \<lparr>bv_text = None, bv_raw = Some b, bv_unsupported = False\<rparr>
      | _ \<Rightarrow> bind_null\<lparr>bv_unsupported := True\<rparr>)"

definition bind_isNull :: "OracleBindValue \<Rightarrow> bool" where
  "bind_isNull b \<longleftrightarrow> \<not> bv_unsupported b \<and> bv_text b = None \<and> bv_raw b = None"

section \<open>Connect descriptors\<close>

record OracleConnectOptions =
  oc_host :: string
  oc_port :: int
  oc_serviceName :: string
  oc_sid :: string
  oc_connectionTimeoutMs :: int
  oc_tlsEnabled :: bool
  oc_tlsVerifyPeer :: bool
  oc_walletLocation :: string
  oc_serverCertDn :: string

definition validDescriptorAtom :: "string \<Rightarrow> bool" where
  "validDescriptorAtom value \<longleftrightarrow> value \<noteq> [] \<and>
     list_all (\<lambda>c. byte c > 32 \<and> c \<noteq> CHR ''('' \<and> c \<noteq> CHR '')'' \<and> c \<noteq> CHR ''='') value"

definition validQuotedDescriptorValue :: "string \<Rightarrow> bool" where
  "validQuotedDescriptorValue value \<longleftrightarrow> value \<noteq> [] \<and> list_all (\<lambda>c. byte c \<ge> 32 \<and> c \<noteq> DQ) value"

definition configError :: "string \<Rightarrow> Status + 'a" where
  "configError msg = Inl (error ConfigError msg)"

definition oc_target :: "OracleConnectOptions \<Rightarrow> string" where
  "oc_target opts = (if oc_sid opts = [] then oc_serviceName opts else oc_sid opts)"

definition descriptor_text :: "OracleConnectOptions \<Rightarrow> string" where
  "descriptor_text opts =
     ''(DESCRIPTION='' @
     (if oc_connectionTimeoutMs opts > 0 then
        (let timeout = to_string_int (oc_connectionTimeoutMs opts) @ ''ms'' in
         ''(CONNECT_TIMEOUT='' @ timeout @ '')'' @ ''(TRANSPORT_CONNECT_TIMEOUT='' @ timeout @ '')'')
      else []) @
     ''(ADDRESS=(PROTOCOL='' @ (if oc_tlsEnabled opts then ''TCPS'' else ''TCP'') @
     '')(HOST='' @ oc_host opts @ '')(PORT='' @ to_string_int (oc_port opts) @ ''))'' @
     ''(CONNECT_DATA=('' @ (if oc_sid opts = [] then ''SERVICE_NAME='' else ''SID='') @ oc_target opts @ ''))'' @
     (if oc_tlsEnabled opts then
        ''(SECURITY=(SSL_SERVER_DN_MATCH='' @ (if oc_tlsVerifyPeer opts then ''YES'' else ''NO'') @ '')'' @
        (if oc_serverCertDn opts \<noteq> [] then ''(SSL_SERVER_CERT_DN='' @ [DQ] @ oc_serverCertDn opts @ [DQ] @ '')'' else []) @
        (if oc_walletLocation opts \<noteq> [] then ''(WALLET_LOCATION='' @ [DQ] @ oc_walletLocation opts @ [DQ] @ '')'' else []) @
        '')''
      else []) @
     '')''"

definition oracleBuildConnectDescriptor :: "OracleConnectOptions \<Rightarrow> Status + string" where
  "oracleBuildConnectDescriptor opts =
     (if \<not> validDescriptorAtom (oc_host opts) then
        configError ''Oracle host contains characters unsafe for a connect descriptor''
      else if oc_port opts < 1 \<or> oc_port opts > 65535 then configError ''Oracle port must be in range 1..65535''
      else if oc_serviceName opts \<noteq> [] \<and> oc_sid opts \<noteq> [] then
        configError ''Oracle service_name and sid are mutually exclusive''
      else if oc_serviceName opts = [] \<and> oc_sid opts = [] then configError ''Oracle service_name or sid is required''
      else if \<not> validDescriptorAtom (oc_target opts) then
        configError ''Oracle service_name or sid contains unsafe characters''
      else if oc_connectionTimeoutMs opts < 0 then configError ''Oracle connection timeout must be >= 0''
      else if oc_walletLocation opts \<noteq> [] \<and> \<not> validQuotedDescriptorValue (oc_walletLocation opts) then
        configError ''Oracle wallet_location contains unsafe characters''
      else if oc_serverCertDn opts \<noteq> [] \<and> \<not> validQuotedDescriptorValue (oc_serverCertDn opts) then
        configError ''Oracle server_cert_dn contains unsafe characters''
      else if \<not> oc_tlsEnabled opts \<and> (oc_walletLocation opts \<noteq> [] \<or> oc_serverCertDn opts \<noteq> []) then
        configError ''Oracle wallet_location and server_cert_dn require TLS''
      else if oc_serverCertDn opts \<noteq> [] \<and> \<not> oc_tlsVerifyPeer opts then
        configError ''Oracle server_cert_dn requires TLS peer verification''
      else Inr (descriptor_text opts))"

definition oracleSessionSetupStatements :: "string list" where
  "oracleSessionSetupStatements =
     [''ALTER SESSION SET NLS_DATE_FORMAT = '' @ [SQ] @ ''YYYY-MM-DD HH24:MI:SS'' @ [SQ],
      ''ALTER SESSION SET NLS_TIMESTAMP_FORMAT = '' @ [SQ] @ ''YYYY-MM-DD HH24:MI:SS.FF'' @ [SQ],
      ''ALTER SESSION SET NLS_TIMESTAMP_TZ_FORMAT = '' @ [SQ] @ ''YYYY-MM-DD HH24:MI:SS.FF TZH:TZM'' @ [SQ],
      ''ALTER SESSION SET NLS_NUMERIC_CHARACTERS = '' @ [SQ] @ ''.,'' @ [SQ]]"

definition oracleSqlState :: "int \<Rightarrow> string" where
  "oracleSqlState oraCode =
     (case map_of [(1, ''23000''), (54, ''40001''), (60, ''40001''), (903, ''42000''), (904, ''42S22''),
        (911, ''42000''), (923, ''42000''), (933, ''42000''), (942, ''42S02''), (955, ''42710''), (1013, ''57014''),
        (1017, ''28000''), (1400, ''23502''), (1401, ''22001''), (1408, ''42701''), (1438, ''22003''),
        (1461, ''22001''), (1722, ''22018''), (1830, ''22008''), (1843, ''22007''), (1858, ''22007''),
        (2290, ''23514''), (2291, ''23503''), (2292, ''23503''), (3113, ''08S01''), (3114, ''08S01''),
        (3135, ''08S01''), (8177, ''40001''), (12162, ''08001''), (12170, ''08001''), (12514, ''08001''),
        (12537, ''08S01''), (12541, ''08001''), (12899, ''22001''), (22835, ''22001'')] (\<bar>oraCode\<bar>) of
        Some s \<Rightarrow> s
      | None \<Rightarrow> [])"

section \<open>The RETURNING clause\<close>

record OracleReturning =
  ret_columns :: "string list"
  ret_firstBind :: nat
  ret_bindCount :: nat

text \<open>What follows a quoted section; \<open>q\<close> doubled is part of it.\<close>

fun ora_skip :: "char \<Rightarrow> string \<Rightarrow> string" where
  "ora_skip q [] = []"
| "ora_skip q (c # s) =
     (if c = q then (if prefix [q] s then ora_skip q (tl s) else s) else ora_skip q s)"

lemma ora_skip_length [consumes]: "length (ora_skip q s) \<le> length s"
  by (induction q s rule: ora_skip.induct) auto

text \<open>The text from the last keyword on.\<close>

function find_returning :: "string option \<Rightarrow> string \<Rightarrow> string option" where
  "find_returning kw [] = kw"
| "find_returning kw (c # s) =
     (if c = SQ \<or> c = DQ then find_returning kw (ora_skip c s)
      else if isalpha c then
        find_returning (if foldEquals (takeWhile isWordChar (c # s)) ''RETURNING'' then Some (c # s) else kw)
          (dropWhile isWordChar s)
      else find_returning kw s)"
  by pat_completeness auto
termination
  by (relation "measure (\<lambda>(kw, s). length s)")
    (auto intro: le_less_trans [OF ora_skip_length] le_less_trans [OF length_dropWhile_le])

fun quoted_name :: "string \<Rightarrow> string \<times> string" where
  "quoted_name [] = ([], [])"
| "quoted_name (c # s) =
     (if c = DQ then
        (if prefix [DQ] s then (let (name, r) = quoted_name (tl s) in (DQ # name, r)) else ([], s))
      else (let (name, r) = quoted_name s in (c # name, r)))"

lemma quoted_name_length [consumes]: "quoted_name s = (name, r) \<Longrightarrow> length r \<le> length s"
  by (induction s arbitrary: name r rule: quoted_name.induct)
    (auto split: prod.splits if_splits intro: le_SucI dest: le_trans [OF _ diff_le_self])

definition column_name :: "string \<Rightarrow> (string \<times> string) option" where
  "column_name s =
     (case s of [] \<Rightarrow> None
      | c # r \<Rightarrow>
          if c = DQ then Some (quoted_name r)
          else if \<not> isWordChar c then None
          else Some (map toupper (takeWhile isWordChar (c # r)), dropWhile isWordChar r))"

lemma column_name_length [consumes]: "column_name s = Some (name, r) \<Longrightarrow> length r < length s"
  by (auto simp: column_name_def less_Suc_eq_le dest: quoted_name_length split: list.splits if_splits)

function column_loop :: "string list \<Rightarrow> string \<Rightarrow> (string list \<times> string) option" where
  "column_loop columns s =
     (if s = [] then Some (columns, s)
      else case column_name (skipSpaces s) of
          None \<Rightarrow> None
        | Some (name, s1) \<Rightarrow>
            (let s2 = skipSpaces s1 in
             if prefix '','' s2 then column_loop (columns @ [name]) (tl s2) else Some (columns @ [name], s2)))"
  by pat_completeness auto
termination
proof (relation "measure (\<lambda>(columns, s). length s)"; clarsimp)
  fix s name s1
  assume "column_name (skipSpaces s) = Some (name, s1)"
  then have "length s1 < length (skipSpaces s)" by (rule column_name_length)
  also have "\<dots> \<le> length s" by (simp add: skipSpaces_def)
  finally show "length (skipSpaces s1) - Suc 0 < length s" 
    using length_dropWhile_le [of isspace s1] unfolding skipSpaces_def by linarith
qed

function bind_loop :: "nat list \<Rightarrow> string \<Rightarrow> nat list option" where
  "bind_loop binds s =
     (case skipSpaces s of
        [] \<Rightarrow> Some binds
      | c # r \<Rightarrow>
          if c = CHR '','' then bind_loop binds r
          else if c \<noteq> CHR '':'' then None
          else bind_loop (binds @ [dec_value (takeWhile isdigit r) mod 2 ^ 64]) (dropWhile isdigit r))"
  by pat_completeness auto
termination
proof (relation "measure (\<lambda>(binds, s). length s)"; clarsimp)
  fix s c r
  assume "skipSpaces s = c # r"
  then have r: "length r < length s" using length_dropWhile_le [of isspace s] by (simp add: skipSpaces_def)
  then show "length r < length s" "length (dropWhile isdigit r) < length s"
    using length_dropWhile_le [of isdigit r] by linarith+
qed

declare column_loop.simps [simp del] bind_loop.simps [simp del]

definition oracleParseReturningInto :: "string \<Rightarrow> OracleReturning option" where
  "oracleParseReturningInto sql =
     Option.bind (find_returning None sql) (\<lambda>kw.
     Option.bind (column_loop [] (drop 9 kw)) (\<lambda>(columns, s).
       if columns = [] then None
       else let s1 = skipSpaces s in
         if \<not> foldEquals (takeWhile isWordChar s1) ''INTO'' then None
         else Option.bind (bind_loop [] (dropWhile isWordChar s1)) (\<lambda>binds.
           if length binds \<noteq> length columns then None
           else Some \<lparr>ret_columns = columns, ret_firstBind = hd binds, ret_bindCount = length binds\<rparr>)))"

definition oracleMakeReturningSuffix :: "string list \<Rightarrow> nat \<Rightarrow> string" where
  "oracleMakeReturningSuffix columns firstBind =
     (if columns = [] then []
      else '' RETURNING '' @ comma_join (map quoteIdentifier columns) @ '' INTO ''
           @ comma_join (map (\<lambda>i. '':'' @ to_string (firstBind + i)) [0..<length columns]))"

section \<open>The RETURNING clause survives\<close>

text \<open>Every quoted section of the statement is closed within it.\<close>

fun quotes_closed :: "char option \<Rightarrow> string \<Rightarrow> bool" where
  "quotes_closed q [] \<longleftrightarrow> q = None"
| "quotes_closed None (c # s) \<longleftrightarrow> quotes_closed (if c = SQ \<or> c = DQ then Some c else None) s"
| "quotes_closed (Some q) (c # s) \<longleftrightarrow> quotes_closed (if c = q then None else Some q) s"

lemma ora_skip_append:
  assumes "quotes_closed (Some q) s" "q = SQ \<or> q = DQ" "\<not> prefix [q] x"
  shows "ora_skip q (s @ x) = ora_skip q s @ x \<and> quotes_closed None (ora_skip q s)"
  using assms
proof (induction q s rule: ora_skip.induct)
  case (2 q c s)
  show ?case
  proof (cases "c = q")
    case True
    show ?thesis
    proof (cases s)
      case Nil
      with True "2.prems" show ?thesis by simp
    next
      case (Cons d t)
      show ?thesis
      proof (cases "d = q")
        case d: True
        have "quotes_closed (Some q) t" using "2.prems"(1,2) True Cons d by (simp split: if_splits)
        then show ?thesis using "2.IH"(1) [OF True] "2.prems"(2,3) True Cons d by simp
      next
        case False
        then show ?thesis using "2.prems"(1) True Cons by simp
      qed
    qed
  next
    case False
    then show ?thesis using "2.IH"(2) "2.prems" by simp
  qed
qed simp

lemma not_word_quote: "\<not> isWordChar SQ" "\<not> isWordChar DQ" "\<not> isalpha SQ" "\<not> isalpha DQ" "\<not> isWordChar SP"
  by (simp_all add: isWordChar_def cctype_simps)

lemma quotes_closed_word: "quotes_closed None s \<Longrightarrow> quotes_closed None (dropWhile isWordChar s)"
  by (induction s) (auto simp: not_word_quote split: if_splits)

lemma find_returning_append:
  assumes "quotes_closed None s"
  shows "\<exists>kw'. find_returning kw (s @ SP # y) = find_returning kw' (SP # y)"
  using assms
proof (induction s arbitrary: kw rule: length_induct)
  case (1 s)
  let ?x = "SP # y"
  show ?case
  proof (cases s)
    case (Cons c t)
    have w: "takeWhile isWordChar (t @ ?x) = takeWhile isWordChar t" "dropWhile isWordChar (t @ ?x) = dropWhile isWordChar t @ ?x"
      using not_word_quote by (auto intro!: takeWhile_append_stop dropWhile_append_stop)
    consider (quoted) "c = SQ \<or> c = DQ" | (word) "c \<noteq> SQ" "c \<noteq> DQ" "isalpha c" | (other) "c \<noteq> SQ" "c \<noteq> DQ" "\<not> isalpha c"
      by blast
    then show ?thesis
    proof cases
      case quoted
      then have "quotes_closed (Some c) t" "\<not> prefix [c] ?x" using "1.prems" Cons by auto
      from ora_skip_append [OF this(1) quoted this(2)]
      have s: "ora_skip c (t @ ?x) = ora_skip c t @ ?x" "quotes_closed None (ora_skip c t)" by auto
      have "length (ora_skip c t) < length s" using ora_skip_length [of c t] Cons by simp
      with s(2) "1.IH" have "\<exists>kw'. find_returning kw (ora_skip c t @ ?x) = find_returning kw' ?x" by blast
      then show ?thesis using quoted s(1) Cons by auto
    next
      case word
      have "quotes_closed None (dropWhile isWordChar t)" using "1.prems" word Cons by (auto intro: quotes_closed_word)
      moreover have "length (dropWhile isWordChar t) < length s" using Cons by (simp add: le_imp_less_Suc)
      ultimately have "\<exists>kw'. find_returning k (dropWhile isWordChar t @ ?x) = find_returning kw' ?x" for k
        using "1.IH" by blast
      then show ?thesis using word w Cons by simp
    next
      case other
      then show ?thesis using "1.IH" "1.prems" Cons by auto
    qed
  qed auto
qed

definition doubled :: "string \<Rightarrow> string" where
  "doubled s = concat (map (\<lambda>c. if c = DQ then [DQ, DQ] else [c]) s)"

lemma quoteIdentifier_doubled: "quoteIdentifier n = DQ # doubled n @ [DQ]"
  by (simp add: quoteIdentifier_def doubled_def)

lemma ora_skip_doubled: "\<not> prefix [DQ] x \<Longrightarrow> ora_skip DQ (doubled n @ DQ # x) = x"
  by (induction n) (auto simp: doubled_def)

lemma quoted_name_doubled: "\<not> prefix [DQ] x \<Longrightarrow> quoted_name (doubled n @ DQ # x) = (n, x)"
  by (induction n) (auto simp: doubled_def)

lemma find_returning_ident: "\<not> prefix [DQ] x \<Longrightarrow> find_returning kw (quoteIdentifier n @ x) = find_returning kw x"
  by (simp add: quoteIdentifier_doubled ora_skip_doubled)

lemma find_returning_plain:
  "\<forall>c \<in> set p. c \<noteq> SQ \<and> c \<noteq> DQ \<and> \<not> isalpha c \<Longrightarrow> find_returning kw (p @ x) = find_returning kw x"
  by (induction p) auto

lemma find_returning_names:
  "find_returning kw (comma_join (map quoteIdentifier columns) @ SP # y) = find_returning kw (SP # y)"
proof (induction columns rule: induct_list012)
  case (3 n m ns)
  then show ?case using find_returning_plain [of "'', ''"]
    by (simp add: find_returning_ident isalpha_def isupper_def islower_def)
qed (simp_all add: find_returning_ident)

lemma binds_plain: "c \<in> set (comma_join (map (\<lambda>i. '':'' @ to_string (k + i)) is)) \<Longrightarrow> c \<noteq> SQ \<and> c \<noteq> DQ \<and> \<not> isalpha c"
proof (induction "is" rule: induct_list012)
  case (2 i)
  then show ?case using to_string_digits [of "k + i"] by (auto simp: cctype_simps)
next
  case (3 i j js)
  then show ?case using to_string_digits [of "k + i"] by (auto simp: cctype_simps)
qed simp

lemma find_returning_suffix:
  assumes "columns \<noteq> []"
  shows "find_returning kw (oracleMakeReturningSuffix columns k) = Some (tl (oracleMakeReturningSuffix columns k))"
proof -
  define bs where "bs = comma_join (map (\<lambda>i. '':'' @ to_string (k + i)) [0..<length columns])"
  define rest where "rest = comma_join (map quoteIdentifier columns) @ '' INTO '' @ bs"
  have bs: "find_returning kw' bs = kw'" for kw'
    using find_returning_plain [of bs kw' "[]"] binds_plain unfolding bs_def by force
  have "find_returning kw' (''INTO '' @ bs) = kw'" for kw'
    using bs by (simp add: isalpha_def isupper_def islower_def isWordChar_def isalnum_def isdigit_def foldEquals_def toupper_def)
  then have "find_returning kw' ('' INTO '' @ bs) = kw'" for kw' by (simp add: isalpha_def isupper_def islower_def)
  then have r: "find_returning kw' rest = kw'" for kw'
    using find_returning_names [of kw' columns "''INTO '' @ bs"] by (simp add: rest_def)
  have "find_returning kw (''RETURNING '' @ rest) = Some (''RETURNING '' @ rest)"
    using r by (simp add: isalpha_def isupper_def islower_def isWordChar_def isalnum_def isdigit_def foldEquals_def toupper_def)
  then show ?thesis using assms by (simp add: oracleMakeReturningSuffix_def rest_def bs_def isalpha_def isupper_def islower_def)
qed

lemma skipSpaces_stop [simp]: "\<not> isspace c \<Longrightarrow> skipSpaces (c # s) = c # s" "skipSpaces (SP # s) = skipSpaces s"
  by (simp add: skipSpaces_def) (simp add: skipSpaces_def isspace_def)

lemma column_name_ident:
  "\<not> prefix [DQ] x \<Longrightarrow> column_name (quoteIdentifier n @ x) = Some (n, x)"
  "skipSpaces (quoteIdentifier n @ x) = quoteIdentifier n @ x"
  by (simp_all add: quoteIdentifier_doubled column_name_def quoted_name_doubled isspace_def)

lemma column_loop_names:
  assumes "columns \<noteq> []"
  shows "column_loop out (SP # comma_join (map quoteIdentifier columns) @ '' INTO '' @ y) = Some (out @ columns, ''INTO '' @ y)"
  using assms
proof (induction columns arbitrary: out rule: induct_list012)
  case (2 n)
  show ?case
    by (subst column_loop.simps) (simp add: column_name_ident isspace_def)
next
  case (3 n m ns)
  then show ?case
    by (subst column_loop.simps) (simp add: column_name_ident isspace_def)
qed simp

lemma bind_loop_binds:
  assumes "\<forall>i \<in> set is. k + i < 2 ^ 64"
  shows "bind_loop out (SP # comma_join (map (\<lambda>i. '':'' @ to_string (k + i)) is)) = Some (out @ map ((+) k) is)"
  using assms
proof (induction "is" arbitrary: out rule: induct_list012)
  case 1
  show ?case by (subst bind_loop.simps) (simp add: skipSpaces_def isspace_def)
next
  case (2 i)
  have d: "takeWhile isdigit (to_string (k + i)) = to_string (k + i)" "dropWhile isdigit (to_string (k + i)) = []"
    using to_string_digits [of "k + i"] by (auto simp: takeWhile_eq_all_conv dropWhile_eq_Nil_conv)
  show ?case using "2.prems"
    by (subst bind_loop.simps) (simp add: d isspace_def, subst bind_loop.simps, simp add: skipSpaces_def)
next
  case (3 i j js)
  let ?r = "'', '' @ comma_join (map (\<lambda>i. '':'' @ to_string (k + i)) (j # js))"
  have d: "takeWhile isdigit (to_string (k + i) @ ?r) = to_string (k + i)" "dropWhile isdigit (to_string (k + i) @ ?r) = ?r"
    using to_string_digits [of "k + i"] by (auto simp: isdigit_def)
  have "bind_loop (out @ [k + i]) ?r = Some ((out @ [k + i]) @ map ((+) k) (j # js))"
    using "3.IH"(2) [of "out @ [k + i]"] "3.prems" by (subst bind_loop.simps) (simp add: isspace_def)
  then show ?case using "3.prems" by (subst bind_loop.simps) (simp add: d [simplified] isspace_def)
qed

text \<open>
  Behind a statement whose quotes are closed, a RETURNING clause made for any non-empty list of
  columns is parsed back to those columns, the first bind number and the number of binds.
\<close>

theorem oracleReturning_roundtrip:
  assumes "quotes_closed None sql" "columns \<noteq> []" "firstBind + length columns \<le> 2 ^ 64"
  shows "oracleParseReturningInto (sql @ oracleMakeReturningSuffix columns firstBind) =
    Some \<lparr>ret_columns = columns, ret_firstBind = firstBind, ret_bindCount = length columns\<rparr>"
proof -
  let ?names = "comma_join (map quoteIdentifier columns)"
  let ?binds = "comma_join (map (\<lambda>i. '':'' @ to_string (firstBind + i)) [0..<length columns])"
  have suf: "oracleMakeReturningSuffix columns firstBind = SP # ''RETURNING '' @ ?names @ '' INTO '' @ ?binds"
    using assms(2) by (simp add: oracleMakeReturningSuffix_def)
  have "find_returning None (sql @ oracleMakeReturningSuffix columns firstBind) = Some (''RETURNING '' @ ?names @ '' INTO '' @ ?binds)"
    using find_returning_append [OF assms(1), of None "''RETURNING '' @ ?names @ '' INTO '' @ ?binds"]
      find_returning_suffix [OF assms(2), of _ firstBind] by (auto simp: suf)
  moreover have "column_loop [] (SP # ?names @ '' INTO '' @ ?binds) = Some (columns, ''INTO '' @ ?binds)"
    using column_loop_names [OF assms(2), of "[]" ?binds] by simp
  moreover have "bind_loop [] (SP # ?binds) = Some (map ((+) firstBind) [0..<length columns])"
    using bind_loop_binds [of "[0..<length columns]" firstBind "[]"] assms(3) by force
  moreover have "hd (map ((+) firstBind) [0..<length columns]) = firstBind"
    using assms(2) by (simp add: hd_map)
  ultimately show ?thesis using assms(2)
    by (simp add: oracleParseReturningInto_def skipSpaces_def isspace_def isWordChar_def cctype_simps foldEquals_def)
qed

section \<open>Descriptors and binary values\<close>

text \<open>The text is one parenthesised group that is closed by its last byte.\<close>

fun one_group :: "nat \<Rightarrow> string \<Rightarrow> bool" where
  "one_group d [] \<longleftrightarrow> False"
| "one_group d (c # s) \<longleftrightarrow>
     (if c = CHR ''('' then one_group (d + 1) s
      else if c = CHR '')'' then (if d = 1 then s = [] else d > 0 \<and> one_group (d - 1) s)
      else d > 0 \<and> one_group d s)"

lemma one_group_plain:
  "CHR ''('' \<notin> set w \<Longrightarrow> CHR '')'' \<notin> set w \<Longrightarrow> 0 < d \<Longrightarrow> one_group d (w @ s) \<longleftrightarrow> one_group d s"
  by (induction w) auto

lemma number_plain: "CHR ''('' \<notin> set (to_string_int n)" "CHR '')'' \<notin> set (to_string_int n)"
  using to_string_digits [of "nat n"] to_string_digits [of "nat (- n)"] by (auto simp: to_string_int_def isdigit_def)

text \<open>A host, service name or system identifier never closes its clause or opens another one.\<close>

theorem descriptor_is_one_group:
  assumes "oracleBuildConnectDescriptor opts = Inr out" "oc_walletLocation opts = []" "oc_serverCertDn opts = []"
  shows "one_group 0 out"
proof -
  have o: "out = descriptor_text opts" "validDescriptorAtom (oc_host opts)" "validDescriptorAtom (oc_target opts)"
    using assms(1) by (auto simp: oracleBuildConnectDescriptor_def configError_def split: if_splits)
  have "CHR ''('' \<notin> set (oc_host opts)" "CHR '')'' \<notin> set (oc_host opts)"
    "CHR ''('' \<notin> set (oc_target opts)" "CHR '')'' \<notin> set (oc_target opts)"
    using o(2,3) by (auto simp: validDescriptorAtom_def list_all_iff)
  then show ?thesis
    by (simp add: o(1) descriptor_text_def assms(2,3) one_group_plain number_plain Let_def)
qed

lemma hexNibble_digit: "n < 16 \<Longrightarrow> hexNibble (kHexUpper ! n) = Some n"
proof -
  have "\<forall>n \<in> {0..<16}. hexNibble (kHexUpper ! n) = Some n" by code_simp
  then show "n < 16 \<Longrightarrow> hexNibble (kHexUpper ! n) = Some n" by simp
qed

theorem hexToBlob_appendHex: "hexToBlob (appendHex b) = b"
proof (induction b)
  case (Cons x b)
  have "unat x div 16 < 16" using unsigned_less [of x, where ?'a = nat] by simp
  then have "hexToBlob (hex_byte x @ appendHex b) = of_nat (unat x div 16 * 16 + unat x mod 16) # hexToBlob (appendHex b)"
    by (simp add: hex_byte_def hexNibble_digit)
  then show ?case using Cons by (simp add: appendHex_def)
qed (simp add: appendHex_def)

section \<open>Witnesses\<close>

theorem oracleReturning_roundtrip_witness:
  "oracleParseReturningInto (''INSERT INTO t(a) VALUES(:1)'' @ oracleMakeReturningSuffix [''ID'', [CHR ''a'', DQ]] 2) =
     Some \<lparr>ret_columns = [''ID'', [CHR ''a'', DQ]], ret_firstBind = 2, ret_bindCount = 2\<rparr>"
  using oracleReturning_roundtrip [of "''INSERT INTO t(a) VALUES(:1)''" "[''ID'', [CHR ''a'', DQ]]" 2] by simp

end
