(* ===== verification/Connection.thy ===== *)
theory Connection
  imports DataSource Transactions NamedParams Values
begin

text \<open>
  The operations every driver connection inherits: \<^verbatim>\<open>src/core/idatabase_connection.cpp\<close>.
  \<^item> The scanner \<open>replacePlaceholders\<close>, on which literal interpolation (\<open>buildSql\<close>) and the rendering
    of statements for logs (\<open>renderSqlForLogging\<close>) rest. The dialect's \<^verbatim>\<open>escapeLiteral\<close> is an argument
    where a driver may override it.
  \<^item> The default batch, which runs its rows in one transaction, and the operations that are built on
    the driver's primitives. The virtual methods a driver implements are the record
    \<open>connection_ops\<close> over the driver's connection state.
\<close>

section \<open>Placeholders\<close>

text \<open>The tag of a dollar quote behind its first dollar, and the text behind the closing tag.\<close>

definition ph_dollar :: "string \<Rightarrow> string" where
  "ph_dollar cs =
     (let tag = takeWhile isIdent cs; r = dropWhile isIdent cs in
      if r \<noteq> [] \<and> hd r = CHR ''$'' \<and> (tag = [] \<or> \<not> isdigit (hd cs)) then
        (let delimiter = CHR ''$'' # tag @ ''$'' in
         case str_find delimiter (tl r) of Some k \<Rightarrow> drop (k + length delimiter) (tl r) | None \<Rightarrow> cs)
      else cs)"

definition ph_bracket :: "char option \<Rightarrow> bool" where
  "ph_bracket prev \<longleftrightarrow> (case prev of None \<Rightarrow> True
     | Some p \<Rightarrow> \<not> isIdent p \<and> p \<noteq> CHR '')'' \<and> p \<noteq> CHR '']'' \<and> p \<noteq> CHR ''?'')"

text \<open>What follows the token that starts with \<open>c\<close>, a byte other than a question mark.\<close>

definition ph_rest :: "char option \<Rightarrow> char \<Rightarrow> string \<Rightarrow> string" where
  "ph_rest prev c cs =
     (if c = CHR ''q'' \<or> c = CHR ''Q'' then
        (if length cs > 1 \<and> hd cs = SQ then
           (case str_find [q_close (cs ! 1), SQ] (drop 2 cs) of Some k \<Rightarrow> drop (k + 2) (drop 2 cs) | None \<Rightarrow> cs)
         else cs)
      else if c = CHR ''$'' then ph_dollar cs
      else if c = SQ \<or> c = DQ \<or> c = BQ \<or> (c = CHR ''['' \<and> ph_bracket prev) then
        (case close_quoted c (if c = CHR ''['' then CHR '']'' else c) cs of Some r \<Rightarrow> r | None \<Rightarrow> [])
      else if c = CHR ''-'' \<and> prefix ''-'' cs then tl (dropWhile (\<lambda>x. x \<noteq> NL) cs)
      else if c = CHR ''/'' \<and> prefix ''*'' cs then
        (case close_comment 1 (tl cs) of Some r \<Rightarrow> r | None \<Rightarrow> [])
      else cs)"

lemma close_quoted_suffix: "close_quoted op cl s = Some r \<Longrightarrow> suffix r s"
proof (induction op cl s rule: close_quoted.induct)
  case (2 op cl x xs)
  have "suffix (tl xs) (x # xs)" "suffix xs (x # xs)" by (cases xs; auto simp: suffix_Cons)+
  with 2 show ?case by (auto split: if_splits intro: suffix_order.trans)
qed simp

lemma close_comment_suffix: "close_comment d s = Some r \<Longrightarrow> suffix r s"
proof (induction d s rule: close_comment.induct)
  case (3 d x xs)
  have "suffix (tl xs) (x # xs)" "suffix xs (x # xs)" by (cases xs; auto simp: suffix_Cons)+
  with 3 show ?case by (auto split: if_splits intro: suffix_order.trans)
qed simp_all

lemma ph_dollar_suffix: "suffix (ph_dollar cs) cs"
proof -
  have "suffix (drop k (tl (dropWhile isIdent cs))) cs" for k
    by (meson suffix_drop suffix_dropWhile suffix_order.trans suffix_tl)
  then show ?thesis by (auto simp: ph_dollar_def Let_def split: option.split)
qed

lemma ph_rest_suffix: "suffix (ph_rest prev c cs) cs"
proof -
  let ?P = "\<lambda>r. suffix r cs"
  have "?P (tl (dropWhile f cs))" for f by (meson suffix_dropWhile suffix_order.trans suffix_tl)
  moreover have "?P r" if "close_comment 1 (tl cs) = Some r" for r
    using close_comment_suffix [OF that] by (meson suffix_order.trans suffix_tl)
  ultimately show ?thesis
    unfolding ph_rest_def
    by (intro if_branches [where P = ?P] option_branches [where P = ?P])
      (auto simp: ph_dollar_suffix suffix_drop intro: close_quoted_suffix)
qed

lemma ph_rest_forward [consumes]: "length (ph_rest prev c cs) \<le> length cs"
  by (rule suffix_length_le [OF ph_rest_suffix])

function ph_loop :: "(nat \<Rightarrow> string) \<Rightarrow> char option \<Rightarrow> nat \<Rightarrow> string \<Rightarrow> string \<Rightarrow> string \<times> nat" where
  "ph_loop visitor prev found out [] = (out, found)"
| "ph_loop visitor prev found out (c # cs) =
     (if c = CHR ''?'' then ph_loop visitor (Some c) (found + 1) (out @ visitor found) cs
      else let r = ph_rest prev c cs in
        ph_loop visitor (Some (prev_after (c # cs) r)) found (out @ consumed (c # cs) r) r)"
  by pat_completeness auto
termination
  by (relation "measure (\<lambda>(visitor, prev, found, out, s). length s)")
    (auto simp: le_imp_less_Suc ph_rest_forward)

declare ph_loop.simps(2) [simp del]

definition replacePlaceholders :: "string \<Rightarrow> (nat \<Rightarrow> string) \<Rightarrow> string \<times> nat" where
  "replacePlaceholders sql visitor = ph_loop visitor None 0 [] sql"

definition escapeLiteral :: "render_env \<Rightarrow> Value \<Rightarrow> string" where
  "escapeLiteral e v = escapeLiteralGeneric e v"

definition placeholder_text :: "(Value \<Rightarrow> string) \<Rightarrow> Params \<Rightarrow> nat \<Rightarrow> string" where
  "placeholder_text esc params i = (if i \<ge> length params then ''?'' else esc (params ! i))"

definition buildSql :: "(Value \<Rightarrow> string) \<Rightarrow> string \<Rightarrow> Params \<Rightarrow> Status + string" where
  "buildSql esc sql params =
     (let (out, used) = replacePlaceholders sql (placeholder_text esc params) in
      if used \<noteq> length params then
        Inl (error QueryError (''parameter mismatch: supplied '' @ to_string (length params)
          @ '' parameter(s) but SQL has '' @ to_string used @ '' '' @ [SQ] @ ''?'' @ [SQ] @ '' placeholder(s)''))
      else Inr out)"

section \<open>Rendering for logs\<close>

record SqlRenderOptions =
  includeStringValues :: bool
  includeBlobValues :: bool
  maxParamLength :: nat
  maxSqlLength :: nat

definition limited_text :: "SqlRenderOptions \<Rightarrow> string \<Rightarrow> string" where
  "limited_text opts s =
     (if length s > maxParamLength opts then take (maxParamLength opts) s @ ''...[truncated]'' else s)"

definition renderTypedText :: "(Value \<Rightarrow> string) \<Rightarrow> SqlRenderOptions \<Rightarrow> string \<Rightarrow> string \<Rightarrow> string" where
  "renderTypedText esc opts s type =
     (if \<not> includeStringValues opts then [SQ] @ ''<redacted:'' @ type @ ''>'' @ [SQ]
      else esc (VString (limited_text opts s)))"

definition renderBlob :: "(Value \<Rightarrow> string) \<Rightarrow> SqlRenderOptions \<Rightarrow> 8 word list \<Rightarrow> string" where
  "renderBlob esc opts b =
     (if \<not> includeBlobValues opts then [SQ] @ ''<blob:'' @ to_string (length b) @ '' bytes>'' @ [SQ]
      else esc (VBlob (take (maxParamLength opts) b)) @
        (if length b > maxParamLength opts then
           ''/* truncated, original_bytes='' @ to_string (length b) @ '' */'' else []))"

definition logged_value :: "(Value \<Rightarrow> string) \<Rightarrow> SqlRenderOptions \<Rightarrow> Value \<Rightarrow> string" where
  "logged_value esc opts v =
     (case v of
        VString s \<Rightarrow> if \<not> includeStringValues opts then [SQ] @ ''<redacted>'' @ [SQ] else esc (VString (limited_text opts s))
      | VDecimal s \<Rightarrow> renderTypedText esc opts s ''decimal''
      | VDate s \<Rightarrow> renderTypedText esc opts s ''date''
      | VTime s \<Rightarrow> renderTypedText esc opts s ''time''
      | VUuid s \<Rightarrow> renderTypedText esc opts s ''uuid''
      | VJson s \<Rightarrow> renderTypedText esc opts s ''json''
      | VBlob b \<Rightarrow> renderBlob esc opts b
      | _ \<Rightarrow> esc v)"

definition renderSqlForLogging :: "(Value \<Rightarrow> string) \<Rightarrow> SqlRenderOptions \<Rightarrow> string \<Rightarrow> Params \<Rightarrow> Status + string" where
  "renderSqlForLogging esc opts sql params =
     (let (out, found) = replacePlaceholders sql (placeholder_text (logged_value esc opts) params) in
      if found \<noteq> length params then
        Inl (error QueryError (''SQL placeholder count ('' @ to_string found @ '') does not match params count (''
          @ to_string (length params) @ '')''))
      else if length out > maxSqlLength opts then
        Inr (take (maxSqlLength opts) out @ ''...[truncated, original_length='' @ to_string (length out) @ '']'')
      else Inr out)"

section \<open>Operations built on the driver's primitives\<close>

record 'c connection_ops =
  op_query :: "string \<Rightarrow> 'c \<Rightarrow> (Status \<times> ResultSet) \<times> 'c"
  op_execute :: "string \<Rightarrow> 'c \<Rightarrow> (Status \<times> int) \<times> 'c"
  op_begin :: "'c \<Rightarrow> Status \<times> 'c"
  op_commit :: "'c \<Rightarrow> Status \<times> 'c"
  op_rollback :: "'c \<Rightarrow> Status \<times> 'c"
  op_execute_keys :: "string \<Rightarrow> Params \<Rightarrow> 'c \<Rightarrow> (Status \<times> int \<times> GeneratedKeys) \<times> 'c"
  op_query_params :: "string \<Rightarrow> Params \<Rightarrow> 'c \<Rightarrow> (Status \<times> ResultSet) \<times> 'c"
  allowsLiteralInterpolation :: bool
  op_inTransaction :: "'c \<Rightarrow> bool"

definition unsupported_op :: "string \<Rightarrow> Status" where
  "unsupported_op msg = error NotSupported msg"

definition default_cancel :: "'c \<Rightarrow> Status \<times> 'c" where
  "default_cancel c = (unsupported_op ''driver does not support query cancellation'', c)"

definition default_begin :: "'c connection_ops \<Rightarrow> TransactionOptions \<Rightarrow> 'c \<Rightarrow> Status \<times> 'c" where
  "default_begin ops options c =
     (if isolation options \<noteq> IsolationDefault \<or> to_readOnly options then
        (unsupported_op ''driver does not support transaction options'', c)
      else op_begin ops c)"

definition default_savepoint :: "string \<Rightarrow> 'c \<Rightarrow> Status \<times> 'c" where
  "default_savepoint name c = (unsupported_op ''driver does not support savepoints'', c)"

definition default_prepare :: "string \<Rightarrow> Params \<Rightarrow> 'c \<Rightarrow> Status \<times> 'c" where
  "default_prepare sql sample c = (unsupported_op ''driver does not support prepared statements'', c)"

definition default_executePrepared_query :: "Params \<Rightarrow> 'c \<Rightarrow> (Status \<times> ResultSet) \<times> 'c" where
  "default_executePrepared_query params c = ((unsupported_op ''driver does not support prepared statements'', empty_rs), c)"

definition default_executePrepared :: "Params \<Rightarrow> 'c \<Rightarrow> (Status \<times> int) \<times> 'c" where
  "default_executePrepared params c = ((unsupported_op ''driver does not support prepared statements'', 0), c)"

definition default_openCursor :: "string \<Rightarrow> Params \<Rightarrow> 'c \<Rightarrow> Status \<times> 'c" where
  "default_openCursor sql params c = (unsupported_op ''driver does not support cursors'', c)"

definition default_call :: "string \<Rightarrow> 'c \<Rightarrow> (Status \<times> CallOutput) \<times> 'c" where
  "default_call sql c = ((unsupported_op ''driver does not support callable parameters'', empty_call), c)"

definition query_any :: "'c connection_ops \<Rightarrow> string \<Rightarrow> Params \<Rightarrow> 'c \<Rightarrow> (Status \<times> ResultSet) \<times> 'c" where
  "query_any ops sql params c = (if params = [] then op_query ops sql c else op_query_params ops sql params c)"

text \<open>The rows a callback sees: up to and including the first it refuses.\<close>

fun each_rows :: "(Row \<Rightarrow> bool) option \<Rightarrow> Row list \<Rightarrow> nat" where
  "each_rows callback [] = 0"
| "each_rows callback (r # rs) =
     (case callback of
        Some f \<Rightarrow> if f r then 1 + each_rows callback rs else 1
      | None \<Rightarrow> 1 + each_rows callback rs)"

definition default_queryEach :: "'c connection_ops \<Rightarrow> string \<Rightarrow> Params \<Rightarrow> (Row \<Rightarrow> bool) option \<Rightarrow> 'c \<Rightarrow> (Status \<times> nat) \<times> 'c" where
  "default_queryEach ops sql params callback c =
     (case query_any ops sql params c of
        ((st, rs), c') \<Rightarrow> if \<not> status_ok st then ((st, 0), c') else ((OK, each_rows callback (rs_rows rs)), c'))"

definition default_queryAll :: "'c connection_ops \<Rightarrow> string \<Rightarrow> Params \<Rightarrow> 'c \<Rightarrow> (Status \<times> ResultSet list) \<times> 'c" where
  "default_queryAll ops sql params c =
     (case query_any ops sql params c of
        ((st, rs), c') \<Rightarrow>
          if \<not> status_ok st then ((st, []), c')
          else ((OK, if rs_fields rs \<noteq> [] \<or> rs_rows rs \<noteq> [] then [rs] else []), c'))"

definition default_query_params :: "'c connection_ops \<Rightarrow> (Value \<Rightarrow> string) \<Rightarrow> string \<Rightarrow> Params \<Rightarrow> ResultSet \<Rightarrow> 'c \<Rightarrow>
    (Status \<times> ResultSet) \<times> 'c" where
  "default_query_params ops esc sql params out c =
     (if \<not> allowsLiteralInterpolation ops then
        ((unsupported_op ''driver does not implement native parameter binding'', out), c)
      else case buildSql esc sql params of Inl st \<Rightarrow> ((st, out), c) | Inr built \<Rightarrow> op_query ops built c)"

definition default_execute_params :: "'c connection_ops \<Rightarrow> (Value \<Rightarrow> string) \<Rightarrow> string \<Rightarrow> Params \<Rightarrow> int \<Rightarrow> 'c \<Rightarrow>
    (Status \<times> int) \<times> 'c" where
  "default_execute_params ops esc sql params affected c =
     (if \<not> allowsLiteralInterpolation ops then
        ((unsupported_op ''driver does not implement native parameter binding'', 0), c)
      else case buildSql esc sql params of Inl st \<Rightarrow> ((st, affected), c) | Inr built \<Rightarrow> op_execute ops built c)"

text \<open>A driver that reports no generated keys leaves them empty.\<close>

definition default_execute_keys :: "'c connection_ops \<Rightarrow> string \<Rightarrow> 'c \<Rightarrow> (Status \<times> int \<times> GeneratedKeys) \<times> 'c" where
  "default_execute_keys ops sql c =
     (case op_execute ops sql c of ((st, affected), c') \<Rightarrow> ((st, affected, empty_rs), c'))"

definition default_execute_params_keys :: "'c connection_ops \<Rightarrow> (Value \<Rightarrow> string) \<Rightarrow> string \<Rightarrow> Params \<Rightarrow> int \<Rightarrow> 'c \<Rightarrow>
    (Status \<times> int \<times> GeneratedKeys) \<times> 'c" where
  "default_execute_params_keys ops esc sql params affected0 c =
     (case default_execute_params ops esc sql params affected0 c of ((st, affected), c') \<Rightarrow> ((st, affected, empty_rs), c'))"

text \<open>The rows of a batch, up to the first that fails.\<close>

fun batch_rows :: "'c connection_ops \<Rightarrow> string \<Rightarrow> Params list \<Rightarrow> BatchResult \<Rightarrow> 'c \<Rightarrow> (Status \<times> BatchResult) \<times> 'c" where
  "batch_rows ops sql [] out c = ((OK, out), c)"
| "batch_rows ops sql (params # batch) out c =
     (case op_execute_keys ops sql params c of
        ((st, affected, keys), c') \<Rightarrow>
          if \<not> status_ok st then ((st, out), c')
          else batch_rows ops sql batch (out\<lparr>br_affected := br_affected out @ [affected], br_keys := br_keys out @ [keys]\<rparr>) c')"

definition batch_mismatch :: "Params list \<Rightarrow> Status option" where
  "batch_mismatch batch =
     (case List.find (\<lambda>params. length params \<noteq> length (hd batch)) batch of
        None \<Rightarrow> None
      | Some params \<Rightarrow>
          Some (error QueryError (''parameter mismatch: batch parameter groups must all contain ''
            @ to_string (length (hd batch)) @ '' value(s), but one contains '' @ to_string (length params))))"

definition default_executeBatch :: "'c connection_ops \<Rightarrow> string \<Rightarrow> Params list \<Rightarrow> 'c \<Rightarrow> (Status \<times> BatchResult) \<times> 'c" where
  "default_executeBatch ops sql batch c =
     (if batch = [] then ((OK, empty_batch), c)
      else case batch_mismatch batch of
        Some st \<Rightarrow> ((st, empty_batch), c)
      | None \<Rightarrow>
          (let ownTx = \<not> op_inTransaction ops c;
               (st0, c0) = (if ownTx then op_begin ops c else (OK, c))
           in if \<not> status_ok st0 then ((st0, empty_batch), c0)
              else case batch_rows ops sql batch empty_batch c0 of
                ((st, out), c1) \<Rightarrow>
                  if \<not> status_ok st then
                    ((st, empty_batch), if ownTx then snd (op_rollback ops c1) else c1)
                  else if \<not> ownTx then ((st, out), c1)
                  else (case op_commit ops c1 of
                      (st2, c2) \<Rightarrow>
                        if \<not> status_ok st2 then ((st2, empty_batch), snd (op_rollback ops c2))
                        else ((st, out), c2))))"

definition default_query_stream :: "'c connection_ops \<Rightarrow> string \<Rightarrow> StreamParam list \<Rightarrow> 'c \<Rightarrow> (Status \<times> ResultSet) \<times> 'c" where
  "default_query_stream ops sql params c =
     (case streamParamsToParams params of (st, plain) \<Rightarrow>
        if \<not> status_ok st then ((st, empty_rs), c) else op_query_params ops sql plain c)"

definition default_execute_stream :: "'c connection_ops \<Rightarrow> string \<Rightarrow> StreamParam list \<Rightarrow> 'c \<Rightarrow>
    (Status \<times> int \<times> GeneratedKeys) \<times> 'c" where
  "default_execute_stream ops sql params c =
     (case streamParamsToParams params of (st, plain) \<Rightarrow>
        if \<not> status_ok st then ((st, 0, empty_rs), c) else op_execute_keys ops sql plain c)"

definition default_executeBatch_stream :: "'c connection_ops \<Rightarrow> string \<Rightarrow> StreamParam list list \<Rightarrow> 'c \<Rightarrow>
    (Status \<times> BatchResult) \<times> 'c" where
  "default_executeBatch_stream ops sql batch c =
     (case find (\<lambda>row. \<not> status_ok (fst (streamParamsToParams row))) batch of
        Some row \<Rightarrow> ((fst (streamParamsToParams row), empty_batch), c)
      | None \<Rightarrow> default_executeBatch ops sql (map (snd \<circ> streamParamsToParams) batch) c)"

section \<open>Replacement keeps the text\<close>

text \<open>The stretches of a text with something in between, numbered from \<open>k\<close>.\<close>

fun weave :: "string list \<Rightarrow> (nat \<Rightarrow> string) \<Rightarrow> nat \<Rightarrow> string" where
  "weave [] v k = []"
| "weave [p] v k = p"
| "weave (p # q # ps) v k = p @ v k @ weave (q # ps) v (k + 1)"

lemma weave_hd: "ps \<noteq> [] \<Longrightarrow> weave ((x @ hd ps) # tl ps) v k = x @ weave ps v k"
  by (cases "(ps, v, k)" rule: weave.cases) auto

lemma consumed_rest: "suffix r s \<Longrightarrow> consumed s r @ r = s"
  using suffix_split by force

lemma ph_loop_weave:
  "\<exists>pieces. pieces \<noteq> [] \<and> s = weave pieces (\<lambda>_. ''?'') k \<and>
     (\<forall>visitor out. ph_loop visitor prev k out s = (out @ weave pieces visitor k, k + length pieces - 1))"
proof (induction s arbitrary: prev k rule: length_induct)
  case (1 s)
  show ?case
  proof (cases s)
    case Nil
    show ?thesis by (rule exI [of _ "[[]]"]) (simp add: Nil)
  next
    case (Cons c cs)
    show ?thesis
    proof (cases "c = CHR ''?''")
      case True
      from "1.IH" Cons obtain ps where ps: "ps \<noteq> []" "cs = weave ps (\<lambda>_. ''?'') (k + 1)"
        "\<And>visitor out. ph_loop visitor (Some c) (k + 1) out cs = (out @ weave ps visitor (k + 1), k + 1 + length ps - 1)"
        by (metis length_Cons lessI)
      obtain q qs where q: "ps = q # qs" using ps(1) by (cases ps) auto
      show ?thesis
        by (rule exI [of _ "[] # ps"]) (use ps True Cons q in \<open>simp add: ph_loop.simps(2)\<close>)
    next
      case False
      define r where "r = ph_rest prev c cs"
      have suf: "suffix r s" using ph_rest_suffix [of prev c cs] Cons by (simp add: r_def suffix_Cons)
      have "length r < length s" using ph_rest_forward [of prev c cs] Cons by (simp add: r_def)
      with "1.IH" obtain ps where ps: "ps \<noteq> []" "r = weave ps (\<lambda>_. ''?'') k"
        "\<And>visitor out. ph_loop visitor (Some (prev_after s r)) k out r = (out @ weave ps visitor k, k + length ps - 1)"
        by metis
      have s: "consumed s r @ r = s" by (rule consumed_rest [OF suf])
      show ?thesis
      proof (intro exI conjI allI)
        show "(consumed s r @ hd ps) # tl ps \<noteq> []" by simp
        show "s = weave ((consumed s r @ hd ps) # tl ps) (\<lambda>_. ''?'') k"
          using ps(1,2) s by (simp add: weave_hd)
        fix visitor out
        have "ph_loop visitor prev k out s = ph_loop visitor (Some (prev_after s r)) k (out @ consumed s r) r"
          using False by (simp add: Cons ph_loop.simps(2) r_def [symmetric] Let_def)
        also have "\<dots> = (out @ consumed s r @ weave ps visitor k, k + length ps - 1)" using ps(3) by simp
        finally show "ph_loop visitor prev k out s =
            (out @ weave ((consumed s r @ hd ps) # tl ps) visitor k, k + length ((consumed s r @ hd ps) # tl ps) - 1)"
          using ps(1) by (simp add: weave_hd)
      qed
    qed
  qed
qed

text \<open>
  A statement falls into stretches of text with a question mark between each two of them, the
  same for every visitor; the replacement keeps the stretches and puts the visitor's texts in
  order between them, and buildSql succeeds exactly when there are as many values as question
  marks.
\<close>

theorem replacePlaceholders_weaves:
  "\<exists>pieces. pieces \<noteq> [] \<and> weave pieces (\<lambda>_. ''?'') 0 = sql \<and>
     (\<forall>visitor. replacePlaceholders sql visitor = (weave pieces visitor 0, length pieces - 1)) \<and>
     (\<forall>esc params. buildSql esc sql params =
        (if length pieces - 1 = length params then Inr (weave pieces (\<lambda>i. esc (params ! i)) 0)
         else Inl (error QueryError (''parameter mismatch: supplied '' @ to_string (length params)
          @ '' parameter(s) but SQL has '' @ to_string (length pieces - 1) @ '' '' @ [SQ] @ ''?'' @ [SQ] @ '' placeholder(s)''))))"
proof -
  obtain ps where ps: "ps \<noteq> []" "sql = weave ps (\<lambda>_. ''?'') 0"
    "\<And>visitor out. ph_loop visitor None 0 out sql = (out @ weave ps visitor 0, 0 + length ps - 1)"
    using ph_loop_weave [of sql 0 None] by blast
  have cong: "weave qs v k = weave qs w k" if "\<And>i. k \<le> i \<Longrightarrow> Suc i < k + length qs \<Longrightarrow> v i = w i" for qs v w k
    using that
  proof (induction qs v k rule: weave.induct)
    case (3 p q ps v k)
    from "3.prems" [of k] have "v k = w k" by simp
    moreover have "weave (q # ps) v (k + 1) = weave (q # ps) w (k + 1)" by (rule "3.IH") (use "3.prems" in auto)
    ultimately show ?case by simp
  qed simp_all
  have "weave ps (placeholder_text esc params) 0 = weave ps (\<lambda>i. esc (params ! i)) 0"
    if "length ps - 1 = length params" for esc params
    by (rule cong) (use that in \<open>auto simp: placeholder_text_def\<close>)
  then show ?thesis using ps by (intro exI [of _ ps]) (auto simp: replacePlaceholders_def buildSql_def)
qed

section \<open>Logs hide values\<close>

text \<open>What a log may tell of a value when neither strings nor binary values are included.\<close>

definition hidden :: "Value \<Rightarrow> Value" where
  "hidden v =
     (case v of
        VString _ \<Rightarrow> VString [] | VDecimal _ \<Rightarrow> VDecimal [] | VDate _ \<Rightarrow> VDate [] | VTime _ \<Rightarrow> VTime []
      | VUuid _ \<Rightarrow> VUuid [] | VJson _ \<Rightarrow> VJson [] | VBlob b \<Rightarrow> VBlob (replicate (length b) 0) | _ \<Rightarrow> v)"

lemma logged_value_hidden:
  "\<not> includeStringValues opts \<Longrightarrow> \<not> includeBlobValues opts \<Longrightarrow> logged_value esc opts (hidden v) = logged_value esc opts v"
  by (cases v) (simp_all add: logged_value_def hidden_def renderTypedText_def renderBlob_def)

text \<open>
  C37: With strings and blobs excluded, the logged form of a statement is the same for
  parameters that differ only in the contents of texts, decimals, dates, times, UUIDs, JSON
  texts and equally long blobs.
\<close>

theorem log_hides_values:
  assumes "\<not> includeStringValues opts" "\<not> includeBlobValues opts" "map hidden ps = map hidden qs"
  shows "renderSqlForLogging esc opts sql ps = renderSqlForLogging esc opts sql qs"
proof -
  have len: "length ps = length qs" using assms(3) map_eq_imp_length_eq by blast
  have "placeholder_text (logged_value esc opts) ps = placeholder_text (logged_value esc opts) qs"
  proof
    fix i
    have "hidden (ps ! i) = hidden (qs ! i)" if "i < length ps"
      using that len assms(3) by (metis nth_map)
    then show "placeholder_text (logged_value esc opts) ps i = placeholder_text (logged_value esc opts) qs i"
      using len logged_value_hidden [OF assms(1,2)] by (simp add: placeholder_text_def) (metis not_le_imp_less)
  qed
  then show ?thesis unfolding renderSqlForLogging_def by (simp only: len)
qed

text \<open>Strings inside arrays and composites are rendered in full.\<close>

lemma log_shows_nested_strings:
  "renderSqlForLogging (escapeLiteralGeneric e)
     \<lparr>includeStringValues = False, includeBlobValues = False, maxParamLength = 256, maxSqlLength = 8192\<rparr>
     ''?'' [VArray [VString ''secret'']] = Inr (''ARRAY['' @ [SQ] @ ''secret'' @ [SQ] @ '']'')"
  by (simp add: renderSqlForLogging_def replacePlaceholders_def ph_loop.simps placeholder_text_def logged_value_def quoteText_def)

section \<open>A batch is all or nothing\<close>

text \<open>
  What a driver promises of transactions: \<open>committed\<close> is the data other connections see, \<open>T\<close> says
  that a transaction is open. Inside a transaction statements change no committed data; a rollback
  never does.
\<close>

definition tx_contract :: "'c connection_ops \<Rightarrow> ('c \<Rightarrow> 'd) \<Rightarrow> ('c \<Rightarrow> bool) \<Rightarrow> bool" where
  "tx_contract ops committed T \<longleftrightarrow>
     (\<forall>c. committed (snd (op_begin ops c)) = committed c \<and> (status_ok (fst (op_begin ops c)) \<longrightarrow> T (snd (op_begin ops c)))) \<and>
     (\<forall>sql ps c st x c'. T c \<longrightarrow> op_execute_keys ops sql ps c = ((st, x), c') \<longrightarrow>
        committed c' = committed c \<and> (status_ok st \<longrightarrow> T c')) \<and>
     (\<forall>c. committed (snd (op_rollback ops c)) = committed c) \<and>
     (\<forall>c. op_inTransaction ops c \<longrightarrow> T c)"

lemma batch_rows_keeps:
  assumes "tx_contract ops committed T" "T c" "batch_rows ops sql batch out c = ((st, out'), c')"
  shows "committed c' = committed c \<and> (status_ok st \<longrightarrow> T c' \<and>
    length (br_affected out') = length (br_affected out) + length batch \<and>
    length (br_keys out') = length (br_keys out) + length batch)"
  using assms(2,3)
proof (induction batch arbitrary: out c)
  case (Cons params batch)
  obtain st1 a k c1 where e: "op_execute_keys ops sql params c = ((st1, a, k), c1)" by (metis prod.collapse)
  have c1: "committed c1 = committed c" "status_ok st1 \<Longrightarrow> T c1"
    using assms(1) Cons.prems(1) e unfolding tx_contract_def by metis+
  show ?case
  proof (cases "status_ok st1")
    case True
    then show ?thesis using Cons.IH [OF c1(2) [OF True]] Cons.prems(2) c1(1) e by fastforce
  next
    case False
    then show ?thesis using Cons.prems(2) c1 e by auto
  qed
qed simp

text \<open>
  C24: A batch run by the default implementation reports one result per parameter group when it
  succeeds; when it fails it reports none, and on a driver that keeps the transaction contract
  the committed data is as before, unless the commit itself failed; inside an open transaction
  nothing is committed.
\<close>

theorem batch_all_or_nothing:
  assumes "tx_contract ops committed T" "default_executeBatch ops sql batch c = ((st, out), c')"
  shows "(status_ok st \<longrightarrow> length (br_affected out) = length batch \<and> length (br_keys out) = length batch) \<and>
    (op_inTransaction ops c \<longrightarrow> committed c' = committed c) \<and>
    (\<not> status_ok st \<longrightarrow> out = empty_batch \<and>
       (committed c' = committed c \<or>
        (\<exists>c1. committed c1 = committed c \<and> \<not> status_ok (fst (op_commit ops c1)) \<and>
              c' = snd (op_rollback ops (snd (op_commit ops c1))))))"
proof -
  have rb: "committed (snd (op_rollback ops c)) = committed c" for c using assms(1) by (simp add: tx_contract_def)
  have empty: "length (br_affected empty_batch) = 0" "length (br_keys empty_batch) = 0" by (simp_all add: empty_batch_def)
  consider (none) "batch = []" | (bad) st0 where "batch \<noteq> []" "batch_mismatch batch = Some st0"
    | (run) "batch \<noteq> []" "batch_mismatch batch = None" by fastforce
  then show ?thesis
  proof cases
    case none
    then show ?thesis using assms(2) empty by (auto simp: default_executeBatch_def)
  next
    case bad
    then have "\<not> status_ok st0" by (auto simp: batch_mismatch_def split: option.splits)
    then show ?thesis using bad assms(2) by (auto simp: default_executeBatch_def)
  next
    case run
    define own where "own = (\<not> op_inTransaction ops c)"
    obtain st0 c0 where b: "(if own then op_begin ops c else (OK, c)) = (st0, c0)" by fastforce
    have c0: "committed c0 = committed c" "status_ok st0 \<Longrightarrow> T c0"
      using b assms(1) by (auto simp: tx_contract_def own_def split: if_splits) (metis fst_conv snd_conv)+
    obtain st1 out1 c1 where r: "batch_rows ops sql batch empty_batch c0 = ((st1, out1), c1)" by (metis prod.collapse)
    obtain st2 c2 where k: "op_commit ops c1 = (st2, c2)" by fastforce
    have ex: "default_executeBatch ops sql batch c =
      (if \<not> status_ok st0 then ((st0, empty_batch), c0)
       else if \<not> status_ok st1 then ((st1, empty_batch), if own then snd (op_rollback ops c1) else c1)
       else if \<not> own then ((st1, out1), c1)
       else if \<not> status_ok st2 then ((st2, empty_batch), snd (op_rollback ops c2)) else ((st1, out1), c2))"
      using run b r k by (simp add: default_executeBatch_def own_def [symmetric] Let_def)
    show ?thesis
    proof (cases "status_ok st0")
      case True
      note c1 = batch_rows_keeps [OF assms(1) c0(2) [OF True] r]
      show ?thesis using ex assms(2) True c1 c0(1) rb [of c1] empty k
        by (auto simp: own_def split: if_splits intro!: exI [of _ c1])
    next
      case False
      then show ?thesis using ex assms(2) c0(1) b by (auto simp: own_def split: if_splits)
    qed
  qed
qed

section \<open>Witnesses\<close>

theorem log_hides_values_witness:
  "renderSqlForLogging (\<lambda>_. ''NULL'')
     \<lparr>includeStringValues = False, includeBlobValues = False, maxParamLength = 256, maxSqlLength = 8192\<rparr>
     ''SELECT ?'' [VString ''abc''] =
   renderSqlForLogging (\<lambda>_. ''NULL'')
     \<lparr>includeStringValues = False, includeBlobValues = False, maxParamLength = 256, maxSqlLength = 8192\<rparr>
     ''SELECT ?'' [VString ''xy'']"
  by (rule log_hides_values) (simp_all add: hidden_def)

text \<open>
  A driver that counts: the rows committed, the rows staged while a transaction is open, and the
  transaction flag. A row without values fails.
\<close>

definition counting_ops :: "(nat \<times> nat \<times> bool) connection_ops" where
  "counting_ops = \<lparr>op_query = (\<lambda>sql c. ((OK, empty_rs), c)), op_execute = (\<lambda>sql c. ((OK, 0), c)),
     op_begin = (\<lambda>(n, k, t). (OK, (n, 0, True))),
     op_commit = (\<lambda>(n, k, t). (OK, (n + k, 0, False))),
     op_rollback = (\<lambda>(n, k, t). (OK, (n, 0, False))),
     op_execute_keys = (\<lambda>sql ps (n, k, t). if ps = [] then ((error QueryError ''no value'', 0, empty_rs), (n, k, t))
        else if t then ((OK, 1, empty_rs), (n, k + 1, t)) else ((OK, 1, empty_rs), (n + 1, k, t))),
     op_query_params = (\<lambda>sql ps c. ((OK, empty_rs), c)), allowsLiteralInterpolation = False,
     op_inTransaction = (\<lambda>(n, k, t). t)\<rparr>"

lemma counting_contract: "tx_contract counting_ops fst (\<lambda>(n, k, t). t)"
  by (auto simp: tx_contract_def counting_ops_def split: if_splits)

theorem batch_all_or_nothing_witness:
  "\<exists>st out. default_executeBatch counting_ops ''INSERT'' [[VNull], [VNull]] (5, 0, False) = ((st, out), (7, 0, False)) \<and>
     length (br_affected out) = 2"
proof -
  obtain st out c' where r: "default_executeBatch counting_ops ''INSERT'' [[VNull], [VNull]] (5, 0, False) = ((st, out), c')"
    by (metis prod.collapse)
  then have "status_ok st" "c' = (7, 0, False)"
    by (auto simp: default_executeBatch_def batch_mismatch_def counting_ops_def)
  then show ?thesis using batch_all_or_nothing [OF counting_contract r] r by auto
qed

end
