(* ===== verification/Pagination.thy ===== *)
theory Pagination
  imports Connection SqlBuilder
begin

text \<open>
  Pages of a query: \<^verbatim>\<open>src/common/pagination.cpp\<close>, \<^verbatim>\<open>src/client_pagination.cpp\<close> and
  \<^verbatim>\<open>include/sqlconduit/pagination.h\<close>: the lexical check of a statement, the statement of a page, the
  trimming of its rows, the total, the synchronous page and the completion of the
  asynchronous one. 64-bit page numbers are \<open>int\<close> with the checks of the code; the values bound
  to the statement have their width. The query function of a source or of a session is an
  argument.
\<close>

type_synonym Statement = "string \<times> Params"

section \<open>The lexical check\<close>

definition page_invalid :: "string \<Rightarrow> Status" where
  "page_invalid msg = error QueryError (''pagination: '' @ msg)"

text \<open>
  One iteration: a message to fail with, or the tokens it adds at depth 0, the new depth and the
  rest.
\<close>

type_synonym clause_event = "string + (string list \<times> nat \<times> string)"

definition opaque :: "nat \<Rightarrow> string option \<Rightarrow> string \<Rightarrow> clause_event" where
  "opaque depth r msg = (case r of None \<Rightarrow> Inl msg | Some s \<Rightarrow> Inr (if depth = 0 then [''_''] else [], depth, s))"

definition clause_dollar :: "nat \<Rightarrow> string \<Rightarrow> clause_event" where
  "clause_dollar depth cs =
     (let tag = takeWhile isIdent cs; r = dropWhile isIdent cs in
      if r \<noteq> [] \<and> hd r = CHR ''$'' \<and> (tag = [] \<or> \<not> isdigit (hd cs)) then
        (let delimiter = CHR ''$'' # tag @ ''$'' in
         opaque depth (map_option (\<lambda>k. drop (k + length delimiter) (tl r)) (str_find delimiter (tl r)))
           ''unterminated dollar literal'')
      else Inl ''use portable positional or named binding, not dollar placeholders'')"

definition clause_step :: "char option \<Rightarrow> nat \<Rightarrow> char \<Rightarrow> string \<Rightarrow> clause_event" where
  "clause_step prev depth c cs =
     (if c = NUL \<or> c = CHR '';'' \<or> c = CHR ''#'' then
        Inl ''omit terminators, NUL and dialect-ambiguous hash syntax''
      else if isspace c then Inr ([], depth, cs)
      else if c = CHR ''-'' \<and> prefix ''-'' cs then Inr ([], depth, tl (dropWhile (\<lambda>x. x \<noteq> NL) cs))
      else if c = CHR ''/'' \<and> prefix ''*'' cs then
        (if prefix ''*!'' cs then Inl ''executable comments are unsupported''
         else case close_comment 1 (tl cs) of None \<Rightarrow> Inl ''unterminated comment'' | Some r \<Rightarrow> Inr ([], depth, r))
      else if (c = CHR ''q'' \<or> c = CHR ''Q'') \<and> length cs > 1 \<and> hd cs = SQ then
        opaque depth (map_option (\<lambda>k. drop (k + 2) (drop 2 cs)) (str_find [q_close (cs ! 1), SQ] (drop 2 cs)))
          ''unterminated alternative literal''
      else if c = CHR ''$'' then clause_dollar depth cs
      else if c = SQ \<or> c = DQ \<or> c = BQ \<or> (c = CHR ''['' \<and> ph_bracket prev) then
        opaque depth (close_quoted c (if c = CHR ''['' then CHR '']'' else c) cs) ''unterminated quoted text''
      else if c = CHR ''('' then Inr (if depth = 0 then [''_''] else [], depth + 1, cs)
      else if c = CHR '')'' then (if depth = 0 then Inl ''unbalanced parentheses'' else Inr ([], depth - 1, cs))
      else if isIdent c then
        Inr (if depth = 0 then [map toupper (takeWhile isIdent (c # cs))] else [], depth, dropWhile isIdent cs)
      else Inr ([], depth, cs))"

text \<open>An iteration leaves a suffix of its input.\<close>

definition moves_on :: "string \<Rightarrow> clause_event \<Rightarrow> bool" where
  "moves_on cs e \<longleftrightarrow> (case e of Inl _ \<Rightarrow> True | Inr (ts, d, r) \<Rightarrow> suffix r cs)"

lemma moves_on_simps [simp]: "moves_on cs (Inl m)" "moves_on cs (Inr (ts, d, r)) \<longleftrightarrow> suffix r cs"
  by (simp_all add: moves_on_def)

lemma moves_on_opaque: "(\<And>r. x = Some r \<Longrightarrow> suffix r cs) \<Longrightarrow> moves_on cs (opaque depth x msg)"
  by (cases x) (simp_all add: opaque_def)

lemma suffix_tl_dropWhile: "suffix (drop k (tl (dropWhile f cs))) cs"
  by (meson suffix_drop suffix_dropWhile suffix_order.trans suffix_tl)

lemma moves_on_dollar: "moves_on cs (clause_dollar depth cs)"
  unfolding clause_dollar_def Let_def
  by (intro if_branches [where P = "moves_on cs"] moves_on_opaque) (auto simp: suffix_tl_dropWhile)

lemma moves_on_if: "moves_on cs x \<Longrightarrow> moves_on cs y \<Longrightarrow> moves_on cs (if b then x else y)"
  by simp

lemma clause_step_moves_on: "moves_on cs (clause_step prev depth c cs)"
proof -
  have cm: "suffix r cs" if "close_comment 1 (tl cs) = Some r" for r
    using close_comment_suffix [OF that] by (meson suffix_order.trans suffix_tl)
  have q: "suffix (drop (k + 2) (drop 2 cs)) cs" for k by (simp add: suffix_drop)
  show ?thesis
    unfolding clause_step_def
    by (intro moves_on_if option_branches [where P = "moves_on cs"] moves_on_opaque)
      (use suffix_tl_dropWhile [of 0] cm q in \<open>auto simp: suffix_dropWhile moves_on_dollar close_quoted_suffix\<close>)
qed

lemma clause_step_forward: "clause_step prev depth c cs = Inr (ts, d, r) \<Longrightarrow> length r \<le> length cs"
  using clause_step_moves_on [of cs prev depth c] by (simp add: suffix_length_le)

function clause_loop :: "char option \<Rightarrow> nat \<Rightarrow> string list \<Rightarrow> string \<Rightarrow> Status + string list" where
  "clause_loop prev depth tokens [] =
     (if depth \<noteq> 0 then Inl (page_invalid ''unbalanced parentheses'') else Inr tokens)"
| "clause_loop prev depth tokens (c # cs) =
     (case clause_step prev depth c cs of
        Inl msg \<Rightarrow> Inl (page_invalid msg)
      | Inr (ts, d, r) \<Rightarrow> clause_loop (Some (prev_after (c # cs) r)) d (tokens @ ts) r)"
  by pat_completeness auto
termination
  by (relation "measure (\<lambda>(prev, depth, tokens, s). length s)") (auto simp: le_imp_less_Suc clause_step_forward)

definition clauses :: "string \<Rightarrow> Status + string list" where
  "clauses sql =
     (if NUL \<in> set sql then Inl (page_invalid ''NUL bytes are unsupported, including inside quoted text'')
      else clause_loop None 0 [] sql)"

definition page_forbidden :: "string \<Rightarrow> bool" where
  "page_forbidden t \<longleftrightarrow>
     t \<in> {''LIMIT'', ''OFFSET'', ''FETCH'', ''TOP'', ''INTO'', ''FOR'', ''LOCK'', ''OPTION''}"

text \<open>\<^verbatim>\<open>ORDER BY\<close> with something behind it.\<close>

fun page_ordered :: "string list \<Rightarrow> bool" where
  "page_ordered (t # u # v # ts) \<longleftrightarrow> t = ''ORDER'' \<and> u = ''BY'' \<or> page_ordered (u # v # ts)"
| "page_ordered _ \<longleftrightarrow> False"

definition validateSelect :: "string \<Rightarrow> bool \<Rightarrow> Status" where
  "validateSelect sql requireOrder =
     (case clauses sql of
        Inl st \<Rightarrow> st
      | Inr tokens \<Rightarrow>
          if tokens = [] \<or> hd tokens \<noteq> ''SELECT'' then
            page_invalid ''requires a SELECT; wrap or handle CTEs explicitly''
          else if list_ex page_forbidden (tl tokens) then
            page_invalid ''existing pagination, SELECT INTO, locking and trailing options are unsupported''
          else if requireOrder \<and> \<not> page_ordered (tl tokens) then
            page_invalid ''requires a stable top-level ORDER BY including a unique tie-breaker''
          else OK)"

section \<open>The statement of a page\<close>

record PageQuery =
  pq_status :: Status
  pq_statement :: Statement
  pq_count :: "Statement option"
  pq_dialect :: Dialect

record PageOptions =
  po_page :: int
  po_size :: int
  po_total :: bool
  po_dialect :: Dialect
  po_count :: "Statement option"

definition int64_max :: int where
  "int64_max = 2 ^ 63 - 1"

definition page_int :: "int \<Rightarrow> Value" where
  "page_int k = VInt64 (word_of_int k)"

definition page_dialect :: "PageQuery \<Rightarrow> PageOptions \<Rightarrow> Dialect \<Rightarrow> Dialect" where
  "page_dialect query opts detected =
     (if po_dialect opts \<noteq> Auto then po_dialect opts
      else if pq_dialect query \<noteq> Auto then pq_dialect query else detected)"

definition page_statement :: "Dialect \<Rightarrow> Statement \<Rightarrow> int \<Rightarrow> int \<Rightarrow> Statement" where
  "page_statement dialect stmt sz offset =
     (if dialect = MySQL \<or> dialect = Postgres then
        (fst stmt @ [NL] @ ''LIMIT ? OFFSET ?'', snd stmt @ [page_int (sz + 1), page_int offset])
      else (fst stmt @ [NL] @ ''OFFSET ? ROWS FETCH NEXT ? ROWS ONLY'', snd stmt @ [page_int offset, page_int (sz + 1)]))"

definition preparePage :: "PageQuery \<Rightarrow> PageOptions \<Rightarrow> Dialect \<Rightarrow> Status + Statement \<times> Statement option" where
  "preparePage query opts detected =
     (if \<not> status_ok (pq_status query) then Inl (pq_status query)
      else if po_page opts < 1 \<or> po_size opts < 1 \<or> po_size opts = int64_max \<or>
          po_page opts - 1 > (int64_max - po_size opts - 1) div po_size opts then
        Inl (page_invalid ''invalid page/size or offset overflow'')
      else let st = validateSelect (fst (pq_statement query)) True in
        if \<not> status_ok st then Inl st
        else let cnt = (if po_count opts \<noteq> None then po_count opts else pq_count query) in
          if po_total opts \<and> cnt = None then
            Inl (page_invalid ''explicit COUNT required for raw SQL; use Builder::buildPage for generated COUNT'')
          else if po_total opts \<and> \<not> status_ok (validateSelect (fst (the cnt)) False) then
            Inl (validateSelect (fst (the cnt)) False)
          else let dialect = page_dialect query opts detected in
            if dialect = Auto then
              Inl (error NotSupported ''pagination requires an explicit dialect for a custom driver'')
            else Inr (page_statement dialect (pq_statement query) (po_size opts) ((po_page opts - 1) * po_size opts),
                      if po_total opts then cnt else None))"

section \<open>The rows of a page\<close>

record PageRows =
  pr_status :: Status
  pr_rows :: ResultSet
  pr_page :: int
  pr_size :: int
  pr_hasNext :: bool
  pr_total :: "int option"
  pr_mode :: ExecutionMode

definition emptyPage :: "PageOptions \<Rightarrow> PageRows" where
  "emptyPage opts = \<lparr>pr_status = OK, pr_rows = empty_rs, pr_page = po_page opts, pr_size = po_size opts,
     pr_hasNext = False, pr_total = None, pr_mode = CompatibilityFallback\<rparr>"

definition finishPageRows :: "PageRows \<Rightarrow> PageRows" where
  "finishPageRows p =
     (if \<not> status_ok (pr_status p) then p\<lparr>pr_rows := empty_rs, pr_hasNext := False, pr_total := None\<rparr>
      else let more = int (length (rs_rows (pr_rows p))) > pr_size p in
        if more then p\<lparr>pr_hasNext := True,
          pr_rows := (pr_rows p)\<lparr>rs_rows := take (nat (pr_size p)) (rs_rows (pr_rows p))\<rparr>\<rparr>
        else p\<lparr>pr_hasNext := False\<rparr>)"

text \<open>\<^verbatim>\<open>std::from_chars\<close> of a 64-bit value that has to consume the whole text: a minus and digits.\<close>

definition from_chars_all :: "string \<Rightarrow> int option" where
  "from_chars_all s =
     (let neg = prefix ''-'' s; ds = (if neg then tl s else s);
          v = (if neg then - int (dec_value ds) else int (dec_value ds))
      in if ds = [] \<or> \<not> list_all isdigit ds \<or> v < - (2 ^ 63) \<or> v \<ge> 2 ^ 63 then None else Some v)"

definition count_invalid :: Status where
  "count_invalid = page_invalid ''COUNT must return exactly one nonnegative integer value''"

definition decimal_total :: "string \<Rightarrow> int option" where
  "decimal_total s =
     (let whole = takeWhile (\<lambda>c. c \<noteq> CHR ''.'') s; rest = dropWhile (\<lambda>c. c \<noteq> CHR ''.'') s in
      case from_chars_all whole of
        Some k \<Rightarrow> if k \<ge> 0 \<and> (rest = [] \<or> (tl rest \<noteq> [] \<and> list_all (\<lambda>c. c = CHR ''0'') (tl rest))) then Some k else None
      | None \<Rightarrow> None)"

definition readPageTotal :: "ResultSet \<Rightarrow> Status + int" where
  "readPageTotal rs =
     (if length (rs_rows rs) \<noteq> 1 \<or> length (hd (rs_rows rs)) \<noteq> 1 \<or> length (rs_fields rs) > 1 \<or>
         (rs_fields rs \<noteq> [] \<and> \<not> row_has (hd (rs_rows rs)) (hd (rs_fields rs))) then Inl count_invalid
      else case snd (hd (hd (rs_rows rs))) of
          VInt64 x \<Rightarrow> if sint x \<ge> 0 then Inr (sint x) else Inl count_invalid
        | VUInt64 x \<Rightarrow> if int (unat x) \<le> int64_max then Inr (int (unat x)) else Inl count_invalid
        | VDecimal s \<Rightarrow> (case decimal_total s of Some k \<Rightarrow> Inr k | None \<Rightarrow> Inl count_invalid)
        | _ \<Rightarrow> Inl count_invalid)"

section \<open>Synchronous pages\<close>

definition page_count :: "ResultSet \<Rightarrow> PageRows \<Rightarrow> PageRows" where
  "page_count rs p = (case readPageTotal rs of Inl st \<Rightarrow> p\<lparr>pr_status := st\<rparr> | Inr n \<Rightarrow> p\<lparr>pr_total := Some n\<rparr>)"

definition runPage :: "PageQuery \<Rightarrow> PageOptions \<Rightarrow> Dialect \<Rightarrow> (Statement \<Rightarrow> 's \<Rightarrow> (Status \<times> ResultSet) \<times> 's) \<Rightarrow> 's \<Rightarrow>
    PageRows \<times> 's" where
  "runPage query opts dialect run s =
     (case preparePage query opts dialect of
        Inl st \<Rightarrow> ((emptyPage opts)\<lparr>pr_status := st\<rparr>, s)
      | Inr (data, cnt) \<Rightarrow>
          (case run data s of
             ((st, rs), s1) \<Rightarrow>
               let p = (emptyPage opts)\<lparr>pr_mode := Native, pr_status := st, pr_rows := rs\<rparr> in
               if \<not> status_ok st \<or> cnt = None then (finishPageRows p, s1)
               else case run (the cnt) s1 of
                 ((st2, rs2), s2) \<Rightarrow>
                   (finishPageRows (if status_ok st2 then page_count rs2 p else p\<lparr>pr_status := st2\<rparr>), s2)))"

definition queryPageRaw :: "PageQuery \<Rightarrow> PageOptions \<Rightarrow> Status + string \<Rightarrow>
    (Statement \<Rightarrow> 's \<Rightarrow> (Status \<times> ResultSet) \<times> 's) \<Rightarrow> 's \<Rightarrow> PageRows \<times> 's" where
  "queryPageRaw query opts source run s =
     (if \<not> status_ok (pq_status query) then ((emptyPage opts)\<lparr>pr_status := pq_status query\<rparr>, s)
      else case source of
          Inl st \<Rightarrow> ((emptyPage opts)\<lparr>pr_status := st\<rparr>, s)
        | Inr driverType \<Rightarrow> runPage query opts (dialectFromDriverType driverType) run s)"

section \<open>Asynchronous pages\<close>

record QueryResult =
  qr_status :: Status
  qr_rows :: ResultSet
  qr_mode :: ExecutionMode

record PendingPage =
  pp_done :: bool
  pp_pending :: int
  pp_result :: PageRows

definition accept_result :: "QueryResult \<Rightarrow> bool \<Rightarrow> PageRows \<Rightarrow> PageRows" where
  "accept_result raw cnt p0 =
     (let p1 = (if qr_mode raw = CompatibilityFallback then p0\<lparr>pr_mode := CompatibilityFallback\<rparr> else p0);
          p2 = p1\<lparr>pr_status := qr_status raw\<rparr>
      in if status_ok (qr_status raw) then (if cnt then page_count (qr_rows raw) p2 else p2\<lparr>pr_rows := qr_rows raw\<rparr>)
         else p2)"

text \<open>The new state and the page handed to the completion, if it is called.\<close>

definition accept :: "QueryResult \<Rightarrow> bool \<Rightarrow> PendingPage \<Rightarrow> PendingPage \<times> PageRows option" where
  "accept raw cnt st =
     (if pp_done st then (st, None)
      else let p = accept_result raw cnt (pp_result st); left = pp_pending st - 1 in
        if status_ok (pr_status p) \<and> left \<noteq> 0 then (st\<lparr>pp_result := p, pp_pending := left\<rparr>, None)
        else let p' = finishPageRows (if \<not> status_ok (pr_status p) \<and> left \<noteq> 0 then p\<lparr>pr_mode := CompatibilityFallback\<rparr> else p)
          in (st\<lparr>pp_done := True, pp_pending := left, pp_result := p'\<rparr>, Some p'))"

text \<open>The start of an asynchronous page: a page that is complete at once, or the pending state.\<close>

definition queryPageRawAsync :: "PageQuery \<Rightarrow> PageOptions \<Rightarrow> Status + string \<Rightarrow>
    PageRows + PendingPage \<times> Statement \<times> Statement option" where
  "queryPageRawAsync query opts source =
     (if \<not> status_ok (pq_status query) then Inl ((emptyPage opts)\<lparr>pr_status := pq_status query\<rparr>)
      else case source of
          Inl st \<Rightarrow> Inl ((emptyPage opts)\<lparr>pr_status := st\<rparr>)
        | Inr driverType \<Rightarrow>
            (case preparePage query opts (dialectFromDriverType driverType) of
               Inl st \<Rightarrow> Inl ((emptyPage opts)\<lparr>pr_status := st\<rparr>)
             | Inr (data, cnt) \<Rightarrow>
                 Inr (\<lparr>pp_done = False, pp_pending = (if cnt = None then 1 else 2),
                       pp_result = (emptyPage opts)\<lparr>pr_mode := Native\<rparr>\<rparr>, data, cnt)))"

section \<open>Pages are windows of the result\<close>

text \<open>
  What the added clause means on the server: for a limit and an offset that are not negative, a
  successful answer skips the offset and returns at most the limit of the rows of the statement,
  with the parameters in the order of the dialect. And what a count statement means: a
  successful answer is one row with one number, the number of rows.
\<close>

definition serves_window :: "(Statement \<Rightarrow> 's \<Rightarrow> (Status \<times> ResultSet) \<times> 's) \<Rightarrow> Dialect \<Rightarrow> Statement \<Rightarrow> Row list \<Rightarrow> bool" where
  "serves_window run dialect stmt rows \<longleftrightarrow>
     (\<forall>lim off s st rs s'. 0 \<le> sint lim \<longrightarrow> 0 \<le> sint off \<longrightarrow>
        run (if dialect = MySQL \<or> dialect = Postgres
          then (fst stmt @ [NL] @ ''LIMIT ? OFFSET ?'', snd stmt @ [VInt64 lim, VInt64 off])
          else (fst stmt @ [NL] @ ''OFFSET ? ROWS FETCH NEXT ? ROWS ONLY'', snd stmt @ [VInt64 off, VInt64 lim])) s =
            ((st, rs), s') \<longrightarrow> status_ok st \<longrightarrow>
        rs_rows rs = take (nat (sint lim)) (drop (nat (sint off)) rows))"

definition count_value :: "nat \<Rightarrow> Value \<Rightarrow> bool" where
  "count_value n v \<longleftrightarrow>
     (\<exists>x. v = VInt64 x \<and> sint x = int n) \<or> (\<exists>x. v = VUInt64 x \<and> unat x = n \<and> int n \<le> int64_max) \<or>
     (v = VDecimal (to_string n) \<and> int n \<le> int64_max)"

definition serves_count :: "(Statement \<Rightarrow> 's \<Rightarrow> (Status \<times> ResultSet) \<times> 's) \<Rightarrow> Statement \<Rightarrow> nat \<Rightarrow> bool" where
  "serves_count run cnt n \<longleftrightarrow>
     (\<forall>s st rs s'. run cnt s = ((st, rs), s') \<longrightarrow> status_ok st \<longrightarrow>
        (\<exists>f v. count_value n v \<and> rs_rows rs = [[(f, v)]] \<and> (rs_fields rs = [] \<or> rs_fields rs = [f])))"

lemma sint_int64: "0 \<le> k \<Longrightarrow> k \<le> int64_max \<Longrightarrow> sint (word_of_int k :: 64 word) = k"
  by (simp add: int64_max_def sint_uint uint_word_of_int signed_take_bit_int_eq_self)

lemma preparePage_Inr:
  assumes "preparePage query opts detected = Inr (data, cnt)" "po_size opts \<le> int64_max"
  shows "1 \<le> po_page opts" "1 \<le> po_size opts" "0 \<le> (po_page opts - 1) * po_size opts"
    "(po_page opts - 1) * po_size opts + po_size opts + 1 \<le> int64_max"
    "data = page_statement (page_dialect query opts detected) (pq_statement query) (po_size opts)
       ((po_page opts - 1) * po_size opts)"
    "status_ok (validateSelect (fst (pq_statement query)) True)"
proof -
  show p: "1 \<le> po_page opts" "1 \<le> po_size opts"
    "data = page_statement (page_dialect query opts detected) (pq_statement query) (po_size opts)
       ((po_page opts - 1) * po_size opts)"
    "status_ok (validateSelect (fst (pq_statement query)) True)"
    using assms(1) by (auto simp: preparePage_def Let_def split: if_splits)
  then show "0 \<le> (po_page opts - 1) * po_size opts" by simp
  have "po_page opts - 1 \<le> (int64_max - po_size opts - 1) div po_size opts"
    using assms(1) by (auto simp: preparePage_def Let_def split: if_splits)
  then have "(po_page opts - 1) * po_size opts \<le> (int64_max - po_size opts - 1) div po_size opts * po_size opts"
    using p(2) by (simp add: mult_right_mono)
  also have "\<dots> \<le> int64_max - po_size opts - 1"
    using p(2) by (metis div_mult_mod_eq le_add_same_cancel1 pos_mod_sign zero_less_one_class.zero_less_one order_less_le_trans)
  finally show "(po_page opts - 1) * po_size opts + po_size opts + 1 \<le> int64_max" by simp
qed

lemma preparePage_count:
  "preparePage query opts detected = Inr (data, cnt) \<Longrightarrow>
     cnt = (if po_total opts then (if po_count opts \<noteq> None then po_count opts else pq_count query) else None) \<and>
     (po_total opts \<longleftrightarrow> cnt \<noteq> None)"
  by (simp add: preparePage_def Let_def del: not_None_eq not_Some_eq split_paired_Ex split: if_splits)

lemma page_invalid_not_ok: "\<not> status_ok (page_invalid msg)" "\<not> status_ok (error NotSupported msg)"
  by (simp_all add: page_invalid_def error_def status_ok_def)

lemma preparePage_Inl: "preparePage query opts detected = Inl st \<Longrightarrow> \<not> status_ok st"
  by (auto simp: preparePage_def Let_def page_invalid_not_ok split: if_splits)

lemma decimal_total_to_string:
  assumes "int n \<le> int64_max"
  shows "decimal_total (to_string n) = Some (int n)"
proof -
  obtain c cs where c: "to_string n = c # cs" "isdigit c" using to_string_digit_front by blast
  have ds: "\<forall>c \<in> set (to_string n). isdigit c" by (rule to_string_digits)
  have nodot: "\<not> isdigit CHR ''.''" "\<not> isdigit CHR ''-''" by code_simp+
  then have tw: "takeWhile (\<lambda>c. c \<noteq> CHR ''.'') (to_string n) = to_string n"
    "dropWhile (\<lambda>c. c \<noteq> CHR ''.'') (to_string n) = []"
    using ds by (auto intro!: takeWhile_eq_all_conv [THEN iffD2] dropWhile_eq_Nil_conv [THEN iffD2])
  have "\<not> prefix ''-'' (to_string n)" using c nodot by auto
  then have fc: "from_chars_all (to_string n) = Some (int n)"
    using assms ds c(1) to_string_value [of n] by (simp add: from_chars_all_def Let_def list_all_iff int64_max_def)
  show ?thesis unfolding decimal_total_def Let_def tw fc by simp
qed

lemma readPageTotal_count:
  assumes "count_value n v" "rs_rows rs = [[(f, v)]]" "rs_fields rs = [] \<or> rs_fields rs = [f]"
  shows "readPageTotal rs = Inr (int n)"
proof -
  have "row_has [(f, v)] f" by (simp add: row_has_def)
  with assms show ?thesis by (auto simp: readPageTotal_def count_value_def decimal_total_to_string)
qed

lemma finishPageRows_ok [simp]:
  "status_ok (pr_status (finishPageRows p)) \<longleftrightarrow> status_ok (pr_status p)"
  "pr_total (finishPageRows p) = (if status_ok (pr_status p) then pr_total p else None)"
  by (auto simp: finishPageRows_def Let_def)

lemma finishPageRows_failed:
  "\<not> status_ok (pr_status p) \<Longrightarrow> rs_rows (pr_rows (finishPageRows p)) = [] \<and> \<not> pr_hasNext (finishPageRows p)"
  by (simp add: finishPageRows_def empty_rs_def)

lemma finishPageRows_window:
  assumes "status_ok (pr_status p)" "pr_size p = n" "1 \<le> n" "0 \<le> off"
    "rs_rows (pr_rows p) = take (nat (n + 1)) (drop (nat off) rows)"
  shows "rs_rows (pr_rows (finishPageRows p)) = take (nat n) (drop (nat off) rows)"
    "pr_hasNext (finishPageRows p) \<longleftrightarrow> off + n < int (length rows)"
proof -
  have len: "int (length (rs_rows (pr_rows p))) > n \<longleftrightarrow> off + n < int (length rows)"
    using assms by (auto simp: assms(5))
  then show "pr_hasNext (finishPageRows p) \<longleftrightarrow> off + n < int (length rows)"
    using assms(1,2) by (simp add: finishPageRows_def Let_def)
  have "take (nat n) (rs_rows (pr_rows p)) = take (nat n) (drop (nat off) rows)"
    by (simp add: assms(5) min_def)
  moreover have "take (nat n) (rs_rows (pr_rows p)) = rs_rows (pr_rows p)"
    if "\<not> int (length (rs_rows (pr_rows p))) > n"
    using that by (intro take_all) linarith
  ultimately show "rs_rows (pr_rows (finishPageRows p)) = take (nat n) (drop (nat off) rows)"
    using assms(1,2) by (auto simp: finishPageRows_def Let_def)
qed

text \<open>The first statement of a page brings the rows of the window and one more.\<close>

lemma page_data_rows:
  assumes "preparePage query opts detected = Inr (data, cnt)" "po_size opts \<le> int64_max"
    and "serves_window run (page_dialect query opts detected) (pq_statement query) rows"
    and "run data s = ((st, rs), s')" "status_ok st"
  shows "rs_rows rs = take (nat (po_size opts + 1)) (drop (nat ((po_page opts - 1) * po_size opts)) rows)"
proof -
  note pre = preparePage_Inr [OF assms(1,2)]
  define n where "n = po_size opts"
  define off where "off = (po_page opts - 1) * n"
  have n: "1 \<le> n" "0 \<le> off" "off + n + 1 \<le> int64_max" using pre by (simp_all add: off_def n_def)
  have w: "sint (word_of_int (n + 1) :: 64 word) = n + 1" "sint (word_of_int off :: 64 word) = off"
    by (rule sint_int64; use n in linarith)+
  have data: "data = page_statement (page_dialect query opts detected) (pq_statement query) n off"
    using pre(5) by (simp only: off_def n_def)
  have nn: "0 \<le> sint (word_of_int (n + 1) :: 64 word)" "0 \<le> sint (word_of_int off :: 64 word)"
    unfolding w using n by linarith+
  have "rs_rows rs = take (nat (sint (word_of_int (n + 1) :: 64 word))) (drop (nat (sint (word_of_int off :: 64 word))) rows)"
    using assms(3) [unfolded serves_window_def, rule_format, OF nn, of s st rs s'] assms(4,5)
    by (simp only: data page_statement_def page_int_def)
  then show ?thesis unfolding w by (simp only: n_def off_def)
qed

text \<open>
  C25: On a server whose successful answers to the paged statement, for limits and offsets that
  are not negative, are the windows of one fixed result, and whose successful answers to the
  count statement are the number of its rows: a successful page holds the stretch of the result
  that the page number and size denote, hasNext holds exactly when rows lie behind it, and the
  total is the number of rows when it was asked for and absent otherwise; a failed page has no
  rows, no next page and no total, and a page fails only when it is refused before it is sent or
  a statement fails.
\<close>

theorem page_is_window:
  assumes "runPage query opts detected run s = (p, s')" "po_size opts \<le> int64_max"
    and "serves_window run (page_dialect query opts detected) (pq_statement query) rows"
    and "po_total opts \<Longrightarrow>
      serves_count run (the (if po_count opts \<noteq> None then po_count opts else pq_count query)) (length rows)"
  shows "if status_ok (pr_status p) then
      rs_rows (pr_rows p) = take (nat (po_size opts)) (drop (nat ((po_page opts - 1) * po_size opts)) rows) \<and>
      (pr_hasNext p \<longleftrightarrow> po_page opts * po_size opts < int (length rows)) \<and>
      pr_total p = (if po_total opts then Some (int (length rows)) else None)
    else rs_rows (pr_rows p) = [] \<and> \<not> pr_hasNext p \<and> pr_total p = None \<and>
      ((\<exists>st. preparePage query opts detected = Inl st) \<or> (\<exists>q s0. \<not> status_ok (fst (fst (run q s0)))))"
proof (cases "preparePage query opts detected")
  case (Inl st)
  then show ?thesis using assms(1) preparePage_Inl [OF Inl] by (auto simp: runPage_def emptyPage_def empty_rs_def)
next
  case (Inr dc)
  obtain data cnt where dc: "preparePage query opts detected = Inr (data, cnt)" using Inr by (cases dc) simp
  obtain st rs s1 where r1: "run data s = ((st, rs), s1)" by (metis surj_pair)
  define q where "q = (emptyPage opts)\<lparr>pr_mode := Native, pr_status := st, pr_rows := rs\<rparr>"
  note c = preparePage_count [OF dc, THEN conjunct1] and tc = preparePage_count [OF dc, THEN conjunct2]
  have sum: "po_page opts * po_size opts = (po_page opts - 1) * po_size opts + po_size opts" by (simp add: algebra_simps)
  have win: "rs_rows (pr_rows (finishPageRows q')) = take (nat (po_size opts)) (drop (nat ((po_page opts - 1) * po_size opts)) rows)"
      "pr_hasNext (finishPageRows q') \<longleftrightarrow> po_page opts * po_size opts < int (length rows)"
    if "status_ok (pr_status q')" "status_ok st" "pr_size q' = po_size opts" "pr_rows q' = rs" for q'
    using finishPageRows_window [OF that(1,3) preparePage_Inr(2,3) [OF dc assms(2)]]
      page_data_rows [OF dc assms(2,3) r1 that(2)] that(4) by (simp_all add: sum)
  show ?thesis
  proof (cases "\<not> status_ok st \<or> cnt = None")
    case True
    then have p: "p = finishPageRows q" using assms(1) by (auto simp: runPage_def dc r1 q_def)
    show ?thesis
    proof (cases "status_ok st")
      case True
      with \<open>\<not> status_ok st \<or> cnt = None\<close> tc have "\<not> po_total opts" by blast
      with True show ?thesis using win [of q] by (simp add: p q_def emptyPage_def)
    next
      case False
      moreover have "\<exists>q s0. \<not> status_ok (fst (fst (run q s0)))" using False r1 by (metis fst_conv)
      ultimately show ?thesis using finishPageRows_failed [of q] by (simp add: p q_def emptyPage_def)
    qed
  next
    case False
    obtain c0 where c0: "cnt = Some c0" using False by (cases cnt) simp_all
    obtain st2 rs2 s2 where r2: "run c0 s1 = ((st2, rs2), s2)" by (metis surj_pair)
    have p: "p = finishPageRows (if status_ok st2 then page_count rs2 q else q\<lparr>pr_status := st2\<rparr>)"
      using assms(1) False by (auto simp: runPage_def dc r1 r2 c0 q_def Let_def)
    have tot: "po_total opts" using False tc by blast
    show ?thesis
    proof (cases "status_ok st2")
      case True
      have "serves_count run c0 (length rows)" using assms(4) [OF tot] c [unfolded c0 if_P [OF tot], symmetric]
        by (simp only: option.sel)
      with r2 True obtain f v where "count_value (length rows) v" "rs_rows rs2 = [[(f, v)]]"
        "rs_fields rs2 = [] \<or> rs_fields rs2 = [f]" unfolding serves_count_def by blast
      from readPageTotal_count [OF this] have p': "p = finishPageRows (q\<lparr>pr_total := Some (int (length rows))\<rparr>)"
        using True by (simp add: p page_count_def)
      show ?thesis using False tot win [of "q\<lparr>pr_total := Some (int (length rows))\<rparr>"]
        by (simp add: p' q_def emptyPage_def)
    next
      case f: False
      moreover have "\<exists>q s0. \<not> status_ok (fst (fst (run q s0)))" using f r2 by (metis fst_conv)
      ultimately show ?thesis using finishPageRows_failed [of "q\<lparr>pr_status := st2\<rparr>"] by (simp add: p q_def emptyPage_def)
    qed
  qed
qed

section \<open>An asynchronous page completes once\<close>

fun accept_all :: "(QueryResult \<times> bool) list \<Rightarrow> PendingPage \<Rightarrow> PageRows list" where
  "accept_all [] st = []"
| "accept_all ((raw, cnt) # calls) st =
     (case accept raw cnt st of (st', out) \<Rightarrow> (case out of Some p \<Rightarrow> [p] | None \<Rightarrow> []) @ accept_all calls st')"

lemma accept_all_done: "pp_done st \<Longrightarrow> accept_all calls st = []"
  by (induction calls arbitrary: st) (auto simp: accept_def)

theorem page_completes_once:
  assumes "\<not> pp_done st" "1 \<le> pp_pending st" "pp_pending st \<le> int (length calls)"
  shows "length (accept_all calls st) = 1"
  using assms
proof (induction calls arbitrary: st)
  case (Cons c calls)
  obtain raw cnt where c: "c = (raw, cnt)" by fastforce
  let ?p = "accept_result raw cnt (pp_result st)"
  show ?case
  proof (cases "status_ok (pr_status ?p) \<and> pp_pending st - 1 \<noteq> 0")
    case True
    then have "accept_all (c # calls) st = accept_all calls (st\<lparr>pp_result := ?p, pp_pending := pp_pending st - 1\<rparr>)"
      using Cons.prems(1) by (simp add: c accept_def)
    then show ?thesis using Cons.IH [of "st\<lparr>pp_result := ?p, pp_pending := pp_pending st - 1\<rparr>"] Cons.prems True by auto
  next
    case False
    then have "\<exists>p st'. accept raw cnt st = (st', Some p) \<and> pp_done st'"
      using Cons.prems(1) by (auto simp: accept_def Let_def)
    then show ?thesis using accept_all_done by (auto simp: c)
  qed
qed simp

section \<open>Witnesses\<close>

definition sample_query :: PageQuery where
  "sample_query = \<lparr>pq_status = OK, pq_statement = (''SELECT a FROM t ORDER BY a'', []), pq_count = None, pq_dialect = Auto\<rparr>"

definition second_page :: PageOptions where
  "second_page = \<lparr>po_page = 2, po_size = 2, po_total = True, po_dialect = Auto,
     po_count = Some (''SELECT COUNT(*) FROM t'', [])\<rparr>"

definition five_rows :: "Row list" where
  "five_rows = map (\<lambda>k. [(''a'', VInt64 k)]) [0, 1, 2, 3, 4]"

text \<open>A server that counts its answers, serves windows and counts, and refuses negative windows.\<close>

definition window_server :: "Statement \<Rightarrow> nat \<Rightarrow> (Status \<times> ResultSet) \<times> nat" where
  "window_server stmt s =
     (case snd stmt of
        [VInt64 lim, VInt64 off] \<Rightarrow>
          if sint lim < 0 \<or> sint off < 0 then ((error QueryError [], empty_rs), Suc s)
          else ((OK, empty_rs\<lparr>rs_rows := take (nat (sint lim)) (drop (nat (sint off)) five_rows)\<rparr>), Suc s)
      | [] \<Rightarrow> ((OK, empty_rs\<lparr>rs_rows := [[(''count'', VInt64 5)]]\<rparr>), Suc s)
      | _ \<Rightarrow> ((error QueryError [], empty_rs), Suc s))"

lemma second_page_prepared:
  "preparePage sample_query second_page Postgres =
     Inr ((''SELECT a FROM t ORDER BY a'' @ [NL] @ ''LIMIT ? OFFSET ?'', [page_int 3, page_int 2]), po_count second_page)"
proof -
  have "status_ok (validateSelect ''SELECT a FROM t ORDER BY a'' True)"
    "status_ok (validateSelect ''SELECT COUNT(*) FROM t'' False)" by code_simp+
  then show ?thesis
    by (simp add: preparePage_def sample_query_def second_page_def int64_max_def page_dialect_def page_statement_def)
qed

lemma second_page_served:
  "status_ok (pr_status (fst (runPage sample_query second_page Postgres window_server 0)))"
proof -
  have "sint (3 :: 64 word) = 3" "sint (2 :: 64 word) = 2" "sint (5 :: 64 word) = 5" by simp_all
  then show ?thesis
    unfolding runPage_def second_page_prepared
    by (simp add: page_int_def window_server_def second_page_def page_count_def readPageTotal_def empty_rs_def)
qed

theorem page_is_window_witness:
  "\<exists>p. runPage sample_query second_page Postgres window_server 0 = (p, 2) \<and> status_ok (pr_status p) \<and>
     rs_rows (pr_rows p) = [[(''a'', VInt64 2)], [(''a'', VInt64 3)]] \<and> pr_hasNext p \<and> pr_total p = Some 5"
proof -
  obtain p s' where p: "runPage sample_query second_page Postgres window_server 0 = (p, s')" by fastforce
  have w: "serves_window window_server (page_dialect sample_query second_page Postgres) (pq_statement sample_query) five_rows"
    by (auto simp: serves_window_def window_server_def page_dialect_def sample_query_def second_page_def)
  have c: "serves_count window_server (the (if po_count second_page \<noteq> None then po_count second_page else pq_count sample_query))
      (length five_rows)"
    by (auto simp: serves_count_def window_server_def second_page_def five_rows_def count_value_def empty_rs_def)
  have ok: "status_ok (pr_status p)" using second_page_served p by simp
  have "s' = 2" using p unfolding runPage_def second_page_prepared
    by (auto simp: window_server_def page_int_def second_page_def split: if_splits)
  with page_is_window [OF p _ w c] p ok show ?thesis
    by (simp add: second_page_def int64_max_def five_rows_def)
qed

theorem page_completes_once_witness:
  "length (accept_all [(\<lparr>qr_status = error QueryError [], qr_rows = empty_rs, qr_mode = Native\<rparr>, True),
      (\<lparr>qr_status = OK, qr_rows = empty_rs, qr_mode = Native\<rparr>, False)]
     \<lparr>pp_done = False, pp_pending = 2, pp_result = emptyPage second_page\<rparr>) = 1"
  by (rule page_completes_once) simp_all

end
