(* ===== verification/RateLimiter.thy ===== *)
theory RateLimiter
  imports Complex_Main Types
begin

text \<open>
  The token buckets of \<^verbatim>\<open>include/sqlconduit/core/rate_limiter.h\<close>. The doubles of the code are
  rationals here, so that rounding does not appear: the bounds are those of the algorithm. The
  clock is nanoseconds; every reading of it is an argument. The map of buckets is an association
  list with one entry per fingerprint.
\<close>

section \<open>Model\<close>

record TokenBucket =
  tb_tokens :: rat
  tb_rate :: rat
  tb_burst :: rat
  tb_last :: int

definition new_bucket :: "rat \<Rightarrow> rat \<Rightarrow> int \<Rightarrow> TokenBucket" where
  "new_bucket ratePerSec burst now = \<lparr>tb_tokens = burst, tb_rate = ratePerSec, tb_burst = burst, tb_last = now\<rparr>"

definition seconds :: "int \<Rightarrow> rat" where
  "seconds ns = of_int ns / 1000000000"

definition tryAcquire :: "int \<Rightarrow> TokenBucket \<Rightarrow> bool \<times> TokenBucket" where
  "tryAcquire now b =
     (let filled = tb_tokens b + seconds (now - tb_last b) * tb_rate b;
          tokens = (if filled > tb_burst b then tb_burst b else filled);
          b' = b\<lparr>tb_last := now\<rparr>
      in if tokens \<ge> 1 then (True, b'\<lparr>tb_tokens := tokens - 1\<rparr>) else (False, b'\<lparr>tb_tokens := tokens\<rparr>))"

record RateLimiter =
  rl_global :: "TokenBucket option"
  rl_perFpQps :: rat
  rl_burst :: int
  rl_fpMode :: string
  rl_buckets :: "(64 word \<times> TokenBucket) list"

definition bucket_burst :: "int \<Rightarrow> rat \<Rightarrow> rat" where
  "bucket_burst burst qps = (if burst > 0 then of_int burst else qps)"

definition new_limiter :: "rat \<Rightarrow> rat \<Rightarrow> int \<Rightarrow> string \<Rightarrow> int \<Rightarrow> RateLimiter" where
  "new_limiter globalQps perFpQps burst fpMode now =
     \<lparr>rl_global = (if globalQps > 0 then Some (new_bucket globalQps (bucket_burst burst globalQps) now) else None),
      rl_perFpQps = perFpQps, rl_burst = burst, rl_fpMode = fpMode, rl_buckets = []\<rparr>"

definition usesFingerprint :: "RateLimiter \<Rightarrow> bool" where
  "usesFingerprint r \<longleftrightarrow> rl_fpMode r \<noteq> ''off'' \<and> rl_perFpQps r > 0"

definition kFpCap :: nat where
  "kFpCap = 1024"

text \<open>The entry of a fingerprint set to a new value; a new fingerprint is added at the end.\<close>

fun set_bucket :: "64 word \<Rightarrow> TokenBucket \<Rightarrow> (64 word \<times> TokenBucket) list \<Rightarrow> (64 word \<times> TokenBucket) list" where
  "set_bucket fp b [] = [(fp, b)]"
| "set_bucket fp b ((k, x) # m) = (if k = fp then (k, b) # m else (k, x) # set_bucket fp b m)"

definition global_acquire :: "int \<Rightarrow> RateLimiter \<Rightarrow> bool \<times> RateLimiter" where
  "global_acquire now r =
     (case rl_global r of
        None \<Rightarrow> (True, r)
      | Some b \<Rightarrow> (case tryAcquire now b of (ok, b') \<Rightarrow> (ok, r\<lparr>rl_global := Some b'\<rparr>)))"

definition fp_acquire :: "int \<Rightarrow> 64 word \<Rightarrow> RateLimiter \<Rightarrow> bool \<times> RateLimiter" where
  "fp_acquire now fp r =
     (case map_of (rl_buckets r) fp of
        None \<Rightarrow>
          if length (rl_buckets r) \<ge> kFpCap then (True, r)
          else (case tryAcquire now (new_bucket (rl_perFpQps r) (bucket_burst (rl_burst r) (rl_perFpQps r)) now) of
                  (ok, b') \<Rightarrow> (ok, r\<lparr>rl_buckets := set_bucket fp b' (rl_buckets r)\<rparr>))
      | Some b \<Rightarrow> (case tryAcquire now b of (ok, b') \<Rightarrow> (ok, r\<lparr>rl_buckets := set_bucket fp b' (rl_buckets r)\<rparr>)))"

definition acquire :: "int \<Rightarrow> 64 word \<Rightarrow> RateLimiter \<Rightarrow> bool \<times> RateLimiter" where
  "acquire now fp r =
     (case global_acquire now r of
        (ok, r1) \<Rightarrow>
          if \<not> ok then (False, r1)
          else if fp \<noteq> 0 \<and> rl_fpMode r1 \<noteq> ''off'' \<and> rl_perFpQps r1 > 0 then fp_acquire now fp r1
          else (True, r1))"

section \<open>A bucket bounds what it grants\<close>

definition bucket_ok :: "TokenBucket \<Rightarrow> bool" where
  "bucket_ok b \<longleftrightarrow> 0 \<le> tb_rate b \<and> 0 \<le> tb_tokens b \<and> tb_tokens b \<le> tb_burst b"

lemma seconds_mono: "0 \<le> ns \<Longrightarrow> 0 \<le> seconds ns"
  by (simp add: seconds_def)

lemma seconds_add: "seconds (a + b) = seconds a + seconds b"
  by (simp add: seconds_def add_divide_distrib)

lemma tryAcquire_step:
  assumes "bucket_ok b" "tb_last b \<le> now" "tryAcquire now b = (ok, b')"
  shows "bucket_ok b' \<and> tb_rate b' = tb_rate b \<and> tb_burst b' = tb_burst b \<and> tb_last b' = now \<and>
    (if ok then 1 else 0) + tb_tokens b' \<le> tb_tokens b + seconds (now - tb_last b) * tb_rate b"
proof -
  have "0 \<le> seconds (now - tb_last b) * tb_rate b"
    using assms(1,2) seconds_mono [of "now - tb_last b"] by (simp add: bucket_ok_def)
  then show ?thesis using assms(1,3)
    by (auto simp: tryAcquire_def bucket_ok_def Let_def split: if_splits)
qed

text \<open>The attempts at the given times: how many are granted.\<close>

fun grants :: "int list \<Rightarrow> TokenBucket \<Rightarrow> nat" where
  "grants [] b = 0"
| "grants (t # ts) b = (case tryAcquire t b of (ok, b') \<Rightarrow> (if ok then 1 else 0) + grants ts b')"

lemma grants_bound:
  assumes "bucket_ok b" "sorted (tb_last b # ts)"
  shows "of_nat (grants ts b) \<le> tb_tokens b + seconds (last (tb_last b # ts) - tb_last b) * tb_rate b"
  using assms
proof (induction ts arbitrary: b)
  case Nil
  then show ?case by (simp add: bucket_ok_def seconds_def)
next
  case (Cons t ts)
  obtain ok b' where a: "tryAcquire t b = (ok, b')" by fastforce
  have s: "bucket_ok b' \<and> tb_rate b' = tb_rate b \<and> tb_burst b' = tb_burst b \<and> tb_last b' = t \<and>
      (if ok then 1 else 0) + tb_tokens b' \<le> tb_tokens b + seconds (t - tb_last b) * tb_rate b"
    by (rule tryAcquire_step) (use Cons.prems a in auto)
  have "of_nat (grants ts b') \<le> tb_tokens b' + seconds (last (t # ts) - t) * tb_rate b"
    using Cons.IH [of b'] s Cons.prems by simp
  moreover have "seconds (last (t # ts) - tb_last b) = seconds (t - tb_last b) + seconds (last (t # ts) - t)"
    by (simp flip: seconds_add)
  ultimately show ?case using a s by (auto simp: algebra_simps split: if_splits)
qed

theorem bucket_rate_bound:
  assumes "0 \<le> rate" "0 \<le> burst" "sorted (start # ts)"
  shows "of_nat (grants ts (new_bucket rate burst start)) \<le> burst + seconds (last (start # ts) - start) * rate"
  using grants_bound [of "new_bucket rate burst start" ts] assms by (simp add: new_bucket_def bucket_ok_def)

section \<open>The limiter\<close>

text \<open>
  The number of statements a limiter with a global limit lets through, whatever their
  fingerprints.
\<close>

fun admitted :: "(int \<times> 64 word) list \<Rightarrow> RateLimiter \<Rightarrow> nat" where
  "admitted [] r = 0"
| "admitted ((t, fp) # calls) r = (case acquire t fp r of (ok, r') \<Rightarrow> (if ok then 1 else 0) + admitted calls r')"

lemma fp_acquire_global: "rl_global (snd (fp_acquire now fp r)) = rl_global r"
  by (simp add: fp_acquire_def split: option.split prod.split)

lemma acquire_global:
  assumes "rl_global r = Some b" "tryAcquire t b = (ok, b')"
  shows "rl_global (snd (acquire t fp r)) = Some b'" "fst (acquire t fp r) \<Longrightarrow> ok"
  using assms fp_acquire_global [of t fp "r\<lparr>rl_global := Some b'\<rparr>"]
  by (auto simp: acquire_def global_acquire_def split: if_splits)

lemma admitted_le_grants:
  "rl_global r = Some b \<Longrightarrow> admitted calls r \<le> grants (map fst calls) b"
proof (induction calls arbitrary: r b)
  case (Cons c calls)
  obtain t fp where c: "c = (t, fp)" by fastforce
  obtain ok b' where a: "tryAcquire t b = (ok, b')" by fastforce
  obtain ok' r' where q: "acquire t fp r = (ok', r')" by fastforce
  have "rl_global r' = Some b'" "ok' \<Longrightarrow> ok" using acquire_global [OF Cons.prems a, of fp] q by auto
  then show ?case using Cons.IH [of r' b'] a q by (auto simp: c)
qed simp

text \<open>
  C39: Over any sequence of calls in the order of the clock a limiter with a global rate admits
  at most the burst plus the rate times the time passed, whatever the fingerprints.
\<close>

theorem limiter_rate_bound:
  assumes "0 < globalQps" "sorted (start # map fst calls)"
  shows "of_nat (admitted calls (new_limiter globalQps perFpQps burst fpMode start))
    \<le> bucket_burst burst globalQps + seconds (last (start # map fst calls) - start) * globalQps"
proof -
  let ?b = "new_bucket globalQps (bucket_burst burst globalQps) start"
  have "admitted calls (new_limiter globalQps perFpQps burst fpMode start) \<le> grants (map fst calls) ?b"
    by (rule admitted_le_grants) (use assms(1) in \<open>simp add: new_limiter_def\<close>)
  then have "(of_nat (admitted calls (new_limiter globalQps perFpQps burst fpMode start)) :: rat) \<le> of_nat (grants (map fst calls) ?b)"
    by simp
  also have "\<dots> \<le> bucket_burst burst globalQps + seconds (last (start # map fst calls) - start) * globalQps"
    by (rule bucket_rate_bound) (use assms in \<open>auto simp: bucket_burst_def\<close>)
  finally show ?thesis .
qed

text \<open>Once 1024 fingerprints have a bucket, a statement with another fingerprint is not limited by its own rate.\<close>

lemma new_fingerprints_unlimited_at_cap:
  "length (rl_buckets r) \<ge> kFpCap \<Longrightarrow> map_of (rl_buckets r) fp = None \<Longrightarrow> rl_global r = None \<Longrightarrow> acquire now fp r = (True, r)"
  by (simp add: acquire_def global_acquire_def fp_acquire_def)

section \<open>Witness\<close>

theorem limiter_rate_bound_witness:
  "of_nat (admitted [(0, 1), (0, 1), (500000000, 1), (1000000000, 2)] (new_limiter 2 0 1 ''off'' 0)) \<le> (3 :: rat)"
  using limiter_rate_bound [of 2 0 "[(0, 1), (0, 1), (500000000, 1), (1000000000, 2)]" 0 1 "''off''"]
  by (simp add: bucket_burst_def seconds_def)
end
