(* ===== verification/Yaml.thy ===== *)
theory Yaml
  imports Types
begin

text \<open>
  The YAML subset of the configuration files: \<^verbatim>\<open>src/config/yaml_parser.cpp\<close>. The JSON library is an
  argument: \<open>jp\<close> stands for \<^verbatim>\<open>nlohmann::json::parse\<close>, \<open>Inl\<close> is a thrown exception with its text. A
  JSON object is a \<^verbatim>\<open>std::map\<close>, an association list sorted by key; a number is its text.

  The parser walks a vector of lines with an index; the model carries the lines still to be read.
  Its methods call each other and loop over lines: they take a step bound and return
  \<^term>\<open>None\<close> when it is used up; the bound that \<open>parseYaml\<close> starts with is always enough.
\<close>

section \<open>Data\<close>

datatype json =
    JNull | JBool bool | JNum string | JStr string | JArr "json list" | JObj "(string \<times> json) list"

record Line =
  ln_number :: nat
  ln_indent :: nat
  ln_text :: string

type_synonym json_parse = "string \<Rightarrow> string + json"

definition is_string :: "json \<Rightarrow> bool" where
  "is_string j = (case j of JStr _ \<Rightarrow> True | _ \<Rightarrow> False)"

definition is_number :: "json \<Rightarrow> bool" where
  "is_number j = (case j of JNum _ \<Rightarrow> True | _ \<Rightarrow> False)"

definition get_string :: "json \<Rightarrow> string" where
  "get_string j = (case j of JStr s \<Rightarrow> s | _ \<Rightarrow> [])"

section \<open>Lexical helpers\<close>

definition yaml_trim :: "string \<Rightarrow> string" where
  "yaml_trim v = rev (dropWhile isspace (rev (dropWhile isspace v)))"

definition yaml_lower :: "string \<Rightarrow> string" where
  "yaml_lower v = map tolower v"

text \<open>
  The quoting state of the scanners: inside single quotes, inside double quotes, behind a
  backslash.
\<close>

fun comment_from :: "bool \<Rightarrow> bool \<Rightarrow> bool \<Rightarrow> char option \<Rightarrow> string \<Rightarrow> string" where
  "comment_from single dbl escaped prev [] = []"
| "comment_from single dbl escaped prev (c # cs) =
     (if dbl \<and> escaped then c # comment_from single dbl False (Some c) cs
      else if dbl \<and> c = BSL then c # comment_from single dbl True (Some c) cs
      else if \<not> dbl \<and> c = SQ then
        (case cs of
           d # ds \<Rightarrow> if single \<and> d = SQ then c # d # comment_from single dbl escaped (Some d) ds
                     else c # comment_from (\<not> single) dbl escaped (Some c) cs
         | [] \<Rightarrow> [c])
      else if \<not> single \<and> c = DQ then c # comment_from single (\<not> dbl) escaped (Some c) cs
      else if \<not> single \<and> \<not> dbl \<and> c = CHR ''#'' \<and> (case prev of None \<Rightarrow> True | Some p \<Rightarrow> isspace p) then []
      else c # comment_from single dbl escaped (Some c) cs)"

definition withoutComment :: "string \<Rightarrow> string" where
  "withoutComment v = comment_from False False False None v"

text \<open>The text before and behind the colon of a mapping entry.\<close>

fun colon_from :: "bool \<Rightarrow> bool \<Rightarrow> bool \<Rightarrow> int \<Rightarrow> string \<Rightarrow> (string \<times> string) option" where
  "colon_from single dbl escaped depth [] = None"
| "colon_from single dbl escaped depth (c # cs) =
     (let push = map_option (\<lambda>(a, b). (c # a, b)) in
      if dbl \<and> escaped then push (colon_from single dbl False depth cs)
      else if dbl \<and> c = BSL then push (colon_from single dbl True depth cs)
      else if \<not> dbl \<and> c = SQ then
        (case cs of
           d # ds \<Rightarrow> if single \<and> d = SQ then map_option (\<lambda>(a, b). (c # d # a, b)) (colon_from single dbl escaped depth ds)
                     else push (colon_from (\<not> single) dbl escaped depth cs)
         | [] \<Rightarrow> None)
      else if \<not> single \<and> c = DQ then push (colon_from single (\<not> dbl) escaped depth cs)
      else if single \<or> dbl then push (colon_from single dbl escaped depth cs)
      else if c = CHR ''['' \<or> c = CHR ''{'' then push (colon_from single dbl escaped (depth + 1) cs)
      else if c = CHR '']'' \<or> c = CHR ''}'' then push (colon_from single dbl escaped (depth - 1) cs)
      else if c = CHR '':'' \<and> depth = 0 \<and> (cs = [] \<or> isspace (hd cs)) then Some ([], cs)
      else push (colon_from single dbl escaped depth cs))"

definition mappingColon :: "string \<Rightarrow> (string \<times> string) option" where
  "mappingColon v = colon_from False False False 0 v"

definition sequenceLine :: "string \<Rightarrow> bool" where
  "sequenceLine v \<longleftrightarrow> v \<noteq> [] \<and> hd v = CHR ''-'' \<and> (length v = 1 \<or> isspace (v ! 1))"

definition yaml_fail :: "Line \<Rightarrow> string \<Rightarrow> string + 'a" where
  "yaml_fail line msg = Inl (''line '' @ to_string (ln_number line) @ '': '' @ msg)"

section \<open>Scalars\<close>

text \<open>
  The parts of a flow sequence: what is between the commas outside quotes and brackets. The text
  behind the last comma counts only if no quote is open at the end.
\<close>

fun flow_parts :: "bool \<Rightarrow> bool \<Rightarrow> bool \<Rightarrow> int \<Rightarrow> string \<Rightarrow> string \<Rightarrow> string list" where
  "flow_parts single dbl escaped depth part [] = (if single \<or> dbl \<or> depth \<noteq> 0 then [] else [part])"
| "flow_parts single dbl escaped depth part (c # cs) =
     (if dbl \<and> escaped then flow_parts single dbl False depth (part @ [c]) cs
      else if dbl \<and> c = BSL then flow_parts single dbl True depth (part @ [c]) cs
      else if \<not> dbl \<and> c = SQ then flow_parts (\<not> single) dbl escaped depth (part @ [c]) cs
      else if \<not> single \<and> c = DQ then flow_parts single (\<not> dbl) escaped depth (part @ [c]) cs
      else if single \<or> dbl then flow_parts single dbl escaped depth (part @ [c]) cs
      else if c = CHR ''['' \<or> c = CHR ''{'' then flow_parts single dbl escaped (depth + 1) (part @ [c]) cs
      else if c = CHR '']'' \<or> c = CHR ''}'' then flow_parts single dbl escaped (depth - 1) (part @ [c]) cs
      else if c = CHR '','' \<and> depth = 0 then part # flow_parts single dbl escaped depth [] cs
      else flow_parts single dbl escaped depth (part @ [c]) cs)"

fun traverse :: "('a \<Rightarrow> 'e + 'b) \<Rightarrow> 'a list \<Rightarrow> 'e + 'b list" where
  "traverse f [] = Inr []"
| "traverse f (x # xs) =
     (case f x of Inl e \<Rightarrow> Inl e | Inr y \<Rightarrow> (case traverse f xs of Inl e \<Rightarrow> Inl e | Inr ys \<Rightarrow> Inr (y # ys)))"

lemma traverse_cong [fundef_cong]:
  "xs = ys \<Longrightarrow> (\<And>x. x \<in> set ys \<Longrightarrow> f x = g x) \<Longrightarrow> traverse f xs = traverse g ys"
  by (induction ys arbitrary: xs) (auto split: sum.split)

text \<open>The body of a single-quoted string: a doubled quote is one quote.\<close>

fun single_decoded :: "string \<Rightarrow> string" where
  "single_decoded (a # b # s) = (if a = SQ \<and> b = SQ then SQ # single_decoded s else a # single_decoded (b # s))"
| "single_decoded s = s"

lemma yaml_trim_length: "length (yaml_trim v) \<le> length v"
  by (simp add: yaml_trim_def) (metis length_dropWhile_le length_rev order_trans)

lemma flow_parts_length: "\<forall>p \<in> set (flow_parts single dbl escaped depth part s). length p \<le> length part + length s"
proof (induction s arbitrary: single dbl escaped depth part)
  case (Cons c cs)
  have grow: "\<forall>p \<in> set (flow_parts s' d' e' k' (part @ [c]) cs). length p \<le> length part + length (c # cs)" for s' d' e' k'
    using Cons.IH [of s' d' e' k' "part @ [c]"] by simp
  have fresh: "\<forall>p \<in> set (part # flow_parts s' d' e' k' [] cs). length p \<le> length part + length (c # cs)" for s' d' e' k'
    using Cons.IH [of s' d' e' k' "[]"] by auto
  have choose: "P x \<Longrightarrow> P y \<Longrightarrow> P (if b then x else y)" for P :: "string list \<Rightarrow> bool" and b x y by simp
  show ?case
    unfolding flow_parts.simps
    by (rule choose [where P = "\<lambda>ps. \<forall>p \<in> set ps. length p \<le> length part + length (c # cs)", OF grow]
        choose [where P = "\<lambda>ps. \<forall>p \<in> set ps. length p \<le> length part + length (c # cs)", OF fresh grow])+
qed simp

lemma bracket_body_length:
  assumes "vl \<noteq> []" "p \<in> set (flow_parts False False False 0 [] (yaml_trim (butlast (tl vl))))"
  shows "length p < length vl"
proof -
  have "length p \<le> length (butlast (tl vl))"
    using flow_parts_length [THEN bspec, OF assms(2)] yaml_trim_length [of "butlast (tl vl)"] by simp
  then show ?thesis using assms(1) by (cases vl) auto
qed

text \<open>
  A scalar. A value in brackets that the JSON library does not accept is split into parts, which
  are scalars themselves.
\<close>

function parseScalar :: "json_parse \<Rightarrow> Line \<Rightarrow> string \<Rightarrow> string + json" where
  "parseScalar jp line raw =
     (let vl = yaml_trim raw in
      if vl = [] then yaml_fail line ''scalar value is empty''
      else if hd vl = SQ then
        (if length vl < 2 \<or> last vl \<noteq> SQ then yaml_fail line ''unterminated single-quoted string''
         else Inr (JStr (single_decoded (butlast (tl vl)))))
      else if hd vl = DQ then
        (case jp vl of
           Inl e \<Rightarrow> yaml_fail line (''invalid double-quoted string: '' @ e)
         | Inr j \<Rightarrow> if is_string j then Inr j else yaml_fail line ''quoted scalar must be a string'')
      else if hd vl = CHR ''['' \<and> last vl = CHR '']'' then
        (case jp vl of
           Inr j \<Rightarrow> Inr j
         | Inl _ \<Rightarrow>
             (let body = yaml_trim (butlast (tl vl)) in
              if body = [] then Inr (JArr [])
              else case traverse (\<lambda>p. if yaml_trim p = [] then yaml_fail line ''empty value in flow sequence''
                                       else parseScalar jp line (yaml_trim p)) (flow_parts False False False 0 [] body) of
                  Inl e \<Rightarrow> Inl e
                | Inr js \<Rightarrow> Inr (JArr js)))
      else if hd vl = CHR ''{'' \<and> last vl = CHR ''}'' then
        (case jp vl of Inr j \<Rightarrow> Inr j | Inl e \<Rightarrow> yaml_fail line (''invalid flow mapping: '' @ e))
      else if yaml_lower vl = ''true'' then Inr (JBool True)
      else if yaml_lower vl = ''false'' then Inr (JBool False)
      else if yaml_lower vl = ''null'' \<or> vl = ''~'' then Inr JNull
      else (case jp vl of
          Inr j \<Rightarrow> if is_number j then Inr j else Inr (JStr vl)
        | Inl _ \<Rightarrow> Inr (JStr vl)))"
  by pat_completeness auto
termination
proof (relation "measure (\<lambda>(jp, line, raw). length raw)")
  fix jp :: json_parse and line raw x vl body p e
  assume v: "vl = yaml_trim raw" "vl \<noteq> []"
    and b: "body = yaml_trim (butlast (tl vl))" "p \<in> set (flow_parts False False False 0 [] body)"
  have "length (yaml_trim p) \<le> length p" by (rule yaml_trim_length)
  also have "length p < length vl" using bracket_body_length v(2) b by blast
  also have "length vl \<le> length raw" unfolding v(1) by (rule yaml_trim_length)
  finally show "((jp, line, yaml_trim p), jp, line, raw) \<in> measure (\<lambda>(jp, line, raw). length raw)" by simp
qed simp

declare parseScalar.simps [simp del]

definition parseKey :: "json_parse \<Rightarrow> Line \<Rightarrow> string \<Rightarrow> string + string" where
  "parseKey jp line raw =
     (let vl = yaml_trim raw in
      if vl = [] then yaml_fail line ''mapping key is empty''
      else if hd vl = SQ \<or> hd vl = DQ then
        (case parseScalar jp line vl of
           Inl e \<Rightarrow> Inl e
         | Inr j \<Rightarrow> if is_string j then Inr (get_string j) else yaml_fail line ''mapping key must be a string'')
      else Inr vl)"

section \<open>Blocks\<close>

type_synonym yaml_result = "(string + json \<times> Line list) option"

text \<open>
  The calls between the methods of the parser: a node, the loop of a mapping with the object so
  far, one entry of a mapping, the loop of a sequence with the array so far, one item behind its
  dash, and the loop over the further entries of an item that is a mapping. An entry returns the
  extended object.
\<close>

datatype yaml_call =
    CNode nat "Line list"
  | CMapping nat "(string \<times> json) list" "Line list"
  | CEntry nat "(string \<times> json) list" "Line list"
  | CSequence nat "json list" "Line list"
  | CItem nat Line "Line list"
  | CEntries nat "(string \<times> json) list" "Line list"

type_synonym yaml_caller = "yaml_call \<Rightarrow> yaml_result"

definition get_object :: "json \<Rightarrow> (string \<times> json) list" where
  "get_object j = (case j of JObj obj \<Rightarrow> obj | _ \<Rightarrow> [])"

text \<open>Continue with the result of a call unless it failed or ran out of steps.\<close>

definition bindR :: "(string + 'a) option \<Rightarrow> ('a \<Rightarrow> (string + 'b) option) \<Rightarrow> (string + 'b) option" where
  "bindR r k = (case r of None \<Rightarrow> None | Some (Inl e) \<Rightarrow> Some (Inl e) | Some (Inr x) \<Rightarrow> k x)"

definition parseNode :: "yaml_caller \<Rightarrow> nat \<Rightarrow> Line list \<Rightarrow> yaml_result" where
  "parseNode call indent lines =
     (case lines of
        [] \<Rightarrow> Some (Inl ''unexpected end of YAML document'')
      | l # ls \<Rightarrow>
          if ln_indent l \<noteq> indent then Some (yaml_fail l ''unexpected indentation'')
          else if sequenceLine (ln_text l) then call (CSequence indent [] lines)
          else call (CMapping indent [] lines))"

definition parseMapping :: "yaml_caller \<Rightarrow> nat \<Rightarrow> (string \<times> json) list \<Rightarrow> Line list \<Rightarrow> yaml_result" where
  "parseMapping call indent obj lines =
     (case lines of
        [] \<Rightarrow> Some (Inr (JObj obj, []))
      | l # ls \<Rightarrow>
          if ln_indent l < indent then Some (Inr (JObj obj, lines))
          else if ln_indent l > indent then Some (yaml_fail l ''unexpected indentation'')
          else if sequenceLine (ln_text l) then Some (Inr (JObj obj, lines))
          else bindR (call (CEntry indent obj lines)) (\<lambda>(j, rest). call (CMapping indent (get_object j) rest)))"

text \<open>
  The value of a key whose text behind the colon is \<open>rawRest\<close>: nothing there means the block of
  lines indented by more than \<open>floor\<close>, or null.
\<close>

definition entry_value :: "yaml_caller \<Rightarrow> json_parse \<Rightarrow> Line \<Rightarrow> nat \<Rightarrow> string \<Rightarrow> Line list \<Rightarrow> yaml_result" where
  "entry_value call jp line floor rawRest ls =
     (if yaml_trim rawRest = [] then
        (case ls of
           l # _ \<Rightarrow> if ln_indent l > floor then call (CNode (ln_indent l) ls) else Some (Inr (JNull, ls))
         | [] \<Rightarrow> Some (Inr (JNull, ls)))
      else case parseScalar jp line (yaml_trim rawRest) of
          Inl e \<Rightarrow> Some (Inl e)
        | Inr v \<Rightarrow> Some (Inr (v, ls)))"

definition parseMappingEntry :: "yaml_caller \<Rightarrow> json_parse \<Rightarrow> nat \<Rightarrow> (string \<times> json) list \<Rightarrow> Line list \<Rightarrow> yaml_result" where
  "parseMappingEntry call jp indent obj lines =
     (case lines of
        [] \<Rightarrow> None
      | line # ls \<Rightarrow>
          if ln_indent line \<noteq> indent \<or> sequenceLine (ln_text line) then Some (yaml_fail line ''expected a mapping entry'')
          else case mappingColon (ln_text line) of
            None \<Rightarrow> Some (yaml_fail line (''expected '' @ [SQ] @ '':'' @ [SQ] @ '' after mapping key''))
          | Some (rawKey, rawRest) \<Rightarrow>
              (case parseKey jp line rawKey of
                 Inl e \<Rightarrow> Some (Inl e)
               | Inr key \<Rightarrow>
                   if map_of obj key \<noteq> None then
                     Some (yaml_fail line (''duplicate mapping key '' @ [SQ] @ key @ [SQ]))
                   else bindR (entry_value call jp line indent rawRest ls)
                     (\<lambda>(v, rest). Some (Inr (JObj (omap_set key v obj), rest)))))"

definition parseSequence :: "yaml_caller \<Rightarrow> nat \<Rightarrow> json list \<Rightarrow> Line list \<Rightarrow> yaml_result" where
  "parseSequence call indent out lines =
     (case lines of
        [] \<Rightarrow> Some (Inr (JArr out, []))
      | line # ls \<Rightarrow>
          if ln_indent line = indent \<and> sequenceLine (ln_text line) then
            bindR (call (CItem indent line ls)) (\<lambda>(v, rest). call (CSequence indent (out @ [v]) rest))
          else Some (Inr (JArr out, lines)))"

definition sequence_entries :: "yaml_caller \<Rightarrow> nat \<Rightarrow> (string \<times> json) list \<Rightarrow> Line list \<Rightarrow> yaml_result" where
  "sequence_entries call indent obj lines =
     (case lines of
        [] \<Rightarrow> Some (Inr (JObj obj, []))
      | l # ls \<Rightarrow>
          if ln_indent l > indent then
            (if ln_indent l \<noteq> indent + 2 then Some (yaml_fail l ''unexpected indentation'')
             else bindR (call (CEntry (indent + 2) obj lines)) (\<lambda>(j, rest). call (CEntries indent (get_object j) rest)))
          else Some (Inr (JObj obj, lines)))"

definition sequence_item :: "yaml_caller \<Rightarrow> json_parse \<Rightarrow> nat \<Rightarrow> Line \<Rightarrow> Line list \<Rightarrow> yaml_result" where
  "sequence_item call jp indent line ls =
     (let item = yaml_trim (tl (ln_text line)) in
      if item = [] then
        (case ls of
           l # _ \<Rightarrow> if ln_indent l \<le> indent then Some (yaml_fail line ''sequence item has no value'')
                    else call (CNode (ln_indent l) ls)
         | [] \<Rightarrow> Some (yaml_fail line ''sequence item has no value''))
      else case mappingColon item of
          None \<Rightarrow>
            (case parseScalar jp line item of
               Inl e \<Rightarrow> Some (Inl e)
             | Inr v \<Rightarrow>
                 (case ls of
                    l # _ \<Rightarrow> if ln_indent l > indent then
                        Some (yaml_fail l ''scalar sequence item cannot have nested content'')
                      else Some (Inr (v, ls))
                  | [] \<Rightarrow> Some (Inr (v, ls))))
        | Some (rawKey, rawRest) \<Rightarrow>
            (case parseKey jp line rawKey of
               Inl e \<Rightarrow> Some (Inl e)
             | Inr key \<Rightarrow>
                 bindR (entry_value call jp line (indent + 2) rawRest ls)
                   (\<lambda>(v, rest). call (CEntries indent [(key, v)] rest))))"

definition yaml_step :: "yaml_caller \<Rightarrow> json_parse \<Rightarrow> yaml_caller" where
  "yaml_step call jp c =
     (case c of
        CNode indent lines \<Rightarrow> parseNode call indent lines
      | CMapping indent obj lines \<Rightarrow> parseMapping call indent obj lines
      | CEntry indent obj lines \<Rightarrow> parseMappingEntry call jp indent obj lines
      | CSequence indent out lines \<Rightarrow> parseSequence call indent out lines
      | CItem indent line ls \<Rightarrow> sequence_item call jp indent line ls
      | CEntries indent obj lines \<Rightarrow> sequence_entries call indent obj lines)"

primrec yaml_run :: "nat \<Rightarrow> json_parse \<Rightarrow> yaml_caller" where
  "yaml_run 0 jp c = None"
| "yaml_run (Suc n) jp c = yaml_step (yaml_run n jp) jp c"

section \<open>Documents\<close>

text \<open>The lines of \<^verbatim>\<open>std::getline\<close>: an empty text has none, a final newline ends the last one.\<close>

fun split_lines :: "string \<Rightarrow> string \<Rightarrow> string list" where
  "split_lines acc [] = (if acc = [] then [] else [acc])"
| "split_lines acc (c # cs) = (if c = NL then acc # split_lines [] cs else split_lines (acc @ [c]) cs)"

definition strip_cr :: "string \<Rightarrow> string" where
  "strip_cr raw = (if raw \<noteq> [] \<and> last raw = CHR 0x0D then butlast raw else raw)"

fun tokenize :: "nat \<Rightarrow> string list \<Rightarrow> string + Line list" where
  "tokenize number [] = Inr []"
| "tokenize number (raw0 # raws) =
     (let raw = strip_cr raw0;
          body = dropWhile (\<lambda>c. c = SP) raw;
          content = yaml_trim (withoutComment body)
      in if body \<noteq> [] \<and> hd body = CHR 0x09 then
           Inl (''line '' @ to_string number @ '': tabs are not allowed for YAML indentation'')
         else case tokenize (number + 1) raws of
             Inl e \<Rightarrow> Inl e
           | Inr ls \<Rightarrow>
               if content = [] \<or> content = ''---'' \<or> content = ''...'' then Inr ls
               else Inr (\<lparr>ln_number = number, ln_indent = length raw - length body, ln_text = content\<rparr> # ls))"

definition parse_lines :: "nat \<Rightarrow> json_parse \<Rightarrow> Line list \<Rightarrow> (string + json) option" where
  "parse_lines n jp lines =
     (case lines of
        [] \<Rightarrow> Some (Inl ''YAML document is empty'')
      | l # _ \<Rightarrow>
          bindR (yaml_run n jp (CNode (ln_indent l) lines)) (\<lambda>(v, rest).
            case rest of [] \<Rightarrow> Some (Inr v) | r # _ \<Rightarrow> Some (yaml_fail r ''unexpected indentation'')))"

definition parseYaml :: "json_parse \<Rightarrow> string \<Rightarrow> (string + json) option" where
  "parseYaml jp text =
     (case tokenize 1 (split_lines [] text) of
        Inl e \<Rightarrow> Some (Inl e)
      | Inr lines \<Rightarrow> parse_lines (3 * length lines + 3) jp lines)"

section \<open>The parser returns\<close>

text \<open>
  The steps a call needs and the number of lines it may leave: an entry uses at least its own
  line, every other call leaves at most the lines it was given.
\<close>

fun call_cost :: "yaml_call \<Rightarrow> nat" where
  "call_cost (CNode _ ls) = 3 * length ls + 3"
| "call_cost (CMapping _ _ ls) = 3 * length ls + 2"
| "call_cost (CEntry _ _ ls) = 3 * length ls + 1"
| "call_cost (CSequence _ _ ls) = 3 * length ls + 2"
| "call_cost (CItem _ _ ls) = 3 * length ls + 4"
| "call_cost (CEntries _ _ ls) = 3 * length ls + 2"

fun call_leaves :: "yaml_call \<Rightarrow> nat" where
  "call_leaves (CNode _ ls) = length ls"
| "call_leaves (CMapping _ _ ls) = length ls"
| "call_leaves (CEntry _ _ ls) = length ls - 1"
| "call_leaves (CSequence _ _ ls) = length ls"
| "call_leaves (CItem _ _ ls) = length ls"
| "call_leaves (CEntries _ _ ls) = length ls"

fun callable :: "yaml_call \<Rightarrow> bool" where
  "callable (CEntry _ _ ls) \<longleftrightarrow> ls \<noteq> []"
| "callable _ \<longleftrightarrow> True"

definition answers :: "nat \<Rightarrow> yaml_result \<Rightarrow> bool" where
  "answers k r \<longleftrightarrow> (case r of None \<Rightarrow> False | Some (Inl _) \<Rightarrow> True | Some (Inr (_, rest)) \<Rightarrow> length rest \<le> k)"

lemma answers_simps [simp]:
  "\<not> answers k None" "answers k (Some (Inl e))" "answers k (Some (yaml_fail l m))"
  "answers k (Some (Inr (j, rest))) \<longleftrightarrow> length rest \<le> k"
  by (simp_all add: answers_def yaml_fail_def)

lemma answers_mono: "answers k r \<Longrightarrow> k \<le> k' \<Longrightarrow> answers k' r"
  by (auto simp: answers_def split: option.splits sum.splits)

lemma answers_bindR:
  "answers k r \<Longrightarrow> (\<And>j rest. length rest \<le> k \<Longrightarrow> answers k' (f (j, rest))) \<Longrightarrow> answers k' (bindR r f)"
  by (cases r) (auto simp: bindR_def split: sum.split)

lemma answers_entry_value:
  assumes "\<And>k. answers (length ls) (call (CNode k ls))"
  shows "answers (length ls) (entry_value call jp line floor rawRest ls)"
  using assms by (auto simp: entry_value_def split: list.splits sum.splits)

lemma yaml_step_answers:
  assumes call: "\<And>c'. callable c' \<Longrightarrow> call_cost c' \<le> n \<Longrightarrow> answers (call_leaves c') (call c')"
    and c: "callable c" "call_cost c \<le> Suc n"
  shows "answers (call_leaves c) (yaml_step call jp c)"
proof (cases c)
  case (CNode k ls)
  then show ?thesis
    using c call [of "CSequence k [] ls"] call [of "CMapping k [] ls"]
    by (auto simp: yaml_step_def parseNode_def split: list.split)
next
  case (CMapping k obj ls)
  have "answers (length ls) (call (CMapping k o' rest))" if "length rest \<le> length ls - 1" "ls \<noteq> []" for o' rest
    using that c call [of "CMapping k o' rest"] CMapping by (intro answers_mono [OF call]) (cases ls; auto)+
  moreover have "answers (length ls - 1) (call (CEntry k obj ls))" if "ls \<noteq> []"
    using that c call [of "CEntry k obj ls"] CMapping by simp
  ultimately show ?thesis
    using CMapping by (auto simp: yaml_step_def parseMapping_def split: list.split intro!: answers_bindR)
next
  case (CEntry k obj ls)
  then obtain line ls' where ls: "ls = line # ls'" using c by (cases ls) auto
  have "answers (length ls') (call (CNode k' ls'))" for k'
    using c call [of "CNode k' ls'"] CEntry ls by simp
  then have "answers (length ls') (entry_value call jp l f r ls')" for l f r
    by (rule answers_entry_value)
  then show ?thesis
    using CEntry ls
    by (auto simp: yaml_step_def parseMappingEntry_def split: option.split sum.split intro!: answers_bindR)
next
  case (CSequence k out ls)
  have "answers (length ls) (call (CSequence k o' rest))" if "length rest \<le> length ls - 1" "ls \<noteq> []" for o' rest
    using that c CSequence by (intro answers_mono [OF call]) (cases ls; auto)+
  moreover have "answers (length ls - 1) (call (CItem k (hd ls) (tl ls)))" if "ls \<noteq> []"
    using that c call [of "CItem k (hd ls) (tl ls)"] CSequence by (cases ls) auto
  ultimately show ?thesis
    using CSequence by (auto simp: yaml_step_def parseSequence_def split: list.split intro!: answers_bindR)
next
  case (CItem k line ls)
  have node: "answers (length ls) (call (CNode k' ls))" for k'
    using c call [of "CNode k' ls"] CItem by simp
  have "answers (length ls) (call (CEntries k o' rest))" if "length rest \<le> length ls" for o' rest
    using that c CItem by (intro answers_mono [OF call]) auto
  then show ?thesis
    using CItem node
    by (auto simp: yaml_step_def sequence_item_def Let_def
        split: list.split option.split sum.split intro!: answers_bindR answers_entry_value)
next
  case (CEntries k obj ls)
  have "answers (length ls) (call (CEntries k o' rest))" if "length rest \<le> length ls - 1" "ls \<noteq> []" for o' rest
    using that c CEntries by (intro answers_mono [OF call]) (cases ls; auto)+
  moreover have "answers (length ls - 1) (call (CEntry (k + 2) obj ls))" if "ls \<noteq> []"
    using that c call [of "CEntry (k + 2) obj ls"] CEntries by simp
  ultimately show ?thesis
    using CEntries by (auto simp: yaml_step_def sequence_entries_def split: list.split intro!: answers_bindR)
qed

lemma yaml_run_answers:
  "callable c \<Longrightarrow> call_cost c \<le> n \<Longrightarrow> answers (call_leaves c) (yaml_run n jp c)"
proof (induction n arbitrary: c)
  case 0
  then show ?case by (cases c) auto
next
  case (Suc n)
  show ?case using yaml_step_answers [OF Suc.IH Suc.prems] by simp
qed

text \<open>More steps never change an answer.\<close>

definition extends :: "'a option \<Rightarrow> 'a option \<Rightarrow> bool" where
  "extends r r' \<longleftrightarrow> r = None \<or> r' = r"

lemma extends_same [simp]: "extends r r"
  by (simp add: extends_def)

lemma extends_bindR:
  "extends r r' \<Longrightarrow> (\<And>x. extends (k x) (k' x)) \<Longrightarrow> extends (bindR r k) (bindR r' k')"
  by (auto simp: extends_def bindR_def split: option.split sum.split)

lemma extends_entry_value:
  "(\<And>c. extends (call c) (call' c)) \<Longrightarrow>
   extends (entry_value call jp line fl r ls) (entry_value call' jp line fl r ls)"
  by (simp add: entry_value_def split: list.split sum.split)

lemma yaml_step_extends:
  assumes "\<And>c. extends (call c) (call' c)"
  shows "extends (yaml_step call jp c) (yaml_step call' jp c)"
proof (cases c)
  case (CEntry k obj ls)
  then show ?thesis
    using assms
    by (auto simp: yaml_step_def parseMappingEntry_def split: list.split option.split sum.split
        intro!: extends_bindR extends_entry_value)
next
  case (CItem k line ls)
  then show ?thesis
    using assms
    by (auto simp: yaml_step_def sequence_item_def Let_def split: list.split option.split sum.split
        intro!: extends_bindR extends_entry_value)
qed (use assms in \<open>auto simp: yaml_step_def parseNode_def parseMapping_def parseSequence_def sequence_entries_def
       split: list.split intro!: extends_bindR\<close>)

lemma yaml_run_extends: "extends (yaml_run n jp c) (yaml_run (n + k) jp c)"
proof (induction n arbitrary: c)
  case (Suc n)
  then show ?case using yaml_step_extends [of "yaml_run n jp" "yaml_run (n + k) jp"] by simp
qed (simp add: extends_def)

text \<open>
  The parser returns on every text, with a document or an error message, and more steps than the
  ones it is started with give the same result.
\<close>

text \<open>
  C27: The YAML parser returns on every text: three calls per line and three more are always
  enough, and more calls do not change the answer.
\<close>

theorem parseYaml_terminates:
  "\<exists>r. parseYaml jp text = Some r \<and>
     (case tokenize 1 (split_lines [] text) of
        Inl e \<Rightarrow> r = Inl e
      | Inr lines \<Rightarrow> \<forall>k. parse_lines (3 * length lines + 3 + k) jp lines = Some r)"
proof (cases "tokenize 1 (split_lines [] text)")
  case (Inr lines)
  show ?thesis
  proof (cases lines)
    case (Cons l ls)
    let ?c = "CNode (ln_indent l) lines"
    have "answers (length lines) (yaml_run (3 * length lines + 3) jp ?c)"
      using yaml_run_answers [of ?c "3 * length lines + 3" jp] by simp
    then obtain x where x: "yaml_run (3 * length lines + 3) jp ?c = Some x"
      by (cases "yaml_run (3 * length lines + 3) jp ?c") auto
    then have more: "yaml_run (3 * length lines + 3 + k) jp ?c = Some x" for k
      using yaml_run_extends [of "3 * length lines + 3" jp ?c k] by (simp add: extends_def)
    obtain r where r: "bindR (Some x) (\<lambda>(v, rest). case rest of [] \<Rightarrow> Some (Inr v)
        | r # _ \<Rightarrow> Some (yaml_fail r ''unexpected indentation'')) = Some r"
      by (cases x; cases "snd (projr x)") (auto simp: bindR_def)
    then have "parse_lines (3 * length lines + 3 + k) jp lines = Some r" for k
      using more Cons by (simp add: parse_lines_def)
    moreover from this [of 0] have "parseYaml jp text = Some r" using Inr by (simp add: parseYaml_def)
    ultimately show ?thesis using Inr by auto
  qed (use Inr in \<open>simp add: parse_lines_def parseYaml_def\<close>)
qed (simp add: parseYaml_def)

section \<open>Documents are well formed\<close>

text \<open>The keys of every object are in the order of the map, none twice.\<close>

fun json_ok :: "json \<Rightarrow> bool" where
  "json_ok (JArr js) \<longleftrightarrow> list_all json_ok js"
| "json_ok (JObj obj) \<longleftrightarrow> omap_ok obj \<and> list_all (\<lambda>(k, v). json_ok v) obj"
| "json_ok _ \<longleftrightarrow> True"

definition json_library :: "json_parse \<Rightarrow> bool" where
  "json_library jp \<longleftrightarrow> (\<forall>s j. jp s = Inr j \<longrightarrow> json_ok j)"

definition result_ok :: "yaml_result \<Rightarrow> bool" where
  "result_ok r \<longleftrightarrow> (\<forall>j rest. r = Some (Inr (j, rest)) \<longrightarrow> json_ok j)"

lemma result_ok_simps [simp]:
  "result_ok None" "result_ok (Some (Inl e))" "result_ok (Some (yaml_fail l m))"
  "result_ok (Some (Inr (j, rest))) \<longleftrightarrow> json_ok j"
  by (auto simp: result_ok_def yaml_fail_def)

lemma result_ok_bindR:
  "result_ok r \<Longrightarrow> (\<And>j rest. json_ok j \<Longrightarrow> result_ok (k (j, rest))) \<Longrightarrow> result_ok (bindR r k)"
  by (cases r) (auto simp: bindR_def split: sum.split)

lemma traverse_all:
  "traverse f xs = Inr ys \<Longrightarrow> \<forall>x \<in> set xs. \<forall>y. f x = Inr y \<longrightarrow> P y \<Longrightarrow> list_all P ys"
  by (induction xs arbitrary: ys) (auto split: sum.splits)

lemma json_ok_set: "omap_ok obj \<Longrightarrow> list_all (\<lambda>(k, v). json_ok v) obj \<Longrightarrow> json_ok v \<Longrightarrow> json_ok (JObj (omap_set key v obj))"
proof -
  assume "omap_ok obj" "list_all (\<lambda>(k, v). json_ok v) obj" "json_ok v"
  moreover from this have "list_all (\<lambda>(k, v). json_ok v) (omap_set key v obj)"
    by (induction key v obj rule: omap_set.induct) (auto simp: omap_ok_def)
  ultimately show ?thesis by (simp add: omap_ok_set)
qed

lemma get_object_ok: "json_ok j \<Longrightarrow> json_ok (JObj (get_object j))"
  by (cases j) (auto simp: get_object_def omap_ok_def)

lemma parseScalar_ok:
  assumes jp: "json_library jp"
  shows "parseScalar jp line raw = Inr j \<Longrightarrow> json_ok j"
proof (induction raw arbitrary: j rule: measure_induct_rule [of length])
  case (less raw)
  define vl where "vl = yaml_trim raw"
  have lib: "json_ok j'" if "jp s = Inr j'" for s j'
    using jp that by (auto simp: json_library_def)
  have items: "list_all json_ok js"
    if "traverse (\<lambda>p. if yaml_trim p = [] then yaml_fail line ''empty value in flow sequence''
                       else parseScalar jp line (yaml_trim p))
          (flow_parts False False False 0 [] (yaml_trim (butlast (tl vl)))) = Inr js" "vl \<noteq> []" for js
  proof (rule traverse_all [OF that(1)], intro ballI allI impI)
    fix p y
    assume p: "p \<in> set (flow_parts False False False 0 [] (yaml_trim (butlast (tl vl))))"
      and y: "(if yaml_trim p = [] then yaml_fail line ''empty value in flow sequence''
               else parseScalar jp line (yaml_trim p)) = Inr y"
    have "length (yaml_trim p) < length raw"
      using bracket_body_length [OF that(2) p] yaml_trim_length [of p] yaml_trim_length [of raw]
      by (simp add: vl_def)
    then show "json_ok y" using y less.IH by (simp add: yaml_fail_def split: if_splits)
  qed
  show ?case
    using less.prems lib items
    by (subst (asm) parseScalar.simps) (auto simp: Let_def vl_def [symmetric] yaml_fail_def split: if_splits sum.splits)
qed

fun call_ok :: "yaml_call \<Rightarrow> bool" where
  "call_ok (CMapping _ obj _) \<longleftrightarrow> json_ok (JObj obj)"
| "call_ok (CEntry _ obj _) \<longleftrightarrow> json_ok (JObj obj)"
| "call_ok (CSequence _ out _) \<longleftrightarrow> json_ok (JArr out)"
| "call_ok (CEntries _ obj _) \<longleftrightarrow> json_ok (JObj obj)"
| "call_ok _ \<longleftrightarrow> True"

lemma entry_value_ok:
  assumes "json_library jp" "\<And>c. call_ok c \<Longrightarrow> result_ok (call c)"
  shows "result_ok (entry_value call jp line fl r ls)"
  using assms(2) [of "CNode _ _"] parseScalar_ok [OF assms(1)]
  by (auto simp: entry_value_def split: list.split sum.split)

lemma yaml_step_ok:
  assumes jp: "json_library jp" and call: "\<And>c. call_ok c \<Longrightarrow> result_ok (call c)" and c: "call_ok c"
  shows "result_ok (yaml_step call jp c)"
proof (cases c)
  case (CNode k ls)
  then show ?thesis
    using call by (auto simp: yaml_step_def parseNode_def omap_ok_def split: list.split)
next
  case (CMapping k obj ls)
  then show ?thesis
    using c call get_object_ok
    by (auto simp: yaml_step_def parseMapping_def split: list.split intro!: result_ok_bindR)
next
  case (CEntry k obj ls)
  then show ?thesis
    using c entry_value_ok [OF jp call] json_ok_set
    by (auto simp: yaml_step_def parseMappingEntry_def split: list.split option.split sum.split intro!: result_ok_bindR)
next
  case (CSequence k out ls)
  then show ?thesis
    using c call by (auto simp: yaml_step_def parseSequence_def split: list.split intro!: result_ok_bindR)
next
  case (CItem k line ls)
  then show ?thesis
    using call entry_value_ok [OF jp call] parseScalar_ok [OF jp]
    by (auto simp: yaml_step_def sequence_item_def Let_def omap_ok_def
        split: list.split option.split sum.split intro!: result_ok_bindR)
next
  case (CEntries k obj ls)
  then show ?thesis
    using c call get_object_ok
    by (auto simp: yaml_step_def sequence_entries_def split: list.split intro!: result_ok_bindR)
qed

lemma yaml_run_ok: "json_library jp \<Longrightarrow> call_ok c \<Longrightarrow> result_ok (yaml_run n jp c)"
proof (induction n arbitrary: c)
  case (Suc n)
  show ?case using yaml_step_ok [OF Suc.prems(1) Suc.IH [OF Suc.prems(1)] Suc.prems(2)] by simp
qed simp

definition container :: "json \<Rightarrow> bool" where
  "container j \<longleftrightarrow> (case j of JObj _ \<Rightarrow> True | JArr _ \<Rightarrow> True | _ \<Rightarrow> False)"

fun block_call :: "yaml_call \<Rightarrow> bool" where
  "block_call (CNode _ _) \<longleftrightarrow> True"
| "block_call (CMapping _ _ _) \<longleftrightarrow> True"
| "block_call (CSequence _ _ _) \<longleftrightarrow> True"
| "block_call _ \<longleftrightarrow> False"

lemma bindR_Inr: "bindR r k = Some (Inr x) \<longleftrightarrow> (\<exists>y. r = Some (Inr y) \<and> k y = Some (Inr x))"
  by (auto simp: bindR_def split: option.split sum.split)

lemma container_simps [simp]: "container (JObj obj)" "container (JArr js)"
  by (simp_all add: container_def)

lemma yaml_run_container: "block_call c \<Longrightarrow> yaml_run n jp c = Some (Inr (j, rest)) \<Longrightarrow> container j"
proof (induction n arbitrary: c)
  case (Suc n)
  have again: "yaml_run n jp c' = Some (Inr (j, rest)) \<Longrightarrow> block_call c' \<Longrightarrow> container j" for c'
    by (rule Suc.IH)
  show ?case
    using Suc.prems
    by (cases c)
       (auto simp: yaml_step_def parseNode_def parseMapping_def parseSequence_def yaml_fail_def bindR_Inr
          split: list.splits if_splits dest: again)
qed simp

text \<open>
  What the parser returns for a text is an object or an array, and all objects in it are maps: if
  the JSON library only returns such values, so does the parser.
\<close>

text \<open>
  A document the YAML parser accepts is an object or an array, and every object in it, at any
  depth, has distinct keys in order, provided the JSON library returns such values.
\<close>

theorem parseYaml_type:
  assumes "json_library jp" "parseYaml jp text = Some (Inr j)"
  shows "json_ok j \<and> (\<exists>obj js. j = JObj obj \<or> j = JArr js)"
proof -
  obtain l ls n where run: "yaml_run n jp (CNode (ln_indent l) (l # ls)) = Some (Inr (j, []))"
    using assms(2)
    by (auto simp: parseYaml_def parse_lines_def bindR_def yaml_fail_def split: sum.splits list.splits option.splits)
  have "result_ok (yaml_run n jp (CNode (ln_indent l) (l # ls)))"
    using assms(1) by (rule yaml_run_ok) simp
  moreover have "container j" using run by (intro yaml_run_container [of _ n jp]) simp_all
  ultimately show ?thesis using run by (auto simp: container_def split: json.splits)
qed

section \<open>Reading what was written\<close>

text \<open>
  A document in block style: strings and keys in single quotes, one line per entry or item, the
  blocks below two columns further in.
\<close>

primrec doubled_quotes :: "string \<Rightarrow> string" where
  "doubled_quotes [] = []"
| "doubled_quotes (c # s) = (if c = SQ then SQ # SQ # doubled_quotes s else c # doubled_quotes s)"

definition quoted :: "string \<Rightarrow> string" where
  "quoted s = SQ # doubled_quotes s @ [SQ]"

definition scalar_text :: "json \<Rightarrow> string" where
  "scalar_text j =
     (case j of JStr s \<Rightarrow> quoted s | JBool b \<Rightarrow> if b then ''true'' else ''false'' | _ \<Rightarrow> ''null'')"

type_synonym shown_line = "nat \<times> string"

definition shown :: "Line list \<Rightarrow> shown_line list" where
  "shown ls = map (\<lambda>l. (ln_indent l, ln_text l)) ls"

fun block_lines :: "nat \<Rightarrow> json \<Rightarrow> shown_line list" where
  "block_lines k (JObj obj) =
     concat (map (\<lambda>(key, v).
       if container v then (k, quoted key @ '':'') # block_lines (k + 2) v
       else [(k, quoted key @ '': '' @ scalar_text v)]) obj)"
| "block_lines k (JArr js) =
     concat (map (\<lambda>v.
       if container v then (k, ''-'') # block_lines (k + 2) v
       else [(k, ''- '' @ scalar_text v)]) js)"
| "block_lines k _ = []"

definition entry_lines :: "nat \<Rightarrow> string \<times> json \<Rightarrow> shown_line list" where
  "entry_lines k = (\<lambda>(key, v).
     if container v then (k, quoted key @ '':'') # block_lines (k + 2) v
     else [(k, quoted key @ '': '' @ scalar_text v)])"

definition item_lines :: "nat \<Rightarrow> json \<Rightarrow> shown_line list" where
  "item_lines k v =
     (if container v then (k, ''-'') # block_lines (k + 2) v else [(k, ''- '' @ scalar_text v)])"

text \<open>Documents with a block form: no numbers, no empty container, no key or string with a line break.\<close>

fun printable :: "json \<Rightarrow> bool" where
  "printable (JArr js) \<longleftrightarrow> js \<noteq> [] \<and> list_all printable js"
| "printable (JObj obj) \<longleftrightarrow> obj \<noteq> [] \<and> list_all (\<lambda>(k, v). NL \<notin> set k \<and> printable v) obj"
| "printable (JStr s) \<longleftrightarrow> NL \<notin> set s"
| "printable (JNum _) \<longleftrightarrow> False"
| "printable _ \<longleftrightarrow> True"

lemma trim_ends:
  assumes "s \<noteq> []" "\<not> isspace (hd s)" "\<not> isspace (last s)"
  shows "yaml_trim s = s"
proof -
  have "dropWhile isspace s = s" using assms by (cases s) auto
  moreover have "dropWhile isspace (rev s) = rev s" using assms by (cases s rule: rev_cases) auto
  ultimately show ?thesis by (simp add: yaml_trim_def)
qed

lemma trim_space: "yaml_trim (SP # s) = yaml_trim s"
  by (simp add: yaml_trim_def cctype_simps)

lemma quote_not_space: "\<not> isspace SQ" "SQ \<noteq> BSL" "SQ \<noteq> DQ" "\<not> isspace (CHR '':'')"
  by (simp_all add: cctype_simps)

lemma trim_quoted [simp]: "yaml_trim (quoted s) = quoted s"
  by (rule trim_ends) (simp_all add: quoted_def quote_not_space)

lemma single_decoded_doubled [simp]: "single_decoded (doubled_quotes s) = s"
proof (induction s)
  case (Cons c s)
  then show ?case by (cases "doubled_quotes s") auto
qed simp

lemma parseScalar_quoted: "parseScalar jp line (quoted s) = Inr (JStr s)"
  by (subst parseScalar.simps) (simp add: Let_def, simp add: quoted_def)

lemma parseScalar_text:
  assumes "printable v" "\<not> container v"
  shows "parseScalar jp line (scalar_text v) = Inr v"
proof (cases v)
  case (JStr s)
  then show ?thesis by (simp add: scalar_text_def parseScalar_quoted)
qed (use assms in \<open>simp_all add: scalar_text_def container_def\<close>, (subst parseScalar.simps, simp add: Let_def yaml_trim_def cctype_simps yaml_lower_def tolower_def)+)

lemma parseKey_quoted: "parseKey jp line (quoted s) = Inr s"
  using parseScalar_quoted [of jp line s]
  by (simp add: parseKey_def) (simp add: quoted_def is_string_def get_string_def)

lemma colon_doubled:
  assumes "t = [] \<or> hd t \<noteq> SQ"
  shows "colon_from True False False 0 (doubled_quotes s @ SQ # t) =
     map_option (\<lambda>(a, b). (doubled_quotes s @ SQ # a, b)) (colon_from False False False 0 t)"
proof (induction s)
  case Nil
  show ?case using assms by (cases t) (auto simp: option.map_comp split: option.split)
next
  case (Cons c s)
  then show ?case
    by (cases "c = SQ") (auto simp: option.map_comp comp_def split_def)
qed

lemma mappingColon_key:
  assumes "r = [] \<or> isspace (hd r)"
  shows "mappingColon (quoted key @ CHR '':'' # r) = Some (quoted key, r)"
  using colon_doubled [of "CHR '':'' # r" key] assms
  by (simp add: mappingColon_def quoted_def quote_not_space)
     (cases "doubled_quotes key"; auto simp: quote_not_space)

lemma mappingColon_scalar: "printable v \<Longrightarrow> \<not> container v \<Longrightarrow> mappingColon (scalar_text v) = None"
proof (cases v)
  case (JStr s)
  then show ?thesis
    using colon_doubled [of "[]" s]
    by (simp add: mappingColon_def scalar_text_def quoted_def) (cases "doubled_quotes s"; auto)
qed (auto simp: scalar_text_def mappingColon_def cctype_simps)

lemma trim_scalar [simp]: "yaml_trim (scalar_text v) = scalar_text v" "scalar_text v \<noteq> []"
proof -
  show "yaml_trim (scalar_text v) = scalar_text v"
    by (cases v) (auto simp: scalar_text_def, auto simp: yaml_trim_def cctype_simps)
  show "scalar_text v \<noteq> []"
    by (cases v) (auto simp: scalar_text_def quoted_def)
qed

text \<open>A call returns a value and leaves lines, with enough steps.\<close>

definition parses :: "json_parse \<Rightarrow> yaml_call \<Rightarrow> json \<Rightarrow> Line list \<Rightarrow> bool" where
  "parses jp c j rest \<longleftrightarrow> (\<exists>n. yaml_run n jp c = Some (Inr (j, rest)))"

lemma yaml_run_more: "yaml_run n jp c = Some x \<Longrightarrow> n \<le> m \<Longrightarrow> yaml_run m jp c = Some x"
  using yaml_run_extends [of n jp c "m - n"] by (simp add: extends_def)

lemma parses_two:
  assumes "parses jp c1 j1 r1" "parses jp c2 j2 r2"
    and "\<And>call. call c1 = Some (Inr (j1, r1)) \<Longrightarrow> call c2 = Some (Inr (j2, r2)) \<Longrightarrow>
      yaml_step call jp c = Some (Inr (j, rest))"
  shows "parses jp c j rest"
proof -
  obtain n m where "yaml_run n jp c1 = Some (Inr (j1, r1))" "yaml_run m jp c2 = Some (Inr (j2, r2))"
    using assms(1,2) by (auto simp: parses_def)
  then have "yaml_run (max n m) jp c1 = Some (Inr (j1, r1))" "yaml_run (max n m) jp c2 = Some (Inr (j2, r2))"
    by (auto intro: yaml_run_more)
  then have "yaml_run (Suc (max n m)) jp c = Some (Inr (j, rest))" using assms(3) by simp
  then show ?thesis unfolding parses_def by blast
qed

lemma parses_one:
  assumes "parses jp c1 j1 r1"
    and "\<And>call. call c1 = Some (Inr (j1, r1)) \<Longrightarrow> yaml_step call jp c = Some (Inr (j, rest))"
  shows "parses jp c j rest"
  using parses_two [OF assms(1,1)] assms(2) by blast

lemma parses_none: "(\<And>call. yaml_step call jp c = Some (Inr (j, rest))) \<Longrightarrow> parses jp c j rest"
  unfolding parses_def by (auto intro: exI [of _ "Suc 0"])

text \<open>The lines behind a block at column \<open>k\<close> are further out.\<close>

definition outside :: "nat \<Rightarrow> Line list \<Rightarrow> bool" where
  "outside k rest \<longleftrightarrow> (case rest of [] \<Rightarrow> True | l # _ \<Rightarrow> ln_indent l < k)"

lemma key_line_not_sequence: "\<not> sequenceLine (quoted key @ r)"
  by (simp add: sequenceLine_def quoted_def)

lemma item_line_sequence: "sequenceLine ''-''" "sequenceLine (''- '' @ r)"
  by (simp_all add: sequenceLine_def cctype_simps)

text \<open>The blocks of a container: each value below its line, up to the lines further out.\<close>

definition block_read :: "json_parse \<Rightarrow> json \<Rightarrow> bool" where
  "block_read jp v \<longleftrightarrow>
     (\<forall>k ls rest. shown ls = block_lines k v \<longrightarrow> outside k rest \<longrightarrow> parses jp (CNode k (ls @ rest)) v rest)"

lemma block_begins:
  assumes "printable v" "container v" "shown ls = block_lines k v"
  shows "\<exists>m ms. ls = m # ms \<and> ln_indent m = k \<and> (sequenceLine (ln_text m) \<longleftrightarrow> (\<exists>js. v = JArr js))"
proof (cases v)
  case (JObj obj)
  then obtain key w obj' where "obj = (key, w) # obj'" using assms(1) by (cases obj) auto
  then show ?thesis
    using assms(3) JObj key_line_not_sequence [of key] by (auto simp: shown_def split: if_splits)
next
  case (JArr js)
  then obtain w js' where "js = w # js'" using assms(1) by (cases js) auto
  then show ?thesis
    using assms(3) JArr item_line_sequence by (auto simp: shown_def split: if_splits)
qed (use assms in \<open>auto simp: container_def\<close>)

lemma entry_reads:
  assumes v: "printable v" "container v \<Longrightarrow> block_read jp v"
    and key: "map_of obj key = None"
    and ls: "shown ls = entry_lines k (key, v)" and rest: "outside (Suc k) rest"
  shows "parses jp (CEntry k obj (ls @ rest)) (JObj (omap_set key v obj)) rest"
proof (cases "container v")
  case True
  then obtain l ls' where l: "ls = l # ls'" "ln_indent l = k" "ln_text l = quoted key @ '':''"
      "shown ls' = block_lines (k + 2) v"
    using ls by (cases ls) (auto simp: entry_lines_def shown_def)
  obtain m ms where m: "ls' = m # ms" "ln_indent m = k + 2"
    using block_begins [OF v(1) True l(4)] by auto
  have "outside (k + 2) rest" using rest by (auto simp: outside_def split: list.split)
  then have node: "parses jp (CNode (k + 2) (ls' @ rest)) v rest"
    using v True l by (auto simp: block_read_def)
  show ?thesis
    by (rule parses_one [OF node])
       (use l m key mappingColon_key [of "[]" key] in \<open>simp add: yaml_step_def parseMappingEntry_def key_line_not_sequence
          entry_value_def parseKey_quoted bindR_def yaml_trim_def\<close>)
next
  case False
  then obtain l where l: "ls = [l]" "ln_indent l = k" "ln_text l = quoted key @ '': '' @ scalar_text v"
    using ls by (cases ls) (auto simp: entry_lines_def shown_def)
  show ?thesis
    by (rule parses_none)
       (use l key mappingColon_key [of "SP # scalar_text v" key] False v in \<open>simp add: yaml_step_def parseMappingEntry_def
          key_line_not_sequence entry_value_def parseKey_quoted bindR_def trim_space parseScalar_text cctype_simps\<close>)
qed

lemma item_reads:
  assumes v: "printable v" "container v \<Longrightarrow> block_read jp v"
    and ls: "shown (l # ls) = item_lines k v" and rest: "outside (Suc k) rest"
  shows "parses jp (CItem k l (ls @ rest)) v rest"
proof (cases "container v")
  case True
  then have l: "ln_text l = ''-''" "shown ls = block_lines (k + 2) v"
    using ls by (auto simp: item_lines_def shown_def)
  obtain m ms where m: "ls = m # ms" "ln_indent m = k + 2"
    using block_begins [OF v(1) True l(2)] by auto
  have "outside (k + 2) rest" using rest by (auto simp: outside_def split: list.split)
  then have node: "parses jp (CNode (k + 2) (ls @ rest)) v rest"
    using v True l by (auto simp: block_read_def)
  show ?thesis
    by (rule parses_one [OF node]) (use l m in \<open>simp add: yaml_step_def sequence_item_def yaml_trim_def\<close>)
next
  case False
  then have l: "ls = []" "ln_text l = ''- '' @ scalar_text v"
    using ls by (auto simp: item_lines_def shown_def)
  show ?thesis
    by (rule parses_none)
       (use l False v rest in \<open>simp add: yaml_step_def sequence_item_def trim_space parseScalar_text mappingColon_scalar
          outside_def split: list.splits\<close>)
qed

lemma omap_set_last:
  "omap_ok (obj @ (key, v) # es) \<Longrightarrow> omap_set key v obj = obj @ [(key, v)] \<and> map_of obj key = None"
proof (induction obj)
  case (Cons e obj)
  then show ?case by (cases e) (auto simp: omap_ok_def)
qed simp

text \<open>The lines behind one entry: the next entry of the block or a line further out.\<close>

lemma shown_append: "shown ls = a @ b \<Longrightarrow> \<exists>xs ys. ls = xs @ ys \<and> shown xs = a \<and> shown ys = b"
  by (auto simp: shown_def map_eq_append_conv)

lemma mapping_reads:
  assumes "list_all (\<lambda>(key, v). NL \<notin> set key \<and> printable v) es" "\<And>key v. (key, v) \<in> set es \<Longrightarrow> container v \<Longrightarrow> block_read jp v"
    and "omap_ok (obj @ es)" "shown ls = concat (map (entry_lines k) es)" "outside k rest"
  shows "parses jp (CMapping k obj (ls @ rest)) (JObj (obj @ es)) rest \<and> outside (Suc k) (ls @ rest)"
  using assms
proof (induction es arbitrary: obj ls)
  case Nil
  have "yaml_step call jp (CMapping k obj rest) = Some (Inr (JObj obj, rest))" for call
    using Nil by (auto simp: yaml_step_def parseMapping_def outside_def split: list.splits)
  then show ?case using Nil by (auto simp: shown_def outside_def split: list.splits intro: parses_none)
next
  case (Cons e es)
  obtain key v where e: "e = (key, v)" by (cases e)
  obtain xs ys where s: "ls = xs @ ys" "shown xs = entry_lines k (key, v)" "shown ys = concat (map (entry_lines k) es)"
    using shown_append [of ls "entry_lines k e"] Cons.prems(4) e by auto
  obtain l xs' where l: "xs = l # xs'" "ln_indent l = k" "\<not> sequenceLine (ln_text l)"
    using s(2) key_line_not_sequence by (cases xs) (auto simp: entry_lines_def shown_def split: if_splits)
  have set: "omap_set key v obj = obj @ [(key, v)]" "map_of obj key = None"
    using omap_set_last [of obj key v es] Cons.prems(3) by (auto simp: e)
  have more: "parses jp (CMapping k (obj @ [(key, v)]) (ys @ rest)) (JObj ((obj @ [(key, v)]) @ es)) rest"
      "outside (Suc k) (ys @ rest)"
    using Cons.IH [of "obj @ [(key, v)]" ys] Cons.prems s by (auto simp: e)
  have entry: "parses jp (CEntry k obj (xs @ ys @ rest)) (JObj (obj @ [(key, v)])) (ys @ rest)"
    using entry_reads [OF _ _ set(2) s(2) more(2)] Cons.prems set by (auto simp: e)
  have "parses jp (CMapping k obj (ls @ rest)) (JObj (obj @ e # es)) rest"
    by (rule parses_two [OF entry more(1)])
       (use l s in \<open>simp add: yaml_step_def parseMapping_def bindR_def get_object_def e\<close>)
  then show ?case using l s by (simp add: outside_def)
qed

lemma sequence_reads:
  assumes "list_all printable vs" "\<And>v. v \<in> set vs \<Longrightarrow> container v \<Longrightarrow> block_read jp v"
    and "shown ls = concat (map (item_lines k) vs)" "outside k rest"
  shows "parses jp (CSequence k out (ls @ rest)) (JArr (out @ vs)) rest \<and> outside (Suc k) (ls @ rest)"
  using assms
proof (induction vs arbitrary: out ls)
  case Nil
  have "yaml_step call jp (CSequence k out rest) = Some (Inr (JArr out, rest))" for call
    using Nil by (auto simp: yaml_step_def parseSequence_def outside_def split: list.splits)
  then show ?case using Nil by (auto simp: shown_def outside_def split: list.splits intro: parses_none)
next
  case (Cons v vs)
  obtain xs ys where s: "ls = xs @ ys" "shown xs = item_lines k v" "shown ys = concat (map (item_lines k) vs)"
    using shown_append [of ls "item_lines k v"] Cons.prems(3) by auto
  obtain l xs' where l: "xs = l # xs'" "ln_indent l = k" "sequenceLine (ln_text l)"
    using s(2) item_line_sequence by (cases xs) (auto simp: item_lines_def shown_def split: if_splits)
  have more: "parses jp (CSequence k (out @ [v]) (ys @ rest)) (JArr ((out @ [v]) @ vs)) rest"
      "outside (Suc k) (ys @ rest)"
    using Cons.IH [of ys "out @ [v]"] Cons.prems s by auto
  have item: "parses jp (CItem k l (xs' @ ys @ rest)) v (ys @ rest)"
    using item_reads [of v jp l xs' k "ys @ rest"] Cons.prems s l more(2) by auto
  have "parses jp (CSequence k out (ls @ rest)) (JArr (out @ v # vs)) rest"
    by (rule parses_two [OF item more(1)])
       (use l s in \<open>simp add: yaml_step_def parseSequence_def bindR_def\<close>)
  then show ?case using l s by (simp add: outside_def)
qed

lemma block_reads: "printable v \<Longrightarrow> json_ok v \<Longrightarrow> container v \<Longrightarrow> block_read jp v"
proof (induction v)
  case (JObj obj)
  have "parses jp (CNode k (ls @ rest)) (JObj obj) rest" if sh: "shown ls = block_lines k (JObj obj)" and out: "outside k rest" for k ls rest
  proof -
    obtain m ms where m: "ls = m # ms" "ln_indent m = k" "\<not> sequenceLine (ln_text m)"
      using block_begins [OF JObj.prems(1,3) sh] by auto
    have "parses jp (CMapping k [] (ls @ rest)) (JObj ([] @ obj)) rest"
      using JObj sh out by (intro mapping_reads [THEN conjunct1]) (force simp: list_all_iff entry_lines_def [symmetric])+
    then show ?thesis
      by (rule parses_one) (use m in \<open>simp add: yaml_step_def parseNode_def\<close>)
  qed
  then show ?case by (simp add: block_read_def)
next
  case (JArr js)
  have "parses jp (CNode k (ls @ rest)) (JArr js) rest" if sh: "shown ls = block_lines k (JArr js)" and out: "outside k rest" for k ls rest
  proof -
    obtain m ms where m: "ls = m # ms" "ln_indent m = k" "sequenceLine (ln_text m)"
      using block_begins [OF JArr.prems(1,3) sh] by auto
    have "parses jp (CSequence k [] (ls @ rest)) (JArr ([] @ js)) rest"
      using JArr sh out by (intro sequence_reads [THEN conjunct1]) (force simp: list_all_iff item_lines_def [abs_def])+
    then show ?thesis
      by (rule parses_one) (use m in \<open>simp add: yaml_step_def parseNode_def\<close>)
  qed
  then show ?case by (simp add: block_read_def)
qed (simp_all add: container_def)

text \<open>The text of a document in block style and its lines.\<close>

definition yaml_text :: "json \<Rightarrow> string" where
  "yaml_text v = concat (map (\<lambda>(k, t). replicate k SP @ t @ [NL]) (block_lines 0 v))"

definition good_line :: "string \<Rightarrow> bool" where
  "good_line t \<longleftrightarrow> t \<noteq> [] \<and> NL \<notin> set t \<and> \<not> isspace (hd t) \<and> \<not> isspace (last t) \<and> withoutComment t = t \<and>
     t \<noteq> ''---'' \<and> t \<noteq> ''...''"

lemma split_lines_line: "NL \<notin> set s \<Longrightarrow> split_lines acc (s @ NL # r) = (acc @ s) # split_lines [] r"
  by (induction s arbitrary: acc) auto

lemma split_lines_all:
  "\<forall>(k, t) \<in> set bs. NL \<notin> set t \<Longrightarrow>
   split_lines [] (concat (map (\<lambda>(k, t). replicate k SP @ t @ [NL]) bs)) = map (\<lambda>(k, t). replicate k SP @ t) bs"
proof (induction bs)
  case (Cons b bs)
  obtain k t where b: "b = (k, t)" by (cases b)
  have "NL \<notin> set (replicate k SP @ t)" using Cons.prems b by auto
  from split_lines_line [OF this, of "[]"] show ?case using Cons b by simp
qed simp

lemma tokenize_good:
  "\<forall>(k, t) \<in> set bs. good_line t \<Longrightarrow>
   \<exists>ls. tokenize n (map (\<lambda>(k, t). replicate k SP @ t) bs) = Inr ls \<and> shown ls = bs"
proof (induction bs arbitrary: n)
  case (Cons b bs)
  obtain k t where b: "b = (k, t)" by (cases b)
  then have t: "t \<noteq> []" "\<not> isspace (hd t)" "\<not> isspace (last t)" "withoutComment t = t" "t \<noteq> ''---''" "t \<noteq> ''...''"
    using Cons.prems by (auto simp: good_line_def)
  have space: "isspace SP" "isspace (CHR 0x09)" "isspace (CHR 0x0D)" by (simp_all add: cctype_simps)
  have cr: "strip_cr (replicate k SP @ t) = replicate k SP @ t"
    using t space by (auto simp: strip_cr_def)
  have body: "dropWhile (\<lambda>c. c = SP) (replicate k SP @ t) = t"
    using t space by (cases t) (auto simp: dropWhile_append)
  obtain ls where ls: "tokenize (n + 1) (map (\<lambda>(k, t). replicate k SP @ t) bs) = Inr ls" "shown ls = bs"
    using Cons.IH [of "n + 1"] Cons.prems by auto
  have "hd t \<noteq> CHR 0x09" using t space by auto
  then show ?case using ls t cr body by (auto simp: b Let_def trim_ends shown_def)
qed (simp add: shown_def)

lemma comment_doubled:
  assumes "t = [] \<or> hd t \<noteq> SQ"
  shows "comment_from True False False p (doubled_quotes s @ SQ # t) =
    doubled_quotes s @ SQ # comment_from False False False (Some SQ) t"
proof (induction s arbitrary: p)
  case Nil
  then show ?case using assms by (cases t) auto
qed auto

lemma comment_quoted:
  assumes "t = [] \<or> hd t \<noteq> SQ"
  shows "comment_from False False False p (quoted s @ t) = quoted s @ comment_from False False False (Some SQ) t"
  using comment_doubled [OF assms, of _ s] by (cases "doubled_quotes s @ SQ # t") (auto simp: quoted_def)

lemma comment_scalar: "printable v \<Longrightarrow> \<not> container v \<Longrightarrow> comment_from False False False p (scalar_text v) = scalar_text v"
  using comment_quoted [of "[]" p] by (cases v) (auto simp: scalar_text_def)

lemma quoted_chars: "NL \<notin> set s \<Longrightarrow> NL \<notin> set (quoted s)"
  by (simp add: quoted_def) (induction s; simp)

lemma scalar_chars: "printable v \<Longrightarrow> \<not> container v \<Longrightarrow> NL \<notin> set (scalar_text v)"
  using quoted_chars by (cases v) (auto simp: scalar_text_def)

lemma scalar_last: "\<not> isspace (last (scalar_text v))"
  by (cases v) (auto simp: scalar_text_def quoted_def cctype_simps)

lemma good_key_line: "NL \<notin> set key \<Longrightarrow> good_line (quoted key @ '':'')"
  using comment_quoted [of "'':''" None key] quoted_chars [of key]
  by (auto simp: good_line_def withoutComment_def) (auto simp: quoted_def cctype_simps)

lemma good_entry_line:
  assumes "NL \<notin> set key" "printable v" "\<not> container v"
  shows "good_line (quoted key @ '': '' @ scalar_text v)"
proof -
  have "withoutComment (quoted key @ '': '' @ scalar_text v) = quoted key @ '': '' @ scalar_text v"
    using comment_quoted [of "'': '' @ scalar_text v" None key] comment_scalar [OF assms(2,3)]
    by (simp add: withoutComment_def)
  moreover have "NL \<notin> set (quoted key @ '': '' @ scalar_text v)"
    using quoted_chars [OF assms(1)] scalar_chars [OF assms(2,3)] by simp
  ultimately show ?thesis
    using scalar_last [of v] by (simp add: good_line_def) (simp add: quoted_def cctype_simps)
qed

lemma good_item_line:
  assumes "printable v" "\<not> container v"
  shows "good_line (''- '' @ scalar_text v)"
  using scalar_chars [OF assms] scalar_last [of v] comment_scalar [OF assms]
  by (auto simp: good_line_def withoutComment_def cctype_simps)

lemma block_lines_good: "printable v \<Longrightarrow> (k', t) \<in> set (block_lines k v) \<Longrightarrow> good_line t"
proof (induction v arbitrary: k)
  case (JObj obj)
  then obtain key v where e: "(key, v) \<in> set obj" "(k', t) \<in> set (entry_lines k (key, v))"
    by (auto simp: entry_lines_def)
  then have p: "NL \<notin> set key" "printable v" using JObj.prems(1) by (auto simp: list_all_iff)
  show ?case
    using e p JObj.IH [of "(key, v)" v "k + 2"] good_key_line good_entry_line
    by (auto simp: entry_lines_def split: if_splits)
next
  case (JArr js)
  have "block_lines k (JArr js) = concat (map (item_lines k) js)"
    by (simp add: item_lines_def [abs_def])
  then have "(k', t) \<in> set (concat (map (item_lines k) js))" using JArr.prems(2) by (simp only:)
  then obtain v where v: "v \<in> set js" "(k', t) \<in> set (item_lines k v)" by auto
  then have "printable v" using JArr.prems(1) by (auto simp: list_all_iff)
  moreover have "good_line ''-''" by (simp add: good_line_def withoutComment_def cctype_simps)
  ultimately show ?case
    using v JArr.IH [of v "k + 2"] good_item_line by (auto simp: item_lines_def split: if_splits)
qed simp_all

text \<open>
  Reading the block-style text of an object or array returns it: nested objects, arrays, strings
  with any characters but line breaks (quotes, hashes, colons and leading spaces included),
  booleans and null.
\<close>

text \<open>
  C26: A document of nested objects and arrays with strings, booleans and nulls, written in
  block form with quoted strings, is parsed back to itself.
\<close>

theorem parseYaml_roundtrip:
  assumes "json_ok v" "printable v" "container v"
  shows "parseYaml jp (yaml_text v) = Some (Inr v)"
proof -
  have good: "\<forall>(k, t) \<in> set (block_lines 0 v). good_line t"
    using block_lines_good [OF assms(2)] by auto
  then have "split_lines [] (yaml_text v) = map (\<lambda>(k, t). replicate k SP @ t) (block_lines 0 v)"
    unfolding yaml_text_def by (intro split_lines_all) (auto simp: good_line_def)
  then obtain ls where ls: "tokenize 1 (split_lines [] (yaml_text v)) = Inr ls" "shown ls = block_lines 0 v"
    using tokenize_good [OF good, of 1] by auto
  obtain m ms where m: "ls = m # ms" "ln_indent m = 0"
    using block_begins [OF assms(2,3) ls(2)] by auto
  have "parses jp (CNode 0 (ls @ [])) v []"
    using block_reads [OF assms(2,1,3), unfolded block_read_def, rule_format, of ls 0 "[]"] ls(2)
    by (simp add: outside_def)
  then obtain n where n: "yaml_run n jp (CNode 0 ls) = Some (Inr (v, []))" by (auto simp: parses_def)
  have "answers (length ls) (yaml_run (3 * length ls + 3) jp (CNode 0 ls))"
    using yaml_run_answers [of "CNode 0 ls" "3 * length ls + 3" jp] by simp
  then obtain x where x: "yaml_run (3 * length ls + 3) jp (CNode 0 ls) = Some x"
    by (cases "yaml_run (3 * length ls + 3) jp (CNode 0 ls)") auto
  have "x = Inr (v, [])"
    using yaml_run_more [OF n, of "max n (3 * length ls + 3)"] yaml_run_more [OF x, of "max n (3 * length ls + 3)"] by simp
  then show ?thesis using ls x m by (simp add: parseYaml_def parse_lines_def bindR_def)
qed

definition sample_document :: json where
  "sample_document =
     JObj [(''it'' @ [SQ] @ ''s'', JArr [JStr ''# no comment: '', JNull]), (''pool'', JObj [(''on'', JBool True)])]"

theorem parseYaml_roundtrip_witness:
  "json_ok sample_document \<and> printable sample_document \<and> container sample_document \<and>
   parseYaml (\<lambda>s. Inl ''no JSON'') (yaml_text sample_document) = Some (Inr sample_document)"
proof -
  have ok: "json_ok sample_document" "printable sample_document" "container sample_document"
    by (simp_all add: sample_document_def omap_ok_def)
  then show ?thesis using parseYaml_roundtrip [of sample_document "\<lambda>s. Inl ''no JSON''"] by simp
qed

theorem parseYaml_type_witness:
  "json_library (\<lambda>s. if s = ''5'' then Inr (JNum ''5'') else Inl ''no JSON'') \<and>
   parseYaml (\<lambda>s. if s = ''5'' then Inr (JNum ''5'') else Inl ''no JSON'') ''a: 5'' = Some (Inr (JObj [(''a'', JNum ''5'')])) \<and>
   json_ok (JObj [(''a'', JNum ''5'')])"
proof -
  let ?jp = "\<lambda>s. if s = ''5'' then Inr (JNum ''5'') else Inl ''no JSON''"
  have lib: "json_library ?jp" by (simp add: json_library_def)
  have run: "parseYaml ?jp ''a: 5'' = Some (Inr (JObj [(''a'', JNum ''5'')]))"
    by code_simp
  show ?thesis using lib run parseYaml_type [OF lib run] by simp
qed

text \<open>
  A flow sequence that the JSON library does not accept: an apostrophe in an unquoted item opens a
  quoted string, and what follows it is dropped without an error.
\<close>

lemma apostrophe_drops_items:
  "parseYaml (\<lambda>s. Inl ''no JSON'') (''a: [x, it'' @ [SQ] @ ''s, y]'') = Some (Inr (JObj [(''a'', JArr [JStr ''x''])]))"
  by code_simp

end
