(* ===== verification/ConfigLoader.thy ===== *)
theory ConfigLoader
  imports Registry Yaml OracleTypes RateLimiter
begin

text \<open>
  Configuration files: \<^verbatim>\<open>config/config_loader.cpp\<close> and the records of \<^verbatim>\<open>config/datasource_config.h\<close>. A document is
  a value of the JSON library, read from JSON or by the YAML parser of \<open>Yaml\<close>, an object the list of its
  entries in the order the library iterates them; the conversions of the library (\<^verbatim>\<open>get\<close>) are parameters, each
  yields a value or the text of an exception. The contents of the file and the environment are arguments.
  What a failed load leaves in its output, and the warning about stale reads, are not modelled. The lemmas
  show, statement by statement, what a configuration that is accepted satisfies.
\<close>

section \<open>Records\<close>

record OracleConfig =
  or_service_name :: string
  or_sid :: string
  or_wallet_location :: string
  or_server_cert_dn :: string
  or_charset_id :: int
  or_lob_max_bytes :: int
  or_blob_bind :: string

text \<open>The part of \<^verbatim>\<open>DataSourceConfig\<close> the registry reads, and the rest.\<close>

record SourceConfig = DataSourceConfig +
  sc_host :: string
  sc_port :: int
  sc_user :: string
  sc_password :: string
  sc_password_env :: string
  sc_database :: string
  sc_dsn :: string
  sc_connection_timeout_ms :: int
  sc_socket_timeout_ms :: int
  sc_query_timeout_ms :: int
  sc_max_result_rows :: int
  sc_tls_enabled :: bool
  sc_tls_verify_peer :: bool
  sc_tls_ca :: string
  sc_tls_cert :: string
  sc_tls_key :: string
  sc_oracle :: OracleConfig
  sc_extra :: "(string \<times> string) list"

record PoolConfig =
  pc_enabled :: bool
  pc_min :: int
  pc_max :: int
  pc_borrow_timeout_ms :: int
  pc_idle_timeout_ms :: int
  pc_max_lifetime_ms :: int
  pc_leak_detection_threshold_ms :: int
  pc_validation_interval_ms :: int

record SqlLogConfig =
  sl_enabled :: bool
  sl_mode :: string
  sl_level :: string
  sl_log_success :: bool
  sl_log_errors :: bool
  sl_slow_only :: bool
  sl_sample_rate :: rat
  sl_max_sql_length :: int
  sl_max_param_length :: int
  sl_include_string_values :: bool
  sl_include_blob_values :: bool

record SlowSqlConfig =
  ss_enabled :: bool
  ss_threshold_ms :: int
  ss_aggregate_capacity :: int
  ss_recent_capacity :: int
  ss_retain_rendered_sql :: bool
  ss_max_sql_length :: int
  ss_histogram_buckets_ms :: "int list"

record StatsReportConfig =
  sr_enabled :: bool
  sr_interval_ms :: int
  sr_file :: string
  sr_format :: string
  sr_include_pool :: bool
  sr_include_slow_sql :: bool
  sr_slow_sql_limit :: int

record ObservabilityConfig =
  ob_sql_log :: SqlLogConfig
  ob_slow_sql :: SlowSqlConfig
  ob_pool_metrics :: bool
  ob_stats_report :: StatsReportConfig

record RateLimitConfig =
  rlc_enabled :: bool
  rlc_global_qps :: int
  rlc_per_fingerprint_qps :: int
  rlc_burst :: int
  rlc_fingerprint_mode :: string

record PreparedCacheConfig =
  pp_enabled :: bool
  pp_max_per_connection :: int

record AsyncConfig =
  as_enabled :: bool
  as_threads :: int
  as_queue_size :: int
  as_statement_timeout_ms :: int

record LoadedConfig =
  cf_default_datasource :: string
  cf_heartbeat_interval_ms :: int
  cf_pool :: PoolConfig
  cf_retry :: RetryConfig
  cf_circuit_breaker :: CircuitBreakerConfig
  cf_observability :: ObservabilityConfig
  cf_rate_limit :: RateLimitConfig
  cf_sql_audit :: SqlAuditConfig
  cf_query_cache :: QueryCacheConfig
  cf_cursor :: CursorConfig
  cf_prepared_cache :: PreparedCacheConfig
  cf_async :: AsyncConfig
  cf_interceptors :: bool
  cf_datasources :: "SourceConfig list"
  cf_groups :: "DataSourceGroupConfig list"

section \<open>Defaults\<close>

definition default_oracle :: OracleConfig where
  "default_oracle = \<lparr>or_service_name = [], or_sid = [], or_wallet_location = [], or_server_cert_dn = [],
     or_charset_id = 873, or_lob_max_bytes = 4194304, or_blob_bind = ''auto''\<rparr>"

definition default_source :: SourceConfig where
  "default_source = \<lparr>dc_name = [], dc_type = [], sc_host = [], sc_port = 0, sc_user = [], sc_password = [],
     sc_password_env = [], sc_database = [], sc_dsn = [], sc_connection_timeout_ms = 5000, sc_socket_timeout_ms = 0,
     sc_query_timeout_ms = 0, sc_max_result_rows = 0, sc_tls_enabled = False, sc_tls_verify_peer = True,
     sc_tls_ca = [], sc_tls_cert = [], sc_tls_key = [], sc_oracle = default_oracle, sc_extra = []\<rparr>"

definition default_pool :: PoolConfig where
  "default_pool = \<lparr>pc_enabled = True, pc_min = 1, pc_max = 8, pc_borrow_timeout_ms = 30000, pc_idle_timeout_ms = 600000,
     pc_max_lifetime_ms = 1800000, pc_leak_detection_threshold_ms = 30000, pc_validation_interval_ms = 30000\<rparr>"

definition default_sql_log :: SqlLogConfig where
  "default_sql_log = \<lparr>sl_enabled = False, sl_mode = ''template'', sl_level = ''debug'', sl_log_success = True,
     sl_log_errors = True, sl_slow_only = False, sl_sample_rate = 1, sl_max_sql_length = 8192, sl_max_param_length = 256,
     sl_include_string_values = False, sl_include_blob_values = False\<rparr>"

definition default_slow_sql :: SlowSqlConfig where
  "default_slow_sql = \<lparr>ss_enabled = False, ss_threshold_ms = 500, ss_aggregate_capacity = 1000, ss_recent_capacity = 200,
     ss_retain_rendered_sql = False, ss_max_sql_length = 4096,
     ss_histogram_buckets_ms = [10, 50, 100, 200, 500, 1000, 3000, 10000]\<rparr>"

definition default_stats_report :: StatsReportConfig where
  "default_stats_report = \<lparr>sr_enabled = False, sr_interval_ms = 60000, sr_file = [], sr_format = ''text'',
     sr_include_pool = True, sr_include_slow_sql = True, sr_slow_sql_limit = 10\<rparr>"

definition default_group :: DataSourceGroupConfig where
  "default_group = \<lparr>gc_name = [], gc_primary = [], gc_replicas = [], read_after_write_ms = 0, fallback_to_primary = True,
     gc_read_only = False,
     gc_failover = \<lparr>fo_primaries = [], acknowledge_external_fencing = False, require_healthy = False,
       write_buffer = \<lparr>wbc_enabled = False, max_queue = 1000, wbc_ttl_ms = 30000, flush_interval_ms = 1000\<rparr>,
       acknowledge_data_loss_and_duplicates = False\<rparr>,
     gc_shadow = []\<rparr>"

definition default_config :: LoadedConfig where
  "default_config = \<lparr>cf_default_datasource = [], cf_heartbeat_interval_ms = 5000, cf_pool = default_pool,
     cf_retry = default_retry, cf_circuit_breaker = default_breaker,
     cf_observability = \<lparr>ob_sql_log = default_sql_log, ob_slow_sql = default_slow_sql, ob_pool_metrics = True,
       ob_stats_report = default_stats_report\<rparr>,
     cf_rate_limit = \<lparr>rlc_enabled = False, rlc_global_qps = 0, rlc_per_fingerprint_qps = 0, rlc_burst = 0,
       rlc_fingerprint_mode = ''off''\<rparr>,
     cf_sql_audit = \<lparr>ac_enabled = False, ac_action = ''warn'', ac_block_no_where_dml = False,
       ac_require_limit_select = False, ac_enforce_read_only = False, ac_log_blocked = True,
       ac_blacklist_fingerprints = [], ac_whitelist_fingerprints = []\<rparr>,
     cf_query_cache = \<lparr>qcc_enabled = False, ttl_ms = 60000, max_entries = 1000, max_memory_bytes = 0,
       cache_on_replica_only = False\<rparr>,
     cf_cursor = default_cursor, cf_prepared_cache = \<lparr>pp_enabled = True, pp_max_per_connection = 128\<rparr>,
     cf_async = \<lparr>as_enabled = True, as_threads = 0, as_queue_size = 4096, as_statement_timeout_ms = 0\<rparr>,
     cf_interceptors = False, cf_datasources = [], cf_groups = []\<rparr>"

section \<open>Reading values\<close>

record json_get =
  jg_int :: "json \<Rightarrow> string + int"
  jg_int64 :: "json \<Rightarrow> string + int"
  jg_double :: "json \<Rightarrow> string + rat"
  jg_bool :: "json \<Rightarrow> string + bool"
  jg_string :: "json \<Rightarrow> string + string"
  jg_ints :: "json \<Rightarrow> string + int list"
  jg_fingerprints :: "json \<Rightarrow> string + 64 word list"

type_synonym object = "(string \<times> json) list"

definition threw :: "string + 'a \<Rightarrow> string + 'a" where
  "threw r = map_sum (\<lambda>what. ''config validation error: '' @ what) id r"

text \<open>\<^verbatim>\<open>c.field = object.value(key, c.field)\<close>.\<close>

definition field :: "(json \<Rightarrow> string + 'x) \<Rightarrow> string \<Rightarrow> ('x \<Rightarrow> 'c \<Rightarrow> 'c) \<Rightarrow> object \<Rightarrow> 'c \<Rightarrow> string + 'c" where
  "field get key put obj c =
     (case map_of obj key of None \<Rightarrow> Inr c | Some v \<Rightarrow> map_sum id (\<lambda>x. put x c) (threw (get v)))"

definition require :: "('c \<Rightarrow> bool) \<Rightarrow> string \<Rightarrow> 'c \<Rightarrow> string + 'c" where
  "require ok msg c = (if ok c then Inr c else Inl msg)"

text \<open>The statements of a block, up to the first that fails.\<close>

fun steps :: "('c \<Rightarrow> string + 'c) list \<Rightarrow> 'c \<Rightarrow> string + 'c" where
  "steps [] c = Inr c"
| "steps (f # fs) c = (case f c of Inl e \<Rightarrow> Inl e | Inr c' \<Rightarrow> steps fs c')"

definition part :: "('c \<Rightarrow> 'p) \<Rightarrow> ('p \<Rightarrow> 'c \<Rightarrow> 'c) \<Rightarrow> ('p \<Rightarrow> string + 'p) \<Rightarrow> 'c \<Rightarrow> string + 'c" where
  "part get put f c = map_sum id (\<lambda>p. put p c) (f (get c))"

definition rejectUnknownFields :: "object \<Rightarrow> string list \<Rightarrow> string \<Rightarrow> 'c \<Rightarrow> string + 'c" where
  "rejectUnknownFields obj allowed path c =
     (case find (\<lambda>(k, v). k \<notin> set allowed) obj of
        Some (k, v) \<Rightarrow> Inl (''config error [unknown_field] at '' @ path @ ''/'' @ k @ '': field is not defined by sqlconduit.schema.json'')
      | None \<Rightarrow> Inr c)"

text \<open>An optional object: absent, of the wrong type, or with known fields only.\<close>

definition block :: "object \<Rightarrow> string \<Rightarrow> string \<Rightarrow> string list \<Rightarrow> string \<Rightarrow> (object \<Rightarrow> 'c \<Rightarrow> string + 'c) \<Rightarrow> 'c \<Rightarrow> string + 'c" where
  "block obj key wrong_type allowed path f c =
     (case map_of obj key of
        None \<Rightarrow> Inr c
      | Some (JObj o') \<Rightarrow> steps [rejectUnknownFields o' allowed path, f o'] c
      | Some _ \<Rightarrow> Inl wrong_type)"

section \<open>Global settings\<close>

definition load_pool :: "json_get \<Rightarrow> object \<Rightarrow> PoolConfig \<Rightarrow> string + PoolConfig" where
  "load_pool g obj = steps
     [field (jg_bool g) ''enabled'' (\<lambda>x c. c\<lparr>pc_enabled := x\<rparr>) obj,
      field (jg_int g) ''min'' (\<lambda>x c. c\<lparr>pc_min := x\<rparr>) obj,
      field (jg_int g) ''max'' (\<lambda>x c. c\<lparr>pc_max := x\<rparr>) obj,
      field (jg_int g) ''borrow_timeout_ms'' (\<lambda>x c. c\<lparr>pc_borrow_timeout_ms := x\<rparr>) obj,
      field (jg_int g) ''idle_timeout_ms'' (\<lambda>x c. c\<lparr>pc_idle_timeout_ms := x\<rparr>) obj,
      field (jg_int g) ''max_lifetime_ms'' (\<lambda>x c. c\<lparr>pc_max_lifetime_ms := x\<rparr>) obj,
      field (jg_int g) ''leak_detection_threshold_ms'' (\<lambda>x c. c\<lparr>pc_leak_detection_threshold_ms := x\<rparr>) obj,
      field (jg_int g) ''validation_interval_ms'' (\<lambda>x c. c\<lparr>pc_validation_interval_ms := x\<rparr>) obj]"

definition pool_valid :: "PoolConfig \<Rightarrow> bool" where
  "pool_valid p \<longleftrightarrow> 0 \<le> pc_min p \<and> 1 \<le> pc_max p \<and> pc_min p \<le> pc_max p \<and> 0 \<le> pc_borrow_timeout_ms p \<and>
     0 \<le> pc_idle_timeout_ms p \<and> 0 \<le> pc_max_lifetime_ms p \<and> 0 \<le> pc_leak_detection_threshold_ms p \<and>
     0 \<le> pc_validation_interval_ms p"

definition retry_valid :: "RetryConfig \<Rightarrow> bool" where
  "retry_valid r \<longleftrightarrow> 1 \<le> max_attempts r \<and> 0 \<le> initial_backoff_ms r \<and> initial_backoff_ms r \<le> max_backoff_ms r"

definition load_retry :: "json_get \<Rightarrow> object \<Rightarrow> RetryConfig \<Rightarrow> string + RetryConfig" where
  "load_retry g obj = steps
     [field (jg_int g) ''max_attempts'' (\<lambda>x c. c\<lparr>max_attempts := x\<rparr>) obj,
      field (jg_int g) ''initial_backoff_ms'' (\<lambda>x c. c\<lparr>initial_backoff_ms := x\<rparr>) obj,
      field (jg_int g) ''max_backoff_ms'' (\<lambda>x c. c\<lparr>max_backoff_ms := x\<rparr>) obj,
      field (jg_bool g) ''retry_writes'' (\<lambda>x c. c\<lparr>retry_writes := x\<rparr>) obj,
      require retry_valid ''invalid retry configuration'']"

definition breaker_valid :: "CircuitBreakerConfig \<Rightarrow> bool" where
  "breaker_valid b \<longleftrightarrow> 0 \<le> failure_threshold b \<and> 1 \<le> open_interval_ms b"

definition load_breaker :: "json_get \<Rightarrow> object \<Rightarrow> CircuitBreakerConfig \<Rightarrow> string + CircuitBreakerConfig" where
  "load_breaker g obj = steps
     [field (jg_int g) ''failure_threshold'' (\<lambda>x c. c\<lparr>failure_threshold := x\<rparr>) obj,
      field (jg_int g) ''open_interval_ms'' (\<lambda>x c. c\<lparr>open_interval_ms := x\<rparr>) obj,
      require breaker_valid ''invalid circuit_breaker configuration'']"

definition sql_log_valid :: "SqlLogConfig \<Rightarrow> bool" where
  "sql_log_valid c \<longleftrightarrow> sl_mode c \<in> {''template'', ''full''} \<and> sl_level c \<in> {''debug'', ''info'', ''warn'', ''error''} \<and>
     0 \<le> sl_sample_rate c \<and> sl_sample_rate c \<le> 1 \<and> 64 \<le> sl_max_sql_length c \<and> 1 \<le> sl_max_param_length c"

definition load_sql_log :: "json_get \<Rightarrow> object \<Rightarrow> SqlLogConfig \<Rightarrow> string + SqlLogConfig" where
  "load_sql_log g obj = steps
     [field (jg_bool g) ''enabled'' (\<lambda>x c. c\<lparr>sl_enabled := x\<rparr>) obj,
      field (jg_string g) ''mode'' (\<lambda>x c. c\<lparr>sl_mode := x\<rparr>) obj,
      field (jg_string g) ''level'' (\<lambda>x c. c\<lparr>sl_level := x\<rparr>) obj,
      field (jg_bool g) ''log_success'' (\<lambda>x c. c\<lparr>sl_log_success := x\<rparr>) obj,
      field (jg_bool g) ''log_errors'' (\<lambda>x c. c\<lparr>sl_log_errors := x\<rparr>) obj,
      field (jg_bool g) ''slow_only'' (\<lambda>x c. c\<lparr>sl_slow_only := x\<rparr>) obj,
      field (jg_double g) ''sample_rate'' (\<lambda>x c. c\<lparr>sl_sample_rate := x\<rparr>) obj,
      field (jg_int g) ''max_sql_length'' (\<lambda>x c. c\<lparr>sl_max_sql_length := x\<rparr>) obj,
      field (jg_int g) ''max_param_length'' (\<lambda>x c. c\<lparr>sl_max_param_length := x\<rparr>) obj,
      field (jg_bool g) ''include_string_values'' (\<lambda>x c. c\<lparr>sl_include_string_values := x\<rparr>) obj,
      field (jg_bool g) ''include_blob_values'' (\<lambda>x c. c\<lparr>sl_include_blob_values := x\<rparr>) obj,
      require sql_log_valid ''invalid observability.sql_log configuration'']"

fun increasing :: "int \<Rightarrow> int list \<Rightarrow> bool" where
  "increasing previous [] \<longleftrightarrow> True"
| "increasing previous (b # bs) \<longleftrightarrow> \<not> (b \<le> 0 \<or> b \<le> previous) \<and> increasing b bs"

definition slow_sql_valid :: "SlowSqlConfig \<Rightarrow> bool" where
  "slow_sql_valid c \<longleftrightarrow> 0 \<le> ss_threshold_ms c \<and> 1 \<le> ss_aggregate_capacity c \<and> 0 \<le> ss_recent_capacity c \<and>
     64 \<le> ss_max_sql_length c \<and> ss_histogram_buckets_ms c \<noteq> []"

definition load_slow_sql :: "json_get \<Rightarrow> object \<Rightarrow> SlowSqlConfig \<Rightarrow> string + SlowSqlConfig" where
  "load_slow_sql g obj = steps
     [field (jg_bool g) ''enabled'' (\<lambda>x c. c\<lparr>ss_enabled := x\<rparr>) obj,
      field (jg_int g) ''threshold_ms'' (\<lambda>x c. c\<lparr>ss_threshold_ms := x\<rparr>) obj,
      field (jg_int g) ''aggregate_capacity'' (\<lambda>x c. c\<lparr>ss_aggregate_capacity := x\<rparr>) obj,
      field (jg_int g) ''recent_capacity'' (\<lambda>x c. c\<lparr>ss_recent_capacity := x\<rparr>) obj,
      field (jg_bool g) ''retain_rendered_sql'' (\<lambda>x c. c\<lparr>ss_retain_rendered_sql := x\<rparr>) obj,
      field (jg_int g) ''max_sql_length'' (\<lambda>x c. c\<lparr>ss_max_sql_length := x\<rparr>) obj,
      field (jg_ints g) ''histogram_buckets_ms'' (\<lambda>x c. c\<lparr>ss_histogram_buckets_ms := x\<rparr>) obj,
      require slow_sql_valid ''invalid observability.slow_sql configuration'',
      require (\<lambda>c. increasing (- 1) (ss_histogram_buckets_ms c)) ''slow_sql histogram buckets must be positive and increasing'']"

definition load_stats_report :: "json_get \<Rightarrow> object \<Rightarrow> StatsReportConfig \<Rightarrow> string + StatsReportConfig" where
  "load_stats_report g obj = steps
     [field (jg_bool g) ''enabled'' (\<lambda>x c. c\<lparr>sr_enabled := x\<rparr>) obj,
      field (jg_int g) ''interval_ms'' (\<lambda>x c. c\<lparr>sr_interval_ms := x\<rparr>) obj,
      field (jg_string g) ''file'' (\<lambda>x c. c\<lparr>sr_file := x\<rparr>) obj,
      field (jg_string g) ''format'' (\<lambda>x c. c\<lparr>sr_format := x\<rparr>) obj,
      field (jg_bool g) ''include_pool'' (\<lambda>x c. c\<lparr>sr_include_pool := x\<rparr>) obj,
      field (jg_bool g) ''include_slow_sql'' (\<lambda>x c. c\<lparr>sr_include_slow_sql := x\<rparr>) obj,
      field (jg_int g) ''slow_sql_limit'' (\<lambda>x c. c\<lparr>sr_slow_sql_limit := x\<rparr>) obj,
      require (\<lambda>c. 1000 \<le> sr_interval_ms c) ''config error [minimum] at /observability/stats_report/interval_ms: must be >= 1000'',
      require (\<lambda>c. sr_format c \<in> {''text'', ''json''})
        (''observability.stats_report.format must be '' @ [SQ] @ ''text'' @ [SQ] @ '' or '' @ [SQ] @ ''json'' @ [SQ]),
      require (\<lambda>c. 0 \<le> sr_slow_sql_limit c) ''invalid observability.stats_report configuration'']"

definition load_observability :: "json_get \<Rightarrow> object \<Rightarrow> ObservabilityConfig \<Rightarrow> string + ObservabilityConfig" where
  "load_observability g obj = steps
     [block obj ''sql_log'' ''observability.sql_log must be an object''
        [''enabled'', ''mode'', ''level'', ''log_success'', ''log_errors'', ''slow_only'', ''sample_rate'', ''max_sql_length'',
         ''max_param_length'', ''include_string_values'', ''include_blob_values''] ''/observability/sql_log''
        (\<lambda>o'. part ob_sql_log (\<lambda>p c. c\<lparr>ob_sql_log := p\<rparr>) (load_sql_log g o')),
      block obj ''slow_sql'' ''observability.slow_sql must be an object''
        [''enabled'', ''threshold_ms'', ''aggregate_capacity'', ''recent_capacity'', ''retain_rendered_sql'', ''max_sql_length'',
         ''histogram_buckets_ms''] ''/observability/slow_sql''
        (\<lambda>o'. part ob_slow_sql (\<lambda>p c. c\<lparr>ob_slow_sql := p\<rparr>) (load_slow_sql g o')),
      block obj ''pool_metrics'' ''observability.pool_metrics must be an object'' [''enabled''] ''/observability/pool_metrics''
        (\<lambda>o'. field (jg_bool g) ''enabled'' (\<lambda>x c. c\<lparr>ob_pool_metrics := x\<rparr>) o'),
      block obj ''stats_report'' ''observability.stats_report must be an object''
        [''enabled'', ''interval_ms'', ''file'', ''format'', ''include_pool'', ''include_slow_sql'', ''slow_sql_limit'']
        ''/observability/stats_report''
        (\<lambda>o'. part ob_stats_report (\<lambda>p c. c\<lparr>ob_stats_report := p\<rparr>) (load_stats_report g o'))]"

definition rate_limit_valid :: "RateLimitConfig \<Rightarrow> bool" where
  "rate_limit_valid c \<longleftrightarrow> 0 \<le> rlc_global_qps c \<and> 0 \<le> rlc_per_fingerprint_qps c \<and> 0 \<le> rlc_burst c"

definition load_rate_limit :: "json_get \<Rightarrow> object \<Rightarrow> RateLimitConfig \<Rightarrow> string + RateLimitConfig" where
  "load_rate_limit g obj = steps
     [field (jg_bool g) ''enabled'' (\<lambda>x c. c\<lparr>rlc_enabled := x\<rparr>) obj,
      field (jg_int g) ''global_qps'' (\<lambda>x c. c\<lparr>rlc_global_qps := x\<rparr>) obj,
      field (jg_int g) ''per_fingerprint_qps'' (\<lambda>x c. c\<lparr>rlc_per_fingerprint_qps := x\<rparr>) obj,
      field (jg_int g) ''burst'' (\<lambda>x c. c\<lparr>rlc_burst := x\<rparr>) obj,
      field (jg_string g) ''fingerprint_mode'' (\<lambda>x c. c\<lparr>rlc_fingerprint_mode := x\<rparr>) obj,
      require rate_limit_valid ''invalid rate_limit configuration'',
      require (\<lambda>c. rlc_fingerprint_mode c \<in> {''off'', ''template'', ''full''}) ''rate_limit.fingerprint_mode must be off/template/full'']"

definition load_sql_audit :: "json_get \<Rightarrow> object \<Rightarrow> SqlAuditConfig \<Rightarrow> string + SqlAuditConfig" where
  "load_sql_audit g obj = steps
     [field (jg_bool g) ''enabled'' (\<lambda>x c. c\<lparr>ac_enabled := x\<rparr>) obj,
      field (jg_string g) ''action'' (\<lambda>x c. c\<lparr>ac_action := x\<rparr>) obj,
      field (jg_bool g) ''block_no_where_dml'' (\<lambda>x c. c\<lparr>ac_block_no_where_dml := x\<rparr>) obj,
      field (jg_bool g) ''require_limit_select'' (\<lambda>x c. c\<lparr>ac_require_limit_select := x\<rparr>) obj,
      field (jg_bool g) ''enforce_read_only'' (\<lambda>x c. c\<lparr>ac_enforce_read_only := x\<rparr>) obj,
      field (jg_bool g) ''log_blocked'' (\<lambda>x c. c\<lparr>ac_log_blocked := x\<rparr>) obj,
      field (jg_fingerprints g) ''blacklist_fingerprints'' (\<lambda>x c. c\<lparr>ac_blacklist_fingerprints := x\<rparr>) obj,
      field (jg_fingerprints g) ''whitelist_fingerprints'' (\<lambda>x c. c\<lparr>ac_whitelist_fingerprints := x\<rparr>) obj,
      require (\<lambda>c. ac_action c \<in> {''block'', ''warn''}) ''sql_audit.action must be block/warn'']"

definition query_cache_valid :: "QueryCacheConfig \<Rightarrow> bool" where
  "query_cache_valid c \<longleftrightarrow> 0 \<le> ttl_ms c \<and> 0 \<le> max_entries c \<and> 0 \<le> max_memory_bytes c"

definition load_query_cache :: "json_get \<Rightarrow> object \<Rightarrow> QueryCacheConfig \<Rightarrow> string + QueryCacheConfig" where
  "load_query_cache g obj = steps
     [field (jg_bool g) ''enabled'' (\<lambda>x c. c\<lparr>qcc_enabled := x\<rparr>) obj,
      field (jg_int g) ''ttl_ms'' (\<lambda>x c. c\<lparr>ttl_ms := x\<rparr>) obj,
      field (jg_int g) ''max_entries'' (\<lambda>x c. c\<lparr>max_entries := x\<rparr>) obj,
      field (jg_int g) ''max_memory_bytes'' (\<lambda>x c. c\<lparr>max_memory_bytes := x\<rparr>) obj,
      field (jg_bool g) ''cache_on_replica_only'' (\<lambda>x c. c\<lparr>cache_on_replica_only := x\<rparr>) obj,
      require query_cache_valid ''invalid query_cache configuration'']"

definition load_cursor :: "json_get \<Rightarrow> object \<Rightarrow> CursorConfig \<Rightarrow> string + CursorConfig" where
  "load_cursor g obj = steps
     [field (jg_bool g) ''enabled'' (\<lambda>x c. c\<lparr>cu_enabled := x\<rparr>) obj,
      field (jg_int g) ''default_batch_size'' (\<lambda>x c. c\<lparr>cu_default_batch_size := x\<rparr>) obj,
      field (jg_int g) ''max_open_cursors'' (\<lambda>x c. c\<lparr>cu_max_open_cursors := x\<rparr>) obj,
      field (jg_bool g) ''allow_scrollable'' (\<lambda>x c. c\<lparr>cu_allow_scrollable := x\<rparr>) obj,
      require (\<lambda>c. 0 \<le> cu_default_batch_size c \<and> 0 \<le> cu_max_open_cursors c) ''invalid cursor configuration'']"

definition load_prepared_cache :: "json_get \<Rightarrow> object \<Rightarrow> PreparedCacheConfig \<Rightarrow> string + PreparedCacheConfig" where
  "load_prepared_cache g obj = steps
     [field (jg_bool g) ''enabled'' (\<lambda>x c. c\<lparr>pp_enabled := x\<rparr>) obj,
      field (jg_int g) ''max_per_connection'' (\<lambda>x c. c\<lparr>pp_max_per_connection := x\<rparr>) obj,
      require (\<lambda>c. 0 \<le> pp_max_per_connection c) ''invalid prepared_cache configuration: max_per_connection must be >= 0'']"

definition load_async :: "json_get \<Rightarrow> object \<Rightarrow> AsyncConfig \<Rightarrow> string + AsyncConfig" where
  "load_async g obj = steps
     [field (jg_bool g) ''enabled'' (\<lambda>x c. c\<lparr>as_enabled := x\<rparr>) obj,
      field (jg_int g) ''threads'' (\<lambda>x c. c\<lparr>as_threads := x\<rparr>) obj,
      field (jg_int g) ''queue_size'' (\<lambda>x c. c\<lparr>as_queue_size := x\<rparr>) obj,
      field (jg_int g) ''statement_timeout_ms'' (\<lambda>x c. c\<lparr>as_statement_timeout_ms := x\<rparr>) obj,
      require (\<lambda>c. 0 \<le> as_threads c \<and> 1 \<le> as_queue_size c \<and> 0 \<le> as_statement_timeout_ms c) ''invalid async configuration'']"

definition load_globals :: "json_get \<Rightarrow> object \<Rightarrow> LoadedConfig \<Rightarrow> string + LoadedConfig" where
  "load_globals g j = steps
     [rejectUnknownFields j
        [''$schema'', ''default_datasource'', ''heartbeat_interval_ms'', ''pool'', ''retry'', ''circuit_breaker'', ''observability'',
         ''rate_limit'', ''sql_audit'', ''query_cache'', ''cursor'', ''prepared_cache'', ''async'', ''interceptors'', ''datasources'',
         ''groups''] [],
      field (jg_string g) ''default_datasource'' (\<lambda>x c. c\<lparr>cf_default_datasource := x\<rparr>) j,
      field (jg_int g) ''heartbeat_interval_ms'' (\<lambda>x c. c\<lparr>cf_heartbeat_interval_ms := x\<rparr>) j,
      require (\<lambda>c. 0 \<le> cf_heartbeat_interval_ms c) ''config error [minimum] at /heartbeat_interval_ms: must be >= 0'',
      block j ''pool'' ''config error [type] at /pool: must be an object''
        [''enabled'', ''min'', ''max'', ''borrow_timeout_ms'', ''idle_timeout_ms'', ''max_lifetime_ms'', ''leak_detection_threshold_ms'',
         ''validation_interval_ms''] ''/pool'' (\<lambda>o'. part cf_pool (\<lambda>p c. c\<lparr>cf_pool := p\<rparr>) (load_pool g o')),
      require (\<lambda>c. pool_valid (cf_pool c))
        ''config error [invalid_value] at /pool: require 0 <= min <= max, max >= 1, and non-negative timeout values'',
      block j ''retry'' ''retry must be an object'' [''max_attempts'', ''initial_backoff_ms'', ''max_backoff_ms'', ''retry_writes'']
        ''/retry'' (\<lambda>o'. part cf_retry (\<lambda>p c. c\<lparr>cf_retry := p\<rparr>) (load_retry g o')),
      block j ''circuit_breaker'' ''circuit_breaker must be an object'' [''failure_threshold'', ''open_interval_ms'']
        ''/circuit_breaker'' (\<lambda>o'. part cf_circuit_breaker (\<lambda>p c. c\<lparr>cf_circuit_breaker := p\<rparr>) (load_breaker g o')),
      block j ''observability'' ''observability must be an object'' [''sql_log'', ''slow_sql'', ''pool_metrics'', ''stats_report'']
        ''/observability'' (\<lambda>o'. part cf_observability (\<lambda>p c. c\<lparr>cf_observability := p\<rparr>) (load_observability g o')),
      block j ''rate_limit'' ''rate_limit must be an object''
        [''enabled'', ''global_qps'', ''per_fingerprint_qps'', ''burst'', ''fingerprint_mode''] ''/rate_limit''
        (\<lambda>o'. part cf_rate_limit (\<lambda>p c. c\<lparr>cf_rate_limit := p\<rparr>) (load_rate_limit g o')),
      block j ''sql_audit'' ''sql_audit must be an object''
        [''enabled'', ''action'', ''block_no_where_dml'', ''require_limit_select'', ''enforce_read_only'', ''log_blocked'',
         ''blacklist_fingerprints'', ''whitelist_fingerprints''] ''/sql_audit''
        (\<lambda>o'. part cf_sql_audit (\<lambda>p c. c\<lparr>cf_sql_audit := p\<rparr>) (load_sql_audit g o')),
      block j ''query_cache'' ''query_cache must be an object''
        [''enabled'', ''ttl_ms'', ''max_entries'', ''max_memory_bytes'', ''cache_on_replica_only''] ''/query_cache''
        (\<lambda>o'. part cf_query_cache (\<lambda>p c. c\<lparr>cf_query_cache := p\<rparr>) (load_query_cache g o')),
      block j ''cursor'' ''cursor must be an object'' [''enabled'', ''default_batch_size'', ''max_open_cursors'', ''allow_scrollable'']
        ''/cursor'' (\<lambda>o'. part cf_cursor (\<lambda>p c. c\<lparr>cf_cursor := p\<rparr>) (load_cursor g o')),
      block j ''prepared_cache'' ''prepared_cache must be an object'' [''enabled'', ''max_per_connection''] ''/prepared_cache''
        (\<lambda>o'. part cf_prepared_cache (\<lambda>p c. c\<lparr>cf_prepared_cache := p\<rparr>) (load_prepared_cache g o')),
      block j ''interceptors'' ''interceptors must be an object'' [''enabled''] ''/interceptors''
        (\<lambda>o'. field (jg_bool g) ''enabled'' (\<lambda>x c. c\<lparr>cf_interceptors := x\<rparr>) o'),
      block j ''async'' ''async must be an object'' [''enabled'', ''threads'', ''queue_size'', ''statement_timeout_ms''] ''/async''
        (\<lambda>o'. part cf_async (\<lambda>p c. c\<lparr>cf_async := p\<rparr>) (load_async g o'))]"

section \<open>Data sources\<close>

definition of_source :: "SourceConfig \<Rightarrow> string \<Rightarrow> string" where
  "of_source c msg = ''datasource '' @ [SQ] @ dc_name c @ [SQ] @ msg"

text \<open>A condition whose message names the source.\<close>

definition source_require :: "(SourceConfig \<Rightarrow> bool) \<Rightarrow> string \<Rightarrow> SourceConfig \<Rightarrow> string + SourceConfig" where
  "source_require ok msg c = (if ok c then Inr c else Inl (of_source c msg))"

definition resolve_password :: "(string \<Rightarrow> string option) \<Rightarrow> SourceConfig \<Rightarrow> string + SourceConfig" where
  "resolve_password getenv c =
     (if sc_password_env c = [] then Inr c
      else case getenv (sc_password_env c) of
        None \<Rightarrow> Inl (of_source c ('' references missing password_env '' @ [SQ] @ sc_password_env c @ [SQ]))
      | Some secret \<Rightarrow> Inr (c\<lparr>sc_password := secret\<rparr>))"

definition load_tls :: "json_get \<Rightarrow> object \<Rightarrow> SourceConfig \<Rightarrow> string + SourceConfig" where
  "load_tls g obj c = steps
     [field (jg_bool g) ''enabled'' (\<lambda>x c. c\<lparr>sc_tls_enabled := x\<rparr>) obj,
      field (jg_bool g) ''verify_peer'' (\<lambda>x c. c\<lparr>sc_tls_verify_peer := x\<rparr>) obj,
      field (jg_string g) ''ca'' (\<lambda>x c. c\<lparr>sc_tls_ca := x\<rparr>) obj,
      field (jg_string g) ''cert'' (\<lambda>x c. c\<lparr>sc_tls_cert := x\<rparr>) obj,
      field (jg_string g) ''key'' (\<lambda>x c. c\<lparr>sc_tls_key := x\<rparr>) obj] (c\<lparr>sc_tls_enabled := True\<rparr>)"

definition load_extra :: "json_get \<Rightarrow> string \<Rightarrow> object \<Rightarrow> SourceConfig \<Rightarrow> string + SourceConfig" where
  "load_extra g path d c =
     (case map_of d ''extra'' of
        None \<Rightarrow> Inr c
      | Some (JObj o') \<Rightarrow>
          map_sum id (\<lambda>es. c\<lparr>sc_extra := es\<rparr>) (traverse (\<lambda>(k, v). map_sum id (Pair k) (threw (jg_string g v))) o')
      | Some _ \<Rightarrow> Inl (''config error [type] at '' @ path @ ''/extra: must be an object''))"

definition load_oracle :: "json_get \<Rightarrow> object \<Rightarrow> OracleConfig \<Rightarrow> string + OracleConfig" where
  "load_oracle g obj = steps
     [field (jg_string g) ''service_name'' (\<lambda>x c. c\<lparr>or_service_name := x\<rparr>) obj,
      field (jg_string g) ''sid'' (\<lambda>x c. c\<lparr>or_sid := x\<rparr>) obj,
      field (jg_string g) ''wallet_location'' (\<lambda>x c. c\<lparr>or_wallet_location := x\<rparr>) obj,
      field (jg_string g) ''server_cert_dn'' (\<lambda>x c. c\<lparr>or_server_cert_dn := x\<rparr>) obj,
      field (jg_int g) ''charset_id'' (\<lambda>x c. c\<lparr>or_charset_id := x\<rparr>) obj,
      field (jg_int64 g) ''lob_max_bytes'' (\<lambda>x c. c\<lparr>or_lob_max_bytes := x\<rparr>) obj,
      field (jg_string g) ''blob_bind'' (\<lambda>x c. c\<lparr>or_blob_bind := x\<rparr>) obj]"

definition parseInt64 :: "string \<Rightarrow> int option" where
  "parseInt64 text = (if text = [] then None else map_option sint (parseInt64Strict text))"

text \<open>A setting of the extra map that the \<open>oracle\<close> block does not give.\<close>

definition legacy :: "object \<Rightarrow> string \<Rightarrow> (string \<Rightarrow> SourceConfig \<Rightarrow> string + SourceConfig) \<Rightarrow> SourceConfig \<Rightarrow> string + SourceConfig" where
  "legacy obj key f c =
     (if map_of obj key \<noteq> None then Inr c
      else case map_of (sc_extra c) key of None \<Rightarrow> Inr c | Some v \<Rightarrow> f v c)"

definition set_oracle :: "(OracleConfig \<Rightarrow> OracleConfig) \<Rightarrow> SourceConfig \<Rightarrow> SourceConfig" where
  "set_oracle f c = c\<lparr>sc_oracle := f (sc_oracle c)\<rparr>"

definition legacy_oracle :: "object \<Rightarrow> SourceConfig \<Rightarrow> string + SourceConfig" where
  "legacy_oracle obj = steps
     [legacy obj ''service_name'' (\<lambda>v c. Inr (set_oracle (\<lambda>x. x\<lparr>or_service_name := v\<rparr>) c)),
      legacy obj ''sid'' (\<lambda>v c. Inr (set_oracle (\<lambda>x. x\<lparr>or_sid := v\<rparr>) c)),
      legacy obj ''wallet_location'' (\<lambda>v c. Inr (set_oracle (\<lambda>x. x\<lparr>or_wallet_location := v\<rparr>) c)),
      legacy obj ''server_cert_dn'' (\<lambda>v c. Inr (set_oracle (\<lambda>x. x\<lparr>or_server_cert_dn := v\<rparr>) c)),
      legacy obj ''charset_id'' (\<lambda>v c.
        case parseInt64 v of
          Some n \<Rightarrow> if n < 1 \<or> n > 65535 then Inl (of_source c '' extra.charset_id must be in range 1..65535'')
                    else Inr (set_oracle (\<lambda>x. x\<lparr>or_charset_id := n\<rparr>) c)
        | None \<Rightarrow> Inl (of_source c '' extra.charset_id must be in range 1..65535'')),
      legacy obj ''lob_max_bytes'' (\<lambda>v c.
        case parseInt64 v of
          Some n \<Rightarrow> if n < 1 then Inl (of_source c '' extra.lob_max_bytes must be > 0'')
                    else Inr (set_oracle (\<lambda>x. x\<lparr>or_lob_max_bytes := n\<rparr>) c)
        | None \<Rightarrow> Inl (of_source c '' extra.lob_max_bytes must be > 0'')),
      legacy obj ''blob_bind'' (\<lambda>v c. Inr (set_oracle (\<lambda>x. x\<lparr>or_blob_bind := v\<rparr>) c))]"

definition raw_connect :: "SourceConfig \<Rightarrow> bool" where
  "raw_connect c \<longleftrightarrow> map_of (sc_extra c) ''connection_string'' \<noteq> None"

definition check_oracle :: "SourceConfig \<Rightarrow> string + SourceConfig" where
  "check_oracle = steps
     [source_require (\<lambda>c. let r = sc_oracle c in 1 \<le> or_charset_id r \<and> or_charset_id r \<le> 65535 \<and> 1 \<le> or_lob_max_bytes r \<and>
        or_blob_bind r \<in> {''auto'', ''raw'', ''lob''}) '' has invalid oracle configuration'',
      source_require (\<lambda>c. or_service_name (sc_oracle c) = [] \<or> or_sid (sc_oracle c) = [])
        '' oracle.service_name and oracle.sid are mutually exclusive'',
      source_require (\<lambda>c. or_sid (sc_oracle c) = [] \<or> sc_database c = [])
        '' cannot combine database (service-name alias) with oracle.sid'',
      source_require (\<lambda>c. raw_connect c \<or> sc_dsn c \<noteq> [] \<or> or_service_name (sc_oracle c) \<noteq> [] \<or> or_sid (sc_oracle c) \<noteq> [] \<or>
          sc_database c \<noteq> [])
        '' requires oracle.service_name, oracle.sid, database, dsn, or extra.connection_string'',
      source_require (\<lambda>c. \<not> ((raw_connect c \<or> sc_dsn c \<noteq> []) \<and> sc_tls_enabled c))
        '' uses dsn/extra.connection_string; encode TCPS and certificate verification in that value or Oracle Net configuration instead of using tls'',
      (\<lambda>c. Inr (if sc_tls_ca c \<noteq> [] \<and> or_wallet_location (sc_oracle c) = []
                then set_oracle (\<lambda>x. x\<lparr>or_wallet_location := sc_tls_ca c\<rparr>) c else c)),
      source_require (\<lambda>c. sc_tls_enabled c \<or> or_wallet_location (sc_oracle c) = [] \<and> or_server_cert_dn (sc_oracle c) = [])
        '' oracle.wallet_location/server_cert_dn require tls.enabled'',
      source_require (\<lambda>c. or_server_cert_dn (sc_oracle c) = [] \<or> sc_tls_verify_peer c)
        '' oracle.server_cert_dn requires tls.verify_peer=true'',
      source_require (\<lambda>c. \<not> (sc_tls_enabled c \<and> (sc_tls_cert c \<noteq> [] \<or> sc_tls_key c \<noteq> [])))
        '' Oracle TLS does not consume tls.cert/tls.key directly; configure oracle.wallet_location'']"

definition load_oracle_source :: "json_get \<Rightarrow> string \<Rightarrow> object \<Rightarrow> SourceConfig \<Rightarrow> string + SourceConfig" where
  "load_oracle_source g path d c =
     (let oracle = (case map_of d ''oracle'' of Some (JObj o') \<Rightarrow> o' | _ \<Rightarrow> []) in
      steps
        [block d ''oracle'' (of_source c '' oracle must be an object'')
           [''service_name'', ''sid'', ''wallet_location'', ''server_cert_dn'', ''charset_id'', ''lob_max_bytes'', ''blob_bind'']
           (path @ ''/oracle'') (\<lambda>o'. part sc_oracle (\<lambda>p c. c\<lparr>sc_oracle := p\<rparr>) (load_oracle g o')),
         legacy_oracle oracle, check_oracle] c)"

definition load_datasource :: "json_get \<Rightarrow> (string \<Rightarrow> string option) \<Rightarrow> string \<Rightarrow> object \<Rightarrow> string + SourceConfig" where
  "load_datasource g getenv path d = steps
     [rejectUnknownFields d
        [''name'', ''type'', ''host'', ''port'', ''user'', ''password'', ''password_env'', ''database'', ''dsn'',
         ''connection_timeout_ms'', ''socket_timeout_ms'', ''query_timeout_ms'', ''max_result_rows'', ''tls'', ''oracle'', ''extra''] path,
      field (jg_string g) ''name'' (\<lambda>x c. c\<lparr>dc_name := x\<rparr>) d,
      field (jg_string g) ''type'' (\<lambda>x c. c\<lparr>dc_type := x\<rparr>) d,
      field (jg_string g) ''host'' (\<lambda>x c. c\<lparr>sc_host := x\<rparr>) d,
      field (jg_int g) ''port'' (\<lambda>x c. c\<lparr>sc_port := x\<rparr>) d,
      field (jg_string g) ''user'' (\<lambda>x c. c\<lparr>sc_user := x\<rparr>) d,
      field (jg_string g) ''password'' (\<lambda>x c. c\<lparr>sc_password := x\<rparr>) d,
      field (jg_string g) ''password_env'' (\<lambda>x c. c\<lparr>sc_password_env := x\<rparr>) d,
      field (jg_string g) ''database'' (\<lambda>x c. c\<lparr>sc_database := x\<rparr>) d,
      field (jg_string g) ''dsn'' (\<lambda>x c. c\<lparr>sc_dsn := x\<rparr>) d,
      field (jg_int g) ''connection_timeout_ms'' (\<lambda>x c. c\<lparr>sc_connection_timeout_ms := x\<rparr>) d,
      field (jg_int g) ''socket_timeout_ms'' (\<lambda>x c. c\<lparr>sc_socket_timeout_ms := x\<rparr>) d,
      field (jg_int g) ''query_timeout_ms'' (\<lambda>x c. c\<lparr>sc_query_timeout_ms := x\<rparr>) d,
      field (jg_int g) ''max_result_rows'' (\<lambda>x c. c\<lparr>sc_max_result_rows := x\<rparr>) d,
      require (\<lambda>c. 0 \<le> sc_port c \<and> sc_port c \<le> 65535) (''config error [range] at '' @ path @ ''/port: must be in range 0..65535''),
      source_require (\<lambda>c. 0 \<le> sc_connection_timeout_ms c \<and> 0 \<le> sc_socket_timeout_ms c \<and> 0 \<le> sc_query_timeout_ms c \<and>
        0 \<le> sc_max_result_rows c) '' timeout and max_result_rows values must be >= 0'',
      resolve_password getenv,
      (\<lambda>c. block d ''tls'' (of_source c '' tls must be an object'') [''enabled'', ''verify_peer'', ''ca'', ''cert'', ''key'']
         (path @ ''/tls'') (load_tls g) c),
      load_extra g path d,
      require (\<lambda>c. dc_name c \<noteq> []) (''datasource missing '' @ [SQ] @ ''name'' @ [SQ]),
      source_require (\<lambda>c. dc_type c \<noteq> []) ('' missing '' @ [SQ] @ ''type'' @ [SQ]),
      source_require (\<lambda>c. map_of d ''oracle'' = None \<or> dc_type c = ''oracle'')
        ('' has an oracle block but type is not '' @ [SQ] @ ''oracle'' @ [SQ]),
      (\<lambda>c. if dc_type c = ''oracle'' then load_oracle_source g path d c
           else source_require (\<lambda>c. \<not> (sc_tls_verify_peer c \<and> sc_tls_enabled c \<and> sc_tls_ca c = []))
                  '' enables TLS peer verification but tls.ca is empty'' c)]
     default_source"

text \<open>The entries of an array of objects, each with its path.\<close>

definition elements :: "string \<Rightarrow> (string \<Rightarrow> object \<Rightarrow> string + 'x) \<Rightarrow> json list \<Rightarrow> string + 'x list" where
  "elements parent load ds = traverse (\<lambda>(i, d).
     let path = parent @ to_string i in
     case d of
       JObj o' \<Rightarrow> load path o'
     | _ \<Rightarrow> Inl (''config error [type] at '' @ path @ '': must be an object'')) (zip [0..<length ds] ds)"

definition load_datasources :: "json_get \<Rightarrow> (string \<Rightarrow> string option) \<Rightarrow> object \<Rightarrow> string + SourceConfig list" where
  "load_datasources g getenv j =
     (case map_of j ''datasources'' of
        Some (JArr ds) \<Rightarrow>
          if ds = [] then Inl ''config error [min_items] at /datasources: at least one datasource is required''
          else elements ''/datasources/'' (load_datasource g getenv) ds
      | _ \<Rightarrow> Inl (''missing '' @ [SQ] @ ''datasources'' @ [SQ] @ '' array''))"

section \<open>Groups\<close>

definition of_group :: "string \<Rightarrow> string \<Rightarrow> string" where
  "of_group name msg = ''group '' @ [SQ] @ name @ [SQ] @ msg"

definition invalid_replica :: "string \<Rightarrow> string" where
  "invalid_replica name = ''invalid replica in group '' @ [SQ] @ name @ [SQ]"

definition load_replica :: "json_get \<Rightarrow> string \<Rightarrow> string \<Rightarrow> nat \<times> json \<Rightarrow> string + ReplicaConfig" where
  "load_replica g name path ir =
     (let blank = \<lparr>rc_name = [], rc_weight = 1\<rparr>;
          checked = require (\<lambda>r. rc_name r \<noteq> [] \<and> 1 \<le> rc_weight r \<and> rc_weight r \<le> 100) (invalid_replica name)
      in case snd ir of
           JStr s \<Rightarrow> checked (blank\<lparr>rc_name := s\<rparr>)
         | JObj o' \<Rightarrow> steps
             [rejectUnknownFields o' [''name'', ''weight''] (path @ ''/replicas/'' @ to_string (fst ir)),
              field (jg_string g) ''name'' (\<lambda>x r. r\<lparr>rc_name := x\<rparr>) o',
              field (jg_int g) ''weight'' (\<lambda>x r. r\<lparr>rc_weight := x\<rparr>) o', checked] blank
         | _ \<Rightarrow> Inl (invalid_replica name))"

definition load_replicas :: "json_get \<Rightarrow> string \<Rightarrow> object \<Rightarrow> DataSourceGroupConfig \<Rightarrow> string + DataSourceGroupConfig" where
  "load_replicas g path obj c =
     (case map_of obj ''replicas'' of
        None \<Rightarrow> Inr c
      | Some (JArr rs) \<Rightarrow>
          map_sum id (\<lambda>l. c\<lparr>gc_replicas := l\<rparr>) (traverse (load_replica g (gc_name c) path) (zip [0..<length rs] rs))
      | Some _ \<Rightarrow> Inl (of_group (gc_name c) '' replicas must be an array''))"

definition load_primaries :: "string \<Rightarrow> object \<Rightarrow> FailoverConfig \<Rightarrow> string + FailoverConfig" where
  "load_primaries name obj c =
     (case map_of obj ''primaries'' of
        None \<Rightarrow> Inr c
      | Some (JArr ps) \<Rightarrow>
          map_sum id (\<lambda>l. c\<lparr>fo_primaries := l\<rparr>) (traverse (\<lambda>p.
            case p of
              JStr s \<Rightarrow> if s = [] then Inl (of_group name '' failover.primaries must be non-empty strings'') else Inr s
            | _ \<Rightarrow> Inl (of_group name '' failover.primaries must be non-empty strings'')) ps)
      | Some _ \<Rightarrow> Inl (of_group name '' failover.primaries must be an array''))"

definition load_write_buffer :: "json_get \<Rightarrow> string \<Rightarrow> object \<Rightarrow> FailoverConfig \<Rightarrow> string + FailoverConfig" where
  "load_write_buffer g name obj = steps
     [field (jg_bool g) ''enabled'' (\<lambda>x c. c\<lparr>write_buffer := (write_buffer c)\<lparr>wbc_enabled := x\<rparr>\<rparr>) obj,
      field (jg_bool g) ''acknowledge_data_loss_and_duplicates'' (\<lambda>x c. c\<lparr>acknowledge_data_loss_and_duplicates := x\<rparr>) obj,
      field (jg_int g) ''max_queue'' (\<lambda>x c. c\<lparr>write_buffer := (write_buffer c)\<lparr>max_queue := x\<rparr>\<rparr>) obj,
      field (jg_int g) ''ttl_ms'' (\<lambda>x c. c\<lparr>write_buffer := (write_buffer c)\<lparr>wbc_ttl_ms := x\<rparr>\<rparr>) obj,
      field (jg_int g) ''flush_interval_ms'' (\<lambda>x c. c\<lparr>write_buffer := (write_buffer c)\<lparr>flush_interval_ms := x\<rparr>\<rparr>) obj,
      require (\<lambda>c. 1 \<le> max_queue (write_buffer c) \<and> 0 \<le> wbc_ttl_ms (write_buffer c) \<and> 1 \<le> flush_interval_ms (write_buffer c))
        (''invalid group '' @ [SQ] @ name @ [SQ] @ '' failover.write_buffer'')]"

definition load_failover :: "json_get \<Rightarrow> string \<Rightarrow> string \<Rightarrow> object \<Rightarrow> FailoverConfig \<Rightarrow> string + FailoverConfig" where
  "load_failover g name path obj = steps
     [load_primaries name obj,
      field (jg_bool g) ''require_healthy'' (\<lambda>x c. c\<lparr>require_healthy := x\<rparr>) obj,
      field (jg_bool g) ''acknowledge_external_fencing'' (\<lambda>x c. c\<lparr>acknowledge_external_fencing := x\<rparr>) obj,
      block obj ''write_buffer'' (of_group name '' failover.write_buffer must be an object'')
        [''enabled'', ''acknowledge_data_loss_and_duplicates'', ''max_queue'', ''ttl_ms'', ''flush_interval_ms'']
        (path @ ''/failover/write_buffer'') (load_write_buffer g name),
      require (\<lambda>c. fo_primaries c = [] \<or> acknowledge_external_fencing c)
        (of_group name '' configures automatic write failover without failover.acknowledge_external_fencing=true; sqlconduit does not perform leader election or fencing''),
      require (\<lambda>c. \<not> wbc_enabled (write_buffer c) \<or> acknowledge_data_loss_and_duplicates c)
        (of_group name '' enables the volatile write buffer without failover.write_buffer.acknowledge_data_loss_and_duplicates=true'')]"

definition load_shadow :: "object \<Rightarrow> DataSourceGroupConfig \<Rightarrow> string + DataSourceGroupConfig" where
  "load_shadow obj c =
     (case map_of obj ''shadow'' of
        None \<Rightarrow> Inr c
      | Some (JStr s) \<Rightarrow> Inr (c\<lparr>gc_shadow := s\<rparr>)
      | Some _ \<Rightarrow> Inl (of_group (gc_name c) '' shadow must be a string''))"

definition load_group :: "json_get \<Rightarrow> string \<Rightarrow> object \<Rightarrow> string + DataSourceGroupConfig" where
  "load_group g path obj = steps
     [rejectUnknownFields obj
        [''name'', ''primary'', ''replicas'', ''read_after_write_ms'', ''fallback_to_primary'', ''read_only'', ''failover'', ''shadow''] path,
      field (jg_string g) ''name'' (\<lambda>x c. c\<lparr>gc_name := x\<rparr>) obj,
      field (jg_string g) ''primary'' (\<lambda>x c. c\<lparr>gc_primary := x\<rparr>) obj,
      field (jg_int g) ''read_after_write_ms'' (\<lambda>x c. c\<lparr>read_after_write_ms := x\<rparr>) obj,
      field (jg_bool g) ''fallback_to_primary'' (\<lambda>x c. c\<lparr>fallback_to_primary := x\<rparr>) obj,
      require (\<lambda>c. gc_name c \<noteq> [] \<and> gc_primary c \<noteq> [] \<and> 0 \<le> read_after_write_ms c) ''invalid datasource group'',
      load_replicas g path obj,
      field (jg_bool g) ''read_only'' (\<lambda>x c. c\<lparr>gc_read_only := x\<rparr>) obj,
      (\<lambda>c. block obj ''failover'' (of_group (gc_name c) '' failover must be an object'')
         [''primaries'', ''acknowledge_external_fencing'', ''require_healthy'', ''write_buffer''] (path @ ''/failover'')
         (\<lambda>o'. part gc_failover (\<lambda>p c. c\<lparr>gc_failover := p\<rparr>) (load_failover g (gc_name c) path o')) c),
      load_shadow obj]
     default_group"

definition load_groups :: "json_get \<Rightarrow> object \<Rightarrow> string + DataSourceGroupConfig list" where
  "load_groups g j =
     (case map_of j ''groups'' of
        None \<Rightarrow> Inr []
      | Some (JArr gs) \<Rightarrow> elements ''/groups/'' (load_group g) gs
      | Some _ \<Rightarrow> Inl ''groups must be an array'')"

section \<open>Files\<close>

definition load_document :: "json_get \<Rightarrow> (string \<Rightarrow> string option) \<Rightarrow> json \<Rightarrow> string + LoadedConfig" where
  "load_document g getenv doc =
     (case doc of
        JObj j \<Rightarrow> steps
          [load_globals g j,
           (\<lambda>c. map_sum id (\<lambda>ds. c\<lparr>cf_datasources := ds\<rparr>) (load_datasources g getenv j)),
           (\<lambda>c. map_sum id (\<lambda>gs. c\<lparr>cf_groups := gs\<rparr>) (load_groups g j)),
           (\<lambda>c. Inr (if cf_default_datasource c = [] \<and> cf_datasources c \<noteq> []
                     then c\<lparr>cf_default_datasource := dc_name (hd (cf_datasources c))\<rparr> else c))] default_config
      | _ \<Rightarrow> Inl ''config error [type] at /: root must be an object'')"

definition hasYamlExtension :: "string \<Rightarrow> bool" where
  "hasYamlExtension path \<longleftrightarrow> suffix ''.yaml'' (map tolower path) \<or> suffix ''.yml'' (map tolower path)"

definition hasJsonExtension :: "string \<Rightarrow> bool" where
  "hasJsonExtension path \<longleftrightarrow> suffix ''.json'' (map tolower path)"

definition looksLikeYaml :: "string \<Rightarrow> bool" where
  "looksLikeYaml content =
     (case dropWhile isspace content of [] \<Rightarrow> False | c # cs \<Rightarrow> c \<noteq> CHR ''{'' \<and> c \<noteq> CHR ''['')"

definition without_bom :: "string \<Rightarrow> string" where
  "without_bom content = (if prefix [CHR 0xEF, CHR 0xBB, CHR 0xBF] content then drop 3 content else content)"

definition parse_content :: "json_parse \<Rightarrow> string \<Rightarrow> string \<Rightarrow> string + json" where
  "parse_content jp path content =
     (if hasYamlExtension path \<or> \<not> hasJsonExtension path \<and> looksLikeYaml content then
        (case parseYaml jp content of
           Some (Inr j) \<Rightarrow> Inr j
         | Some (Inl e) \<Rightarrow> Inl (''yaml parse error: '' @ e)
         | None \<Rightarrow> Inl ''yaml parse error: '')
      else map_sum (\<lambda>what. ''json parse error: '' @ what) id (jp content))"

definition loadFromFile :: "json_get \<Rightarrow> json_parse \<Rightarrow> (string \<Rightarrow> string option) \<Rightarrow> (string \<Rightarrow> string option) \<Rightarrow> string \<Rightarrow>
    string + LoadedConfig" where
  "loadFromFile g jp getenv files path =
     (case files path of
        None \<Rightarrow> Inl (''cannot open config file: '' @ path)
      | Some content \<Rightarrow>
          (case parse_content jp path (without_bom content) of
             Inl e \<Rightarrow> Inl e
           | Inr doc \<Rightarrow> load_document g getenv doc))"

section \<open>What a loaded configuration satisfies\<close>

text \<open>A statement that keeps a property, and a list of statements that ends with it.\<close>

definition keeps :: "('c \<Rightarrow> bool) \<Rightarrow> ('c \<Rightarrow> string + 'c) \<Rightarrow> bool" where
  "keeps P f \<longleftrightarrow> (\<forall>c c'. f c = Inr c' \<longrightarrow> P c \<longrightarrow> P c')"

definition ensures :: "('c \<Rightarrow> bool) \<Rightarrow> ('c \<Rightarrow> string + 'c) \<Rightarrow> bool" where
  "ensures P f \<longleftrightarrow> (\<forall>c c'. f c = Inr c' \<longrightarrow> P c')"

named_theorems keeping

lemma keepsD: "keeps P f \<Longrightarrow> f c = Inr c' \<Longrightarrow> P c \<Longrightarrow> P c'"
  by (simp add: keeps_def)

lemma ensuresD: "ensures P f \<Longrightarrow> f c = Inr c' \<Longrightarrow> P c'"
  by (auto simp: ensures_def)

lemma ensures_keeps: "ensures P f \<Longrightarrow> keeps P f"
  by (simp add: ensures_def keeps_def)

lemma keeps_steps_Nil [keeping]: "keeps P (steps [])"
  by (simp add: keeps_def)

lemma keeps_steps_Cons [keeping]: "keeps P f \<Longrightarrow> keeps P (steps fs) \<Longrightarrow> keeps P (steps (f # fs))"
  by (auto simp: keeps_def split: sum.splits)

lemma map_sum_Inr: "map_sum h k r = Inr y \<longleftrightarrow> (\<exists>x. r = Inr x \<and> y = k x)"
  by (cases r) auto

lemma keeps_field [keeping]: "(\<And>x c. P c \<Longrightarrow> P (put x c)) \<Longrightarrow> keeps P (field get key put obj)"
  by (auto simp: keeps_def field_def map_sum_Inr split: option.splits)

lemma keeps_require [keeping]: "keeps P (require ok msg)"
  by (simp add: keeps_def require_def)

lemma keeps_source_require [keeping]: "keeps P (source_require ok msg)"
  by (simp add: keeps_def source_require_def)

lemma keeps_rejectUnknownFields [keeping]: "keeps P (rejectUnknownFields obj allowed path)"
  by (auto simp: keeps_def rejectUnknownFields_def split: option.splits)

lemma keeps_part [keeping]: "(\<And>c p. P c \<Longrightarrow> f (get c) = Inr p \<Longrightarrow> P (put p c)) \<Longrightarrow> keeps P (part get put f)"
  by (auto simp: keeps_def part_def map_sum_Inr)

lemma keeps_block [keeping]: "(\<And>o'. keeps P (f o')) \<Longrightarrow> keeps P (block obj key wrong allowed path f)"
  unfolding keeps_def block_def
  by (auto simp: rejectUnknownFields_def split: option.splits json.splits sum.splits)

lemma keeps_set [keeping]: "(\<And>x c. P c \<Longrightarrow> P (put x c)) \<Longrightarrow> keeps P (\<lambda>c. map_sum id (\<lambda>x. put x c) (r c))"
  by (auto simp: keeps_def map_sum_Inr)

lemma ensures_steps_Cons: "ensures P (steps fs) \<Longrightarrow> ensures P (steps (f # fs))"
  by (auto simp: ensures_def split: sum.splits)

lemma ensures_steps_now: "ensures P f \<Longrightarrow> keeps P (steps fs) \<Longrightarrow> ensures P (steps (f # fs))"
  by (auto simp: ensures_def keeps_def split: sum.splits)

declare steps.simps [simp del]

lemma ensures_nth: "i < length fs \<Longrightarrow> ensures P (fs ! i) \<Longrightarrow> keeps P (steps (drop (Suc i) fs)) \<Longrightarrow> ensures P (steps fs)"
proof (induction fs arbitrary: i)
  case (Cons f fs)
  then show ?case by (cases i) (auto intro: ensures_steps_Cons ensures_steps_now)
qed simp

lemma ensures_require: "(\<And>c. ok c \<Longrightarrow> P c) \<Longrightarrow> ensures P (require ok msg)"
  by (auto simp: ensures_def require_def split: if_splits)

lemma ensures_source_require: "(\<And>c. ok c \<Longrightarrow> P c) \<Longrightarrow> ensures P (source_require ok msg)"
  by (auto simp: ensures_def source_require_def split: if_splits)

lemma keeps_apply [keeping]: "(\<And>c. P c \<Longrightarrow> P (h c)) \<Longrightarrow> keeps P (\<lambda>c. Inr (h c))"
  by (auto simp: keeps_def)

lemma keeps_dependent: "(\<And>c. keeps P (f c)) \<Longrightarrow> keeps P (\<lambda>c. f c c)"
  by (auto simp: keeps_def)

text \<open>
  The limits of a loaded configuration, each written out as a number or a list of words,
  apart from the predicates of the checks.
\<close>

definition slow_sql_ok :: "SlowSqlConfig \<Rightarrow> bool" where
  "slow_sql_ok s \<longleftrightarrow> 0 \<le> ss_threshold_ms s \<and> 1 \<le> ss_aggregate_capacity s \<and> 0 \<le> ss_recent_capacity s \<and>
     64 \<le> ss_max_sql_length s \<and> ss_histogram_buckets_ms s \<noteq> [] \<and> sorted_wrt (<) (ss_histogram_buckets_ms s) \<and> (\<forall>b \<in> set (ss_histogram_buckets_ms s). 0 < b)"

definition observability_valid :: "ObservabilityConfig \<Rightarrow> bool" where
  "observability_valid ob \<longleftrightarrow>
     sl_mode (ob_sql_log ob) \<in> {''template'', ''full''} \<and> sl_level (ob_sql_log ob) \<in> {''debug'', ''info'', ''warn'', ''error''} \<and>
     0 \<le> sl_sample_rate (ob_sql_log ob) \<and> sl_sample_rate (ob_sql_log ob) \<le> 1 \<and>
     64 \<le> sl_max_sql_length (ob_sql_log ob) \<and> 1 \<le> sl_max_param_length (ob_sql_log ob) \<and> slow_sql_ok (ob_slow_sql ob) \<and>
     1000 \<le> sr_interval_ms (ob_stats_report ob) \<and> sr_format (ob_stats_report ob) \<in> {''text'', ''json''} \<and>
     0 \<le> sr_slow_sql_limit (ob_stats_report ob)"

definition globals_valid :: "LoadedConfig \<Rightarrow> bool" where
  "globals_valid c \<longleftrightarrow> 0 \<le> cf_heartbeat_interval_ms c \<and>
     0 \<le> pc_min (cf_pool c) \<and> 1 \<le> pc_max (cf_pool c) \<and> pc_min (cf_pool c) \<le> pc_max (cf_pool c) \<and>
     0 \<le> pc_borrow_timeout_ms (cf_pool c) \<and> 0 \<le> pc_idle_timeout_ms (cf_pool c) \<and> 0 \<le> pc_max_lifetime_ms (cf_pool c) \<and>
     0 \<le> pc_leak_detection_threshold_ms (cf_pool c) \<and> 0 \<le> pc_validation_interval_ms (cf_pool c) \<and>
     1 \<le> max_attempts (cf_retry c) \<and> 0 \<le> initial_backoff_ms (cf_retry c) \<and>
     initial_backoff_ms (cf_retry c) \<le> max_backoff_ms (cf_retry c) \<and>
     0 \<le> failure_threshold (cf_circuit_breaker c) \<and> 1 \<le> open_interval_ms (cf_circuit_breaker c) \<and>
     observability_valid (cf_observability c) \<and>
     0 \<le> rlc_global_qps (cf_rate_limit c) \<and> 0 \<le> rlc_per_fingerprint_qps (cf_rate_limit c) \<and> 0 \<le> rlc_burst (cf_rate_limit c) \<and>
     rlc_fingerprint_mode (cf_rate_limit c) \<in> {''off'', ''template'', ''full''} \<and>
     ac_action (cf_sql_audit c) \<in> {''block'', ''warn''} \<and>
     0 \<le> ttl_ms (cf_query_cache c) \<and> 0 \<le> max_entries (cf_query_cache c) \<and> 0 \<le> max_memory_bytes (cf_query_cache c) \<and>
     0 \<le> cu_default_batch_size (cf_cursor c) \<and> 0 \<le> cu_max_open_cursors (cf_cursor c) \<and>
     0 \<le> pp_max_per_connection (cf_prepared_cache c) \<and> 0 \<le> as_threads (cf_async c) \<and> 1 \<le> as_queue_size (cf_async c) \<and>
     0 \<le> as_statement_timeout_ms (cf_async c)"

text \<open>An Oracle source names its target in one way only, and its wallet and certificate name need TLS.\<close>

definition oracle_valid :: "SourceConfig \<Rightarrow> bool" where
  "oracle_valid c \<longleftrightarrow> (let r = sc_oracle c in
     1 \<le> or_charset_id r \<and> or_charset_id r \<le> 65535 \<and> 1 \<le> or_lob_max_bytes r \<and> or_blob_bind r \<in> {''auto'', ''raw'', ''lob''} \<and>
     (or_service_name r = [] \<or> or_sid r = []) \<and> (or_sid r = [] \<or> sc_database c = []) \<and>
     (raw_connect c \<or> sc_dsn c \<noteq> [] \<or> or_service_name r \<noteq> [] \<or> or_sid r \<noteq> [] \<or> sc_database c \<noteq> []) \<and>
     (sc_tls_enabled c \<or> or_wallet_location r = [] \<and> or_server_cert_dn r = []) \<and>
     (or_server_cert_dn r = [] \<or> sc_tls_verify_peer c) \<and>
     (sc_tls_enabled c \<longrightarrow> \<not> raw_connect c \<and> sc_dsn c = [] \<and> sc_tls_cert c = [] \<and> sc_tls_key c = []))"

definition source_valid :: "SourceConfig \<Rightarrow> bool" where
  "source_valid c \<longleftrightarrow> dc_name c \<noteq> [] \<and> dc_type c \<noteq> [] \<and> 0 \<le> sc_port c \<and> sc_port c \<le> 65535 \<and>
     0 \<le> sc_connection_timeout_ms c \<and> 0 \<le> sc_socket_timeout_ms c \<and> 0 \<le> sc_query_timeout_ms c \<and> 0 \<le> sc_max_result_rows c \<and>
     (if dc_type c = ''oracle'' then oracle_valid c
      else sc_tls_enabled c \<and> sc_tls_verify_peer c \<longrightarrow> sc_tls_ca c \<noteq> [])"

definition failover_valid :: "FailoverConfig \<Rightarrow> bool" where
  "failover_valid f \<longleftrightarrow> [] \<notin> set (fo_primaries f) \<and> (fo_primaries f \<noteq> [] \<longrightarrow> acknowledge_external_fencing f) \<and>
     (wbc_enabled (write_buffer f) \<longrightarrow> acknowledge_data_loss_and_duplicates f) \<and>
     1 \<le> max_queue (write_buffer f) \<and> 0 \<le> wbc_ttl_ms (write_buffer f) \<and> 1 \<le> flush_interval_ms (write_buffer f)"

definition group_valid :: "DataSourceGroupConfig \<Rightarrow> bool" where
  "group_valid c \<longleftrightarrow> gc_name c \<noteq> [] \<and> gc_primary c \<noteq> [] \<and> 0 \<le> read_after_write_ms c \<and>
     (\<forall>r \<in> set (gc_replicas c). rc_name r \<noteq> [] \<and> 1 \<le> rc_weight r \<and> rc_weight r \<le> 100) \<and> failover_valid (gc_failover c)"

definition config_valid :: "LoadedConfig \<Rightarrow> bool" where
  "config_valid c \<longleftrightarrow> globals_valid c \<and> cf_datasources c \<noteq> [] \<and> (\<forall>d \<in> set (cf_datasources c). source_valid d) \<and>
     (\<forall>g \<in> set (cf_groups c). group_valid g) \<and> cf_default_datasource c \<noteq> []"

lemma increasing_sorted: "increasing p bs \<longleftrightarrow> sorted_wrt (<) bs \<and> (\<forall>b \<in> set bs. 0 < b \<and> p < b)"
  by (induction p bs rule: increasing.induct) (fastforce simp: not_le)+

lemma traverse_Inr: "traverse f xs = Inr ys \<Longrightarrow> list_all2 (\<lambda>x y. f x = Inr y) xs ys"
  by (induction xs arbitrary: ys) (auto split: sum.splits)

lemma traverse_each:
  assumes "traverse f xs = Inr ys" and "\<And>x y. f x = Inr y \<Longrightarrow> P y" and "y \<in> set ys"
  shows "P y"
  using traverse_Inr [OF assms(1)] assms(2,3) by (auto simp: list_all2_conv_all_nth in_set_conv_nth)

subsection \<open>Blocks\<close>

lemma load_retry_ensures: "ensures retry_valid (load_retry g obj)"
  unfolding load_retry_def by (intro ensures_steps_Cons ensures_steps_now [OF ensures_require] keeping)

lemma load_breaker_ensures: "ensures breaker_valid (load_breaker g obj)"
  unfolding load_breaker_def by (intro ensures_steps_Cons ensures_steps_now [OF ensures_require] keeping)

lemma load_sql_log_ensures: "ensures sql_log_valid (load_sql_log g obj)"
  unfolding load_sql_log_def by (intro ensures_steps_Cons ensures_steps_now [OF ensures_require] keeping)

lemma load_query_cache_ensures: "ensures query_cache_valid (load_query_cache g obj)"
  unfolding load_query_cache_def by (intro ensures_steps_Cons ensures_steps_now [OF ensures_require] keeping)

lemma load_slow_sql_ensures: "ensures slow_sql_ok (load_slow_sql g obj)"
proof -
  have "ensures slow_sql_valid (load_slow_sql g obj)"
    unfolding load_slow_sql_def by (rule ensures_nth [where i = 7]) (auto intro!: ensures_require keeping)
  moreover have "ensures (\<lambda>c. increasing (- 1) (ss_histogram_buckets_ms c)) (load_slow_sql g obj)"
    unfolding load_slow_sql_def by (rule ensures_nth [where i = 8]) (auto intro!: ensures_require keeping)
  ultimately show ?thesis unfolding ensures_def slow_sql_ok_def slow_sql_valid_def increasing_sorted by blast
qed

lemma load_stats_report_ensures:
  "ensures (\<lambda>r. 1000 \<le> sr_interval_ms r \<and> sr_format r \<in> {''text'', ''json''} \<and> 0 \<le> sr_slow_sql_limit r) (load_stats_report g obj)"
proof -
  have "ensures (\<lambda>r. 1000 \<le> sr_interval_ms r) (load_stats_report g obj)"
    unfolding load_stats_report_def by (rule ensures_nth [where i = 7]) (auto intro!: ensures_require keeping)
  moreover have "ensures (\<lambda>r. sr_format r \<in> {''text'', ''json''}) (load_stats_report g obj)"
    unfolding load_stats_report_def by (rule ensures_nth [where i = 8]) (auto intro!: ensures_require keeping)
  moreover have "ensures (\<lambda>r. 0 \<le> sr_slow_sql_limit r) (load_stats_report g obj)"
    unfolding load_stats_report_def by (rule ensures_nth [where i = 9]) (auto intro!: ensures_require keeping)
  ultimately show ?thesis unfolding ensures_def by blast
qed

lemma load_rate_limit_ensures:
  "ensures (\<lambda>r. rate_limit_valid r \<and> rlc_fingerprint_mode r \<in> {''off'', ''template'', ''full''}) (load_rate_limit g obj)"
proof -
  have "ensures rate_limit_valid (load_rate_limit g obj)"
    unfolding load_rate_limit_def by (rule ensures_nth [where i = 5]) (auto intro!: ensures_require keeping)
  moreover have "ensures (\<lambda>r. rlc_fingerprint_mode r \<in> {''off'', ''template'', ''full''}) (load_rate_limit g obj)"
    unfolding load_rate_limit_def by (rule ensures_nth [where i = 6]) (auto intro!: ensures_require keeping)
  ultimately show ?thesis unfolding ensures_def by blast
qed

lemma load_sql_audit_ensures: "ensures (\<lambda>a. ac_action a \<in> {''block'', ''warn''}) (load_sql_audit g obj)"
  unfolding load_sql_audit_def by (rule ensures_nth [where i = 8]) (auto intro!: ensures_require keeping)

lemma load_cursor_ensures: "ensures (\<lambda>c. 0 \<le> cu_default_batch_size c \<and> 0 \<le> cu_max_open_cursors c) (load_cursor g obj)"
  unfolding load_cursor_def by (rule ensures_nth [where i = 4]) (auto intro!: ensures_require keeping)

lemma load_prepared_cache_ensures: "ensures (\<lambda>c. 0 \<le> pp_max_per_connection c) (load_prepared_cache g obj)"
  unfolding load_prepared_cache_def by (rule ensures_nth [where i = 2]) (auto intro!: ensures_require keeping)

lemma load_async_ensures:
  "ensures (\<lambda>c. 0 \<le> as_threads c \<and> 1 \<le> as_queue_size c \<and> 0 \<le> as_statement_timeout_ms c) (load_async g obj)"
  unfolding load_async_def by (rule ensures_nth [where i = 4]) (auto intro!: ensures_require keeping)

text \<open>A block replaces its part by one that its statements ensure, or leaves it alone.\<close>

lemma keeps_block_part:
  "(\<And>c p. P (put p c) \<longleftrightarrow> Q p) \<Longrightarrow> (\<And>o'. ensures Q (f o')) \<Longrightarrow>
   keeps P (block obj key wrong allowed path (\<lambda>o'. part get put (f o')))"
  by (rule keeps_block, rule keeps_part) (auto dest: ensuresD)

lemma keeps_other:
  "(\<And>c p. P (put p c) \<longleftrightarrow> P c) \<Longrightarrow> keeps P (block obj key wrong allowed path (\<lambda>o'. part get put (f o')))"
  by (rule keeps_block, rule keeps_part) simp

lemma load_observability_keeps: "keeps observability_valid (load_observability g obj)"
proof -
  have "keeps (\<lambda>c. sql_log_valid (ob_sql_log c)) (load_observability g obj)"
    unfolding load_observability_def
    by (intro keeps_steps_Cons keeps_steps_Nil, rule keeps_block_part [OF _ load_sql_log_ensures])
      (auto intro!: keeping)
  moreover have "keeps (\<lambda>c. slow_sql_ok (ob_slow_sql c)) (load_observability g obj)"
    unfolding load_observability_def
    by (intro keeps_steps_Cons keeps_steps_Nil, rule keeps_other, simp, rule keeps_block_part [OF _ load_slow_sql_ensures])
      (auto intro!: keeping)
  moreover have "keeps (\<lambda>c. 1000 \<le> sr_interval_ms (ob_stats_report c) \<and> sr_format (ob_stats_report c) \<in> {''text'', ''json''} \<and>
      0 \<le> sr_slow_sql_limit (ob_stats_report c)) (load_observability g obj)"
    unfolding load_observability_def
    by (intro keeps_steps_Cons keeps_steps_Nil, rule keeps_other, simp, rule keeps_other, simp, rule keeps_block, rule keeps_field,
        simp, rule keeps_block_part [OF _ load_stats_report_ensures]) simp
  ultimately show ?thesis unfolding keeps_def observability_valid_def sql_log_valid_def by blast
qed

lemmas loads = load_retry_ensures [THEN ensuresD] load_breaker_ensures [THEN ensuresD] load_observability_keeps [THEN keepsD]
  load_rate_limit_ensures [THEN ensuresD] load_sql_audit_ensures [THEN ensuresD] load_query_cache_ensures [THEN ensuresD]
  load_cursor_ensures [THEN ensuresD] load_prepared_cache_ensures [THEN ensuresD] load_async_ensures [THEN ensuresD]

lemma load_globals_keeps:
  "keeps (\<lambda>c. retry_valid (cf_retry c) \<and> breaker_valid (cf_circuit_breaker c) \<and> observability_valid (cf_observability c) \<and>
     rate_limit_valid (cf_rate_limit c) \<and> rlc_fingerprint_mode (cf_rate_limit c) \<in> {''off'', ''template'', ''full''} \<and>
     ac_action (cf_sql_audit c) \<in> {''block'', ''warn''} \<and> query_cache_valid (cf_query_cache c)) (load_globals g j)"
  unfolding load_globals_def
  by (intro keeping) (auto dest: loads)

lemma load_globals_keeps2:
  "keeps (\<lambda>c. 0 \<le> cu_default_batch_size (cf_cursor c) \<and> 0 \<le> cu_max_open_cursors (cf_cursor c) \<and>
     0 \<le> pp_max_per_connection (cf_prepared_cache c) \<and> 0 \<le> as_threads (cf_async c) \<and> 1 \<le> as_queue_size (cf_async c) \<and>
     0 \<le> as_statement_timeout_ms (cf_async c)) (load_globals g j)"
  unfolding load_globals_def
  by (intro keeping) (auto dest: loads)

lemma load_globals_ensures:
  "ensures (\<lambda>c. 0 \<le> cf_heartbeat_interval_ms c \<and> pool_valid (cf_pool c)) (load_globals g j)"
proof -
  have "ensures (\<lambda>c. 0 \<le> cf_heartbeat_interval_ms c) (load_globals g j)"
    unfolding load_globals_def by (rule ensures_nth [where i = 3]) (auto intro!: ensures_require keeping)
  moreover have "ensures (\<lambda>c. pool_valid (cf_pool c)) (load_globals g j)"
    unfolding load_globals_def by (rule ensures_nth [where i = 5]) (auto intro!: ensures_require keeping)
  ultimately show ?thesis unfolding ensures_def by blast
qed

lemma load_globals_valid:
  assumes "load_globals g j default_config = Inr c"
  shows "globals_valid c"
proof -
  have "slow_sql_ok default_slow_sql" by (auto simp: slow_sql_ok_def default_slow_sql_def)
  then have "observability_valid (cf_observability default_config)"
    by (simp add: observability_valid_def default_config_def default_sql_log_def default_stats_report_def)
  then show ?thesis
    using ensuresD [OF load_globals_ensures assms] keepsD [OF load_globals_keeps assms] keepsD [OF load_globals_keeps2 assms]
    by (simp add: globals_valid_def pool_valid_def default_config_def retry_valid_def default_retry_def breaker_valid_def default_breaker_def
        rate_limit_valid_def query_cache_valid_def default_cursor_def)
qed

subsection \<open>Sources and groups\<close>

lemma check_oracle_ensures: "ensures oracle_valid check_oracle"
proof -
  have "ensures (\<lambda>c. let r = sc_oracle c in 1 \<le> or_charset_id r \<and> or_charset_id r \<le> 65535 \<and> 1 \<le> or_lob_max_bytes r \<and>
      or_blob_bind r \<in> {''auto'', ''raw'', ''lob''}) check_oracle"
    unfolding check_oracle_def by (rule ensures_nth [where i = 0]) (auto simp: set_oracle_def Let_def intro!: ensures_source_require keeping split: if_splits)
  moreover have "ensures (\<lambda>c. or_service_name (sc_oracle c) = [] \<or> or_sid (sc_oracle c) = []) check_oracle"
    unfolding check_oracle_def by (rule ensures_nth [where i = 1]) (auto simp: set_oracle_def intro!: ensures_source_require keeping)
  moreover have "ensures (\<lambda>c. or_sid (sc_oracle c) = [] \<or> sc_database c = []) check_oracle"
    unfolding check_oracle_def by (rule ensures_nth [where i = 2]) (auto simp: set_oracle_def intro!: ensures_source_require keeping)
  moreover have "ensures (\<lambda>c. raw_connect c \<or> sc_dsn c \<noteq> [] \<or> or_service_name (sc_oracle c) \<noteq> [] \<or> or_sid (sc_oracle c) \<noteq> [] \<or>
      sc_database c \<noteq> []) check_oracle"
    unfolding check_oracle_def
    by (rule ensures_nth [where i = 3]) (auto simp: set_oracle_def raw_connect_def intro!: ensures_source_require keeping split: if_splits)
  moreover have "ensures (\<lambda>c. \<not> ((raw_connect c \<or> sc_dsn c \<noteq> []) \<and> sc_tls_enabled c)) check_oracle"
    unfolding check_oracle_def
    by (rule ensures_nth [where i = 4]) (auto simp: set_oracle_def raw_connect_def intro!: ensures_source_require keeping split: if_splits)
  moreover have "ensures (\<lambda>c. sc_tls_enabled c \<or> or_wallet_location (sc_oracle c) = [] \<and> or_server_cert_dn (sc_oracle c) = []) check_oracle"
    unfolding check_oracle_def by (rule ensures_nth [where i = 6]) (auto intro!: ensures_source_require keeping)
  moreover have "ensures (\<lambda>c. or_server_cert_dn (sc_oracle c) = [] \<or> sc_tls_verify_peer c) check_oracle"
    unfolding check_oracle_def by (rule ensures_nth [where i = 7]) (auto intro!: ensures_source_require keeping)
  moreover have "ensures (\<lambda>c. \<not> (sc_tls_enabled c \<and> (sc_tls_cert c \<noteq> [] \<or> sc_tls_key c \<noteq> []))) check_oracle"
    unfolding check_oracle_def by (rule ensures_nth [where i = 8]) (auto intro!: ensures_source_require keeping)
  ultimately show ?thesis unfolding ensures_def oracle_valid_def Let_def by blast
qed

lemma load_oracle_source_ensures: "ensures oracle_valid (load_oracle_source g path d)"
proof -
  have "oracle_valid c'" if "load_oracle_source g path d c = Inr c'" for c c'
    using that ensuresD [OF check_oracle_ensures] by (auto simp: load_oracle_source_def Let_def steps.simps split: sum.splits)
  then show ?thesis by (simp add: ensures_def)
qed

text \<open>The fields of a source that its \<open>oracle\<close> block does not set.\<close>

definition base :: "SourceConfig \<Rightarrow> string \<times> string \<times> int \<times> int \<times> int \<times> int \<times> int" where
  "base c = (dc_name c, dc_type c, sc_port c, sc_connection_timeout_ms c, sc_socket_timeout_ms c, sc_query_timeout_ms c,
     sc_max_result_rows c)"

lemma base_keeps [keeping]:
  assumes "\<And>c c'. base c = base c' \<Longrightarrow> P c = P c'"
  shows "keeps P (load_oracle_source g path d)" and "keeps P (load_tls g obj)" and "keeps P (load_extra g path d)"
    and "keeps P (resolve_password getenv)"
proof -
  have leg: "keeps P (legacy obj key (\<lambda>v c. f v c))" if "\<And>v. keeps P (f v)" for obj key f
    using that by (auto simp: keeps_def legacy_def split: option.splits)
  have orc: "P (set_oracle f c) = P c" "P (c\<lparr>sc_oracle := r\<rparr>) = P c" for f c r
    by (rule assms; simp add: base_def set_oracle_def)+
  have tls: "P (c\<lparr>sc_tls_enabled := b\<rparr>) = P c" "P (c\<lparr>sc_tls_verify_peer := b\<rparr>) = P c" "P (c\<lparr>sc_tls_ca := s\<rparr>) = P c"
     "P (c\<lparr>sc_tls_cert := s\<rparr>) = P c" "P (c\<lparr>sc_tls_key := s\<rparr>) = P c" "P (c\<lparr>sc_extra := es\<rparr>) = P c" "P (c\<lparr>sc_password := s\<rparr>) = P c"
     for b c s es
    by (rule assms; simp add: base_def)+
  have "keeps P (legacy_oracle obj)" for obj
    unfolding legacy_oracle_def
    by (intro keeping leg) (auto simp: keeps_def orc split: option.splits if_splits)
  moreover have "keeps P check_oracle"
    unfolding check_oracle_def by (intro keeping) (simp add: orc)
  ultimately show "keeps P (load_oracle_source g path d)"
    unfolding load_oracle_source_def Let_def by (rule_tac keeps_dependent) (intro keeping; simp add: orc)
  have "keeps P (steps [field (jg_bool g) ''enabled'' (\<lambda>x c. c\<lparr>sc_tls_enabled := x\<rparr>) obj,
      field (jg_bool g) ''verify_peer'' (\<lambda>x c. c\<lparr>sc_tls_verify_peer := x\<rparr>) obj,
      field (jg_string g) ''ca'' (\<lambda>x c. c\<lparr>sc_tls_ca := x\<rparr>) obj,
      field (jg_string g) ''cert'' (\<lambda>x c. c\<lparr>sc_tls_cert := x\<rparr>) obj,
      field (jg_string g) ''key'' (\<lambda>x c. c\<lparr>sc_tls_key := x\<rparr>) obj])"
    by (intro keeping) (simp_all add: tls)
  then show "keeps P (load_tls g obj)" by (auto simp: load_tls_def keeps_def tls)
  show "keeps P (load_extra g path d)"
    by (auto simp: keeps_def load_extra_def map_sum_Inr tls split: option.splits json.splits)
  show "keeps P (resolve_password getenv)"
    by (auto simp: keeps_def resolve_password_def tls split: option.splits if_splits)
qed

lemma keeps_block_dependent [keeping]:
  "(\<And>o'. keeps P (f o')) \<Longrightarrow> keeps P (\<lambda>c. block obj key (wrong c) allowed path f c)"
  by (rule keeps_dependent) (rule keeps_block)

lemma keeps_if [keeping]: "keeps P f \<Longrightarrow> keeps P h \<Longrightarrow> keeps P (\<lambda>c. if b c then f c else h c)"
  by (simp add: keeps_def)

lemma established:
  "steps fs c = Inr c' \<Longrightarrow> i < length fs \<Longrightarrow> ensures P (fs ! i) \<Longrightarrow> keeps P (steps (drop (Suc i) fs)) \<Longrightarrow> P c'"
  by (rule ensuresD [OF ensures_nth])

lemma kept: "steps fs c = Inr c' \<Longrightarrow> keeps P (steps fs) \<Longrightarrow> P c \<Longrightarrow> P c'"
  by (rule keepsD)

lemma load_datasource_valid:
  assumes "load_datasource g getenv path d = Inr c"
  shows "source_valid c"
proof -
  have "0 \<le> sc_port c \<and> sc_port c \<le> 65535"
    by (rule established [OF assms [unfolded load_datasource_def], of 14]) (auto simp: base_def intro!: ensures_require keeping)
  moreover have "0 \<le> sc_connection_timeout_ms c \<and> 0 \<le> sc_socket_timeout_ms c \<and> 0 \<le> sc_query_timeout_ms c \<and> 0 \<le> sc_max_result_rows c"
    by (rule established [OF assms [unfolded load_datasource_def], of 15]) (auto simp: base_def intro!: ensures_source_require keeping)
  moreover have "dc_name c \<noteq> []"
    by (rule established [OF assms [unfolded load_datasource_def], of 19]) (auto simp: base_def intro!: ensures_require keeping)
  moreover have "dc_type c \<noteq> []"
    by (rule established [OF assms [unfolded load_datasource_def], of 20]) (auto simp: base_def intro!: ensures_source_require keeping)
  moreover have "if dc_type c = ''oracle'' then oracle_valid c else sc_tls_enabled c \<and> sc_tls_verify_peer c \<longrightarrow> sc_tls_ca c \<noteq> []"
  proof -
    have t: "dc_type c' = dc_type c" if "load_oracle_source g path d c = Inr c'" for c c'
      using keepsD [OF base_keeps(1) [where P = "\<lambda>x. dc_type x = dc_type c"] that] by (simp add: base_def)
    show ?thesis
      by (rule established [OF assms [unfolded load_datasource_def], of 22])
        (auto simp: ensures_def source_require_def t intro!: keeping dest: ensuresD [OF load_oracle_source_ensures] split: if_splits)
  qed
  ultimately show ?thesis by (simp add: source_valid_def)
qed

lemma load_replica_valid:
  "load_replica g name path ir = Inr r \<Longrightarrow> rc_name r \<noteq> [] \<and> 1 \<le> rc_weight r \<and> rc_weight r \<le> 100"
  by (auto simp: load_replica_def require_def Let_def steps.simps split: json.splits if_splits sum.splits)

lemma load_replicas_valid:
  assumes "load_replicas g path obj c = Inr c'" and "\<forall>r \<in> set (gc_replicas c). rc_name r \<noteq> [] \<and> 1 \<le> rc_weight r \<and> rc_weight r \<le> 100"
  shows "\<forall>r \<in> set (gc_replicas c'). rc_name r \<noteq> [] \<and> 1 \<le> rc_weight r \<and> rc_weight r \<le> 100"
  using assms traverse_each [OF _ load_replica_valid]
  by (fastforce simp: load_replicas_def map_sum_Inr split: option.splits json.splits)

lemma load_primaries_keeps:
  "keeps (\<lambda>c. [] \<notin> set (fo_primaries c)) (load_primaries name obj)"
proof -
  let ?f = "\<lambda>p. case p of
      JStr s \<Rightarrow> if s = [] then Inl (of_group name '' failover.primaries must be non-empty strings'') else Inr s
    | _ \<Rightarrow> Inl (of_group name '' failover.primaries must be non-empty strings'')"
  have "?f p = Inr s \<Longrightarrow> s \<noteq> []" for p s by (auto split: json.splits if_splits)
  from traverse_each [where f = ?f, OF _ this] show ?thesis
    by (force simp: keeps_def load_primaries_def map_sum_Inr split: option.splits json.splits)
qed

lemma load_write_buffer_keeps:
  "keeps (\<lambda>c. [] \<notin> set (fo_primaries c)) (load_write_buffer g name obj)"
  "ensures (\<lambda>c. 1 \<le> max_queue (write_buffer c) \<and> 0 \<le> wbc_ttl_ms (write_buffer c) \<and> 1 \<le> flush_interval_ms (write_buffer c))
     (load_write_buffer g name obj)"
  unfolding load_write_buffer_def
  by (intro keeping; simp) (rule ensures_nth [where i = 5]; auto intro!: ensures_require keeping)

lemma load_primaries_buffer [keeping]:
  "(\<And>c l. P c \<Longrightarrow> P (c\<lparr>fo_primaries := l\<rparr>)) \<Longrightarrow> keeps P (load_primaries name obj)"
  by (auto simp: keeps_def load_primaries_def map_sum_Inr split: option.splits json.splits)

lemma load_failover_keeps: "keeps failover_valid (load_failover g name path obj)"
proof -
  have "keeps (\<lambda>c. [] \<notin> set (fo_primaries c)) (load_failover g name path obj)"
    unfolding load_failover_def
    by (intro keeps_steps_Cons keeps_steps_Nil load_primaries_keeps keeps_block load_write_buffer_keeps(1) keeps_field keeps_require) simp_all
  moreover have "keeps (\<lambda>c. 1 \<le> max_queue (write_buffer c) \<and> 0 \<le> wbc_ttl_ms (write_buffer c) \<and> 1 \<le> flush_interval_ms (write_buffer c))
      (load_failover g name path obj)"
    unfolding load_failover_def
    by (intro keeps_steps_Cons keeps_steps_Nil load_primaries_buffer keeps_block ensures_keeps [OF load_write_buffer_keeps(2)]
        keeps_field keeps_require) simp_all
  moreover have "ensures (\<lambda>c. fo_primaries c = [] \<or> acknowledge_external_fencing c) (load_failover g name path obj)"
    unfolding load_failover_def by (rule ensures_nth [where i = 4]) (auto intro!: ensures_require keeping)
  moreover have "ensures (\<lambda>c. \<not> wbc_enabled (write_buffer c) \<or> acknowledge_data_loss_and_duplicates c) (load_failover g name path obj)"
    unfolding load_failover_def by (rule ensures_nth [where i = 5]) (auto intro!: ensures_require keeping)
  ultimately show ?thesis unfolding keeps_def ensures_def failover_valid_def by blast
qed

lemma load_replicas_other [keeping]:
  "(\<And>c l. P c \<Longrightarrow> P (c\<lparr>gc_replicas := l\<rparr>)) \<Longrightarrow> keeps P (load_replicas g path obj)"
  by (auto simp: keeps_def load_replicas_def map_sum_Inr split: option.splits json.splits)

lemma load_shadow_other [keeping]:
  "(\<And>c s. P c \<Longrightarrow> P (c\<lparr>gc_shadow := s\<rparr>)) \<Longrightarrow> keeps P (load_shadow obj)"
  by (auto simp: keeps_def load_shadow_def split: option.splits json.splits)

lemma keeps_part_dependent [keeping]:
  "(\<And>c c' o' p. P c \<Longrightarrow> h c' o' (get c) = Inr p \<Longrightarrow> P (put p c)) \<Longrightarrow>
   keeps P (\<lambda>c. block obj key (wrong c) allowed path (\<lambda>o'. part get put (h c o')) c)"
  by (rule keeps_dependent) (auto intro!: keeps_block keeps_part)

lemma load_group_valid:
  assumes "load_group g path obj = Inr c"
  shows "group_valid c"
proof -
  let ?replicas = "\<lambda>c. \<forall>r \<in> set (gc_replicas c). rc_name r \<noteq> [] \<and> 1 \<le> rc_weight r \<and> rc_weight r \<le> 100"
  have rs: "keeps ?replicas (load_replicas g path obj)" unfolding keeps_def using load_replicas_valid by blast
  have "gc_name c \<noteq> [] \<and> gc_primary c \<noteq> [] \<and> 0 \<le> read_after_write_ms c"
    by (rule established [OF assms [unfolded load_group_def], of 5]) (auto intro!: ensures_require keeping)
  moreover have "?replicas c"
    by (rule kept [OF assms [unfolded load_group_def]],
        intro rs keeps_steps_Cons keeps_steps_Nil keeps_rejectUnknownFields keeps_field keeps_require keeps_part_dependent load_shadow_other)
      (simp_all add: default_group_def)
  moreover have "failover_valid (gc_failover c)"
    by (rule kept [OF assms [unfolded load_group_def]], intro keeping)
      (auto simp: failover_valid_def default_group_def dest: keepsD [OF load_failover_keeps])
  ultimately show ?thesis by (simp add: group_valid_def)
qed

lemma elements_all:
  assumes "elements parent load ds = Inr ys" and "\<And>path o' y. load path o' = Inr y \<Longrightarrow> P y"
  shows "length ys = length ds \<and> (\<forall>y \<in> set ys. P y)"
proof -
  let ?f = "\<lambda>(i, d). let path = parent @ to_string i in
     case d of JObj o' \<Rightarrow> load path o' | _ \<Rightarrow> Inl (''config error [type] at '' @ path @ '': must be an object'')"
  have t: "traverse ?f (zip [0..<length ds] ds) = Inr ys" using assms(1) unfolding elements_def .
  have p: "P y" if "?f x = Inr y" for x y using that assms(2) by (cases x) (auto simp: Let_def split: json.splits)
  have "length ys = length ds" using list_all2_lengthD [OF traverse_Inr [OF t]] by simp
  moreover have "\<forall>y \<in> set ys. P y" by (rule ballI) (rule traverse_each [OF t p])
  ultimately show ?thesis ..
qed

lemma load_datasources_valid:
  assumes "load_datasources g getenv j = Inr ds"
  shows "ds \<noteq> []" and "\<forall>d \<in> set ds. source_valid d"
proof -
  obtain js where js: "js \<noteq> []" "elements ''/datasources/'' (load_datasource g getenv) js = Inr ds"
    using assms by (auto simp: load_datasources_def split: option.splits json.splits if_splits)
  from elements_all [OF js(2), of source_valid, OF load_datasource_valid] js(1)
  show "ds \<noteq> []" "\<forall>d \<in> set ds. source_valid d" by auto
qed

lemma load_groups_valid:
  assumes "load_groups g j = Inr gs"
  shows "\<forall>d \<in> set gs. group_valid d"
  using assms elements_all [of "''/groups/''" "load_group g" _ gs group_valid, OF _ load_group_valid]
  by (auto simp: load_groups_def split: option.splits json.splits)

lemma load_document_valid:
  assumes "load_document g getenv doc = Inr c"
  shows "config_valid c"
proof -
  obtain j where doc: "doc = JObj j" using assms by (auto simp: load_document_def split: json.splits)
  obtain c0 ds gs where l: "load_globals g j default_config = Inr c0" "load_datasources g getenv j = Inr ds" "load_groups g j = Inr gs"
    and c: "c = (let c1 = c0\<lparr>cf_datasources := ds, cf_groups := gs\<rparr> in
      if cf_default_datasource c1 = [] \<and> cf_datasources c1 \<noteq> [] then c1\<lparr>cf_default_datasource := dc_name (hd ds)\<rparr> else c1)"
    using assms by (auto simp: load_document_def doc steps.simps Let_def map_sum_Inr split: sum.splits)
  note ds = load_datasources_valid [OF l(2)] and gs = load_groups_valid [OF l(3)]
  have "dc_name (hd ds) \<noteq> []" using ds by (auto simp: source_valid_def)
  moreover have "globals_valid (c0\<lparr>cf_datasources := x, cf_groups := y\<rparr>)"
     "globals_valid (c0\<lparr>cf_datasources := x, cf_groups := y, cf_default_datasource := n\<rparr>)" for x y n
    using load_globals_valid [OF l(1)] by (simp_all add: globals_valid_def)
  ultimately show ?thesis using ds gs by (simp add: c config_valid_def Let_def)
qed

section \<open>A document\<close>

definition sample_get :: json_get where
  "sample_get =
     (let num = (\<lambda>v. case v of
            JNum s \<Rightarrow> Inr (foldl (\<lambda>n d. 10 * n + of_char d - 48) 0 s)
          | _ \<Rightarrow> Inl ''type must be number'')
      in \<lparr>jg_int = num, jg_int64 = num, jg_double = (\<lambda>v. map_sum id of_int (num v)),
          jg_bool = (\<lambda>v. case v of JBool b \<Rightarrow> Inr b | _ \<Rightarrow> Inl ''type must be boolean''),
          jg_string = (\<lambda>v. case v of JStr s \<Rightarrow> Inr s | _ \<Rightarrow> Inl ''type must be string''),
          jg_ints = (\<lambda>v. case v of JArr vs \<Rightarrow> traverse num vs | _ \<Rightarrow> Inl ''type must be array''),
          jg_fingerprints = (\<lambda>v. Inr [])\<rparr>)"

definition main_document :: object where
  "main_document = [(''name'', JStr ''main''), (''type'', JStr ''mysql''), (''host'', JStr ''db1''), (''port'', JNum ''3306''),
     (''password'', JStr ''s3cret'')]"

definition copy_document :: object where
  "copy_document = [(''name'', JStr ''copy''), (''type'', JStr ''mysql''), (''host'', JStr ''db2''), (''port'', JNum ''3306'')]"

definition group_document :: object where
  "group_document = [(''name'', JStr ''app''), (''primary'', JStr ''main''),
     (''replicas'', JArr [JObj [(''name'', JStr ''copy''), (''weight'', JNum ''3'')]])]"

definition config_document :: json where
  "config_document = JObj [(''datasources'', JArr [JObj main_document, JObj copy_document]), (''groups'', JArr [JObj group_document])]"

definition main_source :: SourceConfig where
  "main_source = default_source\<lparr>dc_name := ''main'', dc_type := ''mysql'', sc_host := ''db1'', sc_port := 3306, sc_password := ''s3cret''\<rparr>"

definition copy_source :: SourceConfig where
  "copy_source = default_source\<lparr>dc_name := ''copy'', dc_type := ''mysql'', sc_host := ''db2'', sc_port := 3306\<rparr>"

definition app_group :: DataSourceGroupConfig where
  "app_group = default_group\<lparr>gc_name := ''app'', gc_primary := ''main'', gc_replicas := [\<lparr>rc_name = ''copy'', rc_weight = 3\<rparr>]\<rparr>"

definition sample_loaded :: LoadedConfig where
  "sample_loaded = default_config\<lparr>cf_default_datasource := ''main'', cf_datasources := [main_source, copy_source],
     cf_groups := [app_group]\<rparr>"

lemma sample_name: "\<not> hasYamlExtension ''app.json''" "hasJsonExtension ''app.json''"
  by code_simp+

lemma block_absent: "map_of obj key = None \<Longrightarrow> block obj key w al p f c = Inr c"
  by (simp add: block_def)

lemma field_absent: "map_of obj key = None \<Longrightarrow> field get key put obj c = Inr c"
  by (simp add: field_def)

lemma field_present: "map_of obj key = Some v \<Longrightarrow> get v = Inr x \<Longrightarrow> field get key put obj c = Inr (put x c)"
  by (simp add: field_def threw_def)

lemma sample_get_simps:
  "jg_string sample_get (JStr s) = Inr s" "jg_int sample_get (JNum ''3306'') = Inr 3306" "jg_int sample_get (JNum ''3'') = Inr 3"
  by (simp_all add: sample_get_def Let_def)

lemmas document_simps = steps.simps rejectUnknownFields_def block_absent field_absent field_present sample_get_simps require_def
  source_require_def

lemma sample_globals: "load_globals g [(''datasources'', x), (''groups'', y)] default_config = Inr default_config"
  by (simp add: load_globals_def document_simps default_config_def pool_valid_def default_pool_def)

lemma sample_sources:
  "load_datasource sample_get getenv path main_document = Inr main_source"
  "load_datasource sample_get getenv path copy_document = Inr copy_source"
  by (simp_all add: load_datasource_def main_document_def copy_document_def main_source_def copy_source_def document_simps
      default_source_def resolve_password_def load_extra_def)

lemma sample_group: "load_group sample_get path group_document = Inr app_group"
  by (simp add: load_group_def group_document_def app_group_def document_simps default_group_def load_replicas_def load_replica_def
      load_shadow_def)

lemma sample_loads: "loadFromFile sample_get (\<lambda>_. Inr config_document) (\<lambda>_. None) (\<lambda>_. Some []) ''app.json'' = Inr sample_loaded"
  by (simp add: loadFromFile_def parse_content_def sample_name load_document_def config_document_def steps.simps sample_globals
      load_datasources_def load_groups_def elements_def sample_sources sample_group)
    (simp add: sample_loaded_def default_config_def main_source_def)

section \<open>Properties\<close>

text \<open>
  C28: Every configuration that loadFromFile accepts is within limits that are written out apart
  from the checks of the loader: of the global settings (pool, retries, breaker, logging, slow
  statements, reports, limiter, audit, cache, cursors, prepared statements, executor), of each
  data source (a name and a type, port 0 to 65535, timeouts and row limit not negative, a CA
  file where the peer is verified, the Oracle settings) and of each group (a name, a primary and
  named replicas with weights 1 to 100, no empty failover candidate, risky failover settings
  acknowledged), with at least one source and a default name; whatever the file, the environment
  and the conversions of the JSON library.
\<close>

theorem loaded_config_valid:
  assumes "loadFromFile g jp getenv files path = Inr c"
  shows "config_valid c"
  using assms by (auto simp: loadFromFile_def split: option.splits sum.splits intro: load_document_valid)

theorem loaded_config_valid_witness: "config_valid sample_loaded \<and> rc_weight (hd (gc_replicas (hd (cf_groups sample_loaded)))) = 3"
  using loaded_config_valid [OF sample_loads] by (simp add: sample_loaded_def app_group_def)

end
