(* ===== verification/ConfigDiagnostics.thy ===== *)
theory ConfigDiagnostics
  imports ConfigLoader "HOL-Library.Sublist"
begin

text \<open>
  Offline checks and reports on a configuration: \<^verbatim>\<open>config/config_diagnostics.cpp\<close>, \<^verbatim>\<open>config/datasource_config.cpp\<close>
  and the step of \<^verbatim>\<open>core/database_manager.cpp\<close> that makes a rate limiter of the settings. The printing of a JSON
  value (\<^verbatim>\<open>dump\<close>) and of a double are parameters. The lemmas relate the offline check of the topology to what
  \<open>init\<close> of \<open>Registry\<close> accepts, and show which secrets the reports hide.
\<close>

section \<open>Topology\<close>

definition topology_error :: "string \<Rightarrow> string \<Rightarrow> string" where
  "topology_error path msg = ''config error [topology] at '' @ path @ '': '' @ msg"

text \<open>The names of the sources, or the first complaint.\<close>

fun topology_sources :: "string set \<Rightarrow> SourceConfig list \<Rightarrow> string + string set" where
  "topology_sources names [] = Inr names"
| "topology_sources names (d # ds) =
     (if dc_name d = [] \<or> dc_type d = [] then Inl (topology_error ''/datasources'' ''name and type must not be empty'')
      else if dc_name d \<in> names then Inl (topology_error ''/datasources'' (''duplicate datasource name: '' @ dc_name d))
      else topology_sources (insert (dc_name d) names) ds)"

fun topology_names :: "string set \<Rightarrow> DataSourceGroupConfig list \<Rightarrow> string + string set" where
  "topology_names names [] = Inr names"
| "topology_names names (g # gs) =
     (if gc_name g = [] \<or> gc_name g \<in> names
      then Inl (topology_error ''/groups'' (''empty or duplicate datasource/group name: '' @ gc_name g))
      else topology_names (insert (gc_name g) names) gs)"

text \<open>The conditions on a group, each with the path and the message of its complaint.\<close>

definition group_checks :: "string set \<Rightarrow> DataSourceGroupConfig \<Rightarrow> (bool \<times> string \<times> string) list" where
  "group_checks leaves g =
     [(gc_primary g \<in> leaves, ''/primary'', ''must reference a plain datasource''),
      (list_all (\<lambda>r. rc_name r \<in> leaves \<and> 1 \<le> rc_weight r) (gc_replicas g), ''/replicas'',
         ''requires a plain datasource and positive weight''),
      (list_all (\<lambda>p. p \<in> leaves) (fo_primaries (gc_failover g)), ''/failover/primaries'', ''must reference plain datasources''),
      (fo_primaries (gc_failover g) = [] \<or> acknowledge_external_fencing (gc_failover g), ''/failover'',
         ''external fencing acknowledgement is required''),
      (\<not> (wbc_enabled (write_buffer (gc_failover g)) \<and>
          (\<not> acknowledge_data_loss_and_duplicates (gc_failover g) \<or> gc_read_only g)), ''/failover/write_buffer'',
         ''requires duplicate/data-loss acknowledgement and a writable group''),
      (gc_shadow g = [] \<or> gc_shadow g \<in> leaves \<and> gc_shadow g \<noteq> gc_primary g, ''/shadow'',
         ''must reference a separate plain datasource''),
      (gc_shadow g = [] \<or> list_all (\<lambda>r. rc_name r \<noteq> gc_shadow g) (gc_replicas g), ''/shadow'',
         ''must not reference a replica of this group'')]"

definition topology_group :: "string set \<Rightarrow> nat \<times> DataSourceGroupConfig \<Rightarrow> string option" where
  "topology_group leaves ig =
     map_option (\<lambda>(ok, path, msg). topology_error (''/groups/'' @ to_string (fst ig) @ path) msg)
       (find (\<lambda>(ok, path, msg). \<not> ok) (group_checks leaves (snd ig)))"

text \<open>\<open>None\<close> when the configuration is accepted.\<close>

definition validateTopology :: "LoadedConfig \<Rightarrow> string option" where
  "validateTopology c =
     (if cf_datasources c = [] then Some (topology_error ''/datasources'' ''at least one datasource is required'')
      else case topology_sources {} (cf_datasources c) of
        Inl e \<Rightarrow> Some e
      | Inr leaves \<Rightarrow>
          (case topology_names leaves (cf_groups c) of
             Inl e \<Rightarrow> Some e
           | Inr names \<Rightarrow>
               (case List.map_filter (topology_group leaves) (zip [0..<length (cf_groups c)] (cf_groups c)) of
                  e # es \<Rightarrow> Some e
                | [] \<Rightarrow>
                    if cf_default_datasource c \<notin> names
                    then Some (topology_error ''/default_datasource'' ''must reference an existing datasource or group'')
                    else None)))"

section \<open>Installing a configuration\<close>

definition makeRateLimiter :: "int \<Rightarrow> RateLimitConfig \<Rightarrow> RateLimiter option" where
  "makeRateLimiter now cfg =
     (if rlc_enabled cfg \<and> (rlc_global_qps cfg > 0 \<or> rlc_per_fingerprint_qps cfg > 0)
      then Some (new_limiter (of_int (rlc_global_qps cfg)) (of_int (rlc_per_fingerprint_qps cfg)) (rlc_burst cfg) (rlc_fingerprint_mode cfg) now)
      else None)"

text \<open>The parts of a configuration that \<open>init\<close> reads.\<close>

definition registry_config :: "int \<Rightarrow> LoadedConfig \<Rightarrow> RateLimiter GlobalConfig" where
  "registry_config now c =
     \<lparr>default_datasource = cf_default_datasource c, gl_retry = cf_retry c, gl_circuit_breaker = cf_circuit_breaker c,
      gl_rate_limit = makeRateLimiter now (cf_rate_limit c), gl_sql_audit = cf_sql_audit c, gl_query_cache = cf_query_cache c,
      gl_cursor = cf_cursor c, gl_prepared_cache = (pp_enabled (cf_prepared_cache c), pp_max_per_connection (cf_prepared_cache c)),
      gl_interceptors = cf_interceptors c, gl_datasources = map DataSourceConfig.truncate (cf_datasources c), gl_groups = cf_groups c\<rparr>"

section \<open>The topologies that are accepted\<close>

definition group_refs_ok :: "string set \<Rightarrow> DataSourceGroupConfig \<Rightarrow> bool" where
  "group_refs_ok leaves g \<longleftrightarrow> gc_primary g \<in> leaves \<and> (\<forall>r \<in> set (gc_replicas g). rc_name r \<in> leaves) \<and>
     set (fo_primaries (gc_failover g)) \<subseteq> leaves"

definition acknowledged :: "DataSourceGroupConfig \<Rightarrow> bool" where
  "acknowledged g \<longleftrightarrow> (let f = gc_failover g in
     (fo_primaries f = [] \<or> acknowledge_external_fencing f) \<and>
     (wbc_enabled (write_buffer f) \<longrightarrow> acknowledge_data_loss_and_duplicates f \<and> \<not> gc_read_only g))"

definition shadow_fits :: "string set \<Rightarrow> DataSourceGroupConfig \<Rightarrow> bool" where
  "shadow_fits leaves g \<longleftrightarrow> gc_shadow g = [] \<or>
     gc_shadow g \<in> leaves \<and> gc_shadow g \<noteq> gc_primary g \<and> gc_shadow g \<notin> rc_name ` set (gc_replicas g)"

definition weighted :: "DataSourceGroupConfig list \<Rightarrow> bool" where
  "weighted gs \<longleftrightarrow> (\<forall>g \<in> set gs. \<forall>r \<in> set (gc_replicas g). 1 \<le> rc_weight r)"

text \<open>The references between sources and groups, over the names alone.\<close>

definition topology_ok :: "string list \<Rightarrow> DataSourceGroupConfig list \<Rightarrow> string \<Rightarrow> bool" where
  "topology_ok ns gs deflt \<longleftrightarrow> ns \<noteq> [] \<and> distinct (ns @ map gc_name gs) \<and> [] \<notin> set (ns @ map gc_name gs) \<and>
     (\<forall>g \<in> set gs. group_refs_ok (set ns) g \<and> acknowledged g \<and> shadow_fits (set ns) g) \<and> deflt \<in> set (ns @ map gc_name gs)"

lemma topology_sources_Inr:
  "topology_sources names ds = Inr leaves \<longleftrightarrow>
     distinct (map dc_name ds) \<and> dc_name ` set ds \<inter> names = {} \<and> [] \<notin> dc_name ` set ds \<and> [] \<notin> dc_type ` set ds \<and>
     leaves = names \<union> dc_name ` set ds"
  by (induction names ds rule: topology_sources.induct) auto

lemma topology_names_Inr:
  "topology_names names gs = Inr all \<longleftrightarrow>
     distinct (map gc_name gs) \<and> gc_name ` set gs \<inter> names = {} \<and> [] \<notin> gc_name ` set gs \<and> all = names \<union> gc_name ` set gs"
  by (induction names gs rule: topology_names.induct) auto

lemma no_failed_check: "find (\<lambda>(ok, path, msg). \<not> ok) cs = None \<longleftrightarrow> list_all fst cs"
  by (induction cs) auto

lemma topology_group_None:
  "topology_group leaves ig = None \<longleftrightarrow>
     group_refs_ok leaves (snd ig) \<and> acknowledged (snd ig) \<and> shadow_fits leaves (snd ig) \<and> (\<forall>r \<in> set (gc_replicas (snd ig)). 1 \<le> rc_weight r)"
proof -
  have l: "list_all (\<lambda>r. rc_name r \<in> leaves \<and> 1 \<le> rc_weight r) rs \<longleftrightarrow>
      (\<forall>r \<in> set rs. rc_name r \<in> leaves) \<and> (\<forall>r \<in> set rs. 1 \<le> rc_weight r)"
    "list_all (\<lambda>p. p \<in> leaves) ps \<longleftrightarrow> set ps \<subseteq> leaves" "list_all (\<lambda>r. rc_name r \<noteq> sh) rs \<longleftrightarrow> sh \<notin> rc_name ` set rs" for rs ps sh
    by (auto simp: list_all_iff)
  have "list_all fst (group_checks leaves g) \<longleftrightarrow>
      group_refs_ok leaves g \<and> acknowledged g \<and> shadow_fits leaves g \<and> (\<forall>r \<in> set (gc_replicas g). 1 \<le> rc_weight r)" for g
    unfolding group_checks_def list.pred_inject fst_conv group_refs_ok_def acknowledged_def shadow_fits_def Let_def l
    by (simp only: list.pred_inject(1) simp_thms; argo)
  then show ?thesis by (simp add: topology_group_def no_failed_check)
qed

lemma map_filter_Nil: "List.map_filter f xs = [] \<longleftrightarrow> (\<forall>x \<in> set xs. f x = None)"
  by (induction xs) (auto simp: List.map_filter_simps split: option.splits)

lemma ball_zip_snd: "(\<forall>x \<in> set (zip [0..<length xs] xs). P (snd x)) \<longleftrightarrow> (\<forall>x \<in> set xs. P x)"
proof -
  have "set xs = snd ` set (zip [0..<length xs] xs)" by (simp flip: set_map)
  then show ?thesis by (metis (no_types, lifting) image_iff)
qed

lemma validateTopology_None:
  "validateTopology c = None \<longleftrightarrow>
     topology_ok (map dc_name (cf_datasources c)) (cf_groups c) (cf_default_datasource c) \<and>
     [] \<notin> dc_type ` set (cf_datasources c) \<and> weighted (cf_groups c)"
proof -
  let ?ns = "dc_name ` set (cf_datasources c)" and ?gs = "zip [0..<length (cf_groups c)] (cf_groups c)"
  have g: "List.map_filter (topology_group ?ns) ?gs = [] \<longleftrightarrow>
      (\<forall>g \<in> set (cf_groups c). group_refs_ok ?ns g \<and> acknowledged g \<and> shadow_fits ?ns g \<and> (\<forall>r \<in> set (gc_replicas g). 1 \<le> rc_weight r))"
    unfolding map_filter_Nil topology_group_None by (rule ball_zip_snd)
  have "validateTopology c = None \<longleftrightarrow> cf_datasources c \<noteq> [] \<and> (\<exists>leaves names. topology_sources {} (cf_datasources c) = Inr leaves \<and>
      topology_names leaves (cf_groups c) = Inr names \<and> List.map_filter (topology_group leaves) ?gs = [] \<and>
      cf_default_datasource c \<in> names)"
    by (auto simp: validateTopology_def split: sum.splits list.splits)
  then show ?thesis
    unfolding topology_sources_Inr topology_names_Inr topology_ok_def weighted_def using g
    by (simp add: Int_commute) blast
qed

section \<open>What \<open>init\<close> accepts\<close>

lemma build_sources_ok:
  "\<not> isl (build_sources known cfg limiter reps ds (pools, sources, st)) \<longleftrightarrow>
     distinct (map dc_name ds) \<and> dc_name ` set ds \<inter> fst ` set pools = {} \<and> [] \<notin> dc_name ` set ds \<and> (\<forall>d \<in> set ds. known (dc_type d))"
proof (induction ds arbitrary: pools sources st)
  case (Cons d ds)
  obtain objs n where st: "st = (objs, n)" by (cases st)
  show ?case
  proof (cases "map_of pools (dc_name d) = None \<and> dc_name d \<noteq> [] \<and> known (dc_type d)")
    case True
    then show ?thesis
      by (auto simp: st buildSingleDataSource_def Cons.IH map_of_eq_None_iff)
  next
    case False
    then show ?thesis by (auto simp: st buildSingleDataSource_def map_of_eq_None_iff weak_map_of_SomeI)
  qed
qed simp

lemma build_sources_names:
  "build_sources known cfg limiter reps ds (pools, sources, st) = Inr (pools', sources', st') \<Longrightarrow>
     fst ` set pools' = dc_name ` set ds \<union> fst ` set pools \<and> fst ` set sources' = dc_name ` set ds \<union> fst ` set sources"
proof (induction ds arbitrary: pools sources st)
  case (Cons d ds)
  obtain p i objs n where "build_sources known cfg limiter reps ds ((dc_name d, p) # pools, (dc_name d, i) # sources, (objs, n)) =
      Inr (pools', sources', st')"
    using Cons.prems by (auto split: if_splits sum.splits prod.splits)
  from Cons.IH [OF this] show ?case by auto
qed simp

text \<open>A leaf has no shadow.\<close>

lemma build_sources_no_shadow:
  assumes "build_sources known cfg limiter reps ds (pools, sources, st) = Inr (pools', sources', (objs', n'))"
    and "\<forall>(s, i) \<in> set sources. i < snd st \<and> o_shadowName (fst st i) = []"
  shows "\<forall>(s, i) \<in> set sources'. o_shadowName (objs' i) = []"
  using assms
proof (induction ds arbitrary: pools sources st)
  case Nil
  then show ?case by auto
next
  case (Cons d ds)
  obtain objs n where st: "st = (objs, n)" by (cases st)
  obtain ob where b: "build_sources known cfg limiter reps ds ((dc_name d, n) # pools, (dc_name d, n + 1) # sources,
      (objs(n + 1 := ob), n + 2)) = Inr (pools', sources', (objs', n'))" and ob: "o_shadowName ob = []"
    using Cons.prems(1) unfolding st
    by (auto simp: buildSingleDataSource_def split: if_splits)
  show ?case by (rule Cons.IH [OF b]) (use Cons.prems(2) ob in \<open>auto simp: st\<close>)
qed

lemma validateGroupRefs_status: "status_ok (validateGroupRefs g pools) \<longleftrightarrow> group_refs_ok (fst ` set pools) g"
proof -
  have m: "map_of pools x \<noteq> None \<longleftrightarrow> x \<in> fst ` set pools" for x by (simp add: map_of_eq_None_iff)
  have s: "\<not> status_ok (config_error msg)" for msg by (simp add: status_ok_def error_def)
  have o: "status_ok OK" by (simp add: status_ok_def OK_def)
  show ?thesis
    by (auto simp: validateGroupRefs_def group_refs_ok_def Let_def m s o find_None_iff find_Some_iff split: option.splits simp del: not_None_eq
      dest: subsetD [OF _ nth_mem])
qed

lemma map_of_dom: "map_of xs k = Some v \<Longrightarrow> k \<in> fst ` set xs"
  by (force dest: map_of_SomeD)

lemma weighted_replicas_ok:
  "\<not> isl (weighted_replicas name sources rs) \<longleftrightarrow> (\<forall>r \<in> set rs. rc_name r \<in> fst ` set sources)"
  by (induction rs) (auto simp: map_of_eq_None_iff split: option.splits sum.splits dest: map_of_dom)

lemma weighted_replicas_set:
  "weighted_replicas name sources rs = Inr js \<Longrightarrow> \<forall>r \<in> set rs. 1 \<le> rc_weight r \<Longrightarrow>
     set js = {i. \<exists>r \<in> set rs. map_of sources (rc_name r) = Some i}"
proof (induction rs arbitrary: js)
  case (Cons r rs)
  then obtain i js' where "map_of sources (rc_name r) = Some i" "weighted_replicas name sources rs = Inr js'"
    "js = replicate (nat (rc_weight r)) i @ js'"
    by (auto split: option.splits sum.splits)
  then show ?case using Cons by auto
qed simp

lemma failover_candidates_ok:
  "set cs \<subseteq> fst ` set sources \<Longrightarrow> \<not> isl (failover_candidates name sources seen cs)"
proof (induction name sources seen cs rule: failover_candidates.induct)
  case (2 g sources seen c cs)
  then have "\<exists>i. map_of sources c = Some i" by (simp add: map_of_eq_None_iff flip: not_None_eq)
  then obtain i where "map_of sources c = Some i" ..
  then show ?case using 2 by (cases "failover_candidates g sources (insert c seen) cs") auto
qed simp

lemma build_group_ok:
  assumes "group_refs_ok (fst ` set sources) g"
  shows "\<not> isl (buildSingleDataSourceGroup g limiter cursor sources st) \<longleftrightarrow>
    gc_name g \<noteq> [] \<and> \<not> (gc_read_only g \<and> wbc_enabled (write_buffer (gc_failover g)))"
proof -
  obtain objs n where st: "st = (objs, n)" by (cases st)
  have r: "map_of sources (gc_primary g) \<noteq> None" "\<not> isl (weighted_replicas (gc_name g) sources (gc_replicas g))"
    "\<not> isl (failover_candidates (gc_name g) sources {gc_primary g} (fo_primaries (gc_failover g)))"
    using assms by (auto simp: group_refs_ok_def map_of_eq_None_iff weighted_replicas_ok failover_candidates_ok)
  then obtain p js fs where
    "map_of sources (gc_primary g) = Some p" "weighted_replicas (gc_name g) sources (gc_replicas g) = Inr js"
    "failover_candidates (gc_name g) sources {gc_primary g} (fo_primaries (gc_failover g)) = Inr fs"
    by (metis isl_def not_None_eq obj_sumE)
  then show ?thesis by (simp add: buildSingleDataSourceGroup_def st Let_def)
qed

text \<open>The object that is built for a group, over the registered leaves.\<close>

definition group_image :: "(ident \<Rightarrow> 'l DataSource_obj) \<Rightarrow> names \<Rightarrow> DataSourceGroupConfig \<Rightarrow> ident \<Rightarrow> bool" where
  "group_image objs leaves g i \<longleftrightarrow> o_shadowName (objs i) = gc_shadow g \<and> o_primary (objs i) = map_of leaves (gc_primary g) \<and>
     set (o_replicas (objs i)) = {j. \<exists>r \<in> set (gc_replicas g). map_of leaves (rc_name r) = Some j}"

lemma build_group_image:
  assumes "buildSingleDataSourceGroup g limiter cursor (G @ L) (objs, n) = Inr ((i, buf), (objs', n'))"
    and "group_refs_ok (fst ` set L) g" and "fst ` set G \<inter> fst ` set L = {}" and "\<forall>r \<in> set (gc_replicas g). 1 \<le> rc_weight r"
  shows "group_image objs' L g i \<and> i = n + 1 \<and> n' = n + 2 \<and> objs' = objs(i := objs' i)"
proof -
  have m: "map_of (G @ L) x = map_of L x" if "x \<in> fst ` set L" for x
  proof -
    have "map_of G x = None" using that assms(3) by (auto simp: map_of_eq_None_iff)
    then show ?thesis by (simp add: map_add_def)
  qed
  obtain p js where p: "map_of (G @ L) (gc_primary g) = Some p" and ws: "weighted_replicas (gc_name g) (G @ L) (gc_replicas g) = Inr js"
    and r: "i = n + 1" "n' = n + 2" "objs' = objs(i := objs' i)" "o_primary (objs' i) = Some p" "o_replicas (objs' i) = js"
      "o_shadowName (objs' i) = gc_shadow g"
    using assms(1) by (auto simp: buildSingleDataSourceGroup_def Let_def split: if_splits option.splits sum.splits)
  have "set js = {j. \<exists>r \<in> set (gc_replicas g). map_of L (rc_name r) = Some j}"
    using weighted_replicas_set [OF ws assms(4)] assms(2) m by (auto simp: group_refs_ok_def)
  then show ?thesis using r p assms(2) m by (simp add: group_image_def group_refs_ok_def)
qed

lemma group_refs_ok_mono: "group_refs_ok A g \<Longrightarrow> A \<subseteq> B \<Longrightarrow> group_refs_ok B g"
  by (auto simp: group_refs_ok_def)

lemma build_groups_ok:
  assumes "fst ` set pools \<subseteq> fst ` set sources"
  shows "\<not> isl (build_groups cfg limiter pools gs (sources, bufs, st)) \<longleftrightarrow>
    distinct (map gc_name gs) \<and> gc_name ` set gs \<inter> fst ` set sources = {} \<and> [] \<notin> gc_name ` set gs \<and>
    (\<forall>g \<in> set gs. group_refs_ok (fst ` set pools) g \<and> acknowledged g)"
  using assms
proof (induction gs arbitrary: sources bufs st)
  case (Cons g gs)
  let ?ok = "gc_name g \<notin> fst ` set sources \<and> gc_name g \<noteq> [] \<and> group_refs_ok (fst ` set pools) g \<and> acknowledged g"
  show ?case
  proof (cases ?ok)
    case True
    then have r: "group_refs_ok (fst ` set sources) g" using Cons.prems by (blast intro: group_refs_ok_mono)
    have "\<not> isl (buildSingleDataSourceGroup g limiter default_cursor sources st)"
      using True by (auto simp: build_group_ok [OF r] acknowledged_def Let_def)
    then obtain i buf objs n where "buildSingleDataSourceGroup g limiter default_cursor sources st = Inr ((i, buf), (objs, n))"
      by (metis isl_def obj_sumE surj_pair)
    moreover have "map_of sources (gc_name g) = None" using True by (simp add: map_of_eq_None_iff)
    moreover have "status_ok (validateGroupRefs g pools)" using True by (simp add: validateGroupRefs_status)
    moreover have "fst ` set pools \<subseteq> fst ` set ((gc_name g, i) # sources)" using Cons.prems by auto
    ultimately show ?thesis using True Cons.IH by (auto simp: acknowledged_def Let_def)
  next
    case False
    have "isl (build_groups cfg limiter pools (g # gs) (sources, bufs, st))"
    proof (cases "map_of sources (gc_name g) = None \<and> status_ok (validateGroupRefs g pools)")
      case True
      then have r: "group_refs_ok (fst ` set sources) g" using Cons.prems by (auto simp: validateGroupRefs_status intro: group_refs_ok_mono)
      show ?thesis using False True build_group_ok [OF r, of limiter default_cursor st]
        by (cases "buildSingleDataSourceGroup g limiter default_cursor sources st")
          (auto simp: acknowledged_def Let_def validateGroupRefs_status map_of_eq_None_iff)
    qed (auto simp: Let_def)
    then show ?thesis using False by auto
  qed
qed simp

lemma group_image_cong: "objs' i = objs i \<Longrightarrow> group_image objs' L g i = group_image objs L g i"
  by (simp add: group_image_def)

lemma build_groups_image:
  assumes "build_groups cfg limiter pools gs (G @ L, bufs, (objs, n)) = Inr (sources', bufs', (objs', n'))"
    and "fst ` set G \<inter> fst ` set L = {}" and "fst ` set pools = fst ` set L" and "weighted gs"
  shows "\<exists>G'. sources' = G' @ G @ L \<and> list_all2 (\<lambda>(s, i) g. s = gc_name g \<and> group_image objs' L g i) G' (rev gs) \<and>
    (\<forall>j < n. objs' j = objs j)"
  using assms
proof (induction gs arbitrary: G bufs objs n)
  case (Cons g gs)
  obtain i buf objs1 n1 where b: "buildSingleDataSourceGroup g limiter default_cursor (G @ L) (objs, n) = Inr ((i, buf), (objs1, n1))"
    and ok: "map_of (G @ L) (gc_name g) = None" "status_ok (validateGroupRefs g pools)"
    using Cons.prems(1) by (auto simp: Let_def split: if_splits sum.splits prod.splits)
  have refs: "group_refs_ok (fst ` set L) g" using ok(2) Cons.prems(3) by (simp add: validateGroupRefs_status)
  have w: "\<forall>r \<in> set (gc_replicas g). 1 \<le> rc_weight r" "weighted gs" using Cons.prems(4) by (auto simp: weighted_def)
  have im: "group_image objs1 L g i" "i = n + 1" "n1 = n + 2" "objs1 = objs(i := objs1 i)"
    using build_group_image [OF b refs Cons.prems(2) w(1)] by blast+
  let ?objs = "objs1(i := (objs1 i)\<lparr>o_inheritsLimiter := gl_rate_limit cfg = None\<rparr>)"
  have step: "build_groups cfg limiter pools gs (((gc_name g, i) # G) @ L, bufs @ (case buf of None \<Rightarrow> [] | Some b \<Rightarrow> [b]), (?objs, n1)) =
      Inr (sources', bufs', (objs', n'))"
    using Cons.prems(1) b ok by (auto simp: Let_def split: if_splits)
  have dis: "fst ` set ((gc_name g, i) # G) \<inter> fst ` set L = {}" using ok(1) Cons.prems(2) by (auto simp: map_of_eq_None_iff)
  obtain G' where G': "sources' = G' @ ((gc_name g, i) # G) @ L"
      "list_all2 (\<lambda>(s, i) g. s = gc_name g \<and> group_image objs' L g i) G' (rev gs)" "\<forall>j < n1. objs' j = ?objs j"
    using Cons.IH [OF step dis Cons.prems(3) w(2)] by blast
  have "group_image ?objs L g i" using im(1) by (simp add: group_image_def)
  then have "group_image objs' L g i" using G'(3) im(2,3) group_image_cong [of objs' i ?objs] by simp
  moreover have "\<forall>j < n. objs' j = objs j"
  proof (intro allI impI)
    fix j
    assume "j < n"
    then have "j \<noteq> i" "j < n1" using im(2,3) by auto
    then show "objs' j = objs j" using G'(3) im(4) by (metis fun_upd_other)
  qed
  ultimately show ?case using G' by (intro exI [of _ "G' @ [(gc_name g, i)]"]) (simp add: list_all2_appendI)
qed auto

lemma shadow_error_shadow [simp]:
  "shadow_error sources (objs(i := (objs i)\<lparr>o_shadow := x\<rparr>)) ds = shadow_error sources objs ds"
  "shadow_error sources objs (ds\<lparr>o_shadow := y\<rparr>) = shadow_error sources objs ds"
proof -
  have "o_primary ((objs(i := (objs i)\<lparr>o_shadow := x\<rparr>)) j) = o_primary (objs j)" for j by simp
  then show "shadow_error sources (objs(i := (objs i)\<lparr>o_shadow := x\<rparr>)) ds = shadow_error sources objs ds"
    unfolding shadow_error_def by presburger
  show "shadow_error sources objs (ds\<lparr>o_shadow := y\<rparr>) = shadow_error sources objs ds"
    by (simp add: shadow_error_def cong: if_cong option.case_cong)
qed

lemma resolve_loop_ok:
  "status_ok (fst (resolve_loop sources xs objs)) \<longleftrightarrow>
     (\<forall>(n, i) \<in> set xs. o_shadowName (objs i) = [] \<or> \<not> isl (shadow_error sources objs (objs i)))"
proof (induction sources xs objs rule: resolve_loop.induct)
  case (2 sources n i rest objs)
  have bad: "\<not> status_ok e" if "shadow_error sources objs (objs i) = Inl e" for e
    using that by (auto simp: shadow_error_def Let_def status_ok_def error_def split: option.splits if_splits)
  have upd: "shadow_error sources (objs(i := (objs i)\<lparr>o_shadow := x\<rparr>)) ((objs(i := (objs i)\<lparr>o_shadow := x\<rparr>)) j) =
      shadow_error sources objs (objs j)" for x j
    by simp
  show ?case
  proof (cases "o_shadowName (objs i) = []")
    case True
    then show ?thesis using 2(1) by simp
  next
    case False
    show ?thesis
    proof (cases "shadow_error sources objs (objs i)")
      case (Inl e)
      then show ?thesis using False bad by simp
    next
      case (Inr t)
      have "o_shadowName ((objs(i := (objs i)\<lparr>o_shadow := Some t\<rparr>)) j) = o_shadowName (objs j)" for j by simp
      note rest = 2(2) [OF False Inr, unfolded upd this]
      have r: "resolve_loop sources ((n, i) # rest) objs = resolve_loop sources rest (objs(i := (objs i)\<lparr>o_shadow := Some t\<rparr>))"
        using False Inr by simp
      show ?thesis unfolding r rest using Inr by simp
    qed
  qed
qed (simp add: status_ok_def OK_def)

lemma inherit_limiter_shadowName [simp]: "o_shadowName (inherit_limiter sources limiter objs i) = o_shadowName (objs i)"
proof -
  have "o_shadowName (fold (\<lambda>(n, i) objs. if o_inheritsLimiter (objs i) then objs(i := (objs i)\<lparr>o_rateLimiter := limiter\<rparr>) else objs)
      xs objs j) = o_shadowName (objs j)" for xs :: names and objs :: "ident \<Rightarrow> 'a DataSource_obj" and j
    by (induction xs arbitrary: objs) auto
  then show ?thesis by (simp add: inherit_limiter_def)
qed

text \<open>The shadow of a group that was built is resolved exactly when its name fits.\<close>

lemma shadow_resolves:
  assumes "linked objs pools sources" and "sources = G @ L" and "fst ` set G \<inter> fst ` set L = {}" and "fst ` set pools = fst ` set L"
    and "(s, i) \<in> set sources" and "group_image objs L g i" and "group_refs_ok (fst ` set L) g" and "gc_shadow g \<noteq> []"
  shows "\<not> isl (shadow_error sources objs (objs i)) \<longleftrightarrow> shadow_fits (fst ` set L) g"
proof -
  let ?n = "gc_shadow g"
  have leaf: "(\<exists>j. map_of sources n = Some j \<and> o_primary (objs j) = None) \<longleftrightarrow> n \<in> fst ` set L" for n
  proof
    assume "\<exists>j. map_of sources n = Some j \<and> o_primary (objs j) = None"
    then obtain j where j: "map_of sources n = Some j" "o_primary (objs j) = None" by blast
    from linked_entry [OF assms(1) map_of_SomeD [OF j(1)]] j(2) assms(4) show "n \<in> fst ` set L"
      by (force simp: entry_ok_def)
  next
    assume "n \<in> fst ` set L"
    then obtain p where "map_of pools n = Some p" using assms(4) by (metis map_of_eq_None_iff not_None_eq)
    from linked_lookup [OF assms(1) this] show "\<exists>j. map_of sources n = Some j \<and> o_primary (objs j) = None" by blast
  qed
  have m: "map_of sources x = map_of L x" if "x \<in> fst ` set L" for x
  proof -
    have "map_of G x = None" using that assms(3) by (auto simp: map_of_eq_None_iff)
    then show ?thesis by (simp add: assms(2) map_add_def)
  qed
  have same: "map_of sources x = Some j \<Longrightarrow> map_of sources y = Some j \<Longrightarrow> x = y" for x y j
    using linked_entry [OF assms(1) map_of_SomeD] by (metis entry_ok_def)
  have sn: "o_shadowName (objs i) = ?n" using assms(6) by (simp add: group_image_def)
  show ?thesis
  proof (cases "?n \<in> fst ` set L")
    case False
    then show ?thesis using leaf [of ?n] assms(8)
      by (auto simp: shadow_error_def Let_def sn shadow_fits_def split: option.splits)
  next
    case True
    then obtain j where j: "map_of sources ?n = Some j" "o_primary (objs j) = None" using leaf by blast
    have "o_primary (objs i) = map_of sources (gc_primary g)" using assms(6,7) m by (simp add: group_image_def group_refs_ok_def)
    then have p: "o_primary (objs i) = Some j \<longleftrightarrow> ?n = gc_primary g" using j(1) same by metis
    have "set (o_replicas (objs i)) = {j. \<exists>r \<in> set (gc_replicas g). map_of sources (rc_name r) = Some j}"
      using assms(6,7) m by (auto simp: group_image_def group_refs_ok_def)
    then have r: "j \<in> set (o_replicas (objs i)) \<longleftrightarrow> ?n \<in> rc_name ` set (gc_replicas g)"
      using j(1) same by (auto simp: image_iff) metis+
    show ?thesis using True j p r assms(8) by (auto simp: shadow_error_def Let_def sn shadow_fits_def)
  qed
qed

lemma error_not_ok: "c \<noteq> Ok \<Longrightarrow> \<not> status_ok (error c msg)"
  by (simp add: status_ok_def error_def)

lemma build_sources_bad: "build_sources known cfg limiter reps ds x = Inl e \<Longrightarrow> \<not> status_ok e"
  by (induction known cfg limiter reps ds x rule: build_sources.induct)
    (auto simp: buildSingleDataSource_def error_not_ok split: if_splits prod.splits sum.splits)

lemma weighted_replicas_bad: "weighted_replicas g sources rs = Inl e \<Longrightarrow> \<not> status_ok e"
  by (induction g sources rs rule: weighted_replicas.induct) (auto simp: error_not_ok split: option.splits sum.splits)

lemma failover_candidates_bad: "failover_candidates g sources seen cs = Inl e \<Longrightarrow> \<not> status_ok e"
  by (induction g sources seen cs rule: failover_candidates.induct) (auto simp: error_not_ok split: option.splits sum.splits if_splits)

lemma map_sum_Inl: "map_sum h k r = Inl e \<longleftrightarrow> (\<exists>x. r = Inl x \<and> e = h x)"
  by (cases r) auto

lemma build_group_bad: "buildSingleDataSourceGroup g limiter cursor sources st = Inl e \<Longrightarrow> \<not> status_ok e"
  by (cases st)
    (auto simp: buildSingleDataSourceGroup_def Let_def error_not_ok map_sum_Inl
      split: if_splits option.splits sum.splits dest: weighted_replicas_bad failover_candidates_bad)

lemma build_groups_bad: "build_groups cfg limiter pools gs x = Inl e \<Longrightarrow> \<not> status_ok e"
proof (induction cfg limiter pools gs x rule: build_groups.induct)
  case (2 cfg limiter pools g gs sources buffers st)
  then show ?case
    by (auto simp: Let_def fencing_error_def buffering_error_def error_not_ok
        split: if_splits sum.splits prod.splits dest: build_group_bad)
qed simp

lemma group_names: "list_all2 (\<lambda>(s, i) g. s = gc_name g \<and> P g i) G gs \<Longrightarrow> fst ` set G = gc_name ` set gs"
  by (induction rule: list_all2_induct) auto

text \<open>The registry that \<open>init\<close> builds: the leaves under the groups, and the image of every group.\<close>

lemma built_registry:
  assumes "build_sources known cfg limiter reps ds ([], [], (objs, n)) = Inr (pools, L, st)"
    and "build_groups cfg limiter pools gs (L, [], st) = Inr (sources, bufs, (objs', n'))" and "weighted gs"
  shows "linked objs' pools sources \<and> fst ` set pools = dc_name ` set ds \<and> fst ` set L = dc_name ` set ds \<and>
    (\<exists>G. sources = G @ L \<and> fst ` set G \<inter> fst ` set L = {} \<and>
       list_all2 (\<lambda>(s, i) g. s = gc_name g \<and> group_image objs' L g i) G (rev gs)) \<and>
    (\<forall>(s, i) \<in> set L. o_shadowName (objs' i) = [])"
proof -
  obtain objs1 n1 where st: "st = (objs1, n1)" by (cases st)
  have b0: "built n objs [] [] (objs, n)" by (simp add: built_def linked_def)
  from build_sources_built [OF assms(1) this] have b1: "built n objs pools L (objs1, n1)" by (simp add: st)
  from build_groups_built [OF assms(2) [unfolded st] this] have b2: "built n objs pools sources (objs', n')" .
  have names: "fst ` set pools = dc_name ` set ds" "fst ` set L = dc_name ` set ds" using build_sources_names [OF assms(1)] by auto
  obtain G where G: "sources = G @ L" "list_all2 (\<lambda>(s, i) g. s = gc_name g \<and> group_image objs' L g i) G (rev gs)"
      "\<forall>j < n1. objs' j = objs1 j"
    using build_groups_image [of cfg limiter pools gs "[]" L "[]" objs1 n1] assms(2,3) names by (auto simp: st)
  have "\<not> isl (build_groups cfg limiter pools gs (L, [], st))" using assms(2) by simp
  then have d: "gc_name ` set gs \<inter> fst ` set L = {}" using build_groups_ok [of pools L cfg limiter gs "[]" st] names by simp
  have dis: "fst ` set G \<inter> fst ` set L = {}" using d group_names [OF G(2)] by simp
  have "\<forall>(s, i) \<in> set L. i < n1" using b1 by (auto simp: built_def within_def)
  then have "\<forall>(s, i) \<in> set L. o_shadowName (objs' i) = []"
    using build_sources_no_shadow [of known cfg limiter reps ds "[]" "[]" "(objs, n)" pools L objs1 n1] assms(1) G(3) by (fastforce simp: st)
  then show ?thesis using b2 names G(1,2) dis by (auto simp: built_def)
qed

lemma list_all2_ball1: "list_all2 R xs ys \<Longrightarrow> (\<And>x y. R x y \<Longrightarrow> P x = Q y) \<Longrightarrow> (\<forall>x \<in> set xs. P x) = (\<forall>y \<in> set ys. Q y)"
  by (induction rule: list_all2_induct) auto

lemma list_all2_conj_right: "list_all2 R xs ys \<Longrightarrow> (\<forall>y \<in> set ys. Q y) \<Longrightarrow> list_all2 (\<lambda>x y. R x y \<and> Q y \<and> x \<in> set xs) xs ys"
  by (auto simp: list_all2_conv_all_nth)

lemma built_shadows:
  assumes "build_sources known cfg limiter reps ds ([], [], (objs, n)) = Inr (pools, L, st)"
    and "build_groups cfg limiter pools gs (L, [], st) = Inr (sources, bufs, st2)" and "weighted gs"
  shows "status_ok (fst (resolveShadows (installed cfg pools sources bufs st2 m))) \<longleftrightarrow> (\<forall>g \<in> set gs. shadow_fits (dc_name ` set ds) g)"
proof -
  obtain objs' n' where st2: "st2 = (objs', n')" by (cases st2)
  note br = built_registry [OF assms(1) assms(2) [unfolded st2] assms(3)]
  then obtain G where G: "sources = G @ L" "fst ` set G \<inter> fst ` set L = {}"
     "list_all2 (\<lambda>(s, i) g. s = gc_name g \<and> group_image objs' L g i) G (rev gs)" by blast
  let ?o = "inherit_limiter sources (m_defaultLimiter m) objs'"
  have lk: "linked ?o pools sources" using br linked_cong [of ?o objs'] by simp
  have names: "fst ` set pools = fst ` set L" "fst ` set L = dc_name ` set ds" using br by auto
  have gi: "group_image ?o L g i = group_image objs' L g i" for g i
    using inherit_limiter_links [of sources "m_defaultLimiter m" objs' i] by (simp add: group_image_def links_def)
  have "\<not> isl (build_groups cfg limiter pools gs (L, [], st))" using assms(2) by simp
  then have refs: "\<forall>g \<in> set (rev gs). group_refs_ok (fst ` set L) g" using build_groups_ok [of pools L cfg limiter gs "[]" st] names by simp
  have "(\<forall>(s, i) \<in> set sources. o_shadowName (?o i) = [] \<or> \<not> isl (shadow_error sources ?o (?o i))) \<longleftrightarrow>
      (\<forall>(s, i) \<in> set G. o_shadowName (?o i) = [] \<or> \<not> isl (shadow_error sources ?o (?o i)))"
    using br G(1) by auto
  also have "\<dots> \<longleftrightarrow> (\<forall>g \<in> set (rev gs). shadow_fits (dc_name ` set ds) g)"
  proof (rule list_all2_ball1 [OF list_all2_conj_right [OF G(3) refs]])
    fix x g
    assume *: "(case x of (s, i) \<Rightarrow> \<lambda>g. s = gc_name g \<and> group_image objs' L g i) g \<and> group_refs_ok (fst ` set L) g \<and> x \<in> set G"
    obtain s i where x: "x = (s, i)" by (cases x)
    have im: "group_image ?o L g i" "(s, i) \<in> set sources" "group_refs_ok (fst ` set L) g" using * G(1) x gi by auto
    have sn: "o_shadowName (?o i) = gc_shadow g" using im(1) by (simp add: group_image_def)
    show "(case x of (s, i) \<Rightarrow> o_shadowName (?o i) = [] \<or> \<not> isl (shadow_error sources ?o (?o i))) =
        shadow_fits (dc_name ` set ds) g"
    proof (cases "gc_shadow g = []")
      case True
      then show ?thesis using sn x by (simp add: shadow_fits_def)
    next
      case False
      then show ?thesis using shadow_resolves [OF lk G(1,2) names(1) im(2,1,3) False] sn x names(2) by simp
    qed
  qed
  finally show ?thesis by (simp add: resolveShadows_def installed_def st2 resolve_loop_ok split_beta)
qed

lemma init_accepts:
  assumes "weighted (gl_groups cfg)"
  shows "status_ok (fst (init known cfg m)) \<longleftrightarrow>
    topology_ok (map dc_name (gl_datasources cfg)) (gl_groups cfg) (default_datasource cfg) \<and>
    (\<forall>d \<in> set (gl_datasources cfg). known (dc_type d))"
proof (cases "gl_datasources cfg = []")
  case True
  then show ?thesis by (simp add: init_def topology_ok_def error_not_ok)
next
  case ne: False
  let ?ds = "gl_datasources cfg" and ?gs = "gl_groups cfg" and ?l = "configured_limiter cfg (m_defaultLimiter m)"
  let ?r = "rc_name ` set (concat (map gc_replicas ?gs))"
  let ?S = "build_sources known cfg ?l ?r ?ds ([], [], (m_objs m, m_next m))"
  note sok = build_sources_ok [of known cfg ?l ?r ?ds "[]" "[]" "(m_objs m, m_next m)"]
  show ?thesis
  proof (cases ?S)
    case (Inl e)
    then show ?thesis using ne sok build_sources_bad [OF Inl] by (auto simp: init_def Let_def topology_ok_def)
  next
    case (Inr x)
    then obtain pools L st where S: "?S = Inr (pools, L, st)" by (cases x) auto
    have names: "fst ` set pools = dc_name ` set ?ds" "fst ` set L = dc_name ` set ?ds" using build_sources_names [OF S] by auto
    let ?G = "build_groups cfg ?l pools ?gs (L, [], st)"
    note gok = build_groups_ok [of pools L cfg ?l ?gs "[]" st]
    show ?thesis
    proof (cases ?G)
      case (Inl e)
      then have "\<not> topology_ok (map dc_name ?ds) ?gs (default_datasource cfg)"
        using gok names by (auto simp: topology_ok_def)
      then show ?thesis using ne S Inl build_groups_bad [OF Inl] by (simp add: init_def Let_def)
    next
      case (Inr y)
      then obtain sources bufs st2 where G: "?G = Inr (sources, bufs, st2)" by (cases y) auto
      obtain objs' n' where st2: "st2 = (objs', n')" by (cases st2)
      have all: "fst ` set sources = set (map dc_name ?ds @ map gc_name ?gs)"
      proof -
        obtain H where "sources = H @ L" and H: "list_all2 (\<lambda>(s, i) g. s = gc_name g \<and> group_image objs' L g i) H (rev ?gs)"
          using built_registry [OF S G [unfolded st2] assms] by blast
        then show ?thesis using names group_names [OF H] by auto
      qed
      have base: "distinct (map dc_name ?ds @ map gc_name ?gs) \<and> [] \<notin> set (map dc_name ?ds @ map gc_name ?gs) \<and>
          (\<forall>g \<in> set ?gs. group_refs_ok (set (map dc_name ?ds)) g \<and> acknowledged g) \<and> (\<forall>d \<in> set ?ds. known (dc_type d))"
        using sok gok S G names by auto
      note sh = built_shadows [OF S G assms, of m]
      have "status_ok (fst (init known cfg m)) \<longleftrightarrow>
          default_datasource cfg \<in> fst ` set sources \<and> status_ok (fst (resolveShadows (installed cfg pools sources bufs st2 m)))"
        using ne S G by (auto simp: init_def Let_def error_not_ok map_of_eq_None_iff status_ok_def OK_def split: prod.splits)
      then show ?thesis using ne base sh all by (auto simp: topology_ok_def)
    qed
  qed
qed

lemma truncate_source [simp]: "dc_name (DataSourceConfig.truncate d) = dc_name d" "dc_type (DataSourceConfig.truncate d) = dc_type d"
  by (simp_all add: DataSourceConfig.truncate_def)

lemma registry_config_simps [simp]:
  "map dc_name (gl_datasources (registry_config now c)) = map dc_name (cf_datasources c)"
  "gl_groups (registry_config now c) = cf_groups c" "default_datasource (registry_config now c) = cf_default_datasource c"
  "(\<forall>d \<in> set (gl_datasources (registry_config now c)). known (dc_type d)) \<longleftrightarrow> (\<forall>d \<in> set (cf_datasources c). known (dc_type d))"
  by (simp_all add: registry_config_def comp_def)

text \<open>
  A configuration file that loads is accepted by the offline check and names known drivers only, exactly when
  \<open>init\<close> with it succeeds, whatever is registered already.
\<close>

text \<open>
  For a configuration file that loads, validateTopology accepts it and every driver type is
  known exactly when init with it succeeds, whatever is registered already: the offline check
  neither misses nor invents an error of the topology.
\<close>

theorem offline_check_agrees:
  assumes "loadFromFile g jp getenv files path = Inr c"
  shows "status_ok (fst (init known (registry_config now c) m)) \<longleftrightarrow>
    validateTopology c = None \<and> (\<forall>d \<in> set (cf_datasources c). known (dc_type d))"
proof -
  have "config_valid c" using assms by (auto simp: loadFromFile_def split: option.splits sum.splits intro: load_document_valid)
  then have "weighted (cf_groups c)" "[] \<notin> dc_type ` set (cf_datasources c)"
    by (auto simp: config_valid_def group_valid_def source_valid_def weighted_def)
  then show ?thesis using init_accepts [of "registry_config now c" known m] by (simp add: validateTopology_None)
qed

lemma sample_topology: "validateTopology sample_loaded = None" "\<forall>d \<in> set (cf_datasources sample_loaded). dc_type d = ''mysql''"
  by (auto simp: validateTopology_None topology_ok_def weighted_def group_refs_ok_def acknowledged_def shadow_fits_def Let_def
      sample_loaded_def main_source_def copy_source_def app_group_def default_group_def default_source_def)

theorem offline_check_agrees_witness:
  "status_ok (fst (init (\<lambda>t. t = ''mysql'') (registry_config 0 sample_loaded) (new_manager sample_services))) \<and>
   \<not> status_ok (fst (init (\<lambda>t. t = ''oracle'') (registry_config 0 sample_loaded) (new_manager sample_services)))"
  using sample_topology offline_check_agrees [OF sample_loads] by (simp add: sample_loaded_def main_source_def)

section \<open>Descriptions without secrets\<close>

definition describe :: "SourceConfig \<Rightarrow> string" where
  "describe c =
     dc_name c @ ''['' @ dc_type c @ '']'' @
     (if sc_dsn c \<noteq> [] then '' dsn='' @ sc_dsn c
      else '' '' @ sc_host c @ '':'' @ to_string_int (sc_port c) @ ''/'' @ sc_database c) @
     '' user='' @ sc_user c"

text \<open>Each occurrence of the secret, from the left; the search goes on behind the stars.\<close>

function replaceAll :: "string \<Rightarrow> string \<Rightarrow> string" where
  "replaceAll secret txt =
     (if secret = [] then txt
      else case str_find secret txt of
        None \<Rightarrow> txt
      | Some k \<Rightarrow> take k txt @ ''***'' @ replaceAll secret (drop (k + length secret) txt))"
  by pat_completeness auto
termination
  by (relation "measure (\<lambda>(secret, txt). length txt)") (auto dest!: str_find_bound simp flip: length_greater_0_conv)

declare replaceAll.simps [simp del]

definition redact :: "SourceConfig \<Rightarrow> string \<Rightarrow> string" where
  "redact c txt =
     (let t = replaceAll (sc_password c) txt in
      case map_of (sc_extra c) ''connection_string'' of None \<Rightarrow> t | Some s \<Rightarrow> replaceAll s t)"

lemma sublist_around:
  assumes "sublist p (a @ x # b)" and "x \<notin> set p"
  shows "sublist p a \<or> sublist p b"
proof -
  have pre: "prefix q (x # b) \<Longrightarrow> set q \<subseteq> set p \<Longrightarrow> q = []" for q using assms(2) by (cases q) auto
  from assms(1) consider "sublist p a" | "sublist p (x # b)" | q r where "p = q @ r" "suffix q a" "prefix r (x # b)"
    by (auto simp: sublist_append)
  then show ?thesis
  proof cases
    case 2
    then show ?thesis using pre [of p] by (auto simp: sublist_Cons_right)
  next
    case 3
    then have "p = q" using pre [of r] by auto
    then show ?thesis using 3(2) by auto
  qed auto
qed

lemma sublist_around_stars: "sublist p (a @ ''***'' @ b) \<Longrightarrow> CHR ''*'' \<notin> set p \<Longrightarrow> p \<noteq> [] \<Longrightarrow> sublist p a \<or> sublist p b"
  using sublist_around [of p a "CHR ''*''" "''**'' @ b"] sublist_around [of p "[]" "CHR ''*''" "CHR ''*'' # b"]
    sublist_around [of p "[]" "CHR ''*''" b] by auto

lemma sublist_at: "sublist p t \<Longrightarrow> \<exists>j. j + length p \<le> length t \<and> prefix p (drop j t)"
proof -
  assume "sublist p t"
  then obtain a b where "t = a @ p @ b" by (auto simp: sublist_def)
  then show ?thesis by (intro exI [of _ "length a"]) simp
qed

lemma before_first: "str_find s t = Some k \<Longrightarrow> s \<noteq> [] \<Longrightarrow> \<not> sublist s (take k t)"
proof
  assume f: "str_find s t = Some k" "s \<noteq> []" "sublist s (take k t)"
  then obtain j where j: "j + length s \<le> length (take k t)" "prefix s (drop j (take k t))" using sublist_at by blast
  then have "j < k" using f(2) by (cases s) auto
  moreover have "prefix s (drop j t)" using j(2) by (metis drop_take prefix_order.trans take_is_prefix)
  ultimately show False using str_find_first [OF f(1)] by blast
qed

lemma replaceAll_removes: "s \<noteq> [] \<Longrightarrow> CHR ''*'' \<notin> set s \<Longrightarrow> \<not> sublist s (replaceAll s t)"
proof (induction s t rule: replaceAll.induct)
  case (1 s t)
  show ?case
  proof (cases "str_find s t")
    case None
    then have "\<not> sublist s t" using str_find_None sublist_at by (metis add_leD1)
    then show ?thesis using None 1(2) by (simp add: replaceAll.simps)
  next
    case (Some k)
    have r: "replaceAll s t = take k t @ ''***'' @ replaceAll s (drop (k + length s) t)"
      using Some 1(2) by (subst replaceAll.simps) simp
    show ?thesis unfolding r
      using sublist_around_stars 1(1) [OF 1(2) Some 1(2,3)] before_first [OF Some 1(2)] 1(2,3) by blast
  qed
qed

lemma replaceAll_no_new: "sublist p (replaceAll s t) \<Longrightarrow> CHR ''*'' \<notin> set p \<Longrightarrow> p \<noteq> [] \<Longrightarrow> sublist p t"
proof (induction s t rule: replaceAll.induct)
  case (1 s t)
  show ?case
  proof (cases "s = [] \<or> str_find s t = None")
    case True
    then have "replaceAll s t = t" by (auto simp: replaceAll.simps)
    then show ?thesis using 1(2) by simp
  next
    case False
    then obtain k where k: "s \<noteq> []" "str_find s t = Some k" by auto
    then have "replaceAll s t = take k t @ ''***'' @ replaceAll s (drop (k + length s) t)"
      by (subst replaceAll.simps) simp
    then have "sublist p (take k t) \<or> sublist p (drop (k + length s) t)"
      using 1(1) [OF k] 1(2-4) sublist_around_stars by metis
    then show ?thesis by (meson sublist_drop sublist_order.order_trans sublist_take)
  qed
qed

text \<open>
  The password of a source, when it contains no star, does not occur in a message that \<open>redact\<close> has treated,
  and no piece of text without stars occurs there that was not in the message.
\<close>

text \<open>
  C40: The password of a source, when it is not empty and contains no star, does not occur in a
  text that redact has treated.
\<close>

theorem redact_hides_password:
  assumes "sc_password c \<noteq> []" and "CHR ''*'' \<notin> set (sc_password c)"
  shows "\<not> sublist (sc_password c) (redact c txt)"
  using replaceAll_removes [OF assms] replaceAll_no_new [OF _ assms(2,1)]
  by (auto simp: redact_def Let_def split: option.splits)

theorem redact_hides_password_witness:
  "\<not> sublist ''s3cret'' (redact main_source ''access denied: s3cret'')"
  using redact_hides_password [of main_source "''access denied: s3cret''"] by (simp add: main_source_def)

text \<open>A connection string that contains the password is no longer found once the password is replaced: the rest of it stays.\<close>

theorem redact_leaves_connection_string:
  "redact (main_source\<lparr>sc_password := ''pw'', sc_extra := [(''connection_string'', ''UID=app;PWD=pw'')]\<rparr>) ''bad: UID=app;PWD=pw'' =
     ''bad: UID=app;PWD=***'' \<and>
   redact (main_source\<lparr>sc_password := [], sc_extra := [(''connection_string'', ''UID=app;PWD=pw'')]\<rparr>) ''bad: UID=app;PWD=pw'' =
     ''bad: ***''"
  by (simp add: redact_def main_source_def default_source_def replaceAll.simps)

text \<open>The description that is logged holds the whole \<^verbatim>\<open>dsn\<close>, which \<open>explain\<close> treats as a secret.\<close>

lemma describe_shows_dsn: "sc_dsn c \<noteq> [] \<Longrightarrow> sublist (sc_dsn c) (describe c)"
  unfolding sublist_def
  by (rule exI [of _ "dc_name c @ ''['' @ dc_type c @ ''] dsn=''"], rule exI [of _ "'' user='' @ sc_user c"]) (simp add: describe_def)

section \<open>The effective configuration\<close>

abbreviation JInt :: "int \<Rightarrow> json" where
  "JInt n \<equiv> JNum (to_string_int n)"

abbreviation redacted :: json where
  "redacted \<equiv> JStr ''[redacted]''"

definition explain_pool :: "PoolConfig \<Rightarrow> json" where
  "explain_pool p = JObj
     [(''enabled'', JBool (pc_enabled p)), (''min'', JInt (pc_min p)), (''max'', JInt (pc_max p)),
      (''borrow_timeout_ms'', JInt (pc_borrow_timeout_ms p)), (''idle_timeout_ms'', JInt (pc_idle_timeout_ms p)),
      (''max_lifetime_ms'', JInt (pc_max_lifetime_ms p)), (''leak_detection_threshold_ms'', JInt (pc_leak_detection_threshold_ms p)),
      (''validation_interval_ms'', JInt (pc_validation_interval_ms p))]"

definition explain_observability :: "(rat \<Rightarrow> string) \<Rightarrow> ObservabilityConfig \<Rightarrow> json" where
  "explain_observability dbl ob =
     (let sl = ob_sql_log ob; ss = ob_slow_sql ob; sr = ob_stats_report ob in JObj
        [(''sql_log'', JObj
            [(''enabled'', JBool (sl_enabled sl)), (''mode'', JStr (sl_mode sl)), (''level'', JStr (sl_level sl)),
             (''log_success'', JBool (sl_log_success sl)), (''log_errors'', JBool (sl_log_errors sl)),
             (''slow_only'', JBool (sl_slow_only sl)), (''sample_rate'', JNum (dbl (sl_sample_rate sl))),
             (''max_sql_length'', JInt (sl_max_sql_length sl)), (''max_param_length'', JInt (sl_max_param_length sl)),
             (''include_string_values'', JBool (sl_include_string_values sl)),
             (''include_blob_values'', JBool (sl_include_blob_values sl))]),
         (''slow_sql'', JObj
            [(''enabled'', JBool (ss_enabled ss)), (''threshold_ms'', JInt (ss_threshold_ms ss)),
             (''aggregate_capacity'', JInt (ss_aggregate_capacity ss)), (''recent_capacity'', JInt (ss_recent_capacity ss)),
             (''retain_rendered_sql'', JBool (ss_retain_rendered_sql ss)), (''max_sql_length'', JInt (ss_max_sql_length ss)),
             (''histogram_buckets_ms'', JArr (map JInt (ss_histogram_buckets_ms ss)))]),
         (''pool_metrics'', JObj [(''enabled'', JBool (ob_pool_metrics ob))]),
         (''stats_report'', JObj
            [(''enabled'', JBool (sr_enabled sr)), (''interval_ms'', JInt (sr_interval_ms sr)), (''file'', JStr (sr_file sr)),
             (''format'', JStr (sr_format sr)), (''include_pool'', JBool (sr_include_pool sr)),
             (''include_slow_sql'', JBool (sr_include_slow_sql sr)), (''slow_sql_limit'', JInt (sr_slow_sql_limit sr))])])"

definition explain_source :: "SourceConfig \<Rightarrow> json" where
  "explain_source d =
     (let r = sc_oracle d in JObj
        [(''name'', JStr (dc_name d)), (''type'', JStr (dc_type d)), (''host'', JStr (sc_host d)), (''port'', JInt (sc_port d)),
         (''user'', JStr (sc_user d)), (''database'', JStr (sc_database d)), (''password'', redacted),
         (''password_env'', JStr (sc_password_env d)), (''dsn'', if sc_dsn d = [] then JStr [] else redacted),
         (''connection_timeout_ms'', JInt (sc_connection_timeout_ms d)), (''socket_timeout_ms'', JInt (sc_socket_timeout_ms d)),
         (''query_timeout_ms'', JInt (sc_query_timeout_ms d)), (''max_result_rows'', JInt (sc_max_result_rows d)),
         (''extra'', JObj (map (\<lambda>(k, v). (k, redacted)) (sc_extra d))),
         (''tls'', JObj
            [(''enabled'', JBool (sc_tls_enabled d)), (''verify_peer'', JBool (sc_tls_verify_peer d)), (''ca'', JStr (sc_tls_ca d)),
             (''cert'', JStr (sc_tls_cert d)), (''key'', redacted)]),
         (''oracle'', JObj
            [(''service_name'', JStr (or_service_name r)), (''sid'', JStr (or_sid r)),
             (''wallet_location'', if or_wallet_location r = [] then JStr [] else redacted),
             (''server_cert_dn'', JStr (or_server_cert_dn r)), (''charset_id'', JInt (or_charset_id r)),
             (''lob_max_bytes'', JInt (or_lob_max_bytes r)), (''blob_bind'', JStr (or_blob_bind r))])])"

definition explain_group :: "DataSourceGroupConfig \<Rightarrow> json" where
  "explain_group g =
     (let f = gc_failover g; w = write_buffer f in JObj
        [(''name'', JStr (gc_name g)), (''primary'', JStr (gc_primary g)),
         (''replicas'', JArr (map (\<lambda>v. JObj [(''name'', JStr (rc_name v)), (''weight'', JInt (rc_weight v))]) (gc_replicas g))),
         (''read_after_write_ms'', JInt (read_after_write_ms g)), (''fallback_to_primary'', JBool (fallback_to_primary g)),
         (''read_only'', JBool (gc_read_only g)), (''shadow'', JStr (gc_shadow g)),
         (''failover'', JObj
            [(''primaries'', JArr (map JStr (fo_primaries f))),
             (''acknowledge_external_fencing'', JBool (acknowledge_external_fencing f)), (''require_healthy'', JBool (require_healthy f)),
             (''write_buffer'', JObj
                [(''enabled'', JBool (wbc_enabled w)),
                 (''acknowledge_data_loss_and_duplicates'', JBool (acknowledge_data_loss_and_duplicates f)),
                 (''max_queue'', JInt (max_queue w)), (''ttl_ms'', JInt (wbc_ttl_ms w)), (''flush_interval_ms'', JInt (flush_interval_ms w))])])])"

definition explain_value :: "(rat \<Rightarrow> string) \<Rightarrow> LoadedConfig \<Rightarrow> (string \<times> json) list" where
  "explain_value dbl c =
     (let r = cf_retry c; b = cf_circuit_breaker c; a = cf_async c; cu = cf_cursor c; rl = cf_rate_limit c; au = cf_sql_audit c;
          qc = cf_query_cache c
      in [(''pool'', explain_pool (cf_pool c)),
          (''retry'', JObj [(''max_attempts'', JInt (max_attempts r)), (''initial_backoff_ms'', JInt (initial_backoff_ms r)),
             (''max_backoff_ms'', JInt (max_backoff_ms r)), (''retry_writes'', JBool (retry_writes r))]),
          (''circuit_breaker'', JObj [(''failure_threshold'', JInt (failure_threshold b)), (''open_interval_ms'', JInt (open_interval_ms b))]),
          (''async'', JObj [(''enabled'', JBool (as_enabled a)), (''threads'', JInt (as_threads a)),
             (''queue_size'', JInt (as_queue_size a)), (''statement_timeout_ms'', JInt (as_statement_timeout_ms a))]),
          (''cursor'', JObj [(''enabled'', JBool (cu_enabled cu)), (''default_batch_size'', JInt (cu_default_batch_size cu)),
             (''max_open_cursors'', JInt (cu_max_open_cursors cu)), (''allow_scrollable'', JBool (cu_allow_scrollable cu))]),
          (''prepared_cache'', JObj [(''enabled'', JBool (pp_enabled (cf_prepared_cache c))),
             (''max_per_connection'', JInt (pp_max_per_connection (cf_prepared_cache c)))]),
          (''interceptors'', JObj [(''enabled'', JBool (cf_interceptors c))]),
          (''rate_limit'', JObj [(''enabled'', JBool (rlc_enabled rl)), (''global_qps'', JInt (rlc_global_qps rl)),
             (''per_fingerprint_qps'', JInt (rlc_per_fingerprint_qps rl)), (''burst'', JInt (rlc_burst rl)),
             (''fingerprint_mode'', JStr (rlc_fingerprint_mode rl))]),
          (''sql_audit'', JObj [(''enabled'', JBool (ac_enabled au)), (''action'', JStr (ac_action au)),
             (''block_no_where_dml'', JBool (ac_block_no_where_dml au)), (''require_limit_select'', JBool (ac_require_limit_select au)),
             (''enforce_read_only'', JBool (ac_enforce_read_only au)), (''log_blocked'', JBool (ac_log_blocked au)),
             (''blacklist_fingerprints'', JArr (map (\<lambda>w. JNum (to_string (unat w))) (ac_blacklist_fingerprints au))),
             (''whitelist_fingerprints'', JArr (map (\<lambda>w. JNum (to_string (unat w))) (ac_whitelist_fingerprints au)))]),
          (''query_cache'', JObj [(''enabled'', JBool (qcc_enabled qc)), (''ttl_ms'', JInt (ttl_ms qc)),
             (''max_entries'', JInt (max_entries qc)), (''max_memory_bytes'', JInt (max_memory_bytes qc)),
             (''cache_on_replica_only'', JBool (cache_on_replica_only qc))]),
          (''observability'', explain_observability dbl (cf_observability c)),
          (''default_datasource'', JStr (cf_default_datasource c)), (''heartbeat_interval_ms'', JInt (cf_heartbeat_interval_ms c)),
          (''datasources'', JArr (map explain_source (cf_datasources c))), (''groups'', JArr (map explain_group (cf_groups c)))])"

definition explain :: "(json \<Rightarrow> string) \<Rightarrow> (rat \<Rightarrow> string) \<Rightarrow> LoadedConfig \<Rightarrow> string" where
  "explain dump dbl c = dump (JObj (explain_value dbl c))"

text \<open>The same source with its secrets blanked out.\<close>

definition mask :: "string \<Rightarrow> string" where
  "mask s = (if s = [] then [] else ''?'')"

definition blanked :: "SourceConfig \<Rightarrow> SourceConfig" where
  "blanked d = d\<lparr>sc_password := [], sc_dsn := mask (sc_dsn d), sc_tls_key := [], sc_extra := map (\<lambda>(k, v). (k, [])) (sc_extra d),
     sc_oracle := (sc_oracle d)\<lparr>or_wallet_location := mask (or_wallet_location (sc_oracle d))\<rparr>\<rparr>"

lemma explain_blanked: "explain_source (blanked d) = explain_source d"
  by (simp add: explain_source_def blanked_def mask_def Let_def split_def comp_def)

text \<open>
  The effective configuration that is printed is the same when every password, TLS key, DSN, wallet location and extra value
  is blanked out: none of them can be read off it.
\<close>

text \<open>
  The effective configuration that explain prints is the same when every password, TLS key, DSN,
  wallet location and extra value is blanked out, so none of them can be read off it.
\<close>

theorem explain_hides_secrets:
  "explain dump dbl (c\<lparr>cf_datasources := map blanked (cf_datasources c)\<rparr>) = explain dump dbl c"
  by (simp add: explain_def explain_value_def explain_blanked comp_def)

section \<open>Previewing a reload\<close>

text \<open>Assignment to a member of an object, and to a member of a member.\<close>

definition member :: "string \<Rightarrow> json \<Rightarrow> json \<Rightarrow> json" where
  "member key v j = (case j of JObj kvs \<Rightarrow> JObj (AList.update key v kvs) | _ \<Rightarrow> j)"

definition at_member :: "string \<Rightarrow> (json \<Rightarrow> json) \<Rightarrow> json \<Rightarrow> json" where
  "at_member key f j = (case j of
     JObj kvs \<Rightarrow> (case map_of kvs key of Some v \<Rightarrow> JObj (AList.update key (f v) kvs) | None \<Rightarrow> j)
   | _ \<Rightarrow> j)"

definition comparable_source :: "SourceConfig \<Rightarrow> json" where
  "comparable_source d =
     member ''extra'' (JObj (map (\<lambda>(k, v). (k, JStr v)) (sc_extra d)))
       (at_member ''oracle'' (member ''wallet_location'' (JStr (or_wallet_location (sc_oracle d))))
         (at_member ''tls'' (member ''key'' (JStr (sc_tls_key d)))
           (member ''dsn'' (JStr (sc_dsn d)) (member ''password'' (JStr (sc_password d)) (explain_source d)))))"

definition comparable :: "(rat \<Rightarrow> string) \<Rightarrow> LoadedConfig \<Rightarrow> json" where
  "comparable dbl c = JObj
     (AList.update ''groups'' (JObj (fold (\<lambda>g. AList.update (gc_name g) (explain_group g)) (cf_groups c) []))
       (AList.update ''datasources'' (JObj (fold (\<lambda>d. AList.update (dc_name d) (comparable_source d)) (cf_datasources c) []))
         (explain_value dbl c)))"

definition all_names :: "LoadedConfig \<Rightarrow> string set" where
  "all_names c = dc_name ` set (cf_datasources c) \<union> gc_name ` set (cf_groups c)"

definition name_array :: "string list \<Rightarrow> json" where
  "name_array ns = JArr (map JStr ns)"

text \<open>
  The report; the difference of two values is the patch of the JSON library, of which only the operations and the paths are kept.
\<close>

definition preview_report :: "(json \<Rightarrow> json \<Rightarrow> (string \<times> string) list) \<Rightarrow> (rat \<Rightarrow> string) \<Rightarrow> LoadedConfig \<Rightarrow> LoadedConfig \<Rightarrow> object" where
  "preview_report diff dbl cur cand =
     (let changes = diff (comparable dbl cur) (comparable dbl cand);
          old = all_names cur; new = all_names cand
      in [(''ok'', JBool True), (''applied'', JBool False), (''offline'', JBool True), (''changed'', JBool (changes \<noteq> [])),
          (''changes'', JArr (map (\<lambda>(operation, path). JObj [(''op'', JStr operation), (''path'', JStr path)]) changes)),
          (''addedSources'', name_array (sorted_list_of_set (new - old))),
          (''removedSources'', name_array (sorted_list_of_set (old - new))),
          (''rebuiltPools'', name_array (map dc_name (cf_datasources cand))),
          (''retiredPools'', name_array (map dc_name (cf_datasources cur))),
          (''allPoolsRebuilt'', JBool True), (''requiresLiveValidation'', JBool True),
          (''inFlightPolicy'', JStr ''Old pools drain within the grace period supplied to Client::reload; do not assume unlimited completion or replay''),
          (''failurePolicy'', JStr ''Candidate topology is built before replacement; offline validation cannot prove driver availability or connectivity'')])"

definition previewReload :: "(json \<Rightarrow> string) \<Rightarrow> (json \<Rightarrow> json \<Rightarrow> (string \<times> string) list) \<Rightarrow> (rat \<Rightarrow> string) \<Rightarrow> LoadedConfig \<Rightarrow>
    LoadedConfig \<Rightarrow> string + string" where
  "previewReload dump diff dbl cur cand =
     (case validateTopology cur of
        Some e \<Rightarrow> Inl e
      | None \<Rightarrow>
          (case validateTopology cand of
             Some e \<Rightarrow> Inl e
           | None \<Rightarrow> Inr (dump (JObj (preview_report diff dbl cur cand)))))"

lemma comparable_source_secrets:
  assumes "comparable_source d = comparable_source d'"
  shows "sc_password d = sc_password d' \<and> sc_dsn d = sc_dsn d' \<and> sc_tls_key d = sc_tls_key d' \<and>
    or_wallet_location (sc_oracle d) = or_wallet_location (sc_oracle d') \<and> sc_extra d = sc_extra d'"
proof -
  have inj: "map (\<lambda>(k, v). (k, JStr v)) xs = map (\<lambda>(k, v). (k, JStr v)) ys \<Longrightarrow> xs = ys" for xs ys :: "(string \<times> string) list"
    by (rule map_injective) (auto simp: inj_on_def)
  show ?thesis
    using assms by (auto simp: comparable_source_def explain_source_def Let_def member_def at_member_def dest: inj)
qed

lemma fold_update_other: "n \<notin> f ` set xs \<Longrightarrow> map_of (fold (\<lambda>x. AList.update (f x) (h x)) xs kvs) n = map_of kvs n"
  by (induction xs arbitrary: kvs) (auto simp: AList.update_conv')

lemma fold_update_lookup:
  assumes "distinct (map f xs)" and "x \<in> set xs"
  shows "map_of (fold (\<lambda>x. AList.update (f x) (h x)) xs kvs) (f x) = Some (h x)"
  using assms
proof (induction xs arbitrary: kvs)
  case (Cons y ys)
  then show ?case by (cases "x = y") (auto simp: fold_update_other AList.update_conv')
qed simp

lemma comparable_datasources:
  "comparable dbl c = comparable dbl c' \<Longrightarrow>
    fold (\<lambda>d. AList.update (dc_name d) (comparable_source d)) (cf_datasources c) [] =
    fold (\<lambda>d. AList.update (dc_name d) (comparable_source d)) (cf_datasources c') []"
  by (simp add: comparable_def explain_value_def Let_def)

text \<open>
  A secret of a source that the candidate changes is reported as a change, although no secret is printed, provided the
  patch between two values is empty for equal values only.
\<close>

text \<open>
  A reload preview between two valid configurations reports a change whenever a source of the
  same name has another password, DSN, TLS key, wallet location or extra settings, provided the
  patch of the JSON library is empty for equal values only.
\<close>

theorem preview_sees_rotation:
  assumes "validateTopology cur = None" and "validateTopology cand = None" and "\<And>a b. diff a b = [] \<Longrightarrow> a = b"
    and "d \<in> set (cf_datasources cur)" and "d' \<in> set (cf_datasources cand)" and "dc_name d' = dc_name d"
    and "(sc_password d, sc_dsn d, sc_tls_key d, or_wallet_location (sc_oracle d), sc_extra d) \<noteq>
         (sc_password d', sc_dsn d', sc_tls_key d', or_wallet_location (sc_oracle d'), sc_extra d')"
  shows "\<exists>report. previewReload dump diff dbl cur cand = Inr (dump (JObj report)) \<and> map_of report ''changed'' = Some (JBool True)"
proof -
  have dist: "distinct (map dc_name (cf_datasources cur))" "distinct (map dc_name (cf_datasources cand))"
    using assms(1,2) by (auto simp: validateTopology_None topology_ok_def)
  have "comparable_source d \<noteq> comparable_source d'" using comparable_source_secrets [of d d'] assms(7) by auto
  then have "comparable dbl cur \<noteq> comparable dbl cand"
    using comparable_datasources [of dbl cur cand] assms(6)
      fold_update_lookup [OF dist(1) assms(4), of comparable_source "[]"] fold_update_lookup [OF dist(2) assms(5), of comparable_source "[]"]
    by auto
  then have "diff (comparable dbl cur) (comparable dbl cand) \<noteq> []" using assms(3) by blast
  then have "map_of (preview_report diff dbl cur cand) ''changed'' = Some (JBool True)" by (simp add: preview_report_def Let_def)
  then show ?thesis using assms(1,2) by (auto simp: previewReload_def)
qed

definition changed_only :: "json \<Rightarrow> string" where
  "changed_only j = (case j of
     JObj r \<Rightarrow> (case map_of r ''changed'' of Some (JBool b) \<Rightarrow> if b then ''yes'' else ''no'' | _ \<Rightarrow> []) | _ \<Rightarrow> [])"

theorem preview_sees_rotation_witness:
  "previewReload changed_only (\<lambda>a b. if a = b then [] else [(''replace'', [])]) (\<lambda>_. ''1.0'') sample_loaded
     (sample_loaded\<lparr>cf_datasources := [main_source\<lparr>sc_password := ''rotated''\<rparr>, copy_source]\<rparr>) = Inr ''yes''"
proof -
  let ?d = "main_source\<lparr>sc_password := ''rotated''\<rparr>" and ?diff = "\<lambda>a b :: json. if a = b then [] else [(''replace'', [] :: string)]"
  let ?cand = "sample_loaded\<lparr>cf_datasources := [?d, copy_source]\<rparr>"
  have v: "validateTopology ?cand = None"
    using sample_topology by (simp add: validateTopology_None sample_loaded_def main_source_def)
  have "\<exists>report. previewReload changed_only ?diff (\<lambda>_. ''1.0'') sample_loaded ?cand = Inr (changed_only (JObj report)) \<and>
      map_of report ''changed'' = Some (JBool True)"
  proof (rule preview_sees_rotation [OF sample_topology(1) v])
    show "main_source \<in> set (cf_datasources sample_loaded)" "?d \<in> set (cf_datasources ?cand)" by (simp_all add: sample_loaded_def)
    show "dc_name ?d = dc_name main_source" by simp
    show "(sc_password main_source, sc_dsn main_source, sc_tls_key main_source, or_wallet_location (sc_oracle main_source), sc_extra main_source) \<noteq>
        (sc_password ?d, sc_dsn ?d, sc_tls_key ?d, or_wallet_location (sc_oracle ?d), sc_extra ?d)" by (simp add: main_source_def)
  qed (simp split: if_splits)
  then show ?thesis by (auto simp: changed_only_def)
qed

text \<open>A reload of the configuration that is in use reports no change, and no source added or removed.\<close>

lemma preview_unchanged:
  assumes "validateTopology c = None" and "\<And>a. diff a a = []"
  shows "\<exists>report. previewReload dump diff dbl c c = Inr (dump (JObj report)) \<and> map_of report ''changed'' = Some (JBool False) \<and>
    map_of report ''addedSources'' = Some (JArr []) \<and> map_of report ''removedSources'' = Some (JArr [])"
  using assms by (intro exI [of _ "preview_report diff dbl c c"]) (simp add: previewReload_def preview_report_def name_array_def Let_def)

end
