(* ===== verification/Client.thy ===== *)
theory Client
  imports ConfigDiagnostics NamedParams SqlBuilder
begin

text \<open>
  The client: \<^verbatim>\<open>client.cpp\<close> and \<^verbatim>\<open>driver/driver_registry.cpp\<close>. Its life cycle over the registry of \<open>Registry\<close> and the
  loader of \<open>ConfigLoader\<close>, the resolution of a source, the synchronous calls that are forwarded to it and the
  control flow of the asynchronous ones. A client that was moved from has no state: \<open>None\<close>. The operations of
  a source are parameters (they are the subject of \<open>DataSource\<close>, \<open>SourceSessions\<close> and \<open>AsyncEngine\<close>), as are the
  answers of the executor, the time that has passed and the target that the current context names. Statistics and
  diagnostics, which only report, are not modelled. Each critical section of the life cycle is one function; a call
  that checks the state first and acts later without the lock is split into its two parts.
\<close>

section \<open>Drivers\<close>

text \<open>The types with a factory, and whether the factory yields a driver.\<close>

type_synonym DriverRegistry = "(string \<times> bool) list"

definition registerDriver :: "string \<Rightarrow> bool \<Rightarrow> DriverRegistry \<Rightarrow> DriverRegistry" where
  "registerDriver type fn r = AList.update type fn r"

definition has_driver :: "string \<Rightarrow> DriverRegistry \<Rightarrow> bool" where
  "has_driver type r \<longleftrightarrow> map_of r type \<noteq> None"

definition create_driver :: "string \<Rightarrow> DriverRegistry \<Rightarrow> bool" where
  "create_driver type r = (case map_of r type of None \<Rightarrow> False | Some fn \<Rightarrow> fn)"

section \<open>State\<close>

datatype State = Empty | Running | Closed

record client_executor =
  xc_ident :: nat
  xc_threads :: int
  xc_queue_size :: int

record Impl =
  cl_drivers :: DriverRegistry
  cl_manager :: "RateLimiter Manager"
  cl_asyncExecutor :: "client_executor option"
  cl_made :: nat
  cl_stopped :: "nat set"
  cl_asyncTimeoutMs :: int
  cl_state :: State
  cl_sqlAuditEnabled :: bool
  cl_rateLimitEnabled :: bool
  cl_configSource :: nat

type_synonym Client = "Impl option"

definition notInitialized :: Status where
  "notInitialized = error NotInitialized ''client is not initialized''"

definition clientClosed :: Status where
  "clientClosed = error ClientClosed ''client is closed''"

definition dataSourceNotFound :: "string \<Rightarrow> Status" where
  "dataSourceNotFound name =
     config_error (if name = [] then ''no default datasource'' else ''datasource not found: '' @ name)"

definition validateAsyncConfig :: "AsyncConfig \<Rightarrow> Status" where
  "validateAsyncConfig c =
     (if as_threads c < 0 \<or> as_queue_size c < 1 \<or> as_statement_timeout_ms c < 0
      then config_error ''invalid async configuration'' else OK)"

definition requireRunning :: "Impl \<Rightarrow> Status" where
  "requireRunning c = (if cl_state c = Running then OK else if cl_state c = Closed then clientClosed else notInitialized)"

text \<open>\<open>target\<close>: the source that the current context names, which takes precedence.\<close>

definition resolve :: "Impl \<Rightarrow> string \<Rightarrow> string \<Rightarrow> Status + ident" where
  "resolve c target requested =
     (let st = requireRunning c; name = (if target = [] then requested else target) in
      if \<not> status_ok st then Inl st
      else case (if name = [] then getDefault (cl_manager c) else getDataSource name (cl_manager c)) of
        None \<Rightarrow> Inl (dataSourceNotFound name)
      | Some s \<Rightarrow> Inr s)"

section \<open>Life cycle\<close>

definition configureAsync :: "AsyncConfig \<Rightarrow> Impl \<Rightarrow> Impl" where
  "configureAsync cfg c =
     (let c = c\<lparr>cl_asyncTimeoutMs := as_statement_timeout_ms cfg\<rparr> in
      if \<not> as_enabled cfg then
        (case cl_asyncExecutor c of
           None \<Rightarrow> c
         | Some x \<Rightarrow> c\<lparr>cl_asyncExecutor := None, cl_stopped := insert (xc_ident x) (cl_stopped c)\<rparr>)
      else case cl_asyncExecutor c of
        Some x \<Rightarrow> c
      | None \<Rightarrow>
          c\<lparr>cl_asyncExecutor := Some \<lparr>xc_ident = cl_made c, xc_threads = as_threads cfg, xc_queue_size = as_queue_size cfg\<rparr>,
            cl_made := cl_made c + 1\<rparr>)"

definition stopAsync :: "Impl \<Rightarrow> Impl" where
  "stopAsync c =
     (case cl_asyncExecutor c of
        None \<Rightarrow> c
      | Some x \<Rightarrow> c\<lparr>cl_asyncExecutor := None, cl_stopped := insert (xc_ident x) (cl_stopped c)\<rparr>)"

definition client_addDriver :: "string \<Rightarrow> bool option \<Rightarrow> Client \<Rightarrow> Status \<times> Client" where
  "client_addDriver type factory cl =
     (case cl of
        None \<Rightarrow> (clientClosed, cl)
      | Some c \<Rightarrow>
          if type = [] \<or> factory = None then (config_error ''driver registration requires a type and factory'', cl)
          else if cl_state c = Closed then (clientClosed, cl)
          else if cl_state c = Running
          then (error AlreadyInitialized ''drivers must be registered before Client::init()'', cl)
          else (OK, Some (c\<lparr>cl_drivers := registerDriver type (the factory) (cl_drivers c)\<rparr>)))"

text \<open>A driver of the client, or of the registry of the process.\<close>

definition client_knows :: "DriverRegistry \<Rightarrow> Impl \<Rightarrow> string \<Rightarrow> bool" where
  "client_knows global c type \<longleftrightarrow> create_driver type (cl_drivers c) \<or> create_driver type global"

text \<open>What a successful \<open>init\<close> of the registry is followed by.\<close>

definition adopt :: "LoadedConfig \<Rightarrow> bool \<Rightarrow> RateLimiter Manager \<Rightarrow> Impl \<Rightarrow> Impl" where
  "adopt cfg from_file m c =
     (configureAsync (cf_async cfg) (c\<lparr>cl_manager := m\<rparr>))
       \<lparr>cl_sqlAuditEnabled := ac_enabled (cf_sql_audit cfg), cl_rateLimitEnabled := rlc_enabled (cf_rate_limit cfg),
        cl_configSource := (if from_file then 1 else 2)\<rparr>"

definition initResolved :: "DriverRegistry \<Rightarrow> int \<Rightarrow> LoadedConfig \<Rightarrow> bool \<Rightarrow> Client \<Rightarrow> Status \<times> Client" where
  "initResolved global now cfg from_file cl =
     (case cl of
        None \<Rightarrow> (clientClosed, cl)
      | Some c \<Rightarrow>
          let v = validateAsyncConfig (cf_async cfg) in
          if \<not> status_ok v then (v, cl)
          else if cl_state c = Closed then (clientClosed, cl)
          else if cl_state c = Running
          then (error AlreadyInitialized ''client is already initialized; use reload()'', cl)
          else case init (client_knows global c) (registry_config now cfg) (cl_manager c) of (st, m) \<Rightarrow>
            if status_ok st then (st, Some ((adopt cfg from_file m c)\<lparr>cl_state := Running\<rparr>))
            else (st, Some (c\<lparr>cl_manager := m\<rparr>)))"

definition reloadResolved :: "DriverRegistry \<Rightarrow> int \<Rightarrow> LoadedConfig \<Rightarrow> bool \<Rightarrow> Client \<Rightarrow> Status \<times> Client" where
  "reloadResolved global now cfg from_file cl =
     (case cl of
        None \<Rightarrow> (clientClosed, cl)
      | Some c \<Rightarrow>
          let v = validateAsyncConfig (cf_async cfg); r = requireRunning c in
          if \<not> status_ok v then (v, cl)
          else if \<not> status_ok r then (r, cl)
          else case init (client_knows global c) (registry_config now cfg) (cl_manager c) of (st, m) \<Rightarrow>
            if status_ok st then (st, Some (adopt cfg from_file m c)) else (st, Some (c\<lparr>cl_manager := m\<rparr>)))"

text \<open>The overloads that read a file.\<close>

definition from_path :: "string + LoadedConfig \<Rightarrow> (LoadedConfig \<Rightarrow> bool \<Rightarrow> Client \<Rightarrow> Status \<times> Client) \<Rightarrow> Client \<Rightarrow> Status \<times> Client" where
  "from_path loaded f cl = (case loaded of Inl e \<Rightarrow> (config_error e, cl) | Inr cfg \<Rightarrow> f cfg True cl)"

definition client_init :: "DriverRegistry \<Rightarrow> int \<Rightarrow> LoadedConfig \<Rightarrow> Client \<Rightarrow> Status \<times> Client" where
  "client_init global now cfg cl = initResolved global now cfg False cl"

definition client_reload :: "DriverRegistry \<Rightarrow> int \<Rightarrow> LoadedConfig \<Rightarrow> Client \<Rightarrow> Status \<times> Client" where
  "client_reload global now cfg cl = reloadResolved global now cfg False cl"

definition isRunning :: "Client \<Rightarrow> bool" where
  "isRunning cl = (case cl of None \<Rightarrow> False | Some c \<Rightarrow> cl_state c = Running)"

definition client_shutdown :: "Client \<Rightarrow> Client" where
  "client_shutdown cl =
     (case cl of
        None \<Rightarrow> None
      | Some c \<Rightarrow>
          let closed = c\<lparr>cl_state := Closed\<rparr> in
          Some (if cl_state c = Running
                then (stopAsync closed)\<lparr>cl_manager := shutdown_manager (cl_manager c)\<rparr> else closed))"

text \<open>
  Changes of the registry at run time: the check of the state, and the call of the manager, which does not
  look at it again.
\<close>

definition change_check :: "Client \<Rightarrow> Status" where
  "change_check cl = (case cl of None \<Rightarrow> clientClosed | Some c \<Rightarrow> requireRunning c)"

definition change_apply :: "(RateLimiter Manager \<Rightarrow> Status \<times> RateLimiter Manager) \<Rightarrow> Impl \<Rightarrow> Status \<times> Impl" where
  "change_apply f c = apsnd (\<lambda>m. c\<lparr>cl_manager := m\<rparr>) (f (cl_manager c))"

definition client_change :: "(RateLimiter Manager \<Rightarrow> Status \<times> RateLimiter Manager) \<Rightarrow> Client \<Rightarrow> Status \<times> Client" where
  "client_change f cl =
     (case cl of
        None \<Rightarrow> (clientClosed, cl)
      | Some c \<Rightarrow> let st = change_check cl in if \<not> status_ok st then (st, cl) else apsnd Some (change_apply f c))"

definition client_addDataSource where
  "client_addDataSource global cfg opts cl =
     client_change (addDataSource (client_knows global (the cl)) cfg opts) cl"

definition client_removeDataSource where
  "client_removeDataSource name = client_change (removeDataSource name)"

definition client_addGroup where
  "client_addGroup started cfg opts = client_change (addGroup started cfg opts)"

definition client_removeGroup where
  "client_removeGroup name = client_change (removeGroup name)"

definition client_setDefaultRateLimiter :: "RateLimiter option \<Rightarrow> Client \<Rightarrow> Client" where
  "client_setDefaultRateLimiter limiter = map_option (\<lambda>c. c\<lparr>cl_manager := setDefaultRateLimiter limiter (cl_manager c)\<rparr>)"

section \<open>Synchronous calls\<close>

text \<open>The operations of the registered sources. Each returns its status and its output.\<close>

record ('rows, 'out, 'call, 'batch, 'cursor) source_ops =
  so_query :: "ident \<Rightarrow> string \<Rightarrow> Params option \<Rightarrow> Status \<times> 'rows list"
  so_execute :: "ident \<Rightarrow> string \<Rightarrow> Params option \<Rightarrow> Status \<times> int"
  so_queryAll :: "ident \<Rightarrow> string \<Rightarrow> Params option \<Rightarrow> Status \<times> 'rows list list"
  so_call :: "ident \<Rightarrow> string \<Rightarrow> 'call \<Rightarrow> Status \<times> 'out"
  so_queryEach :: "ident \<Rightarrow> string \<Rightarrow> Params \<Rightarrow> Status \<times> nat"
  so_executeBatch :: "ident \<Rightarrow> string \<Rightarrow> 'batch \<Rightarrow> Status \<times> int list"
  so_openCursor :: "ident \<Rightarrow> string \<Rightarrow> Params \<Rightarrow> Status \<times> 'cursor option"
  so_transaction :: "ident \<Rightarrow> Status"
  so_withSession :: "ident \<Rightarrow> Status"

text \<open>What every call does first; \<open>blank\<close> is the output of a call that does not get to its source.\<close>

definition forwarded :: "Client \<Rightarrow> string \<Rightarrow> string \<Rightarrow> 'a \<Rightarrow> (ident \<Rightarrow> Status \<times> 'a) \<Rightarrow> Status \<times> 'a" where
  "forwarded cl target source blank f =
     (case cl of
        None \<Rightarrow> (clientClosed, blank)
      | Some c \<Rightarrow> (case resolve c target source of Inl st \<Rightarrow> (st, blank) | Inr s \<Rightarrow> f s))"

definition bound_params :: "Params \<Rightarrow> Params option" where
  "bound_params params = (if params = [] then None else Some params)"

definition client_query where
  "client_query ops cl target source sql params = forwarded cl target source [] (\<lambda>s. so_query ops s sql (bound_params params))"

definition client_execute where
  "client_execute ops cl target source sql params = forwarded cl target source 0 (\<lambda>s. so_execute ops s sql (bound_params params))"

definition client_queryAll where
  "client_queryAll ops cl target source sql params = forwarded cl target source [] (\<lambda>s. so_queryAll ops s sql (bound_params params))"

definition client_call where
  "client_call ops cl target source sql params blank = forwarded cl target source blank (\<lambda>s. so_call ops s sql params)"

definition client_queryEach where
  "client_queryEach ops cl target source sql params = forwarded cl target source 0 (\<lambda>s. so_queryEach ops s sql params)"

definition client_executeBatch where
  "client_executeBatch ops cl target source sql batch = forwarded cl target source [] (\<lambda>s. so_executeBatch ops s sql batch)"

definition client_openCursor where
  "client_openCursor ops cl target source sql params = forwarded cl target source None (\<lambda>s. so_openCursor ops s sql params)"

definition client_transaction where
  "client_transaction ops cl target source = fst (forwarded cl target source () (\<lambda>s. (so_transaction ops s, ())))"

definition client_withSession where
  "client_withSession ops cl target source = fst (forwarded cl target source () (\<lambda>s. (so_withSession ops s, ())))"

text \<open>The overloads that return a result: a query that failed has no rows.\<close>

definition query_result where
  "query_result ops cl target source sql params =
     (case client_query ops cl target source sql params of (st, rows) \<Rightarrow> (st, if status_ok st then rows else []))"

definition queryNamed where
  "queryNamed ops cl target source sql named =
     (case bindNamed sql named of
        Inl st \<Rightarrow> (st, [])
      | Inr (bound, params) \<Rightarrow> query_result ops cl target source bound params)"

definition executeNamed where
  "executeNamed ops cl target source sql named =
     (case bindNamed sql named of
        Inl st \<Rightarrow> (st, 0)
      | Inr (bound, params) \<Rightarrow> client_execute ops cl target source bound params)"

definition query_built where
  "query_built ops cl target br =
     (case br of Inl st \<Rightarrow> (st, []) | Inr (sql, params) \<Rightarrow> query_result ops cl target [] sql params)"

definition execute_built where
  "execute_built ops cl target br =
     (case br of Inl st \<Rightarrow> (st, 0) | Inr (sql, params) \<Rightarrow> client_execute ops cl target [] sql params)"

definition client_dataSource :: "Client \<Rightarrow> string \<Rightarrow> string \<Rightarrow> ident option" where
  "client_dataSource cl target name =
     (case cl of
        None \<Rightarrow> None
      | Some c \<Rightarrow> (case resolve c target name of Inl st \<Rightarrow> None | Inr s \<Rightarrow> Some s))"

section \<open>Asynchronous calls\<close>

text \<open>
  The surroundings of one call: whether the operation of the context allows a fallback, whether the executor
  takes the task, and the milliseconds between the start and the end of the operation.
\<close>

record submit_env =
  se_fallbackAllowed :: bool
  se_posted :: bool
  se_elapsed :: int

type_synonym 'r delivered = "(Status \<times> 'r option) \<times> ExecutionMode"

definition fallback_status :: "Status \<Rightarrow> 'r delivered" where
  "fallback_status st = ((st, None), CompatibilityFallback)"

definition async_disabled :: Status where
  "async_disabled = config_error ''async execution is disabled for this client''"

definition client_overloaded :: Status where
  "client_overloaded = (error Overloaded ''client async executor queue is full or stopped'')\<lparr>retryable := True\<rparr>"

definition late_status :: Status where
  "late_status = (error QueryTimeout ''operation exceeded client async statement timeout; driver cancellation is not available in the future API'')
     \<lparr>retryable := True\<rparr>"

definition timeout_status :: Status where
  "timeout_status = (error QueryTimeout ''operation exceeded client async statement timeout'')\<lparr>retryable := True\<rparr>"

definition is_late :: "Impl \<Rightarrow> submit_env \<Rightarrow> bool" where
  "is_late c e \<longleftrightarrow> cl_asyncTimeoutMs c > 0 \<and> se_elapsed e \<ge> cl_asyncTimeoutMs c"

text \<open>\<open>fn\<close> yields a result, or the text of the exception it throws, if it is a standard one.\<close>

definition threw_status :: "string option \<Rightarrow> Status" where
  "threw_status what = error UnknownError
     (case what of Some w \<Rightarrow> ''client async operation threw: '' @ w | None \<Rightarrow> ''client async operation threw an unknown exception'')"

definition async_task :: "Impl \<Rightarrow> submit_env \<Rightarrow> bool \<Rightarrow> (ident \<Rightarrow> string option + (Status \<times> 'r)) \<Rightarrow> ident \<Rightarrow> 'r delivered" where
  "async_task c e lateTimeoutIsError fn s =
     (let r = (case fn s of Inl what \<Rightarrow> (threw_status what, None) | Inr (st, x) \<Rightarrow> (st, Some x)) in
      (if lateTimeoutIsError \<and> is_late c e then (late_status, snd r) else r, CompatibilityFallback))"

definition submitAsync :: "Impl \<Rightarrow> string \<Rightarrow> string \<Rightarrow> ident option \<Rightarrow> submit_env \<Rightarrow> bool \<Rightarrow>
    (ident \<Rightarrow> string option + (Status \<times> 'r)) \<Rightarrow> 'r delivered" where
  "submitAsync c target requested pinned e lateTimeoutIsError fn =
     (case (case pinned of Some s \<Rightarrow> Inr s | None \<Rightarrow> resolve c target requested) of
        Inl st \<Rightarrow> fallback_status st
      | Inr s \<Rightarrow>
          (case cl_asyncExecutor c of
             None \<Rightarrow> fallback_status async_disabled
           | Some x \<Rightarrow>
               if \<not> se_fallbackAllowed e then fallback_status (error NotSupported ''operation requires native async execution'')
               else if \<not> se_posted e then fallback_status client_overloaded
               else async_task c e lateTimeoutIsError fn s))"

text \<open>
  A query, a write, a session and a transaction are first offered to the asynchronous engine, which refuses
  them with \<open>None\<close>. Only the fallback of a query keeps the source that was resolved; \<open>c'\<close> is the client at the time
  of the fallback.
\<close>

definition submitQueryAsync where
  "submitQueryAsync c c' target requested pinned e engine fn =
     (case (case pinned of Some s \<Rightarrow> Inr s | None \<Rightarrow> resolve c target requested) of
        Inl st \<Rightarrow> fallback_status st
      | Inr s \<Rightarrow>
          (case cl_asyncExecutor c of
             None \<Rightarrow> fallback_status async_disabled
           | Some x \<Rightarrow>
               (case engine s of
                  Some (r, mode) \<Rightarrow> ((if is_late c e then timeout_status else fst r, snd r), mode)
                | None \<Rightarrow> submitAsync c' target requested (Some s) e True fn)))"

definition submitExecuteAsync where
  "submitExecuteAsync c c' target requested e engine fn =
     (case resolve c target requested of
        Inl st \<Rightarrow> fallback_status st
      | Inr s \<Rightarrow>
          (case cl_asyncExecutor c of
             None \<Rightarrow> fallback_status async_disabled
           | Some x \<Rightarrow>
               (case engine s of
                  Some r \<Rightarrow> r
                | None \<Rightarrow> submitAsync c' target requested None e False fn)))"

definition submitSessionAsync where
  "submitSessionAsync c c' target requested e lateTimeoutIsError engine fn =
     (case resolve c target requested of
        Inl st \<Rightarrow> fallback_status st
      | Inr s \<Rightarrow>
          (case cl_asyncExecutor c of
             None \<Rightarrow> fallback_status async_disabled
           | Some x \<Rightarrow>
               (case engine s of
                  Some r \<Rightarrow> ((if lateTimeoutIsError \<and> is_late c e then timeout_status else fst r, snd r), CompatibilityFallback)
                | None \<Rightarrow> submitAsync c' target requested None e lateTimeoutIsError fn)))"

definition submitTransactionAsync where
  "submitTransactionAsync c c' target requested e engine fn =
     (case resolve c target requested of
        Inl st \<Rightarrow> fallback_status st
      | Inr s \<Rightarrow>
          (case cl_asyncExecutor c of
             None \<Rightarrow> fallback_status async_disabled
           | Some x \<Rightarrow>
               (case engine s of
                  Some st \<Rightarrow> ((st, Some ()), CompatibilityFallback)
                | None \<Rightarrow> submitAsync c' target requested None e False fn)))"

text \<open>The public entry points; a client that was moved from answers at once.\<close>

definition or_closed :: "Client \<Rightarrow> (Impl \<Rightarrow> 'r delivered) \<Rightarrow> 'r delivered" where
  "or_closed cl f = (case cl of None \<Rightarrow> fallback_status clientClosed | Some c \<Rightarrow> f c)"

definition queryAsync where
  "queryAsync cl c' target source e engine fn = or_closed cl (\<lambda>c. submitQueryAsync c c' target source None e engine fn)"

definition executeAsync where
  "executeAsync cl c' target source e engine fn = or_closed cl (\<lambda>c. submitExecuteAsync c c' target source e engine fn)"

definition queryAllAsync where
  "queryAllAsync cl c' target source e engine fn = or_closed cl (\<lambda>c. submitSessionAsync c c' target source e True engine fn)"

definition executeKeysAsync where
  "executeKeysAsync cl c' target source e engine fn = or_closed cl (\<lambda>c. submitSessionAsync c c' target source e False engine fn)"

definition queryEachAsync where
  "queryEachAsync cl c' target source e engine fn = or_closed cl (\<lambda>c. submitSessionAsync c c' target source e True engine fn)"

definition executeBatchAsync where
  "executeBatchAsync cl c' target source e engine fn = or_closed cl (\<lambda>c. submitSessionAsync c c' target source e False engine fn)"

definition transactionAsync where
  "transactionAsync cl c' target source e engine fn = or_closed cl (\<lambda>c. submitTransactionAsync c c' target source e engine fn)"

definition queryNamedAsync where
  "queryNamedAsync cl c' target source sql named e engine fn =
     (case bindNamed sql named of
        Inl st \<Rightarrow> fallback_status st
      | Inr (bound, params) \<Rightarrow> queryAsync cl c' target source e (engine bound params) (fn bound params))"

definition executeNamedAsync where
  "executeNamedAsync cl c' target source sql named e engine fn =
     (case bindNamed sql named of
        Inl st \<Rightarrow> fallback_status st
      | Inr (bound, params) \<Rightarrow> executeAsync cl c' target source e (engine bound params) (fn bound params))"

definition queryAsync_built where
  "queryAsync_built cl c' target br e engine fn =
     (case br of
        Inl st \<Rightarrow> fallback_status st
      | Inr (sql, params) \<Rightarrow> queryAsync cl c' target [] e (engine sql params) (fn sql params))"

definition executeAsync_built where
  "executeAsync_built cl c' target br e engine fn =
     (case br of
        Inl st \<Rightarrow> fallback_status st
      | Inr (sql, params) \<Rightarrow> executeAsync cl c' target [] e (engine sql params) (fn sql params))"

section \<open>The life cycle of a client\<close>

datatype client_op =
    CAddDriver string "bool option" | CInit LoadedConfig bool | CReload LoadedConfig bool
  | CAddSource DataSourceConfig "RateLimiter DataSourceOptions" | CRemoveSource string
  | CAddGroup bool DataSourceGroupConfig "RateLimiter GroupOptions" | CRemoveGroup string | CSetLimiter "RateLimiter option" | CShutdown

definition client_do :: "DriverRegistry \<Rightarrow> int \<Rightarrow> client_op \<Rightarrow> Client \<Rightarrow> Status \<times> Client" where
  "client_do global now oper cl =
     (case oper of
        CAddDriver type f \<Rightarrow> client_addDriver type f cl
      | CInit cfg from_file \<Rightarrow> initResolved global now cfg from_file cl
      | CReload cfg from_file \<Rightarrow> reloadResolved global now cfg from_file cl
      | CAddSource cfg opts \<Rightarrow> client_addDataSource global cfg opts cl
      | CRemoveSource n \<Rightarrow> client_removeDataSource n cl
      | CAddGroup started cfg opts \<Rightarrow> client_addGroup started cfg opts cl
      | CRemoveGroup n \<Rightarrow> client_removeGroup n cl
      | CSetLimiter l \<Rightarrow> (OK, client_setDefaultRateLimiter l cl)
      | CShutdown \<Rightarrow> (OK, client_shutdown cl))"

definition new_client :: "services \<Rightarrow> Impl" where
  "new_client sv = \<lparr>cl_drivers = [], cl_manager = new_manager sv, cl_asyncExecutor = None, cl_made = 0, cl_stopped = {}, cl_asyncTimeoutMs = 0,
     cl_state = Empty, cl_sqlAuditEnabled = False, cl_rateLimitEnabled = False, cl_configSource = 0\<rparr>"

definition client_run :: "DriverRegistry \<Rightarrow> (int \<times> client_op) list \<Rightarrow> Client \<Rightarrow> Client" where
  "client_run global ops cl = fold (\<lambda>(now, oper) cl. snd (client_do global now oper cl)) ops cl"

text \<open>The executors that were made are stopped, but for the one in use.\<close>

definition executors_ok :: "Impl \<Rightarrow> bool" where
  "executors_ok c \<longleftrightarrow> cl_stopped c = {..<cl_made c} - (case cl_asyncExecutor c of None \<Rightarrow> {} | Some x \<Rightarrow> {xc_ident x}) \<and>
     (\<forall>x. cl_asyncExecutor c = Some x \<longrightarrow> xc_ident x < cl_made c)"

text \<open>The manager has given up everything it had.\<close>

definition released :: "'l Manager \<Rightarrow> bool" where
  "released m \<longleftrightarrow> m_sources m = [] \<and> m_pools m = [] \<and> m_buffers m = []"

definition buffers_known :: "'l Manager \<Rightarrow> bool" where
  "buffers_known m \<longleftrightarrow> m_running m \<subseteq> set (m_buffers m)"

definition client_ok :: "Impl \<Rightarrow> bool" where
  "client_ok c \<longleftrightarrow> registry_ok (cl_manager c) \<and> buffers_known (cl_manager c) \<and> executors_ok c \<and>
     (cl_state c \<noteq> Running \<longrightarrow> released (cl_manager c) \<and> cl_asyncExecutor c = None)"

lemma drop_group_buffers: "buffers_known m \<Longrightarrow> buffers_known (drop_group name bufs m)"
  by (auto simp: buffers_known_def drop_group_def)

lemma resolveShadows_frame:
  "resolveShadows m = (st, m') \<Longrightarrow> m_buffers m' = m_buffers m \<and> m_running m' = m_running m \<and> m_pools m' = m_pools m \<and>
     m_sources m' = m_sources m"
  by (auto simp: resolveShadows_def split: prod.splits)

lemma init_buffers: "buffers_known m \<Longrightarrow> buffers_known (snd (init known cfg m))"
  by (auto simp: init_def Let_def buffers_known_def installed_def dest!: resolveShadows_frame
      split: sum.splits prod.splits option.splits if_splits)

lemma init_failed_released: "released m \<Longrightarrow> \<not> status_ok (fst (init known cfg m)) \<Longrightarrow> released (snd (init known cfg m))"
  by (auto simp: init_def Let_def released_def status_ok_def OK_def
      split: sum.splits prod.splits option.splits if_splits)

lemma manager_do_buffers: "buffers_known m \<Longrightarrow> buffers_known (manager_do known oper m)"
proof (cases oper)
  case (MAddGroup started cfg opts)
  assume b: "buffers_known m"
  have e: "buffers_known (snd (enter_group started cfg opts m i bufs st))" for i bufs st
    using b by (auto simp: enter_group_def Let_def buffers_known_def drop_group_def dest!: resolveShadows_frame split: prod.splits)
  show ?thesis using b e by (auto simp: MAddGroup manager_do_def addGroup_def Let_def split: sum.splits)
next
  case (MRemoveGroup n)
  assume "buffers_known m"
  then show ?thesis
    by (auto simp: MRemoveGroup manager_do_def removeGroup_def Let_def buffers_known_def drop_group_def split: option.splits)
next
  case (MInit cfg)
  assume "buffers_known m"
  then show ?thesis by (simp add: MInit manager_do_def init_buffers)
next
  case (MAddSource cfg opts)
  assume "buffers_known m"
  then show ?thesis
    by (auto simp: MAddSource manager_do_def addDataSource_def Let_def buffers_known_def split: sum.splits)
next
  case (MRemoveSource n)
  assume "buffers_known m"
  then show ?thesis
    by (auto simp: MRemoveSource manager_do_def removeDataSource_def buffers_known_def split: option.splits)
qed (simp_all add: manager_do_def buffers_known_def setDefaultRateLimiter_def shutdown_manager_def)

lemma executors_stop: "executors_ok c \<Longrightarrow> executors_ok (stopAsync c)"
  by (cases "cl_asyncExecutor c") (simp_all add: executors_ok_def stopAsync_def insert_absorb)

lemma configureAsync_disabled:
  "\<not> as_enabled cfg \<Longrightarrow> configureAsync cfg c = (stopAsync c)\<lparr>cl_asyncTimeoutMs := as_statement_timeout_ms cfg\<rparr>"
  by (cases "cl_asyncExecutor c") (simp_all add: configureAsync_def stopAsync_def)

lemma executors_configure:
  assumes "executors_ok c"
  shows "executors_ok (configureAsync cfg c)"
proof (cases "as_enabled cfg")
  case False
  then show ?thesis using executors_stop [OF assms] by (simp add: configureAsync_disabled executors_ok_def)
next
  case True
  have "{..<Suc n} - {n} = {..<n}" for n by auto
  then show ?thesis using True assms by (cases "cl_asyncExecutor c") (simp_all add: executors_ok_def configureAsync_def)
qed

lemma configureAsync_frame [simp]:
  "cl_manager (configureAsync cfg c) = cl_manager c" "cl_state (configureAsync cfg c) = cl_state c"
  by (auto simp: configureAsync_def Let_def split: option.splits)

lemma stopAsync_frame [simp]:
  "cl_manager (stopAsync c) = cl_manager c" "cl_state (stopAsync c) = cl_state c" "cl_asyncExecutor (stopAsync c) = None"
  by (auto simp: stopAsync_def split: option.splits)

lemma executors_ok_frame [simp]:
  "executors_ok (c\<lparr>cl_manager := m\<rparr>) = executors_ok c" "executors_ok (c\<lparr>cl_state := s\<rparr>) = executors_ok c"
  "executors_ok (c\<lparr>cl_drivers := d\<rparr>) = executors_ok c" "executors_ok (c\<lparr>cl_sqlAuditEnabled := a\<rparr>) = executors_ok c"
  "executors_ok (c\<lparr>cl_rateLimitEnabled := a\<rparr>) = executors_ok c" "executors_ok (c\<lparr>cl_configSource := k\<rparr>) = executors_ok c"
  by (simp_all add: executors_ok_def)

lemma adopt_executors: "executors_ok c \<Longrightarrow> executors_ok (adopt cfg from_file m c)"
  by (simp add: adopt_def executors_configure)

lemma adopt_frame [simp]: "cl_manager (adopt cfg from_file m c) = m" "cl_state (adopt cfg from_file m c) = cl_state c"
  by (simp_all add: adopt_def)

lemma requireRunning_ok: "status_ok (requireRunning c) \<longleftrightarrow> cl_state c = Running"
  by (auto simp: requireRunning_def clientClosed_def notInitialized_def error_not_ok status_ok_def OK_def error_def)

lemma client_change_ok:
  assumes "client_ok c" and "\<And>m. snd (f m) = manager_do known oper m"
  shows "\<exists>c'. snd (client_change f (Some c)) = Some c' \<and> client_ok c' \<and> cl_state c' = cl_state c"
  using assms manager_do_ok [of "cl_manager c" known oper] manager_do_buffers [of "cl_manager c" known oper]
  by (auto simp: client_change_def change_check_def change_apply_def requireRunning_ok client_ok_def Let_def)

lemma init_client_ok:
  assumes "client_ok c"
  shows "\<exists>c'. snd (initResolved global now cfg from_file (Some c)) = Some c' \<and> client_ok c'"
proof -
  obtain st m where i: "init (client_knows global c) (registry_config now cfg) (cl_manager c) = (st, m)" by (meson surj_pair)
  have m: "registry_ok m" "buffers_known m"
    using init_ok [of "cl_manager c"] init_buffers [of "cl_manager c"] assms i by (auto simp: client_ok_def) (metis snd_conv)+
  have r: "released (cl_manager c) \<Longrightarrow> \<not> status_ok st \<Longrightarrow> released m"
    using init_failed_released [of "cl_manager c" "client_knows global c" "registry_config now cfg"] i by simp
  show ?thesis using assms i m r adopt_executors
    by (cases "cl_state c") (auto simp: initResolved_def Let_def client_ok_def)
qed

lemma reload_client_ok:
  assumes "client_ok c"
  shows "\<exists>c'. snd (reloadResolved global now cfg from_file (Some c)) = Some c' \<and> client_ok c'"
proof -
  obtain st m where i: "init (client_knows global c) (registry_config now cfg) (cl_manager c) = (st, m)" by (meson surj_pair)
  have m: "registry_ok m" "buffers_known m"
    using init_ok [of "cl_manager c"] init_buffers [of "cl_manager c"] assms i by (auto simp: client_ok_def) (metis snd_conv)+
  show ?thesis using assms i m adopt_executors
    by (auto simp: reloadResolved_def Let_def client_ok_def requireRunning_ok)
qed

lemma client_do_ok:
  assumes "client_ok c"
  shows "\<exists>c'. snd (client_do global now oper (Some c)) = Some c' \<and> client_ok c'"
proof (cases oper)
  case (CAddDriver type f)
  then show ?thesis using assms by (auto simp: client_do_def client_addDriver_def client_ok_def)
next
  case (CInit cfg from_file)
  then show ?thesis using init_client_ok [OF assms] by (simp add: client_do_def)
next
  case (CReload cfg from_file)
  then show ?thesis using reload_client_ok [OF assms] by (simp add: client_do_def)
next
  case (CSetLimiter l)
  have "registry_ok (setDefaultRateLimiter l (cl_manager c))" using manager_do_ok [of "cl_manager c" "\<lambda>_. True" "MSetLimiter l"] assms
    by (simp add: manager_do_def client_ok_def)
  then show ?thesis using CSetLimiter assms
    by (auto simp: client_do_def client_setDefaultRateLimiter_def client_ok_def setDefaultRateLimiter_def buffers_known_def released_def)
next
  case CShutdown
  have "registry_ok (shutdown_manager (cl_manager c))" "buffers_known (shutdown_manager (cl_manager c))"
    using manager_do_ok [of "cl_manager c" "\<lambda>_. True" MShutdown] manager_do_buffers [of "cl_manager c" "\<lambda>_. True" MShutdown] assms
    by (simp_all add: manager_do_def client_ok_def)
  then show ?thesis using CShutdown assms
    by (auto simp: client_do_def client_shutdown_def client_ok_def Let_def executors_stop shutdown_manager_def released_def)
next
  case (CAddSource cfg opts)
  have "snd (addDataSource (client_knows global c) cfg opts m) = manager_do (client_knows global c) (MAddSource cfg opts) m" for m
    by (simp add: manager_do_def)
  from client_change_ok [OF assms this] show ?thesis by (auto simp: CAddSource client_do_def client_addDataSource_def)
next
  case (CRemoveSource n)
  have "snd (removeDataSource n m) = manager_do (\<lambda>_. True) (MRemoveSource n) m" for m by (simp add: manager_do_def)
  from client_change_ok [OF assms this] show ?thesis by (auto simp: CRemoveSource client_do_def client_removeDataSource_def)
next
  case (CAddGroup started cfg opts)
  have "snd (addGroup started cfg opts m) = manager_do (\<lambda>_. True) (MAddGroup started cfg opts) m" for m
    by (simp add: manager_do_def)
  from client_change_ok [OF assms this] show ?thesis by (auto simp: CAddGroup client_do_def client_addGroup_def)
next
  case (CRemoveGroup n)
  have "snd (removeGroup n m) = manager_do (\<lambda>_. True) (MRemoveGroup n) m" for m by (simp add: manager_do_def)
  from client_change_ok [OF assms this] show ?thesis by (auto simp: CRemoveGroup client_do_def client_removeGroup_def)
qed

lemma client_run_ok: "client_ok c \<Longrightarrow> \<exists>c'. client_run global ops (Some c) = Some c' \<and> client_ok c'"
proof (induction ops arbitrary: c)
  case (Cons x xs)
  obtain now oper where x: "x = (now, oper)" by (cases x)
  obtain c' where "snd (client_do global now oper (Some c)) = Some c'" "client_ok c'" using client_do_ok [OF Cons.prems] by blast
  then show ?case using Cons.IH [of c'] by (simp add: client_run_def x)
qed (simp add: client_run_def)

lemma new_client_ok: "client_ok (new_client sv)"
  by (simp add: client_ok_def new_client_def new_manager_def registry_ok_def linked_def buffers_known_def executors_ok_def released_def)

lemma closed_stays: "cl_state c = Closed \<Longrightarrow> \<exists>c'. snd (client_do global now oper (Some c)) = Some c' \<and> cl_state c' = Closed"
  by (cases oper)
    (auto simp: client_do_def client_addDriver_def initResolved_def reloadResolved_def requireRunning_ok client_addDataSource_def
      client_removeDataSource_def client_addGroup_def client_removeGroup_def client_change_def change_check_def
      client_setDefaultRateLimiter_def client_shutdown_def Let_def)

lemma closed_stays_run: "cl_state c = Closed \<Longrightarrow> \<exists>c'. client_run global ops (Some c) = Some c' \<and> cl_state c' = Closed"
proof (induction ops arbitrary: c)
  case (Cons x xs)
  obtain now oper where x: "x = (now, oper)" by (cases x)
  obtain c' where "snd (client_do global now oper (Some c)) = Some c'" "cl_state c' = Closed" using closed_stays [OF Cons.prems] by blast
  then show ?case using Cons.IH [of c'] by (simp add: client_run_def x)
qed (simp add: client_run_def)

lemma resolve_closed: "cl_state c = Closed \<Longrightarrow> resolve c target name = Inl clientClosed"
  by (simp add: resolve_def requireRunning_def clientClosed_def error_not_ok)

lemma resolve_Inr:
  assumes "client_ok c" and "resolve c target name = Inr s"
  shows "cl_state c = Running \<and> (o_name (m_objs (cl_manager c) s), s) \<in> set (m_sources (cl_manager c))"
proof -
  obtain n where n: "map_of (m_sources (cl_manager c)) n = Some s" and r: "cl_state c = Running"
    using assms(2)
    by (auto simp: resolve_def requireRunning_ok Let_def getDefault_def getDataSource_def split: option.splits if_splits)
  have "linked (m_objs (cl_manager c)) (m_pools (cl_manager c)) (m_sources (cl_manager c))" using assms(1) by (simp add: client_ok_def registry_ok_def)
  from linked_entry [OF this map_of_SomeD [OF n]] show ?thesis using map_of_SomeD [OF n] r by (simp add: entry_ok_def)
qed

text \<open>
  Whatever sequence of life cycle calls a client has seen: while it runs, its registered pools are open and every executor
  but the one in use has been shut down; otherwise it holds no source, no pool, no running write buffer and no executor.
\<close>

text \<open>
  C30: After any sequence of life cycle calls on a client (drivers, init, reload, adding and
  removing sources and groups, the limiter, shutdown, with any failures): while it runs its
  registered pools are open and every executor but the one in use has been shut down; otherwise
  it holds no source, pool, running write buffer or executor.
\<close>

theorem client_lifecycle:
  "\<exists>c. client_run global ops (Some (new_client sv)) = Some c \<and>
     (if cl_state c = Running
      then snd ` set (m_pools (cl_manager c)) \<inter> m_shut (cl_manager c) = {} \<and>
           {..<cl_made c} - cl_stopped c = set_option (map_option xc_ident (cl_asyncExecutor c))
      else m_sources (cl_manager c) = [] \<and> m_pools (cl_manager c) = [] \<and> m_running (cl_manager c) = {} \<and>
           cl_asyncExecutor c = None \<and> cl_stopped c = {..<cl_made c})"
proof -
  obtain c where c: "client_run global ops (Some (new_client sv)) = Some c" "client_ok c"
    using client_run_ok [OF new_client_ok] by blast
  have "snd ` set (m_pools (cl_manager c)) \<inter> m_shut (cl_manager c) = {}" using c(2) by (auto simp: client_ok_def registry_ok_def)
  moreover have "{..<cl_made c} - cl_stopped c = set_option (map_option xc_ident (cl_asyncExecutor c))"
    using c(2) by (cases "cl_asyncExecutor c") (auto simp: client_ok_def executors_ok_def)
  moreover have "m_sources (cl_manager c) = [] \<and> m_pools (cl_manager c) = [] \<and> m_running (cl_manager c) = {} \<and>
      cl_asyncExecutor c = None \<and> cl_stopped c = {..<cl_made c}" if "cl_state c \<noteq> Running"
    using c(2) that by (auto simp: client_ok_def released_def buffers_known_def executors_ok_def)
  ultimately show ?thesis using c(1) by auto
qed

text \<open>
  After a shutdown the client is closed for good and holds nothing, and every call on a source, synchronous or
  not, answers that the client is closed.
\<close>

text \<open>
  After a shutdown the client is closed whatever calls follow, holds no source, pool, running
  write buffer or executor, and queries, writes and transactions answer that the client is
  closed.
\<close>

theorem shutdown_is_final:
  "\<exists>c. client_run global (ops @ (now, CShutdown) # ops') (Some (new_client sv)) = Some c \<and> cl_state c = Closed \<and>
     m_sources (cl_manager c) = [] \<and> m_pools (cl_manager c) = [] \<and> m_running (cl_manager c) = {} \<and> cl_asyncExecutor c = None \<and>
     fst (client_query dso (Some c) target source sql params) = clientClosed \<and>
     fst (client_execute dso (Some c) target source sql params) = clientClosed \<and>
     client_transaction dso (Some c) target source = clientClosed \<and>
     fst (fst (queryAsync (Some c) c' target source e qengine qfn)) = clientClosed \<and>
     fst (fst (executeAsync (Some c) c' target source e engine fn)) = clientClosed"
proof -
  obtain c0 where c0: "client_run global ops (Some (new_client sv)) = Some c0" "client_ok c0"
    using client_run_ok [OF new_client_ok] by blast
  let ?c1 = "the (client_shutdown (Some c0))"
  have c1: "snd (client_do global now CShutdown (Some c0)) = Some ?c1" "cl_state ?c1 = Closed"
    by (simp_all add: client_do_def client_shutdown_def Let_def)
  then have "client_ok ?c1" using client_do_ok [OF c0(2), of global now CShutdown] by auto
  then obtain c where c: "client_run global ops' (Some ?c1) = Some c" "client_ok c" "cl_state c = Closed"
    using client_run_ok closed_stays_run [OF c1(2)] by (metis option.inject)
  have "client_run global (ops @ (now, CShutdown) # ops') (Some (new_client sv)) = Some c"
    using c0(1) c1(1) c(1) by (simp add: client_run_def)
  moreover have "released (cl_manager c)" "cl_asyncExecutor c = None" "m_running (cl_manager c) = {}"
    using c(2,3) by (auto simp: client_ok_def released_def buffers_known_def)
  ultimately show ?thesis using c(3)
    by (auto simp: released_def client_query_def client_execute_def client_transaction_def forwarded_def resolve_closed queryAsync_def
        executeAsync_def or_closed_def submitQueryAsync_def submitExecuteAsync_def fallback_status_def)
qed

section \<open>Starting from a file\<close>

lemma init_default:
  assumes "status_ok (fst (init known cfg m))"
  shows "map_of (m_sources (snd (init known cfg m))) (default_datasource cfg) \<noteq> None \<and>
    m_defaultName (snd (init known cfg m)) = default_datasource cfg"
  using assms
  by (auto simp: init_def Let_def installed_def resolveShadows_def error_not_ok
      dest: build_sources_bad build_groups_bad split: sum.splits prod.splits option.splits if_splits)

text \<open>
  C29: A client that is not initialised starts from a configuration file exactly when the file
  loads, the offline check of the topology accepts it and every driver type is known; it then
  runs, and a call without a source name finds the source that is registered under the
  default_datasource of the file, the same as a call with that name.
\<close>

theorem client_starts_from_file:
  assumes "cl_state c = Empty" and "from_path (loadFromFile g jp getenv files path) (initResolved global now) (Some c) = (st, cl)"
  shows "(status_ok st \<longleftrightarrow> (\<exists>cfg. loadFromFile g jp getenv files path = Inr cfg \<and> validateTopology cfg = None \<and>
           (\<forall>d \<in> set (cf_datasources cfg). client_knows global c (dc_type d)))) \<and>
    (status_ok st \<longrightarrow> isRunning cl \<and> (\<exists>cfg s. loadFromFile g jp getenv files path = Inr cfg \<and>
       getDataSource (cf_default_datasource cfg) (cl_manager (the cl)) = Some s \<and>
       resolve (the cl) [] [] = Inr s \<and> resolve (the cl) [] (cf_default_datasource cfg) = Inr s))"
proof (cases "loadFromFile g jp getenv files path")
  case (Inl e)
  then show ?thesis using assms(2) by (auto simp: from_path_def error_not_ok)
next
  case (Inr cfg)
  have v: "config_valid cfg" using Inr by (auto simp: loadFromFile_def split: option.splits sum.splits intro: load_document_valid)
  have a: "validateAsyncConfig (cf_async cfg) = OK"
    using v by (auto simp: config_valid_def globals_valid_def validateAsyncConfig_def)
  have w: "weighted (cf_groups cfg)" "[] \<notin> dc_type ` set (cf_datasources cfg)"
    using v by (auto simp: config_valid_def group_valid_def source_valid_def weighted_def)
  let ?i = "init (client_knows global c) (registry_config now cfg) (cl_manager c)"
  have r: "st = fst ?i" "cl = Some (if status_ok (fst ?i) then (adopt cfg True (snd ?i) c)\<lparr>cl_state := Running\<rparr> else c\<lparr>cl_manager := snd ?i\<rparr>)"
    using assms Inr a by (auto simp: from_path_def initResolved_def status_ok_def OK_def split: prod.splits if_splits)
  have "status_ok st \<longleftrightarrow> validateTopology cfg = None \<and> (\<forall>d \<in> set (cf_datasources cfg). client_knows global c (dc_type d))"
    unfolding r(1) using init_accepts [of "registry_config now cfg" "client_knows global c" "cl_manager c"] w
    by (simp add: validateTopology_None)
  moreover have "isRunning cl \<and> (\<exists>s. getDataSource (cf_default_datasource cfg) (cl_manager (the cl)) = Some s \<and>
      resolve (the cl) [] [] = Inr s \<and> resolve (the cl) [] (cf_default_datasource cfg) = Inr s)" if "status_ok st"
  proof -
    have "cf_default_datasource cfg \<noteq> []" using v by (simp add: config_valid_def)
    then show ?thesis using that r init_default [of "client_knows global c" "registry_config now cfg" "cl_manager c"]
      by (auto simp: isRunning_def resolve_def requireRunning_def status_ok_def OK_def getDefault_def getDataSource_def)
  qed
  ultimately show ?thesis using Inr by auto
qed

theorem client_starts_from_file_witness:
  "\<exists>st cl s. from_path (loadFromFile sample_get (\<lambda>_. Inr config_document) (\<lambda>_. None) (\<lambda>_. Some []) ''app.json'')
     (initResolved [(''mysql'', True)] 0) (Some (new_client sample_services)) = (st, Some cl) \<and> status_ok st \<and>
     isRunning (Some cl) \<and> getDataSource (cf_default_datasource sample_loaded) (cl_manager cl) = Some s \<and> resolve cl [] [] = Inr s"
proof -
  let ?r = "from_path (loadFromFile sample_get (\<lambda>_. Inr config_document) (\<lambda>_. None) (\<lambda>_. Some []) ''app.json'')
     (initResolved [(''mysql'', True)] 0) (Some (new_client sample_services))"
  have k: "client_knows [(''mysql'', True)] (new_client sample_services) ''mysql''" by (simp add: client_knows_def create_driver_def)
  obtain st cl where r: "?r = (st, cl)" by fastforce
  have "cl_state (new_client sample_services) = Empty" by (simp add: new_client_def)
  from client_starts_from_file [OF this r] k sample_loads sample_topology
  have "status_ok st" "isRunning cl" "\<exists>s. getDataSource (cf_default_datasource sample_loaded) (cl_manager (the cl)) = Some s \<and>
      resolve (the cl) [] [] = Inr s" by auto
  then show ?thesis using r by (cases cl) (auto simp: isRunning_def)
qed

section \<open>Where the client departs from its documentation\<close>

text \<open>
  A source that is added while the client is shut down: the check of the state comes before, the registration after the shutdown.
  The closed client then holds an open pool, and a further shutdown does not close it.
\<close>

theorem add_races_shutdown:
  assumes "client_ok c" and "cl_state c = Running" and "dc_name cfg \<noteq> []" and "client_knows global c (dc_type cfg)"
    and "late = change_apply (addDataSource (client_knows global c) cfg opts) (the (client_shutdown (Some c)))"
  shows "status_ok (change_check (Some c)) \<and> status_ok (fst late) \<and> cl_state (snd late) = Closed \<and>
    (\<exists>p. map_of (m_pools (cl_manager (snd late))) (dc_name cfg) = Some p \<and> p \<notin> m_shut (cl_manager (snd late))) \<and>
    cl_manager (the (client_shutdown (Some (snd late)))) = cl_manager (snd late)"
proof -
  have "m_next (shutdown_manager (cl_manager c)) \<notin> m_shut (shutdown_manager (cl_manager c))"
    using assms(1) by (fastforce simp: client_ok_def registry_ok_def shutdown_manager_def within_def)
  then show ?thesis using assms(2-4)
    by (auto simp: assms(5) change_check_def requireRunning_def change_apply_def client_shutdown_def addDataSource_def name_taken_def
        shutdown_manager_def buildSingleDataSource_def Let_def status_ok_def OK_def)
qed

text \<open>A reload with other numbers of threads or another queue keeps the executor as it was made.\<close>

lemma reload_keeps_executor:
  "cl_asyncExecutor c = Some x \<Longrightarrow> as_enabled cfg \<Longrightarrow> cl_asyncExecutor (configureAsync cfg c) = Some x"
  by (simp add: configureAsync_def)

end
