(* ===== verification/Executor.thy ===== *)
theory Executor
  imports Types "HOL-Library.Multiset"
begin

text \<open>
  The thread pool of the asynchronous interface: \<^verbatim>\<open>src/async/executor.cpp\<close>. The members of
  \<^verbatim>\<open>ThreadPoolExecutor\<close> are a record; each critical section is a function on it. A task is a number:
  what it does is not modelled, and what it throws is caught by \<^verbatim>\<open>runGuarded\<close>, so that a task always
  ends its run. \<open>exec_step\<close> interleaves the sections of the workers, the timer thread, the callers and
  the thread that shuts the pool down.
\<close>

type_synonym task = nat

section \<open>State and critical sections\<close>

record DelayedTask =
  dt_deadline :: int
  dt_seq :: nat
  dt_task :: task

record executor =
  ex_queue :: "task list"
  ex_delayed :: "DelayedTask list"
  ex_threadCount :: nat
  ex_queueLimit :: nat
  ex_seq :: nat
  ex_active :: nat
  ex_submitted :: nat
  ex_completed :: nat
  ex_rejected :: nat
  ex_nativeOperations :: nat
  ex_fallbackOperations :: nat
  ex_timedOutOperations :: nat
  ex_threadsStarted :: bool
  ex_stopping :: bool

record ExecutorStats =
  st_threads :: nat
  st_queueDepth :: nat
  st_active :: nat
  st_submitted :: nat
  st_completed :: nat
  st_rejected :: nat
  st_delayedPending :: nat
  st_nativeOperations :: nat
  st_fallbackOperations :: nat
  st_timedOutOperations :: nat

definition makeThreadPoolExecutor :: "nat \<Rightarrow> int \<Rightarrow> nat \<Rightarrow> executor" where
  "makeThreadPoolExecutor hardware threads queueSize =
     (let n = if threads > 0 then nat threads else hardware in
      \<lparr>ex_queue = [], ex_delayed = [], ex_threadCount = (if n = 0 then 1 else n),
       ex_queueLimit = (if queueSize > 0 then queueSize else 1), ex_seq = 0, ex_active = 0, ex_submitted = 0,
       ex_completed = 0, ex_rejected = 0, ex_nativeOperations = 0, ex_fallbackOperations = 0,
       ex_timedOutOperations = 0, ex_threadsStarted = False, ex_stopping = False\<rparr>)"

definition ensureStartedLocked :: "executor \<Rightarrow> executor" where
  "ensureStartedLocked ex = ex\<lparr>ex_threadsStarted := True\<rparr>"

text \<open>An empty \<^verbatim>\<open>std::function\<close> is \<^term>\<open>None\<close>.\<close>

definition tryPostContinuation :: "task option \<Rightarrow> executor \<Rightarrow> bool \<times> executor" where
  "tryPostContinuation task ex =
     (case task of
        None \<Rightarrow> (False, ex)
      | Some t \<Rightarrow>
          if ex_stopping ex then (False, ex)
          else let ex1 = ensureStartedLocked ex in
            (True, ex1\<lparr>ex_queue := ex_queue ex1 @ [t], ex_submitted := ex_submitted ex1 + 1\<rparr>))"

definition tryPost :: "task option \<Rightarrow> executor \<Rightarrow> bool \<times> executor" where
  "tryPost task ex =
     (case task of
        None \<Rightarrow> (False, ex)
      | Some t \<Rightarrow>
          if ex_stopping ex then (False, ex)
          else let ex1 = ensureStartedLocked ex in
            if length (ex_queue ex1) \<ge> ex_queueLimit ex1 then (False, ex1\<lparr>ex_rejected := ex_rejected ex1 + 1\<rparr>)
            else (True, ex1\<lparr>ex_queue := ex_queue ex1 @ [t], ex_submitted := ex_submitted ex1 + 1\<rparr>))"

text \<open>The priority queue, its top first: the earlier deadline, then the smaller number.\<close>

definition delayed_before :: "DelayedTask \<Rightarrow> DelayedTask \<Rightarrow> bool" where
  "delayed_before a b \<longleftrightarrow>
     (if dt_deadline a \<noteq> dt_deadline b then dt_deadline a < dt_deadline b else dt_seq a < dt_seq b)"

fun delayed_push :: "DelayedTask \<Rightarrow> DelayedTask list \<Rightarrow> DelayedTask list" where
  "delayed_push d [] = [d]"
| "delayed_push d (e # es) = (if delayed_before d e then d # e # es else e # delayed_push d es)"

text \<open>The task is queued, or returned to be run by the caller because the pool has stopped.\<close>

definition postAfter :: "int \<Rightarrow> task option \<Rightarrow> int \<Rightarrow> executor \<Rightarrow> task option \<times> executor" where
  "postAfter now task delay ex =
     (case task of
        None \<Rightarrow> (None, ex)
      | Some t \<Rightarrow>
          if ex_stopping ex then (Some t, ex)
          else let ex1 = ensureStartedLocked ex in
            (None, ex1\<lparr>ex_delayed := delayed_push \<lparr>dt_deadline = now + max delay 0, dt_seq = ex_seq ex1, dt_task = t\<rparr> (ex_delayed ex1),
                       ex_seq := ex_seq ex1 + 1\<rparr>))"

text \<open>
  The locked part of \<^verbatim>\<open>shutdown\<close>: the delayed tasks the caller runs, or \<^term>\<open>None\<close> if the pool was
  stopping.
\<close>

definition shutdown_locked :: "executor \<Rightarrow> task list option \<times> executor" where
  "shutdown_locked ex =
     (if ex_stopping ex then (None, ex)
      else (Some (map dt_task (ex_delayed ex)), ex\<lparr>ex_stopping := True, ex_delayed := []\<rparr>))"

definition recordNativeOperation :: "executor \<Rightarrow> executor" where
  "recordNativeOperation ex = ex\<lparr>ex_nativeOperations := ex_nativeOperations ex + 1\<rparr>"

definition recordFallbackOperation :: "executor \<Rightarrow> executor" where
  "recordFallbackOperation ex = ex\<lparr>ex_fallbackOperations := ex_fallbackOperations ex + 1\<rparr>"

definition recordTimedOutOperation :: "executor \<Rightarrow> executor" where
  "recordTimedOutOperation ex = ex\<lparr>ex_timedOutOperations := ex_timedOutOperations ex + 1\<rparr>"

definition executor_stats :: "executor \<Rightarrow> ExecutorStats" where
  "executor_stats ex =
     \<lparr>st_threads = (if ex_threadsStarted ex then ex_threadCount ex else 0), st_queueDepth = length (ex_queue ex),
      st_active = ex_active ex, st_submitted = ex_submitted ex, st_completed = ex_completed ex,
      st_rejected = ex_rejected ex, st_delayedPending = length (ex_delayed ex),
      st_nativeOperations = ex_nativeOperations ex, st_fallbackOperations = ex_fallbackOperations ex,
      st_timedOutOperations = ex_timedOutOperations ex\<rparr>"

datatype turn = Sleep | Leave | Take task

text \<open>What a worker does when it has the lock: it sleeps, leaves its loop or takes a task.\<close>

definition workerLoop :: "executor \<Rightarrow> turn \<times> executor" where
  "workerLoop ex =
     (case ex_queue ex of
        [] \<Rightarrow> (if ex_stopping ex then Leave else Sleep, ex)
      | t # ts \<Rightarrow> (Take t, ex\<lparr>ex_queue := ts, ex_active := ex_active ex + 1\<rparr>))"

definition worker_finished :: "executor \<Rightarrow> executor" where
  "worker_finished ex = ex\<lparr>ex_active := ex_active ex - 1, ex_completed := ex_completed ex + 1\<rparr>"

definition timerLoop :: "int \<Rightarrow> executor \<Rightarrow> turn \<times> executor" where
  "timerLoop now ex =
     (case ex_delayed ex of
        [] \<Rightarrow> (if ex_stopping ex then Leave else Sleep, ex)
      | d # ds \<Rightarrow> if dt_deadline d > now then (Sleep, ex) else (Take (dt_task d), ex\<lparr>ex_delayed := ds\<rparr>))"

section \<open>The threads\<close>

datatype thread = Idle | Running task | Exited

text \<open>
  The pool with its threads. \<open>x_workers\<close> and \<open>x_timer\<close> are empty until the first accepted task starts
  them; \<open>x_closing\<close> is the list of delayed tasks the thread in \<^verbatim>\<open>shutdown\<close> has yet to run; \<open>x_inline\<close>
  are tasks that callers of \<^verbatim>\<open>postAfter\<close> run themselves. The history: the tasks accepted, the tasks
  put into the queue and the tasks taken from it in their order, the tasks that have run.
\<close>

record exsys =
  x_exec :: executor
  x_workers :: "thread list"
  x_timer :: "thread list"
  x_inline :: "task multiset"
  x_closing :: "task list option"
  x_now :: int
  x_accepted :: "task multiset"
  x_posted :: "task list"
  x_taken :: "task list"
  x_ran :: "task multiset"

definition exec_init :: "executor \<Rightarrow> int \<Rightarrow> exsys" where
  "exec_init ex now =
     \<lparr>x_exec = ex, x_workers = [], x_timer = [], x_inline = {#}, x_closing = None, x_now = now,
      x_accepted = {#}, x_posted = [], x_taken = [], x_ran = {#}\<rparr>"

text \<open>Starting the threads with a new pool state.\<close>

definition started :: "executor \<Rightarrow> exsys \<Rightarrow> exsys" where
  "started ex s =
     (if ex_threadsStarted ex \<and> \<not> ex_threadsStarted (x_exec s)
      then s\<lparr>x_exec := ex, x_workers := replicate (ex_threadCount ex) Idle, x_timer := [Idle]\<rparr>
      else s\<lparr>x_exec := ex\<rparr>)"

text \<open>What callers do: post a task to the queue or with a delay, begin to shut down, wait.\<close>

inductive exec_call :: "exsys \<Rightarrow> exsys \<Rightarrow> bool" where
  post: "tryPost (Some t) (x_exec s) = (True, ex) \<or> tryPostContinuation (Some t) (x_exec s) = (True, ex) \<Longrightarrow>
    exec_call s ((started ex s)\<lparr>x_accepted := add_mset t (x_accepted s), x_posted := x_posted s @ [t]\<rparr>)"
| refused: "tryPost task (x_exec s) = (False, ex) \<or> tryPostContinuation task (x_exec s) = (False, ex) \<Longrightarrow>
    exec_call s (started ex s)"
| delay: "postAfter (x_now s) (Some t) d (x_exec s) = (None, ex) \<Longrightarrow>
    exec_call s ((started ex s)\<lparr>x_accepted := add_mset t (x_accepted s)\<rparr>)"
| delay_stopped: "postAfter (x_now s) (Some t) d (x_exec s) = (Some t, ex) \<Longrightarrow>
    exec_call s (s\<lparr>x_exec := ex, x_accepted := add_mset t (x_accepted s), x_inline := add_mset t (x_inline s)\<rparr>)"
| stop: "shutdown_locked (x_exec s) = (Some ts, ex) \<Longrightarrow> exec_call s (s\<lparr>x_exec := ex, x_closing := Some ts\<rparr>)"
| record_native: "exec_call s (s\<lparr>x_exec := recordNativeOperation (x_exec s)\<rparr>)"
| record_fallback: "exec_call s (s\<lparr>x_exec := recordFallbackOperation (x_exec s)\<rparr>)"
| record_timeout: "exec_call s (s\<lparr>x_exec := recordTimedOutOperation (x_exec s)\<rparr>)"
| tick: "x_now s \<le> now \<Longrightarrow> exec_call s (s\<lparr>x_now := now\<rparr>)"

text \<open>What the threads of the pool and the callers that run tasks do.\<close>

inductive exec_work :: "exsys \<Rightarrow> exsys \<Rightarrow> bool" where
  worker_take: "i < length (x_workers s) \<Longrightarrow> x_workers s ! i = Idle \<Longrightarrow> workerLoop (x_exec s) = (Take t, ex) \<Longrightarrow>
    exec_work s (s\<lparr>x_exec := ex, x_workers := (x_workers s)[i := Running t], x_taken := x_taken s @ [t]\<rparr>)"
| worker_finish: "i < length (x_workers s) \<Longrightarrow> x_workers s ! i = Running t \<Longrightarrow>
    exec_work s (s\<lparr>x_exec := worker_finished (x_exec s), x_workers := (x_workers s)[i := Idle],
                   x_ran := add_mset t (x_ran s)\<rparr>)"
| worker_exit: "i < length (x_workers s) \<Longrightarrow> x_workers s ! i = Idle \<Longrightarrow> workerLoop (x_exec s) = (Leave, ex) \<Longrightarrow>
    exec_work s (s\<lparr>x_exec := ex, x_workers := (x_workers s)[i := Exited]\<rparr>)"
| timer_take: "x_timer s = [Idle] \<Longrightarrow> timerLoop (x_now s) (x_exec s) = (Take t, ex) \<Longrightarrow>
    exec_work s (s\<lparr>x_exec := ex, x_timer := [Running t]\<rparr>)"
| timer_finish: "x_timer s = [Running t] \<Longrightarrow>
    exec_work s (s\<lparr>x_timer := [Idle], x_ran := add_mset t (x_ran s)\<rparr>)"
| timer_exit: "x_timer s = [Idle] \<Longrightarrow> timerLoop (x_now s) (x_exec s) = (Leave, ex) \<Longrightarrow>
    exec_work s (s\<lparr>x_exec := ex, x_timer := [Exited]\<rparr>)"
| closing_run: "x_closing s = Some (t # ts) \<Longrightarrow>
    exec_work s (s\<lparr>x_closing := Some ts, x_ran := add_mset t (x_ran s)\<rparr>)"
| inline_run: "t \<in># x_inline s \<Longrightarrow>
    exec_work s (s\<lparr>x_inline := x_inline s - {#t#}, x_ran := add_mset t (x_ran s)\<rparr>)"

definition exec_step :: "exsys \<Rightarrow> exsys \<Rightarrow> bool" where
  "exec_step s s' \<longleftrightarrow> exec_call s s' \<or> exec_work s s'"

inductive exec_reach :: "executor \<Rightarrow> int \<Rightarrow> exsys \<Rightarrow> bool" where
  init: "exec_reach ex now (exec_init ex now)"
| step: "exec_reach ex now s \<Longrightarrow> exec_step s s' \<Longrightarrow> exec_reach ex now s'"

section \<open>Every accepted task is in one place\<close>

definition task_of :: "thread \<Rightarrow> task multiset" where
  "task_of w = (case w of Running t \<Rightarrow> {#t#} | _ \<Rightarrow> {#})"

primrec running :: "thread list \<Rightarrow> task multiset" where
  "running [] = {#}"
| "running (w # ws) = task_of w + running ws"

lemma task_of_simps [simp]: "task_of Idle = {#}" "task_of Exited = {#}" "task_of (Running t) = {#t#}"
  by (simp_all add: task_of_def)

lemma running_idle [simp]: "running (replicate n Idle) = {#}"
  by (induction n) auto

lemma running_update: "i < length ws \<Longrightarrow> running (ws[i := w]) + task_of (ws ! i) = running ws + task_of w"
proof (induction ws arbitrary: i)
  case (Cons v ws)
  show ?case
  proof (cases i)
    case (Suc j)
    then show ?thesis using Cons by (simp add: add.assoc)
  qed (simp add: ac_simps)
qed simp

lemma running_take: "i < length ws \<Longrightarrow> ws ! i = Idle \<Longrightarrow> running (ws[i := Running t]) = add_mset t (running ws)"
  using running_update [of i ws "Running t"] by simp

lemma running_finish: "i < length ws \<Longrightarrow> ws ! i = Running t \<Longrightarrow> running ws = add_mset t (running (ws[i := Idle]))"
  using running_update [of i ws Idle] by simp

lemma running_exit: "i < length ws \<Longrightarrow> ws ! i = Idle \<Longrightarrow> running (ws[i := Exited]) = running ws"
  using running_update [of i ws Exited] by simp

text \<open>The tasks that are waiting or being run, wherever they are.\<close>

definition in_flight :: "exsys \<Rightarrow> task multiset" where
  "in_flight s =
     mset (ex_queue (x_exec s)) + mset (map dt_task (ex_delayed (x_exec s))) + running (x_workers s) +
     running (x_timer s) + x_inline s + mset (case x_closing s of None \<Rightarrow> [] | Some ts \<Rightarrow> ts)"

definition accounted :: "exsys \<Rightarrow> bool" where
  "accounted s \<longleftrightarrow> x_accepted s = in_flight s + x_ran s \<and> x_posted s = x_taken s @ ex_queue (x_exec s)"

definition counters_ok :: "exsys \<Rightarrow> bool" where
  "counters_ok s \<longleftrightarrow>
     ex_active (x_exec s) = size (running (x_workers s)) \<and> ex_submitted (x_exec s) = length (x_posted s) \<and>
     ex_completed (x_exec s) + ex_active (x_exec s) = length (x_taken s)"

text \<open>
  Threads exist from the first accepted task on; a worker leaves only when the queue of a stopping
  pool is empty, and a stopping pool has no delayed tasks.
\<close>

definition threads_ok :: "exsys \<Rightarrow> bool" where
  "threads_ok s \<longleftrightarrow>
     (if ex_threadsStarted (x_exec s) then length (x_workers s) = ex_threadCount (x_exec s) \<and> length (x_timer s) = 1
      else ex_queue (x_exec s) = [] \<and> ex_delayed (x_exec s) = [] \<and> x_workers s = [] \<and> x_timer s = []) \<and>
     0 < ex_threadCount (x_exec s) \<and>
     (ex_stopping (x_exec s) \<longleftrightarrow> x_closing s \<noteq> None) \<and>
     (ex_stopping (x_exec s) \<longrightarrow> ex_delayed (x_exec s) = []) \<and>
     (Exited \<in> set (x_workers s) \<longrightarrow> ex_stopping (x_exec s) \<and> ex_queue (x_exec s) = []) \<and>
     (Exited \<in> set (x_timer s) \<longrightarrow> ex_stopping (x_exec s))"

definition exec_ok :: "exsys \<Rightarrow> bool" where
  "exec_ok s \<longleftrightarrow> accounted s \<and> counters_ok s \<and> threads_ok s"

lemma mset_delayed_push: "image_mset dt_task (mset (delayed_push d ds)) = add_mset (dt_task d) (image_mset dt_task (mset ds))"
  by (induction ds) auto

lemma exec_init_ok:
  "ex = makeThreadPoolExecutor hw threads n \<Longrightarrow> exec_ok (exec_init ex now)"
  by (simp add: exec_ok_def accounted_def counters_ok_def threads_ok_def in_flight_def exec_init_def
      makeThreadPoolExecutor_def Let_def)

lemmas exec_defs = accounted_def counters_ok_def threads_ok_def in_flight_def started_def ensureStartedLocked_def

lemma exec_call_ok: "exec_call s s' \<Longrightarrow> exec_ok s \<Longrightarrow> exec_ok s'"
proof (induction rule: exec_call.induct)
  case (post t s ex)
  then show ?case
    by (auto simp: exec_ok_def exec_defs tryPost_def tryPostContinuation_def Let_def split: if_splits)
next
  case (refused task s ex)
  then show ?case
    by (auto simp: exec_ok_def exec_defs tryPost_def tryPostContinuation_def Let_def split: if_splits option.splits)
next
  case (delay s t d ex)
  then show ?case
    by (auto simp: exec_ok_def exec_defs postAfter_def Let_def mset_delayed_push split: if_splits)
next
  case (delay_stopped s t d ex)
  then show ?case
    by (auto simp: exec_ok_def exec_defs postAfter_def Let_def split: if_splits)
next
  case (stop s ts ex)
  then show ?case
    by (auto simp: exec_ok_def exec_defs shutdown_locked_def split: if_splits)
qed (auto simp: exec_ok_def exec_defs recordNativeOperation_def recordFallbackOperation_def recordTimedOutOperation_def
      split: if_splits)

lemma exec_work_ok: "exec_work s s' \<Longrightarrow> exec_ok s \<Longrightarrow> exec_ok s'"
proof (induction rule: exec_work.induct)
  case (worker_take i s t ex)
  then show ?case
    by (auto simp: exec_ok_def exec_defs workerLoop_def running_take split: list.splits if_splits
        dest: set_update_subset_insert [THEN subsetD])
next
  case (worker_finish i s t)
  then show ?case
    using running_finish [OF worker_finish(1,2)]
    by (auto simp: exec_ok_def exec_defs worker_finished_def dest: set_update_subset_insert [THEN subsetD])
next
  case (worker_exit i s ex)
  then show ?case
    by (auto simp: exec_ok_def exec_defs workerLoop_def running_exit split: list.splits if_splits)
next
  case (timer_take s t ex)
  then show ?case
    by (auto simp: exec_ok_def exec_defs timerLoop_def split: list.splits if_splits)
next
  case (timer_exit s ex)
  then show ?case
    by (auto simp: exec_ok_def exec_defs timerLoop_def split: list.splits if_splits)
next
  case (inline_run t s)
  then show ?case by (auto simp: exec_ok_def exec_defs dest!: multi_member_split)
qed (auto simp: exec_ok_def exec_defs split: if_splits)

lemma exec_reach_ok: "exec_reach (makeThreadPoolExecutor hw threads n) t0 s \<Longrightarrow> exec_ok s"
proof (induction "makeThreadPoolExecutor hw threads n" t0 s rule: exec_reach.induct)
  case (step now s s')
  then show ?case using exec_call_ok exec_work_ok by (auto simp: exec_step_def)
qed (rule exec_init_ok, rule refl)

text \<open>The pool is closed: the caller of \<^verbatim>\<open>shutdown\<close> has run the delayed tasks and joined the threads.\<close>

definition joined :: "exsys \<Rightarrow> bool" where
  "joined s \<longleftrightarrow> x_closing s = Some [] \<and> set (x_workers s) \<subseteq> {Exited} \<and> set (x_timer s) \<subseteq> {Exited}"

lemma running_exited: "set ws \<subseteq> {Exited} \<Longrightarrow> running ws = {#}"
  by (induction ws) auto

lemma joined_in_flight:
  assumes "exec_ok s" "joined s"
  shows "in_flight s = x_inline s"
proof -
  have none: "running (x_workers s) = {#}" "running (x_timer s) = {#}" "x_closing s = Some []"
    using assms running_exited by (auto simp: joined_def)
  have "ex_queue (x_exec s) = []" "ex_delayed (x_exec s) = []"
    using assms by (cases "x_workers s"; auto simp: exec_ok_def threads_ok_def joined_def split: if_splits)+
  then show ?thesis using none by (simp add: in_flight_def)
qed

text \<open>
  Every task the pool has accepted is in exactly one place: queued, delayed, being run by one
  thread, or it has run once. The workers take the tasks of the queue in the order of their posts.
  When \<^verbatim>\<open>shutdown\<close> returns, every accepted task has run exactly once, up to those that callers of
  \<^verbatim>\<open>postAfter\<close> are still running themselves.
\<close>

text \<open>
  C9: In every interleaving of callers, workers, timer and shutdown each task the executor has
  accepted is in exactly one place, waiting, running or done, the queue is served in the order
  of the posts, and after the threads are joined every accepted task has run, but for those a
  caller still runs itself.
\<close>

theorem executor_runs_each_task_once:
  assumes "exec_reach (makeThreadPoolExecutor hw threads n) t0 s"
  shows "x_accepted s = in_flight s + x_ran s \<and> x_posted s = x_taken s @ ex_queue (x_exec s) \<and>
    (joined s \<longrightarrow> x_accepted s = x_ran s + x_inline s)"
proof -
  have "exec_ok s" using exec_reach_ok assms by blast
  then show ?thesis using joined_in_flight by (auto simp: exec_ok_def accounted_def)
qed

section \<open>A stopping pool drains\<close>

fun thread_work :: "thread \<Rightarrow> nat" where
  "thread_work Exited = 0"
| "thread_work Idle = 1"
| "thread_work (Running t) = 2"

text \<open>A bound on the steps the threads can still take without new calls.\<close>

definition remaining_work :: "exsys \<Rightarrow> nat" where
  "remaining_work s =
     2 * length (ex_queue (x_exec s)) + 2 * length (ex_delayed (x_exec s)) + sum_list (map thread_work (x_workers s)) +
     sum_list (map thread_work (x_timer s)) + size (x_inline s) + length (case x_closing s of None \<Rightarrow> [] | Some ts \<Rightarrow> ts)"

lemma thread_work_update:
  "i < length ws \<Longrightarrow> sum_list (map thread_work (ws[i := w])) + thread_work (ws ! i) = sum_list (map thread_work ws) + thread_work w"
proof (induction ws arbitrary: i)
  case (Cons v ws)
  then show ?case by (cases i) auto
qed simp

lemma exec_work_decreases: "exec_work s s' \<Longrightarrow> remaining_work s' < remaining_work s"
proof (induction rule: exec_work.induct)
  case (worker_take i s t ex)
  then show ?case
    using thread_work_update [of i "x_workers s" "Running t"]
    by (auto simp: remaining_work_def workerLoop_def split: list.splits if_splits)
next
  case (worker_finish i s t)
  then show ?case
    using thread_work_update [of i "x_workers s" Idle] by (auto simp: remaining_work_def worker_finished_def)
next
  case (worker_exit i s ex)
  then show ?case
    using thread_work_update [of i "x_workers s" Exited]
    by (auto simp: remaining_work_def workerLoop_def split: list.splits if_splits)
next
  case (timer_take s t ex)
  then show ?case by (auto simp: remaining_work_def timerLoop_def split: list.splits if_splits)
next
  case (timer_exit s ex)
  then show ?case by (auto simp: remaining_work_def timerLoop_def split: list.splits if_splits)
next
  case (inline_run t s)
  then show ?case by (auto simp: remaining_work_def dest!: multi_member_split)
qed (auto simp: remaining_work_def)

text \<open>A stopping pool whose threads have not all left, or with tasks left to run, can go on.\<close>

lemma stopping_progress:
  assumes ok: "exec_ok s" and stop: "ex_stopping (x_exec s)" and open_: "\<not> (joined s \<and> x_inline s = {#})"
  shows "\<exists>s'. exec_work s s'"
proof (cases "x_inline s = {#}")
  case False
  then obtain t where "t \<in># x_inline s" by blast
  then show ?thesis using inline_run by blast
next
  case True
  obtain ts where ts: "x_closing s = Some ts" using ok stop by (auto simp: exec_ok_def threads_ok_def)
  have empty: "ex_delayed (x_exec s) = []" using ok stop by (simp add: exec_ok_def threads_ok_def)
  consider (closing) t ts' where "ts = t # ts'" | (worker) i where "i < length (x_workers s)" "x_workers s ! i \<noteq> Exited"
    | (timer) w where "x_timer s = [w]" "w \<noteq> Exited"
  proof -
    have "ts \<noteq> [] \<or> \<not> set (x_workers s) \<subseteq> {Exited} \<or> \<not> set (x_timer s) \<subseteq> {Exited}"
      using open_ ts True by (auto simp: joined_def)
    moreover have "x_timer s = [] \<or> (\<exists>w. x_timer s = [w])"
      using ok by (cases "x_timer s") (auto simp: exec_ok_def threads_ok_def split: if_splits)
    ultimately show ?thesis using that by (cases ts) (auto simp: subset_iff in_set_conv_nth)
  qed
  then show ?thesis
  proof cases
    case closing
    then show ?thesis using closing_run ts by blast
  next
    case worker
    then show ?thesis
    proof (cases "x_workers s ! i")
      case Idle
      have "\<exists>t ex. workerLoop (x_exec s) = (Take t, ex) \<or> workerLoop (x_exec s) = (Leave, ex)"
        using stop by (auto simp: workerLoop_def split: list.split)
      then show ?thesis using worker_take [OF worker(1) Idle] worker_exit [OF worker(1) Idle] by blast
    qed (use worker worker_finish in blast)+
  next
    case timer
    then show ?thesis
    proof (cases w)
      case Idle
      then have "timerLoop (x_now s) (x_exec s) = (Leave, x_exec s)"
        using stop empty by (simp add: timerLoop_def)
      then show ?thesis using timer_exit timer Idle by blast
    qed (use timer timer_finish in blast)+
  qed
qed

lemma exec_work_keeps:
  "exec_work s s' \<Longrightarrow> x_accepted s' = x_accepted s \<and> ex_stopping (x_exec s') = ex_stopping (x_exec s)"
  by (induction rule: exec_work.induct)
     (auto simp: workerLoop_def timerLoop_def worker_finished_def split: list.splits if_splits)

lemma stopping_drains:
  "exec_ok s \<Longrightarrow> ex_stopping (x_exec s) \<Longrightarrow>
   \<exists>s'. exec_work\<^sup>*\<^sup>* s s' \<and> joined s' \<and> x_inline s' = {#} \<and> x_accepted s' = x_accepted s \<and> exec_ok s'"
proof (induction s rule: measure_induct_rule [of remaining_work])
  case (less s)
  show ?case
  proof (cases "joined s \<and> x_inline s = {#}")
    case False
    then obtain s1 where s1: "exec_work s s1" using stopping_progress less.prems by blast
    obtain s' where "exec_work\<^sup>*\<^sup>* s1 s'" "joined s'" "x_inline s' = {#}" "x_accepted s' = x_accepted s1" "exec_ok s'"
      using less.IH [OF exec_work_decreases [OF s1]] exec_work_ok [OF s1] exec_work_keeps [OF s1] less.prems by auto
    then show ?thesis using s1 exec_work_keeps [OF s1] converse_rtranclp_into_rtranclp [of exec_work s s1 s'] by auto
  qed (use less.prems in blast)
qed

text \<open>
  From any reachable state of a stopping pool every run of its threads is finite, it is never stuck
  before all of them have left, and at the end every accepted task has run exactly once.
\<close>

text \<open>
  C23: From the moment shutdown is requested the executor reaches, by its own steps, a state in
  which all threads have left and every accepted task has run; every step makes progress and no
  state before that is stuck.
\<close>

theorem executor_shutdown_completes:
  assumes "exec_reach (makeThreadPoolExecutor hw threads n) t0 s" "ex_stopping (x_exec s)"
  shows "(\<exists>s'. exec_work\<^sup>*\<^sup>* s s' \<and> joined s' \<and> x_ran s' = x_accepted s) \<and>
    (\<forall>s'. exec_work s s' \<longrightarrow> remaining_work s' < remaining_work s) \<and>
    (joined s \<and> x_inline s = {#} \<or> (\<exists>s'. exec_work s s'))"
proof -
  have ok: "exec_ok s" using exec_reach_ok assms by blast
  obtain s' where s': "exec_work\<^sup>*\<^sup>* s s'" "joined s'" "x_inline s' = {#}" "x_accepted s' = x_accepted s" "exec_ok s'"
    using stopping_drains [OF ok assms(2)] by blast
  then have "x_ran s' = x_accepted s" using joined_in_flight by (auto simp: exec_ok_def accounted_def)
  then show ?thesis using s' stopping_progress [OF ok assms(2)] exec_work_decreases by blast
qed

text \<open>A pool with one thread that has accepted task 7 and is then shut down.\<close>

definition one_thread :: executor where
  "one_thread = makeThreadPoolExecutor 4 1 8"

definition task_queued :: exsys where
  "task_queued =
     (let s = exec_init one_thread 0; ex = snd (tryPost (Some 7) one_thread) in
      (started ex s)\<lparr>x_accepted := add_mset 7 (x_accepted s), x_posted := x_posted s @ [7]\<rparr>)"

definition stop_requested :: exsys where
  "stop_requested = task_queued\<lparr>x_exec := snd (shutdown_locked (x_exec task_queued)), x_closing := Some []\<rparr>"

lemmas one_thread_defs = one_thread_def makeThreadPoolExecutor_def Let_def tryPost_def ensureStartedLocked_def
  exec_init_def started_def task_queued_def stop_requested_def shutdown_locked_def

lemma stop_requested_reached: "exec_reach one_thread 0 stop_requested"
proof -
  have "tryPost (Some 7) (x_exec (exec_init one_thread 0)) = (True, snd (tryPost (Some 7) one_thread))"
    by (simp add: one_thread_defs)
  then have "exec_call (exec_init one_thread 0) task_queued"
    unfolding task_queued_def Let_def by (intro exec_call.post disjI1)
  then have "exec_reach one_thread 0 task_queued"
    by (auto intro: exec_reach.intros simp: exec_step_def)
  moreover have "exec_call task_queued stop_requested"
    unfolding stop_requested_def by (intro exec_call.stop) (simp add: one_thread_defs)
  ultimately show ?thesis by (auto intro: exec_reach.intros simp: exec_step_def)
qed

theorem executor_runs_each_task_once_witness:
  "exec_reach one_thread 0 stop_requested \<and> x_accepted stop_requested = {#7#} \<and>
   in_flight stop_requested + x_ran stop_requested = {#7#}"
  using executor_runs_each_task_once [OF stop_requested_reached [unfolded one_thread_def]] stop_requested_reached
  by (simp add: one_thread_defs)

theorem executor_shutdown_completes_witness:
  "ex_stopping (x_exec stop_requested) \<and> (\<exists>s'. exec_work\<^sup>*\<^sup>* stop_requested s' \<and> joined s' \<and> x_ran s' = {#7#})"
proof -
  have stop: "ex_stopping (x_exec stop_requested)" and acc: "x_accepted stop_requested = {#7#}"
    by (simp_all add: one_thread_defs)
  show ?thesis
    using executor_shutdown_completes [OF stop_requested_reached [unfolded one_thread_def] stop] stop acc by simp
qed

text \<open>A full queue refuses a task of a caller and never a continuation; after a refusal only the counter has changed.\<close>

theorem tryPost_bounded:
  assumes "tryPost (Some t) ex = (ok, ex')"
  shows "(ok \<longleftrightarrow> \<not> ex_stopping ex \<and> length (ex_queue ex) < ex_queueLimit ex) \<and>
    ex_queue ex' = ex_queue ex @ (if ok then [t] else []) \<and>
    ex_submitted ex' + ex_rejected ex' = ex_submitted ex + ex_rejected ex + (if ex_stopping ex then 0 else 1) \<and>
    fst (tryPostContinuation (Some t) ex) = (\<not> ex_stopping ex)"
  using assms
  by (auto simp: tryPost_def tryPostContinuation_def ensureStartedLocked_def Let_def split: if_splits)

end
