(* ===== verification/Operations.thy ===== *)
theory Operations
  imports ConnectionPool Context "HOL-Library.Multiset"
begin

text \<open>
  Deadlines and cancellation of operations: \<^verbatim>\<open>src/common/operation_options.cpp\<close> and
  \<^verbatim>\<open>src/common/operation_state.h\<close>. Operations, cancellation sources, driver bindings and pending
  completions are numbered objects of a world. A callback of a stop signal is a value; a callback that
  has been called and has not run yet is in \<open>w_tasks\<close>, a multiset: any of them may be the next to run,
  which covers every interleaving of the threads that request a stop.
\<close>

section \<open>Stop signals\<close>

datatype callback =
    StopChild nat nat
  | StopByToken nat
  | CancelBinding nat
  | DeliverStop nat

record StopSignal =
  sg_requested :: bool
  sg_slots :: "(nat \<times> callback) list"
  sg_next :: nat

definition new_signal :: StopSignal where
  "new_signal = \<lparr>sg_requested = False, sg_slots = [], sg_next = 0\<rparr>"

text \<open>The number of the slot and the callbacks to run at once.\<close>

definition subscribe :: "callback \<Rightarrow> StopSignal \<Rightarrow> nat \<times> callback list \<times> StopSignal" where
  "subscribe cb sg =
     (let i = sg_next sg + 1; sg1 = sg\<lparr>sg_next := i\<rparr> in
      if sg_requested sg then (i, [cb], sg1)
      else (i, [], sg1\<lparr>sg_slots := sg_slots sg1 @ [(i, cb)]\<rparr>))"

definition unsubscribe :: "nat \<Rightarrow> StopSignal \<Rightarrow> StopSignal" where
  "unsubscribe i sg = sg\<lparr>sg_slots := filter (\<lambda>(j, cb). j \<noteq> i) (sg_slots sg)\<rparr>"

definition request :: "StopSignal \<Rightarrow> bool \<times> callback list \<times> StopSignal" where
  "request sg =
     (if sg_requested sg then (False, [], sg)
      else (True, map snd (sg_slots sg), sg\<lparr>sg_requested := True\<rparr>))"

section \<open>Operations\<close>

text \<open>
  \<^verbatim>\<open>OperationOptions\<close>: a timeout in milliseconds, an absolute deadline in nanoseconds of the steady
  clock (\<^term>\<open>None\<close> is its largest value), the source of the cancellation token.
\<close>

record OperationOptions =
  oo_timeout :: int
  oo_deadline :: "nanos option"
  oo_cancellation :: "nat option"
  oo_dataSource :: string
  oo_idempotency :: Idempotency
  oo_allowFallback :: bool

record OpState = Operation +
  op_native :: bool
  op_fallback :: bool
  op_signal :: StopSignal
  op_parent :: "(nat \<times> nat) option"
  op_token :: "(nat \<times> nat) option"
  op_timer :: "nat option"
  op_alive :: bool

record binding =
  bd_op :: nat
  bd_slot :: nat
  bd_active :: bool

text \<open>A \<open>Pending\<close> of \<open>controlledCompletion\<close>; \<open>cp_alive\<close> while a copy of the function that holds it is left.\<close>

record completion =
  cp_op :: nat
  cp_slot :: nat
  cp_done :: bool
  cp_alive :: bool

record world =
  w_ops :: "nat \<Rightarrow> OpState"
  w_nops :: nat
  w_sources :: "nat \<Rightarrow> StopSignal"
  w_nsources :: nat
  w_bindings :: "nat \<Rightarrow> binding"
  w_nbindings :: nat
  w_completions :: "nat \<Rightarrow> completion"
  w_ncompletions :: nat
  w_deadlines :: "((nanos \<times> nat) \<times> nat) list"
  w_timers :: nat
  w_tasks :: "callback multiset"
  w_cancels :: "nat multiset"
  w_cancelled :: "nat list"
  w_delivered :: "(nat \<times> Status \<times> ExecutionMode) list"

definition clock_max :: nanos where
  "clock_max = 9223372036854775807"

definition min_deadline :: "nanos option \<Rightarrow> nanos option \<Rightarrow> nanos option" where
  "min_deadline a b = (case a of None \<Rightarrow> b | Some x \<Rightarrow> (case b of None \<Rightarrow> a | Some y \<Rightarrow> Some (min x y)))"

definition OperationState_new :: "nanos \<Rightarrow> OperationOptions \<Rightarrow> OpState" where
  "OperationState_new now opts =
     (let dl = if oo_timeout opts > 0 \<and> oo_timeout opts < (clock_max - now) div 1000000
               then min_deadline (oo_deadline opts) (Some (now + millis (oo_timeout opts)))
               else oo_deadline opts
      in \<lparr>op_reason = Ok, op_deadline = dl, op_writeStarted = False, op_native = False,
          op_fallback = oo_allowFallback opts, op_signal = new_signal, op_parent = None, op_token = None,
          op_timer = None, op_alive = True\<rparr>)"

definition op_base :: "OpState \<Rightarrow> Operation" where
  "op_base st = \<lparr>op_reason = op_reason st, op_deadline = op_deadline st, op_writeStarted = op_writeStarted st\<rparr>"

definition OperationState_status :: "nanos \<Rightarrow> OpState \<Rightarrow> Status" where
  "OperationState_status now st = op_status now (Some (op_base st))"

definition put_op :: "nat \<Rightarrow> OpState \<Rightarrow> world \<Rightarrow> world" where
  "put_op i st w = w\<lparr>w_ops := (w_ops w)(i := st)\<rparr>"

text \<open>The first reason to stop is kept; it calls the callbacks of the operation.\<close>

definition op_stop :: "nat \<Rightarrow> ErrorCode \<Rightarrow> world \<Rightarrow> bool \<times> world" where
  "op_stop i c w =
     (let st = w_ops w i in
      if c = Ok \<or> op_reason st \<noteq> Ok then (False, w)
      else case request (op_signal st) of (b, cbs, sg) \<Rightarrow>
        (b, (put_op i (st\<lparr>op_reason := c, op_signal := sg\<rparr>) w)\<lparr>w_tasks := mset cbs + w_tasks w\<rparr>))"

definition op_subscribe :: "nat \<Rightarrow> callback \<Rightarrow> world \<Rightarrow> nat \<times> world" where
  "op_subscribe i cb w =
     (let st = w_ops w i in
      case subscribe cb (op_signal st) of (slot, cbs, sg) \<Rightarrow>
        (slot, (put_op i (st\<lparr>op_signal := sg\<rparr>) w)\<lparr>w_tasks := mset cbs + w_tasks w\<rparr>))"

definition op_unsubscribe :: "nat \<Rightarrow> nat \<Rightarrow> world \<Rightarrow> world" where
  "op_unsubscribe i slot w =
     (let st = w_ops w i in put_op i (st\<lparr>op_signal := unsubscribe slot (op_signal st)\<rparr>) w)"

text \<open>The queue of deadlines, the earliest first.\<close>

fun deadlines_add :: "(nanos \<times> nat) \<times> nat \<Rightarrow> ((nanos \<times> nat) \<times> nat) list \<Rightarrow> ((nanos \<times> nat) \<times> nat) list" where
  "deadlines_add e [] = [e]"
| "deadlines_add e (f # fs) =
     (if fst (fst e) < fst (fst f) \<or> fst (fst e) = fst (fst f) \<and> snd (fst e) < snd (fst f)
      then e # f # fs else f # deadlines_add e fs)"

definition deadlines_remove :: "nanos \<times> nat \<Rightarrow> ((nanos \<times> nat) \<times> nat) list \<Rightarrow> ((nanos \<times> nat) \<times> nat) list" where
  "deadlines_remove k es = filter (\<lambda>(k', i). k' \<noteq> k) es"

definition join_parent :: "nat \<Rightarrow> nat option \<Rightarrow> world \<Rightarrow> world" where
  "join_parent i parent w =
     (case parent of
        None \<Rightarrow> w
      | Some p \<Rightarrow>
          (let st = w_ops w i; pst = w_ops w p;
               w1 = put_op i (st\<lparr>op_deadline := min_deadline (op_deadline st) (op_deadline pst),
                                 op_fallback := op_fallback st \<and> op_fallback pst\<rparr>) w
           in case op_subscribe p (StopChild i p) w1 of (slot, w2) \<Rightarrow>
                put_op i ((w_ops w2 i)\<lparr>op_parent := Some (p, slot)\<rparr>) w2))"

definition join_token :: "nat \<Rightarrow> nat option \<Rightarrow> world \<Rightarrow> world" where
  "join_token i token w =
     (case token of
        None \<Rightarrow> w
      | Some s \<Rightarrow>
          (case subscribe (StopByToken i) (w_sources w s) of (slot, cbs, sg) \<Rightarrow>
             put_op i ((w_ops w i)\<lparr>op_token := Some (s, slot)\<rparr>)
               (w\<lparr>w_sources := (w_sources w)(s := sg), w_tasks := mset cbs + w_tasks w\<rparr>)))"

definition join_deadline :: "nat \<Rightarrow> world \<Rightarrow> world" where
  "join_deadline i w =
     (case op_deadline (w_ops w i) of
        None \<Rightarrow> w
      | Some d \<Rightarrow>
          (let k = w_timers w + 1 in
           put_op i ((w_ops w i)\<lparr>op_timer := Some k\<rparr>)
             (w\<lparr>w_timers := k, w_deadlines := deadlines_add ((d, k), i) (w_deadlines w)\<rparr>)))"

definition op_create :: "nanos \<Rightarrow> OperationOptions \<Rightarrow> nat option \<Rightarrow> world \<Rightarrow> nat \<times> world" where
  "op_create now opts parent w =
     (let i = w_nops w;
          w1 = w\<lparr>w_ops := (w_ops w)(i := OperationState_new now opts), w_nops := i + 1\<rparr>;
          w2 = join_token i (oo_cancellation opts) (join_parent i parent w1);
          w3 = (if oo_timeout opts < 0 then snd (op_stop i ConfigError w2) else w2)
      in (i, join_deadline i w3))"

definition op_finish :: "nat \<Rightarrow> world \<Rightarrow> world" where
  "op_finish i w =
     (case (op_deadline (w_ops w i), op_timer (w_ops w i)) of
        (Some d, Some k) \<Rightarrow> w\<lparr>w_deadlines := deadlines_remove (d, k) (w_deadlines w)\<rparr>
      | _ \<Rightarrow> w)"

definition leave_parent :: "nat \<Rightarrow> world \<Rightarrow> world" where
  "leave_parent i w = (case op_parent (w_ops w i) of None \<Rightarrow> w | Some (p, slot) \<Rightarrow> op_unsubscribe p slot w)"

definition leave_token :: "nat \<Rightarrow> world \<Rightarrow> world" where
  "leave_token i w =
     (case op_token (w_ops w i) of
        None \<Rightarrow> w
      | Some (s, slot) \<Rightarrow> w\<lparr>w_sources := (w_sources w)(s := unsubscribe slot (w_sources w s))\<rparr>)"

text \<open>
  The last reference is gone: no weak reference can be locked any more, the destructor removes the
  timer, and the leases are given back.
\<close>

definition op_destroy :: "nat \<Rightarrow> world \<Rightarrow> world" where
  "op_destroy i w = leave_token i (leave_parent i (op_finish i (put_op i ((w_ops w i)\<lparr>op_alive := False\<rparr>) w)))"

definition requestCancellation :: "nat \<Rightarrow> world \<Rightarrow> bool \<times> world" where
  "requestCancellation s w =
     (case request (w_sources w s) of (b, cbs, sg) \<Rightarrow>
        (b, w\<lparr>w_sources := (w_sources w)(s := sg), w_tasks := mset cbs + w_tasks w\<rparr>))"

definition cancellationRequested :: "nat \<Rightarrow> world \<Rightarrow> bool" where
  "cancellationRequested s w = sg_requested (w_sources w s)"

text \<open>The thread of \<^verbatim>\<open>Deadlines\<close>, when it has the lock.\<close>

definition deadlines_turn :: "nanos \<Rightarrow> world \<Rightarrow> world option" where
  "deadlines_turn now w =
     (case w_deadlines w of
        [] \<Rightarrow> None
      | ((d, k), i) # es \<Rightarrow>
          if d > now then None
          else (let w1 = w\<lparr>w_deadlines := es\<rparr> in
                Some (if op_alive (w_ops w i) then snd (op_stop i QueryTimeout w1) else w1)))"

section \<open>Bindings and completions\<close>

definition op_bind :: "nat \<Rightarrow> bool \<Rightarrow> bool \<Rightarrow> world \<Rightarrow> nat \<times> world" where
  "op_bind i write native w =
     (let st = w_ops w i;
          b = w_nbindings w;
          w1 = put_op i (st\<lparr>op_writeStarted := op_writeStarted st \<or> write, op_native := native\<rparr>) w
      in case op_subscribe i (CancelBinding b) w1 of (slot, w2) \<Rightarrow>
           (b, w2\<lparr>w_bindings := (w_bindings w2)(b := \<lparr>bd_op = i, bd_slot = slot, bd_active = True\<rparr>), w_nbindings := b + 1\<rparr>))"

definition op_unbind :: "nat \<Rightarrow> world \<Rightarrow> world" where
  "op_unbind b w =
     (let bd = w_bindings w b; w1 = op_unsubscribe (bd_op bd) (bd_slot bd) w in
      w1\<lparr>w_bindings := (w_bindings w1)(b := bd\<lparr>bd_active := False\<rparr>)\<rparr>)"

text \<open>The task of the cancellation executor.\<close>

definition run_cancel :: "nat \<Rightarrow> world \<Rightarrow> world" where
  "run_cancel b w =
     (let w1 = w\<lparr>w_cancels := w_cancels w - {#b#}\<rparr> in
      if bd_active (w_bindings w b) then w1\<lparr>w_cancelled := w_cancelled w1 @ [b]\<rparr> else w1)"

definition controlledCompletion :: "nat \<Rightarrow> world \<Rightarrow> nat \<times> world" where
  "controlledCompletion i w =
     (let c = w_ncompletions w in
      case op_subscribe i (DeliverStop c) w of (slot, w1) \<Rightarrow>
        (c, w1\<lparr>w_completions := (w_completions w1)(c := \<lparr>cp_op = i, cp_slot = slot, cp_done = False, cp_alive = True\<rparr>), w_ncompletions := c + 1\<rparr>))"

definition deliver :: "nanos \<Rightarrow> nat \<Rightarrow> Status \<times> ExecutionMode \<Rightarrow> world \<Rightarrow> world" where
  "deliver now c result w =
     (let cp = w_completions w c in
      if cp_done cp then w
      else let st = w_ops w (cp_op cp);
               stop = OperationState_status now st;
               r = (if status_ok stop then result else (stop, if op_native st then Native else CompatibilityFallback))
           in w\<lparr>w_completions := (w_completions w)(c := cp\<lparr>cp_done := True\<rparr>),
                w_delivered := w_delivered w @ [(c, r)]\<rparr>)"

text \<open>
  The last copy of the function that \<open>controlledCompletion\<close> returned is gone, called or not: the
  \<open>Pending\<close> is destroyed and gives its lease back.
\<close>

definition drop_completion :: "nat \<Rightarrow> world \<Rightarrow> world" where
  "drop_completion c w =
     (let cp = w_completions w c; w1 = op_unsubscribe (cp_op cp) (cp_slot cp) w in
      w1\<lparr>w_completions := (w_completions w1)(c := cp\<lparr>cp_alive := False\<rparr>)\<rparr>)"

text \<open>
  A callback that was called runs. Its operation or its completion may be gone; the executor of
  cancellations may refuse the task (\<open>room\<close>). A completion called by the signal has a default result.
\<close>

definition run_callback :: "nanos \<Rightarrow> bool \<Rightarrow> callback \<Rightarrow> world \<Rightarrow> world" where
  "run_callback now room cb w =
     (let w1 = w\<lparr>w_tasks := w_tasks w - {#cb#}\<rparr> in
      case cb of
        StopChild i p \<Rightarrow>
          if op_alive (w_ops w i) then snd (op_stop i (code (OperationState_status now (w_ops w p))) w1) else w1
      | StopByToken i \<Rightarrow> if op_alive (w_ops w i) then snd (op_stop i Cancelled w1) else w1
      | CancelBinding b \<Rightarrow> if room then w1\<lparr>w_cancels := add_mset b (w_cancels w1)\<rparr> else w1
      | DeliverStop c \<Rightarrow> if cp_alive (w_completions w c) then deliver now c (OK, Native) w1 else w1)"

definition operationContext :: "nanos \<Rightarrow> OperationOptions \<Rightarrow> nat SqlContext list \<Rightarrow> world \<Rightarrow> nat SqlContext \<times> world" where
  "operationContext now opts stack w =
     (let ctx = current stack in
      case op_create now opts (operation ctx) w of (i, w1) \<Rightarrow>
        (ctx\<lparr>operation := Some i,
             targetDataSource := (if oo_dataSource opts \<noteq> [] then oo_dataSource opts else targetDataSource ctx),
             idempotency := (if oo_idempotency opts \<noteq> Unspecified then oo_idempotency opts else idempotency ctx)\<rparr>, w1))"

section \<open>Steps\<close>

text \<open>
  What callers, the deadline thread and the executor of cancellations do. An operation is destroyed
  when no operation below it and no completion holds it.
\<close>

definition empty_world :: "world \<Rightarrow> bool" where
  "empty_world w \<longleftrightarrow> w_nops w = 0 \<and> w_nsources w = 0 \<and> w_nbindings w = 0 \<and> w_ncompletions w = 0 \<and> w_deadlines w = [] \<and>
     w_tasks w = {#} \<and> w_cancels w = {#} \<and> w_cancelled w = [] \<and> w_delivered w = []"

definition unheld :: "nat \<Rightarrow> world \<Rightarrow> bool" where
  "unheld i w \<longleftrightarrow>
     (\<forall>j < w_nops w. op_alive (w_ops w j) \<longrightarrow> (\<forall>slot. op_parent (w_ops w j) \<noteq> Some (i, slot))) \<and>
     (\<forall>c < w_ncompletions w. cp_op (w_completions w c) = i \<longrightarrow> \<not> cp_alive (w_completions w c))"

inductive op_step :: "world \<Rightarrow> world \<Rightarrow> bool" where
  source: "op_step w (w\<lparr>w_sources := (w_sources w)(w_nsources w := new_signal), w_nsources := w_nsources w + 1\<rparr>)"
| create: "(\<And>p. parent = Some p \<Longrightarrow> p < w_nops w) \<Longrightarrow> (\<And>s. oo_cancellation opts = Some s \<Longrightarrow> s < w_nsources w) \<Longrightarrow>
    op_step w (snd (op_create now opts parent w))"
| destroy: "i < w_nops w \<Longrightarrow> op_alive (w_ops w i) \<Longrightarrow> unheld i w \<Longrightarrow> op_step w (op_destroy i w)"
| stopped: "i < w_nops w \<Longrightarrow> op_step w (snd (op_stop i c w))"
| cancel: "s < w_nsources w \<Longrightarrow> op_step w (snd (requestCancellation s w))"
| deadline: "deadlines_turn now w = Some w' \<Longrightarrow> op_step w w'"
| bind: "i < w_nops w \<Longrightarrow> op_step w (snd (op_bind i write native w))"
| unbind: "b < w_nbindings w \<Longrightarrow> bd_active (w_bindings w b) \<Longrightarrow> op_step w (op_unbind b w)"
| await: "i < w_nops w \<Longrightarrow> op_step w (snd (controlledCompletion i w))"
| result: "c < w_ncompletions w \<Longrightarrow> cp_alive (w_completions w c) \<Longrightarrow> op_step w (deliver now c r w)"
| forget: "c < w_ncompletions w \<Longrightarrow> cp_alive (w_completions w c) \<Longrightarrow> op_step w (drop_completion c w)"
| callback: "cb \<in># w_tasks w \<Longrightarrow> op_step w (run_callback now room cb w)"
| driver_cancel: "b \<in># w_cancels w \<Longrightarrow> op_step w (run_cancel b w)"

inductive op_reach :: "world \<Rightarrow> bool" where
  init: "empty_world w \<Longrightarrow> op_reach w"
| step: "op_reach w \<Longrightarrow> op_step w w' \<Longrightarrow> op_reach w'"

section \<open>The invariant\<close>

text \<open>The slots of a signal have different numbers, none beyond the last one given.\<close>

definition signal_ok :: "StopSignal \<Rightarrow> bool" where
  "signal_ok sg \<longleftrightarrow> distinct (map fst (sg_slots sg)) \<and> (\<forall>(j, cb) \<in> set (sg_slots sg). j \<le> sg_next sg)"

text \<open>The callbacks in the slots of operation \<open>i\<close>, with \<open>n\<close> operations and \<open>m\<close> completions.\<close>

fun slot_ok :: "nat \<Rightarrow> nat \<Rightarrow> nat \<Rightarrow> callback \<Rightarrow> bool" where
  "slot_ok n m i (StopChild j p) \<longleftrightarrow> p = i \<and> j < n"
| "slot_ok n m i (StopByToken j) \<longleftrightarrow> False"
| "slot_ok n m i (CancelBinding b) \<longleftrightarrow> True"
| "slot_ok n m i (DeliverStop c) \<longleftrightarrow> c < m"

definition op_ok :: "nat \<Rightarrow> nat \<Rightarrow> nat \<Rightarrow> OpState \<Rightarrow> bool" where
  "op_ok n m i st \<longleftrightarrow> signal_ok (op_signal st) \<and> (sg_requested (op_signal st) \<longleftrightarrow> op_reason st \<noteq> Ok) \<and>
     (\<forall>(slot, cb) \<in> set (sg_slots (op_signal st)). slot_ok n m i cb)"

definition source_ok :: "nat \<Rightarrow> StopSignal \<Rightarrow> bool" where
  "source_ok n sg \<longleftrightarrow> signal_ok sg \<and> (\<forall>(slot, cb) \<in> set (sg_slots sg). \<exists>j < n. cb = StopByToken j)"

fun task_ok :: "nat \<Rightarrow> nat \<Rightarrow> (nat \<Rightarrow> OpState) \<Rightarrow> callback \<Rightarrow> bool" where
  "task_ok n m ops (StopChild j p) \<longleftrightarrow> j < n \<and> p < n \<and> op_reason (ops p) \<noteq> Ok"
| "task_ok n m ops (StopByToken j) \<longleftrightarrow> j < n"
| "task_ok n m ops (CancelBinding b) \<longleftrightarrow> True"
| "task_ok n m ops (DeliverStop c) \<longleftrightarrow> c < m"

text \<open>
  A subscription with a purpose: while the signal has not been requested its slot holds the callback;
  once it has, the callback waits to run or its purpose is fulfilled.
\<close>

definition subscribed :: "StopSignal \<Rightarrow> callback multiset \<Rightarrow> nat \<Rightarrow> callback \<Rightarrow> bool \<Rightarrow> bool" where
  "subscribed sg ts slot cb fulfilled \<longleftrightarrow>
     (if sg_requested sg then fulfilled \<or> cb \<in># ts else (slot, cb) \<in> set (sg_slots sg))"

definition earlier :: "nanos option \<Rightarrow> nanos option \<Rightarrow> bool" where
  "earlier a b \<longleftrightarrow> (case b of None \<Rightarrow> True | Some y \<Rightarrow> (case a of None \<Rightarrow> False | Some x \<Rightarrow> x \<le> y))"

definition parent_ok :: "(nat \<Rightarrow> OpState) \<Rightarrow> callback multiset \<Rightarrow> nat \<Rightarrow> bool" where
  "parent_ok ops ts i \<longleftrightarrow>
     (\<forall>p slot. op_alive (ops i) \<longrightarrow> op_parent (ops i) = Some (p, slot) \<longrightarrow>
        p < i \<and> earlier (op_deadline (ops i)) (op_deadline (ops p)) \<and> (op_fallback (ops i) \<longrightarrow> op_fallback (ops p)) \<and>
        subscribed (op_signal (ops p)) ts slot (StopChild i p) (op_reason (ops i) \<noteq> Ok))"

definition token_ok :: "nat \<Rightarrow> (nat \<Rightarrow> OpState) \<Rightarrow> (nat \<Rightarrow> StopSignal) \<Rightarrow> callback multiset \<Rightarrow> nat \<Rightarrow> bool" where
  "token_ok k ops sgs ts i \<longleftrightarrow>
     (\<forall>s slot. op_alive (ops i) \<longrightarrow> op_token (ops i) = Some (s, slot) \<longrightarrow>
        s < k \<and> subscribed (sgs s) ts slot (StopByToken i) (op_reason (ops i) \<noteq> Ok))"

definition completion_ok :: "nat \<Rightarrow> (nat \<Rightarrow> OpState) \<Rightarrow> callback multiset \<Rightarrow> (nat \<Rightarrow> completion) \<Rightarrow>
    (nat \<times> Status \<times> ExecutionMode) list \<Rightarrow> nat \<Rightarrow> bool" where
  "completion_ok n ops ts cps ds c \<longleftrightarrow>
     cp_op (cps c) < n \<and> count_list (map fst ds) c = (if cp_done (cps c) then 1 else 0) \<and>
     (cp_alive (cps c) \<longrightarrow>
        subscribed (op_signal (ops (cp_op (cps c)))) ts (cp_slot (cps c)) (DeliverStop c) (cp_done (cps c)))"

definition binding_ok :: "nat \<Rightarrow> (nat \<Rightarrow> OpState) \<Rightarrow> (nat \<Rightarrow> binding) \<Rightarrow> nat \<Rightarrow> bool" where
  "binding_ok n ops bs b \<longleftrightarrow>
     bd_op (bs b) < n \<and>
     (bd_active (bs b) \<longrightarrow> \<not> sg_requested (op_signal (ops (bd_op (bs b)))) \<longrightarrow>
        (bd_slot (bs b), CancelBinding b) \<in> set (sg_slots (op_signal (ops (bd_op (bs b))))))"

definition timer_ok :: "(nat \<Rightarrow> OpState) \<Rightarrow> ((nanos \<times> nat) \<times> nat) list \<Rightarrow> nat \<Rightarrow> bool" where
  "timer_ok ops es i \<longleftrightarrow>
     (\<forall>d. op_alive (ops i) \<longrightarrow> op_deadline (ops i) = Some d \<longrightarrow>
        op_reason (ops i) \<noteq> Ok \<or> (\<exists>k. op_timer (ops i) = Some k \<and> ((d, k), i) \<in> set es))"

text \<open>No two operations have the same timer, and an entry of the queue belongs to the operation with its timer.\<close>

definition timers_apart :: "nat \<Rightarrow> (nat \<Rightarrow> OpState) \<Rightarrow> ((nanos \<times> nat) \<times> nat) list \<Rightarrow> nat \<Rightarrow> bool" where
  "timers_apart n ops es t \<longleftrightarrow>
     (\<forall>e \<in> set es. snd e < n \<and> op_timer (ops (snd e)) = Some (snd (fst e))) \<and>
     (\<forall>i < n. \<forall>k. op_timer (ops i) = Some k \<longrightarrow> k \<le> t \<and> (\<forall>j < n. op_timer (ops j) = Some k \<longrightarrow> j = i))"

lemma timers_apart_same:
  assumes "timers_apart n ops es t" "\<And>j. op_timer (ops' j) = op_timer (ops j)"
  shows "timers_apart n ops' es t"
  using assms(1) unfolding timers_apart_def assms(2) .

lemma timers_apart_fewer: "timers_apart n ops es t \<Longrightarrow> set es' \<subseteq> set es \<Longrightarrow> timers_apart n ops es' t"
  unfolding timers_apart_def by blast

lemma timers_apartD:
  "timers_apart n ops es t \<Longrightarrow> i < n \<Longrightarrow> j < n \<Longrightarrow> op_timer (ops i) = Some k \<Longrightarrow> op_timer (ops j) = Some k \<Longrightarrow> j = i"
  unfolding timers_apart_def by blast

text \<open>The operations in \<open>new\<close> have no timer yet; \<open>m\<close> bounds the numbers of completions.\<close>

definition world_ok :: "nat set \<Rightarrow> nat \<Rightarrow> world \<Rightarrow> bool" where
  "world_ok new m w \<longleftrightarrow>
     (\<forall>i < w_nops w. op_ok (w_nops w) m i (w_ops w i)) \<and>
     (\<forall>s < w_nsources w. source_ok (w_nops w) (w_sources w s)) \<and>
     (\<forall>cb \<in># w_tasks w. task_ok (w_nops w) m (w_ops w) cb) \<and>
     (\<forall>i < w_nops w. parent_ok (w_ops w) (w_tasks w) i) \<and>
     (\<forall>i < w_nops w. token_ok (w_nsources w) (w_ops w) (w_sources w) (w_tasks w) i) \<and>
     (\<forall>c < w_ncompletions w. completion_ok (w_nops w) (w_ops w) (w_tasks w) (w_completions w) (w_delivered w) c) \<and>
     (\<forall>d \<in> set (w_delivered w). fst d < w_ncompletions w) \<and>
     (\<forall>b < w_nbindings w. binding_ok (w_nops w) (w_ops w) (w_bindings w) b) \<and>
     timers_apart (w_nops w) (w_ops w) (w_deadlines w) (w_timers w) \<and>
     (\<forall>i < w_nops w. i \<notin> new \<longrightarrow> timer_ok (w_ops w) (w_deadlines w) i)"

lemma empty_world_ok: "empty_world w \<Longrightarrow> world_ok {} 0 w"
  by (simp add: world_ok_def empty_world_def timers_apart_def)

subsection \<open>Changing one operation\<close>

definition signal_grows :: "callback multiset \<Rightarrow> StopSignal \<Rightarrow> StopSignal \<Rightarrow> bool" where
  "signal_grows ts old sg \<longleftrightarrow>
     (sg_requested old \<longrightarrow> sg_requested sg) \<and>
     (sg_requested sg \<longrightarrow> \<not> sg_requested old \<longrightarrow> (\<forall>(slot, cb) \<in> set (sg_slots old). cb \<in># ts)) \<and>
     (\<not> sg_requested sg \<longrightarrow> set (sg_slots old) \<subseteq> set (sg_slots sg))"

lemma signal_grows_same [simp]: "signal_grows ts sg sg"
  by (simp add: signal_grows_def)

lemma subscribed_grows:
  assumes "subscribed old ts slot cb f" "signal_grows ts' old sg" "set_mset ts \<subseteq> set_mset ts'" "f \<Longrightarrow> f'"
  shows "subscribed sg ts' slot cb f'"
  using assms by (cases "sg_requested sg"; cases "sg_requested old") (auto simp: subscribed_def signal_grows_def)

text \<open>The fields of an operation that other operations and the timers refer to.\<close>

definition same_links :: "OpState \<Rightarrow> OpState \<Rightarrow> bool" where
  "same_links a b \<longleftrightarrow> op_alive a = op_alive b \<and> op_parent a = op_parent b \<and> op_token a = op_token b \<and>
     op_deadline a = op_deadline b \<and> op_fallback a = op_fallback b \<and> op_timer a = op_timer b"

lemma change_op:
  assumes w: "world_ok new m w" and i: "i < w_nops w" and st: "same_links (w_ops w i) st"
    and ok: "op_ok (w_nops w) m i st"
    and reason: "op_reason (w_ops w i) \<noteq> Ok \<Longrightarrow> op_reason st \<noteq> Ok"
    and grows: "signal_grows ts (op_signal (w_ops w i)) (op_signal st)" and sub: "set_mset (w_tasks w) \<subseteq> set_mset ts"
    and tasks: "\<forall>cb \<in># ts. task_ok (w_nops w) m ((w_ops w)(i := st)) cb"
  shows "world_ok new m (w\<lparr>w_ops := (w_ops w)(i := st), w_tasks := ts\<rparr>)"
proof -
  let ?ops = "(w_ops w)(i := st)"
  have links: "same_links (w_ops w j) (?ops j)" for j using st by (simp add: same_links_def)
  have stay: "op_reason (w_ops w j) \<noteq> Ok \<Longrightarrow> op_reason (?ops j) \<noteq> Ok" for j using reason by (cases "j = i") auto
  have grow: "signal_grows ts (op_signal (w_ops w j)) (op_signal (?ops j))" for j using grows by simp
  have "parent_ok ?ops ts j" if "j < w_nops w" for j
  proof -
    have "parent_ok (w_ops w) (w_tasks w) j" using w that by (simp add: world_ok_def)
    then show ?thesis
      unfolding parent_ok_def using links [unfolded same_links_def] subscribed_grows [OF _ grow sub stay] by metis
  qed
  moreover have "token_ok (w_nsources w) ?ops (w_sources w) ts j" if "j < w_nops w" for j
  proof -
    have "token_ok (w_nsources w) (w_ops w) (w_sources w) (w_tasks w) j" using w that by (simp add: world_ok_def)
    then show ?thesis
      unfolding token_ok_def
      using links [unfolded same_links_def] subscribed_grows [OF _ signal_grows_same sub stay] by metis
  qed
  moreover have "completion_ok (w_nops w) ?ops ts (w_completions w) (w_delivered w) c" if "c < w_ncompletions w" for c
  proof -
    have "completion_ok (w_nops w) (w_ops w) (w_tasks w) (w_completions w) (w_delivered w) c" using w that by (simp add: world_ok_def)
    then show ?thesis unfolding completion_ok_def using subscribed_grows [OF _ grow sub] by blast
  qed
  moreover have "binding_ok (w_nops w) ?ops (w_bindings w) b" if "b < w_nbindings w" for b
  proof -
    have "binding_ok (w_nops w) (w_ops w) (w_bindings w) b" using w that by (simp add: world_ok_def)
    then show ?thesis unfolding binding_ok_def using grow [unfolded signal_grows_def] by blast
  qed
  moreover have "timer_ok ?ops (w_deadlines w) j" if "j < w_nops w" "j \<notin> new" for j
  proof -
    have "timer_ok (w_ops w) (w_deadlines w) j" using w that by (simp add: world_ok_def)
    then show ?thesis unfolding timer_ok_def using links [unfolded same_links_def] stay by metis
  qed
  moreover have "timers_apart (w_nops w) ?ops (w_deadlines w) (w_timers w)"
    by (rule timers_apart_same [of _ "w_ops w"]) (use w links [unfolded same_links_def] in \<open>simp_all add: world_ok_def\<close>)
  moreover have "op_ok (w_nops w) m j (?ops j)" if "j < w_nops w" for j
    using ok w that by (simp add: world_ok_def)
  ultimately show ?thesis using w tasks by (simp add: world_ok_def)
qed

lemma task_ok_change:
  "task_ok n m ops cb \<Longrightarrow> (op_reason (ops i) \<noteq> Ok \<Longrightarrow> op_reason st \<noteq> Ok) \<Longrightarrow> task_ok n m (ops(i := st)) cb"
  by (cases cb) auto

lemma op_stop_ok:
  assumes w: "world_ok new m w" and i: "i < w_nops w"
  shows "world_ok new m (snd (op_stop i c w))"
proof (cases "c = Ok \<or> op_reason (w_ops w i) \<noteq> Ok")
  case False
  let ?sg = "op_signal (w_ops w i)"
  let ?st = "(w_ops w i)\<lparr>op_reason := c, op_signal := ?sg\<lparr>sg_requested := True\<rparr>\<rparr>"
  let ?ts = "mset (map snd (sg_slots ?sg)) + w_tasks w"
  have op: "op_ok (w_nops w) m i (w_ops w i)" using w i by (simp add: world_ok_def)
  then have "snd (op_stop i c w) = w\<lparr>w_ops := (w_ops w)(i := ?st), w_tasks := ?ts\<rparr>"
    using False by (simp add: op_stop_def request_def put_op_def Let_def op_ok_def)
  moreover have "task_ok (w_nops w) m ((w_ops w)(i := ?st)) cb" if "cb \<in># ?ts" for cb
  proof -
    have "slot_ok (w_nops w) m i cb \<or> cb \<in># w_tasks w" using that op by (auto simp: op_ok_def)
    then show ?thesis
    proof
      assume "cb \<in># w_tasks w"
      then show ?thesis using w False by (intro task_ok_change) (auto simp: world_ok_def)
    qed (use i False in \<open>cases cb; auto\<close>)
  qed
  moreover have "op_ok (w_nops w) m i ?st" using op False by (simp add: op_ok_def signal_ok_def)
  moreover have "signal_grows ?ts ?sg (op_signal ?st)" by (force simp: signal_grows_def)
  ultimately show ?thesis
    using change_op [OF w i, of ?st ?ts] False by (simp add: same_links_def)
qed (use w in \<open>auto simp: op_stop_def Let_def\<close>)

lemma op_stop_stops: "c \<noteq> Ok \<Longrightarrow> op_reason (w_ops (snd (op_stop i c w)) i) \<noteq> Ok"
  by (auto simp: op_stop_def put_op_def Let_def split: prod.split)

lemma op_stop_frame [simp]:
  "w_nops (snd (op_stop i c w)) = w_nops w" "w_nsources (snd (op_stop i c w)) = w_nsources w"
  "w_ncompletions (snd (op_stop i c w)) = w_ncompletions w" "w_deadlines (snd (op_stop i c w)) = w_deadlines w"
  "w_sources (snd (op_stop i c w)) = w_sources w" "w_completions (snd (op_stop i c w)) = w_completions w"
  "w_bindings (snd (op_stop i c w)) = w_bindings w" "w_nbindings (snd (op_stop i c w)) = w_nbindings w"
  "w_timers (snd (op_stop i c w)) = w_timers w" "w_delivered (snd (op_stop i c w)) = w_delivered w"
  by (simp_all add: op_stop_def put_op_def Let_def split: prod.split)

text \<open>A new slot; its callback runs at once if the signal has been requested.\<close>

lemma subscribe_slot:
  "subscribe cb sg = (slot, cbs, sg') \<Longrightarrow>
   subscribed sg' (mset cbs + ts) slot cb f \<and> signal_grows ts' sg sg' \<and> sg_requested sg' = sg_requested sg \<and> set cbs \<subseteq> {cb} \<and>
   set (sg_slots sg') \<subseteq> insert (slot, cb) (set (sg_slots sg))"
  by (auto simp: subscribe_def subscribed_def signal_grows_def Let_def split: if_splits)

lemma subscribe_signal_ok: "signal_ok sg \<Longrightarrow> subscribe cb sg = (slot, cbs, sg') \<Longrightarrow> signal_ok sg'"
  by (force simp: subscribe_def signal_ok_def Let_def split: if_splits)

lemma op_subscribe_ok:
  assumes w: "world_ok new m w" and i: "i < w_nops w" and cb: "slot_ok (w_nops w) m i cb"
    and sub: "op_subscribe i cb w = (slot, w')"
  shows "world_ok new m w'" "subscribed (op_signal (w_ops w' i)) (w_tasks w') slot cb False"
    "w' = w\<lparr>w_ops := (w_ops w)(i := w_ops w' i), w_tasks := w_tasks w'\<rparr>"
    "same_links (w_ops w i) (w_ops w' i)" "op_reason (w_ops w' i) = op_reason (w_ops w i)"
proof -
  obtain cbs sg where s: "subscribe cb (op_signal (w_ops w i)) = (slot, cbs, sg)"
    using sub by (auto simp: op_subscribe_def Let_def split: prod.splits)
  let ?st = "(w_ops w i)\<lparr>op_signal := sg\<rparr>"
  have w': "w' = w\<lparr>w_ops := (w_ops w)(i := ?st), w_tasks := mset cbs + w_tasks w\<rparr>"
    using sub s by (simp add: op_subscribe_def put_op_def Let_def)
  have op: "op_ok (w_nops w) m i (w_ops w i)" using w i by (simp add: world_ok_def)
  have st: "op_ok (w_nops w) m i ?st"
    using op subscribe_slot [OF s] subscribe_signal_ok [OF _ s] cb by (fastforce simp: op_ok_def)
  have "task_ok (w_nops w) m ((w_ops w)(i := ?st)) cb'" if "cb' \<in># mset cbs + w_tasks w" for cb'
  proof (cases "cb' \<in># w_tasks w")
    case True
    then show ?thesis using w by (intro task_ok_change) (auto simp: world_ok_def)
  next
    case False
    then have "cb' = cb" "sg_requested (op_signal (w_ops w i))"
      using that s by (auto simp: subscribe_def Let_def split: if_splits)
    then show ?thesis using cb i op by (cases cb) (auto simp: op_ok_def)
  qed
  then show "world_ok new m w'"
    unfolding w' using subscribe_slot [OF s] by (intro change_op [OF w i _ st]) (auto simp: same_links_def)
  show "subscribed (op_signal (w_ops w' i)) (w_tasks w') slot cb False"
    "w' = w\<lparr>w_ops := (w_ops w)(i := w_ops w' i), w_tasks := w_tasks w'\<rparr>"
    "same_links (w_ops w i) (w_ops w' i)" "op_reason (w_ops w' i) = op_reason (w_ops w i)"
    using subscribe_slot [OF s] by (simp_all add: w' same_links_def)
qed

lemma world_ok_mono: "world_ok new m w \<Longrightarrow> m \<le> m' \<Longrightarrow> world_ok new m' w"
proof -
  assume w: "world_ok new m w" and m: "m \<le> m'"
  have slot: "slot_ok n m i cb \<Longrightarrow> slot_ok n m' i cb" for n i cb using m by (cases cb) auto
  have task: "task_ok n m ops cb \<Longrightarrow> task_ok n m' ops cb" for n ops cb using m by (cases cb) auto
  have "op_ok n m i st \<Longrightarrow> op_ok n m' i st" for n i st using slot by (fastforce simp: op_ok_def)
  then show ?thesis using w task by (simp add: world_ok_def)
qed

lemma controlledCompletion_ok:
  assumes w: "world_ok {} (w_ncompletions w) w" and i: "i < w_nops w"
  shows "world_ok {} (w_ncompletions (snd (controlledCompletion i w))) (snd (controlledCompletion i w))"
proof -
  let ?c = "w_ncompletions w"
  obtain slot w1 where s: "op_subscribe i (DeliverStop ?c) w = (slot, w1)" by fastforce
  have more: "world_ok {} (Suc ?c) w" using world_ok_mono [OF w] by simp
  note sub = op_subscribe_ok [OF more i _ s]
  have w1: "world_ok {} (Suc ?c) w1" "w_ncompletions w1 = ?c" "w_nops w1 = w_nops w"
      "w_completions w1 = w_completions w" "w_delivered w1 = w_delivered w"
    using sub(1) arg_cong [OF sub(3), of w_ncompletions] arg_cong [OF sub(3), of w_nops]
      arg_cong [OF sub(3), of w_completions] arg_cong [OF sub(3), of w_delivered] by simp_all
  have eq: "snd (controlledCompletion i w) =
      w1\<lparr>w_completions := (w_completions w1)(?c := \<lparr>cp_op = i, cp_slot = slot, cp_done = False, cp_alive = True\<rparr>), w_ncompletions := Suc ?c\<rparr>"
    using s by (simp add: controlledCompletion_def Let_def)
  have "?c \<notin> fst ` set (w_delivered w1)" using w1 by (fastforce simp: world_ok_def)
  then have fresh: "count_list (map fst (w_delivered w1)) ?c = 0" by (simp add: count_list_0_iff)
  have "completion_ok (w_nops w1) (w_ops w1) (w_tasks w1)
      ((w_completions w1)(?c := \<lparr>cp_op = i, cp_slot = slot, cp_done = False, cp_alive = True\<rparr>)) (w_delivered w1) c" if "c < Suc ?c" for c
    using that w1 fresh sub(2) i by (cases "c = ?c") (auto simp: completion_ok_def world_ok_def less_Suc_eq)
  then show ?thesis using w1 unfolding eq by (auto simp: world_ok_def less_Suc_eq)
qed

lemma op_bind_ok:
  assumes w: "world_ok {} m w" and i: "i < w_nops w"
  shows "world_ok {} m (snd (op_bind i write native w))"
proof -
  let ?b = "w_nbindings w"
  let ?st = "(w_ops w i)\<lparr>op_writeStarted := op_writeStarted (w_ops w i) \<or> write, op_native := native\<rparr>"
  let ?w1 = "w\<lparr>w_ops := (w_ops w)(i := ?st), w_tasks := w_tasks w\<rparr>"
  have w1: "world_ok {} m ?w1"
  proof (rule change_op [OF w i])
    show "op_ok (w_nops w) m i ?st" using w i by (simp add: world_ok_def op_ok_def)
    show "\<forall>cb \<in># w_tasks w. task_ok (w_nops w) m ((w_ops w)(i := ?st)) cb"
      using w by (auto intro!: task_ok_change simp: world_ok_def)
  qed (simp_all add: same_links_def)
  obtain slot w2 where s: "op_subscribe i (CancelBinding ?b) ?w1 = (slot, w2)" by fastforce
  note sub = op_subscribe_ok [OF w1 _ _ s]
  have w2: "world_ok {} m w2" "w_nbindings w2 = ?b" "w_nops w2 = w_nops w" "w_bindings w2 = w_bindings w"
    using sub(1) arg_cong [OF sub(3), of w_nbindings] arg_cong [OF sub(3), of w_nops] arg_cong [OF sub(3), of w_bindings] i
    by simp_all
  have eq: "snd (op_bind i write native w) =
      w2\<lparr>w_bindings := (w_bindings w2)(?b := \<lparr>bd_op = i, bd_slot = slot, bd_active = True\<rparr>), w_nbindings := Suc ?b\<rparr>"
    using s by (simp add: op_bind_def Let_def put_op_def)
  have "binding_ok (w_nops w2) (w_ops w2) ((w_bindings w2)(?b := \<lparr>bd_op = i, bd_slot = slot, bd_active = True\<rparr>)) b"
    if "b < Suc ?b" for b
    using that w2 sub(2) i by (cases "b = ?b") (auto simp: binding_ok_def world_ok_def subscribed_def less_Suc_eq)
  then show ?thesis using w2 unfolding eq by (auto simp: world_ok_def)
qed

subsection \<open>Giving up slots\<close>

lemma same_slot: "signal_ok sg \<Longrightarrow> (slot, cb) \<in> set (sg_slots sg) \<Longrightarrow> (slot, cb') \<in> set (sg_slots sg) \<Longrightarrow> cb = cb'"
  by (auto simp: signal_ok_def dest: eq_key_imp_eq_value)

lemma unsubscribe_simps [simp]: "sg_requested (unsubscribe slot sg) = sg_requested sg"
  "set (sg_slots (unsubscribe slot sg)) = {e \<in> set (sg_slots sg). fst e \<noteq> slot}"
  by (auto simp: unsubscribe_def)

lemma unsubscribe_ok: "signal_ok sg \<Longrightarrow> signal_ok (unsubscribe slot sg)"
  by (auto simp: unsubscribe_def signal_ok_def distinct_map_filter)

text \<open>Removing the slot of one callback keeps the subscriptions of the others.\<close>

lemma unsubscribe_others:
  assumes "signal_ok sg" "sg_requested sg \<or> (slot, cb) \<in> set (sg_slots sg)" "cb' \<noteq> cb" "subscribed sg ts slot' cb' f"
  shows "subscribed (unsubscribe slot sg) ts slot' cb' f"
  using assms same_slot [of sg slot cb cb'] by (cases "slot' = slot") (auto simp: subscribed_def split: if_splits)

lemma op_unsubscribe_ok:
  assumes w: "world_ok new m w" and i: "i < w_nops w"
    and own: "sg_requested (op_signal (w_ops w i)) \<or> (slot, cb) \<in> set (sg_slots (op_signal (w_ops w i)))"
    and free: "\<And>j p. cb = StopChild j p \<Longrightarrow> \<not> op_alive (w_ops w j)"
      "\<And>b. cb = CancelBinding b \<Longrightarrow> b < w_nbindings w \<and> \<not> bd_active (w_bindings w b)"
      "\<And>c. cb = DeliverStop c \<Longrightarrow> \<not> cp_alive (w_completions w c)"
  shows "world_ok new m (op_unsubscribe i slot w)"
proof -
  let ?sg = "op_signal (w_ops w i)"
  let ?st = "(w_ops w i)\<lparr>op_signal := unsubscribe slot ?sg\<rparr>"
  let ?ops = "(w_ops w)(i := ?st)"
  have eq: "op_unsubscribe i slot w = w\<lparr>w_ops := ?ops\<rparr>" by (simp add: op_unsubscribe_def put_op_def Let_def)
  have op: "op_ok (w_nops w) m i (w_ops w i)" using w i by (simp add: world_ok_def)
  have links: "same_links (w_ops w j) (?ops j)" "op_reason (?ops j) = op_reason (w_ops w j)" for j
    by (simp_all add: same_links_def)
  have others: "subscribed (op_signal (?ops j)) ts slot' cb' f"
    if "subscribed (op_signal (w_ops w j)) ts slot' cb' f" "cb' \<noteq> cb" for j ts slot' cb' f
    using that op own unsubscribe_others [of ?sg slot cb cb' ts slot' f] by (cases "j = i") (auto simp: op_ok_def)
  have "op_ok (w_nops w) m j (?ops j)" if "j < w_nops w" for j
    using w that unsubscribe_ok by (auto simp: world_ok_def op_ok_def)
  moreover have "task_ok (w_nops w) m ?ops cb'" if "cb' \<in># w_tasks w" for cb'
    using w that by (intro task_ok_change) (auto simp: world_ok_def)
  moreover have "parent_ok ?ops (w_tasks w) j" if "j < w_nops w" for j
  proof -
    have "parent_ok (w_ops w) (w_tasks w) j" using w that by (simp add: world_ok_def)
    moreover have "StopChild j p \<noteq> cb" if "op_alive (w_ops w j)" for p using free(1) that by blast
    ultimately show ?thesis
      unfolding parent_ok_def using links [of j] links [unfolded same_links_def] others by metis
  qed
  moreover have "token_ok (w_nsources w) ?ops (w_sources w) (w_tasks w) j" if "j < w_nops w" for j
  proof -
    have "token_ok (w_nsources w) (w_ops w) (w_sources w) (w_tasks w) j" using w that by (simp add: world_ok_def)
    then show ?thesis unfolding token_ok_def using links [of j] by (simp add: same_links_def)
  qed
  moreover have "completion_ok (w_nops w) ?ops (w_tasks w) (w_completions w) (w_delivered w) c" if "c < w_ncompletions w" for c
  proof -
    have "completion_ok (w_nops w) (w_ops w) (w_tasks w) (w_completions w) (w_delivered w) c" using w that by (simp add: world_ok_def)
    then show ?thesis unfolding completion_ok_def using others free(3) by metis
  qed
  moreover have "binding_ok (w_nops w) ?ops (w_bindings w) b" if b: "b < w_nbindings w" for b
  proof -
    have ok: "binding_ok (w_nops w) (w_ops w) (w_bindings w) b" using w b by (simp add: world_ok_def)
    show ?thesis
    proof (cases "bd_active (w_bindings w b) \<and> \<not> sg_requested (op_signal (w_ops w (bd_op (w_bindings w b))))")
      case True
      then have "CancelBinding b \<noteq> cb" using free(2) by blast
      then show ?thesis
        using ok True others [of "bd_op (w_bindings w b)" "{#}" "bd_slot (w_bindings w b)" "CancelBinding b" False]
        by (simp add: binding_ok_def subscribed_def)
    qed (use ok in \<open>auto simp: binding_ok_def\<close>)
  qed
  moreover have "timer_ok ?ops (w_deadlines w) j" if "j < w_nops w" "j \<notin> new" for j
  proof -
    have "timer_ok (w_ops w) (w_deadlines w) j" using w that by (simp add: world_ok_def)
    then show ?thesis unfolding timer_ok_def using links [of j] by (simp add: same_links_def)
  qed
  moreover have "timers_apart (w_nops w) ?ops (w_deadlines w) (w_timers w)"
    by (rule timers_apart_same [of _ "w_ops w"]) (use w links [unfolded same_links_def] in \<open>simp_all add: world_ok_def\<close>)
  ultimately show ?thesis using w unfolding eq by (simp add: world_ok_def)
qed

lemma op_unbind_ok:
  assumes w: "world_ok {} m w" and b: "b < w_nbindings w" "bd_active (w_bindings w b)"
  shows "world_ok {} m (op_unbind b w)"
proof -
  let ?bd = "w_bindings w b"
  let ?w1 = "w\<lparr>w_bindings := (w_bindings w)(b := ?bd\<lparr>bd_active := False\<rparr>)\<rparr>"
  have ok: "binding_ok (w_nops w) (w_ops w) (w_bindings w) b" using w b by (simp add: world_ok_def)
  have "binding_ok (w_nops w) (w_ops w) ((w_bindings w)(b := ?bd\<lparr>bd_active := False\<rparr>)) b'" if "b' < w_nbindings w" for b'
    using w that ok by (cases "b' = b") (auto simp: world_ok_def binding_ok_def)
  then have w1: "world_ok {} m ?w1" using w by (simp add: world_ok_def)
  have "world_ok {} m (op_unsubscribe (bd_op ?bd) (bd_slot ?bd) ?w1)"
    by (rule op_unsubscribe_ok [OF w1, where cb = "CancelBinding b"]) (use ok b in \<open>auto simp: binding_ok_def\<close>)
  moreover have "op_unbind b w = op_unsubscribe (bd_op ?bd) (bd_slot ?bd) ?w1"
    by (simp add: op_unbind_def op_unsubscribe_def put_op_def Let_def)
  ultimately show ?thesis by simp
qed

lemma drop_completion_ok:
  assumes w: "world_ok {} m w" and c: "c < w_ncompletions w" "cp_alive (w_completions w c)"
  shows "world_ok {} m (drop_completion c w)"
proof -
  let ?cp = "w_completions w c"
  let ?w1 = "w\<lparr>w_completions := (w_completions w)(c := ?cp\<lparr>cp_alive := False\<rparr>)\<rparr>"
  have ok: "completion_ok (w_nops w) (w_ops w) (w_tasks w) (w_completions w) (w_delivered w) c"
    using w c by (simp add: world_ok_def)
  have "completion_ok (w_nops w) (w_ops w) (w_tasks w) ((w_completions w)(c := ?cp\<lparr>cp_alive := False\<rparr>)) (w_delivered w) c'"
    if "c' < w_ncompletions w" for c'
    using w that ok by (cases "c' = c") (auto simp: world_ok_def completion_ok_def)
  then have w1: "world_ok {} m ?w1" using w by (simp add: world_ok_def)
  have "world_ok {} m (op_unsubscribe (cp_op ?cp) (cp_slot ?cp) ?w1)"
    by (rule op_unsubscribe_ok [OF w1, where cb = "DeliverStop c"])
      (use ok c in \<open>auto simp: completion_ok_def subscribed_def split: if_splits\<close>)
  moreover have "drop_completion c w = op_unsubscribe (cp_op ?cp) (cp_slot ?cp) ?w1"
    by (simp add: drop_completion_def op_unsubscribe_def put_op_def Let_def)
  ultimately show ?thesis by simp
qed

text \<open>An operation that dies keeps the world in order: nothing refers to it.\<close>

lemma kill_ok:
  assumes w: "world_ok {} m w" and i: "i < w_nops w"
  shows "world_ok {} m (put_op i ((w_ops w i)\<lparr>op_alive := False\<rparr>) w)"
proof -
  let ?ops = "(w_ops w)(i := (w_ops w i)\<lparr>op_alive := False\<rparr>)"
  have same: "op_signal (?ops j) = op_signal (w_ops w j)" "op_reason (?ops j) = op_reason (w_ops w j)"
      "op_deadline (?ops j) = op_deadline (w_ops w j)" "op_fallback (?ops j) = op_fallback (w_ops w j)"
      "op_parent (?ops j) = op_parent (w_ops w j)" "op_token (?ops j) = op_token (w_ops w j)"
      "op_timer (?ops j) = op_timer (w_ops w j)" "op_alive (?ops j) \<Longrightarrow> op_alive (w_ops w j)" for j
    by (simp_all split: if_splits)
  have "parent_ok ?ops (w_tasks w) j" if "j < w_nops w" for j
    using w that same by (simp add: world_ok_def parent_ok_def del: fun_upd_apply)
  moreover have "token_ok (w_nsources w) ?ops (w_sources w) (w_tasks w) j" if "j < w_nops w" for j
    using w that same by (simp add: world_ok_def token_ok_def del: fun_upd_apply)
  moreover have "timer_ok ?ops (w_deadlines w) j" if "j < w_nops w" for j
    using w that same by (simp add: world_ok_def timer_ok_def del: fun_upd_apply)
  moreover have "timers_apart (w_nops w) ?ops (w_deadlines w) (w_timers w)"
    by (rule timers_apart_same [of _ "w_ops w"]) (use w in \<open>simp_all add: world_ok_def\<close>)
  moreover have "task_ok (w_nops w) m ?ops cb" if "cb \<in># w_tasks w" for cb
    using w that by (intro task_ok_change) (auto simp: world_ok_def)
  ultimately show ?thesis
    using w i same by (simp add: world_ok_def put_op_def op_ok_def completion_ok_def binding_ok_def del: fun_upd_apply)
qed

lemma drop_timer_ok:
  assumes w: "world_ok {} m w" and i: "i < w_nops w" "\<not> op_alive (w_ops w i)"
  shows "world_ok {} m (op_finish i w)"
proof (cases "\<exists>d k. op_deadline (w_ops w i) = Some d \<and> op_timer (w_ops w i) = Some k")
  case True
  then obtain d k where dk: "op_deadline (w_ops w i) = Some d" "op_timer (w_ops w i) = Some k" by auto
  have apart: "timers_apart (w_nops w) (w_ops w) (w_deadlines w) (w_timers w)" using w by (simp add: world_ok_def)
  have "timer_ok (w_ops w) (deadlines_remove (d, k) (w_deadlines w)) j" if j: "j < w_nops w" for j
  proof (cases "j = i")
    case False
    then have "op_timer (w_ops w j) \<noteq> Some k" using timers_apartD [OF apart i(1) j dk(2)] by blast
    moreover have "timer_ok (w_ops w) (w_deadlines w) j" using w j by (simp add: world_ok_def)
    ultimately show ?thesis by (auto simp: timer_ok_def deadlines_remove_def)
  qed (use i in \<open>simp add: timer_ok_def\<close>)
  moreover have "timers_apart (w_nops w) (w_ops w) (deadlines_remove (d, k) (w_deadlines w)) (w_timers w)"
    using apart by (rule timers_apart_fewer) (auto simp: deadlines_remove_def)
  ultimately show ?thesis using w dk by (simp add: op_finish_def world_ok_def)
next
  case False
  then show ?thesis using w by (auto simp: op_finish_def split: option.split)
qed

lemma leave_token_ok:
  assumes w: "world_ok {} m w" and i: "i < w_nops w" "\<not> op_alive (w_ops w i)"
    and own: "\<And>s slot. op_token (w_ops w i) = Some (s, slot) \<Longrightarrow>
      s < w_nsources w \<and> (sg_requested (w_sources w s) \<or> (slot, StopByToken i) \<in> set (sg_slots (w_sources w s)))"
  shows "world_ok {} m (leave_token i w)"
proof (cases "op_token (w_ops w i)")
  case (Some e)
  obtain s slot where s: "e = (s, slot)" by (cases e)
  let ?sgs = "(w_sources w)(s := unsubscribe slot (w_sources w s))"
  have src: "source_ok (w_nops w) (w_sources w s)" and hold: "s < w_nsources w"
      "sg_requested (w_sources w s) \<or> (slot, StopByToken i) \<in> set (sg_slots (w_sources w s))"
    using w own Some s by (auto simp: world_ok_def)
  have "source_ok (w_nops w) (?sgs s')" if "s' < w_nsources w" for s'
    using w that src unsubscribe_ok by (auto simp: world_ok_def source_ok_def)
  moreover have "token_ok (w_nsources w) (w_ops w) ?sgs (w_tasks w) j" if "j < w_nops w" for j
  proof (cases "j = i")
    case False
    have "token_ok (w_nsources w) (w_ops w) (w_sources w) (w_tasks w) j" using w that by (simp add: world_ok_def)
    then show ?thesis
      using unsubscribe_others [of "w_sources w s" slot "StopByToken i" "StopByToken j"] src hold False
      by (auto simp: token_ok_def source_ok_def)
  qed (use i in \<open>simp add: token_ok_def\<close>)
  ultimately show ?thesis using w Some s by (simp add: leave_token_def world_ok_def)
qed (use w in \<open>simp add: leave_token_def\<close>)

lemma op_destroy_ok:
  assumes w: "world_ok {} m w" and i: "i < w_nops w" "op_alive (w_ops w i)"
  shows "world_ok {} m (op_destroy i w)"
proof -
  define w1 where "w1 = op_finish i (put_op i ((w_ops w i)\<lparr>op_alive := False\<rparr>) w)"
  have w1: "world_ok {} m w1" "w_nops w1 = w_nops w" "w_sources w1 = w_sources w" "w_nsources w1 = w_nsources w"
      "w_ops w1 = (w_ops w)(i := (w_ops w i)\<lparr>op_alive := False\<rparr>)"
    using drop_timer_ok [OF kill_ok [OF w i(1)], of i] i
    by (simp_all add: w1_def op_finish_def put_op_def split: option.split)
  define w2 where "w2 = leave_parent i w1"
  have w2: "world_ok {} m w2" "w_nops w2 = w_nops w" "w_sources w2 = w_sources w" "w_nsources w2 = w_nsources w"
      "op_alive (w_ops w2 i) = False" "op_token (w_ops w2 i) = op_token (w_ops w i)"
  proof -
    have "parent_ok (w_ops w) (w_tasks w) i" using w i by (simp add: world_ok_def)
    then have "p < i \<and> (sg_requested (op_signal (w_ops w p)) \<or> (slot, StopChild i p) \<in> set (sg_slots (op_signal (w_ops w p))))"
      if "op_parent (w_ops w i) = Some (p, slot)" for p slot
      using i that unfolding parent_ok_def subscribed_def by metis
    then have "world_ok {} m (op_unsubscribe p slot w1)" if "op_parent (w_ops w i) = Some (p, slot)" for p slot
      using that i w1 by (intro op_unsubscribe_ok [OF w1(1), where cb = "StopChild i p"]) auto
    then show "world_ok {} m w2"
      using w1 by (auto simp: w2_def leave_parent_def split: option.split)
  qed (use w1 in \<open>auto simp: w2_def leave_parent_def op_unsubscribe_def put_op_def Let_def split: option.split\<close>)
  have "token_ok (w_nsources w) (w_ops w) (w_sources w) (w_tasks w) i" using w i by (simp add: world_ok_def)
  then have hold: "s < w_nsources w \<and> (sg_requested (w_sources w s) \<or> (slot, StopByToken i) \<in> set (sg_slots (w_sources w s)))"
    if "op_token (w_ops w i) = Some (s, slot)" for s slot
    using that i by (auto simp: token_ok_def subscribed_def split: if_splits)
  have "world_ok {} m (leave_token i w2)"
    by (rule leave_token_ok) (use w2 i in \<open>simp_all add: hold\<close>)
  then show ?thesis by (simp add: op_destroy_def w1_def w2_def)
qed

subsection \<open>Completions and callbacks\<close>

lemma deliver_ok:
  assumes w: "world_ok new m w" and c: "c < w_ncompletions w"
  shows "world_ok new m (deliver now c r w)"
proof (cases "cp_done (w_completions w c)")
  case False
  obtain d where eq: "deliver now c r w = w\<lparr>w_completions := (w_completions w)(c := (w_completions w c)\<lparr>cp_done := True\<rparr>),
      w_delivered := w_delivered w @ [(c, d)]\<rparr>"
    using False by (auto simp: deliver_def Let_def)
  have "completion_ok (w_nops w) (w_ops w) (w_tasks w) ((w_completions w)(c := (w_completions w c)\<lparr>cp_done := True\<rparr>))
      (w_delivered w @ [(c, d)]) c'" if "c' < w_ncompletions w" for c'
  proof -
    have "completion_ok (w_nops w) (w_ops w) (w_tasks w) (w_completions w) (w_delivered w) c'"
      using w that by (simp add: world_ok_def)
    then show ?thesis using False by (auto simp: completion_ok_def subscribed_def)
  qed
  then show ?thesis using w c unfolding eq by (auto simp: world_ok_def)
qed (use w in \<open>simp add: deliver_def Let_def\<close>)

text \<open>A callback may be dropped once its purpose is fulfilled.\<close>

fun fulfilled :: "world \<Rightarrow> callback \<Rightarrow> bool" where
  "fulfilled w (StopChild i p) \<longleftrightarrow> (op_alive (w_ops w i) \<longrightarrow> op_reason (w_ops w i) \<noteq> Ok)"
| "fulfilled w (StopByToken i) \<longleftrightarrow> (op_alive (w_ops w i) \<longrightarrow> op_reason (w_ops w i) \<noteq> Ok)"
| "fulfilled w (CancelBinding b) \<longleftrightarrow> True"
| "fulfilled w (DeliverStop c) \<longleftrightarrow> (cp_alive (w_completions w c) \<longrightarrow> cp_done (w_completions w c))"

lemma subscribed_drop:
  "subscribed sg ts slot cb f \<Longrightarrow> cb = cb' \<longrightarrow> f \<Longrightarrow> subscribed sg (ts - {#cb'#}) slot cb f"
  by (cases "cb = cb'") (auto simp: subscribed_def in_diff_count)

lemma drop_task_ok:
  assumes w: "world_ok new m w" and cb: "fulfilled w cb"
  shows "world_ok new m (w\<lparr>w_tasks := w_tasks w - {#cb#}\<rparr>)"
proof -
  let ?ts = "w_tasks w - {#cb#}"
  have "parent_ok (w_ops w) ?ts i" if "i < w_nops w" for i
  proof -
    have "parent_ok (w_ops w) (w_tasks w) i" using w that by (simp add: world_ok_def)
    moreover have "op_alive (w_ops w i) \<Longrightarrow> StopChild i p = cb \<longrightarrow> op_reason (w_ops w i) \<noteq> Ok" for p using cb by auto
    ultimately show ?thesis unfolding parent_ok_def using subscribed_drop by metis
  qed
  moreover have "token_ok (w_nsources w) (w_ops w) (w_sources w) ?ts i" if "i < w_nops w" for i
  proof -
    have "token_ok (w_nsources w) (w_ops w) (w_sources w) (w_tasks w) i" using w that by (simp add: world_ok_def)
    moreover have "op_alive (w_ops w i) \<Longrightarrow> StopByToken i = cb \<longrightarrow> op_reason (w_ops w i) \<noteq> Ok" using cb by auto
    ultimately show ?thesis unfolding token_ok_def using subscribed_drop by metis
  qed
  moreover have "completion_ok (w_nops w) (w_ops w) ?ts (w_completions w) (w_delivered w) c" if "c < w_ncompletions w" for c
  proof -
    have "completion_ok (w_nops w) (w_ops w) (w_tasks w) (w_completions w) (w_delivered w) c" using w that by (simp add: world_ok_def)
    moreover have "cp_alive (w_completions w c) \<Longrightarrow> DeliverStop c = cb \<longrightarrow> cp_done (w_completions w c)" using cb by auto
    ultimately show ?thesis unfolding completion_ok_def using subscribed_drop by metis
  qed
  moreover have "task_ok (w_nops w) m (w_ops w) cb'" if "cb' \<in># ?ts" for cb'
    using w in_diffD [OF that] by (simp add: world_ok_def)
  ultimately show ?thesis using w by (simp add: world_ok_def)
qed

lemma op_stop_drop:
  "cb \<in># w_tasks w \<Longrightarrow> snd (op_stop i c (w\<lparr>w_tasks := w_tasks w - {#cb#}\<rparr>)) =
     (snd (op_stop i c w))\<lparr>w_tasks := w_tasks (snd (op_stop i c w)) - {#cb#}\<rparr>"
  by (auto simp: op_stop_def put_op_def Let_def split: prod.split)

lemma stop_and_drop_ok:
  assumes "world_ok new m w" "cb \<in># w_tasks w" "i < w_nops w" "c \<noteq> Ok" "cb = StopChild i p \<or> cb = StopByToken i"
  shows "world_ok new m (snd (op_stop i c (w\<lparr>w_tasks := w_tasks w - {#cb#}\<rparr>)))"
  unfolding op_stop_drop [OF assms(2)]
  using assms op_stop_stops [OF assms(4), of i w] by (intro drop_task_ok op_stop_ok) auto

lemma run_callback_ok:
  assumes w: "world_ok {} (w_ncompletions w) w" and cb: "cb \<in># w_tasks w"
  shows "world_ok {} (w_ncompletions w) (run_callback now room cb w)"
proof -
  have task: "task_ok (w_nops w) (w_ncompletions w) (w_ops w) cb" using w cb by (simp add: world_ok_def)
  show ?thesis
  proof (cases cb)
    case (StopChild i p)
    then have "code (OperationState_status now (w_ops w p)) \<noteq> Ok"
      using task by (simp add: OperationState_status_def op_status_def op_base_def Let_def error_def)
    then show ?thesis
      using StopChild task stop_and_drop_ok [OF w cb, of i] drop_task_ok [OF w, of cb]
      by (auto simp: run_callback_def Let_def)
  next
    case (StopByToken i)
    then show ?thesis
      using task stop_and_drop_ok [OF w cb, of i] drop_task_ok [OF w, of cb] by (auto simp: run_callback_def Let_def)
  next
    case (CancelBinding b)
    then show ?thesis using drop_task_ok [OF w, of cb] by (simp add: run_callback_def Let_def world_ok_def)
  next
    case (DeliverStop c)
    have eq: "deliver now c (OK, Native) (w\<lparr>w_tasks := w_tasks w - {#cb#}\<rparr>) =
        (deliver now c (OK, Native) w)\<lparr>w_tasks := w_tasks (deliver now c (OK, Native) w) - {#cb#}\<rparr>"
      by (simp add: deliver_def Let_def)
    have "fulfilled (deliver now c (OK, Native) w) cb" by (simp add: DeliverStop deliver_def Let_def)
    then have "world_ok {} (w_ncompletions w) (deliver now c (OK, Native) (w\<lparr>w_tasks := w_tasks w - {#cb#}\<rparr>))"
      unfolding eq using DeliverStop task by (intro drop_task_ok deliver_ok [OF w]) auto
    then show ?thesis using DeliverStop drop_task_ok [OF w, of cb] by (auto simp: run_callback_def Let_def)
  qed
qed

lemma requestCancellation_ok:
  assumes w: "world_ok {} m w" and s: "s < w_nsources w"
  shows "world_ok {} m (snd (requestCancellation s w))"
proof (cases "sg_requested (w_sources w s)")
  case False
  let ?sg = "(w_sources w s)\<lparr>sg_requested := True\<rparr>"
  let ?ts = "mset (map snd (sg_slots (w_sources w s))) + w_tasks w"
  have eq: "snd (requestCancellation s w) = w\<lparr>w_sources := (w_sources w)(s := ?sg), w_tasks := ?ts\<rparr>"
    using False by (simp add: requestCancellation_def request_def)
  have src: "source_ok (w_nops w) (w_sources w s)" using w s by (simp add: world_ok_def)
  have sub: "set_mset (w_tasks w) \<subseteq> set_mset ?ts" by auto
  have grow: "signal_grows ?ts (w_sources w s') (((w_sources w)(s := ?sg)) s')" for s'
    by (force simp: signal_grows_def)
  have "task_ok (w_nops w) m (w_ops w) cb" if "cb \<in># ?ts" for cb
    using that w src by (fastforce simp: world_ok_def source_ok_def)
  moreover have "parent_ok (w_ops w) ?ts i" if "i < w_nops w" for i
  proof -
    have "parent_ok (w_ops w) (w_tasks w) i" using w that by (simp add: world_ok_def)
    then show ?thesis unfolding parent_ok_def using subscribed_grows [OF _ signal_grows_same sub] by metis
  qed
  moreover have "token_ok (w_nsources w) (w_ops w) ((w_sources w)(s := ?sg)) ?ts i" if "i < w_nops w" for i
  proof -
    have "token_ok (w_nsources w) (w_ops w) (w_sources w) (w_tasks w) i" using w that by (simp add: world_ok_def)
    then show ?thesis unfolding token_ok_def using subscribed_grows [OF _ grow sub] by metis
  qed
  moreover have "completion_ok (w_nops w) (w_ops w) ?ts (w_completions w) (w_delivered w) c" if "c < w_ncompletions w" for c
  proof -
    have "completion_ok (w_nops w) (w_ops w) (w_tasks w) (w_completions w) (w_delivered w) c" using w that by (simp add: world_ok_def)
    then show ?thesis unfolding completion_ok_def using subscribed_grows [OF _ signal_grows_same sub] by metis
  qed
  moreover have "source_ok (w_nops w) (((w_sources w)(s := ?sg)) s')" if "s' < w_nsources w" for s'
    using w that src by (simp add: world_ok_def source_ok_def signal_ok_def)
  ultimately show ?thesis using w unfolding eq by (simp add: world_ok_def del: fun_upd_apply)
qed (use w in \<open>simp add: requestCancellation_def request_def\<close>)

text \<open>The deadline thread drops an entry of an operation that is gone or that it stops.\<close>

lemma deadlines_turn_ok:
  assumes w: "world_ok {} m w" and turn: "deadlines_turn now w = Some w'"
  shows "world_ok {} m w'"
proof -
  obtain d k i es where es: "w_deadlines w = ((d, k), i) # es"
    using turn by (auto simp: deadlines_turn_def split: list.splits)
  define w1 where "w1 = (if op_alive (w_ops w i) then snd (op_stop i QueryTimeout w) else w)"
  have w': "w' = w1\<lparr>w_deadlines := es\<rparr>"
    using turn by (auto simp: deadlines_turn_def es w1_def op_stop_def put_op_def Let_def split: if_splits prod.split)
  have apart: "timers_apart (w_nops w) (w_ops w) (w_deadlines w) (w_timers w)" using w by (simp add: world_ok_def)
  then have i: "i < w_nops w" by (auto simp: es timers_apart_def)
  have w1: "world_ok {} m w1" "w_deadlines w1 = ((d, k), i) # es" "w_nops w1 = w_nops w"
    using w op_stop_ok [OF w i] es by (auto simp: w1_def)
  have settled: "op_alive (w_ops w1 i) \<Longrightarrow> op_reason (w_ops w1 i) \<noteq> Ok"
    using op_stop_stops [of QueryTimeout i w] by (auto simp: w1_def)
  have "timer_ok (w_ops w1) es j" if "j < w_nops w1" for j
  proof -
    have "timer_ok (w_ops w1) (w_deadlines w1) j" using w1 that by (simp add: world_ok_def)
    then show ?thesis using settled w1(2) by (cases "j = i") (auto simp: timer_ok_def)
  qed
  moreover have "timers_apart (w_nops w1) (w_ops w1) es (w_timers w1)"
    using w1 timers_apart_fewer [of _ _ "w_deadlines w1" _ es] by (auto simp: world_ok_def)
  ultimately show ?thesis using w1 unfolding w' by (simp add: world_ok_def)
qed

subsection \<open>New operations\<close>

lemma timers_apart_new:
  assumes apart: "timers_apart n ops es t" and st: "op_timer st = None"
  shows "timers_apart (Suc n) (ops(n := st)) es t"
proof -
  have old: "i < n \<and> op_timer (ops i) = Some k" if "i < Suc n" "op_timer ((ops(n := st)) i) = Some k" for i k
    using that st by (cases "i = n") auto
  have "snd e < Suc n \<and> op_timer ((ops(n := st)) (snd e)) = Some (snd (fst e))" if "e \<in> set es" for e
    using apart that unfolding timers_apart_def by auto
  moreover have "k \<le> t" if "i < Suc n" "op_timer ((ops(n := st)) i) = Some k" for i k
    using apart old [OF that] unfolding timers_apart_def by blast
  moreover have "j = i" if "i < Suc n" "j < Suc n" "op_timer ((ops(n := st)) i) = Some k" "op_timer ((ops(n := st)) j) = Some k" for i j k
    using timers_apartD [OF apart] old [OF that(1,3)] old [OF that(2,4)] by blast
  ultimately show ?thesis unfolding timers_apart_def by blast
qed

lemma set_deadlines_add [simp]: "set (deadlines_add e es) = insert e (set es)"
  by (induction es) auto

lemma timers_apart_add:
  assumes apart: "timers_apart n ops es t" and i: "i < n" "op_timer (ops i) = None" and st: "op_timer st = Some (t + 1)"
  shows "timers_apart n (ops(i := st)) (deadlines_add ((d, t + 1), i) es) (t + 1)"
proof -
  have old: "k \<le> t" if "j < n" "op_timer (ops j) = Some k" for j k
    using apart that unfolding timers_apart_def by blast
  have now: "j = i \<and> k = t + 1 \<or> j \<noteq> i \<and> op_timer (ops j) = Some k \<and> k \<le> t"
    if "j < n" "op_timer ((ops(i := st)) j) = Some k" for j k
    using that st old [of j k] by (cases "j = i") auto
  have "snd e < n \<and> op_timer ((ops(i := st)) (snd e)) = Some (snd (fst e))" if "e \<in> set (deadlines_add ((d, t + 1), i) es)" for e
  proof -
    have "snd e < n \<and> op_timer (ops (snd e)) = Some (snd (fst e))" if "e \<in> set es"
      using apart that unfolding timers_apart_def by blast
    then show ?thesis using that i st by (cases "e \<in> set es") auto
  qed
  moreover have "k \<le> t + 1" if "j < n" "op_timer ((ops(i := st)) j) = Some k" for j k
    using now [OF that] by auto
  moreover have "l = j" if "j < n" "l < n" "op_timer ((ops(i := st)) j) = Some k" "op_timer ((ops(i := st)) l) = Some k" for j l k
    using now [OF that(1,3)] now [OF that(2,4)] timers_apartD [OF apart that(1,2)] by auto
  ultimately show ?thesis unfolding timers_apart_def by blast
qed

lemma parent_ok_before:
  assumes "parent_ok ops ts j" "j < i"
  shows "parent_ok (ops(i := st)) ts j"
  unfolding parent_ok_def
proof (intro allI impI)
  fix p slot
  assume "op_alive ((ops(i := st)) j)" "op_parent ((ops(i := st)) j) = Some (p, slot)"
  then have *: "p < j \<and> earlier (op_deadline (ops j)) (op_deadline (ops p)) \<and> (op_fallback (ops j) \<longrightarrow> op_fallback (ops p)) \<and>
      subscribed (op_signal (ops p)) ts slot (StopChild j p) (op_reason (ops j) \<noteq> Ok)"
    using assms by (simp add: parent_ok_def)
  then have "p \<noteq> i" "j \<noteq> i" using assms(2) by auto
  then show "p < j \<and> earlier (op_deadline ((ops(i := st)) j)) (op_deadline ((ops(i := st)) p)) \<and>
      (op_fallback ((ops(i := st)) j) \<longrightarrow> op_fallback ((ops(i := st)) p)) \<and>
      subscribed (op_signal ((ops(i := st)) p)) ts slot (StopChild j p) (op_reason ((ops(i := st)) j) \<noteq> Ok)"
    using * by simp
qed

lemma new_op_ok:
  assumes w: "world_ok {} m w"
  shows "world_ok {w_nops w} m (w\<lparr>w_ops := (w_ops w)(w_nops w := OperationState_new now opts), w_nops := w_nops w + 1\<rparr>)"
proof -
  let ?n = "w_nops w" and ?st = "OperationState_new now opts"
  let ?ops = "(w_ops w)(?n := ?st)"
  have st: "op_parent ?st = None" "op_token ?st = None" "op_timer ?st = None" "op_reason ?st = Ok" "op_signal ?st = new_signal"
    by (simp_all add: OperationState_new_def Let_def)
  have slot: "slot_ok ?n m i cb \<Longrightarrow> slot_ok (Suc ?n) m i cb" for i cb by (cases cb) auto
  have op: "op_ok ?n m i x \<Longrightarrow> op_ok (Suc ?n) m i x" for i x using slot by (fastforce simp: op_ok_def)
  have task: "task_ok ?n m (w_ops w) cb \<Longrightarrow> task_ok (Suc ?n) m ?ops cb" for cb by (cases cb) auto
  have src: "source_ok ?n sg \<Longrightarrow> source_ok (Suc ?n) sg" for sg by (fastforce simp: source_ok_def)
  have "op_ok (Suc ?n) m i (?ops i)" if "i < Suc ?n" for i
  proof (cases "i = ?n")
    case False
    then show ?thesis using that w op by (simp add: world_ok_def)
  qed (use st in \<open>simp add: op_ok_def new_signal_def signal_ok_def\<close>)
  moreover have "parent_ok ?ops (w_tasks w) i" if "i < Suc ?n" for i
  proof (cases "i = ?n")
    case False
    then have "parent_ok (w_ops w) (w_tasks w) i" using w that by (simp add: world_ok_def)
    then show ?thesis using False that by (intro parent_ok_before) auto
  qed (use st in \<open>simp add: parent_ok_def\<close>)
  moreover have "token_ok (w_nsources w) ?ops (w_sources w) (w_tasks w) i" if "i < Suc ?n" for i
    using that w st by (cases "i = ?n") (auto simp: world_ok_def token_ok_def less_Suc_eq)
  moreover have "completion_ok (Suc ?n) ?ops (w_tasks w) (w_completions w) (w_delivered w) c" if "c < w_ncompletions w" for c
  proof -
    have "completion_ok ?n (w_ops w) (w_tasks w) (w_completions w) (w_delivered w) c" using w that by (simp add: world_ok_def)
    then show ?thesis by (simp add: completion_ok_def)
  qed
  moreover have "binding_ok (Suc ?n) ?ops (w_bindings w) b" if "b < w_nbindings w" for b
  proof -
    have "binding_ok ?n (w_ops w) (w_bindings w) b" using w that by (simp add: world_ok_def)
    then show ?thesis by (simp add: binding_ok_def)
  qed
  moreover have "timers_apart (Suc ?n) ?ops (w_deadlines w) (w_timers w)"
  proof -
    have "timers_apart ?n (w_ops w) (w_deadlines w) (w_timers w)" using w by (simp add: world_ok_def)
    then show ?thesis using st(3) by (rule timers_apart_new)
  qed
  moreover have "timer_ok ?ops (w_deadlines w) i" if "i < Suc ?n" "i \<noteq> ?n" for i
    using that w by (simp add: world_ok_def timer_ok_def)
  ultimately show ?thesis using w task src by (simp add: world_ok_def del: fun_upd_apply)
qed

lemma min_deadline_earlier: "earlier (min_deadline a b) b"
  by (auto simp: earlier_def min_deadline_def split: option.split)

text \<open>The last operation has no operations below it: its own links may change.\<close>

lemma relink_last:
  assumes w: "world_ok {i} m w" and i: "Suc i = w_nops w"
    and st: "op_signal st = op_signal (w_ops w i)" "op_reason st = op_reason (w_ops w i)" "op_timer st = op_timer (w_ops w i)"
    and parent: "parent_ok ((w_ops w)(i := st)) (w_tasks w) i"
    and token: "token_ok (w_nsources w) ((w_ops w)(i := st)) (w_sources w) (w_tasks w) i"
  shows "world_ok {i} m (put_op i st w)"
proof -
  let ?ops = "(w_ops w)(i := st)"
  have same: "op_signal (?ops j) = op_signal (w_ops w j)" "op_reason (?ops j) = op_reason (w_ops w j)"
      "op_timer (?ops j) = op_timer (w_ops w j)" for j using st by simp_all
  have "parent_ok ?ops (w_tasks w) j" if "j < w_nops w" for j
  proof (cases "j = i")
    case False
    then have "j < i" using i that by simp
    moreover have "parent_ok (w_ops w) (w_tasks w) j" using w that by (simp add: world_ok_def)
    ultimately show ?thesis by (intro parent_ok_before)
  qed (use parent in simp)
  moreover have "token_ok (w_nsources w) ?ops (w_sources w) (w_tasks w) j" if "j < w_nops w" for j
  proof (cases "j = i")
    case False
    moreover have "token_ok (w_nsources w) (w_ops w) (w_sources w) (w_tasks w) j" using w that by (simp add: world_ok_def)
    ultimately show ?thesis unfolding token_ok_def by simp
  qed (use token in simp)
  moreover have "timers_apart (w_nops w) ?ops (w_deadlines w) (w_timers w)"
    by (rule timers_apart_same [of _ "w_ops w"]) (use w same in \<open>simp_all add: world_ok_def\<close>)
  moreover have "timer_ok ?ops (w_deadlines w) j" if "j < w_nops w" "j \<noteq> i" for j
    using w that by (simp add: world_ok_def timer_ok_def)
  moreover have "task_ok (w_nops w) m ?ops cb" if "cb \<in># w_tasks w" for cb
    using w that st by (intro task_ok_change) (auto simp: world_ok_def)
  ultimately show ?thesis
    using w same by (simp add: world_ok_def put_op_def op_ok_def completion_ok_def binding_ok_def del: fun_upd_apply)
qed

lemma join_parent_ok:
  assumes w: "world_ok {i} m w" and i: "Suc i = w_nops w" and p: "\<And>p. parent = Some p \<Longrightarrow> p < i"
    and new: "op_parent (w_ops w i) = None" "op_token (w_ops w i) = None"
  shows "world_ok {i} m (join_parent i parent w) \<and> w_nops (join_parent i parent w) = w_nops w \<and>
    w_nsources (join_parent i parent w) = w_nsources w \<and> w_ncompletions (join_parent i parent w) = w_ncompletions w \<and>
    op_token (w_ops (join_parent i parent w) i) = None"
proof (cases parent)
  case (Some q)
  let ?st = "(w_ops w i)\<lparr>op_deadline := min_deadline (op_deadline (w_ops w i)) (op_deadline (w_ops w q)),
      op_fallback := op_fallback (w_ops w i) \<and> op_fallback (w_ops w q)\<rparr>"
  let ?w1 = "put_op i ?st w"
  have q: "q < i" "q < w_nops w" using p Some i by auto
  have w1: "world_ok {i} m ?w1"
    by (rule relink_last [OF w i]) (use new in \<open>simp_all add: parent_ok_def token_ok_def\<close>)
  obtain slot w2 where s: "op_subscribe q (StopChild i q) ?w1 = (slot, w2)" by fastforce
  have slot: "q < w_nops ?w1" "slot_ok (w_nops ?w1) m q (StopChild i q)" using q i by (simp_all add: put_op_def)
  note sub = op_subscribe_ok [OF w1 slot s]
  have w2: "w_nops w2 = w_nops w" "w_nsources w2 = w_nsources w" "w_ncompletions w2 = w_ncompletions w"
      "w_ops w2 i = ?st" "op_deadline (w_ops w2 q) = op_deadline (w_ops w q)" "op_fallback (w_ops w2 q) = op_fallback (w_ops w q)"
    using arg_cong [OF sub(3), of w_nops] arg_cong [OF sub(3), of w_nsources] arg_cong [OF sub(3), of w_ncompletions]
      arg_cong [OF sub(3), of "\<lambda>w. w_ops w i"] sub(4) q
    by (simp_all add: put_op_def same_links_def)
  let ?st2 = "(w_ops w2 i)\<lparr>op_parent := Some (q, slot)\<rparr>"
  have "parent_ok ((w_ops w2)(i := ?st2)) (w_tasks w2) i"
    using q w2 min_deadline_earlier sub(2) by (auto simp: parent_ok_def subscribed_def)
  moreover have "token_ok (w_nsources w2) ((w_ops w2)(i := ?st2)) (w_sources w2) (w_tasks w2) i"
    using w2 new by (simp add: token_ok_def)
  ultimately have "world_ok {i} m (put_op i ?st2 w2)" using sub(1) i w2 by (intro relink_last) simp_all
  moreover have "join_parent i parent w = put_op i ?st2 w2" using s by (simp add: join_parent_def Some Let_def)
  ultimately show ?thesis using w2 new by (simp add: put_op_def)
qed (use w new in \<open>simp add: join_parent_def\<close>)

lemma join_token_ok:
  assumes w: "world_ok {i} m w" and i: "Suc i = w_nops w" and s: "\<And>s. token = Some s \<Longrightarrow> s < w_nsources w"
    and new: "op_token (w_ops w i) = None"
  shows "world_ok {i} m (join_token i token w) \<and> w_nops (join_token i token w) = w_nops w \<and>
    w_ncompletions (join_token i token w) = w_ncompletions w"
proof (cases token)
  case (Some k)
  obtain slot cbs sg where sub: "subscribe (StopByToken i) (w_sources w k) = (slot, cbs, sg)" by (metis prod_cases3)
  let ?sgs = "(w_sources w)(k := sg)" and ?ts = "mset cbs + w_tasks w"
  let ?w1 = "w\<lparr>w_sources := ?sgs, w_tasks := ?ts\<rparr>"
  have k: "k < w_nsources w" using s Some by simp
  have src: "source_ok (w_nops w) (w_sources w k)" using w k by (simp add: world_ok_def)
  have ts: "set_mset (w_tasks w) \<subseteq> set_mset ?ts" by auto
  have grow: "signal_grows ?ts (w_sources w s') (?sgs s')" for s' using subscribe_slot [OF sub, of _ _ ?ts] by simp
  have "source_ok (w_nops w) (?sgs s')" if "s' < w_nsources w" for s'
  proof (cases "s' = k")
    case True
    then show ?thesis
      using src subscribe_slot [OF sub] subscribe_signal_ok [OF _ sub] i by (fastforce simp: source_ok_def)
  qed (use w that in \<open>simp add: world_ok_def\<close>)
  moreover have "task_ok (w_nops w) m (w_ops w) cb" if "cb \<in># ?ts" for cb
    using that w subscribe_slot [OF sub] i by (fastforce simp: world_ok_def)
  moreover have "parent_ok (w_ops w) ?ts j" if "j < w_nops w" for j
  proof -
    have "parent_ok (w_ops w) (w_tasks w) j" using w that by (simp add: world_ok_def)
    then show ?thesis unfolding parent_ok_def using subscribed_grows [OF _ signal_grows_same ts] by metis
  qed
  moreover have "token_ok (w_nsources w) (w_ops w) ?sgs ?ts j" if "j < w_nops w" for j
  proof -
    have "token_ok (w_nsources w) (w_ops w) (w_sources w) (w_tasks w) j" using w that by (simp add: world_ok_def)
    then show ?thesis unfolding token_ok_def using subscribed_grows [OF _ grow ts] by metis
  qed
  moreover have "completion_ok (w_nops w) (w_ops w) ?ts (w_completions w) (w_delivered w) c" if "c < w_ncompletions w" for c
  proof -
    have "completion_ok (w_nops w) (w_ops w) (w_tasks w) (w_completions w) (w_delivered w) c" using w that by (simp add: world_ok_def)
    then show ?thesis unfolding completion_ok_def using subscribed_grows [OF _ signal_grows_same ts] by metis
  qed
  ultimately have w1: "world_ok {i} m ?w1" using w by (simp add: world_ok_def del: fun_upd_apply)
  let ?st = "(w_ops w i)\<lparr>op_token := Some (k, slot)\<rparr>"
  have "parent_ok (w_ops w) ?ts i" using w1 i by (simp add: world_ok_def)
  then have "parent_ok ((w_ops w)(i := ?st)) ?ts i"
    unfolding parent_ok_def by (auto simp: less_imp_not_eq)
  moreover have "token_ok (w_nsources w) ((w_ops w)(i := ?st)) ?sgs ?ts i"
    using k subscribe_slot [OF sub, of "w_tasks w"] by (simp add: token_ok_def)
  ultimately have "world_ok {i} m (put_op i ?st ?w1)" using w1 i by (intro relink_last) simp_all
  moreover have "join_token i token w = put_op i ?st ?w1" by (simp add: join_token_def Some sub put_op_def)
  ultimately show ?thesis by (simp add: put_op_def)
qed (use w in \<open>simp add: join_token_def\<close>)

lemma join_deadline_ok:
  assumes w: "world_ok {i} m w" and i: "i < w_nops w" and new: "op_timer (w_ops w i) = None"
  shows "world_ok {} m (join_deadline i w)"
proof (cases "op_deadline (w_ops w i)")
  case None
  then have "timer_ok (w_ops w) (w_deadlines w) i" by (simp add: timer_ok_def)
  then show ?thesis using w None by (auto simp: join_deadline_def world_ok_def)
next
  case (Some d)
  let ?st = "(w_ops w i)\<lparr>op_timer := Some (w_timers w + 1)\<rparr>"
  let ?ops = "(w_ops w)(i := ?st)" and ?es = "deadlines_add ((d, w_timers w + 1), i) (w_deadlines w)"
  have same: "op_signal (?ops j) = op_signal (w_ops w j)" "op_reason (?ops j) = op_reason (w_ops w j)"
      "op_parent (?ops j) = op_parent (w_ops w j)" "op_token (?ops j) = op_token (w_ops w j)"
      "op_alive (?ops j) = op_alive (w_ops w j)" "op_deadline (?ops j) = op_deadline (w_ops w j)"
      "op_fallback (?ops j) = op_fallback (w_ops w j)" for j by simp_all
  have "timers_apart (w_nops w) ?ops ?es (w_timers w + 1)"
    using w i new by (intro timers_apart_add) (simp_all add: world_ok_def)
  moreover have "timer_ok ?ops ?es j" if "j < w_nops w" for j
  proof (cases "j = i")
    case False
    then have "timer_ok (w_ops w) (w_deadlines w) j" using w that by (simp add: world_ok_def)
    then show ?thesis using False by (auto simp: timer_ok_def)
  qed (use Some in \<open>simp add: timer_ok_def\<close>)
  moreover have "task_ok (w_nops w) m ?ops cb" if "cb \<in># w_tasks w" for cb
    using w that by (intro task_ok_change) (auto simp: world_ok_def)
  moreover have "parent_ok ?ops (w_tasks w) j" "token_ok (w_nsources w) ?ops (w_sources w) (w_tasks w) j" if "j < w_nops w" for j
    using w that unfolding world_ok_def parent_ok_def token_ok_def same by blast+
  ultimately show ?thesis
    using w Some same
    by (simp add: join_deadline_def world_ok_def put_op_def op_ok_def completion_ok_def binding_ok_def Let_def
        del: fun_upd_apply)
qed

lemma timer_kept:
  "op_timer (w_ops (snd (op_subscribe p cb w)) j) = op_timer (w_ops w j)"
  "op_timer (w_ops (snd (op_stop k c w)) j) = op_timer (w_ops w j)"
  "op_timer (w_ops (join_token i token w) j) = op_timer (w_ops w j)"
  by (simp_all add: op_subscribe_def op_stop_def join_token_def put_op_def Let_def split: prod.split option.split)

lemma timer_kept_parent: "op_timer (w_ops (join_parent i parent w) j) = op_timer (w_ops w j)"
proof (cases parent)
  case (Some p)
  let ?w1 = "put_op i ((w_ops w i)\<lparr>op_deadline := min_deadline (op_deadline (w_ops w i)) (op_deadline (w_ops w p)),
      op_fallback := op_fallback (w_ops w i) \<and> op_fallback (w_ops w p)\<rparr>) w"
  have "op_timer (w_ops (snd (op_subscribe p (StopChild i p) ?w1)) k) = op_timer (w_ops w k)" for k
    unfolding timer_kept by (simp add: put_op_def)
  then show ?thesis by (simp add: join_parent_def Some Let_def split_def) (simp add: put_op_def)
qed (simp add: join_parent_def)

lemma join_deadline_frame [simp]: "w_ncompletions (join_deadline i w) = w_ncompletions w"
  by (simp add: join_deadline_def put_op_def Let_def split: option.split)

lemma op_create_ok:
  assumes w: "world_ok {} (w_ncompletions w) w" and p: "\<And>p. parent = Some p \<Longrightarrow> p < w_nops w"
    and s: "\<And>s. oo_cancellation opts = Some s \<Longrightarrow> s < w_nsources w"
  shows "world_ok {} (w_ncompletions (snd (op_create now opts parent w))) (snd (op_create now opts parent w))"
proof -
  define i m where "i = w_nops w" and "m = w_ncompletions w"
  define w1 where "w1 = w\<lparr>w_ops := (w_ops w)(i := OperationState_new now opts), w_nops := i + 1\<rparr>"
  define w2 where "w2 = join_parent i parent w1"
  define w3 where "w3 = join_token i (oo_cancellation opts) w2"
  define w4 where "w4 = (if oo_timeout opts < 0 then snd (op_stop i ConfigError w3) else w3)"
  have w1: "world_ok {i} m w1" "w_nops w1 = Suc i" "w_nsources w1 = w_nsources w" "w_ncompletions w1 = m"
      "w_ops w1 i = OperationState_new now opts"
    using new_op_ok [OF w] by (simp_all add: w1_def i_def m_def)
  have w2: "world_ok {i} m w2" "w_nops w2 = Suc i" "w_nsources w2 = w_nsources w" "w_ncompletions w2 = m"
      "op_token (w_ops w2 i) = None"
    using join_parent_ok [OF w1(1), of parent] p w1 by (simp_all add: w2_def i_def OperationState_new_def Let_def)
  have w3: "world_ok {i} m w3" "w_nops w3 = Suc i" "w_ncompletions w3 = m"
    using join_token_ok [OF w2(1), of "oo_cancellation opts"] w2 s by (simp_all add: w3_def)
  have w4: "world_ok {i} m w4" "w_nops w4 = Suc i" "w_ncompletions w4 = m"
    using w3 op_stop_ok [OF w3(1), of i ConfigError] by (simp_all add: w4_def)
  have "op_timer (w_ops w3 i) = None"
    unfolding w3_def w2_def timer_kept timer_kept_parent w1(5) by (simp add: OperationState_new_def Let_def)
  then have "op_timer (w_ops w4 i) = None" by (simp add: w4_def timer_kept)
  then have "world_ok {} m (join_deadline i w4)" using join_deadline_ok [OF w4(1)] w4 by simp
  moreover have "snd (op_create now opts parent w) = join_deadline i w4"
    by (simp add: op_create_def w1_def w2_def w3_def w4_def i_def Let_def)
  ultimately show ?thesis using w4 by simp
qed

section \<open>What every run keeps\<close>

lemma ncompletions_kept [simp]:
  "w_ncompletions (deliver now c r w) = w_ncompletions w"
  "w_ncompletions (run_callback now room cb w) = w_ncompletions w"
  "w_ncompletions (put_op i st w) = w_ncompletions w"
  "w_ncompletions (op_unsubscribe i slot w) = w_ncompletions w"
  "w_ncompletions (snd (op_subscribe i cb w)) = w_ncompletions w"
  "w_ncompletions (snd (requestCancellation s w)) = w_ncompletions w"
  "w_ncompletions (run_cancel b w) = w_ncompletions w"
proof -
  show "w_ncompletions (run_callback now room cb w) = w_ncompletions w"
    by (cases cb) (simp_all add: run_callback_def deliver_def Let_def)
qed (simp_all add: deliver_def put_op_def op_unsubscribe_def op_subscribe_def requestCancellation_def run_cancel_def Let_def
      split: prod.split)

lemma ncompletions_composed [simp]:
  "w_ncompletions (op_destroy i w) = w_ncompletions w"
  "w_ncompletions (op_unbind b w) = w_ncompletions w"
  "w_ncompletions (drop_completion c w) = w_ncompletions w"
  "w_ncompletions (snd (op_bind i write native w)) = w_ncompletions w"
proof -
  show "w_ncompletions (op_destroy i w) = w_ncompletions w"
    by (simp add: op_destroy_def leave_token_def leave_parent_def op_finish_def split: option.split)
  show "w_ncompletions (op_unbind b w) = w_ncompletions w" "w_ncompletions (drop_completion c w) = w_ncompletions w"
    by (simp_all add: op_unbind_def drop_completion_def Let_def)
  show "w_ncompletions (snd (op_bind i write native w)) = w_ncompletions w"
    by (simp add: op_bind_def Let_def split_def)
qed

lemma deadlines_turn_completions: "deadlines_turn now w = Some w' \<Longrightarrow> w_ncompletions w' = w_ncompletions w"
  by (auto simp: deadlines_turn_def Let_def split: list.splits if_splits)

lemma op_step_ok: "op_step w w' \<Longrightarrow> world_ok {} (w_ncompletions w) w \<Longrightarrow> world_ok {} (w_ncompletions w') w'"
proof (induction rule: op_step.induct)
  case (source w)
  have "source_ok (w_nops w) new_signal" by (simp add: source_ok_def new_signal_def signal_ok_def)
  moreover have "token_ok (w_nsources w + 1) (w_ops w) ((w_sources w)(w_nsources w := new_signal)) (w_tasks w) i"
    if "i < w_nops w" for i
  proof -
    have "token_ok (w_nsources w) (w_ops w) (w_sources w) (w_tasks w) i" using source that by (simp add: world_ok_def)
    then show ?thesis unfolding token_ok_def by (auto simp: less_imp_neq)
  qed
  ultimately show ?case using source by (auto simp: world_ok_def less_Suc_eq)
next
  case (create parent w opts now)
  then show ?case by (intro op_create_ok)
next
  case (result c w now r)
  then show ?case by (simp add: deliver_ok)
next
  case (callback cb w now room)
  then show ?case by (simp add: run_callback_ok)
next
  case (driver_cancel b w)
  then show ?case by (simp add: run_cancel_def world_ok_def Let_def)
qed (simp_all add: op_destroy_ok op_stop_ok requestCancellation_ok deadlines_turn_ok deadlines_turn_completions
      op_bind_ok op_unbind_ok controlledCompletion_ok drop_completion_ok)

lemma op_reach_ok: "op_reach w \<Longrightarrow> world_ok {} (w_ncompletions w) w"
proof (induction rule: op_reach.induct)
  case (init w)
  then show ?case using empty_world_ok by (simp add: empty_world_def)
qed (rule op_step_ok)

text \<open>The operations below an operation: started while it was current, at any depth.\<close>

definition child_of :: "world \<Rightarrow> nat \<Rightarrow> nat \<Rightarrow> bool" where
  "child_of w i p \<longleftrightarrow> i < w_nops w \<and> op_alive (w_ops w i) \<and> (\<exists>slot. op_parent (w_ops w i) = Some (p, slot))"

lemma earlier_trans: "earlier a b \<Longrightarrow> earlier b c \<Longrightarrow> earlier a c"
  by (auto simp: earlier_def split: option.splits)

text \<open>
  Stopping an operation stops every operation below it: when no callback is left to run, all of them
  are stopped. Their deadlines are never later than its own, and a token that was cancelled has
  stopped every operation that carries it.
\<close>

text \<open>
  C22: In every interleaving an operation below another has no later deadline, and once the
  called callbacks have run it is stopped if the upper one or its cancellation source is.
\<close>

theorem stop_reaches_below:
  assumes "op_reach w" "(child_of w)\<^sup>+\<^sup>+ i p"
  shows "earlier (op_deadline (w_ops w i)) (op_deadline (w_ops w p)) \<and>
    (w_tasks w = {#} \<and> op_reason (w_ops w p) \<noteq> Ok \<longrightarrow> op_reason (w_ops w i) \<noteq> Ok) \<and>
    (w_tasks w = {#} \<and> op_token (w_ops w i) = Some (s, slot) \<and> cancellationRequested s w \<longrightarrow> op_reason (w_ops w i) \<noteq> Ok)"
proof -
  have ok: "world_ok {} (w_ncompletions w) w" using op_reach_ok assms(1) by blast
  have step: "earlier (op_deadline (w_ops w i)) (op_deadline (w_ops w p)) \<and> p < i \<and>
      (w_tasks w = {#} \<and> op_reason (w_ops w p) \<noteq> Ok \<longrightarrow> op_reason (w_ops w i) \<noteq> Ok)" if c: "child_of w i p" for i p
  proof -
    obtain slot where i: "i < w_nops w" "op_alive (w_ops w i)" "op_parent (w_ops w i) = Some (p, slot)"
      using c by (auto simp: child_of_def)
    have "parent_ok (w_ops w) (w_tasks w) i" using ok i by (simp add: world_ok_def)
    then have p: "p < i" "earlier (op_deadline (w_ops w i)) (op_deadline (w_ops w p))"
        "subscribed (op_signal (w_ops w p)) (w_tasks w) slot (StopChild i p) (op_reason (w_ops w i) \<noteq> Ok)"
      using i by (simp_all add: parent_ok_def)
    have "op_ok (w_nops w) (w_ncompletions w) p (w_ops w p)" using ok i p by (simp add: world_ok_def)
    then show ?thesis using p by (auto simp: op_ok_def subscribed_def)
  qed
  have i: "i < w_nops w \<and> op_alive (w_ops w i)"
    using assms(2) by (rule converse_tranclpE) (simp_all add: child_of_def)
  then have "token_ok (w_nsources w) (w_ops w) (w_sources w) (w_tasks w) i" using ok by (simp add: world_ok_def)
  then have token: "w_tasks w = {#} \<and> op_token (w_ops w i) = Some (s, slot) \<and> cancellationRequested s w \<longrightarrow> op_reason (w_ops w i) \<noteq> Ok"
    using i by (auto simp: token_ok_def subscribed_def cancellationRequested_def)
  have "earlier (op_deadline (w_ops w i)) (op_deadline (w_ops w p)) \<and>
      (w_tasks w = {#} \<and> op_reason (w_ops w p) \<noteq> Ok \<longrightarrow> op_reason (w_ops w i) \<noteq> Ok)"
    using assms(2)
  proof (induction rule: tranclp_induct)
    case (base y)
    then show ?case using step by blast
  next
    case (step y z)
    then show ?case using \<open>\<And>i p. child_of w i p \<Longrightarrow> _\<close> earlier_trans by blast
  qed
  then show ?thesis using token by blast
qed

text \<open>
  C12: In every interleaving of results, deadlines, cancellations and drops of completions a
  controlled completion is called at most once; it has been called exactly once when its
  operation is stopped, the callbacks have run and its owner has not dropped it, and exactly
  once after a result is delivered to it. A completion that its owner drops before is not called
  by the stop (dropped_completion_not_called).
\<close>

theorem completion_called_once:
  assumes "op_reach w" "c < w_ncompletions w"
  shows "count_list (map fst (w_delivered w)) c \<le> 1 \<and>
    (cp_alive (w_completions w c) \<and> w_tasks w = {#} \<and> op_reason (w_ops w (cp_op (w_completions w c))) \<noteq> Ok \<longrightarrow>
       count_list (map fst (w_delivered w)) c = 1) \<and>
    count_list (map fst (w_delivered (deliver now c r w))) c = 1"
proof -
  have ok: "world_ok {} (w_ncompletions w) w" using op_reach_ok assms(1) by blast
  then have c: "completion_ok (w_nops w) (w_ops w) (w_tasks w) (w_completions w) (w_delivered w) c"
    using assms(2) by (simp add: world_ok_def)
  then have "op_ok (w_nops w) (w_ncompletions w) (cp_op (w_completions w c)) (w_ops w (cp_op (w_completions w c)))"
    using ok by (simp add: world_ok_def completion_ok_def)
  moreover have "completion_ok (w_nops w) (w_ops w) (w_tasks w) (w_completions (deliver now c r w)) (w_delivered (deliver now c r w)) c"
    using c by (auto simp: deliver_def completion_ok_def subscribed_def Let_def)
  ultimately show ?thesis
    using c by (auto simp: completion_ok_def op_ok_def subscribed_def deliver_def Let_def)
qed

section \<open>Deadlines\<close>

abbreviation deadline_times :: "((nanos \<times> nat) \<times> nat) list \<Rightarrow> nanos list" where
  "deadline_times es \<equiv> map (\<lambda>e. fst (fst e)) es"

lemma deadlines_add_sorted: "sorted (deadline_times es) \<Longrightarrow> sorted (deadline_times (deadlines_add e es))"
proof (induction es)
  case (Cons f es)
  then show ?case by (auto simp: less_imp_le)
qed simp

lemma deadlines_kept [simp]:
  "w_deadlines (put_op i st w) = w_deadlines w" "w_deadlines (deliver now c r w) = w_deadlines w"
  "w_deadlines (op_unsubscribe i slot w) = w_deadlines w" "w_deadlines (snd (op_subscribe i cb w)) = w_deadlines w"
  "w_deadlines (join_token i token w) = w_deadlines w" "w_deadlines (run_cancel b w) = w_deadlines w"
  "w_deadlines (snd (requestCancellation s w)) = w_deadlines w"
  by (simp_all add: put_op_def deliver_def op_unsubscribe_def op_subscribe_def join_token_def run_cancel_def
      requestCancellation_def Let_def split: prod.split option.split)

lemma deadlines_kept_composed [simp]:
  "w_deadlines (join_parent i parent w) = w_deadlines w"
  "w_deadlines (run_callback now room cb w) = w_deadlines w"
  "w_deadlines (snd (op_bind i write native w)) = w_deadlines w"
  "w_deadlines (op_unbind b w) = w_deadlines w" "w_deadlines (drop_completion c w) = w_deadlines w"
  "w_deadlines (snd (controlledCompletion i w)) = w_deadlines w"
proof -
  show "w_deadlines (join_parent i parent w) = w_deadlines w"
    by (cases parent) (simp_all add: join_parent_def Let_def split_def)
  show "w_deadlines (run_callback now room cb w) = w_deadlines w"
    by (cases cb) (simp_all add: run_callback_def Let_def)
qed (simp_all add: op_bind_def op_unbind_def drop_completion_def controlledCompletion_def Let_def split_def)

lemma op_step_sorted: "op_step w w' \<Longrightarrow> sorted (deadline_times (w_deadlines w)) \<Longrightarrow> sorted (deadline_times (w_deadlines w'))"
proof (induction rule: op_step.induct)
  case (create parent w opts now)
  let ?w3 = "join_token (w_nops w) (oo_cancellation opts)
      (join_parent (w_nops w) parent (w\<lparr>w_ops := (w_ops w)(w_nops w := OperationState_new now opts), w_nops := w_nops w + 1\<rparr>))"
  have "sorted (deadline_times (w_deadlines (join_deadline i v)))" if "w_deadlines v = w_deadlines w" for i v
    using create that deadlines_add_sorted by (auto simp: join_deadline_def Let_def split: option.split)
  then show ?case by (simp add: op_create_def Let_def)
next
  case (destroy i w)
  then show ?case
    by (auto simp: op_destroy_def leave_token_def leave_parent_def op_finish_def deadlines_remove_def sorted_filter
        split: option.split)
next
  case (deadline now w w')
  then show ?case by (auto simp: deadlines_turn_def Let_def split: list.splits if_splits)
qed simp_all

lemma op_reach_sorted: "op_reach w \<Longrightarrow> sorted (deadline_times (w_deadlines w))"
  by (induction rule: op_reach.induct) (auto simp: empty_world_def intro: op_step_sorted)

text \<open>
  Once the deadline thread has nothing left to do at a time, every operation whose deadline has come
  is stopped.
\<close>

text \<open>
  C31: When the deadline thread has nothing more to do at a time, every living operation whose
  deadline has passed by then is stopped.
\<close>

theorem deadlines_enforced:
  assumes "op_reach w" "deadlines_turn now w = None" "i < w_nops w" "op_alive (w_ops w i)"
    "op_deadline (w_ops w i) = Some d" "d \<le> now"
  shows "op_reason (w_ops w i) \<noteq> Ok"
proof (rule ccontr)
  assume "\<not> op_reason (w_ops w i) \<noteq> Ok"
  moreover have "timer_ok (w_ops w) (w_deadlines w) i"
    using op_reach_ok [OF assms(1)] assms(3) by (simp add: world_ok_def)
  ultimately obtain k where k: "((d, k), i) \<in> set (w_deadlines w)"
    using assms by (auto simp: timer_ok_def)
  then obtain e es where es: "w_deadlines w = e # es" by (cases "w_deadlines w") auto
  have "fst (fst e) \<le> d" using op_reach_sorted [OF assms(1)] k unfolding es by auto
  moreover have "fst (fst e) > now" using assms(2) by (cases e) (auto simp: deadlines_turn_def es Let_def split: if_splits)
  ultimately show False using assms(6) by simp
qed

section \<open>Callbacks end\<close>

text \<open>
  The callbacks that may still run: those called, and those in the slots of signals that have not
  been requested. Running one uses it up.
\<close>

definition slots_left :: "OpState \<Rightarrow> nat" where
  "slots_left st = (if sg_requested (op_signal st) then 0 else length (sg_slots (op_signal st)))"

definition calls_left :: "world \<Rightarrow> nat" where
  "calls_left w = size (w_tasks w) + (\<Sum>i < w_nops w. slots_left (w_ops w i))"

lemma sum_change_one: "i < n \<Longrightarrow> (\<Sum>j < (n::nat). f ((g(i := x)) j)) + f (g i) = (\<Sum>j < n. f (g j)) + (f x :: nat)"
proof -
  assume i: "i < n"
  have "(\<Sum>j \<in> {..<n} - {i}. f ((g(i := x)) j)) = (\<Sum>j \<in> {..<n} - {i}. f (g j))" by (rule sum.cong) auto
  then show ?thesis
    using i sum.remove [of "{..<n}" i "\<lambda>j. f ((g(i := x)) j)"] sum.remove [of "{..<n}" i "\<lambda>j. f (g j)"] by simp
qed

lemma op_stop_calls:
  assumes "i < w_nops w" "op_ok n m i (w_ops w i)"
  shows "calls_left (snd (op_stop i c w)) = calls_left w"
proof (cases "c = Ok \<or> op_reason (w_ops w i) \<noteq> Ok")
  case False
  let ?sg = "op_signal (w_ops w i)"
  let ?st = "(w_ops w i)\<lparr>op_reason := c, op_signal := ?sg\<lparr>sg_requested := True\<rparr>\<rparr>"
  have quiet: "\<not> sg_requested ?sg" using assms(2) False by (simp add: op_ok_def)
  then have "snd (op_stop i c w) =
      w\<lparr>w_ops := (w_ops w)(i := ?st), w_tasks := mset (map snd (sg_slots ?sg)) + w_tasks w\<rparr>"
    using False by (simp add: op_stop_def request_def put_op_def Let_def)
  then have "calls_left (snd (op_stop i c w)) =
      length (sg_slots ?sg) + size (w_tasks w) + (\<Sum>j < w_nops w. slots_left (((w_ops w)(i := ?st)) j))"
    by (simp add: calls_left_def del: fun_upd_apply)
  moreover have "slots_left ?st = 0" "slots_left (w_ops w i) = length (sg_slots ?sg)"
    using quiet by (simp_all add: slots_left_def)
  ultimately show ?thesis
    using sum_change_one [OF assms(1), of slots_left "w_ops w" ?st] by (simp add: calls_left_def)
qed (auto simp: op_stop_def Let_def)

lemma run_callback_calls:
  assumes ok: "world_ok {} (w_ncompletions w) w" and cb: "cb \<in># w_tasks w"
  shows "calls_left (run_callback now room cb w) < calls_left w"
proof -
  let ?w1 = "w\<lparr>w_tasks := w_tasks w - {#cb#}\<rparr>"
  have less: "calls_left ?w1 < calls_left w"
    using cb by (auto simp: calls_left_def dest!: multi_member_split)
  have stop: "calls_left (snd (op_stop i c ?w1)) = calls_left ?w1" if "i < w_nops w" for i c
    using ok that by (intro op_stop_calls [where n = "w_nops w" and m = "w_ncompletions w"]) (simp_all add: world_ok_def)
  have deliver: "calls_left (deliver now c r ?w1) = calls_left ?w1" for c r
    by (simp add: calls_left_def deliver_def Let_def)
  have task: "task_ok (w_nops w) (w_ncompletions w) (w_ops w) cb" using ok cb by (simp add: world_ok_def)
  have cancel: "calls_left (?w1\<lparr>w_cancels := x\<rparr>) = calls_left ?w1" for x by (simp add: calls_left_def)
  show ?thesis
    using less stop deliver task cancel by (cases cb) (auto simp: run_callback_def Let_def)
qed

text \<open>
  Callbacks come to an end: each one that runs leaves fewer to run, even if it stops further
  operations, and so from every reachable state a state without waiting callbacks is reached.
\<close>

inductive callback_step :: "world \<Rightarrow> world \<Rightarrow> bool" where
  "cb \<in># w_tasks w \<Longrightarrow> callback_step w (run_callback now room cb w)"

lemma callbacks_drain: "op_reach w \<Longrightarrow> \<exists>w'. callback_step\<^sup>*\<^sup>* w w' \<and> op_reach w' \<and> w_tasks w' = {#}"
proof (induction w rule: measure_induct_rule [of calls_left])
  case (less w)
  show ?case
  proof (cases "w_tasks w = {#}")
    case False
    then obtain cb where cb: "cb \<in># w_tasks w" by blast
    let ?w1 = "run_callback 0 True cb w"
    have "calls_left ?w1 < calls_left w" using run_callback_calls [OF op_reach_ok [OF less.prems] cb] .
    moreover have "op_reach ?w1" using less.prems cb op_step.callback op_reach.step by blast
    ultimately obtain w' where w': "callback_step\<^sup>*\<^sup>* ?w1 w'" "op_reach w'" "w_tasks w' = {#}" using less.IH by blast
    have "callback_step w ?w1" using cb by (rule callback_step.intros)
    then show ?thesis using w' converse_rtranclp_into_rtranclp [of callback_step w ?w1 w'] by blast
  qed (use less.prems in blast)
qed

section \<open>An example\<close>

text \<open>An operation with a second one below it, which has a completion; the first one is cancelled.\<close>

definition plain_options :: OperationOptions where
  "plain_options = \<lparr>oo_timeout = 5, oo_deadline = None, oo_cancellation = None, oo_dataSource = [],
     oo_idempotency = Unspecified, oo_allowFallback = True\<rparr>"

definition blank_world :: world where
  "blank_world = \<lparr>w_ops = (\<lambda>i. OperationState_new 0 plain_options), w_nops = 0, w_sources = (\<lambda>s. new_signal), w_nsources = 0,
     w_bindings = (\<lambda>b. \<lparr>bd_op = 0, bd_slot = 0, bd_active = False\<rparr>), w_nbindings = 0,
     w_completions = (\<lambda>c. \<lparr>cp_op = 0, cp_slot = 0, cp_done = False, cp_alive = False\<rparr>), w_ncompletions = 0, w_deadlines = [], w_timers = 0,
     w_tasks = {#}, w_cancels = {#}, w_cancelled = [], w_delivered = []\<rparr>"

definition two_operations :: world where
  "two_operations = snd (controlledCompletion 1 (snd (op_create 0 plain_options (Some 0) (snd (op_create 0 plain_options None blank_world)))))"

definition cancelled_world :: world where
  "cancelled_world = run_callback 0 True (DeliverStop 0) (run_callback 0 True (StopChild 1 0) (snd (op_stop 0 Cancelled two_operations)))"

lemma two_operations_reached: "op_reach two_operations"
proof -
  let ?w1 = "snd (op_create 0 plain_options None blank_world)"
  let ?w2 = "snd (op_create 0 plain_options (Some 0) ?w1)"
  have "op_reach blank_world" by (rule op_reach.init) (simp add: empty_world_def blank_world_def)
  moreover have "op_step blank_world ?w1" by (rule op_step.create) (simp_all add: plain_options_def)
  ultimately have w1: "op_reach ?w1" by (rule op_reach.step)
  have "w_nops ?w1 = 1" by code_simp
  then have "op_step ?w1 ?w2" by (intro op_step.create) (simp_all add: plain_options_def)
  with w1 have w2: "op_reach ?w2" by (rule op_reach.step)
  have "w_nops ?w2 = 2" by code_simp
  then have "op_step ?w2 two_operations" unfolding two_operations_def by (intro op_step.await) simp
  with w2 show ?thesis by (rule op_reach.step)
qed

lemma cancelled_world_reached: "op_reach cancelled_world"
proof -
  let ?w1 = "snd (op_stop 0 Cancelled two_operations)"
  let ?w2 = "run_callback 0 True (StopChild 1 0) ?w1"
  have "w_nops two_operations = 2" by code_simp
  then have "op_step two_operations ?w1" by (intro op_step.stopped) simp
  then have w1: "op_reach ?w1" using two_operations_reached op_reach.step by blast
  have "StopChild 1 0 \<in># w_tasks ?w1" by code_simp
  then have w2: "op_reach ?w2" using w1 op_reach.step op_step.callback by blast
  have "DeliverStop 0 \<in># w_tasks ?w2" by code_simp
  then show ?thesis unfolding cancelled_world_def using w2 op_reach.step op_step.callback by blast
qed

theorem stop_reaches_below_witness:
  "op_reason (w_ops cancelled_world 0) = Cancelled \<and> w_tasks cancelled_world = {#} \<and>
   op_reason (w_ops cancelled_world 1) \<noteq> Ok \<and> earlier (op_deadline (w_ops cancelled_world 1)) (op_deadline (w_ops cancelled_world 0))"
proof -
  have w: "w_tasks cancelled_world = {#}" "op_reason (w_ops cancelled_world 0) = Cancelled" "w_nops cancelled_world = 2"
      "op_alive (w_ops cancelled_world 1)" "op_parent (w_ops cancelled_world 1) = Some (0, 1)"
    by code_simp+
  then have "(child_of cancelled_world)\<^sup>+\<^sup>+ 1 0" by (intro tranclp.r_into_trancl) (simp add: child_of_def)
  from stop_reaches_below [OF cancelled_world_reached this] show ?thesis using w by simp
qed

theorem completion_called_once_witness:
  "w_tasks cancelled_world = {#} \<and> count_list (map fst (w_delivered cancelled_world)) 0 = 1"
proof -
  have w: "w_tasks cancelled_world = {#}" "w_ncompletions cancelled_world = 1"
      "op_reason (w_ops cancelled_world (cp_op (w_completions cancelled_world 0))) \<noteq> Ok" "cp_alive (w_completions cancelled_world 0)"
    by code_simp+
  then show ?thesis using completion_called_once [OF cancelled_world_reached, of 0] by simp
qed

text \<open>The caller lets go of the completion before the stop: it is never called.\<close>

definition forgotten_world :: world where
  "forgotten_world = run_callback 0 True (StopChild 1 0) (snd (op_stop 0 Cancelled (drop_completion 0 two_operations)))"

theorem dropped_completion_not_called:
  "\<exists>w c. op_reach w \<and> c < w_ncompletions w \<and> w_tasks w = {#} \<and> op_reason (w_ops w (cp_op (w_completions w c))) = Cancelled \<and>
     count_list (map fst (w_delivered w)) c = 0"
proof -
  let ?w1 = "drop_completion 0 two_operations"
  let ?w2 = "snd (op_stop 0 Cancelled ?w1)"
  have "w_ncompletions two_operations = 1" "cp_alive (w_completions two_operations 0)" by code_simp+
  then have "op_step two_operations ?w1" by (intro op_step.forget) simp_all
  then have w1: "op_reach ?w1" using two_operations_reached op_reach.step by blast
  have "w_nops ?w1 = 2" by code_simp
  then have "op_step ?w1 ?w2" by (intro op_step.stopped) simp
  then have w2: "op_reach ?w2" using w1 op_reach.step by blast
  have "StopChild 1 0 \<in># w_tasks ?w2" by code_simp
  then have "op_reach forgotten_world" unfolding forgotten_world_def using w2 op_reach.step op_step.callback by blast
  moreover have "0 < w_ncompletions forgotten_world" "w_tasks forgotten_world = {#}"
      "op_reason (w_ops forgotten_world (cp_op (w_completions forgotten_world 0))) = Cancelled"
      "count_list (map fst (w_delivered forgotten_world)) 0 = 0"
    by code_simp+
  ultimately show ?thesis by blast
qed

definition after_deadlines :: world where
  "after_deadlines = the (deadlines_turn 9000000 (the (deadlines_turn 9000000 two_operations)))"

theorem deadlines_enforced_witness:
  "deadlines_turn 9000000 after_deadlines = None \<and> op_deadline (w_ops after_deadlines 1) = Some 5000000 \<and>
   op_reason (w_ops after_deadlines 1) \<noteq> Ok"
proof -
  let ?w1 = "the (deadlines_turn 9000000 two_operations)"
  have some: "deadlines_turn 9000000 two_operations \<noteq> None" "deadlines_turn 9000000 ?w1 \<noteq> None"
    by code_simp+
  then have "op_step two_operations ?w1" "op_step ?w1 after_deadlines"
    unfolding after_deadlines_def by (auto intro!: op_step.deadline)
  then have reach: "op_reach after_deadlines" using two_operations_reached op_reach.step by blast
  have w: "deadlines_turn 9000000 after_deadlines = None" "w_nops after_deadlines = 2" "op_alive (w_ops after_deadlines 1)"
      "op_deadline (w_ops after_deadlines 1) = Some 5000000"
    by code_simp+
  show ?thesis using deadlines_enforced [OF reach w(1), of 1 5000000] w by simp
qed

end
