(* ===== verification/NativeQuery.thy ===== *)
theory NativeQuery
  imports CircuitBreaker
begin

text \<open>
  One query in the driver's own asynchronous mode: \<^verbatim>\<open>NativeQueryControl\<close> and the callbacks of
  \<^verbatim>\<open>AsyncEngine::queryOne\<close> in \<^verbatim>\<open>src/async/async_engine.cpp\<close>. The driver's completion, the statement
  timer and the tasks they post to the executor run on different threads; every access to one of the
  three atomics, to the handle and to the caller's completion is a step of its own, in any
  interleaving. An executor that refuses a task has it run by the poster, which is one of the
  interleavings. The driver is assumed to call back once.
\<close>

section \<open>State\<close>

text \<open>
  The driver's callback: not called yet, past the store to \<^verbatim>\<open>driverCompleted\<close>, past a lost exchange
  of \<^verbatim>\<open>resolved\<close>, returned.
\<close>

datatype driver_at = Working | Marked Status | Lost | Returned

datatype timer_at = Armed | Won | Off

text \<open>The task \<^verbatim>\<open>deliverTimeout\<close>: past the completion, past the store to \<^verbatim>\<open>timeoutDelivered\<close>.\<close>

datatype timeout_at = NotPosted | Posted | Called | Stored | Ended

record NativeQueryControl =
  nq_resolved :: bool
  nq_driverCompleted :: bool
  nq_timeoutDelivered :: bool
  nq_handle :: bool
  nq_stopLease :: bool
  nq_driver :: driver_at
  nq_timer :: timer_at
  nq_timeout :: timeout_at
  nq_deliver :: "Status option"
  nq_release :: bool
  nq_invalidated :: bool
  nq_after :: "Status list"
  nq_completions :: "Status list"
  nq_cancels :: "bool list"
  nq_driverDone :: bool

text \<open>The statement has been handed to the driver; the timer runs if the call has a timeout.\<close>

definition native_started :: "bool \<Rightarrow> bool \<Rightarrow> NativeQueryControl" where
  "native_started timed bound =
     \<lparr>nq_resolved = False, nq_driverCompleted = False, nq_timeoutDelivered = False, nq_handle = True, nq_stopLease = bound,
      nq_driver = Working, nq_timer = (if timed then Armed else Off), nq_timeout = NotPosted, nq_deliver = None,
      nq_release = False, nq_invalidated = False, nq_after = [], nq_completions = [], nq_cancels = [], nq_driverDone = False\<rparr>"

definition native_timeout :: Status where
  "native_timeout = (error QueryTimeout ''native query exceeded client async statement timeout'')\<lparr>retryable := True\<rparr>"

definition releaseStop :: "NativeQueryControl \<Rightarrow> NativeQueryControl" where
  "releaseStop q = q\<lparr>nq_stopLease := False\<rparr>"

definition reset_handle :: "NativeQueryControl \<Rightarrow> NativeQueryControl" where
  "reset_handle q = q\<lparr>nq_handle := False\<rparr>"

section \<open>The driver's callback\<close>

definition driver_mark :: "Status \<Rightarrow> NativeQueryControl \<Rightarrow> NativeQueryControl" where
  "driver_mark st q = q\<lparr>nq_driverDone := True, nq_driverCompleted := True, nq_driver := Marked st\<rparr>"

definition driver_resolve :: "Status \<Rightarrow> NativeQueryControl \<Rightarrow> NativeQueryControl" where
  "driver_resolve st q =
     (if nq_resolved q then q\<lparr>nq_driver := Lost\<rparr>
      else q\<lparr>nq_resolved := True, nq_driver := Returned, nq_deliver := Some st\<rparr>)"

definition driver_check :: "NativeQueryControl \<Rightarrow> NativeQueryControl" where
  "driver_check q =
     (if nq_timeoutDelivered q then q\<lparr>nq_driver := Returned, nq_release := True\<rparr> else q\<lparr>nq_driver := Returned\<rparr>)"

text \<open>The task \<open>deliver\<close>: \<open>stop\<close> is the status of the operation when it runs.\<close>

definition deliver_result :: "Status \<Rightarrow> Status \<Rightarrow> NativeQueryControl \<Rightarrow> NativeQueryControl" where
  "deliver_result stop st q =
     (let q1 = releaseStop q;
          st1 = (if status_ok stop then st else stop\<lparr>connectionBroken := True\<rparr>);
          q2 = (if connectionBroken st1 \<and> nq_handle q1 then q1\<lparr>nq_invalidated := True\<rparr> else q1);
          q3 = q2\<lparr>nq_after := nq_after q2 @ [st1]\<rparr>
      in (reset_handle q3)\<lparr>nq_completions := nq_completions q3 @ [st1], nq_deliver := None\<rparr>)"

definition release_task :: "NativeQueryControl \<Rightarrow> NativeQueryControl" where
  "release_task q = (reset_handle (releaseStop q))\<lparr>nq_release := False\<rparr>"

section \<open>The timer\<close>

definition timer_resolve :: "NativeQueryControl \<Rightarrow> NativeQueryControl" where
  "timer_resolve q =
     (if nq_resolved q then q\<lparr>nq_timer := Off\<rparr> else q\<lparr>nq_resolved := True, nq_timer := Won\<rparr>)"

text \<open>Under the handle's mutex: the task is posted and the statement cancelled if the handle is there.\<close>

definition timer_cancel :: "NativeQueryControl \<Rightarrow> NativeQueryControl" where
  "timer_cancel q =
     (let q1 = q\<lparr>nq_timeout := Posted, nq_timer := Off\<rparr> in
      if nq_handle q1 then q1\<lparr>nq_cancels := nq_cancels q1 @ [nq_driverDone q1]\<rparr> else q1)"

definition timeout_call :: "NativeQueryControl \<Rightarrow> NativeQueryControl" where
  "timeout_call q =
     q\<lparr>nq_after := nq_after q @ [native_timeout], nq_completions := nq_completions q @ [native_timeout], nq_timeout := Called\<rparr>"

definition timeout_store :: "NativeQueryControl \<Rightarrow> NativeQueryControl" where
  "timeout_store q = q\<lparr>nq_timeoutDelivered := True, nq_timeout := Stored\<rparr>"

definition timeout_check :: "NativeQueryControl \<Rightarrow> NativeQueryControl" where
  "timeout_check q =
     (let q1 = q\<lparr>nq_timeout := Ended\<rparr> in if nq_driverCompleted q1 then reset_handle (releaseStop q1) else q1)"

section \<open>Steps\<close>

inductive native_step :: "NativeQueryControl \<Rightarrow> NativeQueryControl \<Rightarrow> bool" where
  completes: "nq_driver q = Working \<Longrightarrow> native_step q (driver_mark st q)"
| resolves: "nq_driver q = Marked st \<Longrightarrow> native_step q (driver_resolve st q)"
| checks: "nq_driver q = Lost \<Longrightarrow> native_step q (driver_check q)"
| delivers: "nq_deliver q = Some st \<Longrightarrow> native_step q (deliver_result stop st q)"
| releases: "nq_release q \<Longrightarrow> native_step q (release_task q)"
| fires: "nq_timer q = Armed \<Longrightarrow> native_step q (timer_resolve q)"
| cancels: "nq_timer q = Won \<Longrightarrow> native_step q (timer_cancel q)"
| calls: "nq_timeout q = Posted \<Longrightarrow> native_step q (timeout_call q)"
| stores: "nq_timeout q = Called \<Longrightarrow> native_step q (timeout_store q)"
| ends: "nq_timeout q = Stored \<Longrightarrow> native_step q (timeout_check q)"

inductive native_reach :: "bool \<Rightarrow> bool \<Rightarrow> NativeQueryControl \<Rightarrow> bool" where
  init: "native_reach timed bound (native_started timed bound)"
| step: "native_reach timed bound q \<Longrightarrow> native_step q q' \<Longrightarrow> native_reach timed bound q'"

lemmas native_defs = driver_mark_def driver_resolve_def driver_check_def deliver_result_def release_task_def
  timer_resolve_def timer_cancel_def timeout_call_def timeout_store_def timeout_check_def releaseStop_def reset_handle_def

text \<open>
  Exactly one of the driver's callback and the timer resolves the query; the loser of the two and the
  end of the timeout task agree on who gives the handle back.
\<close>

definition native_ok :: "NativeQueryControl \<Rightarrow> bool" where
  "native_ok q \<longleftrightarrow>
     nq_after q = nq_completions q \<and>
     length (nq_completions q) = (if nq_resolved q \<and> nq_deliver q = None \<and> nq_timer q \<noteq> Won \<and> nq_timeout q \<noteq> Posted then 1 else 0) \<and>
     (nq_driverCompleted q \<longleftrightarrow> nq_driverDone q) \<and> (nq_driverDone q \<longleftrightarrow> nq_driver q \<noteq> Working) \<and>
     (nq_deliver q \<noteq> None \<longrightarrow> nq_resolved q \<and> nq_driver q = Returned \<and> nq_timer q \<noteq> Won \<and> nq_timeout q = NotPosted \<and> nq_handle q) \<and>
     (nq_timer q = Won \<longrightarrow> nq_resolved q \<and> nq_timeout q = NotPosted) \<and>
     (nq_timer q = Armed \<longrightarrow> nq_timeout q = NotPosted) \<and>
     (nq_timeout q \<noteq> NotPosted \<longrightarrow> nq_resolved q) \<and>
     (nq_driver q = Lost \<longrightarrow> nq_resolved q \<and> (nq_timer q = Won \<or> nq_timeout q \<noteq> NotPosted)) \<and>
     (nq_timeoutDelivered q \<longleftrightarrow> nq_timeout q \<in> {Stored, Ended}) \<and>
     (nq_release q \<longrightarrow> nq_driver q = Returned \<and> nq_timeoutDelivered q) \<and>
     (nq_resolved q \<and> nq_timer q \<noteq> Won \<and> nq_timeout q = NotPosted \<longrightarrow> nq_driver q = Returned) \<and>
     (\<not> nq_handle q \<longrightarrow> nq_driverDone q \<and> nq_resolved q) \<and>
     (nq_stopLease q \<longrightarrow> nq_handle q) \<and>
     (nq_handle q \<and> nq_resolved q \<and> nq_deliver q = None \<and> nq_timer q \<noteq> Won \<and> nq_timeout q = Ended \<longrightarrow>
        nq_release q \<or> nq_driver q \<noteq> Returned) \<and>
     (nq_driver q = Returned \<and> nq_timer q \<noteq> Won \<and> nq_timeout q = NotPosted \<longrightarrow> nq_deliver q \<noteq> None \<or> \<not> nq_handle q)"

lemma native_step_ok: "native_step q q' \<Longrightarrow> native_ok q \<Longrightarrow> native_ok q'"
proof (induction rule: native_step.induct)
  case (completes q st)
  then show ?case by (cases "nq_timer q"; cases "nq_timeout q"; simp add: native_ok_def native_defs)
next
  case (resolves q st)
  then show ?case by (cases "nq_timer q"; cases "nq_timeout q"; simp add: native_ok_def native_defs)
next
  case (checks q)
  then show ?case by (cases "nq_timer q"; cases "nq_timeout q"; simp add: native_ok_def native_defs)
next
  case (delivers q st stop)
  then show ?case by (cases "nq_timer q"; simp add: native_ok_def native_defs Let_def)
next
  case (releases q)
  then show ?case by (cases "nq_timer q"; cases "nq_timeout q"; simp add: native_ok_def native_defs)
next
  case (fires q)
  then show ?case by (cases "nq_driver q"; cases "nq_deliver q"; cases "nq_resolved q"; simp add: native_ok_def native_defs)
next
  case (cancels q)
  then show ?case by (cases "nq_driver q"; cases "nq_handle q"; simp add: native_ok_def native_defs Let_def)
next
  case (calls q)
  then show ?case by (cases "nq_driver q"; cases "nq_timer q"; simp add: native_ok_def native_defs)
next
  case (stores q)
  then show ?case by (cases "nq_driver q"; cases "nq_timer q"; simp add: native_ok_def native_defs)
next
  case (ends q)
  then show ?case by (cases "nq_driver q"; cases "nq_timer q"; simp add: native_ok_def native_defs Let_def)
qed

lemma native_reach_ok: "native_reach timed bound q \<Longrightarrow> native_ok q"
proof (induction rule: native_reach.induct)
  case (init timed bound)
  show ?case by (simp add: native_ok_def native_started_def)
qed (rule native_step_ok)

section \<open>One completion, one connection\<close>

fun driver_work :: "driver_at \<Rightarrow> nat" where
  "driver_work Working = 5"
| "driver_work (Marked st) = 4"
| "driver_work Lost = 2"
| "driver_work Returned = 0"

definition timer_work :: "timer_at \<Rightarrow> nat" where
  "timer_work t = (case t of Armed \<Rightarrow> 8 | Won \<Rightarrow> 7 | Off \<Rightarrow> 0)"

definition timeout_work :: "timeout_at \<Rightarrow> nat" where
  "timeout_work t = (case t of Posted \<Rightarrow> 3 | Called \<Rightarrow> 2 | Stored \<Rightarrow> 1 | _ \<Rightarrow> 0)"

definition native_work :: "NativeQueryControl \<Rightarrow> nat" where
  "native_work q = driver_work (nq_driver q) + timer_work (nq_timer q) + timeout_work (nq_timeout q) +
     (if nq_deliver q = None then 0 else 2) + (if nq_release q then 1 else 0)"

lemmas work_defs = native_work_def timer_work_def timeout_work_def

lemma native_okD:
  assumes "native_ok q"
  shows "nq_driver q \<noteq> Returned \<Longrightarrow> nq_deliver q = None" "nq_driver q \<noteq> Returned \<Longrightarrow> \<not> nq_release q"
    "nq_timer q = Won \<Longrightarrow> nq_timeout q = NotPosted" "nq_after q = nq_completions q"
    "\<not> nq_handle q \<Longrightarrow> nq_driverDone q" "nq_stopLease q \<Longrightarrow> nq_handle q"
  using assms unfolding native_ok_def by blast+

lemma native_ok_once: "native_ok q \<Longrightarrow> length (nq_completions q) \<le> 1"
proof -
  assume "native_ok q"
  then have "length (nq_completions q) =
      (if nq_resolved q \<and> nq_deliver q = None \<and> nq_timer q \<noteq> Won \<and> nq_timeout q \<noteq> Posted then 1 else 0)"
    unfolding native_ok_def by blast
  then show ?thesis by simp
qed

lemma native_step_decreases:
  assumes "native_step q q'" "native_ok q"
  shows "native_work q' < native_work q"
  using assms
proof (induction rule: native_step.induct)
  case (resolves q st)
  then show ?case using native_okD(1) [of q] by (simp add: work_defs native_defs)
next
  case (checks q)
  then show ?case using native_okD(2) [of q] by (simp add: work_defs native_defs)
next
  case (cancels q)
  then show ?case using native_okD(3) [of q] by (simp add: work_defs native_defs Let_def)
qed (simp_all add: work_defs native_defs Let_def)

lemma native_final:
  assumes "native_ok q" "\<And>q'. \<not> native_step q q'"
  shows "length (nq_completions q) = 1 \<and> \<not> nq_handle q \<and> \<not> nq_stopLease q"
proof -
  have d: "nq_driver q = Returned"
    using assms(2) native_step.completes native_step.resolves native_step.checks by (metis driver_at.exhaust)
  have p: "nq_deliver q = None" "\<not> nq_release q"
    using assms(2) native_step.delivers native_step.releases by (metis option.exhaust)+
  have t: "nq_timer q = Off"
    using assms(2) native_step.fires native_step.cancels by (metis timer_at.exhaust)
  have "nq_timeout q = NotPosted \<or> nq_timeout q = Ended"
    using assms(2) native_step.calls native_step.stores native_step.ends by (metis timeout_at.exhaust)
  then show ?thesis
    using assms(1) d p t by (cases "nq_handle q"; cases "nq_resolved q") (auto simp: native_ok_def)
qed

text \<open>
  However the driver's answer and the timer meet: the caller's completion is called at most once, the
  breaker hears of the attempt exactly when the caller does and with the same status, and the
  connection goes back to the pool only after the driver has finished with it. Every run ends, and at
  its end the completion was called and the connection and the binding to the operation are given
  back.
\<close>

text \<open>
  C10: In every interleaving of the driver's callback, the statement timer and the tasks they
  post, a native query completes the caller and tells the breaker at most once with the same
  status, gives the connection back only after the driver is done, never runs forever, and when
  nothing is left to do it has completed once and holds neither connection nor cancellation
  lease.
\<close>

theorem native_query_resolves_once:
  assumes "native_reach timed bound q"
  shows "length (nq_completions q) \<le> 1 \<and> nq_after q = nq_completions q \<and>
    (\<not> nq_handle q \<longrightarrow> nq_driverDone q) \<and> (nq_stopLease q \<longrightarrow> nq_handle q) \<and>
    (\<forall>q'. native_step q q' \<longrightarrow> native_work q' < native_work q) \<and>
    ((\<forall>q'. \<not> native_step q q') \<longrightarrow> length (nq_completions q) = 1 \<and> \<not> nq_handle q \<and> \<not> nq_stopLease q)"
proof -
  have ok: "native_ok q" using native_reach_ok assms by blast
  show ?thesis
    using native_okD [OF ok] native_ok_once [OF ok] native_step_decreases [OF _ ok] native_final [OF ok] by blast
qed

text \<open>The timer wins while the driver still works; then the driver answers.\<close>

definition timed_out_query :: NativeQueryControl where
  "timed_out_query =
     timeout_check (driver_check (driver_resolve OK (driver_mark OK
       (timeout_store (timeout_call (timer_cancel (timer_resolve (native_started True True))))))))"

theorem native_query_resolves_once_witness:
  "native_reach True True timed_out_query \<and> nq_completions timed_out_query = [native_timeout] \<and>
   nq_after timed_out_query = [native_timeout] \<and> \<not> nq_handle timed_out_query"
proof -
  let ?q1 = "timer_resolve (native_started True True)"
  let ?q2 = "timer_cancel ?q1"
  let ?q3 = "timeout_call ?q2"
  let ?q4 = "timeout_store ?q3"
  let ?q5 = "driver_mark OK ?q4"
  let ?q6 = "driver_resolve OK ?q5"
  let ?q7 = "driver_check ?q6"
  note next_step = native_reach.step [of True True]
  have "native_reach True True ?q1"
    by (rule next_step [OF native_reach.init native_step.fires]) (simp add: native_started_def)
  then have "native_reach True True ?q2"
    by (rule next_step [OF _ native_step.cancels]) (simp add: native_started_def native_defs)
  then have "native_reach True True ?q3"
    by (rule next_step [OF _ native_step.calls]) (simp add: native_started_def native_defs)
  then have "native_reach True True ?q4"
    by (rule next_step [OF _ native_step.stores]) (simp add: native_started_def native_defs)
  then have "native_reach True True ?q5"
    by (rule next_step [OF _ native_step.completes]) (simp add: native_started_def native_defs)
  then have "native_reach True True ?q6"
    by (rule next_step [OF _ native_step.resolves]) (simp add: native_started_def native_defs)
  then have "native_reach True True ?q7"
    by (rule next_step [OF _ native_step.checks]) (simp add: native_started_def native_defs)
  then have reach: "native_reach True True timed_out_query"
    unfolding timed_out_query_def
    by (rule next_step [OF _ native_step.ends]) (simp add: native_started_def native_defs)
  from native_query_resolves_once [OF this] show ?thesis
    using reach by (simp add: timed_out_query_def native_started_def native_defs)
qed

end
