(* ===== verification/AsyncEngine.thy ===== *)
theory AsyncEngine
  imports SourceSessions Operations NativeQuery
begin

text \<open>
  The asynchronous entry points: \<^verbatim>\<open>AsyncEngine\<close> of \<^verbatim>\<open>src/async/async_engine.cpp\<close>. The chains of callbacks
  are functions from the surroundings of an attempt (what the executor, the pool, the driver and the
  clock answer) and the shared state to the one result the completion gets. That a native query has
  one result, whoever of driver and timer is first, is the subject of \<open>NativeQuery\<close>; here
  \<open>ax_timed_out\<close> says who it was. A call that returns false without starting is \<^term>\<open>None\<close>.

  Every callback opens a scope with the context of the call on the thread it runs on, an executor
  thread without scopes of its own.
\<close>

section \<open>Surroundings\<close>

record ('a, 'w) async_env =
  ax_run_stop :: Status
  ax_elapsed :: int
  ax_pool :: bool
  ax_posted :: bool
  ax_gate :: gate_env
  ax_get :: int
  ax_stop :: Status
  ax_before :: int
  ax_borrow :: "Status \<times> bool"
  ax_stop_borrowed :: Status
  ax_native :: bool
  ax_started :: bool
  ax_timed_out :: bool
  ax_driver :: "'w \<Rightarrow> (Status \<times> 'a) \<times> 'w"
  ax_stop_result :: Status
  ax_fallback :: bool
  ax_session :: "'w \<Rightarrow> (Status \<times> 'a) \<times> 'w"
  ax_put :: int
  ax_stop_after :: Status
  ax_after :: int

type_synonym 'a async_result = "(Status \<times> 'a) \<times> ExecutionMode"

text \<open>The call: its statement, the context it carries, its timeout, whether the gate and the interceptors apply.\<close>

record 'op async_call =
  ac_sql :: string
  ac_params :: Params
  ac_context :: "'op SqlContext"
  ac_timeout :: int
  ac_gated :: bool
  ac_intercept :: bool

definition in_context :: "'op SqlContext \<Rightarrow> (('op, 'w) ds_state \<Rightarrow> 'r \<times> ('op, 'w) ds_state) \<Rightarrow> ('op, 'w) ds_state \<Rightarrow> 'r \<times> ('op, 'w) ds_state" where
  "in_context ctx f s =
     (case f (s\<lparr>ds_scopes := snd (scope_enter ctx [])\<rparr>) of (r, s') \<Rightarrow> (r, s'\<lparr>ds_scopes := ds_scopes s\<rparr>))"

definition fallback_result :: "Status \<Rightarrow> 'a \<Rightarrow> 'a async_result" where
  "fallback_result st a = ((st, a), CompatibilityFallback)"

definition overloaded_status :: Status where
  "overloaded_status = (error Overloaded ''client async executor queue is full or stopped'')\<lparr>retryable := True\<rparr>"

definition pool_closed_status :: "string \<Rightarrow> Status" where
  "pool_closed_status msg = (error PoolClosed msg)\<lparr>retryable := True\<rparr>"

definition native_required :: Status where
  "native_required = error NotSupported ''operation requires native async execution''"

definition before_on :: "Leaf \<Rightarrow> Status \<Rightarrow> int \<Rightarrow> ('op, 'w) ds_state \<Rightarrow> Status \<times> ('op, 'w) ds_state" where
  "before_on l stop now s =
     (case beforeAttempt (lf_name l) (lf_breaker l) stop now (ds_breaker s (lf_name l)) of (gate, b) \<Rightarrow> (gate, set_breaker l b s))"

definition set_db :: "'w \<Rightarrow> ('op, 'w) ds_state \<Rightarrow> ('op, 'w) ds_state" where
  "set_db w s = s\<lparr>ds_db := w\<rparr>"

section \<open>Cache and interceptors\<close>

text \<open>The key stays empty if the source does not cache.\<close>

definition cacheLookup :: "int \<Rightarrow> Leaf \<Rightarrow> string \<Rightarrow> Params \<Rightarrow> ('op, 'w) ds_state \<Rightarrow> (ResultSet option \<times> string) \<times> ('op, 'w) ds_state" where
  "cacheLookup now l sql ps s =
     (if \<not> caching l s then ((None, []), s)
      else case cache_get now (lf_name l) (cacheKey sql ps) (ds_cache s) of
        (r, c) \<Rightarrow> ((r, cacheKey sql ps), s\<lparr>ds_cache := c\<rparr>))"

definition cacheStore :: "abi \<Rightarrow> int \<Rightarrow> Leaf \<Rightarrow> string \<Rightarrow> ResultSet \<Rightarrow> ('op, 'w) ds_state \<Rightarrow> ('op, 'w) ds_state" where
  "cacheStore z now l key rs s =
     (if shadow (current (ds_scopes s)) \<or> transformed rs \<or> \<not> qc_enabled (ds_cache s) then s
      else s\<lparr>ds_cache := cache_put z now (lf_name l) key rs (ds_cache s)\<rparr>)"

definition call_view :: "string \<Rightarrow> OperationType \<Rightarrow> 'op async_call \<Rightarrow> int \<Rightarrow> Status \<Rightarrow> 'op SqlContext \<Rightarrow> 'op ExecutionView" where
  "call_view name type c affected st ctx =
     \<lparr>v_dataSource = name, v_sql = ac_sql c, v_type = type, v_params = Some (ac_params c), v_affected = affected,
      v_status = st, v_ctx = ctx\<rparr>"

definition executor_thread :: "'op Thread \<Rightarrow> ('op, 'w) ds_state \<Rightarrow> 'op Thread" where
  "executor_thread th s = th\<lparr>scopes := ds_scopes s\<rparr>"

definition route_and_before where
  "route_and_before reg th hooks name type c s =
     (if \<not> hooks then ((ac_context c, OK), s)
      else case runOnRoute reg (executor_thread th s) name (ac_sql c) type (ac_context c) s of (ctx, s1) \<Rightarrow>
        case runBeforeExecution reg (executor_thread th s1) (call_view name type c 0 OK ctx) s1 of (st, s2) \<Rightarrow> ((ctx, st), s2))"

definition after_and_completion where
  "after_and_completion reg th hooks vw s =
     (if \<not> hooks then s
      else let s1 = runAfterExecution reg (executor_thread th s) vw s in
        runOnCompletion reg (executor_thread th s1) vw s1)"

section \<open>One query\<close>

definition cached_result where
  "cached_result reg th l c rows s =
     (if \<not> ac_intercept c then (fallback_result OK rows, s)
      else case route_and_before reg th True (lf_name l) OpQuery c s of ((ctx, st), s1) \<Rightarrow>
        let s2 = (if status_ok st then runAfterExecution reg (executor_thread th s1) (call_view (lf_name l) OpQuery c 0 OK ctx) s1 else s1)
        in (fallback_result st (if status_ok st then rows else empty_rs),
            runOnCompletion reg (executor_thread th s2) (call_view (lf_name l) OpQuery c 0 st ctx) s2))"

text \<open>
  The driver accepted the query: the timer's status if it was first, otherwise the driver's, which
  the status of a stopped operation replaces.
\<close>

definition native_query_result where
  "native_query_result z e reg th l c ctx key s =
     (case ax_driver e (ds_db s) of ((st, rows), w) \<Rightarrow>
        if ax_timed_out e \<and> ac_timeout c > 0
        then in_context ctx (\<lambda>s.
          (((native_timeout, empty_rs), Native),
           after_and_completion reg th (ac_intercept c) (call_view (lf_name l) OpQuery c 0 native_timeout ctx)
             (after_on l native_timeout (ax_stop_after e) (ax_after e) s))) (set_db w s)
        else in_context ctx (\<lambda>s.
          let st1 = (if status_ok (ax_stop_result e) then st else (ax_stop_result e)\<lparr>connectionBroken := True\<rparr>);
              s1 = after_on l st1 (ax_stop_after e) (ax_after e) s;
              s2 = (if status_ok st1 \<and> key \<noteq> [] then cacheStore z (ax_put e) l key rows s1 else s1)
          in (((st1, rows), Native),
              after_and_completion reg th (ac_intercept c) (call_view (lf_name l) OpQuery c 0 st1 ctx) s2)) (set_db w s))"

text \<open>The session of the compatibility mode; with a key and interceptors the engine runs the callbacks itself.\<close>

definition compat_query_result where
  "compat_query_result z e reg th l c key s =
     (if \<not> ac_intercept c \<or> key = [] then
        (case ax_session e (ds_db s) of ((st, rows), w) \<Rightarrow>
           let s1 = after_on l st (ax_stop_after e) (ax_after e) (set_db w s) in
           (fallback_result st rows,
            if status_ok st \<and> key \<noteq> [] then cacheStore z (ax_put e) l key rows s1 else s1))
      else case route_and_before reg th True (lf_name l) OpQuery c s of ((ctx, before), s1) \<Rightarrow>
        if \<not> status_ok before
        then (let s2 = after_on l before (ax_stop_after e) (ax_after e) s1 in
              (fallback_result before empty_rs,
               runOnCompletion reg (executor_thread th s2) (call_view (lf_name l) OpQuery c 0 before ctx) s2))
        else case ax_session e (ds_db s1) of ((st, rows), w) \<Rightarrow>
          let s2 = after_on l st (ax_stop_after e) (ax_after e) (set_db w s1);
              s3 = (if status_ok st then cacheStore z (ax_put e) l key rows s2 else s2)
          in (fallback_result st rows, after_and_completion reg th True (call_view (lf_name l) OpQuery c 0 st ctx) s3))"

text \<open>The callback of the borrow.\<close>

definition query_borrowed where
  "query_borrowed z e reg th l c key s =
     (let compat = (\<lambda>s. if ax_fallback e then compat_query_result z e reg th l c key s else (fallback_result native_required empty_rs, s)) in
      if \<not> status_ok (ax_stop_borrowed e) then (fallback_result (ax_stop_borrowed e) empty_rs, s)
      else if \<not> status_ok (fst (ax_borrow e)) \<or> \<not> snd (ax_borrow e)
      then (fallback_result (fst (ax_borrow e)) empty_rs, after_on l (fst (ax_borrow e)) (ax_stop_after e) (ax_after e) s)
      else if \<not> ax_native e then compat s
      else case route_and_before reg th (ac_intercept c) (lf_name l) OpQuery c s of ((ctx, before), s1) \<Rightarrow>
        if \<not> status_ok before
        then (let s2 = after_on l before (ax_stop_after e) (ax_after e) s1 in
              (fallback_result before empty_rs,
               runOnCompletion reg (executor_thread th s2) (call_view (lf_name l) OpQuery c 0 before ctx) s2))
        else if ax_started e then native_query_result z e reg th l c ctx key s1
        else compat s1)"

definition query_start where
  "query_start z e reg th l c s =
     (case (if ac_gated c then preGate (ax_gate e) (LeafSource l) (ac_sql c) OpQuery s else (OK, s)) of (gate, s1) \<Rightarrow>
        if \<not> status_ok gate then (fallback_result gate empty_rs, s1)
        else case cacheLookup (ax_get e) l (ac_sql c) (ac_params c) s1 of
          ((Some rows, key), s2) \<Rightarrow> cached_result reg th l c rows s2
        | ((None, key), s2) \<Rightarrow>
            (case before_on l (ax_stop e) (ax_before e) s2 of (gate, s3) \<Rightarrow>
               if \<not> status_ok gate then (fallback_result gate empty_rs, s3)
               else query_borrowed z e reg th l c key s3))"

definition queryOne where
  "queryOne z e reg th l c s =
     (if \<not> ax_pool e then (None, s)
      else if \<not> ax_posted e then (Some (fallback_result overloaded_status empty_rs), s)
      else apfst Some (in_context (ac_context c) (query_start z e reg th l c) s))"

section \<open>Retries of a query\<close>

definition retries_exceeded :: Status where
  "retries_exceeded = (error QueryTimeout ''query retries exceeded client async statement timeout'')\<lparr>retryable := True\<rparr>"

definition query_retries :: "Status \<Rightarrow> bool" where
  "query_retries st \<longleftrightarrow> \<not> status_ok st \<and> retryable st \<and> code st \<noteq> CircuitOpen \<and> code st \<noteq> Overloaded \<and> code st \<noteq> QueryTimeout"

text \<open>Attempt \<open>k\<close> with \<open>left\<close> further ones; the gate applies to the first one only.\<close>

fun query_run where
  "query_run z env reg th l c left k s =
     (let e = env k in
      if \<not> status_ok (ax_run_stop e) then (fallback_result (ax_run_stop e) empty_rs, s)
      else if ac_timeout c > 0 \<and> ac_timeout c - ax_elapsed e \<le> 0 then (fallback_result retries_exceeded empty_rs, s)
      else
        let c1 = c\<lparr>ac_timeout := (if ac_timeout c > 0 then ac_timeout c - ax_elapsed e else ac_timeout c),
                   ac_gated := ac_gated c \<and> k = 1\<rparr>
        in case queryOne z e reg th l c1 s of
             (None, s') \<Rightarrow> (fallback_result (pool_closed_status ''datasource pool closed before an asynchronous query attempt'') empty_rs, s')
           | (Some r, s') \<Rightarrow>
               if query_retries (fst (fst r)) then (case left of 0 \<Rightarrow> (r, s') | Suc m \<Rightarrow> query_run z env reg th l c m (k + 1) s')
               else (r, s'))"

declare query_run.simps [simp del]

definition queryLeaf where
  "queryLeaf z env reg th l c s =
     (if \<not> lf_poolAlive l then (None, s)
      else apfst Some (query_run z env reg th l c (nat (max 1 (max_attempts (lf_retry l)) - 1)) (1::nat) s))"

section \<open>One write\<close>

text \<open>A stopped operation does not turn a success into a failure, but its connection is not used again.\<close>

definition native_execute_result where
  "native_execute_result e reg th l c ctx s =
     (case ax_driver e (ds_db s) of ((st, affected), w) \<Rightarrow>
        in_context ctx (\<lambda>s.
          let st1 = (if status_ok (ax_stop_result e) then st
                     else (if status_ok st then st else ax_stop_result e)\<lparr>connectionBroken := True\<rparr>);
              s1 = after_on l st1 (ax_stop_after e) (ax_after e) s;
              s2 = mark_if (status_ok st1) l s1
          in (((st1, affected :: int), Native),
              after_and_completion reg th (ac_intercept c)
                (call_view (lf_name l) OpExecute c (if status_ok st1 then affected else 0) st1 ctx) s2)) (set_db w s))"

definition compat_execute_result where
  "compat_execute_result e l s =
     (case ax_session e (ds_db s) of ((st, affected), w) \<Rightarrow>
        (fallback_result st (affected :: int),
         mark_if (status_ok st) l (after_on l st (ax_stop_after e) (ax_after e) (set_db w s))))"

definition execute_borrowed where
  "execute_borrowed e reg th l c s =
     (let compat = (\<lambda>s. if ax_fallback e then compat_execute_result e l s else (fallback_result native_required 0, s)) in
      if \<not> status_ok (ax_stop_borrowed e) then (fallback_result (ax_stop_borrowed e) 0, s)
      else if \<not> status_ok (fst (ax_borrow e)) \<or> \<not> snd (ax_borrow e)
      then (fallback_result (fst (ax_borrow e)) 0, after_on l (fst (ax_borrow e)) (ax_stop_after e) (ax_after e) s)
      else if \<not> ax_native e then compat s
      else case route_and_before reg th (ac_intercept c) (lf_name l) OpExecute c s of ((ctx, before), s1) \<Rightarrow>
        if \<not> status_ok before
        then (let s2 = after_on l before (ax_stop_after e) (ax_after e) s1 in
              (fallback_result before 0,
               runOnCompletion reg (executor_thread th s2) (call_view (lf_name l) OpExecute c 0 before ctx) s2))
        else if ax_started e then native_execute_result e reg th l c ctx s1
        else compat s1)"

definition execute_start where
  "execute_start e reg th l c s =
     (case (if ac_gated c then preGate (ax_gate e) (LeafSource l) (ac_sql c) OpExecute s else (OK, s)) of (gate, s1) \<Rightarrow>
        if \<not> status_ok gate then (fallback_result gate 0, s1)
        else case before_on l (ax_stop e) (ax_before e) s1 of (gate, s2) \<Rightarrow>
          if \<not> status_ok gate then (fallback_result gate 0, s2)
          else execute_borrowed e reg th l c s2)"

definition executeOne where
  "executeOne e reg th l c s =
     (if \<not> ax_pool e then (None, s)
      else if \<not> ax_posted e then (Some (fallback_result overloaded_status 0), s)
      else apfst Some (in_context (ac_context c) (execute_start e reg th l c) s))"

definition execute_retries :: "Status \<Rightarrow> bool" where
  "execute_retries st \<longleftrightarrow> \<not> status_ok st \<and> retryable st \<and> code st \<noteq> CircuitOpen \<and> code st \<noteq> Overloaded"

fun execute_run where
  "execute_run env reg th l c left k s =
     (let e = env k in
      if \<not> status_ok (ax_run_stop e) then (fallback_result (ax_run_stop e) 0, s)
      else case executeOne e reg th l (c\<lparr>ac_gated := ac_gated c \<and> k = 1\<rparr>) s of
          (None, s') \<Rightarrow> (fallback_result (pool_closed_status ''datasource pool closed before an asynchronous execute attempt'') 0, s')
        | (Some r, s') \<Rightarrow>
            if execute_retries (fst (fst r)) then (case left of 0 \<Rightarrow> (r, s') | Suc m \<Rightarrow> execute_run env reg th l c m (k + 1) s')
            else (r, s'))"

declare execute_run.simps [simp del]

definition executeLeaf where
  "executeLeaf env reg th l c s =
     (if \<not> lf_poolAlive l then (None, s)
      else apfst Some (execute_run env reg th l c (nat (resolveWriteAttempts (lf_retry l) (idempotency (ac_context c)) - 1)) (1::nat) s))"

section \<open>Groups\<close>

text \<open>The surroundings of a routed call: the executor, the gate, the routing, the leaf calls.\<close>

record 'e async_group_env =
  gx_posted :: bool
  gx_gate :: gate_env
  gx_now :: int
  gx_clk :: "nat \<Rightarrow> int"
  gx_leaf :: "Leaf \<Rightarrow> 'e"
  gx_again :: 'e
  gx_elapsed :: int
  gx_mark :: int
  gx_buffer :: int

text \<open>The end of a routed call: the interceptors of the group, in the context the routing left.\<close>

definition group_finish where
  "group_finish reg th g type c ctx affected r s =
     in_context ctx (\<lambda>s. (r, after_and_completion reg th True (call_view (g_name g) type c affected (fst (fst r)) ctx) s)) s"

text \<open>Gate, route and first interceptors of a group: the context for the rest, or the result.\<close>

definition group_open where
  "group_open e reg th g type c none s =
     (case preGate (gx_gate e) (GroupSource g) (ac_sql c) type s of (gate, s1) \<Rightarrow>
        if \<not> status_ok gate then (Inl (fallback_result gate none), s1)
        else case route_and_before reg th True (g_name g) type c s1 of ((ctx, before), s2) \<Rightarrow>
          if \<not> status_ok before
          then (Inl (fallback_result before none),
                runOnCompletion reg (executor_thread th s2) (call_view (g_name g) type c 0 before ctx) s2)
          else (Inr ctx, s2))"

definition leaf_call_of :: "'op async_call \<Rightarrow> 'op SqlContext \<Rightarrow> 'op async_call" where
  "leaf_call_of c ctx = c\<lparr>ac_context := ctx, ac_gated := False, ac_intercept := False\<rparr>"

definition query_group_leaf where
  "query_group_leaf z e reg th g c ctx s =
     (case in_context ctx (readTarget (gx_now e) (gx_clk e) g) s of (target, s1) \<Rightarrow>
        case queryLeaf z (gx_leaf e target) reg th target (leaf_call_of c ctx) s1 of
          (None, s2) \<Rightarrow> (fallback_result (pool_closed_status ''group read target closed before asynchronous execution'') empty_rs, s2)
        | (Some r, s2) \<Rightarrow>
            if \<not> falls_back g target (fst (fst r)) then (r, s2)
            else if ac_timeout c > 0 \<and> ac_timeout c - gx_elapsed e \<le> 0 then (r, s2)
            else case queryLeaf z (gx_again e) reg th (g_primary g)
                   ((leaf_call_of c ctx)\<lparr>ac_timeout := (if ac_timeout c > 0 then ac_timeout c - gx_elapsed e else ac_timeout c)\<rparr>) s2 of
                (None, s3) \<Rightarrow> (fallback_result (pool_closed_status ''group primary closed before asynchronous read fallback'') empty_rs, s3)
              | (Some r', s3) \<Rightarrow> (r', s3))"

definition queryGroup where
  "queryGroup z e reg th g c s =
     (if \<not> gx_posted e then (fallback_result overloaded_status empty_rs, s)
      else in_context (ac_context c) (\<lambda>s.
        case group_open e reg th g OpQuery c empty_rs s of
          (Inl r, s1) \<Rightarrow> (r, s1)
        | (Inr ctx, s1) \<Rightarrow>
            (case query_group_leaf z e reg th g c ctx s1 of (r, s2) \<Rightarrow>
               group_finish reg th g OpQuery c ctx 0 r s2)) s)"

definition buffered_call :: "Group \<Rightarrow> 'op async_call \<Rightarrow> buffered" where
  "buffered_call g c = BufferedExecute (g_primary g) (ac_sql c) (if ac_params c = [] then None else Some (ac_params c))"

text \<open>
  The targets of a write, one after the other; \<open>shadowed\<close> is the call to the shadow source, which has
  no second target, marks nothing and is not buffered.
\<close>

fun execute_targets where
  "execute_targets e reg th g c ctx shadowed [] r s = (r, s)"
| "execute_targets e reg th g c ctx shadowed (l # ls) r s =
     (case executeLeaf (gx_leaf e l) reg th l (leaf_call_of c ctx) s of
        (None, s') \<Rightarrow> (fallback_result (pool_closed_status ''group write target closed before asynchronous execution'') 0, s')
      | (Some r', s') \<Rightarrow>
          let st = fst (fst r') in
          if status_ok st then (r', if shadowed then s' else group_markWrite g (gx_mark e) s')
          else if shadowed \<or> \<not> safeToFailoverWrite st then (r', s')
          else if ls \<noteq> [] then execute_targets e reg th g c ctx shadowed ls r' s'
          else case buffer_write g (Some (buffered_call g c)) (gx_buffer e) st s' of
            (st', s'') \<Rightarrow> (if st' = buffered_status g then fallback_result st' 0 else r', s''))"

definition execute_group_leaf where
  "execute_group_leaf e reg th g c ctx s =
     (case in_context ctx (\<lambda>s. ((shadow (current (ds_scopes s)) \<and> g_shadow g \<noteq> None, writeTargets (gx_clk e) g s), s)) s of
        ((shadowed, targets), s1) \<Rightarrow>
          if targets \<noteq> [] then execute_targets e reg th g c ctx shadowed targets (fallback_result (no_primary g) 0) s1
          else if shadowed then (fallback_result (no_primary g) 0, s1)
          else case buffer_write g (Some (buffered_call g c)) (gx_buffer e) (no_primary g) s1 of
            (st, s2) \<Rightarrow> (fallback_result st 0, s2))"

definition executeGroup where
  "executeGroup e reg th g c s =
     (if \<not> gx_posted e then (fallback_result overloaded_status 0, s)
      else in_context (ac_context c) (\<lambda>s.
        case group_open e reg th g OpExecute c 0 s of
          (Inl r, s1) \<Rightarrow> (r, s1)
        | (Inr ctx, s1) \<Rightarrow>
            (case execute_group_leaf e reg th g c ctx s1 of (r, s2) \<Rightarrow>
               group_finish reg th g OpExecute c ctx (if status_ok (fst (fst r)) then snd (fst r) else 0) r s2)) s)"

definition async_query where
  "async_query z ge env reg th src c s =
     (case src of
        GroupSource g \<Rightarrow> apfst Some (queryGroup z ge reg th g c s)
      | LeafSource l \<Rightarrow> queryLeaf z env reg th l (c\<lparr>ac_gated := True, ac_intercept := True\<rparr>) s)"

definition async_execute where
  "async_execute ge env reg th src c s =
     (case src of
        GroupSource g \<Rightarrow> apfst Some (executeGroup ge reg th g c s)
      | LeafSource l \<Rightarrow> executeLeaf env reg th l (c\<lparr>ac_gated := True, ac_intercept := True\<rparr>) s)"

section \<open>Sessions and transactions\<close>

text \<open>
  \<open>runSession\<close>: the operation on a borrowed session gives \<open>ax_session\<close>; an exception is a status of it.
\<close>

definition session_threw :: "string option \<Rightarrow> Status" where
  "session_threw what =
     (case what of
        Some m \<Rightarrow> error UnknownError (''client async session operation threw: '' @ m)
      | None \<Rightarrow> error UnknownError ''client async session operation threw an unknown exception'')"

definition session_borrowed where
  "session_borrowed e l write s =
     (case (if status_ok (fst (ax_borrow e)) \<and> snd (ax_borrow e)
            then (case ax_session e (ds_db s) of ((st, r), w) \<Rightarrow>
                    ((case r of Inr () \<Rightarrow> st | Inl what \<Rightarrow> session_threw what), set_db w s))
            else (fst (ax_borrow e), s)) of (st, s1) \<Rightarrow>
        (st, mark_if (write \<and> status_ok st) l (after_on l st (ax_stop_after e) (ax_after e) s1)))"

definition runSession where
  "runSession e l sql type write ctx s =
     (if \<not> lf_poolAlive l \<or> \<not> ax_pool e then (None, s)
      else if \<not> ax_posted e then (Some overloaded_status, s)
      else apfst Some (in_context ctx (\<lambda>s.
        case preGate (ax_gate e) (LeafSource l) sql type s of (gate, s1) \<Rightarrow>
          if \<not> status_ok gate then (gate, s1)
          else case before_on l (ax_stop e) (ax_before e) s1 of (gate, s2) \<Rightarrow>
            if \<not> status_ok gate then (gate, s2) else session_borrowed e l write s2) s))"

definition async_transaction where
  "async_transaction e ge drv te l opts fn depth ctx s =
     (if \<not> lf_poolAlive l \<or> \<not> ax_pool e then (None, s)
      else if \<not> ax_posted e then (Some (overloaded_status, None), s)
      else apfst Some (in_context ctx (\<lambda>s.
        let gate = gateSession ge (LeafSource l) in
        if \<not> status_ok gate then ((gate, None), s)
        else case before_on l (ax_stop e) (ax_before e) s of (gate, s1) \<Rightarrow>
          if \<not> status_ok gate then ((gate, None), s1)
          else if \<not> status_ok (fst (ax_borrow e)) \<or> \<not> snd (ax_borrow e)
          then ((fst (ax_borrow e), None), after_on l (fst (ax_borrow e)) (ax_stop_after e) (ax_after e) s1)
          else case transactionWithHandle drv te l opts (lf_readOnly l) fn depth s1 of (st, x, s2) \<Rightarrow> ((st, Some x), s2)) s))"

section \<open>Asynchronous and synchronous queries agree\<close>

text \<open>
  The surroundings of an asynchronous attempt give it what the surroundings of a synchronous one give
  that: the executor takes the task, the operation runs on, the pool gives the same answer, and the
  driver does in its own asynchronous mode or through a session what the session does there.
\<close>

definition same_attempt :: "string \<Rightarrow> 'a \<Rightarrow> ('a, 'w) async_env \<Rightarrow> ('a, 'w) attempt \<Rightarrow> bool" where
  "same_attempt name none e a \<longleftrightarrow>
     status_ok (ax_run_stop e) \<and> ax_pool e \<and> ax_posted e \<and> at_stop a = OK \<and> ax_stop e = OK \<and> ax_before e = at_before a \<and>
     status_ok (ax_stop_borrowed e) \<and> ax_borrow e = (borrowSession name (at_borrow a), status_ok (borrowSession name (at_borrow a))) \<and>
     ax_stop_after e = at_stop_after a \<and> ax_after e = at_after a \<and>
     (if ax_native e \<and> ax_started e then \<not> ax_timed_out e \<and> status_ok (ax_stop_result e) \<and> ax_driver e = at_session a none
      else ax_fallback e \<and> ax_session e = at_session a none)"

definition plain_call :: "'op async_call \<Rightarrow> bool" where
  "plain_call c \<longleftrightarrow> \<not> ac_gated c \<and> \<not> ac_intercept c"

lemma queryOne_attempt:
  assumes e: "same_attempt (lf_name l) empty_rs e a" and c: "plain_call c" and off: "\<not> caching l (s\<lparr>ds_scopes := [ac_context c]\<rparr>)"
    and once: "attempt_once (lf_name l) (lf_breaker l) a empty_rs (ds_db s) (ds_breaker s (lf_name l)) = (res, w, b)"
  shows "\<exists>mode. queryOne z e reg th l c s =
    (Some (case res of Inl gate \<Rightarrow> (gate, empty_rs) | Inr x \<Rightarrow> x, mode), s\<lparr>ds_db := w, ds_breaker := (ds_breaker s)(lf_name l := b)\<rparr>)"
proof -
  obtain gate b1 where g: "beforeAttempt (lf_name l) (lf_breaker l) OK (at_before a) (ds_breaker s (lf_name l)) = (gate, b1)"
    by fastforce
  note defs = queryOne_def in_context_def scope_enter_def kMaxDepth_def query_start_def cacheLookup_def before_on_def
    query_borrowed_def route_and_before_def native_query_result_def compat_query_result_def after_and_completion_def
    fallback_result_def set_breaker_def after_on_def set_db_def
  show ?thesis
  proof (cases "status_ok gate")
    case False
    then show ?thesis
      using e c off once g by (auto simp: defs same_attempt_def plain_call_def attempt_once_def Let_def)
  next
    case True
    obtain st rows w' where r: "at_session a empty_rs (ds_db s) = ((st, rows), w')" by (metis prod.exhaust)
    show ?thesis
    proof (cases "status_ok (borrowSession (lf_name l) (at_borrow a))")
      case False
      then show ?thesis
        using e c off once g True by (auto simp: defs same_attempt_def plain_call_def attempt_once_def Let_def)
    next
      case True
      then show ?thesis
        using e c off once g \<open>status_ok gate\<close> r
        by (auto simp: defs same_attempt_def plain_call_def attempt_once_def Let_def split: if_splits)
    qed
  qed
qed

text \<open>
  The outcomes after which an asynchronous query stops, and the attempts that it makes, of at most
  \<open>left + 1\<close>: up to the first one that the breaker refuses or that has such an outcome. A synchronous
  query repeats retryable failures with the codes \<open>CircuitOpen\<close>, \<open>Overloaded\<close> and \<open>QueryTimeout\<close> too.
\<close>

definition async_final :: "Status \<Rightarrow> bool" where
  "async_final st \<longleftrightarrow> status_ok st \<or> \<not> retryable st \<or> code st \<in> {CircuitOpen, Overloaded, QueryTimeout}"

fun async_tries :: "string \<Rightarrow> CircuitBreakerConfig \<Rightarrow> (nat \<Rightarrow> (ResultSet, 'w) attempt) \<Rightarrow> nat \<Rightarrow> nat \<Rightarrow> 'w \<Rightarrow> Breaker \<Rightarrow> nat" where
  "async_tries name cfg att 0 k w b = 1"
| "async_tries name cfg att (Suc left) k w b =
     (case attempt_once name cfg (att k) empty_rs w b of
        (Inl gate, w', b') \<Rightarrow> 1
      | (Inr (st, rows), w', b') \<Rightarrow> if async_final st then 1 else Suc (async_tries name cfg att left (k + 1) w' b'))"

lemma query_retries_iff: "query_retries st \<longleftrightarrow> \<not> async_final st"
  by (auto simp: query_retries_def async_final_def)

lemma async_tries_pos: "0 < async_tries name cfg att left k w b"
  by (cases left) (auto split: prod.split sum.split)

lemma gate_not_retried: "beforeAttempt name cfg OK now b = (gate, b') \<Longrightarrow> \<not> query_retries gate \<and> \<not> execute_retries gate"
  by (auto simp: beforeAttempt_def circuit_status_def query_retries_def execute_retries_def error_def split: if_splits)

lemma query_run_agrees:
  assumes att: "\<And>j. same_attempt (lf_name l) empty_rs (env j) (att j)" and c: "plain_call c" "ac_timeout c \<le> 0"
  shows "\<not> caching l (s\<lparr>ds_scopes := [ac_context c]\<rparr>) \<Longrightarrow> k > 1 \<or> k = 1 \<and> rs0 = empty_rs \<Longrightarrow>
    attempt_loop (lf_name l) (lf_breaker l) att (\<lambda>k o'. if k > 1 then empty_rs else o')
      (async_tries (lf_name l) (lf_breaker l) att left k (ds_db s) (ds_breaker s (lf_name l))) k rs0 (ds_db s) (ds_breaker s (lf_name l)) =
      (st, rs1, w, b) \<Longrightarrow>
    \<exists>rows mode. query_run z env reg th l c left k s =
      (((st, rows), mode), s\<lparr>ds_db := w, ds_breaker := (ds_breaker s)(lf_name l := b)\<rparr>) \<and> (status_ok st \<longrightarrow> rows = rs1)"
proof (induction left arbitrary: k rs0 s)
  case (0 k rs0 s)
  obtain res w1 b1 where once: "attempt_once (lf_name l) (lf_breaker l) (att k) empty_rs (ds_db s) (ds_breaker s (lf_name l)) = (res, w1, b1)"
    by (metis prod_cases3)
  let ?c = "c\<lparr>ac_timeout := ac_timeout c, ac_gated := ac_gated c \<and> k = 1\<rparr>"
  have "plain_call ?c" "\<not> caching l (s\<lparr>ds_scopes := [ac_context ?c]\<rparr>)" using c 0 by (auto simp: plain_call_def)
  then obtain mode where one: "queryOne z (env k) reg th l ?c s =
      (Some (case res of Inl gate \<Rightarrow> (gate, empty_rs) | Inr x \<Rightarrow> x, mode), s\<lparr>ds_db := w1, ds_breaker := (ds_breaker s)(lf_name l := b1)\<rparr>)"
    using queryOne_attempt [OF att _ _ once] by blast
  show ?case
    using 0 once one att [of k] c(2)
    by (subst query_run.simps) (auto simp: same_attempt_def Let_def attempt_once_def split: sum.splits prod.splits if_splits)
next
  case (Suc left k rs0 s)
  obtain res w1 b1 where once: "attempt_once (lf_name l) (lf_breaker l) (att k) empty_rs (ds_db s) (ds_breaker s (lf_name l)) = (res, w1, b1)"
    by (metis prod_cases3)
  let ?c = "c\<lparr>ac_timeout := ac_timeout c, ac_gated := ac_gated c \<and> k = 1\<rparr>"
  let ?s = "s\<lparr>ds_db := w1, ds_breaker := (ds_breaker s)(lf_name l := b1)\<rparr>"
  let ?loop = "attempt_loop (lf_name l) (lf_breaker l) att (\<lambda>k o'. if k > 1 then empty_rs else o')"
  have "plain_call ?c" "\<not> caching l (s\<lparr>ds_scopes := [ac_context ?c]\<rparr>)" using c Suc.prems by (auto simp: plain_call_def)
  then obtain mode where one: "queryOne z (env k) reg th l ?c s = (Some (case res of Inl gate \<Rightarrow> (gate, empty_rs) | Inr x \<Rightarrow> x, mode), ?s)"
    using queryOne_attempt [OF att _ _ once] by blast
  have run: "query_run z env reg th l c (Suc left) k s =
      (let r = (case res of Inl gate \<Rightarrow> (gate, empty_rs) | Inr x \<Rightarrow> x, mode) in
       if query_retries (fst (fst r)) then query_run z env reg th l c left (k + 1) ?s else (r, ?s))"
    using att [of k] c(2) one by (subst query_run.simps) (simp add: same_attempt_def Let_def)
  show ?case
  proof (cases res)
    case (Inl gate)
    have refused: "\<not> status_ok gate" using once Inl by (auto simp: attempt_once_def Let_def split: prod.splits if_splits)
    have "\<not> query_retries gate"
      using once att [of k] gate_not_retried Inl
      by (auto simp: attempt_once_def same_attempt_def Let_def split: prod.splits if_splits)
    moreover have "st = gate" "w = w1" "b = b1" using Suc.prems(2,3) once Inl by auto
    ultimately show ?thesis using run Inl refused by (simp add: fun_upd_def)
  next
    case (Inr x)
    obtain st1 rs2 where x: "x = (st1, rs2)" by (cases x)
    show ?thesis
    proof (cases "query_retries st1")
      case False
      then have "(st, rs1, w, b) = (st1, rs2, w1, b1)" using Suc.prems(2,3) once Inr x
        by (auto simp: query_retries_iff split: if_splits)
      then show ?thesis using run Inr x False by (simp add: fun_upd_def)
    next
      case again: True
      let ?n = "async_tries (lf_name l) (lf_breaker l) att left (k + 1) w1 b1"
      obtain m where m: "?n = Suc m"
        using gr0_implies_Suc [OF async_tries_pos] by metis
      have "?loop (Suc ?n) k rs0 (ds_db s) (ds_breaker s (lf_name l)) = ?loop ?n (k + 1) rs2 w1 b1"
        using Suc.prems(2) once Inr x again unfolding m by (auto simp: query_retries_def)
      moreover have "async_tries (lf_name l) (lf_breaker l) att (Suc left) k (ds_db s) (ds_breaker s (lf_name l)) = Suc ?n"
        using once Inr x again by (simp add: query_retries_iff)
      ultimately have "?loop (async_tries (lf_name l) (lf_breaker l) att left (k + 1) (ds_db ?s) (ds_breaker ?s (lf_name l)))
          (k + 1) rs2 (ds_db ?s) (ds_breaker ?s (lf_name l)) = (st, rs1, w, b)" using Suc.prems(3) by simp
      moreover have "\<not> caching l (?s\<lparr>ds_scopes := [ac_context c]\<rparr>)" using Suc.prems(1) by (simp add: caching_def)
      moreover have "k + 1 > 1 \<or> k + 1 = 1 \<and> rs2 = empty_rs" using Suc.prems(2) by auto
      ultimately obtain rows mode1 where rest: "query_run z env reg th l c left (k + 1) ?s =
            (((st, rows), mode1), ?s\<lparr>ds_db := w, ds_breaker := (ds_breaker ?s)(lf_name l := b)\<rparr>)" "status_ok st \<longrightarrow> rows = rs1"
        using Suc.IH [of ?s "k + 1" rs2] by blast
      have "query_run z env reg th l c (Suc left) k s = query_run z env reg th l c left (k + 1) ?s"
        using run Inr x again by simp
      moreover have "?s\<lparr>ds_db := w, ds_breaker := (ds_breaker ?s)(lf_name l := b)\<rparr> =
          s\<lparr>ds_db := w, ds_breaker := (ds_breaker s)(lf_name l := b)\<rparr>" by simp
      ultimately show ?thesis using rest by metis
    qed
  qed
qed

text \<open>The leaf with its retry limit set to the attempts an asynchronous query makes on it.\<close>

definition async_limited :: "Leaf \<Rightarrow> (nat \<Rightarrow> (ResultSet, 'w) attempt) \<Rightarrow> ('op, 'w) ds_state \<Rightarrow> Leaf" where
  "async_limited l att s =
     l\<lparr>lf_retry := (lf_retry l)\<lparr>max_attempts :=
       int (async_tries (lf_name l) (lf_breaker l) att (nat (max_attempts (lf_retry l) - 1)) 1 (ds_db s) (ds_breaker s (lf_name l)))\<rparr>\<rparr>"

text \<open>
  C11: An asynchronous query of a leaf whose pool is open, without gate, interceptors, timeout
  and caching, which is not cancelled, whose tasks the executor accepts and whose breaker
  readings, borrows and driver calls are answered as those of the synchronous query, gives the
  status, the rows of a success, the database and the breaker of the synchronous query limited
  to the attempts that the asynchronous one makes: up to the configured number and to the first
  outcome that the asynchronous engine does not repeat, which is a success, a failure that is
  not retryable, or one with the code CircuitOpen, Overloaded or QueryTimeout (the synchronous
  loop repeats these three when they are marked retryable); whether the driver works
  asynchronously or through a session.
\<close>

theorem async_query_agrees:
  assumes alive: "lf_poolAlive l" and att: "\<And>j. same_attempt (lf_name l) empty_rs (env j) (qe_attempts e j)"
    and c: "plain_call c" "ac_timeout c \<le> 0"
    and off: "\<not> caching l s" "current (ds_scopes s) = ac_context c"
    and run: "leaf_queryUngated e (async_limited l (qe_attempts e) s) (ac_sql c) (ac_params c) empty_rs s = ((st, rs1), s')"
  shows "\<exists>rows mode. queryLeaf z env reg th l c s = (Some ((st, rows), mode), s') \<and> (status_ok st \<longrightarrow> rows = rs1)"
proof -
  let ?left = "nat (max_attempts (lf_retry l) - 1)"
  let ?n = "async_tries (lf_name l) (lf_breaker l) (qe_attempts e) ?left 1 (ds_db s) (ds_breaker s (lf_name l))"
  have off': "\<not> caching l (s\<lparr>ds_scopes := [ac_context c]\<rparr>)" using off by (simp add: caching_def current_def split: if_splits)
  have n: "nat (max 1 (int ?n)) = ?n" using async_tries_pos [of "lf_name l" "lf_breaker l" "qe_attempts e" ?left 1 "ds_db s" "ds_breaker s (lf_name l)"] by linarith
  have off1: "\<not> caching (async_limited l (qe_attempts e) s) s" using off(1) by (simp add: caching_def async_limited_def)
  obtain w b where "attempt_loop (lf_name l) (lf_breaker l) (qe_attempts e) (\<lambda>k o'. if k > 1 then empty_rs else o') ?n 1 empty_rs
      (ds_db s) (ds_breaker s (lf_name l)) = (st, rs1, w, b)"
    and s': "s' = s\<lparr>ds_db := w, ds_breaker := (ds_breaker s)(lf_name l := b)\<rparr>"
    using run off1 n
    by (auto simp: leaf_queryUngated_def leaf_loop_def async_limited_def Let_def simp del: attempt_loop.simps async_tries.simps split: prod.splits)
  from query_run_agrees [OF att c off' _ this(1)]
  obtain rows mode where "query_run z env reg th l c ?left 1 s = (((st, rows), mode), s')" "status_ok st \<longrightarrow> rows = rs1"
    unfolding s' by blast
  moreover have "nat (max 1 (max_attempts (lf_retry l)) - 1) = ?left" by linarith
  ultimately show ?thesis using alive by (simp add: queryLeaf_def)
qed

text \<open>A query whose first attempt meets a deadlock, on a driver with an asynchronous mode of its own.\<close>

definition deadlock_then_row :: "ResultSet \<Rightarrow> nat \<Rightarrow> (Status \<times> ResultSet) \<times> nat" where
  "deadlock_then_row rs0 w =
     (if w = 0 then ((error QueryError ''deadlock'')\<lparr>retryable := True\<rparr>, rs0) else (OK, \<lparr>rs_fields = [''n''], rs_rows = [[]], transformed = False\<rparr>), w + 1)"

definition sample_sync :: "(ResultSet, nat) query_env" where
  "sample_sync = \<lparr>qe_abi = sample_abi, qe_get = 0, qe_put = 0, qe_attempts = (\<lambda>_. \<lparr>at_stop = OK, at_before = 1, at_borrow = Borrowed,
     at_session = deadlock_then_row, at_stop_after = OK, at_after = 2\<rparr>)\<rparr>"

definition sample_async :: "(ResultSet, nat) async_env" where
  "sample_async = \<lparr>ax_run_stop = OK, ax_elapsed = 0, ax_pool = True, ax_posted = True, ax_gate = \<lparr>ge_stop = OK, ge_limiter = None\<rparr>,
     ax_get = 0, ax_stop = OK, ax_before = 1, ax_borrow = (OK, True), ax_stop_borrowed = OK, ax_native = True, ax_started = True,
     ax_timed_out = False, ax_driver = deadlock_then_row empty_rs, ax_stop_result = OK, ax_fallback = False,
     ax_session = deadlock_then_row empty_rs, ax_put = 0, ax_stop_after = OK, ax_after = 2\<rparr>"

definition async_sample :: "unit async_call" where
  "async_sample = \<lparr>ac_sql = ''SELECT n FROM t'', ac_params = [], ac_context = defaultInstance, ac_timeout = 0, ac_gated = False,
     ac_intercept = False\<rparr>"

definition uncached_state :: "(unit, nat) ds_state" where
  "uncached_state = sample_state\<lparr>ds_cache := initial_cache, ds_scopes := []\<rparr>"

abbreviation limited_sample :: Leaf where
  "limited_sample \<equiv> async_limited (sample_leaf ''main'') (qe_attempts sample_sync) uncached_state"

lemma sample_sync_query:
  "\<exists>s'. leaf_queryUngated sample_sync limited_sample (ac_sql async_sample) (ac_params async_sample) empty_rs uncached_state =
     ((OK, \<lparr>rs_fields = [''n''], rs_rows = [[]], transformed = False\<rparr>), s') \<and> ds_db s' = 2"
  by (simp add: leaf_queryUngated_def async_limited_def async_final_def status_ok_def sample_sync_def sample_leaf_def uncached_state_def sample_state_def
      initial_cache_def caching_def Let_def leaf_loop_def attempt_once_def beforeAttempt_def afterAttempt_def borrowSession_def
      deadlock_then_row_def new_breaker_def error_def numeral_eq_Suc status_ok_def OK_def)

definition no_interceptors :: "(unit, (unit, nat) ds_state) InterceptorRegistry" where
  "no_interceptors = \<lparr>r_id = 1, r_enabled = True, r_count = 0, r_interceptors = []\<rparr>"

theorem async_query_agrees_witness:
  "\<exists>mode s'. queryLeaf sample_abi (\<lambda>_. sample_async) no_interceptors idle_thread (sample_leaf ''main'') async_sample uncached_state =
     (Some ((OK, \<lparr>rs_fields = [''n''], rs_rows = [[]], transformed = False\<rparr>), mode), s') \<and> ds_db s' = 2"
proof -
  obtain s' where run: "leaf_queryUngated sample_sync limited_sample (ac_sql async_sample) (ac_params async_sample) empty_rs
      uncached_state = ((OK, \<lparr>rs_fields = [''n''], rs_rows = [[]], transformed = False\<rparr>), s')" and db: "ds_db s' = 2"
    using sample_sync_query by blast
  have "\<exists>rows mode. queryLeaf sample_abi (\<lambda>_. sample_async) no_interceptors idle_thread (sample_leaf ''main'') async_sample uncached_state =
      (Some ((OK, rows), mode), s') \<and> (status_ok OK \<longrightarrow> rows = \<lparr>rs_fields = [''n''], rs_rows = [[]], transformed = False\<rparr>)"
  proof (rule async_query_agrees [OF _ _ _ _ _ _ run])
    show "\<not> caching (sample_leaf ''main'') uncached_state" by (simp add: caching_def uncached_state_def initial_cache_def)
  qed (simp_all add: sample_leaf_def same_attempt_def sample_async_def sample_sync_def borrowSession_def plain_call_def async_sample_def
      deadlock_then_row_def error_def OK_def status_ok_def uncached_state_def current_def)
  then show ?thesis using db by auto
qed

end
