(* ===== verification/Spec2Isabelle.thy ===== *)
theory Spec2Isabelle
  imports SqlAuditor SqlLiterals NamedParams PoolSafety QueryCache SqlScript SqlBuilder SourceSessions Registry
    PgTypes OracleTypes Connection Pagination RateLimiter Client Executor Operations NativeQuery
    AsyncEngine
begin

text \<open>
  SQLConduit is a C++ database access library: a manager holds named data sources with connection pools
  and groups of them (a primary, replicas, failover candidates), and runs statements, sessions and
  transactions on them with auditing, retries, circuit breakers, a query cache and interceptors. This
  development models the core of the library under \<^verbatim>\<open>src/src\<close> and \<^verbatim>\<open>src/include/sqlconduit\<close> and proves what
  makes it correct. This theory imports all others; each of them opens with a text that says what it
  models and which choices it makes.

  \<^bold>\<open>The parts, from the bottom up.\<close>

  \<^item> \<open>Prelude\<close>: characters, decimal digits, string search, and the locale \<open>scan_loop\<close> for the scanners that
    step through a text. \<open>Types\<close> (\<^verbatim>\<open>common/types.h\<close>, \<^verbatim>\<open>types.cpp\<close>): values, rows, result sets, statuses, and the
    locale \<open>ordered_map\<close> with \<^verbatim>\<open>std::map\<close> as its instance. \<open>Values\<close> (\<^verbatim>\<open>types.cpp\<close>): time stamps, texts and literals
    of values. \<open>PgTypes\<close> and \<open>OracleTypes\<close> (\<^verbatim>\<open>common/pg_types.cpp\<close>, \<^verbatim>\<open>common/oracle_types.cpp\<close>): the formats the
    drivers exchange with the two databases. \<open>Yaml\<close> (\<^verbatim>\<open>config/yaml_parser.cpp\<close>), \<open>ConfigLoader\<close>
    (\<^verbatim>\<open>config_loader.cpp\<close>) and \<open>ConfigDiagnostics\<close> (\<^verbatim>\<open>config_diagnostics.cpp\<close>, \<^verbatim>\<open>datasource_config.cpp\<close>): configuration
    files, their validation and the reports on them.
  \<^item> SQL text. \<open>SqlAnalyze\<close> (\<^verbatim>\<open>common/sql_analyze.cpp\<close>): structural templates, fingerprints, masking of literals and
    comments, classification, clause tests. \<open>SqlDialect\<close> (\<^verbatim>\<open>common/sql_dialect.h\<close>, \<^verbatim>\<open>util.h\<close>): quoting of names and
    literals, routine calls. \<open>SqlLiterals\<close>: the analysis of statements with quoted literals. \<open>NamedParams\<close>
    (\<^verbatim>\<open>common/named_params.cpp\<close>), \<open>SqlBuilder\<close> (\<^verbatim>\<open>sql_builder.h\<close>, \<^verbatim>\<open>common/sql_builder.cpp\<close>) and \<open>SqlScript\<close> (\<^verbatim>\<open>util.h\<close>)
    bind, build and split statements. \<open>SqlAuditor\<close> (\<^verbatim>\<open>core/sql_auditor.cpp\<close>) decides which statements run.
  \<^item> The connection pool (\<^verbatim>\<open>core/connection_pool.cpp\<close>). \<open>ConnectionPool\<close> has one function per critical section of
    its mutex; \<open>PoolSystem\<close> composes them into a step relation of threads and tasks in any interleaving and
    proves the invariant, through the locale \<open>critical_section\<close> that every section is an instance of;
    \<open>PoolSafety\<close> draws the conclusions.
  \<^item> \<open>QueryCache\<close> (\<^verbatim>\<open>core/query_cache.cpp\<close>): the result cache, refined to a list in order of recency, and the
    locale \<open>result_cache\<close> of what its clients rely on. \<open>CacheKey\<close>: the keys under which results are stored.
    \<open>WriteBuffer\<close> (\<^verbatim>\<open>core/write_buffer.cpp\<close>): the buffer of writes and its worker, as a step relation.
  \<^item> \<open>Context\<close> (\<^verbatim>\<open>common/context.cpp\<close>): request scopes and trace headers. \<open>Interceptor\<close> (\<^verbatim>\<open>core/interceptor.cpp\<close>): the
    hooks around a statement.
  \<^item> \<^verbatim>\<open>core/database_manager.cpp\<close>, in the order of its classes: \<open>Session\<close> and \<open>Transactions\<close> (a session on a borrowed
    connection), \<open>CircuitBreaker\<close> (attempts, retries, the breaker), \<open>DataSource\<close> (the operations of plain
    sources and groups: gates, routing, caching, failover, buffering, cursors), \<open>SourceRouting\<close> (their
    theorems), \<open>SourceSessions\<close> (sessions and transactions of a source), \<open>Registry\<close> (the manager). \<open>RateLimiter\<close>
    (\<^verbatim>\<open>core/rate_limiter.h\<close>): the limiter the gates ask.
  \<^item> \<open>Connection\<close> (\<^verbatim>\<open>core/idatabase_connection.cpp\<close>): what a driver inherits, placeholders, logged statements,
    batches. \<open>Pagination\<close> (\<^verbatim>\<open>common/pagination.cpp\<close>, \<^verbatim>\<open>client_pagination.cpp\<close>): pages of a query.
  \<^item> The asynchronous side. \<open>Executor\<close> (\<^verbatim>\<open>async/executor.cpp\<close>): the thread pool. \<open>Operations\<close>
    (\<^verbatim>\<open>common/operation_options.cpp\<close>, \<^verbatim>\<open>operation_state.h\<close>): deadlines, cancellation, completions. \<open>NativeQuery\<close> and
    \<open>AsyncEngine\<close> (\<^verbatim>\<open>async/async_engine.cpp\<close>): one query in the driver's own asynchronous mode as a step relation,
    and the engine's operations on leaves and groups.
  \<^item> \<open>Client\<close> (\<^verbatim>\<open>client.cpp\<close>): the object the user holds, over the loader, the registry and an executor.

  \<^bold>\<open>How the parts interact.\<close> A statement on a source passes the gate (audit, rate limiter), the route
  callbacks and the interceptors; a group chooses a target; the leaf looks into the cache, asks its
  breaker, borrows a connection from its pool, runs the statement in a session, tells the breaker, retries
  or returns; a write then invalidates the cache and marks the group. The models are composed the same
  way: \<^const>\<open>gated\<close> runs an operation such as \<^const>\<open>executeUngated\<close>, which dispatches to
  \<^const>\<open>leaf_executeUngated\<close>, which runs \<^const>\<open>attempt_loop\<close> and \<^const>\<open>leaf_markWrite\<close> on the cache of
  \<open>QueryCache\<close>. The session of an attempt is a function in its surroundings, so that the theorems on
  routing hold for every session; the theorems of \<open>Session\<close> and \<open>Transactions\<close> say what the library's own
  sessions do.

  \<^bold>\<open>What is proved.\<close>

  \<^item> Pool: in every interleaving the connections that are idle, lent or in use by a thread never exceed the
    maximum (those that only wait to be closed may), each connection is in exactly one place, the counters
    tell the truth, requests are completed at most once, waiters are served in order, a closed pool lends
    nothing.
  \<^item> Statements: exact characterisations of the multi-statement and WHERE tests and of the classification of
    WITH statements; equal fingerprints for statements that differ in literal values; quoting reads back;
    named binding and the builder bind each value to its place; a built UPDATE or DELETE is one statement
    with a WHERE clause; scripts split back into their statements; the audit allows exactly what its rules
    and lists allow.
  \<^item> Cache and buffer: the cache is an LRU list, stays within its limits and returns only results put since
    the last invalidation; its keys are injective apart from typed values; the write buffer is bounded and
    keeps the order.
  \<^item> Sources: during a call a non-idempotent write is executed at most once and by one server of the group; a
    successful write is seen by later reads; read-only sources execute no write; the breaker counts the
    trailing failures and, after its interval, admits unless its probe has not reported; transactions commit
    all or nothing, and return clean connections when their commits and rollbacks succeed or report the
    connection broken; interceptors run once and can refuse.
  \<^item> Asynchronous calls: the executor runs each accepted task once and drains when it is shut down; stopping an
    operation reaches everything below it, deadlines are enforced, completions that are still held are called
    once; a native query and its timer complete the caller once and return the connection; an asynchronous
    query does what the synchronous one does with the same number of attempts.
  \<^item> Data: arrays, composites and geometric values, time stamps, RETURNING clauses and YAML documents read back
    what was written; the YAML parser terminates; placeholders are replaced in place; the log hides values; a
    batch is all or nothing; a page is a window of the result, with its total; the limiter keeps its rate.
  \<^item> Configuration: what the loader accepts is within limits that are written out apart from its checks; the offline check of the
    topology accepts exactly what \<^const>\<open>init\<close> accepts; messages and reports hide the secrets, and a preview of a
    reload still sees that one has changed.
  \<^item> Client: it starts from a file exactly when the offline checks pass; in every state of its life cycle it
    holds open pools and one executor while it runs and nothing otherwise; a shutdown is final.
  \<^item> Registry: members of registered groups stay registered with an open pool; removal and failed
    initialisation leave the registry intact.

  Where the code departs from what it is meant to do, a theorem states what it does: such theorems are
  \<open>expired_waiter_lost_on_handoff\<close>, \<open>shutdown_race_underflow\<close>, \<open>closing_exceeds_max\<close>, \<open>auditor_check_warning\<close>,
  \<open>postgres_procedure_call_forms\<close>, \<open>splitSqlScript_end_separator\<close>, \<open>splitSqlScript_end_if\<close>, \<open>cacheKey_collides\<close>,
  \<open>pinRequestWrite_leaves_current\<close>, \<open>transaction_deadline_leaks_open_transaction\<close>,
  \<open>failed_close_keeps_connection\<close>, \<open>buffered_write_loses_mark\<close>, \<open>dropped_completion_not_called\<close>,
  \<open>open_cursor_blocks_half_open_breaker\<close>, \<open>unreachable_target_ends_failover\<close>,
  \<open>group_queryAll_never_reaches_a_server\<close>, \<open>failed_init_loses_default\<close>, \<open>failed_addGroup_leaves_flag\<close>,
  \<open>init_group_ignores_cursor_settings\<close>, \<open>pgComposite_loses_elements\<close>, \<open>non_numbers_not_read_back\<close>,
  \<open>parsed_timestamp_exceeds_clock\<close>, \<open>log_shows_nested_strings\<close>, \<open>new_fingerprints_unlimited_at_cap\<close>,
  \<open>apostrophe_drops_items\<close>, \<open>redact_leaves_connection_string\<close>, \<open>describe_shows_dsn\<close>, \<open>add_races_shutdown\<close> and
  \<open>reload_keeps_executor\<close>.

  \<^bold>\<open>Conventions.\<close> Strings are byte strings. Statuses are records and every early return is a branch.
  Output parameters are returned, with their value on failure as the code leaves it. The clock, the
  answers of drivers, callbacks, random draws and the status of the current operation at each point are
  arguments; what is assumed of them is a hypothesis of the theorem that needs it. Words have the width of
  the code where wrap-around matters (hashes, counters of rounds and spans, the pool's unsigned total);
  durations and counts are integers. All functions are total: loops are structural recursion or have a
  termination proof, and retry loops are bounded by the configured attempts. Only the YAML parser, whose
  methods call each other, counts its calls: \<^const>\<open>parseYaml\<close> allows three per line and three more, which is
  always enough (\<open>parseYaml_terminates\<close>). Floating point numbers are words, abstract operations or rationals,
  as each theory says.

  \<^bold>\<open>Not modelled.\<close> The drivers and the third-party client libraries they call, the templates that map rows to user
  structs, and everything that only reports (logging, metrics, statistics, exporters).
\<close>

end
